(* ===== verification/Prelude.thy ===== *)
theory Prelude
  imports Main "HOL-Library.Word" "HOL-Library.Multiset" "HOL-Library.Sublist"
begin

text \<open>
  Shared vocabulary of the development: the fixed-width integers of Go, byte slices with
  their nil value, the outcome of code that may panic or exit, configuration maps, and the
  parts of Go's packages \<open>strings\<close>, \<open>strconv\<close> and \<open>fmt\<close> that the segments use.
  Strings are byte strings; letter case is that of ASCII.
\<close>

unbundle bit_operations_syntax

named_theorems seg_defs \<open>step functions of the segments, unfolded by the contract proofs\<close>
named_theorems net_simps \<open>rewrite rules of the goroutine network\<close>

section \<open>Go values\<close>

type_synonym u8 = "8 word"
type_synonym u16 = "16 word"
type_synonym u32 = "32 word"
type_synonym u64 = "64 word"
type_synonym i32 = "32 word"

text \<open>A \<open>[]byte\<close>: \<open>None\<close> is the nil slice.\<close>

type_synonym byte_slice = "u8 list option"

definition bytes_of :: "byte_slice \<Rightarrow> u8 list" where
  "bytes_of b = (case b of None \<Rightarrow> [] | Some xs \<Rightarrow> xs)"

lemma bytes_of_simps [simp]:
  "bytes_of None = []" "bytes_of (Some xs) = xs"
  by (simp_all add: bytes_of_def)

text \<open>How a goroutine can end abnormally: a run-time panic or \<open>log.Fatal\<close> (exit).\<close>

datatype failure = Panic string | Fatal string

type_synonym 'a outcome = "failure + 'a"

text \<open>\<open>map[string]string\<close>: indexing a missing key gives the empty string.\<close>

type_synonym config_map = "string \<rightharpoonup> string"

definition cfg :: "config_map \<Rightarrow> string \<Rightarrow> string" where
  "cfg c k = (case c k of None \<Rightarrow> '''' | Some v \<Rightarrow> v)"

lemma cfg_upd [simp]: "cfg (c(k \<mapsto> v)) k' = (if k' = k then v else cfg c k')"
  by (simp add: cfg_def)

lemma cfg_empty [simp]: "cfg Map.empty k = ''''"
  by (simp add: cfg_def)

section \<open>Strings\<close>

definition lower_char :: "char \<Rightarrow> char" where
  "lower_char c = (let n = (of_char c :: nat) in
     if 65 \<le> n \<and> n \<le> 90 then char_of (n + 32) else c)"

definition upper_char :: "char \<Rightarrow> char" where
  "upper_char c = (let n = (of_char c :: nat) in
     if 97 \<le> n \<and> n \<le> 122 then char_of (n - 32) else c)"

definition to_lower :: "string \<Rightarrow> string" where
  "to_lower = map lower_char"

definition to_upper :: "string \<Rightarrow> string" where
  "to_upper = map upper_char"

lemma lower_char_idem [simp]: "lower_char (lower_char c) = lower_char c"
  by (auto simp: lower_char_def Let_def)

lemma to_lower_idem [simp]: "to_lower (to_lower s) = to_lower s"
  by (simp add: to_lower_def)

lemma length_to_lower [simp]: "length (to_lower s) = length s"
  by (simp add: to_lower_def)

text \<open>\<open>strings.Contains s sub\<close>.\<close>

fun str_contains :: "string \<Rightarrow> string \<Rightarrow> bool" where
  "str_contains [] sub = (sub = [])"
| "str_contains (c # s) sub = (prefix sub (c # s) \<or> str_contains s sub)"

lemma str_contains_iff_sublist: "str_contains s sub \<longleftrightarrow> sublist sub s"
  by (induction s) (auto simp: sublist_Cons_right)

text \<open>\<open>strings.Split s sep\<close> for a separator of one byte.\<close>

fun split_on :: "char \<Rightarrow> string \<Rightarrow> string list" where
  "split_on c [] = [[]]"
| "split_on c (x # xs) =
     (if x = c then [] # split_on c xs
      else (case split_on c xs of [] \<Rightarrow> [[x]] | w # ws \<Rightarrow> (x # w) # ws))"

fun join_with :: "string \<Rightarrow> string list \<Rightarrow> string" where
  "join_with sep [] = ''''"
| "join_with sep [w] = w"
| "join_with sep (w # v # ws) = w @ sep @ join_with sep (v # ws)"

lemma join_with_set: "set (join_with sep ws) \<subseteq> set sep \<union> \<Union> (set ` set ws)"
  by (induction sep ws rule: join_with.induct) auto

lemma split_on_nonempty [simp]: "split_on c s \<noteq> []"
  by (induction s) (auto split: list.splits)

lemma split_on_word: "c \<notin> set w \<Longrightarrow> split_on c w = [w]"
  by (induction w) auto

lemma split_on_append:
  "c \<notin> set w \<Longrightarrow> split_on c (w @ c # s) = w # split_on c s"
  by (induction w) auto

lemma split_join:
  assumes "ws \<noteq> []" "\<forall>w\<in>set ws. c \<notin> set w"
  shows "split_on c (join_with [c] ws) = ws"
  using assms
  by (induction "[c]" ws rule: join_with.induct) (auto simp: split_on_word split_on_append)

text \<open>White space in the sense of \<open>unicode.IsSpace\<close>, on ASCII.\<close>

definition is_space :: "char \<Rightarrow> bool" where
  "is_space c = ((of_char c :: nat) \<in> {9, 10, 11, 12, 13, 32})"

definition trim_space :: "string \<Rightarrow> string" where
  "trim_space s = rev (dropWhile is_space (rev (dropWhile is_space s)))"

text \<open>\<open>strings.Fields\<close>: the maximal runs of non-space bytes.\<close>

function fields :: "string \<Rightarrow> string list" where
  "fields s = (let t = dropWhile is_space s in
     if t = [] then [] else takeWhile (\<lambda>c. \<not> is_space c) t # fields (dropWhile (\<lambda>c. \<not> is_space c) t))"
  by pat_completeness auto
termination
proof (relation "measure length", simp)
  fix s t :: string
  assume t: "t = dropWhile is_space s" and "t \<noteq> []"
  then obtain c u where cu: "t = c # u" by (metis list.exhaust)
  have "\<not> is_space c" using t cu by (metis hd_dropWhile list.sel(1) list.distinct(1))
  then have "length (dropWhile (\<lambda>c. \<not> is_space c) t) \<le> length u"
    using cu by (simp add: length_dropWhile_le)
  also have "\<dots> < length s"
    using length_dropWhile_le [of is_space s] by (simp flip: t add: cu)
  finally show "(dropWhile (\<lambda>c. \<not> is_space c) t, s) \<in> measure length" by simp
qed

declare fields.simps [simp del]

lemma fields_Nil [simp]: "fields '''' = []"
  by (subst fields.simps) simp

lemma fields_space [simp]: "is_space c \<Longrightarrow> fields (c # s) = fields s"
  by (subst (1 2) fields.simps) simp

lemma fields_word:
  assumes "w \<noteq> []" "\<forall>c\<in>set w. \<not> is_space c" "s = [] \<or> is_space (hd s)"
  shows "fields (w @ s) = w # fields s"
proof -
  obtain c u where w: "w = c # u" using assms(1) by (cases w) auto
  have 1: "dropWhile is_space (w @ s) = w @ s" using assms(2) w by simp
  have 2: "takeWhile (\<lambda>c. \<not> is_space c) (w @ s) = w"
    using assms(2,3) by (cases s) (auto simp: takeWhile_append)
  have 3: "dropWhile (\<lambda>c. \<not> is_space c) (w @ s) = s"
    using assms(2,3) by (cases s) (auto simp: dropWhile_append)
  show ?thesis by (subst fields.simps) (simp only: 1 2 3 Let_def assms(1) append_is_Nil_conv simp_thms if_False)
qed

lemma fields_join:
  assumes "\<forall>w\<in>set ws. w \<noteq> [] \<and> (\<forall>c\<in>set w. \<not> is_space c)"
  shows "fields (join_with '' '' ws) = ws"
  using assms
proof (induction "'' ''" ws rule: join_with.induct)
  case 1 then show ?case by simp
next
  case (2 w)
  then show ?case using fields_word [of w "[]"] by simp
next
  case (3 w v ws)
  have sp: "is_space (CHR '' '')" by (simp add: is_space_def)
  have "fields (w @ '' '' @ join_with '' '' (v # ws)) = w # fields ('' '' @ join_with '' '' (v # ws))"
    using 3(2) sp by (intro fields_word) auto
  with 3 sp show ?case by simp
qed


section \<open>Numbers and their text\<close>

definition digit_char :: "nat \<Rightarrow> char" where
  "digit_char d = (if d < 10 then char_of (48 + d) else char_of (87 + d))"

definition digit_val :: "char \<Rightarrow> nat option" where
  "digit_val c = (let n = (of_char c :: nat) in if 48 \<le> n \<and> n \<le> 57 then Some (n - 48) else None)"

text \<open>\<open>strconv.FormatUint(n, base)\<close> for bases 10 and 16.\<close>

function to_base :: "nat \<Rightarrow> nat \<Rightarrow> string" where
  "to_base b n = (if b < 2 \<or> n < b then [digit_char n] else to_base b (n div b) @ [digit_char (n mod b)])"
  by pat_completeness auto
termination
  by (relation "measure (\<lambda>(b, n). n)") auto

declare to_base.simps [simp del]

definition dec :: "nat \<Rightarrow> string" where
  "dec n = to_base 10 n"

definition hex :: "nat \<Rightarrow> string" where
  "hex n = to_base 16 n"

text \<open>The verb \<open>%02x\<close>.\<close>

definition hex02 :: "nat \<Rightarrow> string" where
  "hex02 n = (if n < 16 then ''0'' @ hex n else hex n)"

fun parse_digits :: "nat \<Rightarrow> string \<Rightarrow> nat option" where
  "parse_digits acc [] = Some acc"
| "parse_digits acc (c # s) =
     (case digit_val c of None \<Rightarrow> None | Some d \<Rightarrow> parse_digits (10 * acc + d) s)"

text \<open>\<open>strconv.ParseUint(s, 10, bits)\<close>; \<open>None\<close> stands for a syntax or range error.\<close>

definition parse_uint :: "nat \<Rightarrow> string \<Rightarrow> nat option" where
  "parse_uint bits s =
     (if s = [] then None
      else case parse_digits 0 s of
        None \<Rightarrow> None
      | Some n \<Rightarrow> if n < 2 ^ bits then Some n else None)"

text \<open>\<open>strconv.ParseInt(s, 10, bits)\<close>; \<open>strconv.Atoi\<close> is the case of 64 bits.\<close>

definition parse_int :: "nat \<Rightarrow> string \<Rightarrow> int option" where
  "parse_int bits s =
     (let neg = (s \<noteq> [] \<and> hd s = CHR ''-'');
          body = (if s \<noteq> [] \<and> (hd s = CHR ''-'' \<or> hd s = CHR ''+'') then tl s else s)
      in if body = [] then None
         else case parse_digits 0 body of
           None \<Rightarrow> None
         | Some n \<Rightarrow>
             if neg then (if n \<le> 2 ^ (bits - 1) then Some (- int n) else None)
             else (if n < 2 ^ (bits - 1) then Some (int n) else None))"

abbreviation atoi :: "string \<Rightarrow> int option" where
  "atoi \<equiv> parse_int 64"

text \<open>\<open>strconv.ParseBool\<close>.\<close>

definition parse_bool :: "string \<Rightarrow> bool option" where
  "parse_bool s =
     (if s \<in> {''1'', ''t'', ''T'', ''TRUE'', ''true'', ''True''} then Some True
      else if s \<in> {''0'', ''f'', ''F'', ''FALSE'', ''false'', ''False''} then Some False
      else None)"

text \<open>The idiom \<open>b, err := strconv.ParseBool(s)\<close> with the error ignored.\<close>

definition parse_bool_or_false :: "string \<Rightarrow> bool" where
  "parse_bool_or_false s = (parse_bool s = Some True)"

lemma digit_val_digit_char [simp]: "d < 10 \<Longrightarrow> digit_val (digit_char d) = Some d"
  by (simp add: digit_val_def digit_char_def Let_def)

lemma parse_digits_append:
  "parse_digits acc (s @ t) =
     (case parse_digits acc s of None \<Rightarrow> None | Some m \<Rightarrow> parse_digits m t)"
  by (induction acc s rule: parse_digits.induct) (auto split: option.splits)

lemma to_base_ne [simp]: "to_base b n \<noteq> []"
  by (subst to_base.simps) simp

lemma parse_digits_dec: "parse_digits 0 (to_base 10 n) = Some n"
proof (induction n rule: less_induct)
  case (less n)
  show ?case
  proof (cases "n < 10")
    case True then show ?thesis by (subst to_base.simps) simp
  next
    case False
    then have "parse_digits 0 (to_base 10 (n div 10)) = Some (n div 10)" by (intro less) simp
    with False show ?thesis by (subst to_base.simps) (simp add: parse_digits_append)
  qed
qed

lemma parse_uint_dec [simp]: "n < 2 ^ bits \<Longrightarrow> parse_uint bits (dec n) = Some n"
  by (simp add: parse_uint_def dec_def parse_digits_dec)

lemma parse_uint_bound: "parse_uint bits s = Some n \<Longrightarrow> n < 2 ^ bits"
  by (auto simp: parse_uint_def split: if_splits option.splits)

lemma dec_digits: "c \<in> set (dec n) \<Longrightarrow> \<exists>d<10. c = digit_char d"
proof (unfold dec_def, induction n rule: less_induct)
  case (less n)
  show ?case
  proof (cases "n < 10")
    case True
    with less.prems show ?thesis by (subst (asm) to_base.simps) auto
  next
    case False
    with less.prems have "c \<in> set (to_base 10 (n div 10)) \<or> c = digit_char (n mod 10)"
      by (subst (asm) to_base.simps) auto
    moreover have "n div 10 < n" using False by simp
    moreover have "n mod 10 < 10" by simp
    ultimately show ?thesis by (elim disjE) (erule (1) less.IH, intro exI conjI)
  qed
qed

lemma digit_char_not_space: "d < 10 \<Longrightarrow> \<not> is_space (digit_char d)"
  by (auto simp: digit_char_def is_space_def)

lemma dec_not_space: "c \<in> set (dec n) \<Longrightarrow> \<not> is_space c"
  using dec_digits digit_char_not_space by blast

lemma dec_nonempty [simp]: "dec n \<noteq> []"
  by (simp add: dec_def)

lemma dec_inj: "dec m = dec n \<Longrightarrow> m = n"
  by (metis dec_def option.inject parse_digits_dec)

section \<open>Lists\<close>

text \<open>Facts on lists and multisets that several components use.\<close>

lemma filter_partition_mset: "mset (filter P xs) + mset (filter (\<lambda>x. \<not> P x) xs) = mset xs"
  by (induction xs) auto

lemma mset_concat_map: "mset (concat (map f xs)) = (\<Sum>x\<leftarrow>xs. mset (f x))"
  by (induction xs) auto

lemma sum_list_map_update:
  "i < length xs \<Longrightarrow> (\<Sum>x\<leftarrow>xs[i := y]. f x) + f (xs ! i) = (\<Sum>x\<leftarrow>xs. f x) + (f y :: 'a::comm_monoid_add)"
proof (induction xs arbitrary: i)
  case (Cons x xs)
  show ?case
  proof (cases i)
    case 0
    then show ?thesis by (simp add: add.commute add.left_commute)
  next
    case (Suc j)
    with Cons have "(\<Sum>x\<leftarrow>xs[j := y]. f x) + f (xs ! j) = (\<Sum>x\<leftarrow>xs. f x) + f y" by simp
    with Suc show ?thesis by (simp add: add.assoc)
  qed
qed simp

section \<open>Failing computations\<close>

abbreviation or_fail :: "'a outcome \<Rightarrow> ('a \<Rightarrow> 'b outcome) \<Rightarrow> 'b outcome" where
  "or_fail r f \<equiv> (case r of Inl e \<Rightarrow> Inl e | Inr x \<Rightarrow> f x)"

text \<open>\<open>make(chan T, n)\<close> for pointers: the run-time panics when the buffer exceeds the address space.\<close>

definition max_chan :: int where "max_chan = (2 ^ 48 - 96) div 8"

definition make_chan :: "int \<Rightarrow> int outcome" where
  "make_chan n = (if n < 0 \<or> n > max_chan then Inl (Panic ''makechan: size out of range'') else Inr n)"

lemma or_fail_Inr: "or_fail r f = Inr y \<longleftrightarrow> (\<exists>x. r = Inr x \<and> f x = Inr y)"
  by (cases r) auto

lemma make_chan_Inr [simp]: "make_chan n = Inr k \<longleftrightarrow> k = n \<and> 0 \<le> n \<and> n \<le> max_chan"
  by (auto simp: make_chan_def)

text \<open>An option with a truth value: the default unless it is set and can be parsed.\<close>

definition bool_option :: "bool \<Rightarrow> string \<Rightarrow> bool" where
  "bool_option dflt v = (if v \<noteq> [] then (case parse_bool v of Some b \<Rightarrow> b | None \<Rightarrow> dflt) else dflt)"

end
