(* ===== verification/GoFloat.thy ===== *)
theory GoFloat
  imports Prelude "HOL-Library.Log_Nat"
begin

text \<open>
  The finite, normal part of Go's \<open>float64\<close>, as rational numbers: a value is rounded to the
  nearest number with a 53-bit significand, ties to even. Overflow to infinity, NaN and
  subnormal numbers do not occur for the magnitudes the segments compute with (integers below
  \<open>2 ^ 64\<close> times constants between \<open>1e-9\<close> and \<open>1e9\<close>) and are not represented.
\<close>

section \<open>Rounding to 53 bits\<close>

text \<open>The exponent of a positive rational: \<open>2 powi expo x \<le> x < 2 powi (expo x + 1)\<close>.\<close>

definition expo :: "rat \<Rightarrow> int" where
  "expo x = (let (a, b) = quotient_of x;
                 k = int (floorlog 2 (nat a)) - int (floorlog 2 (nat b))
             in if 2 powi k \<le> x then k else k - 1)"

definition round_even :: "rat \<Rightarrow> int" where
  "round_even q = (let f = \<lfloor>q\<rfloor>; r = q - of_int f in
     if r < 1 / 2 then f else if r > 1 / 2 then f + 1 else if even f then f else f + 1)"

definition f64_pos :: "rat \<Rightarrow> rat" where
  "f64_pos x = (let u = 2 powi (expo x - 52) in of_int (round_even (x / u)) * u)"

definition f64 :: "rat \<Rightarrow> rat" where
  "f64 x = (if x = 0 then 0 else if x < 0 then - f64_pos (- x) else f64_pos x)"

definition f64_mul :: "rat \<Rightarrow> rat \<Rightarrow> rat" where
  "f64_mul a b = f64 (a * b)"

definition f64_div :: "rat \<Rightarrow> rat \<Rightarrow> rat" where
  "f64_div a b = f64 (a / b)"

text \<open>\<open>float64(w)\<close> for an unsigned \<open>w\<close>.\<close>

definition u64_to_f64 :: "u64 \<Rightarrow> rat" where
  "u64_to_f64 w = f64 (of_nat (unat w))"

text \<open>\<open>math.Round\<close>: to the nearest integer, halves away from zero.\<close>

definition math_Round :: "rat \<Rightarrow> rat" where
  "math_Round x = (if 0 \<le> x then of_int \<lfloor>x + 1 / 2\<rfloor> else - of_int \<lfloor>- x + 1 / 2\<rfloor>)"

text \<open>
  \<open>uint64(x)\<close> truncates; where the value does not fit, the language leaves the result to the
  implementation, here the argument \<open>ovf\<close>.
\<close>

definition f64_to_u64 :: "(rat \<Rightarrow> u64) \<Rightarrow> rat \<Rightarrow> u64" where
  "f64_to_u64 ovf x = (if 0 \<le> x \<and> x < 2 ^ 64 then word_of_int \<lfloor>x\<rfloor> else ovf x)"

section \<open>Lemmas\<close>

lemma expo_bounds:
  assumes "0 < x"
  shows "2 powi expo x \<le> x \<and> x < 2 powi (expo x + 1)"
proof -
  obtain a b where ab: "quotient_of x = (a, b)" by fastforce
  have b: "0 < b" using ab by (rule quotient_of_denom_pos)
  have x: "x = of_int a / of_int b" using ab by (rule quotient_of_div)
  have a: "0 < a" using assms x b by (simp add: zero_less_divide_iff)
  define la lb where "la = floorlog 2 (nat a)" and "lb = floorlog 2 (nat b)"
  have A: "2 ^ (la - 1) \<le> nat a" "nat a < 2 ^ la" and la: "0 < la"
    using floorlog_bounds [of "nat a" 2] a by (auto simp: la_def floorlog_def)
  have B: "2 ^ (lb - 1) \<le> nat b" "nat b < 2 ^ lb" and lb: "0 < lb"
    using floorlog_bounds [of "nat b" 2] b by (auto simp: lb_def floorlog_def)
  have A': "(2::rat) ^ (la - 1) \<le> of_int a" "of_int a < (2::rat) ^ la"
    using A a by (metis of_nat_le_iff of_nat_numeral of_nat_power of_nat_nat less_imp_le,
                  metis of_nat_less_iff of_nat_numeral of_nat_power of_nat_nat less_imp_le)
  have B': "(2::rat) ^ (lb - 1) \<le> of_int b" "of_int b < (2::rat) ^ lb"
    using B b by (metis of_nat_le_iff of_nat_numeral of_nat_power of_nat_nat less_imp_le,
                  metis of_nat_less_iff of_nat_numeral of_nat_power of_nat_nat less_imp_le)
  define k where "k = int la - int lb"
  have up: "x < 2 powi (k + 1)"
  proof -
    have "x < 2 ^ la / of_int b" using x A' b by (simp add: divide_strict_right_mono)
    also have "\<dots> \<le> 2 ^ la / 2 ^ (lb - 1)" using B' b by (intro divide_left_mono) auto
    also have "\<dots> = 2 powi (k + 1)"
      using lb by (simp add: k_def power_int_diff power_int_add power_diff)
    finally show ?thesis .
  qed
  have low: "2 powi (k - 1) \<le> x"
  proof -
    have "2 powi (k - 1) = (2::rat) ^ (la - 1) / 2 ^ lb"
      using la by (simp add: k_def power_int_diff power_diff)
    also have "\<dots> \<le> 2 ^ (la - 1) / of_int b" using B' b by (intro divide_left_mono) auto
    also have "\<dots> \<le> x" using x A' b by (simp add: divide_right_mono)
    finally show ?thesis .
  qed
  have "expo x = (if 2 powi k \<le> x then k else k - 1)"
    by (simp add: expo_def ab k_def la_def lb_def)
  then show ?thesis using up low by auto
qed

lemma expo_less:
  assumes "0 < x" "x < 2 powi k"
  shows "expo x < k"
proof -
  have "(2::rat) powi expo x < 2 powi k" using expo_bounds [OF assms(1)] assms(2) by linarith
  then show ?thesis
    using power_int_increasing [of k "expo x" "2::rat"] by linarith
qed

lemma round_even_int [simp]: "round_even (of_int n) = n"
  by (simp add: round_even_def)

lemma round_even_error: "\<bar>of_int (round_even q) - q\<bar> \<le> 1 / 2"
proof -
  define r where "r = q - of_int \<lfloor>q\<rfloor>"
  have q: "q = of_int \<lfloor>q\<rfloor> + r" and "0 \<le> r" "r < 1"
    unfolding r_def by linarith+
  moreover have "round_even q = (if r < 1 / 2 then \<lfloor>q\<rfloor> else if r > 1 / 2 then \<lfloor>q\<rfloor> + 1
      else if even \<lfloor>q\<rfloor> then \<lfloor>q\<rfloor> else \<lfloor>q\<rfloor> + 1)"
    by (simp add: round_even_def r_def Let_def)
  ultimately show ?thesis by (auto simp: abs_if)
qed

theorem f64_exact_nat:
  assumes "n < 2 ^ 53"
  shows "f64 (of_nat n) = of_nat n"
proof (cases "n = 0")
  case False
  let ?x = "of_nat n :: rat"
  have pos: "0 < ?x" using False by simp
  have "?x < 2 powi 53"
    using assms by (metis of_nat_less_iff of_nat_numeral of_nat_power power_int_numeral)
  then have e: "expo ?x < 53" using pos by (rule expo_less [rotated])
  have e0: "0 \<le> expo ?x"
  proof (rule ccontr)
    assume "\<not> 0 \<le> expo ?x"
    then have "(2::rat) powi (expo ?x + 1) \<le> 2 powi 0" by (intro power_int_increasing) auto
    then show False using expo_bounds [OF pos] False by (simp add: Suc_leI)
  qed
  define d where "d = nat (52 - expo ?x)"
  have u: "(2::rat) powi (expo ?x - 52) = 1 / 2 ^ d"
  proof -
    have "expo ?x - 52 = - int d" using e by (simp add: d_def)
    then show ?thesis by (simp only: power_int_minus power_int_of_nat inverse_eq_divide)
  qed
  have "?x / (1 / 2 ^ d) = of_int (int n * 2 ^ d)" by simp
  then have "f64_pos ?x = ?x"
    by (simp only: f64_pos_def Let_def u round_even_int) simp
  then show ?thesis using pos False by (simp add: f64_def)
qed (simp add: f64_def)

theorem f64_error:
  assumes "0 < x"
  shows "\<bar>f64 x - x\<bar> \<le> x / 2 ^ 53"
proof -
  define u where "u = (2::rat) powi (expo x - 52)"
  have u0: "0 < u" by (simp add: u_def)
  have "f64 x - x = (of_int (round_even (x / u)) - x / u) * u"
    using assms u0 by (simp add: f64_def f64_pos_def u_def [symmetric] field_simps)
  then have "\<bar>f64 x - x\<bar> = \<bar>of_int (round_even (x / u)) - x / u\<bar> * u"
    using u0 by (simp add: abs_mult)
  also have "\<dots> \<le> 1 / 2 * u"
    using round_even_error u0 by (intro mult_right_mono) auto
  also have "\<dots> = 2 powi expo x / 2 ^ 53" by (simp add: u_def power_int_diff)
  also have "\<dots> \<le> x / 2 ^ 53"
    using expo_bounds [OF assms] by (intro divide_right_mono) auto
  finally show ?thesis .
qed

lemma f64_nonneg: "0 \<le> x \<Longrightarrow> 0 \<le> f64 x"
proof (cases "x = 0")
  case False
  assume "0 \<le> x"
  with False have x: "0 < x" by simp
  have "x / 2 ^ 53 \<le> x" using x by (simp add: field_simps)
  then show ?thesis using f64_error [OF x] by linarith
qed (simp add: f64_def)

text \<open>Scaling by a power of two is exact.\<close>

lemma expo_unique:
  assumes "2 powi k \<le> x" "x < 2 powi (k + 1)"
  shows "expo x = k"
proof -
  have x: "0 < x" using assms(1) by (meson less_le_trans zero_less_numeral zero_less_power_int)
  have "expo x < k + 1" by (rule expo_less [OF x assms(2)])
  moreover have "\<not> expo x < k"
  proof
    assume "expo x < k"
    then have "(2::rat) powi (expo x + 1) \<le> 2 powi k" by (intro power_int_increasing) auto
    with expo_bounds [OF x] assms(1) show False by linarith
  qed
  ultimately show ?thesis by linarith
qed

lemma f64_times8: "f64 (8 * x) = 8 * f64 x"
proof -
  have pos: "f64_pos (8 * x) = 8 * f64_pos x" if x: "0 < x" for x
  proof -
    have "2 powi (expo x + 3) \<le> 8 * x" "8 * x < 2 powi (expo x + 3 + 1)"
      using expo_bounds [OF x] by (simp_all add: power_int_add)
    then have "expo (8 * x) = expo x + 3" by (rule expo_unique)
    then show ?thesis by (simp add: f64_pos_def Let_def power_int_add power_int_diff mult.commute)
  qed
  show ?thesis using pos [of x] pos [of "- x"] by (auto simp: f64_def)
qed

lemma math_Round_nat [simp]: "math_Round (of_nat n) = of_nat n"
proof -
  have "\<lfloor>(of_nat n :: rat) + 1 / 2\<rfloor> = int n" by linarith
  then show ?thesis by (simp add: math_Round_def)
qed

lemma math_Round_error: "0 \<le> x \<Longrightarrow> \<bar>math_Round x - x\<bar> \<le> 1 / 2"
  unfolding math_Round_def by (simp add: abs_if) linarith

lemma f64_to_u64_nat [simp]:
  "n < 2 ^ 64 \<Longrightarrow> f64_to_u64 ovf (of_nat n) = of_nat n"
proof -
  assume n: "n < 2 ^ 64"
  have "(of_nat n :: rat) < of_nat (2 ^ 64)" using n by (simp only: of_nat_less_iff)
  then show ?thesis by (simp add: f64_to_u64_def)
qed

lemma u64_to_f64_small: "unat w < 2 ^ 53 \<Longrightarrow> u64_to_f64 w = of_nat (unat w)"
  using f64_exact_nat [of "unat w"] by (simp add: u64_to_f64_def)


text \<open>Truncating the rounded quotient of two small numbers is integer division.\<close>

lemma f64_floor_div:
  assumes "a < 2 ^ 53" "0 < b"
  shows "\<lfloor>f64 (of_nat a / of_nat b)\<rfloor> = int (a div b)"
proof (cases "a = 0")
  case True then show ?thesis by (simp add: f64_def)
next
  case False
  define q where "q = a div b"
  define x where "x = (of_nat a / of_nat b :: rat)"
  have b: "(0 :: rat) < of_nat b" using assms(2) by simp
  have x0: "0 < x" using False b by (simp add: x_def)
  have a53: "(of_nat a :: rat) < 2 ^ 53"
    using assms(1) of_nat_less_iff [of a "2 ^ 53", where 'a = rat] by simp
  have e: "\<bar>f64 x - x\<bar> < 1 / of_nat b"
  proof -
    have "x / 2 ^ 53 < 1 / of_nat b" using a53 b by (simp add: x_def field_simps)
    then show ?thesis using f64_error [OF x0] by linarith
  qed
  have ab: "a = q * b + a mod b" "a mod b < b" using assms(2) by (simp_all add: q_def)
  have "a + 1 \<le> (q + 1) * b" using ab by (simp add: algebra_simps)
  then have "of_nat (a + 1) \<le> (of_nat ((q + 1) * b) :: rat)" by (simp only: of_nat_le_iff)
  then have hi: "x + 1 / of_nat b \<le> of_nat q + 1"
    using b by (simp add: x_def field_simps)
  have lo: "of_nat q \<le> f64 x"
  proof (cases "a mod b = 0")
    case True
    then have "x = of_nat q" using ab b by (simp add: x_def field_simps)
    moreover have "q < 2 ^ 53" using assms(1) by (metis q_def div_le_dividend le_less_trans)
    ultimately show ?thesis using f64_exact_nat by simp
  next
    case False
    then have "q * b + 1 \<le> a" using ab by linarith
    then have "of_nat (q * b + 1) \<le> (of_nat a :: rat)" by (simp only: of_nat_le_iff)
    then have "(of_nat q * of_nat b + 1) / of_nat b \<le> (of_nat a / of_nat b :: rat)"
      by (intro divide_right_mono) simp_all
    then have "of_nat q + 1 / of_nat b \<le> x" using b by (simp add: x_def add_divide_distrib)
    then show ?thesis using e by linarith
  qed
  have "f64 x < of_nat q + 1" using e hi by linarith
  then have "\<lfloor>f64 x\<rfloor> = int q" using lo by (simp add: floor_eq_iff)
  then show ?thesis by (simp add: x_def q_def)
qed

end
