(* ===== verification/GoNet.thy ===== *)
theory GoNet
  imports Prelude
begin

text \<open>
  The part of Go's package \<open>net\<close> that the segments call: \<open>IP.To4\<close>, \<open>IP.String\<close>,
  \<open>IP.Equal\<close>, \<open>CIDRMask\<close>, \<open>IP.Mask\<close> and \<open>IPNet.Contains\<close>, over byte lists, with
  a bit-level reading of masks and prefixes.
\<close>

section \<open>Addresses\<close>

definition v4InV6Prefix :: "u8 list" where
  "v4InV6Prefix = replicate 10 0 @ [0xff, 0xff]"

definition ip_To4 :: "u8 list \<Rightarrow> u8 list option" where
  "ip_To4 ip = (if length ip = 4 then Some ip
     else if length ip = 16 \<and> take 12 ip = v4InV6Prefix then Some (drop 12 ip)
     else None)"

definition ip_Equal :: "u8 list \<Rightarrow> u8 list \<Rightarrow> bool" where
  "ip_Equal ip x =
     (if length ip = length x then ip = x
      else if length ip = 4 \<and> length x = 16 then take 12 x = v4InV6Prefix \<and> ip = drop 12 x
      else if length ip = 16 \<and> length x = 4 then take 12 ip = v4InV6Prefix \<and> drop 12 ip = x
      else False)"

definition dotted :: "u8 list \<Rightarrow> string" where
  "dotted ip = join_with ''.'' (map (\<lambda>b. dec (unat b)) ip)"

fun v6_groups :: "u8 list \<Rightarrow> nat list" where
  "v6_groups (a # b # r) = (256 * unat a + unat b) # v6_groups r"
| "v6_groups _ = []"

definition zero_run :: "nat list \<Rightarrow> nat \<Rightarrow> nat" where
  "zero_run gs i = length (takeWhile (\<lambda>g. g = 0) (drop i gs))"

text \<open>The leftmost longest run of at least two zero groups, as (start, length).\<close>

definition best_run :: "nat list \<Rightarrow> nat \<times> nat" where
  "best_run gs = fold (\<lambda>i (s, l). if 2 \<le> zero_run gs i \<and> l < zero_run gs i then (i, zero_run gs i) else (s, l))
     [0..<length gs] (0, 0)"

definition v6_string :: "u8 list \<Rightarrow> string" where
  "v6_string ip =
     (let gs = v6_groups ip; (s, l) = best_run gs in
      if l = 0 then join_with '':'' (map hex gs)
      else join_with '':'' (map hex (take s gs)) @ ''::'' @ join_with '':'' (map hex (drop (s + l) gs)))"

definition ip_String :: "u8 list \<Rightarrow> string" where
  "ip_String ip =
     (if ip = [] then ''<nil>''
      else if length ip \<noteq> 4 \<and> length ip \<noteq> 16 then ''?'' @ concat (map (\<lambda>b. hex02 (unat b)) ip)
      else case ip_To4 ip of Some p4 \<Rightarrow> dotted p4 | None \<Rightarrow> v6_string ip)"

section \<open>Masks and prefixes\<close>

definition mask_byte :: "nat \<Rightarrow> u8" where
  "mask_byte n = NOT (drop_bit n 0xff)"

fun cidr_bytes :: "nat \<Rightarrow> nat \<Rightarrow> u8 list" where
  "cidr_bytes 0 n = []"
| "cidr_bytes (Suc l) n =
     (if 8 \<le> n then 0xff # cidr_bytes l (n - 8) else mask_byte n # cidr_bytes l 0)"

text \<open>\<open>net.CIDRMask(ones, bits)\<close>; the nil mask is the empty list.\<close>

definition CIDRMask :: "int \<Rightarrow> int \<Rightarrow> u8 list" where
  "CIDRMask ones bits =
     (if bits \<noteq> 32 \<and> bits \<noteq> 128 then []
      else if ones < 0 \<or> bits < ones then []
      else cidr_bytes (nat (bits div 8)) (nat ones))"

text \<open>\<open>IP.Mask\<close>; \<open>None\<close> is the nil result for lengths that do not fit.\<close>

definition ip_Mask :: "u8 list \<Rightarrow> u8 list \<Rightarrow> u8 list option" where
  "ip_Mask ip mk =
     (let mk' = (if length mk = 16 \<and> length ip = 4 \<and> (\<forall>b\<in>set (take 12 mk). b = 0xff)
                   then drop 12 mk else mk);
          ip' = (if length mk' = 4 \<and> length ip = 16 \<and> take 12 ip = v4InV6Prefix
                 then drop 12 ip else ip)
      in if length ip' \<noteq> length mk' then None else Some (map2 (AND) ip' mk'))"

text \<open>\<open>IPNet{IP: n, Mask: m}.Contains(ip)\<close> through \<open>networkNumberAndMask\<close>.\<close>

definition network_number_and_mask :: "u8 list \<Rightarrow> u8 list \<Rightarrow> u8 list \<times> u8 list" where
  "network_number_and_mask n m =
     (let ip = (case ip_To4 n of Some x \<Rightarrow> x | None \<Rightarrow> n) in
      if ip_To4 n = None \<and> length n \<noteq> 16 then ([], [])
      else if length m = 4 then (if length ip = 4 then (ip, m) else ([], []))
      else if length m = 16 then (ip, if length ip = 4 then drop 12 m else m)
      else ([], []))"

definition ipnet_Contains :: "u8 list \<Rightarrow> u8 list \<Rightarrow> u8 list \<Rightarrow> bool" where
  "ipnet_Contains n m ip =
     (let (nn, mm) = network_number_and_mask n m;
          x = (case ip_To4 ip of Some x \<Rightarrow> x | None \<Rightarrow> ip)
      in length x = length nn \<and> (\<forall>i<length x. nn ! i AND mm ! i = x ! i AND mm ! i))"

section \<open>Bits of an address\<close>

text \<open>Bit \<open>i\<close> counted from the most significant bit of the first byte.\<close>

definition ip_bit :: "u8 list \<Rightarrow> nat \<Rightarrow> bool" where
  "ip_bit ip i = bit (ip ! (i div 8)) (7 - i mod 8)"

lemma ip_bit_Cons: "ip_bit (b # bs) i = (if i < 8 then bit b (7 - i) else ip_bit bs (i - 8))"
proof (cases "i < 8")
  case False
  then obtain j where "i = j + 8" by (metis add.commute le_Suc_ex not_less)
  moreover have "(j + 8) div 8 = Suc (j div 8)" by simp
  ultimately show ?thesis by (simp add: ip_bit_def)
qed (simp add: ip_bit_def)

lemma length_cidr_bytes [simp]: "length (cidr_bytes l n) = l"
  by (induction l arbitrary: n) auto

lemma bit_ff: "bit (0xff :: u8) k \<longleftrightarrow> k < 8"
proof -
  have "(0xff :: u8) = mask 8" by (simp add: mask_eq_exp_minus_1)
  then show ?thesis by (simp only: bit_mask_iff) auto
qed

lemma bit_ff_int: "bit (0xff :: int) k \<longleftrightarrow> k < 8"
proof -
  have "(0xff :: int) = mask 8" by (simp add: mask_eq_exp_minus_1)
  then show ?thesis by (simp only: bit_mask_iff) auto
qed

lemma bit_mask_byte: "i < 8 \<Longrightarrow> bit (mask_byte n) (7 - i) \<longleftrightarrow> i < n"
  by (auto simp: mask_byte_def bit_not_iff bit_drop_bit_eq bit_ff bit_ff_int)

lemma ip_bit_cidr_bytes: "i < 8 * l \<Longrightarrow> ip_bit (cidr_bytes l n) i \<longleftrightarrow> i < n"
  by (induction l arbitrary: n i) (auto simp: ip_bit_Cons bit_ff bit_ff_int bit_mask_byte)

lemma ip_bit_map2_and:
  "length a = length b \<Longrightarrow> i < 8 * length a \<Longrightarrow>
     ip_bit (map2 (AND) a b) i \<longleftrightarrow> ip_bit a i \<and> ip_bit b i"
  by (simp add: ip_bit_def bit_and_iff less_mult_imp_div_less mult.commute)

lemma u8_eq_iff_bits: "(a :: u8) = b \<longleftrightarrow> (\<forall>i<8. bit a (7 - i) = bit b (7 - i))"
proof
  assume *: "\<forall>i<8. bit a (7 - i) = bit b (7 - i)"
  show "a = b"
  proof (rule bit_word_eqI)
    fix k :: nat assume "k < LENGTH(8)"
    then have "7 - (7 - k) = k" "7 - k < 8" by auto
    then show "bit a k \<longleftrightarrow> bit b k" using * by metis
  qed
qed simp

lemma masked_eq_iff:
  assumes "length a = l" "length b = l"
  shows "(\<forall>i<l. a ! i AND cidr_bytes l n ! i = b ! i AND cidr_bytes l n ! i)
     \<longleftrightarrow> (\<forall>k<min n (8 * l). ip_bit a k = ip_bit b k)" (is "?L \<longleftrightarrow> ?R")
proof
  assume L: ?L
  show ?R
  proof (intro allI impI)
    fix k assume k: "k < min n (8 * l)"
    then have "k div 8 < l" by (simp add: less_mult_imp_div_less mult.commute)
    with L have "bit (a ! (k div 8) AND cidr_bytes l n ! (k div 8)) (7 - k mod 8)
      = bit (b ! (k div 8) AND cidr_bytes l n ! (k div 8)) (7 - k mod 8)" by metis
    moreover have "ip_bit (cidr_bytes l n) k" using k ip_bit_cidr_bytes by simp
    ultimately show "ip_bit a k = ip_bit b k" by (simp add: ip_bit_def bit_and_iff)
  qed
next
  assume R: ?R
  show ?L
  proof (intro allI impI, unfold u8_eq_iff_bits, intro allI impI)
    fix i j :: nat assume i: "i < l" and j: "j < 8"
    let ?k = "8 * i + j"
    have k: "?k < 8 * l" "?k div 8 = i" "?k mod 8 = j" using i j by auto
    have "bit (cidr_bytes l n ! i) (7 - j) \<longleftrightarrow> ?k < n"
      using ip_bit_cidr_bytes [OF k(1), of n] k(2,3) by (simp add: ip_bit_def)
    moreover have "?k < n \<Longrightarrow> bit (a ! i) (7 - j) = bit (b ! i) (7 - j)"
      using R k by (auto simp: ip_bit_def dest!: spec [of _ ?k])
    ultimately show "bit (a ! i AND cidr_bytes l n ! i) (7 - j) = bit (b ! i AND cidr_bytes l n ! i) (7 - j)"
      by (auto simp: bit_and_iff)
  qed
qed

section \<open>What masks and prefixes mean\<close>

lemma ip_To4_length: "ip_To4 ip = Some x \<Longrightarrow> length x = 4"
  by (auto simp: ip_To4_def split: if_splits)

lemma CIDRMask_32: "0 \<le> n \<Longrightarrow> n \<le> 32 \<Longrightarrow> CIDRMask n 32 = cidr_bytes 4 (nat n)"
  by (simp add: CIDRMask_def)

lemma CIDRMask_128: "0 \<le> n \<Longrightarrow> n \<le> 128 \<Longrightarrow> CIDRMask n 128 = cidr_bytes 16 (nat n)"
  by (simp add: CIDRMask_def)

text \<open>Masking a 4-byte address with \<open>/n\<close> keeps its first \<open>n\<close> bits and clears the others.\<close>

theorem ip_Mask_v4_bits:
  assumes "length ip = 4" "n \<le> 32"
  obtains r where "ip_Mask ip (CIDRMask (int n) 32) = Some r" "length r = 4"
    "\<And>i. i < 32 \<Longrightarrow> ip_bit r i \<longleftrightarrow> i < n \<and> ip_bit ip i"
proof
  show "ip_Mask ip (CIDRMask (int n) 32) = Some (map2 (AND) ip (cidr_bytes 4 n))"
    using assms by (simp add: ip_Mask_def CIDRMask_32)
qed (use assms in \<open>auto simp: ip_bit_map2_and ip_bit_cidr_bytes\<close>)

theorem ip_Mask_v6_bits:
  assumes "length ip = 16" "n \<le> 128"
  obtains r where "ip_Mask ip (CIDRMask (int n) 128) = Some r" "length r = 16"
    "\<And>i. i < 128 \<Longrightarrow> ip_bit r i \<longleftrightarrow> i < n \<and> ip_bit ip i"
proof
  show "ip_Mask ip (CIDRMask (int n) 128) = Some (map2 (AND) ip (cidr_bytes 16 n))"
    using assms by (simp add: ip_Mask_def CIDRMask_128)
qed (use assms in \<open>auto simp: ip_bit_map2_and ip_bit_cidr_bytes\<close>)

text \<open>A prefix of length \<open>k\<close> contains exactly the addresses that agree with it on \<open>k\<close> bits.\<close>

definition same_prefix :: "nat \<Rightarrow> u8 list \<Rightarrow> u8 list \<Rightarrow> bool" where
  "same_prefix k a b = (length a = length b \<and> (\<forall>i<k. ip_bit a i = ip_bit b i))"

theorem ipnet_Contains_v4:
  assumes "ip_To4 n = Some n4" "k \<le> 32"
  shows "ipnet_Contains n (CIDRMask (int k) 32) ip \<longleftrightarrow>
     same_prefix k n4 (case ip_To4 ip of Some x \<Rightarrow> x | None \<Rightarrow> ip)"
proof -
  have l4: "length n4 = 4" using assms(1) by (rule ip_To4_length)
  define x where "x = (case ip_To4 ip of Some x \<Rightarrow> x | None \<Rightarrow> ip)"
  have "network_number_and_mask n (CIDRMask (int k) 32) = (n4, cidr_bytes 4 k)"
    using assms l4 by (simp add: network_number_and_mask_def CIDRMask_32)
  then have "ipnet_Contains n (CIDRMask (int k) 32) ip \<longleftrightarrow> length x = 4 \<and>
     (\<forall>i<4. n4 ! i AND cidr_bytes 4 k ! i = x ! i AND cidr_bytes 4 k ! i)"
    using l4 by (auto simp: ipnet_Contains_def x_def Let_def)
  also have "\<dots> \<longleftrightarrow> same_prefix k n4 x"
    using masked_eq_iff [OF l4, of x k] assms(2) l4 by (auto simp: same_prefix_def min_def)
  finally show ?thesis by (simp add: x_def)
qed

theorem ipnet_Contains_v6:
  assumes "ip_To4 n = None" "length n = 16" "k \<le> 128"
  shows "ipnet_Contains n (CIDRMask (int k) 128) ip \<longleftrightarrow>
     same_prefix k n (case ip_To4 ip of Some x \<Rightarrow> x | None \<Rightarrow> ip)"
proof -
  define x where "x = (case ip_To4 ip of Some x \<Rightarrow> x | None \<Rightarrow> ip)"
  have "network_number_and_mask n (CIDRMask (int k) 128) = (n, cidr_bytes 16 k)"
    using assms by (simp add: network_number_and_mask_def CIDRMask_128)
  then have "ipnet_Contains n (CIDRMask (int k) 128) ip \<longleftrightarrow> length x = 16 \<and>
     (\<forall>i<16. n ! i AND cidr_bytes 16 k ! i = x ! i AND cidr_bytes 16 k ! i)"
    using assms by (auto simp: ipnet_Contains_def x_def Let_def)
  also have "\<dots> \<longleftrightarrow> same_prefix k n x"
    using masked_eq_iff [OF assms(2), of x k] assms(2,3) by (auto simp: same_prefix_def min_def)
  finally show ?thesis by (simp add: x_def)
qed

text \<open>The dotted form determines an IPv4 address.\<close>

theorem dotted_inj:
  assumes "dotted a = dotted b" "length a = 4" "length b = 4"
  shows "a = b"
proof -
  have "digit_val (CHR ''.'') = None" by (simp add: digit_val_def)
  then have nodot: "CHR ''.'' \<notin> set (dec k)" for k
    using dec_digits [of "CHR ''.''" k] digit_val_digit_char by (metis option.distinct(1))
  have sp: "split_on (CHR ''.'') (dotted x) = map (\<lambda>b. dec (unat b)) x" if "length x = 4" for x :: "u8 list"
    unfolding dotted_def using that nodot by (intro split_join) auto
  have "map (\<lambda>b. dec (unat b)) a = map (\<lambda>b. dec (unat b)) b"
    using assms sp by metis
  moreover have "inj (\<lambda>b :: u8. dec (unat b))"
    by (rule injI) (metis dec_inj word_unat_eq_iff)
  ultimately show ?thesis by (simp add: inj_map_eq_map)
qed

end
