(* ===== verification/FlowMessage.thy ===== *)
theory FlowMessage
  imports GoNet
begin

text \<open>
  The flow message that travels through a pipeline (\<open>pb/enrichedflow.pb.go\<close>) and the helper
  methods of \<open>pb/enrichedflow.go\<close>. Every exported field of the generated struct is a field of
  the record, under the same name; the enumerations are open 32-bit integers, as the generated
  Go types are. The protobuf bookkeeping field \<open>state\<close> is left out.
\<close>

section \<open>Enumerations\<close>

type_synonym FlowType = i32
type_synonym LayerStackType = i32
type_synonym AnonymizedType = i32
type_synonym ValidationStatusType = i32
type_synonym NormalizedType = i32
type_synonym RemoteAddrType = i32

definition EnrichedFlow_EBPF :: FlowType where "EnrichedFlow_EBPF = 5"

definition EnrichedFlow_NotAnonymized :: AnonymizedType where "EnrichedFlow_NotAnonymized = 0"
definition EnrichedFlow_CryptoPAN :: AnonymizedType where "EnrichedFlow_CryptoPAN = 1"
definition EnrichedFlow_Subnet :: AnonymizedType where "EnrichedFlow_Subnet = 2"
definition EnrichedFlow_SubnetAndCryptoPAN :: AnonymizedType where "EnrichedFlow_SubnetAndCryptoPAN = 3"

definition EnrichedFlow_Unknown :: ValidationStatusType where "EnrichedFlow_Unknown = 0"
definition EnrichedFlow_Valid :: ValidationStatusType where "EnrichedFlow_Valid = 1"
definition EnrichedFlow_NotFound :: ValidationStatusType where "EnrichedFlow_NotFound = 2"
definition EnrichedFlow_Invalid :: ValidationStatusType where "EnrichedFlow_Invalid = 3"

section \<open>The message\<close>

record EnrichedFlow =
  Type :: i32
  TimeReceived :: u64
  TimeReceivedNs :: u64
  SequenceNum :: u32
  SamplingRate :: u64
  FlowDirection :: u32
  TimeFlowStartNs :: u64
  TimeFlowEndNs :: u64
  SamplerAddress :: byte_slice
  TimeFlowEnd :: u64
  TimeFlowStartMs :: u64
  TimeFlowEndMs :: u64
  Bytes :: u64
  Packets :: u64
  SrcAddr :: byte_slice
  DstAddr :: byte_slice
  Etype :: u32
  Proto :: u32
  SrcPort :: u32
  DstPort :: u32
  InIf :: u32
  OutIf :: u32
  SrcMac :: u64
  DstMac :: u64
  SrcVlan :: u32
  DstVlan :: u32
  VlanId :: u32
  IngressVrfId :: u32
  EgressVrfId :: u32
  IpTos :: u32
  ForwardingStatus :: u32
  IpTtl :: u32
  IpFlags :: u32
  TcpFlags :: u32
  IcmpType :: u32
  IcmpCode :: u32
  Ipv6FlowLabel :: u32
  FragmentId :: u32
  FragmentOffset :: u32
  BiFlowDirection :: u32
  SrcAs :: u32
  DstAs :: u32
  NextHop :: byte_slice
  NextHopAs :: u32
  SrcNet :: u32
  DstNet :: u32
  BgpNextHop :: byte_slice
  BgpCommunities :: "u32 list"
  AsPath :: "u32 list"
  MplsTtl :: "u32 list"
  MplsLabel :: "u32 list"
  MplsIp :: "byte_slice list"
  HasMpls :: bool
  MplsCount :: u32
  Mpls_1Ttl :: u32
  Mpls_1Label :: u32
  Mpls_2Ttl :: u32
  Mpls_2Label :: u32
  Mpls_3Ttl :: u32
  Mpls_3Label :: u32
  MplsLastTtl :: u32
  MplsLastLabel :: u32
  MplsLabelIp :: byte_slice
  ObservationDomainId :: u32
  ObservationPointId :: u32
  SrcCountry :: string
  DstCountry :: string
  LayerStack :: "i32 list"
  LayerSize :: "u32 list"
  Ipv6RoutingHeaderAddresses :: "byte_slice list"
  Ipv6RoutingHeaderSegLeft :: u32
  PacketBytesMin :: u32
  PacketBytesMax :: u32
  PacketBytesMean :: u32
  PacketBytesStdDev :: u32
  PacketIATMin :: u64
  PacketIATMax :: u64
  PacketIATMean :: u64
  PacketIATStdDev :: u64
  HeaderBytes :: u32
  FINFlagCount :: u64
  SYNFlagCount :: u64
  RSTFlagCount :: u64
  PSHFlagCount :: u64
  ACKFlagCount :: u64
  URGFlagCount :: u64
  CWRFlagCount :: u64
  ECEFlagCount :: u64
  PayloadPackets :: u64
  TimeActiveMin :: u64
  TimeActiveMax :: u64
  TimeActiveMean :: u64
  TimeActiveStdDev :: u64
  TimeIdleMin :: u64
  TimeIdleMax :: u64
  TimeIdleMean :: u64
  TimeIdleStdDev :: u64
  Cid :: u32
  CidString :: string
  SrcCid :: u32
  DstCid :: u32
  NetId :: u32
  NetIdString :: string
  SrcId :: u32
  SrcIdString :: string
  DstId :: u32
  DstIdString :: string
  SrcAddrAnon :: i32
  DstAddrAnon :: i32
  SrcAddrPreservedLen :: u32
  DstAddrPreservedLen :: u32
  SamplerAddrAnon :: i32
  SamplerAddrPreservedPrefixLen :: u32
  NextHopAnon :: i32
  NextHopAnonPreservedPrefixLen :: u32
  Med :: u32
  LocalPref :: u32
  ValidationStatus :: i32
  RemoteCountry :: string
  SrcCountryBW :: string
  DstCountryBW :: string
  Normalized :: i32
  ProtoName :: string
  RemoteAddr :: i32
  SrcHostName :: string
  DstHostName :: string
  NextHopHostName :: string
  SrcASName :: string
  DstASName :: string
  NextHopASName :: string
  SamplerHostName :: string
  SrcIfName :: string
  SrcIfDesc :: string
  SrcIfSpeed :: u32
  DstIfName :: string
  DstIfDesc :: string
  DstIfSpeed :: u32
  Note :: string
  SourceIP :: string
  DestinationIP :: string
  NextHopIP :: string
  SamplerIP :: string
  SourceMAC :: string
  DestinationMAC :: string
  IngressVrfIDBW :: u32
  EgressVrfIDBW :: u32
  TimeFlowStart :: u64
  SrcAsPath :: "u32 list"
  DstAsPath :: "u32 list"
  unknownFields :: byte_slice
  sizeCache :: i32

text \<open>\<open>pb.EnrichedFlow{}\<close>, every field at its zero value.\<close>

definition zero_flow :: EnrichedFlow where
  "zero_flow = \<lparr>
     Type = 0,
     TimeReceived = 0,
     TimeReceivedNs = 0,
     SequenceNum = 0,
     SamplingRate = 0,
     FlowDirection = 0,
     TimeFlowStartNs = 0,
     TimeFlowEndNs = 0,
     SamplerAddress = None,
     TimeFlowEnd = 0,
     TimeFlowStartMs = 0,
     TimeFlowEndMs = 0,
     Bytes = 0,
     Packets = 0,
     SrcAddr = None,
     DstAddr = None,
     Etype = 0,
     Proto = 0,
     SrcPort = 0,
     DstPort = 0,
     InIf = 0,
     OutIf = 0,
     SrcMac = 0,
     DstMac = 0,
     SrcVlan = 0,
     DstVlan = 0,
     VlanId = 0,
     IngressVrfId = 0,
     EgressVrfId = 0,
     IpTos = 0,
     ForwardingStatus = 0,
     IpTtl = 0,
     IpFlags = 0,
     TcpFlags = 0,
     IcmpType = 0,
     IcmpCode = 0,
     Ipv6FlowLabel = 0,
     FragmentId = 0,
     FragmentOffset = 0,
     BiFlowDirection = 0,
     SrcAs = 0,
     DstAs = 0,
     NextHop = None,
     NextHopAs = 0,
     SrcNet = 0,
     DstNet = 0,
     BgpNextHop = None,
     BgpCommunities = [],
     AsPath = [],
     MplsTtl = [],
     MplsLabel = [],
     MplsIp = [],
     HasMpls = False,
     MplsCount = 0,
     Mpls_1Ttl = 0,
     Mpls_1Label = 0,
     Mpls_2Ttl = 0,
     Mpls_2Label = 0,
     Mpls_3Ttl = 0,
     Mpls_3Label = 0,
     MplsLastTtl = 0,
     MplsLastLabel = 0,
     MplsLabelIp = None,
     ObservationDomainId = 0,
     ObservationPointId = 0,
     SrcCountry = '''',
     DstCountry = '''',
     LayerStack = [],
     LayerSize = [],
     Ipv6RoutingHeaderAddresses = [],
     Ipv6RoutingHeaderSegLeft = 0,
     PacketBytesMin = 0,
     PacketBytesMax = 0,
     PacketBytesMean = 0,
     PacketBytesStdDev = 0,
     PacketIATMin = 0,
     PacketIATMax = 0,
     PacketIATMean = 0,
     PacketIATStdDev = 0,
     HeaderBytes = 0,
     FINFlagCount = 0,
     SYNFlagCount = 0,
     RSTFlagCount = 0,
     PSHFlagCount = 0,
     ACKFlagCount = 0,
     URGFlagCount = 0,
     CWRFlagCount = 0,
     ECEFlagCount = 0,
     PayloadPackets = 0,
     TimeActiveMin = 0,
     TimeActiveMax = 0,
     TimeActiveMean = 0,
     TimeActiveStdDev = 0,
     TimeIdleMin = 0,
     TimeIdleMax = 0,
     TimeIdleMean = 0,
     TimeIdleStdDev = 0,
     Cid = 0,
     CidString = '''',
     SrcCid = 0,
     DstCid = 0,
     NetId = 0,
     NetIdString = '''',
     SrcId = 0,
     SrcIdString = '''',
     DstId = 0,
     DstIdString = '''',
     SrcAddrAnon = 0,
     DstAddrAnon = 0,
     SrcAddrPreservedLen = 0,
     DstAddrPreservedLen = 0,
     SamplerAddrAnon = 0,
     SamplerAddrPreservedPrefixLen = 0,
     NextHopAnon = 0,
     NextHopAnonPreservedPrefixLen = 0,
     Med = 0,
     LocalPref = 0,
     ValidationStatus = 0,
     RemoteCountry = '''',
     SrcCountryBW = '''',
     DstCountryBW = '''',
     Normalized = 0,
     ProtoName = '''',
     RemoteAddr = 0,
     SrcHostName = '''',
     DstHostName = '''',
     NextHopHostName = '''',
     SrcASName = '''',
     DstASName = '''',
     NextHopASName = '''',
     SamplerHostName = '''',
     SrcIfName = '''',
     SrcIfDesc = '''',
     SrcIfSpeed = 0,
     DstIfName = '''',
     DstIfDesc = '''',
     DstIfSpeed = 0,
     Note = '''',
     SourceIP = '''',
     DestinationIP = '''',
     NextHopIP = '''',
     SamplerIP = '''',
     SourceMAC = '''',
     DestinationMAC = '''',
     IngressVrfIDBW = 0,
     EgressVrfIDBW = 0,
     TimeFlowStart = 0,
     SrcAsPath = [],
     DstAsPath = [],
     unknownFields = None,
     sizeCache = 0\<rparr>"

section \<open>Status and type names\<close>

text \<open>The lookup tables of the source; indexing a Go map by a missing key gives the empty string.\<close>

definition table :: "(u32 \<times> string) list \<Rightarrow> u32 \<Rightarrow> string" where
  "table t k = (case map_of t k of None \<Rightarrow> '''' | Some v \<Rightarrow> v)"

definition FlowDirectionMap :: "(u32 \<times> string) list" where
  "FlowDirectionMap = [(0, ''Incoming''), (1, ''Outgoing'')]"

definition EtypeMap :: "(u32 \<times> string) list" where
  "EtypeMap = [
     (0x0800, ''IPv4''),
     (0x0806, ''ARP''),
     (0x0842, ''Wake-on-LAN''),
     (0x86DD, ''IPv6''),
     (0x8809, ''Ethernet Slow Protocols (LACP)''),
     (0x8847, ''MPLS unicast''),
     (0x8848, ''MPLS multicast''),
     (0x8863, ''PPPoE Discovery Stage''),
     (0x8864, ''PPPoE Session Stage''),
     (0x889A, ''HyperSCSI (SCSI over Ethernet)''),
     (0x88A2, ''ATA over Ethernet''),
     (0x88A4, ''EtherCAT Protocol''),
     (0x88CC, ''LLDP''),
     (0x88E5, ''MAC Security''),
     (0x8906, ''Fibre Channel over Ethernet (FCoE)''),
     (0x8914, ''FCoE Initialization Protocol''),
     (0x9000, ''Ethernet Configuration Testing Protocol'')]"

definition ForwardingStatusMap :: "(u32 \<times> string) list" where
  "ForwardingStatusMap = [
     (0, ''Unknown''),
     (64, ''Forwarded (Unknown)''),
     (65, ''Forwarded (Fragmented)''),
     (66, ''Forwarded (Not Fragmented)''),
     (128, ''Dropped (Unknown)''),
     (129, ''Dropped (ACL Deny)''),
     (130, ''Dropped (ACL Drop)''),
     (131, ''Dropped (Unroutable)''),
     (132, ''Dropped (Adjacency)''),
     (133, ''Dropped (Fragmented and DF set)''),
     (134, ''Dropped (Bad Header Checksum)''),
     (135, ''Dropped (Bad Total Length)''),
     (136, ''Dropped (Bad Header Length)''),
     (137, ''Dropped (Bad TTL)''),
     (138, ''Dropped (Policer)''),
     (139, ''Dropped (WRED)''),
     (140, ''Dropped (RPF)''),
     (141, ''Dropped (For Us)''),
     (142, ''Dropped (Bad Output Interface)''),
     (143, ''Dropped (Hardware)''),
     (192, ''Consumed (Unknown)''),
     (193, ''Consumed (Terminate Punt Adjacency)''),
     (194, ''Consumed (Terminate Incomplete Adjacency)''),
     (195, ''Consumed (Terminate For Us)'')]"

definition FlowDirectionString :: "EnrichedFlow \<Rightarrow> string" where
  "FlowDirectionString f = table FlowDirectionMap (FlowDirection f)"

definition IsIncoming :: "EnrichedFlow \<Rightarrow> bool" where
  "IsIncoming f = (FlowDirection f = 0)"

definition IsOutgoing :: "EnrichedFlow \<Rightarrow> bool" where
  "IsOutgoing f = (FlowDirection f = 1)"

definition Peer :: "EnrichedFlow \<Rightarrow> string" where
  "Peer f = (if FlowDirection f = 0 then SrcIfDesc f
             else if FlowDirection f = 1 then DstIfDesc f else '''')"

definition EtypeString :: "EnrichedFlow \<Rightarrow> string" where
  "EtypeString f = table EtypeMap (Etype f)"

definition IPVersion :: "EnrichedFlow \<Rightarrow> u8" where
  "IPVersion f = (if Etype f = 0x0800 then 4 else if Etype f = 0x86dd then 6 else 0)"

definition IPVersionString :: "EnrichedFlow \<Rightarrow> string" where
  "IPVersionString f =
     (if Etype f = 0x800 \<or> Etype f = 0x86dd then table EtypeMap (Etype f) else '''')"

definition IsIPv4 :: "EnrichedFlow \<Rightarrow> bool" where
  "IsIPv4 f = (Etype f = 0x0800)"

definition IsIPv6 :: "EnrichedFlow \<Rightarrow> bool" where
  "IsIPv6 f = (Etype f = 0x86dd)"

definition ForwardingStatusString :: "EnrichedFlow \<Rightarrow> string" where
  "ForwardingStatusString f = table ForwardingStatusMap (ForwardingStatus f)"

definition IsConsumed :: "EnrichedFlow \<Rightarrow> bool" where
  "IsConsumed f = (192 \<le> ForwardingStatus f)"

definition IsDropped :: "EnrichedFlow \<Rightarrow> bool" where
  "IsDropped f = (128 \<le> ForwardingStatus f \<and> ForwardingStatus f < 192)"

definition IsForwarded :: "EnrichedFlow \<Rightarrow> bool" where
  "IsForwarded f = (64 \<le> ForwardingStatus f \<and> ForwardingStatus f < 128)"

definition IsUnknownForwardingStatus :: "EnrichedFlow \<Rightarrow> bool" where
  "IsUnknownForwardingStatus f = (ForwardingStatus f < 64)"

section \<open>Addresses\<close>

definition SrcAddrObj :: "EnrichedFlow \<Rightarrow> byte_slice" where
  "SrcAddrObj f = SrcAddr f"

definition DstAddrObj :: "EnrichedFlow \<Rightarrow> byte_slice" where
  "DstAddrObj f = DstAddr f"

definition NextHopObj :: "EnrichedFlow \<Rightarrow> byte_slice" where
  "NextHopObj f = NextHop f"

definition SamplerAddressObj :: "EnrichedFlow \<Rightarrow> byte_slice" where
  "SamplerAddressObj f = SamplerAddress f"

text \<open>\<open>net.IP(b).String()\<close> on a byte slice.\<close>

definition ip_str :: "byte_slice \<Rightarrow> string" where
  "ip_str b = ip_String (bytes_of b)"

datatype MacSeparator = MACSeparatorColon | MACSeparatorDash

definition mac_parts :: "u64 \<Rightarrow> string list" where
  "mac_parts mac = map (\<lambda>w. hex02 (unat w))
     [mac AND 0x0000000000FF,
      drop_bit 8 (mac AND 0x00000000FF00),
      drop_bit 16 (mac AND 0x000000FF0000),
      drop_bit 24 (mac AND 0x0000FF000000),
      drop_bit 32 (mac AND 0x00FF00000000),
      drop_bit 40 (mac AND 0xFF0000000000)]"

definition MacToString :: "u64 \<Rightarrow> MacSeparator \<Rightarrow> string" where
  "MacToString mac sep = (case sep of
     MACSeparatorDash \<Rightarrow> join_with ''-'' (mac_parts mac)
   | MACSeparatorColon \<Rightarrow> join_with '':'' (mac_parts mac))"

definition SrcMacString :: "EnrichedFlow \<Rightarrow> MacSeparator \<Rightarrow> string" where
  "SrcMacString f sep = MacToString (SrcMac f) sep"

definition DstMacString :: "EnrichedFlow \<Rightarrow> MacSeparator \<Rightarrow> string" where
  "DstMacString f sep = MacToString (DstMac f) sep"

section \<open>Rates\<close>

text \<open>The time difference wraps around like the unsigned subtraction of the source.\<close>

definition flow_duration :: "EnrichedFlow \<Rightarrow> u64" where
  "flow_duration f = (let d = TimeFlowEnd f - TimeFlowStart f in if d = 0 then 1 else d)"

definition GetBps :: "EnrichedFlow \<Rightarrow> u64" where
  "GetBps f = Bytes f div flow_duration f"

definition GetPps :: "EnrichedFlow \<Rightarrow> u64" where
  "GetPps f = Packets f div flow_duration f"

lemma flow_duration_pos [simp]: "flow_duration f \<noteq> 0"
  by (simp add: flow_duration_def Let_def)

end
