(* ===== verification/LegacyFlow.thy ===== *)
theory LegacyFlow
  imports FlowMessage GoFloat
begin

text \<open>
  The legacy message \<open>LegacyEnrichedFlow\<close> (\<open>pb/legacyenrichedflow.pb.go\<close>), the two
  converters and the timestamp synchronisation of \<open>pb/legacyconverter.go\<close>, and the segment
  \<open>sync_timestamps\<close> that calls it. Fields of the legacy record carry the prefix \<open>L_\<close>.
\<close>

section \<open>The legacy message\<close>

record LegacyEnrichedFlow =
  L_Type :: i32
  L_TimeReceived :: u64
  L_SequenceNum :: u32
  L_SamplingRate :: u64
  L_FlowDirection :: u32
  L_SamplerAddress :: byte_slice
  L_TimeFlowStart :: u64
  L_TimeFlowEnd :: u64
  L_Bytes :: u64
  L_Packets :: u64
  L_SrcAddr :: byte_slice
  L_DstAddr :: byte_slice
  L_Etype :: u32
  L_Proto :: u32
  L_SrcPort :: u32
  L_DstPort :: u32
  L_InIf :: u32
  L_OutIf :: u32
  L_SrcMac :: u64
  L_DstMac :: u64
  L_SrcVlan :: u32
  L_DstVlan :: u32
  L_VlanId :: u32
  L_IngressVrfID :: u32
  L_EgressVrfID :: u32
  L_IPTos :: u32
  L_ForwardingStatus :: u32
  L_IPTTL :: u32
  L_TCPFlags :: u32
  L_IcmpType :: u32
  L_IcmpCode :: u32
  L_IPv6FlowLabel :: u32
  L_FragmentId :: u32
  L_FragmentOffset :: u32
  L_BiFlowDirection :: u32
  L_SrcAS :: u32
  L_DstAS :: u32
  L_NextHop :: byte_slice
  L_NextHopAS :: u32
  L_SrcNet :: u32
  L_DstNet :: u32
  L_HasMPLS :: bool
  L_MPLSCount :: u32
  L_MPLS1TTL :: u32
  L_MPLS1Label :: u32
  L_MPLS2TTL :: u32
  L_MPLS2Label :: u32
  L_MPLS3TTL :: u32
  L_MPLS3Label :: u32
  L_MPLSLastTTL :: u32
  L_MPLSLastLabel :: u32
  L_PacketBytesMin :: u32
  L_PacketBytesMax :: u32
  L_PacketBytesMean :: u32
  L_PacketBytesStdDev :: u32
  L_PacketIATMin :: u64
  L_PacketIATMax :: u64
  L_PacketIATMean :: u64
  L_PacketIATStdDev :: u64
  L_HeaderBytes :: u32
  L_FINFlagCount :: u64
  L_SYNFlagCount :: u64
  L_RSTFlagCount :: u64
  L_PSHFlagCount :: u64
  L_ACKFlagCount :: u64
  L_URGFlagCount :: u64
  L_CWRFlagCount :: u64
  L_ECEFlagCount :: u64
  L_PayloadPackets :: u64
  L_TimeActiveMin :: u64
  L_TimeActiveMax :: u64
  L_TimeActiveMean :: u64
  L_TimeActiveStdDev :: u64
  L_TimeIdleMin :: u64
  L_TimeIdleMax :: u64
  L_TimeIdleMean :: u64
  L_TimeIdleStdDev :: u64
  L_Cid :: u32
  L_CidString :: string
  L_SrcCid :: u32
  L_DstCid :: u32
  L_NetId :: u32
  L_NetIdString :: string
  L_SrcId :: u32
  L_SrcIdString :: string
  L_DstId :: u32
  L_DstIdString :: string
  L_SrcAddrAnon :: i32
  L_DstAddrAnon :: i32
  L_SrcAddrPreservedLen :: u32
  L_DstAddrPreservedLen :: u32
  L_SamplerAddrAnon :: i32
  L_SamplerAddrPreservedPrefixLen :: u32
  L_ASPath :: "u32 list"
  L_Med :: u32
  L_LocalPref :: u32
  L_ValidationStatus :: i32
  L_RemoteCountry :: string
  L_SrcCountry :: string
  L_DstCountry :: string
  L_Normalized :: i32
  L_ProtoName :: string
  L_RemoteAddr :: i32
  L_SrcHostName :: string
  L_DstHostName :: string
  L_NextHopHostName :: string
  L_SrcASName :: string
  L_DstASName :: string
  L_NextHopASName :: string
  L_SamplerHostName :: string
  L_SrcIfName :: string
  L_SrcIfDesc :: string
  L_SrcIfSpeed :: u32
  L_DstIfName :: string
  L_DstIfDesc :: string
  L_DstIfSpeed :: u32
  L_Note :: string
  L_SourceIP :: string
  L_DestinationIP :: string
  L_NextHopIP :: string
  L_SamplerIP :: string
  L_SourceMAC :: string
  L_DestinationMAC :: string
  L_unknownFields :: byte_slice
  L_sizeCache :: i32

section \<open>Filling missing timestamps\<close>

text \<open>
  \<open>fillTimeIfEmpty(&time1, &time2, factor12)\<close>: the new value of \<open>time1\<close>. The factors are
  decimal constants of the source, converted to \<open>float64\<close>.
\<close>

definition scaled_time :: "(rat \<Rightarrow> u64) \<Rightarrow> u64 \<Rightarrow> rat \<Rightarrow> u64" where
  "scaled_time ovf t factor = f64_to_u64 ovf (math_Round (f64_mul (u64_to_f64 t) (f64 factor)))"

definition fillTimeIfEmpty :: "(rat \<Rightarrow> u64) \<Rightarrow> u64 \<Rightarrow> u64 \<Rightarrow> rat \<Rightarrow> u64" where
  "fillTimeIfEmpty ovf time1 time2 factor12 =
     (if time1 \<noteq> 0 then time1
      else if time2 \<noteq> 0 then scaled_time ovf time2 factor12
      else time1)"

definition fillTimeIfEmptyWithFallback ::
    "(rat \<Rightarrow> u64) \<Rightarrow> u64 \<Rightarrow> u64 \<Rightarrow> rat \<Rightarrow> u64 \<Rightarrow> rat \<Rightarrow> u64" where
  "fillTimeIfEmptyWithFallback ovf time1 time2 factor12 time3 factor13 =
     fillTimeIfEmpty ovf (fillTimeIfEmpty ovf time1 time2 factor12) time3 factor13"

text \<open>The three units of one instant (seconds, milliseconds, nanoseconds), filled in this order.\<close>

definition sync3 :: "(rat \<Rightarrow> u64) \<Rightarrow> u64 \<Rightarrow> u64 \<Rightarrow> u64 \<Rightarrow> u64 \<times> u64 \<times> u64" where
  "sync3 ovf s ms ns =
     (let s' = fillTimeIfEmptyWithFallback ovf s ns (1 / 10 ^ 9) ms (1 / 10 ^ 3);
          ms' = fillTimeIfEmptyWithFallback ovf ms ns (1 / 10 ^ 6) s' (10 ^ 3);
          ns' = fillTimeIfEmptyWithFallback ovf ns ms' (10 ^ 6) s' (10 ^ 9)
      in (s', ms', ns'))"

definition SyncMissingTimeStamps :: "(rat \<Rightarrow> u64) \<Rightarrow> EnrichedFlow \<Rightarrow> EnrichedFlow" where
  "SyncMissingTimeStamps ovf flow =
     (let (e, ems, ens) = sync3 ovf (TimeFlowEnd flow) (TimeFlowEndMs flow) (TimeFlowEndNs flow);
          (b, bms, bns) = sync3 ovf (TimeFlowStart flow) (TimeFlowStartMs flow) (TimeFlowStartNs flow);
          r = fillTimeIfEmpty ovf (TimeReceived flow) (TimeReceivedNs flow) (1 / 10 ^ 9);
          rns = fillTimeIfEmpty ovf (TimeReceivedNs flow) r (10 ^ 9)
      in flow\<lparr>TimeFlowEnd := e, TimeFlowEndMs := ems, TimeFlowEndNs := ens,
              TimeFlowStart := b, TimeFlowStartMs := bms, TimeFlowStartNs := bns,
              TimeReceived := r, TimeReceivedNs := rns\<rparr>)"

section \<open>Conversion\<close>

text \<open>The composite literal of \<open>ConvertToEnrichedFlow\<close>; fields it does not name are zero.\<close>

definition enriched_literal :: "LegacyEnrichedFlow \<Rightarrow> EnrichedFlow" where
  "enriched_literal legacy = \<lparr>
     Type = L_Type legacy,
     TimeReceived = L_TimeReceived legacy,
     TimeReceivedNs = 0,
     SequenceNum = L_SequenceNum legacy,
     SamplingRate = L_SamplingRate legacy,
     FlowDirection = L_FlowDirection legacy,
     TimeFlowStartNs = 0,
     TimeFlowEndNs = 0,
     SamplerAddress = L_SamplerAddress legacy,
     TimeFlowEnd = L_TimeFlowEnd legacy,
     TimeFlowStartMs = 0,
     TimeFlowEndMs = 0,
     Bytes = L_Bytes legacy,
     Packets = L_Packets legacy,
     SrcAddr = L_SrcAddr legacy,
     DstAddr = L_DstAddr legacy,
     Etype = L_Etype legacy,
     Proto = L_Proto legacy,
     SrcPort = L_SrcPort legacy,
     DstPort = L_DstPort legacy,
     InIf = L_InIf legacy,
     OutIf = L_OutIf legacy,
     SrcMac = L_SrcMac legacy,
     DstMac = L_DstMac legacy,
     SrcVlan = L_SrcVlan legacy,
     DstVlan = L_DstVlan legacy,
     VlanId = L_VlanId legacy,
     IngressVrfId = L_IngressVrfID legacy,
     EgressVrfId = L_EgressVrfID legacy,
     IpTos = L_IPTos legacy,
     ForwardingStatus = L_ForwardingStatus legacy,
     IpTtl = L_IPTTL legacy,
     IpFlags = 0,
     TcpFlags = L_TCPFlags legacy,
     IcmpType = L_IcmpType legacy,
     IcmpCode = L_IcmpCode legacy,
     Ipv6FlowLabel = L_IPv6FlowLabel legacy,
     FragmentId = L_FragmentId legacy,
     FragmentOffset = L_FragmentOffset legacy,
     BiFlowDirection = L_BiFlowDirection legacy,
     SrcAs = L_SrcAS legacy,
     DstAs = L_DstAS legacy,
     NextHop = L_NextHop legacy,
     NextHopAs = L_NextHopAS legacy,
     SrcNet = L_SrcNet legacy,
     DstNet = L_DstNet legacy,
     BgpNextHop = None,
     BgpCommunities = [],
     AsPath = L_ASPath legacy,
     MplsTtl = [],
     MplsLabel = [],
     MplsIp = [],
     HasMpls = L_HasMPLS legacy,
     MplsCount = L_MPLSCount legacy,
     Mpls_1Ttl = L_MPLS1TTL legacy,
     Mpls_1Label = L_MPLS1Label legacy,
     Mpls_2Ttl = L_MPLS2TTL legacy,
     Mpls_2Label = L_MPLS2Label legacy,
     Mpls_3Ttl = L_MPLS3TTL legacy,
     Mpls_3Label = L_MPLS3Label legacy,
     MplsLastTtl = L_MPLSLastTTL legacy,
     MplsLastLabel = L_MPLSLastLabel legacy,
     MplsLabelIp = None,
     ObservationDomainId = 0,
     ObservationPointId = 0,
     SrcCountry = L_SrcCountry legacy,
     DstCountry = L_DstCountry legacy,
     LayerStack = [],
     LayerSize = [],
     Ipv6RoutingHeaderAddresses = [],
     Ipv6RoutingHeaderSegLeft = 0,
     PacketBytesMin = L_PacketBytesMin legacy,
     PacketBytesMax = L_PacketBytesMax legacy,
     PacketBytesMean = L_PacketBytesMean legacy,
     PacketBytesStdDev = L_PacketBytesStdDev legacy,
     PacketIATMin = L_PacketIATMin legacy,
     PacketIATMax = L_PacketIATMax legacy,
     PacketIATMean = L_PacketIATMean legacy,
     PacketIATStdDev = L_PacketIATStdDev legacy,
     HeaderBytes = L_HeaderBytes legacy,
     FINFlagCount = L_FINFlagCount legacy,
     SYNFlagCount = L_SYNFlagCount legacy,
     RSTFlagCount = L_RSTFlagCount legacy,
     PSHFlagCount = L_PSHFlagCount legacy,
     ACKFlagCount = L_ACKFlagCount legacy,
     URGFlagCount = L_URGFlagCount legacy,
     CWRFlagCount = L_CWRFlagCount legacy,
     ECEFlagCount = L_ECEFlagCount legacy,
     PayloadPackets = L_PayloadPackets legacy,
     TimeActiveMin = L_TimeActiveMin legacy,
     TimeActiveMax = L_TimeActiveMax legacy,
     TimeActiveMean = L_TimeActiveMean legacy,
     TimeActiveStdDev = L_TimeActiveStdDev legacy,
     TimeIdleMin = L_TimeIdleMin legacy,
     TimeIdleMax = L_TimeIdleMax legacy,
     TimeIdleMean = L_TimeIdleMean legacy,
     TimeIdleStdDev = L_TimeIdleStdDev legacy,
     Cid = L_Cid legacy,
     CidString = L_CidString legacy,
     SrcCid = L_SrcCid legacy,
     DstCid = L_DstCid legacy,
     NetId = L_NetId legacy,
     NetIdString = L_NetIdString legacy,
     SrcId = L_SrcId legacy,
     SrcIdString = L_SrcIdString legacy,
     DstId = L_DstId legacy,
     DstIdString = L_DstIdString legacy,
     SrcAddrAnon = L_SrcAddrAnon legacy,
     DstAddrAnon = L_DstAddrAnon legacy,
     SrcAddrPreservedLen = L_SrcAddrPreservedLen legacy,
     DstAddrPreservedLen = L_DstAddrPreservedLen legacy,
     SamplerAddrAnon = L_SamplerAddrAnon legacy,
     SamplerAddrPreservedPrefixLen = L_SamplerAddrPreservedPrefixLen legacy,
     NextHopAnon = 0,
     NextHopAnonPreservedPrefixLen = 0,
     Med = L_Med legacy,
     LocalPref = L_LocalPref legacy,
     ValidationStatus = L_ValidationStatus legacy,
     RemoteCountry = L_RemoteCountry legacy,
     SrcCountryBW = '''',
     DstCountryBW = '''',
     Normalized = L_Normalized legacy,
     ProtoName = L_ProtoName legacy,
     RemoteAddr = L_RemoteAddr legacy,
     SrcHostName = L_SrcHostName legacy,
     DstHostName = L_DstHostName legacy,
     NextHopHostName = L_NextHopHostName legacy,
     SrcASName = L_SrcASName legacy,
     DstASName = L_DstASName legacy,
     NextHopASName = L_NextHopASName legacy,
     SamplerHostName = L_SamplerHostName legacy,
     SrcIfName = L_SrcIfName legacy,
     SrcIfDesc = L_SrcIfDesc legacy,
     SrcIfSpeed = L_SrcIfSpeed legacy,
     DstIfName = L_DstIfName legacy,
     DstIfDesc = L_DstIfDesc legacy,
     DstIfSpeed = L_DstIfSpeed legacy,
     Note = L_Note legacy,
     SourceIP = L_SourceIP legacy,
     DestinationIP = L_DestinationIP legacy,
     NextHopIP = L_NextHopIP legacy,
     SamplerIP = L_SamplerIP legacy,
     SourceMAC = L_SourceMAC legacy,
     DestinationMAC = L_DestinationMAC legacy,
     IngressVrfIDBW = 0,
     EgressVrfIDBW = 0,
     TimeFlowStart = L_TimeFlowStart legacy,
     SrcAsPath = [],
     DstAsPath = [],
     unknownFields = L_unknownFields legacy,
     sizeCache = L_sizeCache legacy\<rparr>"

definition ConvertToEnrichedFlow :: "(rat \<Rightarrow> u64) \<Rightarrow> LegacyEnrichedFlow \<Rightarrow> EnrichedFlow" where
  "ConvertToEnrichedFlow ovf legacy = SyncMissingTimeStamps ovf (enriched_literal legacy)"

text \<open>The composite literal of \<open>ConvertToLegacyEnrichedFlow\<close>.\<close>

definition legacy_literal :: "EnrichedFlow \<Rightarrow> LegacyEnrichedFlow" where
  "legacy_literal flow = \<lparr>
     L_Type = Type flow,
     L_TimeReceived = TimeReceived flow,
     L_SequenceNum = SequenceNum flow,
     L_SamplingRate = SamplingRate flow,
     L_FlowDirection = FlowDirection flow,
     L_SamplerAddress = SamplerAddress flow,
     L_TimeFlowStart = TimeFlowStart flow,
     L_TimeFlowEnd = TimeFlowEnd flow,
     L_Bytes = Bytes flow,
     L_Packets = Packets flow,
     L_SrcAddr = SrcAddr flow,
     L_DstAddr = DstAddr flow,
     L_Etype = Etype flow,
     L_Proto = Proto flow,
     L_SrcPort = SrcPort flow,
     L_DstPort = DstPort flow,
     L_InIf = InIf flow,
     L_OutIf = OutIf flow,
     L_SrcMac = SrcMac flow,
     L_DstMac = DstMac flow,
     L_SrcVlan = SrcVlan flow,
     L_DstVlan = DstVlan flow,
     L_VlanId = VlanId flow,
     L_IngressVrfID = IngressVrfId flow,
     L_EgressVrfID = EgressVrfId flow,
     L_IPTos = IpTos flow,
     L_ForwardingStatus = ForwardingStatus flow,
     L_IPTTL = IpTtl flow,
     L_TCPFlags = TcpFlags flow,
     L_IcmpType = IcmpType flow,
     L_IcmpCode = IcmpCode flow,
     L_IPv6FlowLabel = Ipv6FlowLabel flow,
     L_FragmentId = FragmentId flow,
     L_FragmentOffset = FragmentOffset flow,
     L_BiFlowDirection = BiFlowDirection flow,
     L_SrcAS = SrcAs flow,
     L_DstAS = DstAs flow,
     L_NextHop = NextHop flow,
     L_NextHopAS = NextHopAs flow,
     L_SrcNet = SrcNet flow,
     L_DstNet = DstNet flow,
     L_HasMPLS = HasMpls flow,
     L_MPLSCount = MplsCount flow,
     L_MPLS1TTL = Mpls_1Ttl flow,
     L_MPLS1Label = Mpls_1Label flow,
     L_MPLS2TTL = Mpls_2Ttl flow,
     L_MPLS2Label = Mpls_2Label flow,
     L_MPLS3TTL = Mpls_3Ttl flow,
     L_MPLS3Label = Mpls_3Label flow,
     L_MPLSLastTTL = MplsLastTtl flow,
     L_MPLSLastLabel = MplsLastLabel flow,
     L_PacketBytesMin = PacketBytesMin flow,
     L_PacketBytesMax = PacketBytesMax flow,
     L_PacketBytesMean = PacketBytesMean flow,
     L_PacketBytesStdDev = PacketBytesStdDev flow,
     L_PacketIATMin = PacketIATMin flow,
     L_PacketIATMax = PacketIATMax flow,
     L_PacketIATMean = PacketIATMean flow,
     L_PacketIATStdDev = PacketIATStdDev flow,
     L_HeaderBytes = HeaderBytes flow,
     L_FINFlagCount = FINFlagCount flow,
     L_SYNFlagCount = SYNFlagCount flow,
     L_RSTFlagCount = RSTFlagCount flow,
     L_PSHFlagCount = PSHFlagCount flow,
     L_ACKFlagCount = ACKFlagCount flow,
     L_URGFlagCount = URGFlagCount flow,
     L_CWRFlagCount = CWRFlagCount flow,
     L_ECEFlagCount = ECEFlagCount flow,
     L_PayloadPackets = PayloadPackets flow,
     L_TimeActiveMin = TimeActiveMin flow,
     L_TimeActiveMax = TimeActiveMax flow,
     L_TimeActiveMean = TimeActiveMean flow,
     L_TimeActiveStdDev = TimeActiveStdDev flow,
     L_TimeIdleMin = TimeIdleMin flow,
     L_TimeIdleMax = TimeIdleMax flow,
     L_TimeIdleMean = TimeIdleMean flow,
     L_TimeIdleStdDev = TimeIdleStdDev flow,
     L_Cid = Cid flow,
     L_CidString = CidString flow,
     L_SrcCid = SrcCid flow,
     L_DstCid = DstCid flow,
     L_NetId = NetId flow,
     L_NetIdString = NetIdString flow,
     L_SrcId = SrcId flow,
     L_SrcIdString = SrcIdString flow,
     L_DstId = DstId flow,
     L_DstIdString = DstIdString flow,
     L_SrcAddrAnon = SrcAddrAnon flow,
     L_DstAddrAnon = DstAddrAnon flow,
     L_SrcAddrPreservedLen = SrcAddrPreservedLen flow,
     L_DstAddrPreservedLen = DstAddrPreservedLen flow,
     L_SamplerAddrAnon = SamplerAddrAnon flow,
     L_SamplerAddrPreservedPrefixLen = SamplerAddrPreservedPrefixLen flow,
     L_ASPath = AsPath flow,
     L_Med = Med flow,
     L_LocalPref = LocalPref flow,
     L_ValidationStatus = ValidationStatus flow,
     L_RemoteCountry = RemoteCountry flow,
     L_SrcCountry = SrcCountry flow,
     L_DstCountry = DstCountry flow,
     L_Normalized = Normalized flow,
     L_ProtoName = ProtoName flow,
     L_RemoteAddr = RemoteAddr flow,
     L_SrcHostName = SrcHostName flow,
     L_DstHostName = DstHostName flow,
     L_NextHopHostName = NextHopHostName flow,
     L_SrcASName = SrcASName flow,
     L_DstASName = DstASName flow,
     L_NextHopASName = NextHopASName flow,
     L_SamplerHostName = SamplerHostName flow,
     L_SrcIfName = SrcIfName flow,
     L_SrcIfDesc = SrcIfDesc flow,
     L_SrcIfSpeed = SrcIfSpeed flow,
     L_DstIfName = DstIfName flow,
     L_DstIfDesc = DstIfDesc flow,
     L_DstIfSpeed = DstIfSpeed flow,
     L_Note = Note flow,
     L_SourceIP = SourceIP flow,
     L_DestinationIP = DestinationIP flow,
     L_NextHopIP = NextHopIP flow,
     L_SamplerIP = SamplerIP flow,
     L_SourceMAC = SourceMAC flow,
     L_DestinationMAC = DestinationMAC flow,
     L_unknownFields = unknownFields flow,
     L_sizeCache = sizeCache flow\<rparr>"

text \<open>
  \<open>ConvertToLegacyEnrichedFlow\<close> synchronises the message it is called on, in place, before it
  copies the fields: the result is the changed message and the legacy one.
\<close>

definition ConvertToLegacyEnrichedFlow ::
    "(rat \<Rightarrow> u64) \<Rightarrow> EnrichedFlow \<Rightarrow> EnrichedFlow \<times> LegacyEnrichedFlow" where
  "ConvertToLegacyEnrichedFlow ovf flow =
     (let flow' = SyncMissingTimeStamps ovf flow in (flow', legacy_literal flow'))"

text \<open>The segment \<open>sync_timestamps\<close>: one message in, the synchronised message out.\<close>

definition sync_timestamps_msg :: "(rat \<Rightarrow> u64) \<Rightarrow> EnrichedFlow \<Rightarrow> EnrichedFlow" where
  "sync_timestamps_msg ovf msg = SyncMissingTimeStamps ovf msg"

section \<open>Accuracy of the filled timestamps\<close>

lemma fillTimeIfEmpty_keeps [simp]: "t \<noteq> 0 \<Longrightarrow> fillTimeIfEmpty ovf t t' c = t"
  by (simp add: fillTimeIfEmpty_def)

lemma fillTimeIfEmpty_none [simp]: "fillTimeIfEmpty ovf t 0 c = t"
  by (simp add: fillTimeIfEmpty_def)

lemma fallback_keeps [simp]: "t \<noteq> 0 \<Longrightarrow> fillTimeIfEmptyWithFallback ovf t t' c t'' c' = t"
  by (simp add: fillTimeIfEmptyWithFallback_def)

lemma f64_factor_nat [simp]: "f64 (10 ^ 3) = 10 ^ 3" "f64 (10 ^ 6) = 10 ^ 6" "f64 (10 ^ 9) = 10 ^ 9"
  using f64_exact_nat [of "10 ^ 3"] f64_exact_nat [of "10 ^ 6"] f64_exact_nat [of "10 ^ 9"] by simp_all

text \<open>A factor that keeps the product below \<open>2 ^ 53\<close> scales without any error.\<close>

lemma scaled_time_exact:
  assumes "f64 (of_nat c) = of_nat c" "unat t * c < 2 ^ 53" "0 < c"
  shows "scaled_time ovf t (of_nat c) = of_nat (unat t * c)"
proof -
  have "unat t < 2 ^ 53" using assms(2,3)
    by (metis One_nat_def Suc_leI le_less_trans mult.right_neutral mult_le_mono2)
  then have "f64_mul (u64_to_f64 t) (f64 (of_nat c)) = f64 (of_nat (unat t * c))"
    by (simp only: f64_mul_def assms(1) u64_to_f64_small of_nat_mult)
  also have "\<dots> = of_nat (unat t * c)" using assms(2) by (rule f64_exact_nat)
  finally have eq: "f64_mul (u64_to_f64 t) (f64 (of_nat c)) = of_nat (unat t * c)" .
  have "unat t * c < 2 ^ 64" using assms(2) by (rule less_trans) simp
  then show ?thesis by (simp only: scaled_time_def eq math_Round_nat f64_to_u64_nat)
qed

text \<open>In general three roundings of \<open>2 ^ -53\<close> and the final one to an integer add up.\<close>

definition eps :: rat where
  "eps = 1 / 2 ^ 53"

lemma eps_bounds: "0 \<le> eps" "eps \<le> 1" "(1 + eps) ^ 3 \<le> 1 + 4 * eps" "1 - 4 * eps \<le> (1 - eps) ^ 3"
  by (simp_all add: eps_def power3_eq_cube)

lemma f64_bounds:
  assumes "0 \<le> x"
  shows "x * (1 - eps) \<le> f64 x" "f64 x \<le> x * (1 + eps)"
proof -
  have "\<bar>f64 x - x\<bar> \<le> x * eps"
    using assms f64_error [of x] by (cases "x = 0") (auto simp: f64_def eps_def)
  note err = abs_le_D1 [OF this] abs_le_D2 [OF this]
  show "x * (1 - eps) \<le> f64 x" "f64 x \<le> x * (1 + eps)"
    using err by (simp_all add: algebra_simps)
qed

lemma f64_product_error:
  assumes "0 \<le> a" "0 \<le> c"
  shows "\<bar>f64_mul (f64 a) (f64 c) - a * c\<bar> \<le> a * c * (4 * eps)"
proof -
  note e = eps_bounds
  note a = f64_bounds [OF assms(1)] and c = f64_bounds [OF assms(2)]
  have fa: "0 \<le> f64 a" and fc: "0 \<le> f64 c" using assms by (auto intro: f64_nonneg)
  have p: "0 \<le> f64 a * f64 c" using fa fc by simp
  have lo: "a * (1 - eps) * (c * (1 - eps)) \<le> f64 a * f64 c"
    using a c assms e(2) fa by (intro mult_mono) auto
  have hi: "f64 a * f64 c \<le> a * (1 + eps) * (c * (1 + eps))"
    using a c assms e(1) fc by (intro mult_mono) auto
  have "f64 a * f64 c * (1 - eps) \<le> f64_mul (f64 a) (f64 c)"
    "f64_mul (f64 a) (f64 c) \<le> f64 a * f64 c * (1 + eps)"
    using f64_bounds [OF p] by (auto simp: f64_mul_def)
  moreover have "a * (1 - eps) * (c * (1 - eps)) * (1 - eps) \<le> f64 a * f64 c * (1 - eps)"
    using lo e(2) by (intro mult_right_mono) auto
  moreover have "f64 a * f64 c * (1 + eps) \<le> a * (1 + eps) * (c * (1 + eps)) * (1 + eps)"
    using hi e(1) by (intro mult_right_mono) auto
  moreover have "a * c * (1 - 4 * eps) \<le> a * c * (1 - eps) ^ 3"
    "a * c * (1 + eps) ^ 3 \<le> a * c * (1 + 4 * eps)"
    using e(3,4) assms by (intro mult_left_mono; simp)+
  ultimately have "a * c * (1 - 4 * eps) \<le> f64_mul (f64 a) (f64 c)"
    "f64_mul (f64 a) (f64 c) \<le> a * c * (1 + 4 * eps)"
    by (auto simp: power3_eq_cube ac_simps)
  then show ?thesis by (intro abs_leI) (simp_all add: algebra_simps)
qed

lemma scaled_time_error:
  assumes "0 \<le> c" "of_nat (unat t) * c \<le> 2 ^ 63"
  shows "\<bar>of_nat (unat (scaled_time ovf t c)) - of_nat (unat t) * c\<bar>
           \<le> 1 / 2 + of_nat (unat t) * c * (4 * eps)"
proof -
  define a x where "a = (of_nat (unat t) :: rat)" and "x = f64_mul (f64 a) (f64 c)"
  have a0: "0 \<le> a" unfolding a_def by (rule of_nat_0_le_iff)
  have err: "\<bar>x - a * c\<bar> \<le> a * c * (4 * eps)"
    unfolding x_def using a0 assms(1) by (rule f64_product_error)
  have x0: "0 \<le> x" unfolding x_def f64_mul_def using a0 assms(1)
    by (intro f64_nonneg mult_nonneg_nonneg f64_nonneg)
  have ac: "a * c \<le> 2 ^ 63" using assms(2) by (simp only: a_def)
  then have "a * c * (4 * eps) \<le> 2 ^ 63 * (4 * eps)"
    by (intro mult_right_mono) (auto simp: eps_def)
  also have "2 ^ 63 * (4 * eps) = 2 ^ 12" by (simp add: eps_def)
  finally have y: "a * c * (4 * eps) \<le> 2 ^ 12" .
  have "x \<le> a * c + a * c * (4 * eps)" using abs_le_D1 [OF err] by (simp only: diff_le_eq add.commute)
  also have "\<dots> \<le> 2 ^ 63 + 2 ^ 12" by (rule add_mono [OF ac y])
  finally have x_le: "x \<le> 2 ^ 63 + 2 ^ 12" .
  define n where "n = nat \<lfloor>x + 1 / 2\<rfloor>"
  have n: "math_Round x = of_nat n" using x0 by (simp add: math_Round_def n_def)
  have nx: "\<bar>of_nat n - x\<bar> \<le> 1 / 2" using math_Round_error [OF x0] n by simp
  have "(of_nat n :: rat) \<le> x + 1 / 2" using abs_le_D1 [OF nx] by simp
  also have "\<dots> \<le> (2 ^ 63 + 2 ^ 12) + 1 / 2" by (rule add_right_mono [OF x_le])
  also have "\<dots> < (of_nat (2 ^ 64) :: rat)" by simp
  finally have "of_nat n < (of_nat (2 ^ 64) :: rat)" .
  then have "n < 2 ^ 64" by (simp only: of_nat_less_iff)
  then have "scaled_time ovf t c = of_nat n"
    unfolding scaled_time_def u64_to_f64_def a_def [symmetric] x_def [symmetric] n
    by (rule f64_to_u64_nat)
  moreover have "unat (of_nat n :: u64) = n" using \<open>n < 2 ^ 64\<close> by (simp add: unat_of_nat)
  ultimately have "(of_nat (unat (scaled_time ovf t c)) :: rat) = of_nat n" by simp
  then have "\<bar>of_nat (unat (scaled_time ovf t c)) - a * c\<bar> \<le> 1 / 2 + a * c * (4 * eps)"
    using nx err by linarith
  then show ?thesis by (simp only: a_def)
qed

section \<open>Round trip and filling\<close>

lemma sync3_zero [simp]: "sync3 ovf 0 0 0 = (0, 0, 0)"
  by (simp add: sync3_def fillTimeIfEmptyWithFallback_def)

lemma sync3_seconds: "s \<noteq> 0 \<Longrightarrow> fst (sync3 ovf s ms ns) = s"
  by (simp add: sync3_def Let_def)

lemma sync3_keeps:
  "s \<noteq> 0 \<Longrightarrow> fst (sync3 ovf s ms ns) = s"
  "ms \<noteq> 0 \<Longrightarrow> fst (snd (sync3 ovf s ms ns)) = ms"
  "ns \<noteq> 0 \<Longrightarrow> snd (snd (sync3 ovf s ms ns)) = ns"
  by (simp_all add: sync3_def Let_def)

lemma sync3_hole:
  "s \<noteq> fst (sync3 ovf s ms ns) \<Longrightarrow> s = 0"
  "ms \<noteq> fst (snd (sync3 ovf s ms ns)) \<Longrightarrow> ms = 0"
  "ns \<noteq> snd (snd (sync3 ovf s ms ns)) \<Longrightarrow> ns = 0"
  by (metis sync3_keeps)+

lemma fillTimeIfEmpty_hole: "t \<noteq> fillTimeIfEmpty ovf t t' c \<Longrightarrow> t = 0"
  by (metis fillTimeIfEmpty_keeps)

text \<open>Legacy messages only carry seconds: synchronising twice gives the seconds back.\<close>

lemma sync3_again: "fst (case sync3 ovf s 0 0 of (a, b, c) \<Rightarrow> sync3 ovf a b c) = s"
proof (cases "s = 0")
  case False
  then show ?thesis by (auto simp: sync3_seconds split: prod.split dest: arg_cong [where f = fst])
qed simp

lemma SyncMissingTimeStamps_eq:
  "SyncMissingTimeStamps ovf f =
     (let e = sync3 ovf (TimeFlowEnd f) (TimeFlowEndMs f) (TimeFlowEndNs f);
          b = sync3 ovf (TimeFlowStart f) (TimeFlowStartMs f) (TimeFlowStartNs f);
          r = fillTimeIfEmpty ovf (TimeReceived f) (TimeReceivedNs f) (1 / 10 ^ 9)
      in f\<lparr>TimeFlowEnd := fst e, TimeFlowEndMs := fst (snd e), TimeFlowEndNs := snd (snd e),
           TimeFlowStart := fst b, TimeFlowStartMs := fst (snd b), TimeFlowStartNs := snd (snd b),
           TimeReceived := r,
           TimeReceivedNs := fillTimeIfEmpty ovf (TimeReceivedNs f) r (10 ^ 9)\<rparr>)"
  by (simp add: SyncMissingTimeStamps_def Let_def split: prod.split)

lemma enriched_literal_times [simp]:
  "TimeFlowEnd (enriched_literal l) = L_TimeFlowEnd l"
  "TimeFlowEndMs (enriched_literal l) = 0"
  "TimeFlowEndNs (enriched_literal l) = 0"
  "TimeFlowStart (enriched_literal l) = L_TimeFlowStart l"
  "TimeFlowStartMs (enriched_literal l) = 0"
  "TimeFlowStartNs (enriched_literal l) = 0"
  "TimeReceived (enriched_literal l) = L_TimeReceived l"
  "TimeReceivedNs (enriched_literal l) = 0"
  by (simp_all add: enriched_literal_def)

text \<open>Apart from its times, every legacy field survives the two struct literals.\<close>

lemma legacy_literal_enriched_literal:
  "legacy_literal ((enriched_literal l)\<lparr>TimeFlowEnd := L_TimeFlowEnd l, TimeFlowEndMs := ems,
     TimeFlowEndNs := ens, TimeFlowStart := L_TimeFlowStart l, TimeFlowStartMs := bms,
     TimeFlowStartNs := bns, TimeReceived := L_TimeReceived l, TimeReceivedNs := rns\<rparr>) = l"
  by (cases l) (simp add: legacy_literal_def enriched_literal_def)

lemma sync3_again': "fst (sync3 ovf (fst (sync3 ovf s 0 0)) (fst (snd (sync3 ovf s 0 0))) (snd (snd (sync3 ovf s 0 0)))) = s"
  using sync3_again [of ovf s] by (simp add: case_prod_beta)

lemma received_again: "fillTimeIfEmpty ovf r (fillTimeIfEmpty ovf 0 r c) c' = r"
  by (cases "r = 0") simp_all

text \<open>
  C25. A legacy message converted to an enriched message and back is the same message, in every
  field, whatever the platform does with out-of-range floating-point conversions.
\<close>

theorem legacy_roundtrip:
  "snd (ConvertToLegacyEnrichedFlow ovf (ConvertToEnrichedFlow ovf l)) = l"
  by (simp add: ConvertToLegacyEnrichedFlow_def ConvertToEnrichedFlow_def SyncMissingTimeStamps_eq
      Let_def sync3_again' received_again legacy_literal_enriched_literal)

text \<open>
  Synchronisation only fills holes: it changes no field but the eight timestamps, and a
  timestamp that is set keeps its value.
\<close>

theorem sync_only_fills:
  "SyncMissingTimeStamps ovf f = f\<lparr>
     TimeFlowEnd := TimeFlowEnd (SyncMissingTimeStamps ovf f),
     TimeFlowEndMs := TimeFlowEndMs (SyncMissingTimeStamps ovf f),
     TimeFlowEndNs := TimeFlowEndNs (SyncMissingTimeStamps ovf f),
     TimeFlowStart := TimeFlowStart (SyncMissingTimeStamps ovf f),
     TimeFlowStartMs := TimeFlowStartMs (SyncMissingTimeStamps ovf f),
     TimeFlowStartNs := TimeFlowStartNs (SyncMissingTimeStamps ovf f),
     TimeReceived := TimeReceived (SyncMissingTimeStamps ovf f),
     TimeReceivedNs := TimeReceivedNs (SyncMissingTimeStamps ovf f)\<rparr>
   \<and> TimeFlowEnd f \<in> {0, TimeFlowEnd (SyncMissingTimeStamps ovf f)}
   \<and> TimeFlowEndMs f \<in> {0, TimeFlowEndMs (SyncMissingTimeStamps ovf f)}
   \<and> TimeFlowEndNs f \<in> {0, TimeFlowEndNs (SyncMissingTimeStamps ovf f)}
   \<and> TimeFlowStart f \<in> {0, TimeFlowStart (SyncMissingTimeStamps ovf f)}
   \<and> TimeFlowStartMs f \<in> {0, TimeFlowStartMs (SyncMissingTimeStamps ovf f)}
   \<and> TimeFlowStartNs f \<in> {0, TimeFlowStartNs (SyncMissingTimeStamps ovf f)}
   \<and> TimeReceived f \<in> {0, TimeReceived (SyncMissingTimeStamps ovf f)}
   \<and> TimeReceivedNs f \<in> {0, TimeReceivedNs (SyncMissingTimeStamps ovf f)}"
  by (auto simp: SyncMissingTimeStamps_eq Let_def intro: sync3_hole fillTimeIfEmpty_hole)

lemma small_seconds_product:
  fixes s :: u64
  assumes "unat s < 2 ^ 33"
  shows "unat (of_nat (unat s * 1000) :: u64) = unat s * 1000"
  unfolding unat_of_nat using assms by simp

text \<open>
  A flow that only carries its end in seconds (before the year 2242) gets the exact
  millisecond value and a nanosecond value that is off by less than four microseconds.
\<close>

theorem sync_from_seconds:
  assumes "TimeFlowEnd f = s" "s \<noteq> 0" "unat s < 2 ^ 33" "TimeFlowEndMs f = 0" "TimeFlowEndNs f = 0"
  shows "TimeFlowEnd (SyncMissingTimeStamps ovf f) = s
    \<and> unat (TimeFlowEndMs (SyncMissingTimeStamps ovf f)) = 1000 * unat s
    \<and> \<bar>of_nat (unat (TimeFlowEndNs (SyncMissingTimeStamps ovf f))) - 10 ^ 9 * of_nat (unat s)\<bar> < (4000 :: rat)"
proof -
  define ms where "ms = (of_nat (unat s * 1000) :: u64)"
  have um: "unat ms = unat s * 1000" unfolding ms_def using assms(3) by (rule small_seconds_product)
  have "unat s \<noteq> 0" using assms(2) by (simp add: unat_eq_0)
  then have m0: "ms \<noteq> 0" using um by (metis mult_eq_0_iff unat_0 zero_neq_numeral)
  have "unat s * 1000 < 2 ^ 53" using assms(3) by simp
  then have "scaled_time ovf s (of_nat 1000) = ms" unfolding ms_def
    using f64_exact_nat [of 1000] by (intro scaled_time_exact) simp_all
  then have ms: "fillTimeIfEmpty ovf 0 s (10 ^ 3) = ms" using assms(2) by (simp add: fillTimeIfEmpty_def)
  define y where "y = (of_nat (unat ms) :: rat) * 10 ^ 6"
  have y: "y = 10 ^ 9 * of_nat (unat s)" unfolding y_def um by simp
  have "(of_nat (unat s) :: rat) \<le> 2 ^ 33"
    using assms(3) of_nat_mono [of "unat s" "2 ^ 33", where 'a = rat] by simp
  then have yb: "y \<le> 10 ^ 9 * 2 ^ 33" unfolding y by (intro mult_left_mono) simp_all
  also have "\<dots> \<le> 2 ^ 63" by simp
  finally have err: "\<bar>of_nat (unat (scaled_time ovf ms (10 ^ 6))) - y\<bar> \<le> 1 / 2 + y * (4 * eps)"
    unfolding y_def by (intro scaled_time_error) simp_all
  have "y * (4 * eps) \<le> 10 ^ 9 * 2 ^ 33 * (4 * eps)"
    using yb eps_bounds(1) by (intro mult_right_mono) auto
  also have "\<dots> < 3990" by (simp add: eps_def)
  finally have "\<bar>of_nat (unat (scaled_time ovf ms (10 ^ 6))) - y\<bar> < 4000" using err by linarith
  moreover have ns: "fillTimeIfEmptyWithFallback ovf 0 ms (10 ^ 6) s (10 ^ 9) = scaled_time ovf ms (10 ^ 6)
      \<or> scaled_time ovf ms (10 ^ 6) = 0"
    using m0 by (auto simp: fillTimeIfEmptyWithFallback_def fillTimeIfEmpty_def)
  moreover have "10 ^ 9 \<le> y" unfolding y
    using \<open>unat s \<noteq> 0\<close> of_nat_mono [of 1 "unat s", where 'a = rat] by simp
  ultimately have "scaled_time ovf ms (10 ^ 6) \<noteq> 0" by (auto simp: abs_if split: if_splits)
  then show ?thesis
    using assms \<open>\<bar>_ - y\<bar> < 4000\<close> ns um m0 y
    by (simp add: SyncMissingTimeStamps_eq sync3_def Let_def fillTimeIfEmptyWithFallback_def ms [simplified])
qed

theorem sync_from_seconds_witness:
  "TimeFlowEnd (SyncMissingTimeStamps (\<lambda>_. 0) (zero_flow\<lparr>TimeFlowEnd := 1700000000\<rparr>)) = 1700000000
    \<and> unat (TimeFlowEndMs (SyncMissingTimeStamps (\<lambda>_. 0) (zero_flow\<lparr>TimeFlowEnd := 1700000000\<rparr>)))
        = 1000 * unat (1700000000 :: u64)"
  using sync_from_seconds [of "zero_flow\<lparr>TimeFlowEnd := 1700000000\<rparr>" 1700000000 "\<lambda>_. 0"]
  by (simp add: zero_flow_def)

end
