(* ===== verification/Segments.thy ===== *)
theory Segments
  imports Prelude
begin

text \<open>
  Segments (\<open>segments/segments.go\<close>, \<open>segments/filter_segment.go\<close>): what the goroutine of a
  segment does with the messages of its input channel, the contracts of the two groups of
  segments as locales, and the registry of segment names.

  A segment that ranges over its input channel is a state and a step function: one message in,
  a list of sends on its output and drop channels out. \<open>run_loop\<close> is the \<open>for msg := range
  segment.In\<close> loop over the messages received until the channel is closed. The type of the
  messages is a parameter here; the components fix it to \<open>EnrichedFlow\<close>.
\<close>

section \<open>Sends and the receive loop\<close>

datatype 'm event = Out 'm | Drop 'm

type_synonym ('s, 'm) step = "'s \<Rightarrow> 'm \<Rightarrow> ('m event list \<times> 's) outcome"

fun run_loop :: "('s, 'm) step \<Rightarrow> 's \<Rightarrow> 'm list \<Rightarrow> ('m event list \<times> 's) outcome" where
  "run_loop step s [] = Inr ([], s)"
| "run_loop step s (m # ms) =
     (case step s m of
        Inl e \<Rightarrow> Inl e
      | Inr (evs, s') \<Rightarrow>
          (case run_loop step s' ms of
             Inl e \<Rightarrow> Inl e
           | Inr (evs', s'') \<Rightarrow> Inr (evs @ evs', s'')))"

fun outs :: "'m event list \<Rightarrow> 'm list" where
  "outs [] = []"
| "outs (Out m # es) = m # outs es"
| "outs (Drop m # es) = outs es"

fun drops :: "'m event list \<Rightarrow> 'm list" where
  "drops [] = []"
| "drops (Out m # es) = drops es"
| "drops (Drop m # es) = m # drops es"

lemma outs_append [simp]: "outs (es @ fs) = outs es @ outs fs"
  by (induction es rule: outs.induct) auto

lemma drops_append [simp]: "drops (es @ fs) = drops es @ drops fs"
  by (induction es rule: drops.induct) auto

lemma outs_map_Out [simp]: "outs (map Out ms) = ms" "drops (map Out ms) = []"
  by (induction ms) auto

lemma outs_map_edit [simp]: "outs (map (\<lambda>m. Out (f m)) ms) = map f ms" "drops (map (\<lambda>m. Out (f m)) ms) = []"
  by (induction ms) auto

lemma outs_map_Drop [simp]: "outs (map Drop ms) = []" "drops (map Drop ms) = ms"
  by (induction ms) auto

lemma run_loop_append:
  "run_loop step s (ms @ ns) =
     (case run_loop step s ms of
        Inl e \<Rightarrow> Inl e
      | Inr (evs, s') \<Rightarrow>
          (case run_loop step s' ns of
             Inl e \<Rightarrow> Inl e
           | Inr (evs', s'') \<Rightarrow> Inr (evs @ evs', s'')))"
  by (induction ms arbitrary: s) (auto split: sum.splits prod.splits)

text \<open>\<open>segment.Drops\<close> is nil unless a branch subscribed: a drop is sent only then.\<close>

definition send_drop :: "bool \<Rightarrow> 'm \<Rightarrow> 'm event list" where
  "send_drop subscribed m = (if subscribed then [Drop m] else [])"

lemma outs_send_drop [simp]: "outs (send_drop b m) = []"
  by (simp add: send_drop_def)

lemma drops_send_drop [simp]: "drops (send_drop b m) = (if b then [m] else [])"
  by (simp add: send_drop_def)

section \<open>The contract of a filter segment\<close>

text \<open>
  Every message goes, unchanged, either to the output or to the drop channel (to the latter
  only when somebody subscribed to it), and the goroutine does not fail.
\<close>

locale filter_segment =
  fixes step :: "('s, 'm) step"
    and subscribed :: "'s \<Rightarrow> bool"
    and inv :: "'s \<Rightarrow> bool"
  assumes step_cases: "inv s \<Longrightarrow> \<exists>s'. step s m \<in> {Inr ([Out m], s'), Inr (send_drop (subscribed s) m, s')}"
    and step_inv: "inv s \<Longrightarrow> step s m = Inr (es, s') \<Longrightarrow> inv s' \<and> subscribed s' = subscribed s"
begin

lemma run_total: "inv s \<Longrightarrow> \<exists>es s'. run_loop step s ms = Inr (es, s') \<and> inv s' \<and> subscribed s' = subscribed s"
proof (induction ms arbitrary: s)
  case (Cons m ms)
  obtain es s1 where 1: "step s m = Inr (es, s1)" using step_cases [OF Cons.prems, of m] by auto
  then have "inv s1" "subscribed s1 = subscribed s" using step_inv Cons.prems by blast+
  moreover from Cons.IH [OF this(1)] obtain es' s2
    where "run_loop step s1 ms = Inr (es', s2)" "inv s2" "subscribed s2 = subscribed s1" by blast
  ultimately show ?case using 1 by simp
qed simp

lemma step_shape: "inv s \<Longrightarrow> step s m = Inr (es, s') \<Longrightarrow> es = [Out m] \<or> es = send_drop (subscribed s) m"
  using step_cases [of s m] by auto

lemma run_subseq: "inv s \<Longrightarrow> run_loop step s ms = Inr (es, s') \<Longrightarrow> subseq (outs es) ms"
proof (induction ms arbitrary: s es)
  case (Cons m ms)
  obtain e1 s1 where 1: "step s m = Inr (e1, s1)" using step_cases [OF Cons.prems(1), of m] by auto
  moreover obtain e2 s2 where 2: "run_loop step s1 ms = Inr (e2, s2)"
    using Cons.prems(2) 1 by (auto split: sum.splits prod.splits)
  moreover have "inv s1" using step_inv [OF Cons.prems(1) 1] by simp
  ultimately have "subseq (outs e2) ms" "es = e1 @ e2"
    using Cons.IH [of s1 e2] Cons.prems(2) by auto
  then show ?case using step_shape [OF Cons.prems(1) 1] by auto
qed simp

lemma run_conserves:
  "inv s \<Longrightarrow> subscribed s \<Longrightarrow> run_loop step s ms = Inr (es, s') \<Longrightarrow>
     mset (outs es) + mset (drops es) = mset ms"
proof (induction ms arbitrary: s es)
  case (Cons m ms)
  obtain e1 s1 where 1: "step s m = Inr (e1, s1)" using step_cases [OF Cons.prems(1), of m] by auto
  moreover obtain e2 s2 where 2: "run_loop step s1 ms = Inr (e2, s2)"
    using Cons.prems(3) 1 by (auto split: sum.splits prod.splits)
  moreover have "inv s1" "subscribed s1"
    using step_inv [OF Cons.prems(1) 1] Cons.prems(2) by simp_all
  ultimately have "mset (outs e2) + mset (drops e2) = mset ms" "es = e1 @ e2"
    using Cons.IH [of s1 e2] Cons.prems(3) by auto
  then show ?case using step_shape [OF Cons.prems(1) 1] Cons.prems(2) by auto
qed simp

lemma run_silent: "inv s \<Longrightarrow> \<not> subscribed s \<Longrightarrow> run_loop step s ms = Inr (es, s') \<Longrightarrow> drops es = []"
proof (induction ms arbitrary: s es)
  case (Cons m ms)
  obtain e1 s1 where 1: "step s m = Inr (e1, s1)" using step_cases [OF Cons.prems(1), of m] by auto
  moreover obtain e2 s2 where 2: "run_loop step s1 ms = Inr (e2, s2)"
    using Cons.prems(3) 1 by (auto split: sum.splits prod.splits)
  moreover have "inv s1" "\<not> subscribed s1"
    using step_inv [OF Cons.prems(1) 1] Cons.prems(2) by simp_all
  ultimately have "drops e2 = []" "es = e1 @ e2"
    using Cons.IH [of s1 e2] Cons.prems(3) by auto
  then show ?case using step_shape [OF Cons.prems(1) 1] Cons.prems(2) by auto
qed simp

end

section \<open>The contract of a modifying segment\<close>

text \<open>
  A segment of the modify, print and output groups sends exactly one message for every message
  it receives, possibly edited, and drops none; \<open>ok\<close> says which messages do not make the
  goroutine fail.
\<close>

locale modify_segment =
  fixes step :: "('s, 'm) step"
    and ok :: "'s \<Rightarrow> 'm \<Rightarrow> bool"
    and inv :: "'s \<Rightarrow> bool"
  assumes step_one: "inv s \<Longrightarrow> ok s m \<Longrightarrow> \<exists>m' s'. step s m = Inr ([Out m'], s')"
    and step_keeps: "inv s \<Longrightarrow> step s m = Inr (es, s') \<Longrightarrow> inv s' \<and> ok s' = ok s"
begin

lemma run_one_each:
  "inv s \<Longrightarrow> \<forall>m\<in>set ms. ok s m \<Longrightarrow>
     \<exists>es s'. run_loop step s ms = Inr (es, s') \<and> drops es = [] \<and> length (outs es) = length ms"
proof (induction ms arbitrary: s)
  case (Cons m ms)
  obtain m' s1 where 1: "step s m = Inr ([Out m'], s1)"
    using step_one [OF Cons.prems(1), of m] Cons.prems(2) by auto
  then have "inv s1" "ok s1 = ok s" using step_keeps Cons.prems(1) by blast+
  then obtain es s2 where "run_loop step s1 ms = Inr (es, s2)" "drops es = []" "length (outs es) = length ms"
    using Cons.IH [of s1] Cons.prems(2) by auto
  then show ?case using 1 by simp
qed simp

end

text \<open>
  Most modifying segments are a pure function of their configuration and the message: they edit
  the message in place and send it on. Their loop is \<open>map\<close>.
\<close>

definition edit_step :: "('c \<Rightarrow> 'm \<Rightarrow> 'm) \<Rightarrow> ('c, 'm) step" where
  "edit_step edit c m = Inr ([Out (edit c m)], c)"

lemma run_edit_step: "run_loop (edit_step edit) c ms = Inr (map (\<lambda>m. Out (edit c m)) ms, c)"
  by (induction ms) (auto simp: edit_step_def)

interpretation edit: modify_segment "edit_step edit" "\<lambda>_ _. True" "\<lambda>_. True" for edit
  by unfold_locales (auto simp: edit_step_def)

section \<open>The registry\<close>

text \<open>
  \<open>RegisterSegment\<close> and \<open>LookupSegment\<close> over the map \<open>registeredSegments\<close>. Both lower the
  name; registering a name twice and looking up an unknown one end the process.
\<close>

type_synonym 'seg registry = "string \<rightharpoonup> 'seg"

definition RegisterSegment :: "'seg registry \<Rightarrow> string \<Rightarrow> 'seg \<Rightarrow> 'seg registry outcome" where
  "RegisterSegment reg name s =
     (let name' = to_lower name in
      if reg name' \<noteq> None
      then Inl (Fatal (''Segments: Tried to register conflicting segment name '' @ name'))
      else Inr (reg(name' \<mapsto> s)))"

definition LookupSegment :: "'seg registry \<Rightarrow> string \<Rightarrow> 'seg outcome" where
  "LookupSegment reg name =
     (case reg (to_lower name) of
        None \<Rightarrow> Inl (Fatal (''Segments: Could not find a segment named '' @ to_lower name))
      | Some s \<Rightarrow> Inr s)"

text \<open>The registrations of all \<open>init\<close> functions, in some order.\<close>

fun register_all :: "'seg registry \<Rightarrow> (string \<times> 'seg) list \<Rightarrow> 'seg registry outcome" where
  "register_all reg [] = Inr reg"
| "register_all reg ((n, s) # r) =
     (case RegisterSegment reg n s of Inl e \<Rightarrow> Inl e | Inr reg' \<Rightarrow> register_all reg' r)"

definition all_lower :: "'seg registry \<Rightarrow> bool" where
  "all_lower reg \<longleftrightarrow> (\<forall>n\<in>dom reg. to_lower n = n)"

lemma RegisterSegment_lower:
  "all_lower reg \<Longrightarrow> RegisterSegment reg n s = Inr reg' \<Longrightarrow> all_lower reg'"
  by (auto simp: all_lower_def RegisterSegment_def Let_def split: if_splits)

lemma RegisterSegment_lookup:
  "RegisterSegment reg n s = Inr reg' \<Longrightarrow>
     LookupSegment reg' k = (if to_lower k = to_lower n then Inr s else LookupSegment reg k)"
  by (auto simp: RegisterSegment_def LookupSegment_def Let_def split: if_splits)

lemma register_all_lookup:
  "register_all reg r = Inr reg' \<Longrightarrow> to_lower k \<notin> (\<lambda>(n, _). to_lower n) ` set r \<Longrightarrow>
     LookupSegment reg' k = LookupSegment reg k"
  by (induction reg r rule: register_all.induct)
    (auto simp: RegisterSegment_lookup split: sum.splits)

lemma register_all_dom:
  "register_all reg r = Inr reg' \<Longrightarrow> reg (to_lower n) = None \<or> to_lower n \<notin> (\<lambda>(n, _). to_lower n) ` set r"
  by (induction reg r rule: register_all.induct)
    (auto simp: RegisterSegment_def Let_def split: sum.splits if_splits)

lemma register_all_found:
  "register_all reg r = Inr reg' \<Longrightarrow> (n, s) \<in> set r \<Longrightarrow> to_lower k = to_lower n \<Longrightarrow>
     LookupSegment reg' k = Inr s"
proof (induction reg r rule: register_all.induct)
  case (2 reg n0 s0 r)
  then obtain reg1 where 1: "RegisterSegment reg n0 s0 = Inr reg1" "register_all reg1 r = Inr reg'"
    by (auto split: sum.splits)
  show ?case
  proof (cases "(n, s) \<in> set r")
    case True then show ?thesis using 2 1 by simp
  next
    case False
    then have n: "n = n0" "s = s0" using 2(3) by auto
    have "reg1 (to_lower n0) \<noteq> None"
      using 1(1) by (auto simp: RegisterSegment_def Let_def split: if_splits)
    then have "to_lower k \<notin> (\<lambda>(n, _). to_lower n) ` set r"
      using register_all_dom [OF 1(2), of n0] 2(4) n by auto
    then show ?thesis
      using register_all_lookup [OF 1(2)] RegisterSegment_lookup [OF 1(1), of k] 2(4) n by simp
  qed
qed simp

text \<open>
  When the registrations of the program succeed, looking a segment up by its registered
  name, in any letter case, finds exactly the segment registered under it.
\<close>

theorem register_then_lookup:
  assumes "register_all Map.empty r = Inr reg" "(n, s) \<in> set r" "to_lower k = to_lower n"
  shows "LookupSegment reg k = Inr s"
  using assms by (rule register_all_found)

theorem register_then_lookup_witness:
  "LookupSegment [''snmp'' \<mapsto> (1::nat), ''pass'' \<mapsto> 0] ''SnMp'' = Inr 1"
proof -
  have l: "to_lower ''SNMP'' = ''snmp''" "to_lower ''pass'' = ''pass''" "to_lower ''SnMp'' = ''snmp''"
    by code_simp+
  have "register_all Map.empty [(''SNMP'', 1::nat), (''pass'', 0)] = Inr [''snmp'' \<mapsto> 1, ''pass'' \<mapsto> 0]"
    by (simp add: RegisterSegment_def l)
  then show ?thesis by (rule register_then_lookup [of _ _ "''SNMP''"]) (simp_all add: l)
qed

end
