(* ===== verification/Network.thy ===== *)
theory Network
  imports Segments
begin

text \<open>
  The goroutines of a pipeline (\<open>pipeline/pipeline.go\<close>): every segment runs in its own
  goroutine, neighbours are joined by unbuffered channels, the caller sends into the first
  channel and closes it, \<open>AutoDrain\<close> reads the last one, and a subscriber reads the drop
  channel. The theory gives the interleaving semantics as a step relation and shows that every
  run ends and delivers the sequential composition of the segments.
\<close>

section \<open>Segments as transducers\<close>

text \<open>
  The state of a segment is private to it. The type \<open>seg\<close> hides it, so that segments of
  different packages fit in one list: the behaviour of a segment is what it does with the next
  message.
\<close>

codatatype (dead 'm) seg = Seg (on_msg: "'m \<Rightarrow> ('m event list \<times> 'm seg) outcome")

primcorec mk_seg :: "('s, 'm) step \<Rightarrow> 's \<Rightarrow> 'm seg" where
  "on_msg (mk_seg step s) = (map_sum id (map_prod id (mk_seg step))) \<circ> step s"

fun seg_run :: "'m seg \<Rightarrow> 'm list \<Rightarrow> ('m event list \<times> 'm seg) outcome" where
  "seg_run s [] = Inr ([], s)"
| "seg_run s (m # ms) =
     (case on_msg s m of
        Inl e \<Rightarrow> Inl e
      | Inr (evs, s') \<Rightarrow>
          (case seg_run s' ms of
             Inl e \<Rightarrow> Inl e
           | Inr (evs', s'') \<Rightarrow> Inr (evs @ evs', s'')))"

text \<open>Hiding the state changes nothing: a transducer runs like the loop it was made from.\<close>

lemma seg_run_mk_seg:
  "seg_run (mk_seg step s) ms = map_sum id (map_prod id (mk_seg step)) (run_loop step s ms)"
  by (induction ms arbitrary: s) (auto split: sum.splits prod.splits)

section \<open>The sequential meaning of a list of segments\<close>

fun pipeline_run :: "'m seg list \<Rightarrow> 'm list \<Rightarrow> ('m list \<times> 'm multiset) outcome" where
  "pipeline_run [] ms = Inr (ms, {#})"
| "pipeline_run (s # ss) ms =
     (case seg_run s ms of
        Inl e \<Rightarrow> Inl e
      | Inr (evs, _) \<Rightarrow>
          (case pipeline_run ss (outs evs) of
             Inl e \<Rightarrow> Inl e
           | Inr (os, ds) \<Rightarrow> Inr (os, mset (drops evs) + ds)))"

section \<open>Goroutines and their interleaving\<close>

text \<open>
  A segment goroutine is blocked receiving from its input channel, blocked at a send, or has
  closed its output channel and returned.
\<close>

datatype 'm gor = Recv "'m seg" | Send "'m event list" "'m seg" | Done

definition resume :: "'m event list \<Rightarrow> 'm seg \<Rightarrow> 'm gor" where
  "resume es s = (if es = [] then Recv s else Send es s)"

record 'm net =
  inputs :: "'m list"
  gors :: "'m gor list"
  out_got :: "'m list"
  drop_got :: "'m list"
  crashed :: "failure option"

definition start_net :: "'m seg list \<Rightarrow> 'm list \<Rightarrow> 'm net" where
  "start_net ss ms = \<lparr>inputs = ms, gors = map Recv ss, out_got = [], drop_got = [], crashed = None\<rparr>"

text \<open>
  One rule per rendezvous: the caller with the first segment, two neighbours, the last segment
  with the drain, a filter with the subscriber of its drops; and the propagation of the close.
  Work between two channel operations is local to a goroutine and happens with the receive.
\<close>

inductive net_step :: "'m net \<Rightarrow> 'm net \<Rightarrow> bool" where
  feed: "crashed n = None \<Longrightarrow> inputs n = m # ms \<Longrightarrow> gors n = Recv s # gs \<Longrightarrow> on_msg s m = Inr (es, s') \<Longrightarrow>
    net_step n (n\<lparr>inputs := ms, gors := resume es s' # gs\<rparr>)"
| feed_crash: "crashed n = None \<Longrightarrow> inputs n = m # ms \<Longrightarrow> gors n = Recv s # gs \<Longrightarrow> on_msg s m = Inl e \<Longrightarrow>
    net_step n (n\<lparr>crashed := Some e\<rparr>)"
| hand_over: "crashed n = None \<Longrightarrow> gors n = xs @ Send (Out m # es) s # Recv t # ys \<Longrightarrow> on_msg t m = Inr (fs, t') \<Longrightarrow>
    net_step n (n\<lparr>gors := xs @ resume es s # resume fs t' # ys\<rparr>)"
| hand_over_crash: "crashed n = None \<Longrightarrow> gors n = xs @ Send (Out m # es) s # Recv t # ys \<Longrightarrow> on_msg t m = Inl e \<Longrightarrow>
    net_step n (n\<lparr>crashed := Some e\<rparr>)"
| drain: "crashed n = None \<Longrightarrow> gors n = xs @ [Send (Out m # es) s] \<Longrightarrow>
    net_step n (n\<lparr>gors := xs @ [resume es s], out_got := out_got n @ [m]\<rparr>)"
| drop: "crashed n = None \<Longrightarrow> gors n = xs @ Send (Drop m # es) s # ys \<Longrightarrow>
    net_step n (n\<lparr>gors := xs @ resume es s # ys, drop_got := drop_got n @ [m]\<rparr>)"
| close_first: "crashed n = None \<Longrightarrow> inputs n = [] \<Longrightarrow> gors n = Recv s # gs \<Longrightarrow>
    net_step n (n\<lparr>gors := Done # gs\<rparr>)"
| close_next: "crashed n = None \<Longrightarrow> gors n = xs @ Done # Recv s # ys \<Longrightarrow>
    net_step n (n\<lparr>gors := xs @ Done # Done # ys\<rparr>)"

inductive_cases net_step_cases: "net_step n n'"

text \<open>\<open>pipeline.wg.Wait()\<close> returns when every goroutine is done.\<close>

definition finished :: "'m net \<Rightarrow> bool" where
  "finished n \<longleftrightarrow> crashed n = None \<and> (\<forall>g\<in>set (gors n). g = Done)"

section \<open>What is left to do\<close>

text \<open>
  The events a goroutine still produces when it will receive \<open>ms\<close>, and from these the
  messages that reach the end of the pipeline, the drops, and an amount of work.
\<close>

fun pending :: "'m gor \<Rightarrow> 'm list \<Rightarrow> 'm event list outcome" where
  "pending (Recv s) ms = map_sum id fst (seg_run s ms)"
| "pending (Send es s) ms = map_sum id (\<lambda>r. es @ fst r) (seg_run s ms)"
| "pending Done ms = (if ms = [] then Inr [] else Inl (Panic ''send on closed pipeline''))"

fun remaining :: "'m gor list \<Rightarrow> 'm list \<Rightarrow> ('m list \<times> 'm multiset \<times> nat) outcome" where
  "remaining [] ms = Inr (ms, {#}, 0)"
| "remaining (g # gs) ms =
     (case pending g ms of
        Inl e \<Rightarrow> Inl e
      | Inr evs \<Rightarrow>
          (case remaining gs (outs evs) of
             Inl e \<Rightarrow> Inl e
           | Inr (os, ds, w) \<Rightarrow>
               Inr (os, mset (drops evs) + ds, w + length ms + length evs + (if g = Done then 0 else 1))))"

lemma pending_resume [simp]: "pending (resume es s) ms = pending (Send es s) ms"
  by (simp add: resume_def)

lemma resume_not_Done [simp]: "resume es s \<noteq> Done"
  by (simp add: resume_def)

lemma pending_Inr [net_simps]:
  "pending (Recv s) ms = Inr evs \<longleftrightarrow> (\<exists>s'. seg_run s ms = Inr (evs, s'))"
  "pending (Send es s) ms = Inr evs \<longleftrightarrow> (\<exists>fs s'. seg_run s ms = Inr (fs, s') \<and> evs = es @ fs)"
  "pending Done ms = Inr evs \<longleftrightarrow> ms = [] \<and> evs = []"
  by (auto simp: map_sum_def split: sum.splits)

lemma seg_run_Cons_Inr [net_simps]:
  "seg_run s (m # ms) = Inr (evs, s'') \<longleftrightarrow>
     (\<exists>es s' fs. on_msg s m = Inr (es, s') \<and> seg_run s' ms = Inr (fs, s'') \<and> evs = es @ fs)"
  by (auto split: sum.splits prod.splits)

lemma remaining_Cons_Inr [net_simps]:
  "remaining (g # gs) ms = Inr (os, ds, w) \<longleftrightarrow>
     (\<exists>evs ds1 w1. pending g ms = Inr evs \<and> remaining gs (outs evs) = Inr (os, ds1, w1)
        \<and> ds = mset (drops evs) + ds1
        \<and> w = w1 + length ms + length evs + (if g = Done then 0 else 1))"
  by (auto split: sum.splits prod.splits)

declare pending.simps [simp del] remaining.simps(2) [simp del] seg_run.simps(2) [simp del]

text \<open>
  A change of the goroutines that delivers \<open>os'\<close> and drops \<open>ds'\<close>, keeps the rest, and leaves
  less work; it does so inside a longer list too.
\<close>

definition advances :: "'m gor list \<Rightarrow> 'm gor list \<Rightarrow> 'm list \<Rightarrow> 'm multiset \<Rightarrow> bool" where
  "advances gs gs' os' ds' \<longleftrightarrow> (\<forall>ms os ds w. remaining gs ms = Inr (os, ds, w) \<longrightarrow>
     (\<exists>os1 ds1 w1. remaining gs' ms = Inr (os1, ds1, w1) \<and> os = os' @ os1 \<and> ds = ds' + ds1 \<and> w1 < w))"

lemma advances_prefix:
  assumes "advances gs gs' os' ds'"
  shows "advances (xs @ gs) (xs @ gs') os' ds'"
proof (induction xs)
  case (Cons x xs)
  then show ?case unfolding advances_def
    by (fastforce simp: net_simps)
qed (use assms in simp)

lemma hand_over_advances:
  "on_msg t m = Inr (fs, t') \<Longrightarrow>
     advances (Send (Out m # es) s # Recv t # ys) (resume es s # resume fs t' # ys) [] {#}"
  unfolding advances_def by (fastforce simp: net_simps)

lemma drain_advances: "advances [Send (Out m # es) s] [resume es s] [m] {#}"
  unfolding advances_def by (fastforce simp: net_simps)

lemma drop_advances: "advances (Send (Drop m # es) s # ys) (resume es s # ys) [] {#m#}"
  unfolding advances_def by (fastforce simp: net_simps)

lemma close_next_advances: "advances (Done # Recv s # ys) (Done # Done # ys) [] {#}"
  unfolding advances_def by (fastforce simp: net_simps)

section \<open>Every step keeps the meaning\<close>

text \<open>
  The invariant of a run: what was delivered so far and what remains add up to the meaning of
  the pipeline; \<open>w\<close> is the work left.
\<close>

definition delivers :: "'m net \<Rightarrow> 'm list \<Rightarrow> 'm multiset \<Rightarrow> nat \<Rightarrow> bool" where
  "delivers n os ds w \<longleftrightarrow> crashed n = None \<and>
     (\<exists>os1 ds1. remaining (gors n) (inputs n) = Inr (os1, ds1, w)
        \<and> os = out_got n @ os1 \<and> ds = mset (drop_got n) + ds1)"

lemma advances_delivers:
  assumes "delivers n os ds w" "advances (gors n) gs' os' ds'"
    "mset ds'' = ds'" "n' = n\<lparr>gors := gs', out_got := out_got n @ os', drop_got := drop_got n @ ds''\<rparr>"
  shows "\<exists>w'<w. delivers n' os ds w'"
proof -
  from assms(1) obtain os1 ds1 where r: "crashed n = None"
    "remaining (gors n) (inputs n) = Inr (os1, ds1, w)"
    "os = out_got n @ os1" "ds = mset (drop_got n) + ds1" by (auto simp: delivers_def)
  with assms(2) obtain os2 ds2 w2 where
    "remaining gs' (inputs n) = Inr (os2, ds2, w2)" "os1 = os' @ os2" "ds1 = ds' + ds2" "w2 < w"
    unfolding advances_def by blast
  with r assms(3,4) show ?thesis by (auto simp: delivers_def)
qed

lemma hand_over_crash_remaining:
  "on_msg t m = Inl e \<Longrightarrow> remaining (xs @ Send (Out m # es) s # Recv t # ys) ms \<noteq> Inr (os, ds, w)"
  by (induction xs arbitrary: ms os ds w) (auto simp: net_simps)

lemma net_step_delivers:
  assumes "net_step n n'" "delivers n os ds w"
  shows "\<exists>w'<w. delivers n' os ds w'"
  using assms
proof (cases rule: net_step.cases)
  case (feed m ms s gs es s')
  then show ?thesis using assms(2) by (fastforce simp: delivers_def net_simps)
next
  case (feed_crash m ms s gs e)
  then show ?thesis using assms(2) by (auto simp: delivers_def net_simps)
next
  case (hand_over xs m es s t ys fs t')
  then show ?thesis
    using advances_delivers [OF assms(2), of "xs @ resume es s # resume fs t' # ys" "[]" "{#}" "[]" n']
      advances_prefix [OF hand_over_advances [of t m fs t' es s ys], of xs] by simp
next
  case (hand_over_crash xs m es s t ys e)
  then show ?thesis
    using hand_over_crash_remaining [of t m e xs es s ys "inputs n"] assms(2) by (auto simp: delivers_def)
next
  case (drain xs m es s)
  then show ?thesis
    using advances_delivers [OF assms(2), of "xs @ [resume es s]" "[m]" "{#}" "[]" n']
      advances_prefix [OF drain_advances [of m es s], of xs] by simp
next
  case (drop xs m es s ys)
  then show ?thesis
    using advances_delivers [OF assms(2), of "xs @ resume es s # ys" "[]" "{#m#}" "[m]" n']
      advances_prefix [OF drop_advances [of m es s ys], of xs] by simp
next
  case (close_first s gs)
  then show ?thesis using assms(2) by (fastforce simp: delivers_def net_simps)
next
  case (close_next xs s ys)
  then show ?thesis
    using advances_delivers [OF assms(2), of "xs @ Done # Done # ys" "[]" "{#}" "[]" n']
      advances_prefix [OF close_next_advances [of s ys], of xs] by simp
qed

lemma run_delivers:
  assumes "net_step\<^sup>*\<^sup>* n n'" "delivers n os ds w"
  shows "\<exists>w'\<le>w. delivers n' os ds w'"
  using assms
proof (induction rule: rtranclp_induct)
  case (step n1 n2)
  then obtain w1 where "w1 \<le> w" "delivers n1 os ds w1" by blast
  moreover from net_step_delivers [OF step(2) this(2)] obtain w2 where "w2 < w1" "delivers n2 os ds w2" by blast
  ultimately show ?case by (meson less_imp_le order_trans)
qed blast

lemma start_remaining:
  "pipeline_run ss ms = Inr (os, ds) \<Longrightarrow> \<exists>w. remaining (map Recv ss) ms = Inr (os, ds, w)"
proof (induction ss arbitrary: ms os ds)
  case (Cons s ss)
  then obtain evs s' ds' where "seg_run s ms = Inr (evs, s')" "pipeline_run ss (outs evs) = Inr (os, ds')"
    "ds = mset (drops evs) + ds'"
    by (auto split: sum.splits prod.splits)
  moreover from Cons.IH [OF this(2)] obtain w where "remaining (map Recv ss) (outs evs) = Inr (os, ds', w)" by blast
  ultimately show ?case by (auto simp: net_simps)
qed simp

lemma start_delivers:
  assumes "pipeline_run ss ms = Inr (os, ds)"
  shows "\<exists>w. delivers (start_net ss ms) os ds w"
proof -
  obtain w where "remaining (map Recv ss) ms = Inr (os, ds, w)" using start_remaining [OF assms] by blast
  then show ?thesis by (auto simp: delivers_def start_net_def)
qed

section \<open>No goroutine is ever stuck\<close>

definition sending :: "'m net \<Rightarrow> bool" where
  "sending n \<longleftrightarrow> (\<forall>s. Send [] s \<notin> set (gors n))"

lemma resume_nonempty [simp]: "Send [] t \<noteq> resume es s" "resume es s \<noteq> Send [] t"
  by (auto simp: resume_def)

lemma start_sending: "sending (start_net ss ms)"
  by (auto simp: sending_def start_net_def)

lemma net_step_sending: "net_step n n' \<Longrightarrow> sending n \<Longrightarrow> sending n'"
  by (induction rule: net_step.induct) (auto simp: sending_def)

lemma run_sending: "net_step\<^sup>*\<^sup>* n n' \<Longrightarrow> sending n \<Longrightarrow> sending n'"
  by (induction rule: rtranclp_induct) (auto intro: net_step_sending)

lemma net_step_length: "net_step n n' \<Longrightarrow> length (gors n') = length (gors n)"
  by (induction rule: net_step.induct) auto

lemma run_length: "net_step\<^sup>*\<^sup>* n n' \<Longrightarrow> length (gors n') = length (gors n)"
  by (induction rule: rtranclp_induct) (auto simp: net_step_length)

text \<open>From a blocked send some goroutine to its right, or the drain, can move.\<close>

lemma send_progress:
  assumes "crashed n = None" "gors n = xs @ Send (e # es) s # ys" "sending n"
    "remaining (Send (e # es) s # ys) ms = Inr r"
  shows "\<exists>n'. net_step n n'"
  using assms(2,4)
proof (induction ys arbitrary: xs e es s ms r)
  case Nil
  then show ?case using assms(1) by (cases e) (blast intro: net_step.intros)+
next
  case (Cons g ys)
  obtain os ds w where r: "r = (os, ds, w)" by (cases r)
  show ?case
  proof (cases e)
    case (Drop m)
    then show ?thesis using Cons.prems(1) assms(1) by (blast intro: net_step.intros)
  next
    case (Out m)
    from Cons.prems(2) Out r obtain fs os1 ds1 w1 where
      rem: "remaining (g # ys) (m # fs) = Inr (os1, ds1, w1)"
      by (auto simp: remaining_Cons_Inr [of "Send (Out m # es) s"] pending_Inr)
    show ?thesis
    proof (cases g)
      case (Recv t)
      show ?thesis
      proof (cases "on_msg t m")
        case (Inl a)
        then show ?thesis using net_step.hand_over_crash [OF assms(1), of xs m es s t ys a] Cons.prems(1) Out Recv by auto
      next
        case (Inr b)
        then show ?thesis
          using net_step.hand_over [OF assms(1), of xs m es s t ys "fst b" "snd b"] Cons.prems(1) Out Recv by auto
      qed
    next
      case (Send fs' t)
      have g: "gors n = (xs @ [Send (e # es) s]) @ Send fs' t # ys" using Cons.prems(1) Send by simp
      then obtain e' es' where "fs' = e' # es'" using assms(3) by (cases fs') (auto simp: sending_def)
      then show ?thesis using Cons.IH [of "xs @ [Send (e # es) s]" e' es' t] g rem Send by auto
    next
      case Done
      then show ?thesis using rem by (auto simp: net_simps)
    qed
  qed
qed

lemma remaining_suffix: "remaining (us @ zs) ms = Inr r \<Longrightarrow> \<exists>ms' r'. remaining zs ms' = Inr r'"
  by (induction us arbitrary: ms r) (auto simp: net_simps)

lemma net_progress:
  assumes "delivers n os ds w" "sending n" "\<not> finished n"
  shows "\<exists>n'. net_step n n'"
proof -
  have c: "crashed n = None" using assms(1) by (simp add: delivers_def)
  with assms(3) have "\<exists>g\<in>set (gors n). g \<noteq> Done" by (auto simp: finished_def)
  from split_list_first_prop [OF this] obtain xs g ys
    where g: "gors n = xs @ g # ys" "g \<noteq> Done" "\<forall>x\<in>set xs. x = Done" by auto
  obtain q where "remaining (xs @ g # ys) (inputs n) = Inr q"
    using assms(1) g(1) by (auto simp: delivers_def)
  from remaining_suffix [OF this] obtain ms r where r: "remaining (g # ys) ms = Inr r" by blast
  show ?thesis
  proof (cases g)
    case (Recv s)
    show ?thesis
    proof (cases xs rule: rev_cases)
      case Nil
      then show ?thesis
        using c g(1) Recv by (cases "inputs n"; cases "on_msg s (hd (inputs n))")
          (auto intro: net_step.intros)
    next
      case (snoc zs z)
      then show ?thesis using c g Recv net_step.close_next [of n zs s ys] by auto
    qed
  next
    case (Send es s)
    then obtain e es' where "es = e # es'" using assms(2) g(1) by (cases es) (auto simp: sending_def)
    then show ?thesis using send_progress [OF c, of xs e es' s ys ms r] g(1) assms(2) r Send by simp
  qed (use g(2) in simp)
qed

lemma finished_delivers:
  assumes "finished n" "delivers n os ds w" "gors n \<noteq> []"
  shows "out_got n = os \<and> mset (drop_got n) = ds"
proof -
  have "remaining gs [] = Inr (os1, ds1, w1) \<Longrightarrow> os1 = [] \<and> ds1 = {#}"
    if "\<forall>g\<in>set gs. g = Done" for gs :: "'a gor list" and os1 ds1 w1
    using that by (induction gs arbitrary: os1 ds1 w1) (auto simp: net_simps)
  moreover have "inputs n = []"
    using assms by (cases "gors n") (auto simp: finished_def delivers_def net_simps)
  ultimately show ?thesis using assms by (auto simp: finished_def delivers_def)
qed

lemma run_to_the_end:
  assumes "pipeline_run ss ms = Inr (os, ds)" "ss \<noteq> []"
    and "net_step\<^sup>*\<^sup>* (start_net ss ms) n" "\<nexists>n'. net_step n n'"
  shows "finished n" "out_got n = os" "mset (drop_got n) = ds"
proof -
  obtain w where "delivers (start_net ss ms) os ds w" using start_delivers [OF assms(1)] by blast
  then obtain w' where d: "delivers n os ds w'" using run_delivers [OF assms(3)] by blast
  have "sending n" using run_sending [OF assms(3) start_sending] .
  then show f: "finished n" using net_progress [OF d] assms(4) by blast
  have "gors n \<noteq> []" using run_length [OF assms(3)] assms(2) by (auto simp: start_net_def)
  then show "out_got n = os" "mset (drop_got n) = ds" using finished_delivers [OF f d] by blast+
qed

lemma run_ends: "delivers n os ds w \<Longrightarrow> \<exists>n'. net_step\<^sup>*\<^sup>* n n' \<and> (\<nexists>n''. net_step n' n'')"
proof (induction w arbitrary: n rule: less_induct)
  case (less w)
  show ?case
  proof (cases "\<exists>n1. net_step n n1")
    case True
    then obtain n1 where "net_step n n1" by blast
    moreover from net_step_delivers [OF this less.prems] obtain w1 where "w1 < w" "delivers n1 os ds w1" by blast
    ultimately show ?thesis using less.IH by (meson converse_rtranclp_into_rtranclp)
  qed blast
qed

section \<open>The pipeline theorems\<close>

text \<open>
  C1. Determinacy of the goroutine network. However the goroutines of a pipeline are scheduled,
  if its segments handle the input without failing then a run that cannot continue has shut
  down completely, and it delivered, in this order, the messages of the sequential composition
  of its segments, and exactly the drops of it.
\<close>

theorem network_delivers:
  assumes "pipeline_run ss ms = Inr (os, ds)" "ss \<noteq> []"
    and "net_step\<^sup>*\<^sup>* (start_net ss ms) n" "\<nexists>n'. net_step n n'"
  shows "finished n \<and> out_got n = os \<and> mset (drop_got n) = ds"
  using run_to_the_end [OF assms] by blast

theorem network_delivers_witness:
  "finished \<lparr>inputs = [], gors = [Done], out_got = [7::nat], drop_got = [], crashed = None\<rparr>"
proof -
  define p :: "nat seg" where "p = mk_seg (edit_step (\<lambda>_ m. m)) ()"
  have p: "on_msg p m = Inr ([Out m], p)" for m by (simp add: p_def edit_step_def)
  let ?n = "\<lambda>i g got. \<lparr>inputs = i, gors = [g], out_got = got, drop_got = [], crashed = None\<rparr> :: nat net"
  have "net_step (?n [7] (Recv p) []) (?n [] (Send [Out 7] p) [])"
    using net_step.feed [of "?n [7] (Recv p) []" 7 "[]" p "[]" "[Out 7]" p] p by (simp add: resume_def)
  also have "net_step\<^sup>*\<^sup>* \<dots> (?n [] (Recv p) [7])"
    using net_step.drain [of "?n [] (Send [Out 7] p) []" "[]" 7 "[]" p] by (simp add: resume_def r_into_rtranclp)
  also have "net_step (?n [] (Recv p) [7]) (?n [] Done [7])"
    using net_step.close_first [of "?n [] (Recv p) [7]" p "[]"] by simp
  finally have run: "net_step\<^sup>*\<^sup>* (start_net [p] [7]) (?n [] Done [7])"
    by (simp add: start_net_def r_into_rtranclp)
  have "pipeline_run [p] [7] = Inr ([7], {#})" by (simp add: p seg_run.simps(2))
  moreover have "\<nexists>n'. net_step (?n [] Done [7]) n'"
    by (auto elim!: net_step_cases simp: Cons_eq_append_conv)
  ultimately show ?thesis using network_delivers [of "[p]" "[7]" "[7]" "{#}"] run by blast
qed

text \<open>
  C2. A pipeline whose segments handle the input without failing never crashes, never deadlocks
  before all its goroutines are done, and every run of it is finite.
\<close>

theorem network_live:
  assumes "pipeline_run ss ms = Inr (os, ds)"
  shows "(\<forall>n. net_step\<^sup>*\<^sup>* (start_net ss ms) n \<longrightarrow>
            crashed n = None \<and> (finished n \<or> (\<exists>n'. net_step n n')))
       \<and> \<not> (\<exists>f. f 0 = start_net ss ms \<and> (\<forall>i. net_step (f i) (f (Suc i))))"
proof (intro conjI allI impI notI)
  obtain w where d: "delivers (start_net ss ms) os ds w" using start_delivers [OF assms] by blast
  { fix n assume r: "net_step\<^sup>*\<^sup>* (start_net ss ms) n"
    then obtain w' where d': "delivers n os ds w'" using run_delivers [OF r d] by blast
    then show "crashed n = None" by (simp add: delivers_def)
    have "sending n" using run_sending [OF r start_sending] .
    then show "finished n \<or> (\<exists>n'. net_step n n')" using net_progress [OF d'] by blast }
  assume "\<exists>f. f 0 = start_net ss ms \<and> (\<forall>i. net_step (f i) (f (Suc i)))"
  then obtain f where f: "f 0 = start_net ss ms" "\<And>i. net_step (f i) (f (Suc i))" by blast
  have "\<exists>v. delivers (f i) os ds v \<and> v + i \<le> w" for i
  proof (induction i)
    case 0 then show ?case using d f(1) by auto
  next
    case (Suc i)
    then obtain v where v: "delivers (f i) os ds v" "v + i \<le> w" by blast
    from net_step_delivers [OF f(2) v(1)] obtain v' where "v' < v" "delivers (f (Suc i)) os ds v'" by blast
    then show ?case using v(2) by auto
  qed
  from this [of "Suc w"] show False by auto
qed

theorem network_live_witness:
  "\<nexists>f. f 0 = start_net [mk_seg (edit_step (\<lambda>_ m. m + 1)) (), mk_seg (edit_step (\<lambda>_ m. m)) ()] [1, 2 :: nat]
     \<and> (\<forall>i. net_step (f i) (f (Suc i)))"
proof -
  have "pipeline_run [mk_seg (edit_step (\<lambda>_ m. m + 1)) (), mk_seg (edit_step (\<lambda>_ m. m)) ()] [1, 2 :: nat]
    = Inr ([2, 3], {#})"
    by (simp add: seg_run_mk_seg edit_step_def)
  then show ?thesis using network_live by blast
qed

end
