(* ===== verification/Pipeline.thy ===== *)
theory Pipeline
  imports Segments
begin

text \<open>
  Pipeline objects (\<open>pipeline/pipeline.go\<close>), the segment objects they wire together
  (\<open>segments/segments.go\<close>, \<open>segments/filter_segment.go\<close>, \<open>segments/parallelized_segment.go\<close>) and
  the branch segment as the owner of three pipelines. A channel is a number and the next free
  number is threaded through the code that calls \<open>make\<close>. The settings a segment type keeps
  are a type parameter here.
\<close>

section \<open>Segment and pipeline objects\<close>

type_synonym chan = nat

record BaseSegment =
  In :: "chan option"
  Out_chan :: "chan option"
  Drops_chan :: "chan option"

definition unwired :: BaseSegment where
  "unwired = \<lparr>In = None, Out_chan = None, Drops_chan = None\<rparr>"

text \<open>
  \<open>Plain\<close>: a segment that embeds \<open>BaseSegment\<close> (flag false) or \<open>BaseFilterSegment\<close> (flag
  true). \<open>Branch\<close>: the branch segment; its condition, then and else pipelines are set by
  \<open>AddCustomConfig\<close>, and a pipeline that could not be built is the nil pointer. \<open>Parallel\<close>: the
  wrapper for several jobs.
\<close>

datatype 'i segment =
    Plain 'i bool BaseSegment
  | Branch bool "'i pipeline option" "'i pipeline option" "'i pipeline option" BaseSegment
  | Parallel "'i segment list"
and 'i pipeline =
    Pipeline (P_In: chan) (P_Out: chan) (P_Drop: "chan option") (SegmentList: "'i segment list")

definition wire :: "chan \<Rightarrow> chan \<Rightarrow> BaseSegment \<Rightarrow> BaseSegment" where
  "wire i out b = b\<lparr>In := Some i, Out_chan := Some out\<rparr>"

fun Rewire :: "chan \<Rightarrow> chan \<Rightarrow> 'i segment \<Rightarrow> 'i segment" where
  "Rewire i out (Plain s f b) = Plain s f (wire i out b)"
| "Rewire i out (Branch bp c t e b) = Branch bp c t e (wire i out b)"
| "Rewire i out (Parallel ss) = Parallel (map (Rewire i out) ss)"

section \<open>Building a pipeline\<close>

text \<open>
  The loop of \<open>pipeline.New\<close> from a segment on: its input channel is given, its output channel is
  new. A nil segment ends the construction (the segments before it stay rewired).
\<close>

fun wire_all :: "chan \<Rightarrow> chan \<Rightarrow> 'i segment option list \<Rightarrow> ('i segment list \<times> chan) option \<times> chan" where
  "wire_all c n [] = (Some ([], c), n)"
| "wire_all c n (None # ss) = (None, n)"
| "wire_all c n (Some s # ss) =
     (case wire_all n (n + 1) ss of
        (None, n') \<Rightarrow> (None, n')
      | (Some (ss', out), n') \<Rightarrow> (Some (Rewire c n s # ss', out), n'))"

text \<open>
  \<open>pass\<close> is the settings of \<open>pass.Pass\<close>, the segment of an empty pipeline; \<open>n\<close> is the next
  channel number, returned updated.
\<close>

definition New :: "'i \<Rightarrow> chan \<Rightarrow> 'i segment option list \<Rightarrow> 'i pipeline option \<times> chan" where
  "New pass n ss =
     (let ss = (if ss = [] then [Some (Plain pass False unwired)] else ss) in
      case wire_all n (n + 1) ss of
        (None, n') \<Rightarrow> (None, n')
      | (Some (ss', out), n') \<Rightarrow> (Some (Pipeline n out None ss'), n'))"

section \<open>Dropped messages\<close>

text \<open>
  The type assertion \<open>segment.(segments.FilterSegment)\<close>: the method \<open>SubscribeDrops\<close> of
  \<open>ParallelizedSegment\<close> takes a \<open>chan\<close> where the interface has a \<open>chan<-\<close>, so a pointer to one
  does not implement the interface.
\<close>

fun implementsFilter :: "'i segment \<Rightarrow> bool" where
  "implementsFilter (Plain s f b) = f"
| "implementsFilter (Branch bp c t e b) = True"
| "implementsFilter (Parallel ss) = False"

fun SubscribeDrops :: "chan \<Rightarrow> 'i segment \<Rightarrow> 'i segment" where
  "SubscribeDrops d (Plain s f b) = Plain s f (b\<lparr>Drops_chan := Some d\<rparr>)"
| "SubscribeDrops d (Branch bp c t e b) = Branch bp c t e (b\<lparr>Drops_chan := Some d\<rparr>)"
| "SubscribeDrops d (Parallel ss) =
     Parallel (map (\<lambda>s. if implementsFilter s then SubscribeDrops d s else s) ss)"

definition GetDrop :: "chan \<Rightarrow> 'i pipeline \<Rightarrow> chan \<times> 'i pipeline" where
  "GetDrop n p =
     (case P_Drop p of
        Some d \<Rightarrow> (d, p)
      | None \<Rightarrow>
          (n, Pipeline (P_In p) (P_Out p) (Some n)
                (map (\<lambda>s. if implementsFilter s then SubscribeDrops n s else s) (SegmentList p))))"

section \<open>Closing\<close>

text \<open>\<open>close(c)\<close> on the set of closed channels: closing twice panics.\<close>

definition close_chan :: "chan set \<Rightarrow> chan option \<Rightarrow> chan set outcome" where
  "close_chan closed c =
     (case c of
        None \<Rightarrow> Inl (Panic ''close of nil channel'')
      | Some x \<Rightarrow> if x \<in> closed then Inl (Panic ''close of closed channel'') else Inr (insert x closed))"

fun close_all :: "chan set \<Rightarrow> chan option list \<Rightarrow> chan set outcome" where
  "close_all closed [] = Inr closed"
| "close_all closed (c # cs) = (case close_chan closed c of Inl p \<Rightarrow> Inl p | Inr closed' \<Rightarrow> close_all closed' cs)"

text \<open>
  What the deferred calls of a \<open>Run\<close> close when its input has been closed: its output; for a
  branch with a subscriber also the drop channel; for a wrapper, whose \<open>Run\<close> starts the
  \<open>Run\<close> of every nested segment, what they close, in some order (here in the order of the list).
\<close>

fun closes :: "'i segment \<Rightarrow> chan option list" where
  "closes (Plain s f b) = [Out_chan b]"
| "closes (Branch bp c t e b) = Out_chan b # (if Drops_chan b = None then [] else [Drops_chan b])"
| "closes (Parallel ss) = concat (map closes ss)"

section \<open>Wiring\<close>

text \<open>The segment objects whose goroutines read \<open>In\<close> and write \<open>Out\<close>: a wrapper's are its jobs.\<close>

fun bases :: "'i segment \<Rightarrow> BaseSegment list" where
  "bases (Plain s f b) = [b]"
| "bases (Branch bp c t e b) = [b]"
| "bases (Parallel ss) = concat (map bases ss)"

lemma bases_Rewire: "bases (Rewire i out s) = map (wire i out) (bases s)"
  by (induction i out s rule: Rewire.induct) (auto simp: map_concat comp_def intro!: arg_cong [of _ _ concat])

lemma wire_all_None: "fst (wire_all c n ss) = None \<longleftrightarrow> None \<in> set ss"
  by (induction c n ss rule: wire_all.induct) (auto split: option.splits prod.splits)

lemma wire_all_Some:
  "wire_all c n ss = (Some (ss', out), n') \<Longrightarrow>
     length ss' = length ss \<and> n' = n + length ss \<and>
     (\<forall>i<length ss. \<forall>b\<in>set (bases (ss' ! i)). In b = Some (if i = 0 then c else n + i - 1) \<and> Out_chan b = Some (n + i))
     \<and> out = (if ss = [] then c else n + length ss - 1)"
proof (induction c n ss arbitrary: ss' rule: wire_all.induct)
  case (3 c n s ss)
  from 3(2) obtain ts where t: "wire_all n (n + 1) ss = (Some (ts, out), n')" "ss' = Rewire c n s # ts"
    by (auto split: option.splits prod.splits)
  note IH = 3(1) [OF t(1)]
  show ?case
  proof (intro conjI allI impI ballI)
    fix i b assume i: "i < length (Some s # ss)" and b: "b \<in> set (bases (ss' ! i))"
    show "In b = Some (if i = 0 then c else n + i - 1)" "Out_chan b = Some (n + i)"
      using IH i b t(2) by (cases i; auto simp: bases_Rewire wire_def)+
  qed (use IH t in auto)
qed simp_all

text \<open>
  C16. \<open>New\<close> refuses a list with a nil segment and wires any other: with one fresh channel more
  than there are segments, numbered in order, every segment (every job of a parallel one) reads
  the channel its predecessor writes, the pipeline's input is the first and its output the last.
\<close>

theorem New_wires:
  assumes "ss \<noteq> []" "New pass n ss = (po, n')"
  shows "(po = None \<longleftrightarrow> None \<in> set ss) \<and>
    (\<forall>p. po = Some p \<longrightarrow>
       P_In p = n \<and> P_Out p = n + length ss \<and> n' = n + length ss + 1 \<and> P_Drop p = None
       \<and> length (SegmentList p) = length ss \<and>
       (\<forall>i<length ss. \<forall>b\<in>set (bases (SegmentList p ! i)). In b = Some (n + i) \<and> Out_chan b = Some (n + i + 1)))"
proof (intro conjI allI impI)
  show "(po = None) = (None \<in> set ss)"
    using assms wire_all_None [of n "n + 1" ss] by (auto simp: New_def split: option.splits prod.splits)
next
  fix p assume p: "po = Some p"
  then obtain ss' out where w: "wire_all n (n + 1) ss = (Some (ss', out), n')" "p = Pipeline n out None ss'"
    using assms by (auto simp: New_def split: option.splits prod.splits)
  note W = wire_all_Some [OF w(1)]
  show "P_In p = n" "P_Drop p = None" using w by simp_all
  show "P_Out p = n + length ss" "length (SegmentList p) = length ss" "n' = n + length ss + 1"
    using w W assms(1) by simp_all
  show "\<forall>b\<in>set (bases (SegmentList p ! i)). In b = Some (n + i) \<and> Out_chan b = Some (n + i + 1)"
    if "i < length ss" for i
    using w W that by auto
qed

theorem New_wires_witness:
  "P_Out (the (fst (New () 3 [Some (Plain () True unwired), Some (Plain () False unwired)]))) = 5"
  using New_wires [of "[Some (Plain () True unwired), Some (Plain () False unwired)]" "()" 3]
  by (simp add: New_def)

text \<open>
  An empty list gives a pipeline of a single \<open>pass\<close> segment between two channels.
\<close>

theorem New_empty:
  "New pass n [] =
     (Some (Pipeline n (n + 1) None [Plain pass False \<lparr>In = Some n, Out_chan = Some (n + 1), Drops_chan = None\<rparr>]), n + 2)"
  by (simp add: New_def unwired_def wire_def)

lemma GetDrop_known: "P_Drop p = Some d \<Longrightarrow> GetDrop n p = (d, p)"
  by (simp add: GetDrop_def)

text \<open>The direct segments of a pipeline, jobs of a wrapper left out.\<close>

fun direct_base :: "'i segment \<Rightarrow> BaseSegment option" where
  "direct_base (Plain s f b) = Some b"
| "direct_base (Branch bp c t e b) = Some b"
| "direct_base (Parallel ss) = None"

text \<open>
  \<open>GetDrop\<close> subscribes every filter of the pipeline to one channel, leaves the wiring of all
  segments as it was, and asking again gives the same channel and changes nothing.
\<close>

theorem GetDrop_subscribes:
  assumes "P_Drop p = None" "GetDrop n p = (d, p')"
  shows "d = n \<and> P_Drop p' = Some n \<and> length (SegmentList p') = length (SegmentList p)
    \<and> GetDrop n2 p' = (d, p')
    \<and> (\<forall>i<length (SegmentList p). \<forall>b. direct_base (SegmentList p ! i) = Some b \<longrightarrow>
         direct_base (SegmentList p' ! i) =
           Some (if implementsFilter (SegmentList p ! i) then b\<lparr>Drops_chan := Some d\<rparr> else b))"
proof -
  have e: "d = n" "p' = Pipeline (P_In p) (P_Out p) (Some n)
      (map (\<lambda>s. if implementsFilter s then SubscribeDrops n s else s) (SegmentList p))"
    using assms by (auto simp: GetDrop_def)
  have "direct_base (if implementsFilter s then SubscribeDrops n s else s) =
      Some (if implementsFilter s then b\<lparr>Drops_chan := Some n\<rparr> else b)" if "direct_base s = Some b" for s :: "'a segment" and b
    using that by (cases s) auto
  then show ?thesis using e by (auto simp: GetDrop_def)
qed

theorem GetDrop_subscribes_witness:
  "GetDrop 9 (Pipeline 0 1 (Some 5) [Plain () True \<lparr>In = Some 0, Out_chan = Some 1, Drops_chan = Some 5\<rparr>]) =
     (5, Pipeline 0 1 (Some 5) [Plain () True \<lparr>In = Some 0, Out_chan = Some 1, Drops_chan = Some 5\<rparr>])"
  using GetDrop_subscribes [of "Pipeline 0 1 None [Plain () True \<lparr>In = Some 0, Out_chan = Some 1, Drops_chan = None\<rparr>]"
      5 5 _ 9] by (simp add: GetDrop_def)

text \<open>
  The drops of a filter that runs in several jobs are lost: \<open>GetDrop\<close> subscribes to none of
  the jobs of a wrapper, whatever they are.
\<close>

theorem GetDrop_misses_parallel:
  "GetDrop n (Pipeline i out None [Parallel ss]) = (n, Pipeline i out (Some n) [Parallel ss])"
  by (simp add: GetDrop_def)

lemma close_all_distinct: "close_all closed cs = Inr closed' \<Longrightarrow> distinct cs \<and> Some ` closed \<inter> set cs = {}"
proof (induction cs arbitrary: closed)
  case (Cons c cs)
  then obtain x where c: "c = Some x" "x \<notin> closed" "close_all (insert x closed) cs = Inr closed'"
    by (auto simp: close_chan_def split: option.splits sum.splits if_splits)
  then show ?case using Cons.IH [of "insert x closed"] by auto
qed simp

lemma close_all_panics: "close_all closed cs = Inl p \<Longrightarrow> \<exists>msg. p = Panic msg"
  by (induction closed cs rule: close_all.induct) (auto simp: close_chan_def split: option.splits if_splits)

lemma closes_Rewire: "bases s \<noteq> [] \<Longrightarrow> Some out \<in> set (closes (Rewire i out s))"
  by (induction i out s rule: Rewire.induct) (auto simp: wire_def)

text \<open>
  A segment configured with two or more jobs cannot shut down: every job closes the shared
  output channel, so one of the closes panics, in whatever order the jobs end.
\<close>

theorem parallel_double_close:
  assumes "bases s1 \<noteq> []" "bases s2 \<noteq> []"
    and "mset cs = mset (closes (Rewire i out (Parallel (s1 # s2 # ss))))"
  shows "\<exists>msg. close_all closed cs = Inl (Panic msg)"
proof -
  have "\<not> distinct (closes (Rewire i out (Parallel (s1 # s2 # ss))))"
    using closes_Rewire [OF assms(1), of out i] closes_Rewire [OF assms(2), of out i] by auto
  then have "\<not> distinct cs" using assms(3) mset_eq_imp_distinct_iff by blast
  then show ?thesis
    using close_all_distinct close_all_panics by (cases "close_all closed cs") blast+
qed

theorem parallel_double_close_witness:
  "\<exists>msg. close_all {} [Some 1, Some 1] = Inl (Panic msg)"
  using parallel_double_close [of "Plain () False unwired" "Plain () False unwired" "[Some 1, Some 1]" 0 1 "[]" "{}"]
  by (simp add: wire_def)

end
