(* ===== verification/Config.thy ===== *)
theory Config
  imports Pipeline
begin

text \<open>
  From configuration to segments (\<open>pipeline/config\<close>, \<open>pipeline/pipeline_initialization.go\<close> and the
  construction part of \<open>segments/controlflow/branch/branch.go\<close>): the representation of a segment,
  the expansion of \<open>$\<close> variables, and the recursive construction of segment objects. The
  registry maps names to templates; what a template's \<open>New\<close> does with its configuration is the
  subject of the segment theories and a parameter here. YAML parsing is not modelled.
\<close>

section \<open>Representation\<close>

text \<open>
  \<open>SegmentRepr\<close> with its embedded \<open>BranchOptions\<close>; the configuration map is the list of its
  entries in the order the range loop visits them.
\<close>

datatype SegmentRepr = SegmentRepr (repr_Name: string) (repr_Config: "(string \<times> string) list") (repr_Jobs: int)
  (repr_If: "SegmentRepr list") (repr_Then: "SegmentRepr list") (repr_Else: "SegmentRepr list")

section \<open>Variable expansion\<close>

text \<open>\<open>os.Expand\<close> and its \<open>getShellName\<close> (name, width), on byte strings.\<close>

definition isShellSpecialVar :: "char \<Rightarrow> bool" where
  "isShellSpecialVar c = (c \<in> set ''*#$@!?-0123456789'')"

definition isAlphaNum :: "char \<Rightarrow> bool" where
  "isAlphaNum c = (let n = (of_char c :: nat) in
     n = 95 \<or> 48 \<le> n \<and> n \<le> 57 \<or> 97 \<le> n \<and> n \<le> 122 \<or> 65 \<le> n \<and> n \<le> 90)"

definition getShellName :: "string \<Rightarrow> string \<times> nat" where
  "getShellName s =
     (if hd s = CHR ''{'' then
        if 2 < length s \<and> isShellSpecialVar (s ! 1) \<and> s ! 2 = CHR ''}'' then ([s ! 1], 3)
        else
          let body = takeWhile (\<lambda>c. c \<noteq> CHR ''}'') (tl s) in
          if length body < length (tl s) then
            (if body = [] then ('''', 2) else (body, length body + 2))
          else ('''', 1)
      else if isShellSpecialVar (hd s) then ([hd s], 1)
      else let name = takeWhile isAlphaNum s in (name, length name))"

lemma getShellName_width: "snd (getShellName s) \<le> Suc (Suc (Suc (length s)))"
  using length_takeWhile_le [of isAlphaNum s] length_takeWhile_le [of "\<lambda>c. c \<noteq> CHR ''}''" "tl s"]
  by (auto simp: getShellName_def Let_def)

text \<open>The mapping may panic, so the result is an outcome.\<close>

function expand :: "(string \<Rightarrow> string outcome) \<Rightarrow> string \<Rightarrow> string outcome" where
  "expand mapping [] = Inr []"
| "expand mapping (c # s) =
     (if c = CHR ''$'' \<and> s \<noteq> [] then
        (let (name, w) = getShellName s in
         if name = [] then
           (if 0 < w then expand mapping (drop w s)
            else map_sum id (Cons c) (expand mapping s))
         else (case mapping name of
                 Inl p \<Rightarrow> Inl p
               | Inr v \<Rightarrow> map_sum id ((@) v) (expand mapping (drop w s))))
      else map_sum id (Cons c) (expand mapping s))"
  by pat_completeness auto
termination
  by (relation "measure (length \<circ> snd)") auto

text \<open>The closure \<open>argvMapper\<close>: a number selects a command line argument; a negative one panics.\<close>

definition argvMapper :: "string list \<Rightarrow> string \<Rightarrow> string outcome" where
  "argvMapper args placeholderName =
     (case atoi placeholderName of
        None \<Rightarrow> Inr ''''
      | Some argnum \<Rightarrow>
          if argnum < int (length args) then
            (if argnum < 0 then Inl (Panic ''index out of range'') else Inr (args ! nat argnum))
          else Inr '''')"

text \<open>One value; \<open>env\<close> is \<open>os.Getenv\<close>.\<close>

definition expand_value :: "(string \<Rightarrow> string) \<Rightarrow> string list \<Rightarrow> string \<Rightarrow> string outcome" where
  "expand_value env args v =
     (case expand (argvMapper args) v of
        Inl p \<Rightarrow> Inl p
      | Inr e \<Rightarrow> if e = '''' \<and> v \<noteq> '''' then expand (\<lambda>k. Inr (env k)) v else Inr e)"

fun ExpandedConfig :: "(string \<Rightarrow> string) \<Rightarrow> string list \<Rightarrow> (string \<times> string) list \<Rightarrow> config_map outcome" where
  "ExpandedConfig env args [] = Inr Map.empty"
| "ExpandedConfig env args ((k, v) # kvs) =
     (case expand_value env args v of
        Inl p \<Rightarrow> Inl p
      | Inr e \<Rightarrow> map_sum id (\<lambda>m. m(k \<mapsto> e)) (ExpandedConfig env args kvs))"

section \<open>Building segments\<close>

text \<open>
  What the registry holds: for most names a template with its group (filter or not) and its
  \<open>New\<close> (\<open>None\<close> is the nil segment), for \<open>branch\<close> the branch template.
\<close>

datatype 'i template = Template bool "config_map \<Rightarrow> 'i option outcome" | BranchTemplate

text \<open>\<open>Branch.New\<close>: the value of \<open>bypassMessages\<close>.\<close>

definition Branch_New :: "config_map \<Rightarrow> bool outcome" where
  "Branch_New config =
     (if cfg config ''bypass-messages'' \<noteq> '''' then
        (case parse_bool (cfg config ''bypass-messages'') of
           None \<Rightarrow> Inl (Fatal ''Branch: Failed to parse bypass-messages config option'')
         | Some b \<Rightarrow> Inr b)
      else Inr False)"

text \<open>
  The environment of the construction: registry, \<open>os.Getenv\<close>, \<open>flag.Args()\<close> and the settings of
  the \<open>pass\<close> segment.
\<close>

record 'i build_env =
  be_registry :: "'i template registry"
  be_getenv :: "string \<Rightarrow> string"
  be_args :: "string list"
  be_pass :: 'i

text \<open>\<open>for range jobs\<close> with the segment constructor as argument.\<close>

fun repeat_jobs :: "nat \<Rightarrow> (chan \<Rightarrow> ('s option \<times> chan) outcome) \<Rightarrow> string \<Rightarrow> chan \<Rightarrow> ('s list \<times> chan) outcome" where
  "repeat_jobs 0 mk name n = Inr ([], n)"
| "repeat_jobs (Suc k) mk name n =
     (case mk n of
        Inl p \<Rightarrow> Inl p
      | Inr (None, _) \<Rightarrow> Inl (Fatal (''Configured segment '' @ name @ '' could not be initialized properly''))
      | Inr (Some s, n') \<Rightarrow> map_sum id (map_prod (Cons s) id) (repeat_jobs k mk name n'))"

lemma repeat_jobs_cong [fundef_cong]:
  "k = k' \<Longrightarrow> name = name' \<Longrightarrow> n = n' \<Longrightarrow> (\<And>m. mk m = mk' m) \<Longrightarrow> repeat_jobs k mk name n = repeat_jobs k' mk' name' n'"
  by (metis ext)

text \<open>
  \<open>SegmentsFromRepr\<close> and \<open>segmentFromTemplate\<close>; the latter includes the
  \<open>AddCustomConfig\<close> of the branch, which builds its three pipelines recursively. The next free
  channel is threaded through. Every use of a segment is a value of its own here; that some of them are one
  object (the three segment types whose \<open>New\<close> returns its receiver) is added in \<open>share_objects\<close>, once
  all pipelines are built.
\<close>

fun SegmentsFromRepr :: "'i build_env \<Rightarrow> SegmentRepr list \<Rightarrow> chan \<Rightarrow> ('i segment option list \<times> chan) outcome"
  and segmentFromTemplate :: "'i build_env \<Rightarrow> 'i template \<Rightarrow> SegmentRepr \<Rightarrow> chan \<Rightarrow> ('i segment option \<times> chan) outcome"
where
  "SegmentsFromRepr be [] n = Inr ([], n)"
| "SegmentsFromRepr be (r # rs) n =
     (case LookupSegment (be_registry be) (repr_Name r) of
        Inl p \<Rightarrow> Inl p
      | Inr tpl \<Rightarrow>
          (case (if repr_Jobs r \<le> 1 then segmentFromTemplate be tpl r n
                 else map_sum id (map_prod (\<lambda>ss. Some (Parallel ss)) id)
                   (repeat_jobs (nat (repr_Jobs r)) (\<lambda>m. segmentFromTemplate be tpl r m) (repr_Name r) n)) of
             Inl p \<Rightarrow> Inl p
           | Inr (s, n') \<Rightarrow> map_sum id (map_prod (Cons s) id) (SegmentsFromRepr be rs n')))"
| "segmentFromTemplate be (Template isf new) (SegmentRepr name kvs jobs ifs thens elses) n =
     (case ExpandedConfig (be_getenv be) (be_args be) kvs of
        Inl p \<Rightarrow> Inl p
      | Inr config \<Rightarrow>
          (case new config of
             Inl p \<Rightarrow> Inl p
           | Inr None \<Rightarrow> Inr (None, n)
           | Inr (Some i) \<Rightarrow> Inr (Some (Plain i isf unwired), n)))"
| "segmentFromTemplate be BranchTemplate (SegmentRepr name kvs jobs ifs thens elses) n =
     (case ExpandedConfig (be_getenv be) (be_args be) kvs of
        Inl p \<Rightarrow> Inl p
      | Inr config \<Rightarrow>
     (case Branch_New config of
        Inl p \<Rightarrow> Inl p
      | Inr bypass \<Rightarrow>
     (case SegmentsFromRepr be ifs n of
        Inl p \<Rightarrow> Inl p
      | Inr (iss, n1) \<Rightarrow>
          let (c, n2) = New (be_pass be) n1 iss in
     (case SegmentsFromRepr be thens n2 of
        Inl p \<Rightarrow> Inl p
      | Inr (tss, n3) \<Rightarrow>
          let (t, n4) = New (be_pass be) n3 tss in
     (case SegmentsFromRepr be elses n4 of
        Inl p \<Rightarrow> Inl p
      | Inr (ess, n5) \<Rightarrow>
          let (e, n6) = New (be_pass be) n5 ess in
          Inr (Some (Branch bypass c t e unwired), n6))))))"

text \<open>\<open>NewFromConfig\<close> after YAML parsing.\<close>

definition NewFromReprs :: "'i build_env \<Rightarrow> SegmentRepr list \<Rightarrow> chan \<Rightarrow> ('i pipeline option \<times> chan) outcome" where
  "NewFromReprs be rs n =
     (case SegmentsFromRepr be rs n of
        Inl p \<Rightarrow> Inl p
      | Inr (ss, n') \<Rightarrow> Inr (New (be_pass be) n' ss))"

section \<open>Properties of the expansion\<close>

declare expand.simps(2) [simp del]

lemma expand_plain [simp]: "CHR ''$'' \<notin> set v \<Longrightarrow> expand m v = Inr v"
  by (induction v) (auto simp: expand.simps(2))

lemma expand_prefix: "CHR ''$'' \<notin> set w \<Longrightarrow> expand m (w @ v) = map_sum id ((@) w) (expand m v)"
proof (induction w)
  case Nil then show ?case by (cases "expand m v") auto
next
  case (Cons c w)
  then show ?case by (cases "expand m v") (auto simp: expand.simps(2))
qed

lemma expand_var:
  assumes "getShellName (s @ t) = (name, length s)" "name \<noteq> []" "s \<noteq> []"
  shows "expand m (CHR ''$'' # s @ t) =
    (case m name of Inl p \<Rightarrow> Inl p | Inr v \<Rightarrow> map_sum id ((@) v) (expand m t))"
  using assms by (auto simp: expand.simps(2) split: sum.split)

lemma dec_isShellSpecialVar: "c \<in> set (dec k) \<Longrightarrow> isShellSpecialVar c \<and> c \<noteq> CHR ''}''"
proof -
  assume "c \<in> set (dec k)"
  then obtain d where "d < 10" "c = digit_char d" using dec_digits by blast
  moreover have "\<forall>d\<in>set [0..<10]. isShellSpecialVar (digit_char d) \<and> digit_char d \<noteq> CHR ''}''"
    by code_simp
  ultimately show ?thesis by simp
qed

lemma getShellName_braced_dec: "getShellName ((''{'' @ dec k @ ''}'') @ t) = (dec k, length (''{'' @ dec k @ ''}''))"
proof -
  obtain c ds where d: "dec k = c # ds" by (cases "dec k") auto
  then have c: "isShellSpecialVar c" "c \<noteq> CHR ''}''" using dec_isShellSpecialVar [of c k] by auto
  have "\<forall>x\<in>set ds. x \<noteq> CHR ''}''" using dec_isShellSpecialVar [of _ k] d by auto
  then have tw: "takeWhile (\<lambda>c. c \<noteq> CHR ''}'') (ds @ CHR ''}'' # t) = ds"
    by (subst takeWhile_append2) auto
  show ?thesis
  proof (cases ds)
    case Nil then show ?thesis using c d by (simp add: getShellName_def)
  next
    case (Cons x xs)
    then have "x \<noteq> CHR ''}''" using dec_isShellSpecialVar [of x k] d by simp
    then show ?thesis using c d Cons tw by (simp add: getShellName_def)
  qed
qed

lemma atoi_dec: "k < 2 ^ 63 \<Longrightarrow> atoi (dec k) = Some (int k)"
proof -
  assume k: "k < 2 ^ 63"
  obtain c ds where d: "dec k = c # ds" by (cases "dec k") auto
  have "digit_val (CHR ''-'') = None" "digit_val (CHR ''+'') = None" by (simp_all add: digit_val_def)
  then have "c \<noteq> CHR ''-''" "c \<noteq> CHR ''+''"
    using dec_digits [of c k] d digit_val_digit_char by (metis list.set_intros(1) option.distinct(1))+
  then show ?thesis using k d parse_digits_dec [of k] by (simp add: parse_int_def dec_def)
qed

lemma atoi_letter: "digit_val c = None \<Longrightarrow> c \<noteq> CHR ''-'' \<Longrightarrow> c \<noteq> CHR ''+'' \<Longrightarrow> atoi (c # s) = None"
  by (simp add: parse_int_def)

text \<open>
  A configuration value of the form \<open>${k}\<close> is replaced by the command line argument with that
  index, if there is one and it is not empty, whatever the environment holds.
\<close>

theorem expand_argument:
  assumes "k < length args" "args ! k \<noteq> []" "length args \<le> 2 ^ 63"
  shows "expand_value env args (''${'' @ dec k @ ''}'') = Inr (args ! k)"
proof -
  have "expand (argvMapper args) (CHR ''$'' # (''{'' @ dec k @ ''}'') @ []) = Inr (args ! k)"
    using assms by (subst expand_var [OF getShellName_braced_dec]) (simp_all add: argvMapper_def atoi_dec)
  then show ?thesis using assms(2) by (simp add: expand_value_def)
qed

theorem expand_argument_witness:
  "expand_value (\<lambda>_. []) [''a'', ''b'', ''eth0''] (''${'' @ dec 2 @ ''}'') = Inr ''eth0''"
  using expand_argument [of 2 "[''a'', ''b'', ''eth0'']" "\<lambda>_. []"] by simp

text \<open>A variable name that is not a number: a letter or underscore, then letters, digits, underscores.\<close>

definition is_env_name :: "string \<Rightarrow> bool" where
  "is_env_name name \<longleftrightarrow> name \<noteq> [] \<and> list_all isAlphaNum name \<and> digit_val (hd name) = None"

lemma env_name_getShellName:
  assumes "is_env_name name"
  shows "getShellName (name @ []) = (name, length name)" "argvMapper args name = Inr []"
proof -
  obtain c ns where n: "name = c # ns" using assms by (cases name) (auto simp: is_env_name_def)
  have a: "isAlphaNum c" "digit_val c = None" "takeWhile isAlphaNum name = name"
    using assms n by (auto simp: is_env_name_def list_all_iff)
  have "\<not> isShellSpecialVar c \<and> c \<noteq> CHR ''{'' \<and> c \<noteq> CHR ''-'' \<and> c \<noteq> CHR ''+''"
    using a(1,2) by (auto simp: isShellSpecialVar_def isAlphaNum_def digit_val_def)
  then show "getShellName (name @ []) = (name, length name)" "argvMapper args name = Inr []"
    using n a(2,3) atoi_letter [of c ns] by (auto simp: getShellName_def argvMapper_def)
qed

text \<open>
  A value that is just \<open>$NAME\<close> is replaced by the environment variable.
\<close>

theorem expand_environment:
  assumes "is_env_name name"
  shows "expand_value env args (CHR ''$'' # name) = Inr (env name)"
proof -
  have "expand m (CHR ''$'' # name @ []) = (case m name of Inl p \<Rightarrow> Inl p | Inr v \<Rightarrow> map_sum id ((@) v) (expand m []))" for m
    using assms env_name_getShellName(1) [OF assms] by (intro expand_var) (auto simp: is_env_name_def)
  then show ?thesis by (simp add: expand_value_def env_name_getShellName(2) [OF assms])
qed

theorem expand_environment_witness: "expand_value (\<lambda>k. ''/home/'' @ k) [] ''$HOME'' = Inr ''/home/HOME''"
proof -
  have "is_env_name ''HOME''" by code_simp
  then show ?thesis using expand_environment [of "''HOME''" "\<lambda>k. ''/home/'' @ k" "[]"] by simp
qed

text \<open>
  Environment variables are only expanded in values without other text: in a value with a
  non-empty prefix before \<open>$NAME\<close> the variable is replaced by nothing, whatever its value.
\<close>

theorem expand_environment_lost:
  assumes "is_env_name name" "w \<noteq> []" "CHR ''$'' \<notin> set w"
  shows "expand_value env args (w @ CHR ''$'' # name) = Inr w"
proof -
  have "expand (argvMapper args) (CHR ''$'' # name @ []) =
      (case argvMapper args name of Inl p \<Rightarrow> Inl p | Inr v \<Rightarrow> map_sum id ((@) v) (expand (argvMapper args) []))"
    using assms(1) env_name_getShellName [OF assms(1)] by (intro expand_var) (auto simp: is_env_name_def)
  then have "expand (argvMapper args) (CHR ''$'' # name) = Inr []"
    using env_name_getShellName [OF assms(1)] by simp
  then show ?thesis using assms by (simp add: expand_value_def expand_prefix)
qed

theorem expand_environment_lost_witness: "expand_value (\<lambda>k. ''example.org'') [] ''udp:$HOST'' = Inr ''udp:''"
proof -
  have "is_env_name ''HOST''" by code_simp
  then show ?thesis using expand_environment_lost [of "''HOST''" "''udp:''" "\<lambda>k. ''example.org''" "[]"] by simp
qed

text \<open>
  A negative index panics: the mapper tests the index only against the number of arguments.
\<close>

theorem expand_negative_panics: "expand_value env args ''${-1}'' = Inl (Panic ''index out of range'')"
proof -
  have "getShellName (''{-1}'' @ []) = (''-1'', length ''{-1}'')" by code_simp
  from expand_var [OF this] have "expand m ''${-1}'' = (case m ''-1'' of Inl p \<Rightarrow> Inl p | Inr v \<Rightarrow> map_sum id ((@) v) (expand m []))" for m
    by simp
  moreover have "atoi ''-1'' = Some (-1)" by (simp add: parse_int_def digit_val_def)
  ultimately show ?thesis by (simp add: expand_value_def argvMapper_def)
qed

section \<open>Properties of the construction\<close>

lemma wire_all_nth:
  "wire_all c n ss = (Some (ss', out), n') \<Longrightarrow> i < length ss \<Longrightarrow> \<exists>a b. ss' ! i = Rewire a b (the (ss ! i))"
proof (induction c n ss arbitrary: ss' i rule: wire_all.induct)
  case (3 c n s ss)
  then show ?case by (cases i) (auto split: option.splits prod.splits, blast)
qed simp_all

lemma distinct_concat_elem: "distinct (concat xss) \<Longrightarrow> xs \<in> set xss \<Longrightarrow> distinct xs"
  by (induction xss) auto

lemma segmentFromTemplate_base:
  "segmentFromTemplate be tpl r n = Inr (Some s, n') \<Longrightarrow> bases s = [unwired]"
  by (cases tpl; cases r) (auto split: sum.splits option.splits prod.splits)

lemma repeat_jobs_length:
  assumes "\<And>m s m'. mk m = Inr (Some s, m') \<Longrightarrow> P s"
  shows "repeat_jobs k mk name n = Inr (ss, n') \<Longrightarrow> length ss = k \<and> list_all P ss"
proof (induction k arbitrary: n ss)
  case (Suc k)
  then obtain s m ts where "mk n = Inr (Some s, m)" "repeat_jobs k mk name m = Inr (ts, n')" "ss = s # ts"
    by (auto simp: map_sum_def split: sum.splits option.splits)
  then show ?case using Suc.IH assms by auto
qed simp

text \<open>What \<open>SegmentsFromRepr\<close> makes of one entry.\<close>

definition built :: "'i build_env \<Rightarrow> SegmentRepr \<Rightarrow> 'i segment option \<Rightarrow> bool" where
  "built be r so \<longleftrightarrow> (\<exists>tpl. LookupSegment (be_registry be) (repr_Name r) = Inr tpl) \<and>
     (if repr_Jobs r \<le> 1 then so = None \<or> bases (the so) = [unwired]
      else \<exists>js. so = Some (Parallel js) \<and> int (length js) = repr_Jobs r \<and> (\<forall>j\<in>set js. bases j = [unwired]))"

lemma SegmentsFromRepr_Cons:
  assumes "SegmentsFromRepr be (r # rs) n = Inr (ss, n')"
  obtains s n1 ts where "ss = s # ts" "SegmentsFromRepr be rs n1 = Inr (ts, n')" "built be r s"
proof -
  let ?one = "\<lambda>tpl. if repr_Jobs r \<le> 1 then segmentFromTemplate be tpl r n
     else map_sum id (map_prod (\<lambda>ss. Some (Parallel ss)) id)
       (repeat_jobs (nat (repr_Jobs r)) (segmentFromTemplate be tpl r) (repr_Name r) n)"
  obtain tpl where tpl: "LookupSegment (be_registry be) (repr_Name r) = Inr tpl"
    using assms by (auto split: sum.splits)
  obtain s n1 where s: "?one tpl = Inr (s, n1)"
    using assms tpl by (auto split: sum.splits prod.splits if_splits)
  then obtain ts where ts: "SegmentsFromRepr be rs n1 = Inr (ts, n')" "ss = s # ts"
    using assms tpl by (auto simp: map_sum_def split: sum.splits prod.splits)
  have "built be r s"
  proof (cases "repr_Jobs r \<le> 1")
    case True
    then show ?thesis using tpl s segmentFromTemplate_base [of be tpl r n _ n1] by (cases s) (auto simp: built_def)
  next
    case False
    then obtain js where "repeat_jobs (nat (repr_Jobs r)) (segmentFromTemplate be tpl r) (repr_Name r) n = Inr (js, n1)"
      "s = Some (Parallel js)" using s by (auto simp: map_sum_def split: sum.splits)
    then show ?thesis
      using False tpl repeat_jobs_length [of "segmentFromTemplate be tpl r" "\<lambda>s. bases s = [unwired]"]
        segmentFromTemplate_base [of be tpl r] by (auto simp: built_def list_all_iff)
  qed
  then show thesis using ts that by blast
qed

lemma SegmentsFromRepr_built:
  "SegmentsFromRepr be rs n = Inr (ss, n') \<Longrightarrow> length ss = length rs \<and> (\<forall>i<length rs. built be (rs ! i) (ss ! i))"
proof (induction rs arbitrary: n ss)
  case (Cons r rs)
  from SegmentsFromRepr_Cons [OF Cons.prems] obtain s n1 ts where
    "ss = s # ts" "SegmentsFromRepr be rs n1 = Inr (ts, n')" "built be r s" .
  then show ?case using Cons.IH [of n1 ts] by (auto simp: nth_Cons split: nat.split)
qed simp

text \<open>
  Construction: a configuration that builds has a registered segment for each of its entries,
  in order; an entry with at most one job gives a single unwired segment (or nil), one with
  \<open>j > 1\<close> jobs a wrapper around exactly \<open>j\<close> unwired copies.
\<close>

theorem SegmentsFromRepr_builds:
  assumes "SegmentsFromRepr be rs n = Inr (ss, n')"
  shows "length ss = length rs \<and> (\<forall>i<length rs. built be (rs ! i) (ss ! i))"
  using assms by (rule SegmentsFromRepr_built)

text \<open>An environment with the segments \<open>pass\<close>, \<open>drop\<close> and \<open>branch\<close>, whose settings are their names.\<close>

definition demo_env :: "string build_env" where
  "demo_env = \<lparr>be_registry = [''pass'' \<mapsto> Template False (\<lambda>_. Inr (Some ''pass'')),
     ''drop'' \<mapsto> Template True (\<lambda>_. Inr (Some ''drop'')), ''branch'' \<mapsto> BranchTemplate],
     be_getenv = (\<lambda>_. []), be_args = [], be_pass = ''pass''\<rparr>"

lemma demo_lookup:
  "LookupSegment (be_registry demo_env) ''pass'' = Inr (Template False (\<lambda>_. Inr (Some ''pass'')))"
  "LookupSegment (be_registry demo_env) ''Drop'' = Inr (Template True (\<lambda>_. Inr (Some ''drop'')))"
proof -
  have "to_lower ''Drop'' = ''drop''" "to_lower ''pass'' = ''pass''" by code_simp+
  then show "LookupSegment (be_registry demo_env) ''pass'' = Inr (Template False (\<lambda>_. Inr (Some ''pass'')))"
    "LookupSegment (be_registry demo_env) ''Drop'' = Inr (Template True (\<lambda>_. Inr (Some ''drop'')))"
    by (simp_all add: LookupSegment_def demo_env_def)
qed

lemma demo_build:
  "SegmentsFromRepr demo_env [SegmentRepr ''pass'' [] 0 [] [] [], SegmentRepr ''Drop'' [] 2 [] [] []] n =
     Inr ([Some (Plain ''pass'' False unwired), Some (Parallel [Plain ''drop'' True unwired, Plain ''drop'' True unwired])], n)"
  by (simp add: demo_lookup numeral_2_eq_2)

theorem SegmentsFromRepr_builds_witness:
  "built demo_env (SegmentRepr ''Drop'' [] 2 [] [] []) (Some (Parallel [Plain ''drop'' True unwired, Plain ''drop'' True unwired]))"
  using SegmentsFromRepr_builds [OF demo_build [of 0]] by (metis One_nat_def length_Cons lessI nth_Cons_0 nth_Cons_Suc list.size(3))

text \<open>
  Building a pipeline of several jobs and shutting it down panics: if any entry of a
  configuration asks for more than one job, then closing the outputs of the segments of the
  built pipeline, in whatever order they end, closes a channel twice.
\<close>

theorem jobs_shutdown_panics:
  assumes "NewFromReprs be rs n = Inr (Some p, n')" "r \<in> set rs" "1 < repr_Jobs r"
    and "mset cs = mset (concat (map closes (SegmentList p)))"
  shows "\<exists>msg. close_all {} cs = Inl (Panic msg)"
proof -
  obtain ss n1 where ss: "SegmentsFromRepr be rs n = Inr (ss, n1)" "New (be_pass be) n1 ss = (Some p, n')"
    using assms(1) by (auto simp: NewFromReprs_def split: sum.splits prod.splits)
  obtain i where i: "i < length rs" "r = rs ! i" using assms(2) by (metis in_set_conv_nth)
  have b: "length ss = length rs" "built be r (ss ! i)" using SegmentsFromRepr_built [OF ss(1)] i by auto
  then obtain js where js: "ss ! i = Some (Parallel js)" "2 \<le> length js" "\<forall>j\<in>set js. bases j = [unwired]"
    using assms(3) by (auto simp: built_def)
  then obtain j1 j2 js' where "js = j1 # j2 # js'" by (auto simp: numeral_2_eq_2 Suc_le_length_iff)
  then have j: "ss ! i = Some (Parallel (j1 # j2 # js'))" "bases j1 \<noteq> []" "bases j2 \<noteq> []" using js by simp_all
  obtain ss' out where w: "wire_all n1 (n1 + 1) ss = (Some (ss', out), n')" "SegmentList p = ss'"
    using ss(2) b(1) i by (cases "ss = []") (auto simp: New_def split: option.splits prod.splits)
  obtain a c where "ss' ! i = Rewire a c (Parallel (j1 # j2 # js'))"
    using wire_all_nth [OF w(1), of i] b(1) i j(1) by auto
  then have "\<not> distinct (closes (ss' ! i))"
    using closes_Rewire [OF j(2), of c a] closes_Rewire [OF j(3), of c a] by auto
  moreover have "closes (ss' ! i) \<in> set (map closes ss')"
    using wire_all_Some [OF w(1)] b(1) i(1) by (auto intro!: imageI)
  ultimately have "\<not> distinct (concat (map closes (SegmentList p)))"
    using w(2) distinct_concat_elem by metis
  then have "\<not> distinct cs" using assms(4) mset_eq_imp_distinct_iff by blast
  then show ?thesis using close_all_distinct close_all_panics by (cases "close_all {} cs") blast+
qed

theorem jobs_shutdown_panics_witness:
  "\<exists>msg. close_all {} [Some 1, Some 2, Some 2] = Inl (Panic msg)"
proof -
  let ?p = "Pipeline 0 2 None [Plain ''pass'' False \<lparr>In = Some 0, Out_chan = Some 1, Drops_chan = None\<rparr>,
      Parallel [Plain ''drop'' True \<lparr>In = Some 1, Out_chan = Some 2, Drops_chan = None\<rparr>,
        Plain ''drop'' True \<lparr>In = Some 1, Out_chan = Some 2, Drops_chan = None\<rparr>]]"
  have "NewFromReprs demo_env [SegmentRepr ''pass'' [] 0 [] [] [], SegmentRepr ''Drop'' [] 2 [] [] []] 0 = Inr (Some ?p, 3)"
    unfolding NewFromReprs_def demo_build by (simp add: New_def unwired_def wire_def demo_env_def)
  from jobs_shutdown_panics [OF this, of "SegmentRepr ''Drop'' [] 2 [] [] []" "[Some 1, Some 2, Some 2]"]
  show ?thesis by (simp del: close_all.simps)
qed

end
