(* ===== verification/Branching.thy ===== *)
theory Branching
  imports Config Network
begin

text \<open>
  The goroutines of the branch segment (\<open>segments/controlflow/branch/branch.go\<close>). Its two
  forwarding loops select over channels; a run of such a loop is given by the list of receive
  operations the select statement performed, each with its source channel and the message, or
  \<open>None\<close> for the notice that the channel is closed. The theorems hold for every such list, that
  is, for every scheduling.
\<close>

section \<open>Starting\<close>

text \<open>
  A field of interface type \<open>Pipeline\<close>: \<open>None\<close> is the nil interface, \<open>Some None\<close> an interface
  that holds a nil \<open>*pipeline.Pipeline\<close>. \<open>AddCustomConfig\<close> assigns the result of
  \<open>pipeline.New\<close>, so the fields are never nil interfaces afterwards.
\<close>

type_synonym 'i pipeline_field = "'i pipeline option option"

definition AddCustomConfig_field :: "'i pipeline option \<Rightarrow> 'i pipeline_field" where
  "AddCustomConfig_field p = Some p"

text \<open>
  The first part of \<open>Branch.Run\<close>: the guard on uninitialised branches, then \<open>Start\<close> on each
  pipeline, which dereferences the pointer. The result says whether the loop is entered.
\<close>

definition Branch_start :: "'i pipeline_field \<Rightarrow> 'i pipeline_field \<Rightarrow> 'i pipeline_field \<Rightarrow> bool outcome" where
  "Branch_start c t e =
     (if c = None \<or> t = None \<or> e = None then Inr False
      else if c = Some None \<or> t = Some None \<or> e = Some None
        then Inl (Panic ''invalid memory address or nil pointer dereference'')
      else Inr True)"

section \<open>Forwarding the verdict of the condition\<close>

datatype cond_source = CondOut | CondDrop

datatype branch_send = ToThen | ToElse

text \<open>
  \<open>forwardBasedOnCondition\<close>: the two flags say whether the local channel variables are still set;
  a channel variable that is nil is never selected.
\<close>

fun forwardBasedOnCondition ::
  "bool \<Rightarrow> bool \<Rightarrow> (cond_source \<times> 'm option) list \<Rightarrow> (branch_send \<times> 'm) list" where
  "forwardBasedOnCondition co cd [] = []"
| "forwardBasedOnCondition co cd ((CondOut, Some m) # evs) =
     (if co then (ToThen, m) # forwardBasedOnCondition co cd evs else [])"
| "forwardBasedOnCondition co cd ((CondDrop, Some m) # evs) =
     (if cd then (ToElse, m) # forwardBasedOnCondition co cd evs else [])"
| "forwardBasedOnCondition co cd ((CondOut, None) # evs) =
     (if \<not> co \<or> \<not> cd then [] else forwardBasedOnCondition False cd evs)"
| "forwardBasedOnCondition co cd ((CondDrop, None) # evs) =
     (if \<not> cd \<or> \<not> co then [] else forwardBasedOnCondition co False evs)"

section \<open>Collecting the results\<close>

datatype drain_source = FromThen | FromElse | FromThenDrop | FromElseDrop

text \<open>One case of the select in \<open>drainOutput\<close>: what is sent for a received message.\<close>

definition drain_sends :: "bool \<Rightarrow> bool \<Rightarrow> drain_source \<Rightarrow> 'm \<Rightarrow> 'm event list" where
  "drain_sends bypass subscribed src m =
     (if src \<in> {FromThen, FromElse} then [Out m]
      else if bypass then [Out m]
      else send_drop subscribed m)"

text \<open>
  \<open>drainOutput\<close>: a close notice sets one channel variable to nil, and then the test after the
  select makes the loop return.
\<close>

fun drainOutput :: "bool \<Rightarrow> bool \<Rightarrow> (drain_source \<times> 'm option) list \<Rightarrow> 'm event list" where
  "drainOutput bypass subscribed [] = []"
| "drainOutput bypass subscribed ((src, Some m) # evs) =
     drain_sends bypass subscribed src m @ drainOutput bypass subscribed evs"
| "drainOutput bypass subscribed ((src, None) # evs) = []"

section \<open>What the loops do\<close>

text \<open>The messages received from a source.\<close>

definition from_source :: "'c \<Rightarrow> ('c \<times> 'm option) list \<Rightarrow> 'm list" where
  "from_source c evs = List.map_filter (\<lambda>(c', m). if c' = c then m else None) evs"

lemma from_source_simps [simp]:
  "from_source c [] = []"
  "from_source c ((c', Some m) # evs) = (if c' = c then m # from_source c evs else from_source c evs)"
  "from_source c ((c', None) # evs) = from_source c evs"
  by (simp_all add: from_source_def List.map_filter_def)

text \<open>
  A channel gives no message and no second close notice after it was closed.
\<close>

fun well_closed :: "'c set \<Rightarrow> ('c \<times> 'm option) list \<Rightarrow> bool" where
  "well_closed closed [] = True"
| "well_closed closed ((c, m) # evs) =
     (c \<notin> closed \<and> well_closed (if m = None then insert c closed else closed) evs)"

definition sent_to :: "branch_send \<Rightarrow> (branch_send \<times> 'm) list \<Rightarrow> 'm list" where
  "sent_to d sends = map snd (filter (\<lambda>(d', _). d' = d) sends)"

lemma sent_to_simps [simp]:
  "sent_to d [] = []" "sent_to d ((d', m) # s) = (if d' = d then m # sent_to d s else sent_to d s)"
  by (simp_all add: sent_to_def)

lemma forward_closed:
  assumes "well_closed closed evs" "CondOut \<in> closed" "CondDrop \<in> closed"
  shows "evs = []"
  using assms by (cases evs) (auto, metis cond_source.exhaust)

lemma forward_all:
  "well_closed closed evs \<Longrightarrow> co = (CondOut \<notin> closed) \<Longrightarrow> cd = (CondDrop \<notin> closed) \<Longrightarrow>
     sent_to ToThen (forwardBasedOnCondition co cd evs) = from_source CondOut evs
   \<and> sent_to ToElse (forwardBasedOnCondition co cd evs) = from_source CondDrop evs"
proof (induction co cd evs arbitrary: closed rule: forwardBasedOnCondition.induct)
  case (4 co cd evs)
  show ?case
  proof (cases "cd")
    case True then show ?thesis using 4(1) [of "insert CondOut closed"] 4(2-) by simp
  next
    case False
    then have "evs = []" using 4 forward_closed [of "insert CondOut closed" evs] by simp
    then show ?thesis using 4 by simp
  qed
next
  case (5 co cd evs)
  show ?case
  proof (cases "co")
    case True then show ?thesis using 5(1) [of "insert CondDrop closed"] 5(2-) by simp
  next
    case False
    then have "evs = []" using 5 forward_closed [of "insert CondDrop closed" evs] by simp
    then show ?thesis using 5 by simp
  qed
qed simp_all

text \<open>
  The verdict of the condition is respected: in every scheduling, the then pipeline receives
  exactly the messages that came out of the condition, the else pipeline exactly those the
  condition dropped, both in order, even after one of the two channels was closed.
\<close>

theorem branch_forwards:
  assumes "well_closed {} evs"
  shows "sent_to ToThen (forwardBasedOnCondition True True evs) = from_source CondOut evs
    \<and> sent_to ToElse (forwardBasedOnCondition True True evs) = from_source CondDrop evs"
  using forward_all [OF assms, of True True] by simp

theorem branch_forwards_witness:
  "sent_to ToElse (forwardBasedOnCondition True True [(CondOut, Some 1), (CondOut, None), (CondDrop, Some (2::nat))]) = [2]"
  using branch_forwards [of "[(CondOut, Some 1), (CondOut, None), (CondDrop, Some (2::nat))]"] by simp

lemma drain_all:
  assumes "\<forall>(c, m)\<in>set evs. m \<noteq> None"
  shows "mset (outs (drainOutput bypass subscribed evs)) =
      mset (from_source FromThen evs) + mset (from_source FromElse evs)
      + (if bypass then mset (from_source FromThenDrop evs) + mset (from_source FromElseDrop evs) else {#})
    \<and> mset (drops (drainOutput bypass subscribed evs)) =
      (if \<not> bypass \<and> subscribed then mset (from_source FromThenDrop evs) + mset (from_source FromElseDrop evs) else {#})
    \<and> subseq (from_source FromThen evs) (outs (drainOutput bypass subscribed evs))
    \<and> subseq (from_source FromElse evs) (outs (drainOutput bypass subscribed evs))"
  using assms
proof (induction bypass subscribed evs rule: drainOutput.induct)
  case (2 bypass subscribed src m evs)
  then show ?case by (cases src; cases bypass; cases subscribed) (auto simp: drain_sends_def send_drop_def)
qed auto

text \<open>
  While no sub-pipeline has closed a channel, the branch loses nothing: everything the then
  and else pipelines put out goes to the output; what they drop goes to the output too when
  \<open>bypass-messages\<close> is set, else to the drop channel if somebody subscribed, and only else is
  it discarded. Each output stays in order.
\<close>

theorem branch_collects:
  assumes "\<forall>(c, m)\<in>set evs. m \<noteq> None"
  shows "mset (outs (drainOutput bypass subscribed evs)) =
      mset (from_source FromThen evs) + mset (from_source FromElse evs)
      + (if bypass then mset (from_source FromThenDrop evs) + mset (from_source FromElseDrop evs) else {#})
    \<and> mset (drops (drainOutput bypass subscribed evs)) =
      (if \<not> bypass \<and> subscribed then mset (from_source FromThenDrop evs) + mset (from_source FromElseDrop evs) else {#})
    \<and> subseq (from_source FromThen evs) (outs (drainOutput bypass subscribed evs))
    \<and> subseq (from_source FromElse evs) (outs (drainOutput bypass subscribed evs))"
  using assms by (rule drain_all)

theorem branch_collects_witness:
  "mset (outs (drainOutput True False [(FromThen, Some 1), (FromElseDrop, Some (2::nat))])) = {#1, 2#}"
  using branch_collects [of "[(FromThen, Some 1), (FromElseDrop, Some (2::nat))]" True False] by simp

text \<open>
  Results are lost at shutdown: once any one of the four channels is closed the collecting
  loop returns, and nothing that the other sub-pipeline still sends reaches the output.
\<close>

theorem branch_drain_stops:
  "drainOutput bypass subscribed (evs @ (c, None) # evs') = drainOutput bypass subscribed evs"
  by (induction bypass subscribed evs rule: drainOutput.induct) auto

text \<open>
  The guard of \<open>Run\<close> against branches that could not be built is without effect: after
  \<open>AddCustomConfig\<close> the fields are never nil interfaces, so a sub-pipeline that
  \<open>pipeline.New\<close> refused makes \<open>Run\<close> panic where the guard would return.
\<close>

theorem branch_guard_ineffective:
  "Branch_start (AddCustomConfig_field c) (AddCustomConfig_field t) (AddCustomConfig_field e) =
     (if c = None \<or> t = None \<or> e = None
      then Inl (Panic ''invalid memory address or nil pointer dereference'') else Inr True)"
  by (simp add: Branch_start_def AddCustomConfig_field_def)

section \<open>A branch of filters\<close>

text \<open>A segment that loses nothing: every message it gets leaves it as output or as drop.\<close>

definition conserving :: "'m seg \<Rightarrow> bool" where
  "conserving s \<longleftrightarrow> (\<forall>ms es s'. seg_run s ms = Inr (es, s') \<longrightarrow> mset (outs es) + mset (drops es) = mset ms)"

lemma pipeline_conserves:
  "\<forall>s\<in>set ss. conserving s \<Longrightarrow> pipeline_run ss ms = Inr (os, ds) \<Longrightarrow> mset os + ds = mset ms"
proof (induction ss arbitrary: ms os ds)
  case (Cons s ss)
  then obtain es s' ds' where 1: "seg_run s ms = Inr (es, s')" "pipeline_run ss (outs es) = Inr (os, ds')"
    "ds = mset (drops es) + ds'" by (auto split: sum.splits prod.splits)
  then have "mset os + ds' = mset (outs es)" using Cons by simp
  moreover have "mset (outs es) + mset (drops es) = mset ms" using Cons.prems(1) 1(1) by (auto simp: conserving_def)
  moreover have "mset os + ds = (mset os + ds') + mset (drops es)" using 1(3) by simp
  ultimately show ?case by simp
qed simp

text \<open>The contract of a subscribed filter segment makes it conserving.\<close>

context filter_segment begin

lemma conserving_mk_seg: "inv s \<Longrightarrow> subscribed s \<Longrightarrow> conserving (mk_seg step s)"
  using run_conserves by (auto simp: conserving_def seg_run_mk_seg map_sum_def split: sum.splits)

end

text \<open>
  A branch whose condition and sub-pipelines consist of filters loses no message: if the
  condition, the then pipeline and the else pipeline were run to the end on what the forwarding
  loop handed them, and the collecting loop received all their results before a close notice,
  then every input message was sent to the output or (without \<open>bypass-messages\<close>) to the
  subscriber of the branch's drops, exactly once.
\<close>

theorem branch_conserves:
  assumes "\<forall>s\<in>set cs \<union> set ts \<union> set es. conserving s"
    and "pipeline_run cs ms = Inr (co, cd)"
    and "well_closed {} evs" "from_source CondOut evs = co" "mset (from_source CondDrop evs) = cd"
    and "pipeline_run ts (sent_to ToThen (forwardBasedOnCondition True True evs)) = Inr (to', td)"
    and "pipeline_run es (sent_to ToElse (forwardBasedOnCondition True True evs)) = Inr (eo, ed)"
    and "\<forall>(c, m)\<in>set res. m \<noteq> None" "from_source FromThen res = to'" "from_source FromElse res = eo"
      "mset (from_source FromThenDrop res) = td" "mset (from_source FromElseDrop res) = ed"
    and "bypass \<or> subscribed"
  shows "mset (outs (drainOutput bypass subscribed res)) + mset (drops (drainOutput bypass subscribed res)) = mset ms"
proof -
  note f = forward_all [OF assms(3), of True True, simplified]
  have "mset co + cd = mset ms" using pipeline_conserves assms(1,2) by blast
  moreover have "mset to' + td = mset co" using pipeline_conserves assms(1,4,6) f by (metis UnI1 UnI2)
  moreover have "mset eo + ed = cd" using pipeline_conserves assms(1,5,7) f by (metis UnI2)
  ultimately have "mset ms = mset to' + td + (mset eo + ed)" by simp
  then show ?thesis
    using drain_all [OF assms(8), of bypass subscribed] assms(9-13) by (auto simp: ac_simps)
qed

theorem branch_conserves_witness:
  "mset (outs (drainOutput False True [(FromElse, Some (7::nat))])) + mset (drops (drainOutput False True [(FromElse, Some 7)]))
     = mset [7]"
proof -
  let ?drop = "mk_seg (\<lambda>_ m. Inr ([Drop m], ())) () :: nat seg"
  have r: "run_loop (\<lambda>_ m. Inr ([Drop m], ())) () ms = Inr (map Drop ms, ())" for ms :: "nat list"
    by (induction ms) auto
  have "conserving ?drop" by (auto simp: conserving_def seg_run_mk_seg r)
  then show ?thesis
    using branch_conserves [of "[?drop]" "[]" "[]" "[7]" "[]" "{#7#}" "[(CondDrop, Some 7)]" "[]" "{#}" "[7]" "{#}"
        "[(FromElse, Some 7)]" False True]
    by (simp add: seg_run_mk_seg r del: seg_run.simps)
qed

end
