(* ===== verification/FlowFilter.thy ===== *)
theory FlowFilter
  imports FlowMessage GoNet Segments
begin

text \<open>
  The segment \<open>flowfilter\<close> (\<open>segments/filter/flowfilter\<close>): the visitor that evaluates a
  filter expression on a flow, and the segment around it. The syntax tree and its traversal
  come from the package \<open>github.com/BelWue/flowfilter/parser\<close>, which is not part of the
  repository: the types below are the visitor's view of its nodes (the fields it reads and the
  \<open>EvalResult\<close> fields it writes, numbers at 64 bits), and the functions \<open>parser.Visit\<close> and
  \<open>parser.Parse\<close> are parameters. A struct of optional alternatives is the list of its fields
  that are not nil, in the order in which the visitor's switch tests them.
\<close>

section \<open>The nodes the visitor sees\<close>

record NumericRange =
  Lower :: "u64 option"
  Upper :: "u64 option"
  Unary :: "string option"
  Number :: "u64 option"

record RangeMatch =
  num_range :: NumericRange
  EvalResult :: bool

record DirRangeMatch =
  dir_range :: NumericRange
  EvalResultSrc :: bool
  EvalResultDst :: bool

record CidRangeMatch =
  cid_range :: NumericRange
  CidResult :: bool
  CidResultSrc :: bool
  CidResultDst :: bool

record AddressMatch =
  Address :: "u8 list option"
  Mask :: "u64 option"
  AddrResultSrc :: bool
  AddrResultDst :: bool

record InterfaceMatch =
  SnmpId :: "u64 option"
  IfName :: "string option"
  IfDescription :: "string option"
  Speed :: "DirRangeMatch option"
  IfResultSrc :: bool
  IfResultDst :: bool

text \<open>
  Matches on a single address (\<open>RouterMatch\<close>, \<open>NextHopMatch\<close>), on a number or a key word for
  it (\<open>DscpMatch\<close>, \<open>EcnMatch\<close>, \<open>EtypeMatch\<close>, \<open>ProtoMatch\<close>, \<open>StatusMatch\<close>, \<open>TcpFlagsMatch\<close>)
  have the same fields.
\<close>

record HostMatch =
  HostAddress :: "u8 list option"
  HostResult :: bool

record KeyMatch =
  Num :: "u64 option"
  Key :: "u64 option"
  KeyResult :: bool

record TextMatch =
  Txt :: "string option"
  TextResult :: bool

record NextHopAsnMatch =
  Asn :: "u32 option"
  AsnResult :: bool

record IcmpMatch =
  IcmpTypeNo :: "u64 option"
  IcmpCodeNo :: "u64 option"
  IcmpResult :: bool

record PassesThroughListMatch =
  Numbers :: "u64 list"
  PassesResult :: bool

datatype DirectionalField =
    DAddress AddressMatch
  | DInterface InterfaceMatch
  | DPort DirRangeMatch
  | DAsn DirRangeMatch
  | DNetsize DirRangeMatch
  | DCid CidRangeMatch
  | DVrf DirRangeMatch

datatype RegularField =
    RRouter HostMatch
  | RNextHop HostMatch
  | RNextHopAsn NextHopAsnMatch
  | RBytes RangeMatch
  | RPackets RangeMatch
  | RRemoteCountry TextMatch
  | RFlowDirection TextMatch
  | RNormalized bool
  | RDuration RangeMatch
  | REtype KeyMatch
  | RProto KeyMatch
  | RStatus KeyMatch
  | RTcpFlags KeyMatch
  | RIpTos RangeMatch
  | RLocalPref RangeMatch
  | RMed RangeMatch
  | RDscp KeyMatch
  | REcn KeyMatch
  | RSamplingRate RangeMatch
  | RIcmp IcmpMatch
  | RBps RangeMatch
  | RPps RangeMatch
  | RPassesThrough PassesThroughListMatch
  | RRpki KeyMatch

record DirectionalMatchGroup =
  Direction :: "string option"
  dir_fields :: "DirectionalField list"
  DirGroupResult :: bool

record RegularMatchGroup =
  reg_fields :: "RegularField list"
  RegGroupResult :: bool

datatype Expression = Expression (Left: "Statement option") (Conjunction: "string option")
    (Right: "Expression option") (ExprResult: bool)
and Statement = Statement (Negated: "bool option") (DirectionalMatch: "DirectionalMatchGroup option")
    (RegularMatch: "RegularMatchGroup option") (SubExpression: "Expression option") (StmtResult: bool)

text \<open>A \<open>parser.Node\<close>; \<open>NLeaf\<close> stands for the leaf types the visitor skips over.\<close>

datatype node =
    NExpression (un_Expression: Expression)
  | NStatement (un_Statement: Statement)
  | NDirectionalMatchGroup (un_DirGroup: DirectionalMatchGroup)
  | NRegularMatchGroup (un_RegGroup: RegularMatchGroup)
  | NDirectional (un_Directional: DirectionalField)
  | NRegular (un_Regular: RegularField)
  | NIfSpeed (un_IfSpeed: DirRangeMatch)
  | NLeaf
  | NOther string

section \<open>Evaluating one node\<close>

text \<open>
  The results of the visitor on one node: a panic (a nil pointer dereference), or an error (or
  nil) together with the node in its new state.
\<close>

type_synonym 'n visited = "(string option \<times> 'n) outcome"

abbreviation nil_deref :: failure where
  "nil_deref \<equiv> Panic ''invalid memory address or nil pointer dereference''"

definition processNumericRange :: "NumericRange \<Rightarrow> u64 \<Rightarrow> (bool \<times> string option) outcome" where
  "processNumericRange r c =
     (case (Lower r, Upper r) of
        (Some l, Some u) \<Rightarrow>
          Inr (l \<le> c \<and> c \<le> u,
               if u < l then Some (''[error] Bad range, '' @ dec (unat l) @ '' - '' @ dec (unat u)) else None)
      | _ \<Rightarrow>
          (case Number r of
             None \<Rightarrow> Inl nil_deref
           | Some n \<Rightarrow>
               let unary = (case Unary r of None \<Rightarrow> '''' | Some s \<Rightarrow> s) in
               Inr (if unary = ''<'' then c < n else if unary = ''>'' then n < c else c = n, None)))"

definition bad_range :: "string \<Rightarrow> NumericRange \<Rightarrow> string" where
  "bad_range what r =
     ''[error] Bad '' @ what @ '' range, lower '' @ dec (unat (the (Lower r)))
       @ '' > upper '' @ dec (unat (the (Upper r)))"

text \<open>The cases that evaluate one range and report a bad one.\<close>

definition eval_range :: "string \<Rightarrow> u64 \<Rightarrow> RangeMatch \<Rightarrow> RangeMatch visited" where
  "eval_range what c m =
     (case processNumericRange (num_range m) c of
        Inl p \<Rightarrow> Inl p
      | Inr (b, err) \<Rightarrow> Inr (map_option (\<lambda>_. bad_range what (num_range m)) err, m\<lparr>EvalResult := b\<rparr>))"

text \<open>The cases that evaluate one range for the source and the destination.\<close>

definition eval_dir_range :: "string \<Rightarrow> u64 \<Rightarrow> u64 \<Rightarrow> DirRangeMatch \<Rightarrow> DirRangeMatch visited" where
  "eval_dir_range what cs cd m =
     (case processNumericRange (dir_range m) cs of
        Inl p \<Rightarrow> Inl p
      | Inr (s, _) \<Rightarrow>
          (case processNumericRange (dir_range m) cd of
             Inl p \<Rightarrow> Inl p
           | Inr (d, err) \<Rightarrow>
               Inr (map_option (\<lambda>_. bad_range what (dir_range m)) err, m\<lparr>EvalResultSrc := s, EvalResultDst := d\<rparr>)))"

definition visit_AddressMatch :: "EnrichedFlow \<Rightarrow> AddressMatch \<Rightarrow> AddressMatch visited" where
  "visit_AddressMatch f m =
     (case (Mask m, Address m) of
        (_, None) \<Rightarrow> Inl nil_deref
      | (Some k, Some a) \<Rightarrow>
          let mask = (if ip_To4 a \<noteq> None then CIDRMask (uint k) 32 else CIDRMask (uint k) 128)
          in Inr (None, m\<lparr>AddrResultSrc := ipnet_Contains a mask (bytes_of (SrcAddr f)),
                         AddrResultDst := ipnet_Contains a mask (bytes_of (DstAddr f))\<rparr>)
      | (None, Some a) \<Rightarrow>
          Inr (None, m\<lparr>AddrResultSrc := ip_Equal (bytes_of (SrcAddr f)) a,
                       AddrResultDst := ip_Equal (bytes_of (DstAddr f)) a\<rparr>))"

definition visit_AsnRangeMatch :: "EnrichedFlow \<Rightarrow> DirRangeMatch \<Rightarrow> DirRangeMatch visited" where
  "visit_AsnRangeMatch f = eval_dir_range ''ASN'' (ucast (SrcAs f)) (ucast (DstAs f))"

definition at_least_one :: "u64 \<Rightarrow> u64" where
  "at_least_one d = (if d = 0 then d + 1 else d)"

text \<open>The error of \<open>processNumericRange\<close> is assigned but not returned in this case.\<close>

definition visit_BpsRangeMatch :: "EnrichedFlow \<Rightarrow> RangeMatch \<Rightarrow> RangeMatch visited" where
  "visit_BpsRangeMatch f m =
     (let duration = at_least_one (TimeFlowEnd f - TimeFlowStart f);
          bps = Bytes f * 8 div duration
      in case processNumericRange (num_range m) bps of
           Inl p \<Rightarrow> Inl p
         | Inr (b, _) \<Rightarrow> Inr (None, m\<lparr>EvalResult := b\<rparr>))"

definition visit_ByteRangeMatch :: "EnrichedFlow \<Rightarrow> RangeMatch \<Rightarrow> RangeMatch visited" where
  "visit_ByteRangeMatch f = eval_range ''byte size'' (Bytes f)"

definition visit_CidRangeMatch :: "EnrichedFlow \<Rightarrow> CidRangeMatch \<Rightarrow> CidRangeMatch visited" where
  "visit_CidRangeMatch f m =
     (case (processNumericRange (cid_range m) (ucast (Cid f)),
            processNumericRange (cid_range m) (ucast (SrcCid f)),
            processNumericRange (cid_range m) (ucast (DstCid f))) of
        (Inr (b, _), Inr (s, _), Inr (d, err)) \<Rightarrow>
          Inr (map_option (\<lambda>_. bad_range ''cid'' (cid_range m)) err,
               m\<lparr>CidResult := b, CidResultSrc := s, CidResultDst := d\<rparr>)
      | _ \<Rightarrow> Inl nil_deref)"

definition visit_DurationRangeMatch :: "EnrichedFlow \<Rightarrow> RangeMatch \<Rightarrow> RangeMatch visited" where
  "visit_DurationRangeMatch f = eval_range ''duration'' (TimeFlowEnd f - TimeFlowStart f)"

text \<open>A number, or else a key word for one, tested against the flow.\<close>

definition eval_key :: "(u32 \<Rightarrow> bool) \<Rightarrow> (u32 \<Rightarrow> bool) \<Rightarrow> KeyMatch \<Rightarrow> KeyMatch" where
  "eval_key num_test key_test m =
     (case Num m of
        Some n \<Rightarrow> m\<lparr>KeyResult := num_test (ucast n)\<rparr>
      | None \<Rightarrow> (case Key m of Some k \<Rightarrow> m\<lparr>KeyResult := key_test (ucast k)\<rparr> | None \<Rightarrow> m))"

definition visit_DscpMatch :: "EnrichedFlow \<Rightarrow> KeyMatch \<Rightarrow> KeyMatch" where
  "visit_DscpMatch f = eval_key (\<lambda>n. drop_bit 2 (IpTos f) = n) (\<lambda>n. drop_bit 2 (IpTos f) = n)"

definition visit_EcnMatch :: "EnrichedFlow \<Rightarrow> KeyMatch \<Rightarrow> KeyMatch" where
  "visit_EcnMatch f = eval_key (\<lambda>n. IpTos f AND 3 = n) (\<lambda>n. IpTos f AND 3 = n)"

definition visit_EtypeMatch :: "EnrichedFlow \<Rightarrow> KeyMatch \<Rightarrow> KeyMatch" where
  "visit_EtypeMatch f = eval_key (\<lambda>n. Etype f = n) (\<lambda>n. Etype f = n)"

definition visit_FlowDirectionMatch :: "EnrichedFlow \<Rightarrow> TextMatch \<Rightarrow> TextMatch visited" where
  "visit_FlowDirectionMatch f m =
     (case Txt m of
        None \<Rightarrow> Inl nil_deref
      | Some t \<Rightarrow>
          Inr (None, if t = ''incoming'' then m\<lparr>TextResult := (FlowDirection f = 0)\<rparr>
                     else if t = ''outgoing'' then m\<lparr>TextResult := (FlowDirection f = 1)\<rparr>
                     else m))"

definition visit_IcmpMatch :: "EnrichedFlow \<Rightarrow> IcmpMatch \<Rightarrow> IcmpMatch" where
  "visit_IcmpMatch f m =
     (if Proto f \<noteq> 1 then m\<lparr>IcmpResult := False\<rparr>
      else case IcmpTypeNo m of
             Some t \<Rightarrow> m\<lparr>IcmpResult := (ucast t = DstPort f div 256)\<rparr>
           | None \<Rightarrow>
               (case IcmpCodeNo m of
                  Some c \<Rightarrow> m\<lparr>IcmpResult := (ucast c = DstPort f mod 256)\<rparr>
                | None \<Rightarrow> m))"

definition visit_IfSpeedRangeMatch :: "EnrichedFlow \<Rightarrow> DirRangeMatch \<Rightarrow> DirRangeMatch visited" where
  "visit_IfSpeedRangeMatch f =
     eval_dir_range ''iface speed'' (ucast (SrcIfSpeed f) div 1000) (ucast (DstIfSpeed f) div 1000)"

definition contains_nocase :: "string \<Rightarrow> string \<Rightarrow> bool" where
  "contains_nocase s t = str_contains (to_lower s) (to_lower t)"

text \<open>\<open>Speed\<close> was evaluated before, as a child.\<close>

definition visit_InterfaceMatch :: "EnrichedFlow \<Rightarrow> InterfaceMatch \<Rightarrow> InterfaceMatch" where
  "visit_InterfaceMatch f m =
     (case SnmpId m of
        Some i \<Rightarrow> m\<lparr>IfResultSrc := (ucast i = InIf f), IfResultDst := (ucast i = OutIf f)\<rparr>
      | None \<Rightarrow>
     (case IfName m of
        Some n \<Rightarrow> m\<lparr>IfResultSrc := contains_nocase (SrcIfName f) n, IfResultDst := contains_nocase (DstIfName f) n\<rparr>
      | None \<Rightarrow>
     (case IfDescription m of
        Some d \<Rightarrow> m\<lparr>IfResultSrc := contains_nocase (SrcIfDesc f) d, IfResultDst := contains_nocase (DstIfDesc f) d\<rparr>
      | None \<Rightarrow>
     (case Speed m of
        Some s \<Rightarrow> m\<lparr>IfResultSrc := EvalResultSrc s, IfResultDst := EvalResultDst s\<rparr>
      | None \<Rightarrow> m))))"

definition visit_IpTosRangeMatch :: "EnrichedFlow \<Rightarrow> RangeMatch \<Rightarrow> RangeMatch visited" where
  "visit_IpTosRangeMatch f = eval_range ''iptos'' (ucast (IpTos f))"

definition visit_LocalPrefRangeMatch :: "EnrichedFlow \<Rightarrow> RangeMatch \<Rightarrow> RangeMatch visited" where
  "visit_LocalPrefRangeMatch f = eval_range ''localpref'' (ucast (LocalPref f))"

definition visit_MedRangeMatch :: "EnrichedFlow \<Rightarrow> RangeMatch \<Rightarrow> RangeMatch visited" where
  "visit_MedRangeMatch f = eval_range ''med'' (ucast (Med f))"

definition visit_NetsizeRangeMatch :: "EnrichedFlow \<Rightarrow> DirRangeMatch \<Rightarrow> DirRangeMatch visited" where
  "visit_NetsizeRangeMatch f = eval_dir_range ''netsize'' (ucast (SrcNet f)) (ucast (DstNet f))"

definition eval_host :: "byte_slice \<Rightarrow> HostMatch \<Rightarrow> HostMatch visited" where
  "eval_host addr m =
     (case HostAddress m of
        None \<Rightarrow> Inl nil_deref
      | Some a \<Rightarrow> Inr (None, m\<lparr>HostResult := ip_Equal (bytes_of addr) a\<rparr>))"

definition visit_NextHopMatch :: "EnrichedFlow \<Rightarrow> HostMatch \<Rightarrow> HostMatch visited" where
  "visit_NextHopMatch f = eval_host (NextHop f)"

definition visit_NextHopAsnMatch :: "EnrichedFlow \<Rightarrow> NextHopAsnMatch \<Rightarrow> NextHopAsnMatch visited" where
  "visit_NextHopAsnMatch f m =
     (case Asn m of
        None \<Rightarrow> Inl nil_deref
      | Some a \<Rightarrow> Inr (None, m\<lparr>AsnResult := (NextHopAs f = a)\<rparr>))"

definition visit_PacketRangeMatch :: "EnrichedFlow \<Rightarrow> RangeMatch \<Rightarrow> RangeMatch visited" where
  "visit_PacketRangeMatch f = eval_range ''packet count'' (Packets f)"

definition visit_PortRangeMatch :: "EnrichedFlow \<Rightarrow> DirRangeMatch \<Rightarrow> DirRangeMatch visited" where
  "visit_PortRangeMatch f = eval_dir_range ''port'' (ucast (SrcPort f)) (ucast (DstPort f))"

definition visit_PpsRangeMatch :: "EnrichedFlow \<Rightarrow> RangeMatch \<Rightarrow> RangeMatch visited" where
  "visit_PpsRangeMatch f m =
     (let duration = at_least_one (TimeFlowEnd f - TimeFlowStart f);
          pps = Packets f div duration
      in case processNumericRange (num_range m) pps of
           Inl p \<Rightarrow> Inl p
         | Inr (b, err) \<Rightarrow>
             Inr (map_option (\<lambda>e. ''[error] Bad range: '' @ e @ ''.'') err, m\<lparr>EvalResult := b\<rparr>))"

text \<open>
  The loop over the start positions of the AS path: it stops at the first position where the
  list matches or no longer fits, and leaves the result alone when it never compares.
\<close>

fun pass_loop :: "u32 list \<Rightarrow> u32 list \<Rightarrow> bool \<Rightarrow> bool" where
  "pass_loop numbers [] res = res"
| "pass_loop numbers (a # path) res =
     (if length (a # path) < length numbers then res
      else if take (length numbers) (a # path) = numbers then True
      else pass_loop numbers path False)"

definition visit_PassesThroughListMatch :: "EnrichedFlow \<Rightarrow> PassesThroughListMatch \<Rightarrow> PassesThroughListMatch" where
  "visit_PassesThroughListMatch f m =
     m\<lparr>PassesResult := pass_loop (map ucast (Numbers m)) (AsPath f) (PassesResult m)\<rparr>"

definition visit_ProtoMatch :: "EnrichedFlow \<Rightarrow> KeyMatch \<Rightarrow> KeyMatch" where
  "visit_ProtoMatch f = eval_key (\<lambda>n. Proto f = n) (\<lambda>n. Proto f = n)"

definition visit_RemoteCountryMatch :: "EnrichedFlow \<Rightarrow> TextMatch \<Rightarrow> TextMatch visited" where
  "visit_RemoteCountryMatch f m =
     (case Txt m of
        None \<Rightarrow> Inl nil_deref
      | Some t \<Rightarrow> Inr (None, m\<lparr>TextResult := str_contains (RemoteCountry f) (to_upper t)\<rparr>))"

definition visit_RouterMatch :: "EnrichedFlow \<Rightarrow> HostMatch \<Rightarrow> HostMatch visited" where
  "visit_RouterMatch f = eval_host (SamplerAddress f)"

definition visit_RpkiMatch :: "EnrichedFlow \<Rightarrow> KeyMatch \<Rightarrow> KeyMatch" where
  "visit_RpkiMatch f m =
     (case Key m of
        None \<Rightarrow> m\<lparr>KeyResult := False\<rparr>
      | Some k \<Rightarrow> m\<lparr>KeyResult := (ValidationStatus f = ucast k)\<rparr>)"

definition visit_SamplingRateRangeMatch :: "EnrichedFlow \<Rightarrow> RangeMatch \<Rightarrow> RangeMatch visited" where
  "visit_SamplingRateRangeMatch f = eval_range ''samplingrate'' (SamplingRate f)"

definition visit_StatusMatch :: "EnrichedFlow \<Rightarrow> KeyMatch \<Rightarrow> KeyMatch" where
  "visit_StatusMatch f = eval_key (\<lambda>n. ForwardingStatus f = n) (\<lambda>k. ForwardingStatus f AND k = k)"

definition visit_TcpFlagsMatch :: "EnrichedFlow \<Rightarrow> KeyMatch \<Rightarrow> KeyMatch" where
  "visit_TcpFlagsMatch f m =
     (if Proto f \<noteq> 6 then m\<lparr>KeyResult := False\<rparr>
      else eval_key (\<lambda>n. TcpFlags f = n) (\<lambda>k. TcpFlags f AND k = k) m)"

definition visit_VrfRangeMatch :: "EnrichedFlow \<Rightarrow> DirRangeMatch \<Rightarrow> DirRangeMatch visited" where
  "visit_VrfRangeMatch f = eval_dir_range ''ASN'' (ucast (IngressVrfIDBW f)) (ucast (EgressVrfIDBW f))"

text \<open>The \<open>EvalResult\<close> fields of an alternative of a group.\<close>

fun dir_results :: "DirectionalField \<Rightarrow> bool \<times> bool \<times> bool" where
  "dir_results (DAddress m) = (False, AddrResultSrc m, AddrResultDst m)"
| "dir_results (DInterface m) = (False, IfResultSrc m, IfResultDst m)"
| "dir_results (DPort m) = (False, EvalResultSrc m, EvalResultDst m)"
| "dir_results (DAsn m) = (False, EvalResultSrc m, EvalResultDst m)"
| "dir_results (DNetsize m) = (False, EvalResultSrc m, EvalResultDst m)"
| "dir_results (DCid m) = (CidResult m, CidResultSrc m, CidResultDst m)"
| "dir_results (DVrf m) = (False, EvalResultSrc m, EvalResultDst m)"

fun reg_result :: "RegularField \<Rightarrow> bool" where
  "reg_result (RRouter m) = HostResult m"
| "reg_result (RNextHop m) = HostResult m"
| "reg_result (RNextHopAsn m) = AsnResult m"
| "reg_result (RBytes m) = EvalResult m"
| "reg_result (RPackets m) = EvalResult m"
| "reg_result (RRemoteCountry m) = TextResult m"
| "reg_result (RFlowDirection m) = TextResult m"
| "reg_result (RNormalized b) = b"
| "reg_result (RDuration m) = EvalResult m"
| "reg_result (REtype m) = KeyResult m"
| "reg_result (RProto m) = KeyResult m"
| "reg_result (RStatus m) = KeyResult m"
| "reg_result (RTcpFlags m) = KeyResult m"
| "reg_result (RIpTos m) = EvalResult m"
| "reg_result (RLocalPref m) = EvalResult m"
| "reg_result (RMed m) = EvalResult m"
| "reg_result (RDscp m) = KeyResult m"
| "reg_result (REcn m) = KeyResult m"
| "reg_result (RSamplingRate m) = EvalResult m"
| "reg_result (RIcmp m) = IcmpResult m"
| "reg_result (RBps m) = EvalResult m"
| "reg_result (RPps m) = EvalResult m"
| "reg_result (RPassesThrough m) = PassesResult m"
| "reg_result (RRpki m) = KeyResult m"

definition visit_RegularMatchGroup :: "RegularMatchGroup \<Rightarrow> RegularMatchGroup" where
  "visit_RegularMatchGroup g =
     (case reg_fields g of [] \<Rightarrow> g | m # _ \<Rightarrow> g\<lparr>RegGroupResult := reg_result m\<rparr>)"

definition visit_DirectionalMatchGroup :: "DirectionalMatchGroup \<Rightarrow> DirectionalMatchGroup" where
  "visit_DirectionalMatchGroup g =
     (case dir_fields g of
        [] \<Rightarrow> g
      | m # _ \<Rightarrow>
          let (any, src, dst) = dir_results m in
          case Direction g of
            None \<Rightarrow> g\<lparr>DirGroupResult := (any \<or> src \<or> dst)\<rparr>
          | Some d \<Rightarrow>
              if d = ''src'' then g\<lparr>DirGroupResult := src\<rparr>
              else if d = ''dst'' then g\<lparr>DirGroupResult := dst\<rparr>
              else g)"

definition visit_Statement :: "Statement \<Rightarrow> Statement" where
  "visit_Statement s =
     (let r = (case DirectionalMatch s of
                 Some d \<Rightarrow> DirGroupResult d
               | None \<Rightarrow>
                   (case RegularMatch s of
                      Some m \<Rightarrow> RegGroupResult m
                    | None \<Rightarrow> (case SubExpression s of Some e \<Rightarrow> ExprResult e | None \<Rightarrow> StmtResult s)));
          r' = (if Negated s = Some True then \<not> r else r)
      in Statement (Negated s) (DirectionalMatch s) (RegularMatch s) (SubExpression s) r')"

text \<open>The operators short-circuit: the right operand is only dereferenced when it decides.\<close>

definition visit_Expression :: "Expression \<Rightarrow> Expression outcome" where
  "visit_Expression e =
     (let result = (\<lambda>r. Expression (Left e) (Conjunction e) (Right e) r) in
      case Left e of
        None \<Rightarrow> Inr (result True)
      | Some l \<Rightarrow>
          (case Conjunction e of
             None \<Rightarrow> Inr (result (StmtResult l))
           | Some c \<Rightarrow>
               if c = ''and'' then
                 if \<not> StmtResult l then Inr (result False)
                 else (case Right e of None \<Rightarrow> Inl nil_deref | Some r \<Rightarrow> Inr (result (ExprResult r)))
               else if c = ''or'' then
                 if StmtResult l then Inr (result True)
                 else (case Right e of None \<Rightarrow> Inl nil_deref | Some r \<Rightarrow> Inr (result (ExprResult r)))
               else Inr e))"

fun visit_Directional :: "EnrichedFlow \<Rightarrow> DirectionalField \<Rightarrow> DirectionalField visited" where
  "visit_Directional f (DAddress m) = map_sum id (map_prod id DAddress) (visit_AddressMatch f m)"
| "visit_Directional f (DInterface m) = Inr (None, DInterface (visit_InterfaceMatch f m))"
| "visit_Directional f (DPort m) = map_sum id (map_prod id DPort) (visit_PortRangeMatch f m)"
| "visit_Directional f (DAsn m) = map_sum id (map_prod id DAsn) (visit_AsnRangeMatch f m)"
| "visit_Directional f (DNetsize m) = map_sum id (map_prod id DNetsize) (visit_NetsizeRangeMatch f m)"
| "visit_Directional f (DCid m) = map_sum id (map_prod id DCid) (visit_CidRangeMatch f m)"
| "visit_Directional f (DVrf m) = map_sum id (map_prod id DVrf) (visit_VrfRangeMatch f m)"

fun visit_Regular :: "EnrichedFlow \<Rightarrow> RegularField \<Rightarrow> RegularField visited" where
  "visit_Regular f (RRouter m) = map_sum id (map_prod id RRouter) (visit_RouterMatch f m)"
| "visit_Regular f (RNextHop m) = map_sum id (map_prod id RNextHop) (visit_NextHopMatch f m)"
| "visit_Regular f (RNextHopAsn m) = map_sum id (map_prod id RNextHopAsn) (visit_NextHopAsnMatch f m)"
| "visit_Regular f (RBytes m) = map_sum id (map_prod id RBytes) (visit_ByteRangeMatch f m)"
| "visit_Regular f (RPackets m) = map_sum id (map_prod id RPackets) (visit_PacketRangeMatch f m)"
| "visit_Regular f (RRemoteCountry m) = map_sum id (map_prod id RRemoteCountry) (visit_RemoteCountryMatch f m)"
| "visit_Regular f (RFlowDirection m) = map_sum id (map_prod id RFlowDirection) (visit_FlowDirectionMatch f m)"
| "visit_Regular f (RNormalized b) = Inr (None, RNormalized (Normalized f = 1))"
| "visit_Regular f (RDuration m) = map_sum id (map_prod id RDuration) (visit_DurationRangeMatch f m)"
| "visit_Regular f (REtype m) = Inr (None, REtype (visit_EtypeMatch f m))"
| "visit_Regular f (RProto m) = Inr (None, RProto (visit_ProtoMatch f m))"
| "visit_Regular f (RStatus m) = Inr (None, RStatus (visit_StatusMatch f m))"
| "visit_Regular f (RTcpFlags m) = Inr (None, RTcpFlags (visit_TcpFlagsMatch f m))"
| "visit_Regular f (RIpTos m) = map_sum id (map_prod id RIpTos) (visit_IpTosRangeMatch f m)"
| "visit_Regular f (RLocalPref m) = map_sum id (map_prod id RLocalPref) (visit_LocalPrefRangeMatch f m)"
| "visit_Regular f (RMed m) = map_sum id (map_prod id RMed) (visit_MedRangeMatch f m)"
| "visit_Regular f (RDscp m) = Inr (None, RDscp (visit_DscpMatch f m))"
| "visit_Regular f (REcn m) = Inr (None, REcn (visit_EcnMatch f m))"
| "visit_Regular f (RSamplingRate m) = map_sum id (map_prod id RSamplingRate) (visit_SamplingRateRangeMatch f m)"
| "visit_Regular f (RIcmp m) = Inr (None, RIcmp (visit_IcmpMatch f m))"
| "visit_Regular f (RBps m) = map_sum id (map_prod id RBps) (visit_BpsRangeMatch f m)"
| "visit_Regular f (RPps m) = map_sum id (map_prod id RPps) (visit_PpsRangeMatch f m)"
| "visit_Regular f (RPassesThrough m) = Inr (None, RPassesThrough (visit_PassesThroughListMatch f m))"
| "visit_Regular f (RRpki m) = Inr (None, RRpki (visit_RpkiMatch f m))"

section \<open>The visitor\<close>

fun after_children :: "EnrichedFlow \<Rightarrow> node \<Rightarrow> node visited" where
  "after_children f (NExpression e) = map_sum id (\<lambda>e'. (None, NExpression e')) (visit_Expression e)"
| "after_children f (NStatement s) = Inr (None, NStatement (visit_Statement s))"
| "after_children f (NDirectionalMatchGroup g) = Inr (None, NDirectionalMatchGroup (visit_DirectionalMatchGroup g))"
| "after_children f (NRegularMatchGroup g) = Inr (None, NRegularMatchGroup (visit_RegularMatchGroup g))"
| "after_children f (NDirectional m) = map_sum id (map_prod id NDirectional) (visit_Directional f m)"
| "after_children f (NRegular m) = map_sum id (map_prod id NRegular) (visit_Regular f m)"
| "after_children f (NIfSpeed m) = map_sum id (map_prod id NIfSpeed) (visit_IfSpeedRangeMatch f m)"
| "after_children f n = Inr (None, n)"

text \<open>
  \<open>Filter.Visit\<close>: \<open>descended\<close> is what \<open>next()\<close> gives, the error and the node after its
  children were visited.
\<close>

definition Visit :: "EnrichedFlow \<Rightarrow> node \<Rightarrow> node visited \<Rightarrow> node visited" where
  "Visit f n descended =
     (case n of
        NOther t \<Rightarrow> Inr (Some (''[error] Encountered unknown node type: '' @ t), n)
      | _ \<Rightarrow>
          (case descended of
             Inl p \<Rightarrow> Inl p
           | Inr (Some err, n') \<Rightarrow> Inr (Some err, n')
           | Inr (None, n') \<Rightarrow> after_children f n'))"

type_synonym traversal = "(node \<Rightarrow> node visited \<Rightarrow> node visited) \<Rightarrow> node \<Rightarrow> node visited"

text \<open>
  \<open>Filter.CheckFlow\<close>; the parameter is \<open>parser.Visit\<close>. The expression is returned because the
  visitor writes its results into it.
\<close>

definition CheckFlow :: "traversal \<Rightarrow> Expression \<Rightarrow> EnrichedFlow \<Rightarrow> (bool \<times> string option \<times> Expression) outcome" where
  "CheckFlow parser_Visit e f =
     (case parser_Visit (Visit f) (NExpression e) of
        Inl p \<Rightarrow> Inl p
      | Inr (err, n) \<Rightarrow> Inr (ExprResult (un_Expression n), err, un_Expression n))"

section \<open>The segment\<close>

record FlowFilter =
  expression :: Expression
  Drops :: bool

text \<open>\<open>FlowFilter.New\<close>: \<open>None\<close> is the nil segment; the second parameter is \<open>parser.Parse\<close>.\<close>

definition FlowFilter_New :: "traversal \<Rightarrow> (string \<Rightarrow> Expression option) \<Rightarrow> config_map \<Rightarrow> FlowFilter option outcome" where
  "FlowFilter_New parser_Visit parser_Parse config =
     (case parser_Parse (cfg config ''filter'') of
        None \<Rightarrow> Inr None
      | Some e \<Rightarrow>
          (case CheckFlow parser_Visit e zero_flow of
             Inl p \<Rightarrow> Inl p
           | Inr (_, Some err, _) \<Rightarrow> Inr None
           | Inr (_, None, e') \<Rightarrow> Inr (Some \<lparr>expression = e', Drops = False\<rparr>)))"

definition FlowFilter_step :: "traversal \<Rightarrow> (FlowFilter, EnrichedFlow) step" where
  "FlowFilter_step parser_Visit s m =
     (case CheckFlow parser_Visit (expression s) m of
        Inl p \<Rightarrow> Inl p
      | Inr (match, _, e') \<Rightarrow>
          Inr (if match then [Out m] else send_drop (Drops s) m, s\<lparr>expression := e'\<rparr>))"

section \<open>The traversal\<close>

text \<open>
  What the visitor relies on in \<open>parser.Visit\<close>: the visitor is called on the node, and its
  \<open>next()\<close> visits the sub-nodes one after the other, up to the first error. Leaf nodes, on which
  the visitor does nothing, are left out.
\<close>

fun visit_list :: "(node \<Rightarrow> node visited) \<Rightarrow> ('a \<Rightarrow> node) \<Rightarrow> (node \<Rightarrow> 'a) \<Rightarrow> 'a list \<Rightarrow> 'a list visited" where
  "visit_list V mk un [] = Inr (None, [])"
| "visit_list V mk un (x # xs) =
     (case V (mk x) of
        Inl p \<Rightarrow> Inl p
      | Inr (Some err, n) \<Rightarrow> Inr (Some err, un n # xs)
      | Inr (None, n) \<Rightarrow> map_sum id (map_prod id (Cons (un n))) (visit_list V mk un xs))"

fun visit_option :: "(node \<Rightarrow> node visited) \<Rightarrow> ('a \<Rightarrow> node) \<Rightarrow> (node \<Rightarrow> 'a) \<Rightarrow> 'a option \<Rightarrow> 'a option visited" where
  "visit_option V mk un None = Inr (None, None)"
| "visit_option V mk un (Some x) = map_sum id (map_prod id (\<lambda>n. Some (un n))) (V (mk x))"

definition and_then :: "'a visited \<Rightarrow> ('a \<Rightarrow> 'b) \<Rightarrow> ('a \<Rightarrow> 'b visited) \<Rightarrow> 'b visited" where
  "and_then r done k =
     (case r of Inl p \<Rightarrow> Inl p | Inr (Some err, x) \<Rightarrow> Inr (Some err, done x) | Inr (None, x) \<Rightarrow> k x)"

fun visit_children :: "(node \<Rightarrow> node visited) \<Rightarrow> node \<Rightarrow> node visited" where
  "visit_children V (NExpression (Expression l c r b)) =
     and_then (visit_option V NStatement un_Statement l) (\<lambda>l'. NExpression (Expression l' c r b)) (\<lambda>l'.
     map_sum id (map_prod id (\<lambda>r'. NExpression (Expression l' c r' b))) (visit_option V NExpression un_Expression r))"
| "visit_children V (NStatement (Statement n d g e b)) =
     and_then (visit_option V NDirectionalMatchGroup un_DirGroup d) (\<lambda>d'. NStatement (Statement n d' g e b)) (\<lambda>d'.
     and_then (visit_option V NRegularMatchGroup un_RegGroup g) (\<lambda>g'. NStatement (Statement n d' g' e b)) (\<lambda>g'.
     map_sum id (map_prod id (\<lambda>e'. NStatement (Statement n d' g' e' b))) (visit_option V NExpression un_Expression e)))"
| "visit_children V (NDirectionalMatchGroup g) =
     map_sum id (map_prod id (\<lambda>ms. NDirectionalMatchGroup (g\<lparr>dir_fields := ms\<rparr>)))
       (visit_list V NDirectional un_Directional (dir_fields g))"
| "visit_children V (NRegularMatchGroup g) =
     map_sum id (map_prod id (\<lambda>ms. NRegularMatchGroup (g\<lparr>reg_fields := ms\<rparr>)))
       (visit_list V NRegular un_Regular (reg_fields g))"
| "visit_children V (NDirectional (DInterface m)) =
     map_sum id (map_prod id (\<lambda>s. NDirectional (DInterface (m\<lparr>Speed := s\<rparr>))))
       (visit_option V NIfSpeed un_IfSpeed (Speed m))"
| "visit_children V n = Inr (None, n)"

definition post_order :: "traversal \<Rightarrow> bool" where
  "post_order parser_Visit \<longleftrightarrow>
     (\<forall>f n. parser_Visit (Visit f) n = Visit f n (visit_children (parser_Visit (Visit f)) n))"

end
