(* ===== verification/FilterMeaning.thy ===== *)
theory FilterMeaning
  imports FlowFilter
begin

text \<open>
  What a filter expression means, as a predicate on flows, and the proof that the visitor of
  \<open>flowfilter\<close> computes it: on every node, on whole expressions, and in the running segment.
\<close>

section \<open>The meaning of an expression\<close>

text \<open>What each condition says of a flow, without any evaluation state.\<close>

definition range_wf :: "NumericRange \<Rightarrow> bool" where
  "range_wf r \<longleftrightarrow> (Lower r \<noteq> None \<and> Upper r \<noteq> None) \<or> Number r \<noteq> None"

definition range_ok :: "NumericRange \<Rightarrow> bool" where
  "range_ok r \<longleftrightarrow> (\<forall>l u. Lower r = Some l \<longrightarrow> Upper r = Some u \<longrightarrow> l \<le> u)"

definition range_holds :: "NumericRange \<Rightarrow> u64 \<Rightarrow> bool" where
  "range_holds r c =
     (if Lower r \<noteq> None \<and> Upper r \<noteq> None then c \<in> {the (Lower r)..the (Upper r)}
      else if Unary r = Some ''<'' then c < the (Number r)
      else if Unary r = Some ''>'' then c > the (Number r)
      else c = the (Number r))"

definition range_err :: "NumericRange \<Rightarrow> string option" where
  "range_err r = (if range_ok r then None
     else Some (''[error] Bad range, '' @ dec (unat (the (Lower r))) @ '' - '' @ dec (unat (the (Upper r)))))"

lemma processNumericRange_holds:
  "range_wf r \<Longrightarrow> processNumericRange r c = Inr (range_holds r c, range_err r)"
  by (cases "Lower r"; cases "Upper r"; cases "Number r"; cases "Unary r")
    (auto simp: processNumericRange_def range_wf_def range_ok_def range_holds_def range_err_def)

lemma range_err_None [simp]: "range_err r = None \<longleftrightarrow> range_ok r"
  by (simp add: range_err_def)

definition key_holds :: "(u32 \<Rightarrow> bool) \<Rightarrow> (u32 \<Rightarrow> bool) \<Rightarrow> KeyMatch \<Rightarrow> bool" where
  "key_holds num_test key_test m =
     (case Num m of Some n \<Rightarrow> num_test (ucast n) | None \<Rightarrow> key_test (ucast (the (Key m))))"

definition addr_holds :: "AddressMatch \<Rightarrow> u8 list \<Rightarrow> bool" where
  "addr_holds m ip =
     (let a = the (Address m) in
      case Mask m of
        None \<Rightarrow> ip_Equal ip a
      | Some k \<Rightarrow> ipnet_Contains a (CIDRMask (uint k) (if ip_To4 a \<noteq> None then 32 else 128)) ip)"

definition iface_holds :: "InterfaceMatch \<Rightarrow> u32 \<Rightarrow> string \<Rightarrow> string \<Rightarrow> u32 \<Rightarrow> bool" where
  "iface_holds m idx name desc speed =
     (if SnmpId m \<noteq> None then ucast (the (SnmpId m)) = idx
      else if IfName m \<noteq> None then contains_nocase name (the (IfName m))
      else if IfDescription m \<noteq> None then contains_nocase desc (the (IfDescription m))
      else range_holds (dir_range (the (Speed m))) (ucast speed div 1000))"

fun dir_wf :: "DirectionalField \<Rightarrow> bool" where
  "dir_wf (DAddress m) = (Address m \<noteq> None)"
| "dir_wf (DInterface m) =
     ((SnmpId m \<noteq> None \<or> IfName m \<noteq> None \<or> IfDescription m \<noteq> None \<or> Speed m \<noteq> None)
      \<and> (\<forall>s\<in>set_option (Speed m). range_wf (dir_range s)))"
| "dir_wf (DCid m) = range_wf (cid_range m)"
| "dir_wf (DPort m) = range_wf (dir_range m)"
| "dir_wf (DAsn m) = range_wf (dir_range m)"
| "dir_wf (DNetsize m) = range_wf (dir_range m)"
| "dir_wf (DVrf m) = range_wf (dir_range m)"

fun dir_ok :: "DirectionalField \<Rightarrow> bool" where
  "dir_ok (DAddress m) = True"
| "dir_ok (DInterface m) = (\<forall>s\<in>set_option (Speed m). range_ok (dir_range s))"
| "dir_ok (DCid m) = range_ok (cid_range m)"
| "dir_ok (DPort m) = range_ok (dir_range m)"
| "dir_ok (DAsn m) = range_ok (dir_range m)"
| "dir_ok (DNetsize m) = range_ok (dir_range m)"
| "dir_ok (DVrf m) = range_ok (dir_range m)"

fun dir_holds :: "EnrichedFlow \<Rightarrow> DirectionalField \<Rightarrow> bool \<times> bool \<times> bool" where
  "dir_holds f (DAddress m) = (False, addr_holds m (bytes_of (SrcAddr f)), addr_holds m (bytes_of (DstAddr f)))"
| "dir_holds f (DInterface m) =
     (False, iface_holds m (InIf f) (SrcIfName f) (SrcIfDesc f) (SrcIfSpeed f),
             iface_holds m (OutIf f) (DstIfName f) (DstIfDesc f) (DstIfSpeed f))"
| "dir_holds f (DPort m) =
     (False, range_holds (dir_range m) (ucast (SrcPort f)), range_holds (dir_range m) (ucast (DstPort f)))"
| "dir_holds f (DAsn m) =
     (False, range_holds (dir_range m) (ucast (SrcAs f)), range_holds (dir_range m) (ucast (DstAs f)))"
| "dir_holds f (DNetsize m) =
     (False, range_holds (dir_range m) (ucast (SrcNet f)), range_holds (dir_range m) (ucast (DstNet f)))"
| "dir_holds f (DCid m) =
     (range_holds (cid_range m) (ucast (Cid f)), range_holds (cid_range m) (ucast (SrcCid f)),
      range_holds (cid_range m) (ucast (DstCid f)))"
| "dir_holds f (DVrf m) =
     (False, range_holds (dir_range m) (ucast (IngressVrfIDBW f)), range_holds (dir_range m) (ucast (EgressVrfIDBW f)))"

fun reg_wf :: "RegularField \<Rightarrow> bool" where
  "reg_wf (RRouter m) = (HostAddress m \<noteq> None)"
| "reg_wf (RNextHop m) = (HostAddress m \<noteq> None)"
| "reg_wf (RNextHopAsn m) = (Asn m \<noteq> None)"
| "reg_wf (RRemoteCountry m) = (Txt m \<noteq> None)"
| "reg_wf (RFlowDirection m) = (Txt m \<in> {Some ''incoming'', Some ''outgoing''})"
| "reg_wf (RNormalized b) = True"
| "reg_wf (RPassesThrough m) = True"
| "reg_wf (RRpki m) = True"
| "reg_wf (RIcmp m) = (IcmpTypeNo m \<noteq> None \<or> IcmpCodeNo m \<noteq> None)"
| "reg_wf (RBytes m) = range_wf (num_range m)"
| "reg_wf (RPackets m) = range_wf (num_range m)"
| "reg_wf (RDuration m) = range_wf (num_range m)"
| "reg_wf (RIpTos m) = range_wf (num_range m)"
| "reg_wf (RLocalPref m) = range_wf (num_range m)"
| "reg_wf (RMed m) = range_wf (num_range m)"
| "reg_wf (RSamplingRate m) = range_wf (num_range m)"
| "reg_wf (RBps m) = range_wf (num_range m)"
| "reg_wf (RPps m) = range_wf (num_range m)"
| "reg_wf (REtype m) = (Num m \<noteq> None \<or> Key m \<noteq> None)"
| "reg_wf (RProto m) = (Num m \<noteq> None \<or> Key m \<noteq> None)"
| "reg_wf (RStatus m) = (Num m \<noteq> None \<or> Key m \<noteq> None)"
| "reg_wf (RTcpFlags m) = (Num m \<noteq> None \<or> Key m \<noteq> None)"
| "reg_wf (RDscp m) = (Num m \<noteq> None \<or> Key m \<noteq> None)"
| "reg_wf (REcn m) = (Num m \<noteq> None \<or> Key m \<noteq> None)"

fun reg_ok :: "RegularField \<Rightarrow> bool" where
  "reg_ok (RBytes m) = range_ok (num_range m)"
| "reg_ok (RPackets m) = range_ok (num_range m)"
| "reg_ok (RDuration m) = range_ok (num_range m)"
| "reg_ok (RIpTos m) = range_ok (num_range m)"
| "reg_ok (RLocalPref m) = range_ok (num_range m)"
| "reg_ok (RMed m) = range_ok (num_range m)"
| "reg_ok (RSamplingRate m) = range_ok (num_range m)"
| "reg_ok (RPps m) = range_ok (num_range m)"
| "reg_ok _ = True"

fun reg_holds :: "EnrichedFlow \<Rightarrow> RegularField \<Rightarrow> bool" where
  "reg_holds f (RRouter m) = ip_Equal (bytes_of (SamplerAddress f)) (the (HostAddress m))"
| "reg_holds f (RNextHop m) = ip_Equal (bytes_of (NextHop f)) (the (HostAddress m))"
| "reg_holds f (RNextHopAsn m) = (NextHopAs f = the (Asn m))"
| "reg_holds f (RBytes m) = range_holds (num_range m) (Bytes f)"
| "reg_holds f (RPackets m) = range_holds (num_range m) (Packets f)"
| "reg_holds f (RRemoteCountry m) = str_contains (RemoteCountry f) (to_upper (the (Txt m)))"
| "reg_holds f (RFlowDirection m) = (FlowDirection f = (if Txt m = Some ''incoming'' then 0 else 1))"
| "reg_holds f (RNormalized b) = (Normalized f = 1)"
| "reg_holds f (RDuration m) = range_holds (num_range m) (TimeFlowEnd f - TimeFlowStart f)"
| "reg_holds f (REtype m) = key_holds (\<lambda>n. Etype f = n) (\<lambda>n. Etype f = n) m"
| "reg_holds f (RProto m) = key_holds (\<lambda>n. Proto f = n) (\<lambda>n. Proto f = n) m"
| "reg_holds f (RStatus m) = key_holds (\<lambda>n. ForwardingStatus f = n) (\<lambda>k. ForwardingStatus f AND k = k) m"
| "reg_holds f (RTcpFlags m) = (Proto f = 6 \<and> key_holds (\<lambda>n. TcpFlags f = n) (\<lambda>k. TcpFlags f AND k = k) m)"
| "reg_holds f (RIpTos m) = range_holds (num_range m) (ucast (IpTos f))"
| "reg_holds f (RLocalPref m) = range_holds (num_range m) (ucast (LocalPref f))"
| "reg_holds f (RMed m) = range_holds (num_range m) (ucast (Med f))"
| "reg_holds f (RDscp m) = key_holds (\<lambda>n. drop_bit 2 (IpTos f) = n) (\<lambda>n. drop_bit 2 (IpTos f) = n) m"
| "reg_holds f (REcn m) = key_holds (\<lambda>n. IpTos f AND 3 = n) (\<lambda>n. IpTos f AND 3 = n) m"
| "reg_holds f (RSamplingRate m) = range_holds (num_range m) (SamplingRate f)"
| "reg_holds f (RIcmp m) = (Proto f = 1 \<and>
     (if IcmpTypeNo m \<noteq> None then ucast (the (IcmpTypeNo m)) = DstPort f div 256
      else ucast (the (IcmpCodeNo m)) = DstPort f mod 256))"
| "reg_holds f (RBps m) =
     range_holds (num_range m) (Bytes f * 8 div at_least_one (TimeFlowEnd f - TimeFlowStart f))"
| "reg_holds f (RPps m) =
     range_holds (num_range m) (Packets f div at_least_one (TimeFlowEnd f - TimeFlowStart f))"
| "reg_holds f (RPassesThrough m) = sublist (map ucast (Numbers m)) (AsPath f)"
| "reg_holds f (RRpki m) = (case Key m of None \<Rightarrow> False | Some k \<Rightarrow> ValidationStatus f = ucast k)"

text \<open>The AS path is long enough for the list to be compared with it at all.\<close>

fun reg_fits :: "EnrichedFlow \<Rightarrow> RegularField \<Rightarrow> bool" where
  "reg_fits f (RPassesThrough m) = (AsPath f \<noteq> [] \<and> length (Numbers m) \<le> length (AsPath f))"
| "reg_fits f _ = True"

section \<open>One node\<close>

lemma eval_range_holds:
  "range_wf (num_range m) \<Longrightarrow> eval_range what c m =
     Inr (map_option (\<lambda>_. bad_range what (num_range m)) (range_err (num_range m)),
          m\<lparr>EvalResult := range_holds (num_range m) c\<rparr>)"
  by (simp add: eval_range_def processNumericRange_holds)

lemma eval_dir_range_holds:
  "range_wf (dir_range m) \<Longrightarrow> eval_dir_range what cs cd m =
     Inr (map_option (\<lambda>_. bad_range what (dir_range m)) (range_err (dir_range m)),
          m\<lparr>EvalResultSrc := range_holds (dir_range m) cs, EvalResultDst := range_holds (dir_range m) cd\<rparr>)"
  by (simp add: eval_dir_range_def processNumericRange_holds)

lemma eval_key_holds:
  "Num m \<noteq> None \<or> Key m \<noteq> None \<Longrightarrow> eval_key t k m = m\<lparr>KeyResult := key_holds t k m\<rparr>"
  by (auto simp: eval_key_def key_holds_def split: option.splits)

lemma key_holds_KeyResult [simp]: "key_holds t k (m\<lparr>KeyResult := b\<rparr>) = key_holds t k m"
  by (simp add: key_holds_def split: option.split)

lemma pass_loop_False: "pass_loop ns path False \<longleftrightarrow> path \<noteq> [] \<and> sublist ns path"
proof (induction path)
  case (Cons a path)
  show ?case
  proof (cases "length (a # path) < length ns")
    case True then show ?thesis using sublist_length_le [of ns "a # path"] by auto
  next
    case False
    then have "take (length ns) (a # path) = ns \<longleftrightarrow> prefix ns (a # path)"
      by (metis append_eq_conv_conj prefix_def append_take_drop_id)
    then show ?thesis using False Cons by (auto simp: sublist_Cons_right)
  qed
qed simp

lemma pass_loop_fits:
  assumes "path \<noteq> []" "length ns \<le> length path"
  shows "pass_loop ns path b \<longleftrightarrow> sublist ns path"
proof -
  obtain a p where "path = a # p" using assms(1) by (cases path) auto
  then have "pass_loop ns path b = pass_loop ns path False" using assms(2) by auto
  then show ?thesis using pass_loop_False assms(1) by blast
qed

lemmas regular_visits =
  visit_RouterMatch_def visit_NextHopMatch_def visit_NextHopAsnMatch_def visit_ByteRangeMatch_def
  visit_PacketRangeMatch_def visit_RemoteCountryMatch_def visit_FlowDirectionMatch_def
  visit_DurationRangeMatch_def visit_EtypeMatch_def visit_ProtoMatch_def visit_StatusMatch_def
  visit_TcpFlagsMatch_def visit_IpTosRangeMatch_def visit_LocalPrefRangeMatch_def visit_MedRangeMatch_def
  visit_DscpMatch_def visit_EcnMatch_def visit_SamplingRateRangeMatch_def visit_IcmpMatch_def
  visit_BpsRangeMatch_def visit_PpsRangeMatch_def visit_PassesThroughListMatch_def visit_RpkiMatch_def
  eval_host_def

lemmas directional_visits =
  visit_AddressMatch_def visit_InterfaceMatch_def visit_PortRangeMatch_def visit_AsnRangeMatch_def
  visit_NetsizeRangeMatch_def visit_CidRangeMatch_def visit_VrfRangeMatch_def visit_IfSpeedRangeMatch_def

text \<open>Nodes that say the same of every flow; only their evaluation results may differ.\<close>

definition reg_same :: "RegularField \<Rightarrow> RegularField \<Rightarrow> bool" where
  "reg_same m m' \<longleftrightarrow> reg_wf m' = reg_wf m \<and> reg_ok m' = reg_ok m \<and>
     (\<forall>g. reg_holds g m' = reg_holds g m \<and> reg_fits g m' = reg_fits g m)"

definition dir_same :: "DirectionalField \<Rightarrow> DirectionalField \<Rightarrow> bool" where
  "dir_same m m' \<longleftrightarrow> dir_wf m' = dir_wf m \<and> dir_ok m' = dir_ok m \<and> (\<forall>g. dir_holds g m' = dir_holds g m)"

lemma visit_Regular_holds:
  assumes "reg_wf m"
  shows "\<exists>err m'. visit_Regular f m = Inr (err, m') \<and> (err = None \<longleftrightarrow> reg_ok m)
     \<and> (reg_fits f m \<longrightarrow> reg_result m' = reg_holds f m) \<and> reg_same m m'"
  using assms
  by (cases m)
    (auto simp: regular_visits eval_range_holds eval_key_holds processNumericRange_holds
      pass_loop_fits reg_same_def Let_def split: option.splits)

text \<open>The outcome of visiting a node: no panic, an error only for a bad range, and else a good node.\<close>

definition visits :: "(node \<Rightarrow> node visited) \<Rightarrow> ('a \<Rightarrow> node) \<Rightarrow> ('a \<Rightarrow> bool) \<Rightarrow> ('a \<Rightarrow> 'a \<Rightarrow> bool) \<Rightarrow> 'a \<Rightarrow> bool" where
  "visits V mk ok good x \<longleftrightarrow> (\<exists>err x'. V (mk x) = Inr (err, mk x') \<and> (err = None \<longleftrightarrow> ok x)
     \<and> (err = None \<longrightarrow> good x x'))"

lemma visit_option_visits:
  assumes "\<forall>x\<in>set_option xo. visits V mk ok good x" "\<And>x. un (mk x) = x"
  shows "\<exists>err xo'. visit_option V mk un xo = Inr (err, xo') \<and> (err = None \<longleftrightarrow> pred_option ok xo)
     \<and> (err = None \<longrightarrow> rel_option good xo xo')"
  using assms by (cases xo) (auto simp: visits_def)

lemma visit_list_visits:
  assumes "\<forall>x\<in>set xs. visits V mk ok good x" "\<And>x. un (mk x) = x"
  shows "\<exists>err xs'. visit_list V mk un xs = Inr (err, xs') \<and> (err = None \<longleftrightarrow> list_all ok xs)
     \<and> (err = None \<longrightarrow> list_all2 good xs xs')"
  using assms(1)
proof (induction xs)
  case (Cons x xs)
  obtain err x' where x: "V (mk x) = Inr (err, mk x')" "err = None \<longleftrightarrow> ok x" "err = None \<longrightarrow> good x x'"
    using Cons.prems by (auto simp: visits_def)
  obtain err2 xs' where xs: "visit_list V mk un xs = Inr (err2, xs')" "err2 = None \<longleftrightarrow> list_all ok xs"
    "err2 = None \<longrightarrow> list_all2 good xs xs'" using Cons by auto
  show ?case using x xs assms(2) by (cases err) auto
qed simp

definition reg_good :: "EnrichedFlow \<Rightarrow> RegularField \<Rightarrow> RegularField \<Rightarrow> bool" where
  "reg_good f m m' \<longleftrightarrow> (reg_fits f m \<longrightarrow> reg_result m' = reg_holds f m) \<and> reg_same m m'"

definition dir_good :: "EnrichedFlow \<Rightarrow> DirectionalField \<Rightarrow> DirectionalField \<Rightarrow> bool" where
  "dir_good f m m' \<longleftrightarrow> dir_results m' = dir_holds f m \<and> dir_same m m'"

lemma Visit_descended:
  "(\<forall>t. n \<noteq> NOther t) \<Longrightarrow> Visit f n (Inr (None, n')) = after_children f n'"
  "(\<forall>t. n \<noteq> NOther t) \<Longrightarrow> Visit f n (Inr (Some err, n')) = Inr (Some err, n')"
  by (cases n; simp add: Visit_def)+

lemma post_orderD: "post_order pv \<Longrightarrow> pv (Visit f) n = Visit f n (visit_children (pv (Visit f)) n)"
  by (simp add: post_order_def)

lemma regular_visits_good:
  assumes "post_order pv" "reg_wf m"
  shows "visits (pv (Visit f)) NRegular reg_ok (reg_good f) m"
  using visit_Regular_holds [OF assms(2), of f]
  by (auto simp: visits_def reg_good_def post_orderD [OF assms(1)] Visit_def)

lemma directional_visits_good:
  assumes "post_order pv" "dir_wf m"
  shows "visits (pv (Visit f)) NDirectional dir_ok (dir_good f) m"
proof (cases m)
  case (DInterface i)
  show ?thesis
  proof (cases "Speed i")
    case None
    then show ?thesis using assms(2) DInterface
      by (auto simp: visits_def post_orderD [OF assms(1)] Visit_def visit_InterfaceMatch_def
          dir_good_def dir_same_def iface_holds_def split: option.splits)
  next
    case (Some s)
    then have "pv (Visit f) (NIfSpeed s) = map_sum id (map_prod id NIfSpeed) (visit_IfSpeedRangeMatch f s)"
      by (simp add: post_orderD [OF assms(1)] Visit_def)
    moreover have "range_wf (dir_range s)" using assms(2) DInterface Some by simp
    ultimately show ?thesis using assms(2) DInterface Some
      by (cases "range_ok (dir_range s)")
        (auto simp: visits_def post_orderD [OF assms(1), of f "NDirectional (DInterface i)"] Visit_def visit_InterfaceMatch_def
          visit_IfSpeedRangeMatch_def eval_dir_range_holds
          dir_good_def dir_same_def iface_holds_def range_err_def split: option.splits)
  qed
qed (use assms(2) in \<open>auto simp: visits_def post_orderD [OF assms(1)] Visit_def directional_visits
       eval_dir_range_holds processNumericRange_holds dir_good_def dir_same_def addr_holds_def Let_def
       split: option.splits\<close>)

section \<open>Groups, statements and expressions\<close>

definition dir_group_wf :: "DirectionalMatchGroup \<Rightarrow> bool" where
  "dir_group_wf g \<longleftrightarrow> Direction g \<in> {None, Some ''src'', Some ''dst''} \<and> dir_fields g \<noteq> []
     \<and> (\<forall>m\<in>set (dir_fields g). dir_wf m)"

definition dir_group_ok :: "DirectionalMatchGroup \<Rightarrow> bool" where
  "dir_group_ok g \<longleftrightarrow> list_all dir_ok (dir_fields g)"

definition dir_group_holds :: "EnrichedFlow \<Rightarrow> DirectionalMatchGroup \<Rightarrow> bool" where
  "dir_group_holds f g =
     (let (any, src, dst) = dir_holds f (hd (dir_fields g)) in
      case Direction g of
        None \<Rightarrow> any \<or> src \<or> dst
      | Some d \<Rightarrow> if d = ''src'' then src else dst)"

definition reg_group_wf :: "RegularMatchGroup \<Rightarrow> bool" where
  "reg_group_wf g \<longleftrightarrow> reg_fields g \<noteq> [] \<and> (\<forall>m\<in>set (reg_fields g). reg_wf m)"

definition reg_group_ok :: "RegularMatchGroup \<Rightarrow> bool" where
  "reg_group_ok g \<longleftrightarrow> list_all reg_ok (reg_fields g)"

definition reg_group_fits :: "EnrichedFlow \<Rightarrow> RegularMatchGroup \<Rightarrow> bool" where
  "reg_group_fits f g \<longleftrightarrow> reg_fits f (hd (reg_fields g))"

definition reg_group_holds :: "EnrichedFlow \<Rightarrow> RegularMatchGroup \<Rightarrow> bool" where
  "reg_group_holds f g = reg_holds f (hd (reg_fields g))"

fun expr_wf :: "Expression \<Rightarrow> bool" and stmt_wf :: "Statement \<Rightarrow> bool" where
  "expr_wf (Expression l c r b) =
     ((c = None \<or> c \<in> {Some ''and'', Some ''or''} \<and> r \<noteq> None)
      \<and> (case l of None \<Rightarrow> True | Some s \<Rightarrow> stmt_wf s) \<and> (case r of None \<Rightarrow> True | Some e \<Rightarrow> expr_wf e))"
| "stmt_wf (Statement n d g e b) =
     ((d \<noteq> None \<or> g \<noteq> None \<or> e \<noteq> None) \<and> pred_option dir_group_wf d \<and> pred_option reg_group_wf g
      \<and> (case e of None \<Rightarrow> True | Some e \<Rightarrow> expr_wf e))"

fun expr_ok :: "Expression \<Rightarrow> bool" and stmt_ok :: "Statement \<Rightarrow> bool" where
  "expr_ok (Expression l c r b) =
     ((case l of None \<Rightarrow> True | Some s \<Rightarrow> stmt_ok s) \<and> (case r of None \<Rightarrow> True | Some e \<Rightarrow> expr_ok e))"
| "stmt_ok (Statement n d g e b) =
     (pred_option dir_group_ok d \<and> pred_option reg_group_ok g \<and> (case e of None \<Rightarrow> True | Some e \<Rightarrow> expr_ok e))"

fun expr_fits :: "EnrichedFlow \<Rightarrow> Expression \<Rightarrow> bool" and stmt_fits :: "EnrichedFlow \<Rightarrow> Statement \<Rightarrow> bool" where
  "expr_fits f (Expression l c r b) =
     ((case l of None \<Rightarrow> True | Some s \<Rightarrow> stmt_fits f s) \<and> (case r of None \<Rightarrow> True | Some e \<Rightarrow> expr_fits f e))"
| "stmt_fits f (Statement n d g e b) =
     (pred_option (reg_group_fits f) g \<and> (case e of None \<Rightarrow> True | Some e \<Rightarrow> expr_fits f e))"

fun expr_holds :: "EnrichedFlow \<Rightarrow> Expression \<Rightarrow> bool" and stmt_holds :: "EnrichedFlow \<Rightarrow> Statement \<Rightarrow> bool" where
  "expr_holds f (Expression l c r b) =
     (case l of
        None \<Rightarrow> True
      | Some s \<Rightarrow>
          let right = (case r of None \<Rightarrow> False | Some e \<Rightarrow> expr_holds f e) in
          if c = Some ''and'' then stmt_holds f s \<and> right
          else if c = Some ''or'' then stmt_holds f s \<or> right
          else stmt_holds f s)"
| "stmt_holds f (Statement n d g e b) =
     ((case d of
         Some d \<Rightarrow> dir_group_holds f d
       | None \<Rightarrow> (case g of Some g \<Rightarrow> reg_group_holds f g
                            | None \<Rightarrow> (case e of Some e \<Rightarrow> expr_holds f e | None \<Rightarrow> False)))
      \<noteq> (n = Some True))"

definition dir_group_good :: "EnrichedFlow \<Rightarrow> DirectionalMatchGroup \<Rightarrow> DirectionalMatchGroup \<Rightarrow> bool" where
  "dir_group_good f g g' \<longleftrightarrow> DirGroupResult g' = dir_group_holds f g \<and> dir_group_wf g' \<and> dir_group_ok g'
     \<and> (\<forall>h. dir_group_holds h g' = dir_group_holds h g)"

definition reg_group_good :: "EnrichedFlow \<Rightarrow> RegularMatchGroup \<Rightarrow> RegularMatchGroup \<Rightarrow> bool" where
  "reg_group_good f g g' \<longleftrightarrow> (reg_group_fits f g \<longrightarrow> RegGroupResult g' = reg_group_holds f g)
     \<and> reg_group_wf g' \<and> reg_group_ok g'
     \<and> (\<forall>h. reg_group_holds h g' = reg_group_holds h g \<and> reg_group_fits h g' = reg_group_fits h g)"

definition expr_good :: "EnrichedFlow \<Rightarrow> Expression \<Rightarrow> Expression \<Rightarrow> bool" where
  "expr_good f e e' \<longleftrightarrow> (expr_fits f e \<longrightarrow> ExprResult e' = expr_holds f e) \<and> expr_wf e' \<and> expr_ok e'
     \<and> (\<forall>h. expr_holds h e' = expr_holds h e \<and> expr_fits h e' = expr_fits h e)"

definition stmt_good :: "EnrichedFlow \<Rightarrow> Statement \<Rightarrow> Statement \<Rightarrow> bool" where
  "stmt_good f s s' \<longleftrightarrow> (stmt_fits f s \<longrightarrow> StmtResult s' = stmt_holds f s) \<and> stmt_wf s' \<and> stmt_ok s'
     \<and> (\<forall>h. stmt_holds h s' = stmt_holds h s \<and> stmt_fits h s' = stmt_fits h s)"

lemma list_all2_hd: "list_all2 P xs ys \<Longrightarrow> xs \<noteq> [] \<Longrightarrow> ys \<noteq> [] \<and> P (hd xs) (hd ys)"
  by (cases xs; cases ys) auto

lemma list_all2_all:
  "list_all2 P xs ys \<Longrightarrow> (\<And>x y. P x y \<Longrightarrow> Q x \<Longrightarrow> Q y) \<Longrightarrow> \<forall>x\<in>set xs. Q x \<Longrightarrow> \<forall>y\<in>set ys. Q y"
  by (induction rule: list_all2_induct) auto

lemma dir_group_visits:
  assumes "post_order pv" "dir_group_wf g"
  shows "visits (pv (Visit f)) NDirectionalMatchGroup dir_group_ok (dir_group_good f) g"
proof -
  have "\<forall>m\<in>set (dir_fields g). visits (pv (Visit f)) NDirectional dir_ok (dir_good f) m"
    using directional_visits_good [OF assms(1)] assms(2) by (simp add: dir_group_wf_def)
  from visit_list_visits [OF this, of un_Directional] obtain err ms where
    v: "visit_list (pv (Visit f)) NDirectional un_Directional (dir_fields g) = Inr (err, ms)"
      "err = None \<longleftrightarrow> list_all dir_ok (dir_fields g)" "err = None \<longrightarrow> list_all2 (dir_good f) (dir_fields g) ms"
    by auto
  have pv: "pv (Visit f) (NDirectionalMatchGroup g) =
     (case err of None \<Rightarrow> Inr (None, NDirectionalMatchGroup (visit_DirectionalMatchGroup (g\<lparr>dir_fields := ms\<rparr>)))
      | Some e \<Rightarrow> Inr (Some e, NDirectionalMatchGroup (g\<lparr>dir_fields := ms\<rparr>)))"
    using v(1) by (simp add: post_orderD [OF assms(1), of f "NDirectionalMatchGroup g"] Visit_def split: option.split)
  show ?thesis
  proof (cases err)
    case None
    then have l: "list_all2 (dir_good f) (dir_fields g) ms" using v by simp
    have "dir_fields g \<noteq> []" using assms(2) by (simp add: dir_group_wf_def)
    from list_all2_hd [OF l this] obtain m ms' where m: "ms = m # ms'" "dir_good f (hd (dir_fields g)) m"
      by (cases ms) auto
    have wf: "\<forall>m\<in>set ms. dir_wf m" and ok: "\<forall>m\<in>set ms. dir_ok m"
      using list_all2_all [OF l, of dir_wf] list_all2_all [OF l, of dir_ok] None v(2) assms(2)
      by (auto simp: dir_good_def dir_same_def dir_group_wf_def list_all_iff)
    have "dir_group_good f g (visit_DirectionalMatchGroup (g\<lparr>dir_fields := ms\<rparr>))"
      using assms(2) m wf ok
      by (cases "Direction g") (auto simp: dir_group_good_def visit_DirectionalMatchGroup_def dir_group_holds_def
          dir_group_wf_def dir_group_ok_def dir_good_def dir_same_def list_all_iff split: prod.splits)
    then show ?thesis using None v(2) pv by (auto simp: visits_def dir_group_ok_def)
  qed (use v(2) pv in \<open>auto simp: visits_def dir_group_ok_def\<close>)
qed

lemma reg_group_visits:
  assumes "post_order pv" "reg_group_wf g"
  shows "visits (pv (Visit f)) NRegularMatchGroup reg_group_ok (reg_group_good f) g"
proof -
  have "\<forall>m\<in>set (reg_fields g). visits (pv (Visit f)) NRegular reg_ok (reg_good f) m"
    using regular_visits_good [OF assms(1)] assms(2) by (simp add: reg_group_wf_def)
  from visit_list_visits [OF this, of un_Regular] obtain err ms where
    v: "visit_list (pv (Visit f)) NRegular un_Regular (reg_fields g) = Inr (err, ms)"
      "err = None \<longleftrightarrow> list_all reg_ok (reg_fields g)" "err = None \<longrightarrow> list_all2 (reg_good f) (reg_fields g) ms"
    by auto
  have pv: "pv (Visit f) (NRegularMatchGroup g) =
     (case err of None \<Rightarrow> Inr (None, NRegularMatchGroup (visit_RegularMatchGroup (g\<lparr>reg_fields := ms\<rparr>)))
      | Some e \<Rightarrow> Inr (Some e, NRegularMatchGroup (g\<lparr>reg_fields := ms\<rparr>)))"
    using v(1) by (simp add: post_orderD [OF assms(1), of f "NRegularMatchGroup g"] Visit_def split: option.split)
  show ?thesis
  proof (cases err)
    case None
    then have l: "list_all2 (reg_good f) (reg_fields g) ms" using v by simp
    have "reg_fields g \<noteq> []" using assms(2) by (simp add: reg_group_wf_def)
    from list_all2_hd [OF l this] obtain m ms' where m: "ms = m # ms'" "reg_good f (hd (reg_fields g)) m"
      by (cases ms) auto
    have wf: "\<forall>m\<in>set ms. reg_wf m" and ok: "\<forall>m\<in>set ms. reg_ok m"
      using list_all2_all [OF l, of reg_wf] list_all2_all [OF l, of reg_ok] None v(2) assms(2)
      by (auto simp: reg_good_def reg_same_def reg_group_wf_def list_all_iff)
    have "reg_group_good f g (visit_RegularMatchGroup (g\<lparr>reg_fields := ms\<rparr>))"
      using m wf ok
      by (auto simp: reg_group_good_def visit_RegularMatchGroup_def reg_group_holds_def reg_group_fits_def
          reg_group_wf_def reg_group_ok_def reg_good_def reg_same_def list_all_iff)
    then show ?thesis using None v(2) pv by (auto simp: visits_def reg_group_ok_def)
  qed (use v(2) pv in \<open>auto simp: visits_def reg_group_ok_def\<close>)
qed

lemma rel_option_cases:
  "rel_option R x y \<longleftrightarrow> (x = None \<and> y = None) \<or> (\<exists>a b. x = Some a \<and> y = Some b \<and> R a b)"
  by (cases x; cases y) auto

lemma visit_Expression_good:
  assumes "expr_wf (Expression l c r b)" "rel_option (stmt_good f) l l'" "rel_option (expr_good f) r r'"
  shows "\<exists>e'. visit_Expression (Expression l' c r' b) = Inr e' \<and> expr_good f (Expression l c r b) e'"
proof (cases l)
  case None
  then have "l' = None" using assms(2) by simp
  then show ?thesis using assms(1,3) None
    by (cases r; cases r') (simp_all add: visit_Expression_def expr_good_def)
next
  case (Some s)
  then obtain s' where s: "l' = Some s'" "stmt_good f s s'" using assms(2) by (auto simp: rel_option_cases)
  show ?thesis
  proof (cases r)
    case None
    then have "r' = None" "c = None" using assms(1,3) by simp_all
    then show ?thesis using assms(1) Some None s
      by (simp add: visit_Expression_def expr_good_def stmt_good_def)
  next
    case (Some e)
    then obtain e' where e: "r' = Some e'" "expr_good f e e'" using assms(3) by (auto simp: rel_option_cases)
    consider "c = None" | "c = Some ''and''" | "c = Some ''or''" using assms(1) by auto
    then show ?thesis using assms(1) \<open>l = Some s\<close> Some s e
      by cases (cases "StmtResult s'"; simp add: visit_Expression_def expr_good_def stmt_good_def Let_def)+
  qed
qed

lemma visit_Statement_good:
  assumes "stmt_wf (Statement n d g e b)" "rel_option (dir_group_good f) d d'" "rel_option (reg_group_good f) g g'"
    "rel_option (expr_good f) e e'"
  shows "stmt_good f (Statement n d g e b) (visit_Statement (Statement n d' g' e' b))"
  using assms
  by (cases d; cases d'; cases g; cases g'; cases e; cases e')
    (simp_all add: visit_Statement_def expr_good_def stmt_good_def dir_group_good_def
      reg_group_good_def Let_def)

lemma expression_visits:
  assumes po: "post_order pv"
  shows "expr_wf e \<Longrightarrow> visits (pv (Visit f)) NExpression expr_ok (expr_good f) e"
    and "stmt_wf s \<Longrightarrow> visits (pv (Visit f)) NStatement stmt_ok (stmt_good f) s"
proof (induction e and s)
  case (Expression l c r b)
  let ?V = "pv (Visit f)"
  have "\<forall>s\<in>set_option l. visits ?V NStatement stmt_ok (stmt_good f) s"
    using Expression by (auto split: option.splits)
  from visit_option_visits [OF this, of un_Statement] obtain el l' where
    l: "visit_option ?V NStatement un_Statement l = Inr (el, l')" "el = None \<longleftrightarrow> pred_option stmt_ok l"
      "el = None \<longrightarrow> rel_option (stmt_good f) l l'" by auto
  have "\<forall>e\<in>set_option r. visits ?V NExpression expr_ok (expr_good f) e"
    using Expression by (auto split: option.splits)
  from visit_option_visits [OF this, of un_Expression] obtain er r' where
    r: "visit_option ?V NExpression un_Expression r = Inr (er, r')" "er = None \<longleftrightarrow> pred_option expr_ok r"
      "er = None \<longrightarrow> rel_option (expr_good f) r r'" by auto
  have ok: "expr_ok (Expression l c r b) \<longleftrightarrow> el = None \<and> er = None"
    using l(2) r(2) by (auto split: option.splits)
  show ?case
  proof (cases "el = None \<and> er = None")
    case True
    then obtain e' where "visit_Expression (Expression l' c r' b) = Inr e'" "expr_good f (Expression l c r b) e'"
      using visit_Expression_good [OF Expression.prems, of f l' r'] l(3) r(3) by auto
    then show ?thesis using True ok l(1) r(1)
      by (simp add: visits_def post_orderD [OF po, of f "NExpression (Expression l c r b)"] Visit_descended and_then_def)
  next
    case False
    then show ?thesis using ok l(1) r(1)
      by (cases el; cases er)
        (auto simp: visits_def post_orderD [OF po, of f "NExpression (Expression l c r b)"] Visit_descended and_then_def)
  qed
next
  case (Statement n d g e b)
  let ?V = "pv (Visit f)"
  have "\<forall>x\<in>set_option d. visits ?V NDirectionalMatchGroup dir_group_ok (dir_group_good f) x"
    using Statement.prems dir_group_visits [OF po] by (cases d) auto
  from visit_option_visits [OF this, of un_DirGroup] obtain ed d' where
    d: "visit_option ?V NDirectionalMatchGroup un_DirGroup d = Inr (ed, d')" "ed = None \<longleftrightarrow> pred_option dir_group_ok d"
      "ed = None \<longrightarrow> rel_option (dir_group_good f) d d'" by auto
  have "\<forall>x\<in>set_option g. visits ?V NRegularMatchGroup reg_group_ok (reg_group_good f) x"
    using Statement.prems reg_group_visits [OF po] by (cases g) auto
  from visit_option_visits [OF this, of un_RegGroup] obtain eg g' where
    g: "visit_option ?V NRegularMatchGroup un_RegGroup g = Inr (eg, g')" "eg = None \<longleftrightarrow> pred_option reg_group_ok g"
      "eg = None \<longrightarrow> rel_option (reg_group_good f) g g'" by auto
  have "\<forall>x\<in>set_option e. visits ?V NExpression expr_ok (expr_good f) x"
    using Statement by (auto split: option.splits)
  from visit_option_visits [OF this, of un_Expression] obtain ee e' where
    e: "visit_option ?V NExpression un_Expression e = Inr (ee, e')" "ee = None \<longleftrightarrow> pred_option expr_ok e"
      "ee = None \<longrightarrow> rel_option (expr_good f) e e'" by auto
  have ok: "stmt_ok (Statement n d g e b) \<longleftrightarrow> ed = None \<and> eg = None \<and> ee = None"
    using d(2) g(2) e(2) by (auto split: option.splits)
  show ?case
  proof (cases "ed = None \<and> eg = None \<and> ee = None")
    case True
    then have "stmt_good f (Statement n d g e b) (visit_Statement (Statement n d' g' e' b))"
      using visit_Statement_good [OF Statement.prems, of f d' g' e'] d(3) g(3) e(3) by blast
    then show ?thesis using True ok d(1) g(1) e(1)
      by (simp add: visits_def post_orderD [OF po, of f "NStatement (Statement n d g e b)"] Visit_descended and_then_def)
  next
    case False
    then show ?thesis using ok d(1) g(1) e(1)
      by (cases ed; cases eg; cases ee)
        (auto simp: visits_def post_orderD [OF po, of f "NStatement (Statement n d g e b)"] Visit_descended and_then_def)
  qed
qed

lemma CheckFlow_visits:
  assumes "post_order pv" "expr_wf e"
  obtains e' err b where "CheckFlow pv e f = Inr (b, err, e')" "err = None \<longleftrightarrow> expr_ok e"
    "err = None \<longrightarrow> expr_good f e e' \<and> (expr_fits f e \<longrightarrow> b = expr_holds f e)"
  using expression_visits(1) [OF assms, of f] that
  by (auto simp: visits_def CheckFlow_def expr_good_def)

section \<open>A traversal\<close>

text \<open>The assumption on \<open>parser.Visit\<close> can be met: this traversal meets it.\<close>

fun sub_nodes :: "node \<Rightarrow> node set" where
  "sub_nodes (NExpression (Expression l c r b)) = NStatement ` set_option l \<union> NExpression ` set_option r"
| "sub_nodes (NStatement (Statement n d g e b)) =
     NDirectionalMatchGroup ` set_option d \<union> NRegularMatchGroup ` set_option g \<union> NExpression ` set_option e"
| "sub_nodes (NDirectionalMatchGroup g) = NDirectional ` set (dir_fields g)"
| "sub_nodes (NRegularMatchGroup g) = NRegular ` set (reg_fields g)"
| "sub_nodes (NDirectional (DInterface m)) = NIfSpeed ` set_option (Speed m)"
| "sub_nodes n = {}"

lemma visit_list_cong:
  "(\<And>x. x \<in> set xs \<Longrightarrow> V (mk x) = W (mk x)) \<Longrightarrow> visit_list V mk un xs = visit_list W mk un xs"
  by (induction xs) (auto split: sum.splits option.splits)

lemma visit_children_cong [fundef_cong]:
  assumes "n = n'" "\<And>m. m \<in> sub_nodes n' \<Longrightarrow> V m = W m"
  shows "visit_children V n = visit_children W n'"
  using assms(2) unfolding assms(1)
proof (cases n' rule: sub_nodes.cases)
  case (1 l c r b)
  then show "visit_children V n' = visit_children W n'" using assms(2) by (cases l; cases r) simp_all
next
  case (2 n d g e b)
  then show "visit_children V n' = visit_children W n'" using assms(2) by (cases d; cases g; cases e) simp_all
next
  case (5 m)
  then show "visit_children V n' = visit_children W n'" using assms(2) by (cases "Speed m") simp_all
qed (simp_all add: visit_list_cong [of _ V _ W] image_iff)

fun rank :: "node \<Rightarrow> nat" where
  "rank (NExpression e) = size e + 3"
| "rank (NStatement s) = size s + 3"
| "rank (NDirectionalMatchGroup g) = 2"
| "rank (NRegularMatchGroup g) = 2"
| "rank (NDirectional m) = 1"
| "rank n = 0"

lemma sub_nodes_rank: "m \<in> sub_nodes n \<Longrightarrow> rank m < rank n"
  by (induction n rule: sub_nodes.induct) (auto simp: elem_set)

function walk :: "(node \<Rightarrow> node visited \<Rightarrow> node visited) \<Rightarrow> node \<Rightarrow> node visited" where
  "walk v n = v n (visit_children (walk v) n)"
  by pat_completeness auto
termination
  by (relation "measure (rank \<circ> snd)") (auto simp: sub_nodes_rank)

declare walk.simps [simp del]

lemma walk_post_order: "post_order walk"
  unfolding post_order_def by (subst walk.simps) simp

section \<open>The segment\<close>

definition validated :: "FlowFilter \<Rightarrow> bool" where
  "validated s \<longleftrightarrow> expr_wf (expression s) \<and> expr_ok (expression s)"

lemma FlowFilter_step_eq:
  assumes "post_order pv" "validated s"
  obtains b s' where "FlowFilter_step pv s m = Inr (if b then [Out m] else send_drop (Drops s) m, s')"
    "expr_fits m (expression s) \<longrightarrow> b = expr_holds m (expression s)"
    "validated s'" "Drops s' = Drops s" "\<forall>h. expr_holds h (expression s') = expr_holds h (expression s)"
    "\<forall>h. expr_fits h (expression s') = expr_fits h (expression s)"
proof -
  have v: "expr_wf (expression s)" "expr_ok (expression s)" using assms(2) by (simp_all add: validated_def)
  from CheckFlow_visits [OF assms(1) v(1), of m] obtain b err e' where
    c: "CheckFlow pv (expression s) m = Inr (b, err, e')" "err = None \<longleftrightarrow> expr_ok (expression s)"
      "err = None \<longrightarrow> expr_good m (expression s) e' \<and> (expr_fits m (expression s) \<longrightarrow> b = expr_holds m (expression s))"
    by blast
  then have g: "expr_good m (expression s) e'" "expr_fits m (expression s) \<longrightarrow> b = expr_holds m (expression s)"
    using v(2) by blast+
  show thesis
    by (rule that [of b "s\<lparr>expression := e'\<rparr>"])
      (use c g in \<open>auto simp: FlowFilter_step_def validated_def expr_good_def\<close>)
qed

interpretation flowfilter: filter_segment "FlowFilter_step pv" Drops "\<lambda>s. post_order pv \<and> validated s" for pv
proof
  fix s m es s' assume a: "post_order pv \<and> validated s"
  then obtain b s1 where 1: "FlowFilter_step pv s m = Inr (if b then [Out m] else send_drop (Drops s) m, s1)"
    "validated s1" "Drops s1 = Drops s" using FlowFilter_step_eq [of pv s m] by metis
  then show "\<exists>s'. FlowFilter_step pv s m \<in> {Inr ([Out m], s'), Inr (send_drop (Drops s) m, s')}" by auto
  assume "FlowFilter_step pv s m = Inr (es, s')"
  then show "(post_order pv \<and> validated s') \<and> Drops s' = Drops s" using 1 a by auto
qed

text \<open>
  C3. The visitor computes the meaning of the filter expression: on a well-formed expression
  without inverted ranges, \<open>CheckFlow\<close> neither panics nor reports an error, and its result is
  what the expression says of the flow, whatever earlier flows left in the tree, as long as for
  every \<open>passes-through\<close> list in it the AS path is not empty and at least as long as the list. The expression keeps its meaning.
\<close>

theorem CheckFlow_correct:
  assumes "post_order parser_Visit" "expr_wf e" "expr_ok e" "expr_fits f e"
  shows "\<exists>e'. CheckFlow parser_Visit e f = Inr (expr_holds f e, None, e')
     \<and> expr_wf e' \<and> expr_ok e' \<and> (\<forall>h. expr_holds h e' = expr_holds h e)"
proof -
  from CheckFlow_visits [OF assms(1,2), of f] obtain e' err b where
    "CheckFlow parser_Visit e f = Inr (b, err, e')" "err = None \<longleftrightarrow> expr_ok e"
    "err = None \<longrightarrow> expr_good f e e' \<and> (expr_fits f e \<longrightarrow> b = expr_holds f e)" by blast
  then show ?thesis using assms(3,4) by (auto simp: expr_good_def)
qed

text \<open>The filter expression \<open>proto 6\<close>.\<close>

definition proto6 :: Expression where
  "proto6 = Expression (Some (Statement None None
     (Some \<lparr>reg_fields = [RProto \<lparr>Num = Some 6, Key = None, KeyResult = False\<rparr>], RegGroupResult = False\<rparr>)
     None False)) None None False"

lemma proto6_facts:
  "expr_wf proto6" "expr_ok proto6" "expr_fits f proto6" "expr_holds f proto6 \<longleftrightarrow> Proto f = 6"
  by (simp_all add: proto6_def reg_group_wf_def reg_group_ok_def reg_group_fits_def reg_group_holds_def key_holds_def)

theorem CheckFlow_correct_witness:
  "\<exists>e'. CheckFlow walk proto6 (zero_flow\<lparr>Proto := 6\<rparr>) = Inr (True, None, e')
     \<and> expr_wf e' \<and> expr_ok e' \<and> (\<forall>h. expr_holds h e' = expr_holds h proto6)"
  using CheckFlow_correct [OF walk_post_order, of proto6 "zero_flow\<lparr>Proto := 6\<rparr>"]
  by (simp add: proto6_facts)

text \<open>
  \<open>New\<close> validates: for a filter that parses it yields a segment exactly when the expression
  has no inverted range (other than one on \<open>bps\<close>), and else the nil segment; it does not panic.
\<close>

theorem FlowFilter_New_validates:
  assumes "post_order parser_Visit" "parser_Parse (cfg config ''filter'') = Some e" "expr_wf e"
  shows "\<exists>r. FlowFilter_New parser_Visit parser_Parse config = Inr r \<and> (r \<noteq> None \<longleftrightarrow> expr_ok e)"
proof -
  from CheckFlow_visits [OF assms(1,3), of zero_flow] obtain e' err b where
    "CheckFlow parser_Visit e zero_flow = Inr (b, err, e')" "err = None \<longleftrightarrow> expr_ok e" by blast
  then show ?thesis using assms(2) by (cases err) (auto simp: FlowFilter_New_def)
qed

theorem FlowFilter_New_validates_witness:
  "\<exists>r. FlowFilter_New walk [''proto 6'' \<mapsto> proto6] [''filter'' \<mapsto> ''proto 6''] = Inr r \<and> (r \<noteq> None \<longleftrightarrow> expr_ok proto6)"
  by (rule FlowFilter_New_validates [OF walk_post_order]) (simp_all add: proto6_facts cfg_def)

lemma FlowFilter_New_validated:
  assumes "post_order pv" "pp (cfg config ''filter'') = Some e" "expr_wf e"
    "FlowFilter_New pv pp config = Inr (Some s)"
  shows "validated s" "\<forall>h. expr_holds h (expression s) = expr_holds h e"
    "\<forall>h. expr_fits h (expression s) = expr_fits h e"
proof -
  from CheckFlow_visits [OF assms(1,3), of zero_flow] obtain e' err b where
    c: "CheckFlow pv e zero_flow = Inr (b, err, e')" "err = None \<longrightarrow> expr_good zero_flow e e'" by blast
  then have "err = None" "s = \<lparr>expression = e', Drops = False\<rparr>"
    using assms(2,4) by (cases err; simp add: FlowFilter_New_def)+
  then show "validated s" "\<forall>h. expr_holds h (expression s) = expr_holds h e"
    "\<forall>h. expr_fits h (expression s) = expr_fits h e"
    using c(2) by (auto simp: validated_def expr_good_def)
qed

lemma flowfilter_run:
  assumes "post_order pv" "validated s" "\<forall>m\<in>set ms. expr_fits m (expression s)"
  shows "\<exists>es s'. run_loop (FlowFilter_step pv) s ms = Inr (es, s')
     \<and> outs es = filter (\<lambda>m. expr_holds m (expression s)) ms
     \<and> drops es = (if Drops s then filter (\<lambda>m. \<not> expr_holds m (expression s)) ms else [])"
  using assms(2,3)
proof (induction ms arbitrary: s)
  case (Cons m ms)
  from FlowFilter_step_eq [OF assms(1) Cons.prems(1), of m] obtain b s1 where
    1: "FlowFilter_step pv s m = Inr (if b then [Out m] else send_drop (Drops s) m, s1)"
      "b = expr_holds m (expression s)" "validated s1" "Drops s1 = Drops s"
      "\<forall>h. expr_holds h (expression s1) = expr_holds h (expression s)"
      "\<forall>h. expr_fits h (expression s1) = expr_fits h (expression s)"
    using Cons.prems(2) by auto
  moreover have "\<forall>m\<in>set ms. expr_fits m (expression s1)" using Cons.prems(2) 1(6) by simp
  from Cons.IH [OF 1(3) this] obtain es s' where "run_loop (FlowFilter_step pv) s1 ms = Inr (es, s')"
    "outs es = filter (\<lambda>m. expr_holds m (expression s1)) ms"
    "drops es = (if Drops s1 then filter (\<lambda>m. \<not> expr_holds m (expression s1)) ms else [])" by blast
  ultimately show ?case by auto
qed simp

text \<open>
  C4. A running \<open>flowfilter\<close> that \<open>New\<close> accepted, on a well-formed expression and on flows whose AS path
  is not empty and at least as long as each of its \<open>passes-through\<close> lists (if it has one): it passes on exactly the flows the
  expression holds for, in order, and sends exactly the others to the drop channel when a branch
  subscribed to it. On a flow with a shorter AS path the answer may be that of an earlier flow.
\<close>

theorem flowfilter_selects:
  assumes "post_order parser_Visit" "parser_Parse (cfg config ''filter'') = Some e" "expr_wf e"
    and "FlowFilter_New parser_Visit parser_Parse config = Inr (Some s)" "\<forall>m\<in>set ms. expr_fits m e"
  shows "\<exists>es s'. run_loop (FlowFilter_step parser_Visit) (s\<lparr>Drops := sub\<rparr>) ms = Inr (es, s')
     \<and> outs es = filter (\<lambda>m. expr_holds m e) ms
     \<and> drops es = (if sub then filter (\<lambda>m. \<not> expr_holds m e) ms else [])"
proof -
  note n = FlowFilter_New_validated [OF assms(1-4)]
  have "validated (s\<lparr>Drops := sub\<rparr>)" "\<forall>m\<in>set ms. expr_fits m (expression (s\<lparr>Drops := sub\<rparr>))"
    using n(1,3) assms(5) by (simp_all add: validated_def)
  from flowfilter_run [OF assms(1) this] n(2) show ?thesis by (cases sub) simp_all
qed

lemma FlowFilter_New_proto6:
  "\<exists>s. FlowFilter_New walk [''proto 6'' \<mapsto> proto6] [''filter'' \<mapsto> ''proto 6''] = Inr (Some s)"
proof -
  obtain e' err b where "CheckFlow walk proto6 zero_flow = Inr (b, err, e')" "err = None \<longleftrightarrow> expr_ok proto6"
    using CheckFlow_visits [OF walk_post_order proto6_facts(1)] by metis
  then show ?thesis by (simp add: FlowFilter_New_def cfg_def proto6_facts)
qed

theorem flowfilter_selects_witness:
  "\<exists>s es s'. run_loop (FlowFilter_step walk) (s\<lparr>Drops := True\<rparr>)
       [zero_flow, zero_flow\<lparr>Proto := 6\<rparr>, zero_flow\<lparr>Proto := 17\<rparr>] = Inr (es, s')
     \<and> outs es = [zero_flow\<lparr>Proto := 6\<rparr>] \<and> drops es = [zero_flow, zero_flow\<lparr>Proto := 17\<rparr>]"
proof -
  let ?ms = "[zero_flow, zero_flow\<lparr>Proto := 6\<rparr>, zero_flow\<lparr>Proto := 17\<rparr>]"
  obtain s where s: "FlowFilter_New walk [''proto 6'' \<mapsto> proto6] [''filter'' \<mapsto> ''proto 6''] = Inr (Some s)"
    using FlowFilter_New_proto6 by blast
  have "\<exists>es s'. run_loop (FlowFilter_step walk) (s\<lparr>Drops := True\<rparr>) ?ms = Inr (es, s')
     \<and> outs es = filter (\<lambda>m. expr_holds m proto6) ?ms
     \<and> drops es = (if True then filter (\<lambda>m. \<not> expr_holds m proto6) ?ms else [])"
    by (rule flowfilter_selects [OF walk_post_order _ proto6_facts(1) s]) (simp_all add: proto6_facts cfg_def)
  moreover have "Proto zero_flow = 0" by (simp add: zero_flow_def)
  ultimately show ?thesis by (auto simp: proto6_facts)
qed

text \<open>
  No flow is lost or duplicated by a filter with a subscriber, and none is sent to a drop
  channel nobody reads; the passed flows keep their order. This holds for every input, also
  where the result of a \<open>passes-through\<close> condition is stale.
\<close>

theorem flowfilter_conserves:
  assumes "post_order parser_Visit" "validated s"
  shows "\<exists>es s'. run_loop (FlowFilter_step parser_Visit) s ms = Inr (es, s') \<and> subseq (outs es) ms
     \<and> (if Drops s then mset (outs es) + mset (drops es) = mset ms else drops es = [])"
proof -
  have i: "post_order parser_Visit \<and> validated s" using assms by simp
  obtain es s' where r: "run_loop (FlowFilter_step parser_Visit) s ms = Inr (es, s')"
    using flowfilter.run_total [OF i] by blast
  show ?thesis
    using r flowfilter.run_subseq [OF i r] flowfilter.run_conserves [OF i _ r] flowfilter.run_silent [OF i _ r]
    by auto
qed

theorem flowfilter_conserves_witness:
  "\<exists>es s'. run_loop (FlowFilter_step walk) \<lparr>expression = proto6, Drops = True\<rparr> [zero_flow, zero_flow] = Inr (es, s')
     \<and> mset (outs es) + mset (drops es) = mset [zero_flow, zero_flow]"
  using flowfilter_conserves [OF walk_post_order, of "\<lparr>expression = proto6, Drops = True\<rparr>" "[zero_flow, zero_flow]"]
  by (auto simp: validated_def proto6_facts)

text \<open>The filter expression \<open>passes-through 1\<close>.\<close>

definition passes_1 :: Expression where
  "passes_1 = Expression (Some (Statement None None
     (Some \<lparr>reg_fields = [RPassesThrough \<lparr>Numbers = [1], PassesResult = False\<rparr>], RegGroupResult = False\<rparr>)
     None False)) None None False"

text \<open>
  A \<open>passes-through\<close> condition is not evaluated on a flow whose AS path is shorter than its
  list: the result of the previous flow is used again. After a flow that passed through AS 1,
  the filter lets a flow without any AS path through, although the condition does not hold.
\<close>

theorem passes_through_stale:
  assumes "post_order parser_Visit"
  shows "\<exists>s'. run_loop (FlowFilter_step parser_Visit) \<lparr>expression = passes_1, Drops = False\<rparr>
           [zero_flow, zero_flow\<lparr>AsPath := [1]\<rparr>, zero_flow] = Inr ([Out (zero_flow\<lparr>AsPath := [1]\<rparr>), Out zero_flow], s')
         \<and> \<not> expr_holds zero_flow passes_1"
proof -
  define pe where "pe = (\<lambda>a b c d. Expression (Some (Statement None None
     (Some \<lparr>reg_fields = [RPassesThrough \<lparr>Numbers = [1], PassesResult = a\<rparr>], RegGroupResult = b\<rparr>) None c)) None None d)"
  have z: "AsPath zero_flow = []" by (simp add: zero_flow_def)
  have p: "parser_Visit (Visit f) n = Visit f n (visit_children (parser_Visit (Visit f)) n)" for f n
    using assms by (simp add: post_order_def)
  have c: "CheckFlow parser_Visit (pe a b c d) f =
      Inr (pass_loop [1] (AsPath f) a, None,
           pe (pass_loop [1] (AsPath f) a) (pass_loop [1] (AsPath f) a) (pass_loop [1] (AsPath f) a)
              (pass_loop [1] (AsPath f) a))" for a b c d f
    by (simp add: CheckFlow_def pe_def p [of f "NExpression _"] p [of f "NStatement _"] p [of f "NRegularMatchGroup _"]
        p [of f "NRegular _"] Visit_descended and_then_def visit_PassesThroughListMatch_def
        visit_RegularMatchGroup_def visit_Statement_def visit_Expression_def)
  have st: "FlowFilter_step parser_Visit \<lparr>expression = pe a b c d, Drops = False\<rparr> f =
      (let r = pass_loop [1] (AsPath f) a in
       Inr (if r then [Out f] else [], \<lparr>expression = pe r r r r, Drops = False\<rparr>))" for a b c d f
    by (simp add: FlowFilter_step_def c send_drop_def Let_def)
  have e: "passes_1 = pe False False False False" by (simp add: passes_1_def pe_def)
  have "\<not> expr_holds zero_flow passes_1" by (simp add: passes_1_def z reg_group_holds_def)
  then show ?thesis unfolding e by (simp add: st z)
qed

theorem passes_through_stale_witness:
  "\<exists>s'. run_loop (FlowFilter_step walk) \<lparr>expression = passes_1, Drops = False\<rparr>
      [zero_flow, zero_flow\<lparr>AsPath := [1]\<rparr>, zero_flow] = Inr ([Out (zero_flow\<lparr>AsPath := [1]\<rparr>), Out zero_flow], s')"
  using passes_through_stale [OF walk_post_order] by blast

end
