(* ===== verification/PrefixLists.thy ===== *)
theory PrefixLists
  imports FlowMessage GoNet Segments
begin

text \<open>
  The segments that match addresses against a list of prefixes: \<open>addcid\<close>, \<open>addnetid\<close> and
  \<open>remoteaddress\<close> (\<open>segments/modify\<close>). The prefix trie comes from the package
  \<open>ip_prefix_trie\<close>: a trie is the list of its \<open>Insert\<close> calls, value and prefix, in order, and
  \<open>Lookup\<close> is a parameter of the steps. Reading the CSV file is a parameter too: the list of
  what \<open>csv.Reader.Read\<close> gives until the end of the file, \<open>None\<close> for a line that is not CSV.
\<close>

section \<open>Reading a prefix list\<close>

datatype family = V4 | V6

text \<open>The loop over the bytes of a prefix: the first dot or colon decides.\<close>

fun detect_family :: "string \<Rightarrow> family option" where
  "detect_family [] = None"
| "detect_family (c # s) =
     (if c = CHR ''.'' then Some V4 else if c = CHR '':'' then Some V6 else detect_family s)"

type_synonym 'v trie = "('v \<times> string) list"

text \<open>One row; \<open>id_of\<close> turns the second column into the value to insert, or skips the row.\<close>

definition insert_row :: "(string \<Rightarrow> 'v option) \<Rightarrow> string list \<Rightarrow> 'v trie \<times> 'v trie \<Rightarrow> ('v trie \<times> 'v trie) outcome" where
  "insert_row id_of row tries =
     (if length row < 2 then Inl (Panic ''index out of range'')
      else case id_of (row ! 1) of
             None \<Rightarrow> Inr tries
           | Some v \<Rightarrow>
               (case detect_family (row ! 0) of
                  Some V4 \<Rightarrow> Inr (fst tries @ [(v, row ! 0)], snd tries)
                | Some V6 \<Rightarrow> Inr (fst tries, snd tries @ [(v, row ! 0)])
                | None \<Rightarrow> Inr tries))"

fun read_rows :: "(string \<Rightarrow> 'v option) \<Rightarrow> string list option list \<Rightarrow> 'v trie \<times> 'v trie \<Rightarrow> ('v trie \<times> 'v trie) outcome" where
  "read_rows id_of [] tries = Inr tries"
| "read_rows id_of (None # rows) tries = read_rows id_of rows tries"
| "read_rows id_of (Some row # rows) tries =
     (case insert_row id_of row tries of Inl p \<Rightarrow> Inl p | Inr tries' \<Rightarrow> read_rows id_of rows tries')"

text \<open>The trie a segment asks for an address: by the family of the address itself.\<close>

definition trie_for :: "u8 list \<Rightarrow> 'v trie \<times> 'v trie \<Rightarrow> 'v trie" where
  "trie_for ip tries = (if ip_To4 ip = None then snd tries else fst tries)"

section \<open>addcid\<close>

record AddCid =
  cid_DropUnmatched :: bool
  cid_MatchBoth :: bool
  cid_tries :: "int trie \<times> int trie"

text \<open>\<open>AddCid.New\<close>, with the file name still to be read.\<close>

definition AddCid_New :: "config_map \<Rightarrow> (string \<times> AddCid) option" where
  "AddCid_New config =
     (if cfg config ''filename'' = [] then None
      else Some (cfg config ''filename'',
        \<lparr>cid_DropUnmatched = parse_bool_or_false (cfg config ''dropunmatched''),
         cid_MatchBoth = parse_bool_or_false (cfg config ''matchboth''), cid_tries = ([], [])\<rparr>))"

text \<open>\<open>readPrefixList\<close>; \<open>file = None\<close> when the file cannot be opened.\<close>

definition AddCid_readPrefixList :: "string list option list option \<Rightarrow> AddCid \<Rightarrow> AddCid outcome" where
  "AddCid_readPrefixList file s =
     (case file of
        None \<Rightarrow> Inr s
      | Some rows \<Rightarrow> map_sum id (\<lambda>t. s\<lparr>cid_tries := t\<rparr>) (read_rows (parse_int 32) rows (cid_tries s)))"

type_synonym 'v lookup = "'v trie \<Rightarrow> u8 list \<Rightarrow> 'v option"

text \<open>\<open>retCid, _ := trie.Lookup(addr).(int64); uint32(retCid)\<close>.\<close>

definition cid_of :: "int lookup \<Rightarrow> int trie \<times> int trie \<Rightarrow> byte_slice \<Rightarrow> u32" where
  "cid_of lookup tries addr =
     (let ip = bytes_of addr in
      case lookup (trie_for ip tries) ip of None \<Rightarrow> 0 | Some c \<Rightarrow> word_of_int c)"

text \<open>The local address of a flow by its \<open>RemoteAddr\<close> field; \<open>None\<close> is the default case.\<close>

definition local_address :: "EnrichedFlow \<Rightarrow> byte_slice option" where
  "local_address m =
     (if RemoteAddr m = 1 then Some (DstAddr m)
      else if RemoteAddr m = 2 then Some (SrcAddr m)
      else None)"

definition AddCid_step :: "int lookup \<Rightarrow> (AddCid, EnrichedFlow) step" where
  "AddCid_step lookup s m =
     (if \<not> cid_MatchBoth s then
        (case local_address m of
           None \<Rightarrow> Inr (if \<not> cid_DropUnmatched s then [Out m] else [], s)
         | Some laddress \<Rightarrow>
             let m = m\<lparr>Cid := cid_of lookup (cid_tries s) laddress\<rparr> in
             Inr (if cid_DropUnmatched s \<and> Cid m = 0 then [] else [Out m], s))
      else
        let m = m\<lparr>SrcCid := cid_of lookup (cid_tries s) (SrcAddr m)\<rparr>;
            m = m\<lparr>DstCid := cid_of lookup (cid_tries s) (DstAddr m)\<rparr>;
            m = (if SrcCid m = 0 \<and> DstCid m \<noteq> 0 then m\<lparr>Cid := DstCid m\<rparr>
                 else if DstCid m = 0 \<and> SrcCid m \<noteq> 0 then m\<lparr>Cid := SrcCid m\<rparr>
                 else m)
        in Inr ([Out m], s))"

section \<open>addnetid\<close>

datatype netid = IdInt int | IdString string

record AddNetId =
  net_DropUnmatched :: bool
  net_MatchBoth :: bool
  net_UseIntIds :: bool
  net_tries :: "netid trie \<times> netid trie"

definition AddNetId_New :: "config_map \<Rightarrow> (string \<times> AddNetId) option" where
  "AddNetId_New config =
     (if cfg config ''filename'' = [] then None
      else Some (cfg config ''filename'',
        \<lparr>net_DropUnmatched = parse_bool_or_false (cfg config ''dropunmatched''),
         net_MatchBoth = parse_bool_or_false (cfg config ''matchboth''),
         net_UseIntIds = parse_bool_or_false (cfg config ''useintids''), net_tries = ([], [])\<rparr>))"

definition AddNetId_readPrefixList :: "string list option list option \<Rightarrow> AddNetId \<Rightarrow> AddNetId outcome" where
  "AddNetId_readPrefixList file s =
     (case file of
        None \<Rightarrow> Inr s
      | Some rows \<Rightarrow>
          map_sum id (\<lambda>t. s\<lparr>net_tries := t\<rparr>)
            (read_rows (if net_UseIntIds s then map_option IdInt \<circ> parse_int 32 else Some \<circ> IdString)
               rows (net_tries s)))"

text \<open>The type assertions \<open>.(int64)\<close> and \<open>.(string)\<close> with the zero value on failure.\<close>

definition as_u32 :: "netid option \<Rightarrow> u32" where
  "as_u32 v = (case v of Some (IdInt i) \<Rightarrow> word_of_int i | _ \<Rightarrow> 0)"

definition as_string :: "netid option \<Rightarrow> string" where
  "as_string v = (case v of Some (IdString t) \<Rightarrow> t | _ \<Rightarrow> [])"

definition netid_of :: "netid lookup \<Rightarrow> netid trie \<times> netid trie \<Rightarrow> byte_slice \<Rightarrow> netid option" where
  "netid_of lookup tries addr = (let ip = bytes_of addr in lookup (trie_for ip tries) ip)"

definition AddNetId_step :: "netid lookup \<Rightarrow> (AddNetId, EnrichedFlow) step" where
  "AddNetId_step lookup s m =
     (let ident = netid_of lookup (net_tries s) in
      if \<not> net_MatchBoth s then
        (case local_address m of
           None \<Rightarrow> Inr (if \<not> net_DropUnmatched s then [Out m] else [], s)
         | Some laddress \<Rightarrow>
             let m = (if net_UseIntIds s then m\<lparr>NetId := as_u32 (ident laddress)\<rparr>
                      else m\<lparr>NetIdString := as_string (ident laddress)\<rparr>)
             in Inr (if net_DropUnmatched s \<and> Cid m = 0 then [] else [Out m], s))
      else if net_UseIntIds s then
        let m = m\<lparr>SrcId := as_u32 (ident (SrcAddr m))\<rparr>;
            m = m\<lparr>DstId := as_u32 (ident (DstAddr m))\<rparr>
        in if SrcId m = 0 \<and> DstId m \<noteq> 0 then Inr ([Out (m\<lparr>NetId := DstId m\<rparr>)], s)
           else if DstId m = 0 \<and> SrcId m \<noteq> 0 then Inr ([Out (m\<lparr>NetId := SrcId m\<rparr>)], s)
           else if DstId m = 0 \<and> SrcId m = 0 \<and> net_DropUnmatched s then Inr ([], s)
           else Inr ([Out m], s)
      else
        let m = m\<lparr>SrcIdString := as_string (ident (SrcAddr m))\<rparr>;
            m = m\<lparr>DstIdString := as_string (ident (DstAddr m))\<rparr>
        in if SrcIdString m = [] \<and> DstIdString m \<noteq> [] then Inr ([Out (m\<lparr>NetIdString := DstIdString m\<rparr>)], s)
           else if DstIdString m = [] \<and> SrcIdString m \<noteq> [] then Inr ([Out (m\<lparr>NetIdString := SrcIdString m\<rparr>)], s)
           else if DstIdString m = [] \<and> SrcIdString m = [] then Inr ([], s)
           else Inr ([Out m], s))"

section \<open>remoteaddress\<close>

record RemoteAddress =
  ra_Policy :: string
  ra_DropUnmatched :: bool
  ra_tries :: "string trie \<times> string trie"

definition RemoteAddress_New :: "config_map \<Rightarrow> (string \<times> RemoteAddress) option" where
  "RemoteAddress_New config =
     (if cfg config ''policy'' \<notin> {''cidr'', ''border'', ''user'', ''clear''} then None
      else if cfg config ''policy'' = ''cidr'' \<and> cfg config ''filename'' = [] then None
      else Some (cfg config ''filename'',
        \<lparr>ra_Policy = cfg config ''policy'', ra_DropUnmatched = parse_bool_or_false (cfg config ''dropunmatched''),
         ra_tries = ([], [])\<rparr>))"

text \<open>
  The second column of a row is only read once a dot or colon is found in the first, so a row
  without one is skipped before it can be too short.
\<close>

definition separated :: "string list option \<Rightarrow> string list option" where
  "separated row =
     (case row of None \<Rightarrow> None | Some r \<Rightarrow> if detect_family (r ! 0) = None then None else Some r)"

definition RemoteAddress_readPrefixList :: "string list option list option \<Rightarrow> RemoteAddress \<Rightarrow> RemoteAddress outcome" where
  "RemoteAddress_readPrefixList file s =
     (case file of
        None \<Rightarrow> Inr s
      | Some rows \<Rightarrow> map_sum id (\<lambda>t. s\<lparr>ra_tries := t\<rparr>) (read_rows Some (map separated rows) (ra_tries s)))"

text \<open>
  The loop over source and destination of policy \<open>cidr\<close>. The \<open>continue\<close> under
  \<open>DropUnmatched\<close> continues this inner loop, so both cases of an unmatched address go on with
  the next address.
\<close>

fun cidr_loop :: "string lookup \<Rightarrow> string trie \<times> string trie \<Rightarrow> (nat \<times> byte_slice) list \<Rightarrow> EnrichedFlow \<Rightarrow> EnrichedFlow" where
  "cidr_loop lookup tries [] m = m"
| "cidr_loop lookup tries ((i, addr) # r) m =
     (let ip = bytes_of addr;
          ret = (case lookup (trie_for ip tries) ip of None \<Rightarrow> [] | Some t \<Rightarrow> t)
      in if ret \<noteq> [] then m\<lparr>RemoteAddr := of_nat (i + 1)\<rparr> else cidr_loop lookup tries r m)"

definition RemoteAddress_msg :: "string lookup \<Rightarrow> RemoteAddress \<Rightarrow> EnrichedFlow \<Rightarrow> EnrichedFlow" where
  "RemoteAddress_msg lookup s m =
     (if ra_Policy s = ''cidr'' then cidr_loop lookup (ra_tries s) [(0, SrcAddr m), (1, DstAddr m)] m
      else if ra_Policy s = ''border'' then
        (if FlowDirection m = 0 then m\<lparr>RemoteAddr := 1\<rparr>
         else if FlowDirection m = 1 then m\<lparr>RemoteAddr := 2\<rparr> else m)
      else if ra_Policy s = ''user'' then
        (if FlowDirection m = 0 then m\<lparr>RemoteAddr := 2\<rparr>
         else if FlowDirection m = 1 then m\<lparr>RemoteAddr := 1\<rparr> else m)
      else m\<lparr>RemoteAddr := 0\<rparr>)"

definition RemoteAddress_step :: "string lookup \<Rightarrow> (RemoteAddress, EnrichedFlow) step" where
  "RemoteAddress_step lookup = edit_step (RemoteAddress_msg lookup)"

section \<open>Properties\<close>

text \<open>The insertions a prefix list asks for in the trie of a family.\<close>

definition entries :: "(string \<Rightarrow> 'v option) \<Rightarrow> family \<Rightarrow> string list option list \<Rightarrow> 'v trie" where
  "entries id_of fam rows = List.map_filter (\<lambda>row. case row of
     Some (p # i # _) \<Rightarrow> if detect_family p = Some fam then map_option (\<lambda>v. (v, p)) (id_of i) else None
   | _ \<Rightarrow> None) rows"

lemma entries_simps [simp]:
  "entries id_of fam [] = []"
  "entries id_of fam (None # rows) = entries id_of fam rows"
  "entries id_of fam (Some (p # i # r) # rows) =
     (if detect_family p = Some fam then
        (case id_of i of None \<Rightarrow> [] | Some v \<Rightarrow> [(v, p)]) else []) @ entries id_of fam rows"
  by (auto simp: entries_def List.map_filter_def split: option.splits)

text \<open>
  A prefix list whose rows have at least two columns is read completely: the tries get, in
  the order of the file, exactly the rows with an acceptable id, the IPv4 trie those whose prefix
  shows a dot first, the IPv6 trie those whose prefix shows a colon first.
\<close>

theorem read_rows_entries:
  assumes "\<forall>row\<in>set rows. \<forall>r. row = Some r \<longrightarrow> 2 \<le> length r"
  shows "read_rows id_of rows tries = Inr (fst tries @ entries id_of V4 rows, snd tries @ entries id_of V6 rows)"
  using assms
proof (induction id_of rows tries rule: read_rows.induct)
  case (3 id_of row rows tries)
  then obtain p i r where row: "row = p # i # r" by (auto simp: numeral_2_eq_2 Suc_le_length_iff)
  obtain t' where t: "insert_row id_of row tries = Inr t'"
    "t' = (fst tries @ entries id_of V4 [Some row], snd tries @ entries id_of V6 [Some row])"
    unfolding row by (cases "detect_family p" rule: option.exhaust; cases "id_of i"; cases "the (detect_family p)")
      (auto simp: insert_row_def)
  have "read_rows id_of rows t' = Inr (fst t' @ entries id_of V4 rows, snd t' @ entries id_of V6 rows)"
    using 3 t(1) by simp
  then show ?case using t row by simp
qed simp_all

theorem read_rows_entries_witness:
  "read_rows (parse_int 32) [Some [''10.0.0.0/8'', ''7''], None, Some [''2001:db8::/32'', ''x'']] ([], []) =
     Inr ([(7, ''10.0.0.0/8'')], [])"
proof -
  have "parse_int 32 ''7'' = Some 7" "parse_int 32 ''x'' = None"
    by (simp_all add: parse_int_def digit_val_def)
  then show ?thesis
    using read_rows_entries [of "[Some [''10.0.0.0/8'', ''7''], None, Some [''2001:db8::/32'', ''x'']]" "parse_int 32" "([], [])"]
    by simp
qed

lemma AddCid_step_total: "\<exists>es. AddCid_step lookup s m = Inr (es, s)"
  by (auto simp: AddCid_step_def Let_def split: option.splits)

interpretation addcid: modify_segment "AddCid_step lookup" "\<lambda>_ _. True"
  "\<lambda>s. cid_DropUnmatched s \<longrightarrow> cid_MatchBoth s" for lookup
proof
  show "\<exists>m' s'. AddCid_step lookup s m = Inr ([Out m'], s')"
    if "cid_DropUnmatched s \<longrightarrow> cid_MatchBoth s" for s m
    using that by (cases "local_address m") (auto simp: AddCid_step_def Let_def)
  show "(cid_DropUnmatched s' \<longrightarrow> cid_MatchBoth s') \<and> (\<lambda>_. True) = (\<lambda>_. True)"
    if "cid_DropUnmatched s \<longrightarrow> cid_MatchBoth s" "AddCid_step lookup s m = Inr (es, s')" for s m es s'
    using that AddCid_step_total [of lookup s m] by auto
qed

text \<open>
  \<open>addcid\<close> by remote address: a flow with a known local address gets the customer id of that
  address; nothing else of it changes; the flow is discarded exactly when \<open>dropunmatched\<close> is
  set and it has no local address or no id.
\<close>

theorem AddCid_local:
  assumes "\<not> cid_MatchBoth s"
  shows "AddCid_step lookup s m = Inr
    (case local_address m of
       None \<Rightarrow> if cid_DropUnmatched s then [] else [Out m]
     | Some a \<Rightarrow> if cid_DropUnmatched s \<and> cid_of lookup (cid_tries s) a = 0 then []
                  else [Out (m\<lparr>Cid := cid_of lookup (cid_tries s) a\<rparr>)], s)"
  using assms by (auto simp: AddCid_step_def Let_def split: option.split)

definition demo_lookup :: "'v trie \<Rightarrow> u8 list \<Rightarrow> 'v option" where
  "demo_lookup t ip = (case t of [] \<Rightarrow> None | (v, _) # _ \<Rightarrow> Some v)"

theorem AddCid_local_witness:
  "AddCid_step demo_lookup \<lparr>cid_DropUnmatched = True, cid_MatchBoth = False, cid_tries = ([(7, ''10.0.0.0/8'')], [])\<rparr>
     (zero_flow\<lparr>RemoteAddr := 1, DstAddr := Some [10, 0, 0, 1]\<rparr>) =
   Inr ([Out (zero_flow\<lparr>RemoteAddr := 1, DstAddr := Some [10, 0, 0, 1], Cid := 7\<rparr>)],
     \<lparr>cid_DropUnmatched = True, cid_MatchBoth = False, cid_tries = ([(7, ''10.0.0.0/8'')], [])\<rparr>)"
  by (subst AddCid_local) (simp_all add: local_address_def cid_of_def trie_for_def ip_To4_def demo_lookup_def)

text \<open>
  With \<open>matchboth\<close>, \<open>addcid\<close> discards no flow, also when \<open>dropunmatched\<close> is set and
  neither address has an id.
\<close>

theorem AddCid_matchboth_keeps_all:
  assumes "cid_MatchBoth s"
  shows "\<exists>es s'. run_loop (AddCid_step lookup) s ms = Inr (es, s') \<and> drops es = [] \<and> length (outs es) = length ms"
  using addcid.run_one_each [of s ms] assms by simp

theorem AddCid_matchboth_keeps_all_witness:
  "\<exists>es s'. run_loop (AddCid_step (\<lambda>_ _. None)) \<lparr>cid_DropUnmatched = True, cid_MatchBoth = True, cid_tries = ([], [])\<rparr>
     [zero_flow, zero_flow] = Inr (es, s') \<and> drops es = [] \<and> length (outs es) = length [zero_flow, zero_flow]"
  by (rule AddCid_matchboth_keeps_all) simp

text \<open>
  \<open>addnetid\<close> with \<open>dropunmatched\<close> decides by the wrong field: it discards every flow whose
  \<open>Cid\<close> is zero, also one that matched a prefix, and passes every flow with a local address whose
  \<open>Cid\<close> is set, also one that matched nothing, whatever the prefix list says.
\<close>

theorem AddNetId_drops_by_cid:
  assumes "net_DropUnmatched s" "\<not> net_MatchBoth s" "local_address m \<noteq> None"
  shows "\<exists>es. AddNetId_step lookup s m = Inr (es, s) \<and> (es = [] \<longleftrightarrow> Cid m = 0)"
  using assms by (auto simp: AddNetId_step_def Let_def)

theorem AddNetId_drops_by_cid_witness:
  "\<exists>es. AddNetId_step demo_lookup
       \<lparr>net_DropUnmatched = True, net_MatchBoth = False, net_UseIntIds = True, net_tries = ([(IdInt 7, ''10.0.0.0/8'')], [])\<rparr>
       (zero_flow\<lparr>RemoteAddr := 1, DstAddr := Some [10, 0, 0, 1]\<rparr>) =
     Inr (es, \<lparr>net_DropUnmatched = True, net_MatchBoth = False, net_UseIntIds = True, net_tries = ([(IdInt 7, ''10.0.0.0/8'')], [])\<rparr>)
     \<and> (es = [] \<longleftrightarrow> Cid (zero_flow\<lparr>RemoteAddr := 1, DstAddr := Some [10, 0, 0, 1]\<rparr>) = 0)"
  by (rule AddNetId_drops_by_cid) (simp_all add: local_address_def)

text \<open>
  \<open>addnetid\<close> with \<open>matchboth\<close> and string ids discards a flow without any match even when
  \<open>dropunmatched\<close> is not set.
\<close>

theorem AddNetId_string_always_drops:
  assumes "net_MatchBoth s" "\<not> net_UseIntIds s"
    and "netid_of lookup (net_tries s) (SrcAddr m) = None" "netid_of lookup (net_tries s) (DstAddr m) = None"
  shows "AddNetId_step lookup s m = Inr ([], s)"
  using assms by (simp add: AddNetId_step_def as_string_def)

theorem AddNetId_string_always_drops_witness:
  "AddNetId_step demo_lookup \<lparr>net_DropUnmatched = False, net_MatchBoth = True, net_UseIntIds = False, net_tries = ([], [])\<rparr>
     zero_flow = Inr ([], \<lparr>net_DropUnmatched = False, net_MatchBoth = True, net_UseIntIds = False, net_tries = ([], [])\<rparr>)"
  by (rule AddNetId_string_always_drops) (simp_all add: netid_of_def demo_lookup_def trie_for_def Let_def)

text \<open>Which side of a flow is remote under a policy; \<open>hit\<close>: an address matches the list.\<close>

definition hit :: "string lookup \<Rightarrow> RemoteAddress \<Rightarrow> byte_slice \<Rightarrow> bool" where
  "hit lookup s a \<longleftrightarrow> lookup (trie_for (bytes_of a) (ra_tries s)) (bytes_of a) \<notin> {None, Some []}"

definition remote_side :: "string lookup \<Rightarrow> RemoteAddress \<Rightarrow> EnrichedFlow \<Rightarrow> RemoteAddrType" where
  "remote_side lookup s m =
     (if ra_Policy s = ''clear'' then 0
      else if ra_Policy s = ''cidr'' then
        (if hit lookup s (SrcAddr m) then 1 else if hit lookup s (DstAddr m) then 2 else RemoteAddr m)
      else if FlowDirection m \<notin> {0, 1} then RemoteAddr m
      else if (ra_Policy s = ''border'') = (FlowDirection m = 0) then 1 else 2)"

lemma cidr_loop_hit:
  "cidr_loop lookup (ra_tries s) [(0, SrcAddr m), (1, DstAddr m)] m =
     m\<lparr>RemoteAddr := if hit lookup s (SrcAddr m) then 1 else if hit lookup s (DstAddr m) then 2 else RemoteAddr m\<rparr>"
  by (auto simp: hit_def Let_def split: option.splits)

text \<open>
  \<open>remoteaddress\<close> passes every flow on, in order, with at most its \<open>RemoteAddr\<close> changed: by
  policy \<open>cidr\<close> to 1 if the source address matches the list, else to 2 if the destination does, and
  else not at all (the option \<open>dropunmatched\<close> has no effect); by policies \<open>border\<close> and
  \<open>user\<close> by the direction of the flow; by policy \<open>clear\<close> to 0.
\<close>

theorem RemoteAddress_run:
  assumes "ra_Policy s \<in> {''cidr'', ''border'', ''user'', ''clear''}"
  shows "run_loop (RemoteAddress_step lookup) s ms =
     Inr (map (\<lambda>m. Out (m\<lparr>RemoteAddr := remote_side lookup s m\<rparr>)) ms, s)"
proof -
  have "RemoteAddress_msg lookup s m = m\<lparr>RemoteAddr := remote_side lookup s m\<rparr>" for m
    using assms by (auto simp: RemoteAddress_msg_def remote_side_def cidr_loop_hit [unfolded One_nat_def] simp del: cidr_loop.simps)
  then show ?thesis unfolding RemoteAddress_step_def run_edit_step by simp
qed

theorem RemoteAddress_run_witness:
  "\<exists>es. run_loop (RemoteAddress_step (\<lambda>_ _. None)) \<lparr>ra_Policy = ''border'', ra_DropUnmatched = True, ra_tries = ([], [])\<rparr>
     [zero_flow] = Inr (es, \<lparr>ra_Policy = ''border'', ra_DropUnmatched = True, ra_tries = ([], [])\<rparr>)
     \<and> es = [Out (zero_flow\<lparr>RemoteAddr := 1\<rparr>)]"
proof -
  have "FlowDirection zero_flow = 0" by (simp add: zero_flow_def)
  then show ?thesis
    using RemoteAddress_run [of "\<lparr>ra_Policy = ''border'', ra_DropUnmatched = True, ra_tries = ([], [])\<rparr>" "\<lambda>_ _. None" "[zero_flow]"]
    by (simp add: remote_side_def)
qed

end
