(* ===== verification/Anonymize.thy ===== *)
theory Anonymize
  imports FlowMessage GoNet Segments
begin

text \<open>
  The segment \<open>anonymize\<close> (\<open>segments/modify/anonymize/anonymize.go\<close>). Crypto-PAn comes from
  \<open>github.com/Yawning/cryptopan\<close>: \<open>cryptopan.New\<close> (whether it accepts a key) and the
  anonymiser for a key are parameters.
\<close>

datatype Mode = ModeCryptoPan | ModeSubNet | ModeAll

record SubnetAnonymizer =
  MaskV4 :: u32
  MaskV6 :: u32

record Anonymize =
  EncryptionKey :: string
  AnonFields :: "string list"
  AnonymizationMode :: Mode
  subnetAnonymizer :: "SubnetAnonymizer option"

definition modeFromConfig :: "string \<Rightarrow> Mode option" where
  "modeFromConfig s =
     (if s = [] then Some ModeCryptoPan
      else if s = ''cryptopan'' then Some ModeCryptoPan
      else if s = ''subnet'' then Some ModeSubNet
      else if s = ''all'' then Some ModeAll
      else None)"

text \<open>
  The mask options of \<open>New\<close>: \<open>None\<close> when one is refused. The test for the IPv6 mask compares
  \<open>maskV4\<close> with its lower bound, as the code does.
\<close>

definition masks_from_config :: "config_map \<Rightarrow> SubnetAnonymizer option" where
  "masks_from_config config =
     (let v4 = (if cfg config ''maskV4'' = [] then Some 16
                else case atoi (cfg config ''maskV4'') of
                       None \<Rightarrow> None
                     | Some n \<Rightarrow> if n > 32 \<or> n < 8 then None else Some n)
      in case v4 of
           None \<Rightarrow> None
         | Some maskV4 \<Rightarrow>
             let v6 = (if cfg config ''maskV6'' = [] then Some 52
                       else case atoi (cfg config ''maskV6'') of
                              None \<Rightarrow> None
                            | Some n \<Rightarrow> if n > 128 \<or> maskV4 < 4 then None else Some n)
             in map_option (\<lambda>maskV6. \<lparr>MaskV4 = word_of_int maskV4, MaskV6 = word_of_int maskV6\<rparr>) v6)"

definition Anonymize_New :: "(string \<Rightarrow> bool) \<Rightarrow> config_map \<Rightarrow> Anonymize option" where
  "Anonymize_New cryptopan_accepts config =
     (case modeFromConfig (cfg config ''mode'') of
        None \<Rightarrow> None
      | Some mode \<Rightarrow>
          let subnet = (if mode = ModeSubNet \<or> mode = ModeAll then map_option Some (masks_from_config config) else Some None);
              key = (if mode = ModeCryptoPan \<or> mode = ModeAll
                     then (if cfg config ''key'' = [] \<or> \<not> cryptopan_accepts (cfg config ''key'') then None
                           else Some (cfg config ''key''))
                     else Some []);
              fields = (if cfg config ''fields'' = [] then [''DstAddr'', ''NextHop'', ''SamplerAddress'', ''SrcAddr'']
                        else split_on (CHR '','') (cfg config ''fields''))
          in case (subnet, key) of
               (Some sa, Some k) \<Rightarrow>
                 Some \<lparr>EncryptionKey = k, AnonFields = fields, AnonymizationMode = mode, subnetAnonymizer = sa\<rparr>
             | _ \<Rightarrow> None)"

text \<open>\<open>SubnetAnonymizer.reduceIPToSubnet\<close>: the IPv6 branch builds its mask from \<open>MaskV4\<close>.\<close>

definition reduceIPToSubnet :: "SubnetAnonymizer \<Rightarrow> u8 list \<Rightarrow> u32 \<Rightarrow> byte_slice \<times> u32" where
  "reduceIPToSubnet anon ip originalAddrPreservedLen =
     (if ip_To4 ip \<noteq> None then
        (ip_Mask ip (CIDRMask (uint (MaskV4 anon)) 32),
         if originalAddrPreservedLen = 0 \<or> MaskV4 anon < originalAddrPreservedLen then MaskV4 anon
         else originalAddrPreservedLen)
      else
        (ip_Mask ip (CIDRMask (uint (MaskV4 anon)) 128),
         if originalAddrPreservedLen = 0 \<or> MaskV6 anon < originalAddrPreservedLen then MaskV6 anon
         else originalAddrPreservedLen))"

text \<open>
  \<open>Anonymize.anonymize\<close>; \<open>crypt\<close> is the \<open>Anonymize\<close> method of the Crypto-PAn object of the key.
  A nil subnet anonymiser is dereferenced in the subnet modes; \<open>New\<close> sets it there.
\<close>

definition anonymize ::
  "(string \<Rightarrow> u8 list \<Rightarrow> u8 list) \<Rightarrow> Anonymize \<Rightarrow> u8 list \<Rightarrow> u32 \<Rightarrow> (byte_slice \<times> AnonymizedType \<times> u32) outcome" where
  "anonymize crypt s ip addrPreservedLen =
     (case AnonymizationMode s of
        ModeCryptoPan \<Rightarrow> Inr (Some (crypt (EncryptionKey s) ip), EnrichedFlow_CryptoPAN, addrPreservedLen)
      | ModeSubNet \<Rightarrow>
          (case subnetAnonymizer s of
             None \<Rightarrow> Inl (Panic ''nil pointer dereference'')
           | Some sa \<Rightarrow> (case reduceIPToSubnet sa ip addrPreservedLen of
                           (ip', l) \<Rightarrow> Inr (ip', EnrichedFlow_Subnet, l)))
      | ModeAll \<Rightarrow>
          (case subnetAnonymizer s of
             None \<Rightarrow> Inl (Panic ''nil pointer dereference'')
           | Some sa \<Rightarrow> (case reduceIPToSubnet sa (crypt (EncryptionKey s) ip) addrPreservedLen of
                           (ip', l) \<Rightarrow> Inr (ip', EnrichedFlow_SubnetAndCryptoPAN, l))))"

text \<open>The switch over one field name; a nil address is left alone.\<close>

definition anonymize_field :: "(string \<Rightarrow> u8 list \<Rightarrow> u8 list) \<Rightarrow> Anonymize \<Rightarrow> string \<Rightarrow> EnrichedFlow \<Rightarrow> EnrichedFlow outcome" where
  "anonymize_field crypt s field m =
     (if field = ''SrcAddr'' then
        (case SrcAddr m of
           None \<Rightarrow> Inr m
         | Some ip \<Rightarrow> map_sum id (\<lambda>(a, t, l). m\<lparr>SrcAddr := a, SrcAddrAnon := t, SrcAddrPreservedLen := l\<rparr>)
             (anonymize crypt s ip (SrcAddrPreservedLen m)))
      else if field = ''DstAddr'' then
        (case DstAddr m of
           None \<Rightarrow> Inr m
         | Some ip \<Rightarrow> map_sum id (\<lambda>(a, t, l). m\<lparr>DstAddr := a, DstAddrAnon := t, DstAddrPreservedLen := l\<rparr>)
             (anonymize crypt s ip (DstAddrPreservedLen m)))
      else if field = ''SamplerAddress'' then
        (case SamplerAddress m of
           None \<Rightarrow> Inr m
         | Some ip \<Rightarrow> map_sum id (\<lambda>(a, t, l). m\<lparr>SamplerAddress := a, SamplerAddrAnon := t, SamplerAddrPreservedPrefixLen := l\<rparr>)
             (anonymize crypt s ip 0))
      else if field = ''NextHop'' then
        (case NextHop m of
           None \<Rightarrow> Inr m
         | Some ip \<Rightarrow> map_sum id (\<lambda>(a, t, l). m\<lparr>NextHop := a, NextHopAnon := t, NextHopAnonPreservedPrefixLen := l\<rparr>)
             (anonymize crypt s ip (NextHopAnonPreservedPrefixLen m)))
      else Inr m)"

fun anonymize_fields :: "(string \<Rightarrow> u8 list \<Rightarrow> u8 list) \<Rightarrow> Anonymize \<Rightarrow> string list \<Rightarrow> EnrichedFlow \<Rightarrow> EnrichedFlow outcome" where
  "anonymize_fields crypt s [] m = Inr m"
| "anonymize_fields crypt s (f # fs) m =
     (case anonymize_field crypt s f m of Inl p \<Rightarrow> Inl p | Inr m' \<Rightarrow> anonymize_fields crypt s fs m')"

definition Anonymize_step :: "(string \<Rightarrow> u8 list \<Rightarrow> u8 list) \<Rightarrow> (Anonymize, EnrichedFlow) step" where
  "Anonymize_step crypt s m = map_sum id (\<lambda>m'. ([Out m'], s)) (anonymize_fields crypt s (AnonFields s) m)"

section \<open>Properties\<close>

definition ready :: "Anonymize \<Rightarrow> bool" where
  "ready s \<longleftrightarrow> AnonymizationMode s = ModeCryptoPan \<or> subnetAnonymizer s \<noteq> None"

lemma Anonymize_New_ready: "Anonymize_New acc config = Some s \<Longrightarrow> ready s"
  by (auto simp: Anonymize_New_def ready_def Let_def split: option.splits if_splits) (metis Mode.exhaust)+

lemma anonymize_total: "ready s \<Longrightarrow> \<exists>r. anonymize crypt s ip l = Inr r"
  by (auto simp: anonymize_def ready_def split: Mode.splits option.splits prod.splits)

lemma map_sum_total: "\<exists>r. x = Inr r \<Longrightarrow> \<exists>r. map_sum id g x = Inr r"
  by auto

lemma anonymize_field_total: "ready s \<Longrightarrow> \<exists>m'. anonymize_field crypt s f m = Inr m'"
  by (simp add: anonymize_field_def split: option.split)
    (intro conjI impI allI; rule map_sum_total; rule anonymize_total; assumption)

lemma anonymize_fields_total: "ready s \<Longrightarrow> \<exists>m'. anonymize_fields crypt s fs m = Inr m'"
proof (induction fs arbitrary: m)
  case (Cons f fs)
  obtain m' where "anonymize_field crypt s f m = Inr m'" using anonymize_field_total [OF Cons.prems] by blast
  then show ?case using Cons by simp
qed simp

interpretation anonymizer: modify_segment "Anonymize_step crypt" "\<lambda>_ _. True" ready for crypt
proof
  show "\<exists>m' s'. Anonymize_step crypt s m = Inr ([Out m'], s')" if "ready s" for s m
    using anonymize_fields_total [OF that, of crypt "AnonFields s" m] by (auto simp: Anonymize_step_def)
  show "ready s' \<and> (\<lambda>_. True) = (\<lambda>_. True)" if "ready s" "Anonymize_step crypt s m = Inr (es, s')" for s m es s'
    using that by (auto simp: Anonymize_step_def map_sum_def split: sum.splits)
qed

text \<open>
  An anonymiser that \<open>New\<close> accepted never fails: it sends exactly one flow for each flow it
  gets and drops none.
\<close>

theorem Anonymize_runs:
  assumes "Anonymize_New accepts config = Some s"
  shows "\<exists>es s'. run_loop (Anonymize_step crypt) s ms = Inr (es, s') \<and> drops es = [] \<and> length (outs es) = length ms"
  using anonymizer.run_one_each [OF Anonymize_New_ready [OF assms], of ms crypt] by simp

lemma New_subnet: "Anonymize_New (\<lambda>_. False) [''mode'' \<mapsto> ''subnet''] =
  Some \<lparr>EncryptionKey = [], AnonFields = [''DstAddr'', ''NextHop'', ''SamplerAddress'', ''SrcAddr''],
        AnonymizationMode = ModeSubNet, subnetAnonymizer = Some \<lparr>MaskV4 = 16, MaskV6 = 52\<rparr>\<rparr>"
  by (simp add: Anonymize_New_def modeFromConfig_def masks_from_config_def cfg_def)

theorem Anonymize_runs_witness:
  "\<exists>s es s'. run_loop (Anonymize_step (\<lambda>_ ip. ip)) s [zero_flow\<lparr>SrcAddr := Some [10, 1, 2, 3]\<rparr>] = Inr (es, s')
     \<and> drops es = [] \<and> length (outs es) = 1"
  using Anonymize_runs [OF New_subnet, of "\<lambda>_ ip. ip" "[zero_flow\<lparr>SrcAddr := Some [10, 1, 2, 3]\<rparr>]"]
  by (auto simp del: run_loop.simps)

text \<open>
  Subnet anonymisation of an IPv4 address keeps exactly its first \<open>MaskV4\<close> bits and clears the
  others, and the reported length is the smaller of the mask and a length set before.
\<close>

theorem reduce_IPv4:
  assumes "length ip = 4" "unat (MaskV4 anon) \<le> 32"
  shows "\<exists>r. fst (reduceIPToSubnet anon ip l) = Some r \<and> length r = 4
    \<and> (\<forall>i<32. ip_bit r i \<longleftrightarrow> i < unat (MaskV4 anon) \<and> ip_bit ip i)
    \<and> snd (reduceIPToSubnet anon ip l) = (if l = 0 then MaskV4 anon else min (MaskV4 anon) l)"
proof -
  have "ip_To4 ip = Some ip" using assms(1) by (simp add: ip_To4_def)
  moreover obtain r where "ip_Mask ip (CIDRMask (int (unat (MaskV4 anon))) 32) = Some r" "length r = 4"
    "\<And>i. i < 32 \<Longrightarrow> ip_bit r i \<longleftrightarrow> i < unat (MaskV4 anon) \<and> ip_bit ip i"
    using ip_Mask_v4_bits [OF assms] by blast
  moreover have "int (unat (MaskV4 anon)) = uint (MaskV4 anon)" by simp
  ultimately show ?thesis by (auto simp: reduceIPToSubnet_def min_def)
qed

theorem reduce_IPv4_witness:
  "\<exists>r. fst (reduceIPToSubnet \<lparr>MaskV4 = 16, MaskV6 = 52\<rparr> [10, 1, 2, 3] 0) = Some r \<and> length r = 4
    \<and> (\<forall>i<32. ip_bit r i \<longleftrightarrow> i < unat (16 :: u32) \<and> ip_bit [10, 1, 2, 3] i)"
  using reduce_IPv4 [of "[10, 1, 2, 3]" "\<lparr>MaskV4 = 16, MaskV6 = 52\<rparr>" 0] by auto

text \<open>
  Subnet anonymisation of an IPv6 address keeps its first \<open>MaskV4\<close> bits, not its first
  \<open>MaskV6\<close> bits, while the reported preserved length is computed from \<open>MaskV6\<close>: with the default
  masks a flow claims that 52 bits of an address are preserved of which only 16 are.
\<close>

theorem reduce_IPv6_wrong_mask:
  assumes "length ip = 16" "ip_To4 ip = None" "unat (MaskV4 anon) \<le> 128"
  shows "\<exists>r. fst (reduceIPToSubnet anon ip l) = Some r \<and> length r = 16
    \<and> (\<forall>i<128. ip_bit r i \<longleftrightarrow> i < unat (MaskV4 anon) \<and> ip_bit ip i)
    \<and> snd (reduceIPToSubnet anon ip l) = (if l = 0 then MaskV6 anon else min (MaskV6 anon) l)"
proof -
  obtain r where "ip_Mask ip (CIDRMask (int (unat (MaskV4 anon))) 128) = Some r" "length r = 16"
    "\<And>i. i < 128 \<Longrightarrow> ip_bit r i \<longleftrightarrow> i < unat (MaskV4 anon) \<and> ip_bit ip i"
    using ip_Mask_v6_bits [OF assms(1,3)] by blast
  moreover have "int (unat (MaskV4 anon)) = uint (MaskV4 anon)" by simp
  ultimately show ?thesis using assms(2) by (auto simp: reduceIPToSubnet_def min_def)
qed

lemma ip_To4_first_byte: "length ip = 16 \<Longrightarrow> hd ip \<noteq> 0 \<Longrightarrow> ip_To4 ip = None"
  by (cases ip) (auto simp: ip_To4_def v4InV6Prefix_def numeral_eq_Suc)

theorem reduce_IPv6_wrong_mask_witness:
  "snd (reduceIPToSubnet \<lparr>MaskV4 = 16, MaskV6 = 52\<rparr> (0x20 # 1 # replicate 14 255) 0) = 52"
  using reduce_IPv6_wrong_mask [of "0x20 # 1 # replicate 14 255" "\<lparr>MaskV4 = 16, MaskV6 = 52\<rparr>" 0]
  by (auto simp: ip_To4_first_byte)

end
