(* ===== verification/Enrich.thy ===== *)
theory Enrich
  imports FlowMessage Segments
begin

text \<open>
  Enriching segments (\<open>segments/modify\<close>): \<open>normalize\<close>, \<open>addrstrings\<close>, \<open>protomap\<close> with the table
  of \<open>utils/iana.go\<close>, \<open>geolocation\<close> and \<open>reversedns\<close>. The Maxmind database and the DNS
  resolver are parameters.
\<close>

section \<open>normalize\<close>

record Normalize =
  Fallback :: u64

definition Normalize_New :: "config_map \<Rightarrow> Normalize" where
  "Normalize_New config =
     \<lparr>Fallback = (if cfg config ''fallback'' \<noteq> [] then
        (case parse_uint 32 (cfg config ''fallback'') of Some n \<Rightarrow> of_nat n | None \<Rightarrow> 0) else 0)\<rparr>"

definition Normalize_msg :: "Normalize \<Rightarrow> EnrichedFlow \<Rightarrow> EnrichedFlow" where
  "Normalize_msg s m =
     (if SamplingRate m > 0 then
        m\<lparr>Bytes := Bytes m * SamplingRate m, Packets := Packets m * SamplingRate m, Normalized := 1\<rparr>
      else if Fallback s \<noteq> 0 then
        m\<lparr>Bytes := Bytes m * Fallback s, Packets := Packets m * Fallback s, SamplingRate := Fallback s,
          Normalized := 1\<rparr>
      else m)"

definition Normalize_step :: "(Normalize, EnrichedFlow) step" where
  "Normalize_step = edit_step Normalize_msg"

section \<open>addrstrings\<close>

record AddrStrings =
  Separator :: MacSeparator

definition AddrStrings_New :: "config_map \<Rightarrow> AddrStrings" where
  "AddrStrings_New config =
     \<lparr>Separator = (if str_contains (cfg config ''macseparator'') ''dash'' then MACSeparatorDash else MACSeparatorColon)\<rparr>"

definition AddrStrings_msg :: "AddrStrings \<Rightarrow> EnrichedFlow \<Rightarrow> EnrichedFlow" where
  "AddrStrings_msg s m =
     (let m = (if SrcAddr m \<noteq> None then m\<lparr>SourceIP := ip_str (SrcAddrObj m)\<rparr> else m);
          m = (if DstAddr m \<noteq> None then m\<lparr>DestinationIP := ip_str (DstAddrObj m)\<rparr> else m);
          m = (if NextHop m \<noteq> None then m\<lparr>NextHopIP := ip_str (NextHopObj m)\<rparr> else m);
          m = (if SamplerAddress m \<noteq> None then m\<lparr>SamplerIP := ip_str (SamplerAddressObj m)\<rparr> else m);
          m = (if SrcMac m \<noteq> 0 then m\<lparr>SourceMAC := SrcMacString m (Separator s)\<rparr> else m);
          m = (if DstMac m \<noteq> 0 then m\<lparr>DestinationMAC := DstMacString m (Separator s)\<rparr> else m)
      in m)"

definition AddrStrings_step :: "(AddrStrings, EnrichedFlow) step" where
  "AddrStrings_step = edit_step AddrStrings_msg"

section \<open>protomap\<close>

text \<open>
  The two arrays of \<open>utils/iana.go\<close> (names, lower case names) and their initialisation from the
  rows of the embedded CSV file. An index outside of the arrays panics.
\<close>

abbreviation largestIanaProtoNameIndex :: nat where
  "largestIanaProtoNameIndex \<equiv> 256"

type_synonym iana_tables = "string list \<times> string list"

definition iana_row :: "string list \<Rightarrow> iana_tables \<Rightarrow> iana_tables outcome" where
  "iana_row row t =
     (if length row < 3 then Inr t
      else case atoi (row ! 0) of
             None \<Rightarrow> Inr t
           | Some idx \<Rightarrow>
               if idx < 0 \<or> int largestIanaProtoNameIndex \<le> idx then Inl (Panic ''index out of range'')
               else let name = (if row ! 1 \<noteq> [] then row ! 1 else row ! 2)
                    in Inr ((fst t)[nat idx := name], (snd t)[nat idx := to_lower name]))"

fun iana_init :: "string list list \<Rightarrow> iana_tables \<Rightarrow> iana_tables outcome" where
  "iana_init [] t = Inr t"
| "iana_init (row # rows) t = (case iana_row row t of Inl p \<Rightarrow> Inl p | Inr t' \<Rightarrow> iana_init rows t')"

definition iana_empty :: iana_tables where
  "iana_empty = (replicate largestIanaProtoNameIndex [], replicate largestIanaProtoNameIndex [])"

definition array_at :: "string list \<Rightarrow> nat \<Rightarrow> string outcome" where
  "array_at a i = (if i < length a then Inr (a ! i) else Inl (Panic ''index out of range''))"

definition IanaProtocolNumberToName :: "iana_tables \<Rightarrow> u32 \<Rightarrow> string outcome" where
  "IanaProtocolNumberToName t protocolNumber =
     (if largestIanaProtoNameIndex < unat protocolNumber then Inr []
      else array_at (fst t) (unat protocolNumber))"

definition IanaProtocolNumberToLowercaseName :: "iana_tables \<Rightarrow> u32 \<Rightarrow> string outcome" where
  "IanaProtocolNumberToLowercaseName t protocolNumber =
     (if largestIanaProtoNameIndex < unat protocolNumber then Inr []
      else array_at (snd t) (unat protocolNumber))"

definition Protomap_step :: "(iana_tables, EnrichedFlow) step" where
  "Protomap_step t m =
     (case IanaProtocolNumberToName t (Proto m) of
        Inl p \<Rightarrow> Inl p
      | Inr proto \<Rightarrow> Inr ([Out (m\<lparr>ProtoName := if proto = [] then ''UNKNOWN'' else proto\<rparr>)], t))"

section \<open>geolocation\<close>

text \<open>
  The variable \<open>dbrecord\<close> is declared once before the loop, so the state holds its country code
  besides the options. \<open>Lookup ip record\<close> stands for \<open>dbHandle.Lookup(ip, &dbrecord)\<close>: the new
  content of the record, or \<open>None\<close> for an error.
\<close>

record GeoLocation =
  geo_DropUnmatched :: bool
  geo_MatchBoth :: bool
  dbrecord :: string

definition GeoLocation_New :: "(string \<Rightarrow> bool) \<Rightarrow> config_map \<Rightarrow> GeoLocation option" where
  "GeoLocation_New maxmind_opens config =
     (if cfg config ''filename'' = [] \<or> \<not> maxmind_opens (cfg config ''filename'') then None
      else Some \<lparr>geo_DropUnmatched = parse_bool_or_false (cfg config ''dropunmatched''),
                 geo_MatchBoth = parse_bool_or_false (cfg config ''matchboth''), dbrecord = []\<rparr>)"

definition GeoLocation_step :: "(u8 list \<Rightarrow> string \<Rightarrow> string option) \<Rightarrow> (GeoLocation, EnrichedFlow) step" where
  "GeoLocation_step Lookup s m =
     (if \<not> geo_MatchBoth s then
        (let raddress = (if RemoteAddr m = 1 then Some (SrcAddr m)
                         else if RemoteAddr m = 2 then Some (DstAddr m) else None)
         in case raddress of
              None \<Rightarrow> Inr (if \<not> geo_DropUnmatched s then [Out m] else [], s)
            | Some a \<Rightarrow>
                (case Lookup (bytes_of a) (dbrecord s) of
                   Some r \<Rightarrow> Inr ([Out (m\<lparr>RemoteCountry := r\<rparr>)], s\<lparr>dbrecord := r\<rparr>)
                 | None \<Rightarrow> Inr ([Out m], s)))
      else
        let (m, s) = (case Lookup (bytes_of (SrcAddr m)) (dbrecord s) of
                        Some r \<Rightarrow> (m\<lparr>SrcCountry := r\<rparr>, s\<lparr>dbrecord := r\<rparr>) | None \<Rightarrow> (m, s));
            (m, s) = (case Lookup (bytes_of (DstAddr m)) (dbrecord s) of
                        Some r \<Rightarrow> (m\<lparr>DstCountry := r\<rparr>, s\<lparr>dbrecord := r\<rparr>) | None \<Rightarrow> (m, s))
        in Inr ([Out m], s))"

section \<open>reversedns\<close>

text \<open>
  \<open>ReverseDns.New\<close> up to the start of the refresh goroutine: whether a segment is returned.
  \<open>valid_duration\<close> is whether \<open>time.ParseDuration\<close> accepts a string. The test on the error of
  \<open>ParseBool\<close> is inverted in the code.
\<close>

definition ReverseDns_New :: "(string \<Rightarrow> bool) \<Rightarrow> config_map \<Rightarrow> bool" where
  "ReverseDns_New valid_duration config =
     (let cache_value = cfg config ''cache'' in
      if cache_value \<noteq> [] \<and> parse_bool cache_value \<noteq> None then False
      else
        let cache = (if cache_value = [] then True else False);
            refresh = (if cfg config ''refreshinterval'' \<noteq> [] then cfg config ''refreshinterval'' else ''5m'')
        in \<not> cache \<or> valid_duration refresh)"

text \<open>\<open>resolve addr\<close>: the host names \<open>LookupAddr\<close> gives, or \<open>None\<close> for an error.\<close>

definition first_name :: "(string \<Rightarrow> string list option) \<Rightarrow> string \<Rightarrow> string option" where
  "first_name resolve addr = (case resolve addr of Some (h # _) \<Rightarrow> Some h | _ \<Rightarrow> None)"

definition ReverseDns_msg :: "(string \<Rightarrow> string list option) \<Rightarrow> EnrichedFlow \<Rightarrow> EnrichedFlow" where
  "ReverseDns_msg resolve m =
     (let m = (case first_name resolve (ip_str (SrcAddrObj m)) of Some h \<Rightarrow> m\<lparr>SrcHostName := h\<rparr> | None \<Rightarrow> m);
          m = (case first_name resolve (ip_str (DstAddrObj m)) of Some h \<Rightarrow> m\<lparr>DstHostName := h\<rparr> | None \<Rightarrow> m);
          m = (case first_name resolve (ip_str (NextHopObj m)) of Some h \<Rightarrow> m\<lparr>NextHopHostName := h\<rparr> | None \<Rightarrow> m);
          m = (case first_name resolve (ip_str (SamplerAddressObj m)) of Some h \<Rightarrow> m\<lparr>SamplerHostName := h\<rparr> | None \<Rightarrow> m)
      in m)"

definition ReverseDns_step :: "(string \<Rightarrow> string list option) \<Rightarrow> (unit, EnrichedFlow) step" where
  "ReverseDns_step resolve = edit_step (\<lambda>_. ReverseDns_msg resolve)"

section \<open>Properties\<close>

text \<open>
  \<open>normalize\<close> multiplies bytes and packets by the sampling rate of the flow, exactly as long as
  the products fit in 64 bits, marks the flow and leaves everything else alone.
\<close>

theorem normalize_exact:
  assumes "SamplingRate m > 0"
    and "unat (Bytes m) * unat (SamplingRate m) < 2 ^ 64" "unat (Packets m) * unat (SamplingRate m) < 2 ^ 64"
  shows "unat (Bytes (Normalize_msg s m)) = unat (Bytes m) * unat (SamplingRate m)
    \<and> unat (Packets (Normalize_msg s m)) = unat (Packets m) * unat (SamplingRate m)
    \<and> (\<exists>b p. Normalize_msg s m = m\<lparr>Bytes := b, Packets := p, Normalized := 1\<rparr>)"
  using assms by (auto simp: Normalize_msg_def unat_mult_lem [THEN iffD1])

theorem normalize_exact_witness:
  "unat (Bytes (Normalize_msg \<lparr>Fallback = 0\<rparr> (zero_flow\<lparr>Bytes := 1500, Packets := 1, SamplingRate := 32\<rparr>))) = 48000"
  using normalize_exact [of "zero_flow\<lparr>Bytes := 1500, Packets := 1, SamplingRate := 32\<rparr>" "\<lparr>Fallback = 0\<rparr>"]
  by simp

text \<open>
  The multiplication wraps around silently: a flow of \<open>2^63\<close> bytes sampled at rate two is
  reported with zero bytes.
\<close>

theorem normalize_wraps:
  "Bytes (Normalize_msg s (zero_flow\<lparr>Bytes := 2 ^ 63, SamplingRate := 2\<rparr>)) = 0"
  by (simp add: Normalize_msg_def)

lemma iana_row_length:
  "iana_row row t = Inr t' \<Longrightarrow> length (fst t') = length (fst t) \<and> length (snd t') = length (snd t)"
  by (auto simp: iana_row_def Let_def split: if_splits option.splits)

lemma iana_init_length:
  "iana_init rows t = Inr t' \<Longrightarrow> length (fst t') = length (fst t) \<and> length (snd t') = length (snd t)"
proof (induction rows arbitrary: t)
  case (Cons row rows)
  then obtain t1 where "iana_row row t = Inr t1" "iana_init rows t1 = Inr t'" by (auto split: sum.splits)
  then show ?case using Cons.IH iana_row_length by fastforce
qed simp

interpretation protomap: modify_segment Protomap_step "\<lambda>_ m. Proto m \<noteq> 256"
  "\<lambda>t. length (fst t) = largestIanaProtoNameIndex"
proof
  fix t :: iana_tables and m :: EnrichedFlow
  assume l: "length (fst t) = largestIanaProtoNameIndex" and p: "Proto m \<noteq> 256"
  have "unat (Proto m) \<noteq> unat (256 :: u32)" using p by (simp only: word_unat_eq_iff [symmetric] not_False_eq_True)
  then have "unat (Proto m) \<noteq> 256" by simp
  then show "\<exists>m' s'. Protomap_step t m = Inr ([Out m'], s')"
    using l by (auto simp: Protomap_step_def IanaProtocolNumberToName_def array_at_def)
next
  fix t m es t' assume "length (fst t) = largestIanaProtoNameIndex" "Protomap_step t m = Inr (es, t')"
  then show "length (fst t') = largestIanaProtoNameIndex \<and> (\<lambda>m. Proto m \<noteq> 256) = (\<lambda>m. Proto m \<noteq> 256)"
    by (auto simp: Protomap_step_def split: sum.splits)
qed

text \<open>
  \<open>protomap\<close> with the initialised tables passes every flow on with a protocol name, as long as
  no flow has protocol number 256.
\<close>

theorem protomap_runs:
  assumes "iana_init rows iana_empty = Inr t" "\<forall>m\<in>set ms. Proto m \<noteq> 256"
  shows "\<exists>es t'. run_loop Protomap_step t ms = Inr (es, t') \<and> drops es = [] \<and> length (outs es) = length ms"
proof -
  have "length (fst t) = largestIanaProtoNameIndex"
    using iana_init_length [OF assms(1)] by (simp add: iana_empty_def)
  from protomap.run_one_each [OF this assms(2)] show ?thesis .
qed

theorem protomap_runs_witness:
  "\<exists>es t'. run_loop Protomap_step iana_empty [zero_flow\<lparr>Proto := 6\<rparr>] = Inr (es, t') \<and> drops es = []
     \<and> length (outs es) = length [zero_flow\<lparr>Proto := 6\<rparr>]"
  by (rule protomap_runs [of "[]"]) simp_all

text \<open>
  A flow with protocol number 256 panics: the bound check lets the index one past the end of
  the table through.
\<close>

theorem protomap_panics:
  assumes "iana_init rows iana_empty = Inr t" "Proto m = 256"
  shows "Protomap_step t m = Inl (Panic ''index out of range'')"
  using assms iana_init_length [OF assms(1)]
  by (simp add: Protomap_step_def IanaProtocolNumberToName_def array_at_def iana_empty_def)

theorem protomap_panics_witness:
  "Protomap_step iana_empty (zero_flow\<lparr>Proto := 256\<rparr>) = Inl (Panic ''index out of range'')"
  by (rule protomap_panics [of "[]"]) simp_all

text \<open>
  \<open>geolocation\<close> reuses its record: if the database leaves the record alone for an address it
  does not know (reporting no error), a flow whose remote address is unknown is given the
  country found for the flow before it.
\<close>

theorem geolocation_stale:
  assumes "Lookup (bytes_of (SrcAddr m1)) r0 = Some country" "\<forall>r. Lookup (bytes_of (SrcAddr m2)) r = Some r"
    and "RemoteAddr m1 = 1" "RemoteAddr m2 = 1"
  shows "\<exists>s'. run_loop (GeoLocation_step Lookup) \<lparr>geo_DropUnmatched = d, geo_MatchBoth = False, dbrecord = r0\<rparr> [m1, m2] =
    Inr ([Out (m1\<lparr>RemoteCountry := country\<rparr>), Out (m2\<lparr>RemoteCountry := country\<rparr>)], s')"
  using assms by (simp add: GeoLocation_step_def)

theorem geolocation_stale_witness:
  "\<exists>s'. run_loop (GeoLocation_step (\<lambda>ip r. if ip = [1, 1, 1, 1] then Some ''AU'' else Some r))
      \<lparr>geo_DropUnmatched = True, geo_MatchBoth = False, dbrecord = []\<rparr>
      [zero_flow\<lparr>RemoteAddr := 1, SrcAddr := Some [1, 1, 1, 1]\<rparr>, zero_flow\<lparr>RemoteAddr := 1, SrcAddr := Some [10, 0, 0, 1]\<rparr>] =
    Inr ([Out (zero_flow\<lparr>RemoteAddr := 1, SrcAddr := Some [1, 1, 1, 1], RemoteCountry := ''AU''\<rparr>),
          Out (zero_flow\<lparr>RemoteAddr := 1, SrcAddr := Some [10, 0, 0, 1], RemoteCountry := ''AU''\<rparr>)], s')"
  using geolocation_stale [of "\<lambda>ip r. if ip = [1, 1, 1, 1] then Some ''AU'' else Some r"
      "zero_flow\<lparr>RemoteAddr := 1, SrcAddr := Some [1, 1, 1, 1]\<rparr>" "[]" "''AU''"
      "zero_flow\<lparr>RemoteAddr := 1, SrcAddr := Some [10, 0, 0, 1]\<rparr>" True]
  by simp

text \<open>
  \<open>reversedns\<close> cannot be configured: every valid value of its option \<open>cache\<close> makes \<open>New\<close>
  return nil, while an invalid one is accepted.
\<close>

theorem reversedns_rejects_valid:
  assumes "cfg config ''cache'' = v" "v \<noteq> []"
  shows "ReverseDns_New valid_duration config \<longleftrightarrow> parse_bool v = None"
  using assms by (simp add: ReverseDns_New_def Let_def)

theorem reversedns_rejects_valid_witness:
  "ReverseDns_New (\<lambda>_. True) [''cache'' \<mapsto> ''false''] \<longleftrightarrow> parse_bool ''false'' = None"
  by (rule reversedns_rejects_valid) (simp_all add: cfg_def)

section \<open>Address strings\<close>

lemma to_base_16_small: "n < 16 \<Longrightarrow> to_base 16 n = [digit_char n]"
  by (subst to_base.simps) simp

lemma hex02_digits: "n < 256 \<Longrightarrow> hex02 n = [digit_char (n div 16), digit_char (n mod 16)]"
proof -
  assume n: "n < 256"
  show ?thesis
  proof (cases "n < 16")
    case True
    moreover have "digit_char 0 = CHR ''0''" by code_simp
    ultimately show ?thesis by (simp add: hex02_def hex_def to_base_16_small)
  next
    case False
    then have "to_base 16 n = to_base 16 (n div 16) @ [digit_char (n mod 16)]" by (subst to_base.simps) simp
    then show ?thesis using False n by (simp add: hex02_def hex_def to_base_16_small)
  qed
qed

lemma digit_char_inj: "a < 16 \<Longrightarrow> b < 16 \<Longrightarrow> digit_char a = digit_char b \<Longrightarrow> a = b"
  by (auto simp: digit_char_def split: if_splits dest!: arg_cong [of _ _ "of_char :: char \<Rightarrow> nat"])

lemma hex02_inj: "a < 256 \<Longrightarrow> b < 256 \<Longrightarrow> hex02 a = hex02 b \<Longrightarrow> a = b"
proof -
  assume a: "a < 256" "b < 256" "hex02 a = hex02 b"
  then have "digit_char (a div 16) = digit_char (b div 16)" "digit_char (a mod 16) = digit_char (b mod 16)"
    by (simp_all add: hex02_digits)
  moreover have "a div 16 < 16" "b div 16 < 16" "a mod 16 < 16" "b mod 16 < 16" using a(1,2) by auto
  ultimately have "a div 16 = b div 16" "a mod 16 = b mod 16" using digit_char_inj by blast+
  then show "a = b" by (metis div_mult_mod_eq)
qed

text \<open>The bytes of a MAC address, lowest first.\<close>

definition mac_byte :: "nat \<Rightarrow> u64 \<Rightarrow> u64" where
  "mac_byte k mac = take_bit 8 (drop_bit (8 * k) mac)"

lemma mac_parts_bytes: "mac_parts mac = map (\<lambda>k. hex02 (unat (mac_byte k mac))) [0, 1, 2, 3, 4, 5]"
proof -
  have m: "drop_bit n (mac AND c) = take_bit 8 (drop_bit n mac)" if "drop_bit n c = mask 8" for n and c :: u64
    using that by (simp add: take_bit_eq_mask)
  have "drop_bit 8 (0xFF00 :: u64) = mask 8" "drop_bit 16 (0xFF0000 :: u64) = mask 8"
    "drop_bit 24 (0xFF000000 :: u64) = mask 8" "drop_bit 32 (0xFF00000000 :: u64) = mask 8"
    "drop_bit 40 (0xFF0000000000 :: u64) = mask 8" "drop_bit 0 (0xFF :: u64) = mask 8"
    by (simp_all add: mask_eq_exp_minus_1)
  note d = this [THEN m]
  from d(6) have "mac AND 0xFF = take_bit 8 mac" by simp
  then show ?thesis using d(1-5) by (simp add: mac_parts_def mac_byte_def)
qed

lemma mac_byte_less: "unat (mac_byte k mac) < 256"
  using take_bit_nat_less_exp [of 8 "unat (drop_bit (8 * k) mac)"]
  by (simp add: mac_byte_def unsigned_take_bit_eq)

lemma mac_bytes_eq:
  assumes "\<And>k. k < 6 \<Longrightarrow> mac_byte k a = mac_byte k b"
  shows "take_bit 48 a = take_bit 48 b"
proof (rule bit_eqI)
  fix n :: nat
  show "bit (take_bit 48 a) n \<longleftrightarrow> bit (take_bit 48 b) n"
  proof (cases "n < 48")
    case True
    then have "mac_byte (n div 8) a = mac_byte (n div 8) b" by (intro assms) auto
    then have "bit (mac_byte (n div 8) a) (n mod 8) = bit (mac_byte (n div 8) b) (n mod 8)" by simp
    then show ?thesis using True by (simp add: mac_byte_def bit_simps)
  qed (simp add: bit_take_bit_iff)
qed

lemma hex02_no_sep: "n < 256 \<Longrightarrow> CHR '':'' \<notin> set (hex02 n) \<and> CHR ''-'' \<notin> set (hex02 n)"
proof -
  assume n: "n < 256"
  have "\<forall>d\<in>set [0..<16]. digit_char d \<noteq> CHR '':'' \<and> digit_char d \<noteq> CHR ''-''" by code_simp
  moreover have "n div 16 < 16" "n mod 16 < 16" using n by auto
  ultimately show ?thesis by (auto simp: hex02_digits [OF n])
qed

lemma mac_parts_inj: "mac_parts a = mac_parts b \<Longrightarrow> take_bit 48 a = take_bit 48 b"
proof (rule mac_bytes_eq)
  fix k :: nat assume p: "mac_parts a = mac_parts b" and k: "k < 6"
  from k have "k \<in> {0, 1, 2, 3, 4, 5}" by auto
  then have "hex02 (unat (mac_byte k a)) = hex02 (unat (mac_byte k b))"
    using p unfolding mac_parts_bytes by auto
  then have "unat (mac_byte k a) = unat (mac_byte k b)" using hex02_inj mac_byte_less by blast
  then show "mac_byte k a = mac_byte k b" by (simp add: word_unat_eq_iff)
qed

text \<open>
  The MAC strings that \<open>addrstrings\<close> writes identify the address: two 48-bit addresses with
  the same string, under the same separator, are equal.
\<close>

theorem MacToString_inj:
  assumes "MacToString a sep = MacToString b sep" "unat a < 2 ^ 48" "unat b < 2 ^ 48"
  shows "a = b"
proof -
  have s: "\<forall>w\<in>set (mac_parts m). CHR '':'' \<notin> set w \<and> CHR ''-'' \<notin> set w" for m
    unfolding mac_parts_bytes using hex02_no_sep mac_byte_less by auto
  have n: "mac_parts m \<noteq> []" for m by (simp add: mac_parts_bytes)
  have j: "split_on c (join_with [c] (mac_parts m)) = mac_parts m" if "c = CHR '':'' \<or> c = CHR ''-''" for c m
    using s n that by (intro split_join) auto
  obtain c where c: "c = CHR '':'' \<or> c = CHR ''-''" "join_with [c] (mac_parts a) = join_with [c] (mac_parts b)"
    using assms(1) by (cases sep) (auto simp: MacToString_def simp del: join_with.simps)
  have "mac_parts a = split_on c (join_with [c] (mac_parts a))" by (rule j [OF c(1), symmetric])
  also have "\<dots> = mac_parts b" unfolding c(2) by (rule j [OF c(1)])
  finally have "mac_parts a = mac_parts b" .
  then have "take_bit 48 a = take_bit 48 b" by (rule mac_parts_inj)
  moreover have "take_bit 48 m = m" if "unat m < 2 ^ 48" for m :: u64
    using that by (simp add: word_unat_eq_iff unsigned_take_bit_eq take_bit_nat_eq_self)
  ultimately show ?thesis using assms(2,3) by metis
qed

theorem MacToString_inj_witness:
  "MacToString 0x112233445566 MACSeparatorColon \<noteq> MacToString 0x112233445567 MACSeparatorColon"
  using MacToString_inj [where a = "0x112233445566" and b = "0x112233445567" and sep = MACSeparatorColon] by auto

end
