(* ===== verification/Caches.thy ===== *)
theory Caches
  imports Prelude "HOL-Library.Sublist"
begin

text \<open>
  The contract of a flow cache, which \<open>aggregate\<close> (with \<open>packet\<close>) and \<open>bpf\<close> each implement: packets
  are stored in the record of their key, and a record is exported as one message. The locale states
  what storing and exporting do to the cache and to the messages sent; that nothing is lost,
  duplicated or mixed is proved here once.
\<close>

locale packet_cache =
  fixes cache :: "'s \<Rightarrow> 'k \<Rightarrow> 'r option"
    and exported :: "'s \<Rightarrow> 'm list"
    and packets :: "'r \<Rightarrow> 'p list"
    and key :: "'p \<Rightarrow> 'k"
    and build :: "'r \<Rightarrow> 'm"
    and good :: "'r \<Rightarrow> bool"
    and export :: "'k \<Rightarrow> 's \<Rightarrow> 's"
    and store :: "'p \<Rightarrow> 's \<Rightarrow> 's"
  assumes export_cache: "cache (export k s) = (cache s)(k := None)"
    and export_exported: "exported (export k s) = exported s @ (case cache s k of None \<Rightarrow> [] | Some r \<Rightarrow> [build r])"
    and store_cache: "\<exists>r. cache (store p s) = (cache s)(key p \<mapsto> r)
      \<and> packets r = (case cache s (key p) of None \<Rightarrow> [] | Some q \<Rightarrow> packets q) @ [p]
      \<and> ((\<forall>q. cache s (key p) = Some q \<longrightarrow> packets q \<noteq> [] \<and> good q) \<longrightarrow> good r)"
    and store_exported: "exported (store p s) = exported s"
begin

definition of_one_flow :: "'r \<Rightarrow> bool" where
  "of_one_flow r \<longleftrightarrow> packets r \<noteq> [] \<and> (\<forall>p\<in>set (packets r). key p = key (hd (packets r))) \<and> good r"

definition held :: "'s \<Rightarrow> 'k \<Rightarrow> 'p list" where
  "held s k = (case cache s k of None \<Rightarrow> [] | Some r \<Rightarrow> packets r)"

definition of_key :: "'k \<Rightarrow> 'r list \<Rightarrow> 'p list" where
  "of_key k rs = concat (map packets (filter (\<lambda>r. key (hd (packets r)) = k) rs))"

text \<open>
  The messages sent were built from the records \<open>rs\<close>, and for every key the packets exported under it
  followed by those still held are the packets \<open>ps\<close> of this key.
\<close>

definition conserved :: "'r list \<Rightarrow> 'p list \<Rightarrow> 's \<Rightarrow> bool" where
  "conserved rs ps s \<longleftrightarrow> exported s = map build rs \<and> (\<forall>r\<in>set rs. of_one_flow r)
     \<and> (\<forall>k r. cache s k = Some r \<longrightarrow> of_one_flow r \<and> key (hd (packets r)) = k)
     \<and> (\<forall>k. of_key k rs @ held s k = filter (\<lambda>p. key p = k) ps)"

definition export_where :: "('r \<Rightarrow> bool) \<Rightarrow> 'k \<Rightarrow> 's \<Rightarrow> 's" where
  "export_where due k s = (case cache s k of Some r \<Rightarrow> if due r then export k s else s | None \<Rightarrow> s)"

lemma conserved_empty:
  assumes "cache s = Map.empty" "exported s = []"
  shows "conserved [] [] s"
  using assms by (simp add: conserved_def of_key_def held_def)

lemma conserved_export:
  assumes "conserved rs ps s"
  shows "\<exists>rs'. conserved rs' ps (export k s)"
proof (cases "cache s k")
  case None
  then have "conserved rs ps (export k s)"
    using assms by (simp add: conserved_def export_cache export_exported held_def fun_upd_idem)
  then show ?thesis ..
next
  case (Some r)
  then have r: "of_one_flow r" "key (hd (packets r)) = k" using assms by (auto simp: conserved_def)
  have all: "of_key j rs @ held s j = filter (\<lambda>p. key p = j) ps" for j using assms by (simp add: conserved_def)
  have "of_key j (rs @ [r]) @ held (export k s) j = of_key j rs @ held s j" for j
    using Some r(2) by (simp add: of_key_def held_def export_cache)
  then have "conserved (rs @ [r]) ps (export k s)"
    using assms r(1) Some all by (simp add: conserved_def export_cache export_exported)
  then show ?thesis ..
qed

lemma conserved_store:
  assumes "conserved rs ps s"
  shows "conserved rs (ps @ [p]) (store p s)"
proof -
  obtain r where c: "cache (store p s) = (cache s)(key p \<mapsto> r)"
    and ps: "packets r = held s (key p) @ [p]"
    and g: "(\<forall>q. cache s (key p) = Some q \<longrightarrow> packets q \<noteq> [] \<and> good q) \<longrightarrow> good r"
    using store_cache [of p s] by (auto simp: held_def)
  have old: "of_one_flow q \<and> key (hd (packets q)) = key p" if "cache s (key p) = Some q" for q
    using assms that by (simp add: conserved_def)
  have "good r" using g old by (auto simp: of_one_flow_def)
  moreover have "\<forall>x\<in>set (held s (key p)). key x = key p"
    using old by (cases "cache s (key p)") (auto simp: held_def of_one_flow_def)
  moreover from this have "key (hd (packets r)) = key p" using ps by (cases "held s (key p)") auto
  ultimately have r: "of_one_flow r" "key (hd (packets r)) = key p" using ps by (auto simp: of_one_flow_def)
  have "held (store p s) k = (if k = key p then held s k @ [p] else held s k)" for k
    using c ps by (simp add: held_def)
  then show ?thesis
    using assms r c by (auto simp: conserved_def store_exported)
qed

lemma conserved_insert:
  assumes "conserved rs ps s"
  shows "\<exists>rs'. conserved rs' (ps @ [p]) (if fin then export (key p) (store p s) else store p s)"
  using conserved_store [OF assms, of p] conserved_export by auto

lemma conserved_export_where:
  assumes "conserved rs ps s"
  shows "\<exists>rs'. conserved rs' ps (fold (export_where due) keys s)"
  using assms
proof (induction keys arbitrary: rs s)
  case (Cons k keys)
  have "\<exists>rs'. conserved rs' ps (export_where due k s)"
    using Cons.prems conserved_export [OF Cons.prems, of k] by (auto simp: export_where_def split: option.split)
  then show ?case using Cons.IH by auto
qed auto

lemma insert_sends: "prefix (exported s) (exported (if fin then export (key p) (store p s) else store p s))"
  by (simp add: export_exported store_exported)

lemma export_where_sends: "prefix (exported s) (exported (fold (export_where due) keys s))"
proof (induction keys arbitrary: s)
  case (Cons k keys)
  have "prefix (exported s) (exported (export_where due k s))"
    by (simp add: export_where_def export_exported split: option.split)
  then show ?case using Cons prefix_order.trans by auto
qed simp

lemma export_where_cache:
  "cache (fold (export_where due) keys s) k =
     (case cache s k of Some r \<Rightarrow> if k \<in> set keys \<and> due r then None else Some r | None \<Rightarrow> None)"
proof (induction keys arbitrary: s)
  case (Cons j keys)
  have "cache (export_where due j s) k = (case cache s k of Some r \<Rightarrow> if k = j \<and> due r then None else Some r | None \<Rightarrow> None)"
    by (auto simp: export_where_def export_cache split: option.split)
  then show ?case using Cons.IH by (auto split: option.split if_splits)
qed (auto split: option.split)

end

end
