(* ===== verification/FlowCache.thy ===== *)
theory FlowCache
  imports FlowMessage GoNet Segments Caches
begin

text \<open>
  The flow cache (\<open>segments/filter/aggregate\<close>): packets of one flow are collected in a record and
  exported as one message when a TCP FIN is seen or a timeout passed. Packets come from
  \<open>gopacket\<close>; a packet is what the code reads of it, the metadata and the decoded layers. A
  time is its number of nanoseconds. \<open>proto.Merge\<close> is a parameter.
\<close>

section \<open>Packets and keys\<close>

datatype layer =
    LEthernet u16 "u8 list" "u8 list"
  | LIPv4 "u8 list" "u8 list" u8 u8 u8
  | LIPv6 "u8 list" "u8 list" u8 u8 u8 u32
  | LTCP u16 u16 bool bool bool bool bool bool
  | LUDP u16 u16
  | LICMPv4 u8 u8
  | LICMPv6 u8 u8
  | LOther

record packet =
  InterfaceIndex :: int
  Timestamp :: int
  Length :: int
  Layers :: "layer list"

record FlowKey =
  key_SrcAddr :: string
  key_DstAddr :: string
  key_SrcPort :: u16
  key_DstPort :: u16
  key_Proto :: u32
  key_IPTos :: u8
  key_InIface :: u32

definition bytes_string :: "u8 list \<Rightarrow> string" where
  "bytes_string bs = map (\<lambda>b. char_of (unat b)) bs"

text \<open>\<open>IP.To16\<close>; nil is the empty list.\<close>

definition ip_To16 :: "u8 list \<Rightarrow> u8 list" where
  "ip_To16 ip = (if length ip = 4 then v4InV6Prefix @ ip else if length ip = 16 then ip else [])"

definition NewFlowKeyFromFlow :: "EnrichedFlow \<Rightarrow> FlowKey" where
  "NewFlowKeyFromFlow flow =
     \<lparr>key_SrcAddr = ip_str (SrcAddrObj flow), key_DstAddr = ip_str (DstAddrObj flow),
      key_SrcPort = ucast (SrcPort flow), key_DstPort = ucast (DstPort flow),
      key_Proto = Proto flow, key_IPTos = ucast (IpTos flow), key_InIface = InIf flow\<rparr>"

fun key_layer :: "layer \<Rightarrow> FlowKey \<Rightarrow> FlowKey" where
  "key_layer (LIPv4 src dst proto tos ttl) k =
     k\<lparr>key_SrcAddr := bytes_string (ip_To16 src), key_DstAddr := bytes_string (ip_To16 dst),
       key_Proto := ucast proto, key_IPTos := tos\<rparr>"
| "key_layer (LIPv6 src dst nh tc hl fl) k =
     k\<lparr>key_SrcAddr := bytes_string src, key_DstAddr := bytes_string dst, key_Proto := ucast nh, key_IPTos := tc\<rparr>"
| "key_layer (LTCP sp dp urg ack psh rst syn fin) k = k\<lparr>key_SrcPort := sp, key_DstPort := dp\<rparr>"
| "key_layer (LUDP sp dp) k = k\<lparr>key_SrcPort := sp, key_DstPort := dp\<rparr>"
| "key_layer l k = k"

definition NewFlowKey :: "packet \<Rightarrow> FlowKey" where
  "NewFlowKey pkt = fold key_layer (Layers pkt)
     \<lparr>key_SrcAddr = [], key_DstAddr = [], key_SrcPort = 0, key_DstPort = 0, key_Proto = 0, key_IPTos = 0,
      key_InIface = word_of_int (InterfaceIndex pkt)\<rparr>"

section \<open>Records and messages\<close>

record FlowRecord =
  rec_TimeReceived :: int
  rec_LastUpdated :: int
  rec_SamplerAddress :: byte_slice
  rec_HardwareAddress :: "u8 list"
  rec_Packets :: "packet list"
  rec_Flows :: "EnrichedFlow list"

definition new_record :: FlowRecord where
  "new_record = \<lparr>rec_TimeReceived = 0, rec_LastUpdated = 0, rec_SamplerAddress = None, rec_HardwareAddress = [],
     rec_Packets = [], rec_Flows = []\<rparr>"

definition or_flag :: "bool \<Rightarrow> u32 \<Rightarrow> u32 \<Rightarrow> u32" where
  "or_flag b v x = (if b then x OR v else x)"

text \<open>What the first packet of a record contributes, layer by layer.\<close>

fun build_layer :: "u8 list \<Rightarrow> layer \<Rightarrow> EnrichedFlow \<Rightarrow> EnrichedFlow" where
  "build_layer hw (LEthernet etype src dst) m =
     (let m = m\<lparr>Etype := ucast etype\<rparr>;
          m = (if src = hw then m\<lparr>FlowDirection := 1, RemoteAddr := 2\<rparr> else m);
          m = (if dst = hw then m\<lparr>FlowDirection := 0, RemoteAddr := 1\<rparr> else m)
      in m)"
| "build_layer hw (LIPv4 src dst proto tos ttl) m =
     m\<lparr>SrcAddr := Some src, DstAddr := Some dst, Proto := ucast proto, IpTos := ucast tos, IpTtl := ucast ttl\<rparr>"
| "build_layer hw (LIPv6 src dst nh tc hl fl) m =
     m\<lparr>SrcAddr := Some src, DstAddr := Some dst, Proto := ucast nh, IpTos := ucast tc, IpTtl := ucast hl,
       Ipv6FlowLabel := fl\<rparr>"
| "build_layer hw (LTCP sp dp urg ack psh rst syn fin) m =
     m\<lparr>SrcPort := ucast sp, DstPort := ucast dp,
       TcpFlags := or_flag fin 1 (or_flag syn 2 (or_flag rst 4 (or_flag psh 8 (or_flag ack 16 (or_flag urg 32 (TcpFlags m))))))\<rparr>"
| "build_layer hw (LUDP sp dp) m = m\<lparr>SrcPort := ucast sp, DstPort := ucast dp\<rparr>"
| "build_layer hw (LICMPv4 t c) m = m\<lparr>IcmpType := ucast t, IcmpCode := ucast c\<rparr>"
| "build_layer hw (LICMPv6 t c) m = m\<lparr>IcmpType := ucast t, IcmpCode := ucast c\<rparr>"
| "build_layer hw LOther m = m"

definition count_packet :: "packet \<Rightarrow> EnrichedFlow \<Rightarrow> EnrichedFlow" where
  "count_packet pkt m = m\<lparr>Bytes := Bytes m + word_of_int (Length pkt), Packets := Packets m + 1\<rparr>"

fun build_packets :: "u8 list \<Rightarrow> packet list \<Rightarrow> EnrichedFlow \<Rightarrow> EnrichedFlow" where
  "build_packets hw [] m = m"
| "build_packets hw (pkt # pkts) m =
     fold count_packet (pkt # pkts)
       (fold (build_layer hw) (Layers pkt) (m\<lparr>InIf := word_of_int (InterfaceIndex pkt)\<rparr>))"

definition BuildFlow :: "(EnrichedFlow \<Rightarrow> EnrichedFlow \<Rightarrow> EnrichedFlow) \<Rightarrow> FlowRecord \<Rightarrow> EnrichedFlow" where
  "BuildFlow proto_Merge f =
     (let m = zero_flow\<lparr>Type := EnrichedFlow_EBPF, SamplerAddress := rec_SamplerAddress f,
                TimeReceived := word_of_int (rec_TimeReceived f),
                TimeFlowStart := word_of_int (rec_TimeReceived f),
                TimeFlowEnd := word_of_int (rec_LastUpdated f)\<rparr>
      in fold (\<lambda>flow m. proto_Merge m flow) (rec_Flows f) (build_packets (rec_HardwareAddress f) (rec_Packets f) m))"

section \<open>The exporter\<close>

text \<open>
  \<open>mutex\<close>: \<open>None\<close> is the nil pointer, \<open>Some b\<close> whether it is locked. \<open>sent\<close> collects the messages
  whose send on the channel \<open>Flows\<close> has begun; the channel is unbuffered, and the step relation below
  says when a send ends.
\<close>

record FlowExporter =
  activeTimeout :: int
  inactiveTimeout :: int
  samplerAddress :: byte_slice
  hardwareAddress :: "u8 list"
  mutex :: "bool option"
  flow_cache :: "FlowKey \<rightharpoonup> FlowRecord"
  sent :: "EnrichedFlow list"

definition NewFlowExporter :: "int option \<Rightarrow> int option \<Rightarrow> FlowExporter option" where
  "NewFlowExporter active inactive =
     (case (active, inactive) of
        (Some a, Some i) \<Rightarrow>
          Some \<lparr>activeTimeout = a, inactiveTimeout = i, samplerAddress = None, hardwareAddress = [],
                mutex = Some False, flow_cache = Map.empty, sent = []\<rparr>
      | _ \<Rightarrow> None)"

text \<open>\<open>Start\<close> with the beginning of the two goroutines it starts: \<open>NewTicker\<close> panics on an interval that is not positive.\<close>

definition Exporter_Start :: "byte_slice \<Rightarrow> u8 list \<Rightarrow> FlowExporter \<Rightarrow> FlowExporter outcome" where
  "Exporter_Start sampler hw f =
     (if inactiveTimeout f \<le> 0 \<or> activeTimeout f \<le> 0 then Inl (Panic ''non-positive interval for NewTicker'')
      else Inr (f\<lparr>samplerAddress := sampler, hardwareAddress := hw\<rparr>))"

text \<open>
  An operation that locks the mutex, run on its own with a receiver at the other end of \<open>Flows\<close>: it
  panics on a nil mutex, and never returns when it is locked.
\<close>

datatype 'a progress = Returns 'a | Blocks | Panics

definition with_lock :: "(FlowExporter \<Rightarrow> FlowExporter) \<Rightarrow> FlowExporter \<Rightarrow> FlowExporter progress" where
  "with_lock body f =
     (case mutex f of
        None \<Rightarrow> Panics
      | Some True \<Rightarrow> Blocks
      | Some False \<Rightarrow> Returns (body f))"

text \<open>
  \<open>export\<close> up to the beginning of its send, which is recorded in \<open>sent\<close>. That the goroutine then waits,
  with the lock, until somebody receives is part of \<open>fx_step\<close> below.
\<close>

definition export :: "(EnrichedFlow \<Rightarrow> EnrichedFlow \<Rightarrow> EnrichedFlow) \<Rightarrow> FlowKey \<Rightarrow> FlowExporter \<Rightarrow> FlowExporter" where
  "export mrg key f =
     (case flow_cache f key of
        None \<Rightarrow> f
      | Some r \<Rightarrow> f\<lparr>flow_cache := (flow_cache f)(key := None), sent := sent f @ [BuildFlow mrg r]\<rparr>)"

text \<open>\<open>pkt.Layer(layers.LayerTypeTCP)\<close> is the first TCP layer.\<close>

fun tcp_fin :: "layer \<Rightarrow> bool option" where
  "tcp_fin (LTCP sp dp urg ack psh rst syn fin) = Some fin"
| "tcp_fin l = None"

definition is_fin :: "packet \<Rightarrow> bool" where
  "is_fin pkt = (case List.map_filter tcp_fin (Layers pkt) of fin # _ \<Rightarrow> fin | [] \<Rightarrow> False)"

text \<open>The body of \<open>Insert\<close> between \<open>Lock\<close> and \<open>Unlock\<close>: the packet is stored, and exported on a FIN.\<close>

definition store_packet :: "packet \<Rightarrow> FlowExporter \<Rightarrow> FlowExporter" where
  "store_packet pkt f =
     (let key = NewFlowKey pkt;
          r = (case flow_cache f key of
                 Some r \<Rightarrow> r
               | None \<Rightarrow> new_record\<lparr>rec_TimeReceived := Timestamp pkt\<rparr>)
      in f\<lparr>flow_cache := (flow_cache f)(key \<mapsto>
             r\<lparr>rec_LastUpdated := Timestamp pkt, rec_SamplerAddress := samplerAddress f,
               rec_Packets := rec_Packets r @ [pkt]\<rparr>)\<rparr>)"

definition insert_body :: "(EnrichedFlow \<Rightarrow> EnrichedFlow \<Rightarrow> EnrichedFlow) \<Rightarrow> packet \<Rightarrow> FlowExporter \<Rightarrow> FlowExporter" where
  "insert_body mrg pkt f =
     (if is_fin pkt then export mrg (NewFlowKey pkt) (store_packet pkt f) else store_packet pkt f)"

definition Insert :: "(EnrichedFlow \<Rightarrow> EnrichedFlow \<Rightarrow> EnrichedFlow) \<Rightarrow> packet \<Rightarrow> FlowExporter \<Rightarrow> FlowExporter progress" where
  "Insert mrg pkt = with_lock (insert_body mrg pkt)"

text \<open>
  \<open>InsertFlow\<close> does not unlock the mutex. \<open>time.Unix(int64(s), 0)\<close> in nanoseconds.
\<close>

definition unix_seconds :: "u64 \<Rightarrow> int" where
  "unix_seconds s = sint s * 10 ^ 9"

definition InsertFlow :: "EnrichedFlow \<Rightarrow> FlowExporter \<Rightarrow> FlowExporter progress" where
  "InsertFlow flow = with_lock (\<lambda>f.
     let key = NewFlowKeyFromFlow flow;
         r = (case flow_cache f key of
                Some r \<Rightarrow> r
              | None \<Rightarrow> new_record\<lparr>rec_TimeReceived := unix_seconds (TimeFlowStart flow)\<rparr>);
         r = r\<lparr>rec_LastUpdated := unix_seconds (TimeFlowEnd flow), rec_SamplerAddress := samplerAddress f,
               rec_Flows := rec_Flows r @ [flow]\<rparr>
     in f\<lparr>flow_cache := (flow_cache f)(key \<mapsto> r), mutex := Some True\<rparr>)"

text \<open>
  One tick of the two export goroutines, whose tickers \<open>Exporter_Start\<close> has created; \<open>keys\<close> is the
  order in which the range loop visits the keys of the cache.
\<close>

definition export_due :: "(EnrichedFlow \<Rightarrow> EnrichedFlow \<Rightarrow> EnrichedFlow) \<Rightarrow> (FlowRecord \<Rightarrow> bool) \<Rightarrow> FlowKey list \<Rightarrow> FlowExporter \<Rightarrow> FlowExporter" where
  "export_due mrg due keys f =
     fold (\<lambda>key f. case flow_cache f key of
                      Some r \<Rightarrow> if due r then export mrg key f else f
                    | None \<Rightarrow> f) keys f"

definition exportInactive :: "(EnrichedFlow \<Rightarrow> EnrichedFlow \<Rightarrow> EnrichedFlow) \<Rightarrow> int \<Rightarrow> FlowKey list \<Rightarrow> FlowExporter \<Rightarrow> FlowExporter progress" where
  "exportInactive mrg now keys f =
     with_lock (export_due mrg (\<lambda>r. now - rec_LastUpdated r > inactiveTimeout f) keys) f"

definition exportActive :: "(EnrichedFlow \<Rightarrow> EnrichedFlow \<Rightarrow> EnrichedFlow) \<Rightarrow> int \<Rightarrow> FlowKey list \<Rightarrow> FlowExporter \<Rightarrow> FlowExporter progress" where
  "exportActive mrg now keys f =
     with_lock (export_due mrg (\<lambda>r. now - rec_TimeReceived r > activeTimeout f) keys) f"

text \<open>\<open>Aggregate.New\<close>: the zero \<open>FlowExporter\<close>, with a nil mutex and a nil cache.\<close>

definition Aggregate_New :: FlowExporter where
  "Aggregate_New = \<lparr>activeTimeout = 0, inactiveTimeout = 0, samplerAddress = None, hardwareAddress = [],
     mutex = None, flow_cache = Map.empty, sent = []\<rparr>"

text \<open>
  The loop of \<open>aggregate\<close> over the flows of its input, up to its close. The channel \<open>Flows\<close> of the
  zero exporter is nil, so the other case of the \<open>select\<close> is never ready.
\<close>

fun Aggregate_Run :: "EnrichedFlow list \<Rightarrow> FlowExporter \<Rightarrow> FlowExporter progress" where
  "Aggregate_Run [] f = Returns f"
| "Aggregate_Run (msg # msgs) f =
     (case InsertFlow msg f of Returns f' \<Rightarrow> Aggregate_Run msgs f' | Blocks \<Rightarrow> Blocks | Panics \<Rightarrow> Panics)"

section \<open>The goroutines of an exporter\<close>

text \<open>
  The goroutine of \<open>ConsumeFrom\<close>, the two timers, and the receiver of \<open>Flows\<close>. Whoever holds the lock
  goes through the rest of its loop over the cache, or waits for its message to be received.
\<close>

datatype holder =
    Unlocked
  | Exporting "FlowRecord \<Rightarrow> bool" "FlowKey list"
  | Sending EnrichedFlow "FlowRecord \<Rightarrow> bool" "FlowKey list"

record fx =
  fx_exporter :: FlowExporter
  fx_holder :: holder
  fx_todo :: "packet list"
  fx_received :: "EnrichedFlow list"
  fx_receiver :: bool

definition fx_start :: "FlowExporter \<Rightarrow> packet list \<Rightarrow> fx" where
  "fx_start f pkts = \<lparr>fx_exporter = f, fx_holder = Unlocked, fx_todo = pkts, fx_received = [], fx_receiver = True\<rparr>"

definition pending :: "fx \<Rightarrow> EnrichedFlow list" where
  "pending s = (case fx_holder s of Sending m _ _ \<Rightarrow> [m] | _ \<Rightarrow> [])"

definition set_lock :: "bool \<Rightarrow> FlowExporter \<Rightarrow> FlowExporter" where
  "set_lock b f = f\<lparr>mutex := Some b\<rparr>"

definition is_due :: "(FlowRecord \<Rightarrow> bool) \<Rightarrow> FlowKey \<Rightarrow> FlowExporter \<Rightarrow> bool" where
  "is_due due k f = (case flow_cache f k of Some r \<Rightarrow> due r | None \<Rightarrow> False)"

text \<open>
  A timer visits the keys of the cache in any order, at any time \<open>now\<close>. The receiver, the loop of
  the segment, may leave; nobody receives after that.
\<close>

inductive fx_step :: "(EnrichedFlow \<Rightarrow> EnrichedFlow \<Rightarrow> EnrichedFlow) \<Rightarrow> fx \<Rightarrow> fx \<Rightarrow> bool" for mrg where
  fx_insert: "mutex (fx_exporter s) = Some False \<Longrightarrow> fx_todo s = p # ps \<Longrightarrow> \<not> is_fin p \<Longrightarrow>
    fx_step mrg s (s\<lparr>fx_exporter := store_packet p (fx_exporter s), fx_todo := ps\<rparr>)"
| fx_insert_fin: "mutex (fx_exporter s) = Some False \<Longrightarrow> fx_todo s = p # ps \<Longrightarrow> is_fin p \<Longrightarrow>
    fx_step mrg s (s\<lparr>fx_exporter := store_packet p (set_lock True (fx_exporter s)), fx_todo := ps,
      fx_holder := Exporting (\<lambda>_. True) [NewFlowKey p]\<rparr>)"
| fx_tick_inactive: "mutex (fx_exporter s) = Some False \<Longrightarrow> set keys = dom (flow_cache (fx_exporter s)) \<Longrightarrow> distinct keys \<Longrightarrow>
    fx_step mrg s (s\<lparr>fx_exporter := set_lock True (fx_exporter s),
      fx_holder := Exporting (\<lambda>r. now - rec_LastUpdated r > inactiveTimeout (fx_exporter s)) keys\<rparr>)"
| fx_tick_active: "mutex (fx_exporter s) = Some False \<Longrightarrow> set keys = dom (flow_cache (fx_exporter s)) \<Longrightarrow> distinct keys \<Longrightarrow>
    fx_step mrg s (s\<lparr>fx_exporter := set_lock True (fx_exporter s),
      fx_holder := Exporting (\<lambda>r. now - rec_TimeReceived r > activeTimeout (fx_exporter s)) keys\<rparr>)"
| fx_keep: "fx_holder s = Exporting due (k # ks) \<Longrightarrow> \<not> is_due due k (fx_exporter s) \<Longrightarrow>
    fx_step mrg s (s\<lparr>fx_holder := Exporting due ks\<rparr>)"
| fx_send: "fx_holder s = Exporting due (k # ks) \<Longrightarrow> is_due due k (fx_exporter s) \<Longrightarrow>
    fx_step mrg s (s\<lparr>fx_exporter := export mrg k (fx_exporter s),
      fx_holder := Sending (BuildFlow mrg (the (flow_cache (fx_exporter s) k))) due ks\<rparr>)"
| fx_receive: "fx_holder s = Sending m due ks \<Longrightarrow> fx_receiver s \<Longrightarrow>
    fx_step mrg s (s\<lparr>fx_received := fx_received s @ [m], fx_holder := Exporting due ks\<rparr>)"
| fx_unlock: "fx_holder s = Exporting due [] \<Longrightarrow>
    fx_step mrg s (s\<lparr>fx_exporter := set_lock False (fx_exporter s), fx_holder := Unlocked\<rparr>)"
| fx_leave: "fx_receiver s \<Longrightarrow> fx_step mrg s (s\<lparr>fx_receiver := False\<rparr>)"

section \<open>Histories\<close>

datatype op = OpInsert packet | OpInactive int "FlowKey list" | OpActive int "FlowKey list"

fun apply_op :: "(EnrichedFlow \<Rightarrow> EnrichedFlow \<Rightarrow> EnrichedFlow) \<Rightarrow> op \<Rightarrow> FlowExporter \<Rightarrow> FlowExporter progress" where
  "apply_op mrg (OpInsert pkt) f = Insert mrg pkt f"
| "apply_op mrg (OpInactive now keys) f = exportInactive mrg now keys f"
| "apply_op mrg (OpActive now keys) f = exportActive mrg now keys f"

fun run_ops :: "(EnrichedFlow \<Rightarrow> EnrichedFlow \<Rightarrow> EnrichedFlow) \<Rightarrow> op list \<Rightarrow> FlowExporter \<Rightarrow> FlowExporter progress" where
  "run_ops mrg [] f = Returns f"
| "run_ops mrg (o' # os) f =
     (case apply_op mrg o' f of Returns f' \<Rightarrow> run_ops mrg os f' | Blocks \<Rightarrow> Blocks | Panics \<Rightarrow> Panics)"

text \<open>
  \<open>ConsumeFrom\<close>: it receives packets, the close of their channel, or the close of \<open>stop\<close>; the flag
  says whether it has returned.
\<close>

datatype pkts_event = Pkt packet | PktsClosed | StopClosed

fun Exporter_ConsumeFrom ::
  "(EnrichedFlow \<Rightarrow> EnrichedFlow \<Rightarrow> EnrichedFlow) \<Rightarrow> pkts_event list \<Rightarrow> FlowExporter \<Rightarrow> (FlowExporter \<times> bool) progress" where
  "Exporter_ConsumeFrom mrg [] f = Returns (f, False)"
| "Exporter_ConsumeFrom mrg (PktsClosed # es) f = Returns (f, True)"
| "Exporter_ConsumeFrom mrg (StopClosed # es) f = Returns (f, True)"
| "Exporter_ConsumeFrom mrg (Pkt pkt # es) f =
     (case Insert mrg pkt f of Returns f' \<Rightarrow> Exporter_ConsumeFrom mrg es f' | Blocks \<Rightarrow> Blocks | Panics \<Rightarrow> Panics)"

text \<open>It makes the insertions of the packets before the first close.\<close>

lemma ConsumeFrom_inserts:
  assumes "run_ops mrg (map OpInsert pkts) f = Returns f'"
  shows "Exporter_ConsumeFrom mrg (map Pkt pkts @ es) f = Exporter_ConsumeFrom mrg es f'"
  using assms by (induction pkts arbitrary: f) (auto split: progress.splits)

definition inserted :: "op list \<Rightarrow> packet list" where
  "inserted os = List.map_filter (\<lambda>o'. case o' of OpInsert pkt \<Rightarrow> Some pkt | _ \<Rightarrow> None) os"

section \<open>What the cache holds\<close>

definition rec_key :: "FlowRecord \<Rightarrow> FlowKey" where
  "rec_key r = NewFlowKey (hd (rec_Packets r))"

text \<open>The times of a record are those of its first and its last packet.\<close>

definition timed :: "FlowRecord \<Rightarrow> bool" where
  "timed r \<longleftrightarrow> rec_TimeReceived r = Timestamp (hd (rec_Packets r)) \<and> rec_LastUpdated r = Timestamp (last (rec_Packets r))
     \<and> rec_HardwareAddress r = [] \<and> rec_Flows r = []"

text \<open>A record of packets: all of one flow, with the times of the first and the last.\<close>

definition wf_rec :: "FlowRecord \<Rightarrow> bool" where
  "wf_rec r \<longleftrightarrow> rec_Packets r \<noteq> [] \<and> (\<forall>p\<in>set (rec_Packets r). NewFlowKey p = rec_key r) \<and> timed r"

definition cached :: "FlowExporter \<Rightarrow> FlowKey \<Rightarrow> packet list" where
  "cached f k = (case flow_cache f k of None \<Rightarrow> [] | Some r \<Rightarrow> rec_Packets r)"

definition packets_of :: "FlowKey \<Rightarrow> FlowRecord list \<Rightarrow> packet list" where
  "packets_of k rs = concat (map rec_Packets (filter (\<lambda>r. rec_key r = k) rs))"

interpretation fc: packet_cache flow_cache sent rec_Packets NewFlowKey "BuildFlow mrg" timed "export mrg" store_packet for mrg
proof
  fix k p f
  show "flow_cache (export mrg k f) = (flow_cache f)(k := None)"
    "sent (export mrg k f) = sent f @ (case flow_cache f k of None \<Rightarrow> [] | Some r \<Rightarrow> [BuildFlow mrg r])"
    by (auto simp: export_def fun_upd_idem split: option.split)
  show "sent (store_packet p f) = sent f" by (simp add: store_packet_def Let_def)
  show "\<exists>r. flow_cache (store_packet p f) = (flow_cache f)(NewFlowKey p \<mapsto> r)
      \<and> rec_Packets r = (case flow_cache f (NewFlowKey p) of None \<Rightarrow> [] | Some q \<Rightarrow> rec_Packets q) @ [p]
      \<and> ((\<forall>q. flow_cache f (NewFlowKey p) = Some q \<longrightarrow> rec_Packets q \<noteq> [] \<and> timed q) \<longrightarrow> timed r)"
    by (cases "flow_cache f (NewFlowKey p)") (auto simp: store_packet_def Let_def new_record_def timed_def)
qed

lemma fc_views: "fc.of_one_flow = wf_rec" "fc.held = cached" "fc.of_key = packets_of"
  by (simp_all add: fun_eq_iff fc.of_one_flow_def wf_rec_def rec_key_def fc.held_def cached_def fc.of_key_def packets_of_def)

text \<open>
  The invariant: the mutex is free, the messages sent were built from the records \<open>rs\<close>, and for every
  flow key the packets exported under it followed by the cached ones are the packets inserted under it.
\<close>

definition accounted :: "(EnrichedFlow \<Rightarrow> EnrichedFlow \<Rightarrow> EnrichedFlow) \<Rightarrow> FlowRecord list \<Rightarrow> packet list \<Rightarrow> FlowExporter \<Rightarrow> bool" where
  "accounted mrg rs ps f \<longleftrightarrow> mutex f = Some False \<and> fc.conserved mrg rs ps f"

lemma accounted_view:
  "accounted mrg rs ps f \<longleftrightarrow> mutex f = Some False \<and> sent f = map (BuildFlow mrg) rs \<and> (\<forall>r\<in>set rs. wf_rec r)
     \<and> (\<forall>k r. flow_cache f k = Some r \<longrightarrow> wf_rec r \<and> rec_key r = k)
     \<and> (\<forall>k. packets_of k rs @ cached f k = filter (\<lambda>p. NewFlowKey p = k) ps)"
  by (simp add: accounted_def fc.conserved_def fc_views rec_key_def)

lemma export_due_where: "export_due mrg due = fold (fc.export_where mrg due)"
  by (simp add: fun_eq_iff export_due_def fc.export_where_def [abs_def])

lemma mutex_keeps:
  "mutex (export mrg k f) = mutex f" "mutex (store_packet p f) = mutex f" "mutex (insert_body mrg p f) = mutex f"
  by (simp_all add: export_def store_packet_def insert_body_def Let_def split: option.split)

lemma mutex_export_due: "mutex (export_due mrg due keys f) = mutex f"
  unfolding export_due_def by (induction keys arbitrary: f) (auto simp: mutex_keeps split: option.split)

lemma export_due_accounted: "accounted mrg rs ps f \<Longrightarrow> \<exists>rs'. accounted mrg rs' ps (export_due mrg due keys f)"
  unfolding accounted_def mutex_export_due using fc.conserved_export_where by (auto simp: export_due_where)

lemma insert_body_accounted: "accounted mrg rs ps f \<Longrightarrow> \<exists>rs'. accounted mrg rs' (ps @ [pkt]) (insert_body mrg pkt f)"
  unfolding accounted_def mutex_keeps(3) unfolding insert_body_def using fc.conserved_insert by blast

lemma apply_op_accounted:
  assumes "accounted mrg rs ps f"
  shows "\<exists>f' rs'. apply_op mrg op f = Returns f' \<and> accounted mrg rs' (ps @ inserted [op]) f'"
proof -
  have m: "mutex f = Some False" using assms by (simp add: accounted_def)
  show ?thesis
    using insert_body_accounted [OF assms] export_due_accounted [OF assms] m
    by (cases op) (auto simp: Insert_def exportInactive_def exportActive_def with_lock_def inserted_def List.map_filter_def)
qed

lemma inserted_Cons: "inserted (op # ops) = inserted [op] @ inserted ops"
  by (simp add: inserted_def List.map_filter_def)

lemma run_ops_accounted:
  assumes "accounted mrg rs ps f"
  shows "\<exists>f' rs'. run_ops mrg ops f = Returns f' \<and> accounted mrg rs' (ps @ inserted ops) f'"
  using assms
proof (induction ops arbitrary: f rs ps)
  case Nil then show ?case by (auto simp: inserted_def List.map_filter_def)
next
  case (Cons op ops)
  obtain f1 rs1 where 1: "apply_op mrg op f = Returns f1" "accounted mrg rs1 (ps @ inserted [op]) f1"
    using apply_op_accounted [OF Cons.prems] by blast
  from Cons.IH [OF 1(2)] show ?case using 1(1) by (simp add: inserted_Cons [of op ops])
qed

lemma start_accounted:
  "NewFlowExporter a i = Some f \<Longrightarrow> Exporter_Start sampler hw f = Inr f' \<Longrightarrow> accounted mrg [] [] f'"
  by (auto simp: NewFlowExporter_def Exporter_Start_def accounted_def intro!: fc.conserved_empty split: option.splits if_splits)

lemma set_lock_conserved: "fc.conserved mrg rs ps (set_lock b f) = fc.conserved mrg rs ps f"
  by (simp add: fc.conserved_def fc.held_def set_lock_def)

text \<open>
  The invariant of the goroutines: the lock is held exactly while there is a holder, and the messages
  whose send has begun are those received and at most one pending.
\<close>

definition fx_inv :: "(EnrichedFlow \<Rightarrow> EnrichedFlow \<Rightarrow> EnrichedFlow) \<Rightarrow> packet list \<Rightarrow> fx \<Rightarrow> bool" where
  "fx_inv mrg pkts s \<longleftrightarrow> mutex (fx_exporter s) = Some (fx_holder s \<noteq> Unlocked)
     \<and> sent (fx_exporter s) = fx_received s @ pending s
     \<and> (\<exists>rs ps. pkts = ps @ fx_todo s \<and> fc.conserved mrg rs ps (fx_exporter s))"

lemma export_due_sent: "is_due due k f \<Longrightarrow> sent (export mrg k f) = sent f @ [BuildFlow mrg (the (flow_cache f k))]"
  by (auto simp: is_due_def export_def split: option.splits)

lemma store_sent: "sent (store_packet p f) = sent f" "sent (set_lock b f) = sent f" "mutex (set_lock b f) = Some b"
  by (simp_all add: store_packet_def set_lock_def Let_def)

lemmas fx_facts = fx_inv_def pending_def mutex_keeps export_due_sent store_sent set_lock_conserved

lemma fx_inv_step: "fx_step mrg s s' \<Longrightarrow> fx_inv mrg pkts s \<Longrightarrow> fx_inv mrg pkts s'"
proof (induction rule: fx_step.induct)
  case (fx_insert s p ps)
  then obtain rs qs where "pkts = (qs @ [p]) @ ps" "fc.conserved mrg rs (qs @ [p]) (store_packet p (fx_exporter s))"
    by (auto simp: fx_inv_def dest: fc.conserved_store)
  then show ?case using fx_insert by (fastforce simp: fx_facts)
next
  case (fx_insert_fin s p ps)
  then obtain rs qs where q: "pkts = (qs @ [p]) @ ps" "fc.conserved mrg rs qs (set_lock True (fx_exporter s))"
    by (auto simp: fx_inv_def set_lock_conserved)
  note q(1) fc.conserved_store [OF q(2), of p]
  moreover have "fx_holder s = Unlocked" using fx_insert_fin by (simp add: fx_inv_def)
  ultimately show ?case using fx_insert_fin by (fastforce simp: fx_facts)
next
  case (fx_send s due k ks)
  then obtain rs ps where "pkts = ps @ fx_todo s" "fc.conserved mrg rs ps (fx_exporter s)" by (auto simp: fx_inv_def)
  moreover from fc.conserved_export [OF this(2), of k] obtain rs' where "fc.conserved mrg rs' ps (export mrg k (fx_exporter s))" ..
  ultimately show ?case using fx_send by (auto simp: fx_facts)
qed (auto simp: fx_facts)

lemma fx_inv_run:
  assumes "NewFlowExporter a i = Some f0" "Exporter_Start sampler hw f0 = Inr f1" "(fx_step mrg)\<^sup>*\<^sup>* (fx_start f1 pkts) s"
  shows "fx_inv mrg pkts s"
  using assms(3)
proof (induction rule: rtranclp_induct)
  case base
  have "accounted mrg [] [] f1" by (rule start_accounted [OF assms(1,2)])
  then show ?case by (auto simp: fx_inv_def fx_start_def pending_def accounted_def fc.conserved_def)
next
  case (step s s')
  then show ?case using fx_inv_step by blast
qed

lemma fx_release:
  "fx_holder s = Exporting due ks \<Longrightarrow> fx_receiver s \<Longrightarrow>
     \<exists>s'. (fx_step mrg)\<^sup>*\<^sup>* s s' \<and> fx_holder s' = Unlocked \<and> fx_todo s' = fx_todo s \<and> fx_receiver s'"
proof (induction ks arbitrary: s)
  case Nil
  then show ?case using fx_unlock [OF Nil(1), of mrg]
    by (intro exI [of _ "s\<lparr>fx_exporter := set_lock False (fx_exporter s), fx_holder := Unlocked\<rparr>"]) auto
next
  case (Cons k ks)
  have "\<exists>t. (fx_step mrg)\<^sup>*\<^sup>* s t \<and> fx_holder t = Exporting due ks \<and> fx_receiver t \<and> fx_todo t = fx_todo s"
  proof (cases "is_due due k (fx_exporter s)")
    case True
    note 1 = fx_send [OF Cons.prems(1) True, of mrg]
    let ?t = "s\<lparr>fx_exporter := export mrg k (fx_exporter s),
      fx_holder := Sending (BuildFlow mrg (the (flow_cache (fx_exporter s) k))) due ks\<rparr>"
    have "fx_step mrg ?t (?t\<lparr>fx_received := fx_received ?t @ [BuildFlow mrg (the (flow_cache (fx_exporter s) k))], fx_holder := Exporting due ks\<rparr>)"
      by (rule fx_receive) (simp_all add: Cons.prems)
    with 1 have "(fx_step mrg)\<^sup>*\<^sup>* s (?t\<lparr>fx_received := fx_received ?t @ [BuildFlow mrg (the (flow_cache (fx_exporter s) k))], fx_holder := Exporting due ks\<rparr>)"
      by (meson converse_rtranclp_into_rtranclp r_into_rtranclp)
    then show ?thesis using Cons.prems(2) by (intro exI conjI) (assumption, auto)
  next
    case False
    then show ?thesis using fx_keep [OF Cons.prems(1) False, of mrg] Cons.prems(2)
      by (intro exI [of _ "s\<lparr>fx_holder := Exporting due ks\<rparr>"]) auto
  qed
  then obtain t where t: "(fx_step mrg)\<^sup>*\<^sup>* s t" "fx_holder t = Exporting due ks" "fx_receiver t" "fx_todo t = fx_todo s" by blast
  from Cons.IH [OF t(2,3)] t show ?case by (metis rtranclp_trans)
qed

text \<open>
  C12. The exporter loses, duplicates and mixes nothing. If its timeouts are positive (otherwise its start
  panics), then in every interleaving of arriving packets, timer ticks, and receptions at the other end of
  \<open>Flows\<close>: the messages received, with at most one whose send is still blocked, were built from records of one
  flow each, and for every flow the packets of these records, in order, followed by those still cached,
  are exactly the packets inserted for it. As long as the receiver is there, the lock can always be released again.
\<close>

theorem exporter_conserves:
  assumes "NewFlowExporter a i = Some f0" "Exporter_Start sampler hw f0 = Inr f1" "(fx_step mrg)\<^sup>*\<^sup>* (fx_start f1 pkts) s"
  shows "\<exists>rs ps. pkts = ps @ fx_todo s \<and> fx_received s @ pending s = map (BuildFlow mrg) rs \<and> (\<forall>r\<in>set rs. wf_rec r)
     \<and> (\<forall>k. packets_of k rs @ cached (fx_exporter s) k = filter (\<lambda>p. NewFlowKey p = k) ps)
     \<and> (fx_receiver s \<longrightarrow> (\<exists>s'. (fx_step mrg)\<^sup>*\<^sup>* s s' \<and> mutex (fx_exporter s') = Some False \<and> fx_todo s' = fx_todo s))"
proof -
  note inv = fx_inv_run [OF assms]
  have "\<exists>s'. (fx_step mrg)\<^sup>*\<^sup>* s s' \<and> fx_holder s' = Unlocked \<and> fx_todo s' = fx_todo s" if r: "fx_receiver s"
  proof (cases "fx_holder s")
    case (Sending m due ks)
    note 1 = fx_receive [OF this r, of mrg]
    let ?t = "s\<lparr>fx_received := fx_received s @ [m], fx_holder := Exporting due ks\<rparr>"
    have "fx_holder ?t = Exporting due ks" "fx_receiver ?t" "fx_todo ?t = fx_todo s" using r by simp_all
    then show ?thesis using fx_release [of ?t due ks mrg] converse_rtranclp_into_rtranclp [of "fx_step mrg", OF 1] by metis
  next
    case (Exporting due ks)
    then show ?thesis using fx_release r by blast
  qed auto
  moreover have "mutex (fx_exporter s') = Some False" if "(fx_step mrg)\<^sup>*\<^sup>* s s'" "fx_holder s' = Unlocked" for s'
    using fx_inv_run [OF assms(1,2) rtranclp_trans [OF assms(3) that(1)]] that(2) by (simp add: fx_inv_def)
  ultimately show ?thesis
    using inv unfolding fx_inv_def fc.conserved_def fc_views rec_key_def [symmetric] by metis
qed

text \<open>
  The reverse side of the send under the lock: once the receiver has left and a send has begun, nothing
  of the exporter moves any more; no packet is inserted, and the message is never received.
\<close>

theorem exporter_blocked:
  assumes "NewFlowExporter a i = Some f0" "Exporter_Start sampler hw f0 = Inr f1" "(fx_step mrg)\<^sup>*\<^sup>* (fx_start f1 pkts) s"
    and "\<not> fx_receiver s" "pending s \<noteq> []"
  shows "\<nexists>s'. fx_step mrg s s'"
proof -
  obtain m due ks where "fx_holder s = Sending m due ks" using assms(5) by (auto simp: pending_def split: holder.splits)
  moreover from this have "mutex (fx_exporter s) = Some True" using fx_inv_run [OF assms(1-3)] by (simp add: fx_inv_def)
  ultimately show ?thesis using assms(4) by (auto elim!: fx_step.cases)
qed

definition demo_packet :: packet where
  "demo_packet = \<lparr>InterfaceIndex = 3, Timestamp = 10, Length = 60,
     Layers = [LEthernet 0x800 [1] [2], LIPv4 [10, 0, 0, 1] [10, 0, 0, 2] 6 0 64, LTCP 1000 80 False False False False True False]\<rparr>"

section \<open>The messages\<close>

lemma fold_count_packet:
  "Packets (fold count_packet ps m) = Packets m + of_nat (length ps)"
  "Bytes (fold count_packet ps m) = Bytes m + (\<Sum>p\<leftarrow>ps. word_of_int (Length p))"
  by (induction ps arbitrary: m) (auto simp: count_packet_def)

lemma build_layer_counts:
  "Packets (build_layer hw l m) = Packets m" "Bytes (build_layer hw l m) = Bytes m"
  "TimeFlowStart (build_layer hw l m) = TimeFlowStart m" "TimeFlowEnd (build_layer hw l m) = TimeFlowEnd m"
  by (cases l; simp add: Let_def)+

lemma fold_build_layer_counts:
  "Packets (fold (build_layer hw) ls m) = Packets m" "Bytes (fold (build_layer hw) ls m) = Bytes m"
  "TimeFlowStart (fold (build_layer hw) ls m) = TimeFlowStart m" "TimeFlowEnd (fold (build_layer hw) ls m) = TimeFlowEnd m"
  by (induction ls arbitrary: m) (auto simp: build_layer_counts)

lemma fold_count_packet_times:
  "TimeFlowStart (fold count_packet ps m) = TimeFlowStart m" "TimeFlowEnd (fold count_packet ps m) = TimeFlowEnd m"
  "FlowDirection (fold count_packet ps m) = FlowDirection m" "RemoteAddr (fold count_packet ps m) = RemoteAddr m"
  by (induction ps arbitrary: m) (auto simp: count_packet_def)

text \<open>
  The message built from a record of packets counts them: \<open>Packets\<close> is their number and
  \<open>Bytes\<close> the sum of their lengths, both in 64-bit arithmetic, and the flow lasts from the
  time of the first packet to that of the last.
\<close>

theorem BuildFlow_counts:
  assumes "wf_rec r"
  shows "Packets (BuildFlow mrg r) = of_nat (length (rec_Packets r))
    \<and> Bytes (BuildFlow mrg r) = (\<Sum>p\<leftarrow>rec_Packets r. word_of_int (Length p))
    \<and> TimeFlowStart (BuildFlow mrg r) = word_of_int (Timestamp (hd (rec_Packets r)))
    \<and> TimeFlowEnd (BuildFlow mrg r) = word_of_int (Timestamp (last (rec_Packets r)))"
proof -
  obtain p ps where p: "rec_Packets r = p # ps" using assms by (cases "rec_Packets r") (auto simp: wf_rec_def)
  have z: "Packets zero_flow = 0" "Bytes zero_flow = 0" by (simp_all add: zero_flow_def)
  have r: "rec_Flows r = []" "rec_TimeReceived r = Timestamp p" "rec_LastUpdated r = Timestamp (last (p # ps))"
    using assms p by (auto simp: wf_rec_def timed_def)
  show ?thesis
    unfolding BuildFlow_def Let_def p r fold_simps(1)
    by (simp only: build_packets.simps fold_count_packet fold_count_packet_times fold_build_layer_counts)
      (simp add: z)
qed

definition demo_record :: FlowRecord where
  "demo_record = new_record\<lparr>rec_TimeReceived := 10, rec_LastUpdated := 10, rec_Packets := [demo_packet]\<rparr>"

theorem BuildFlow_counts_witness: "Bytes (BuildFlow (\<lambda>m _. m) demo_record) = 60"
  using BuildFlow_counts [of demo_record "\<lambda>m _. m"]
  by (simp add: demo_record_def wf_rec_def timed_def rec_key_def new_record_def demo_packet_def)

lemma build_layer_no_direction:
  assumes "\<forall>t s d. l = LEthernet t s d \<longrightarrow> s \<noteq> [] \<and> d \<noteq> []"
  shows "FlowDirection (build_layer [] l m) = FlowDirection m" "RemoteAddr (build_layer [] l m) = RemoteAddr m"
  using assms by (cases l; simp add: Let_def)+

lemma fold_build_layer_no_direction:
  assumes "\<forall>l\<in>set ls. \<forall>t s d. l = LEthernet t s d \<longrightarrow> s \<noteq> [] \<and> d \<noteq> []"
  shows "FlowDirection (fold (build_layer []) ls m) = FlowDirection m \<and> RemoteAddr (fold (build_layer []) ls m) = RemoteAddr m"
  using assms by (induction ls arbitrary: m) (auto simp: build_layer_no_direction)

text \<open>
  The direction of a flow is never detected: the hardware address given to \<open>Start\<close> is not
  copied into the records, so for frames with (non-empty) MAC addresses every exported message has
  direction and remote address 0, whatever the address of the interface is.
\<close>

theorem exporter_no_direction:
  assumes "NewFlowExporter a i = Some f0" "Exporter_Start sampler hw f0 = Inr f1" "run_ops mrg ops f1 = Returns f"
    and "\<forall>p\<in>set (inserted ops). \<forall>l\<in>set (Layers p). \<forall>t s d. l = LEthernet t s d \<longrightarrow> s \<noteq> [] \<and> d \<noteq> []"
    and "m \<in> set (sent f)"
  shows "FlowDirection m = 0 \<and> RemoteAddr m = 0"
proof -
  obtain rs where rs: "accounted mrg rs (inserted ops) f"
    using run_ops_accounted [OF start_accounted [OF assms(1,2)], of mrg ops] assms(3) by auto
  then obtain r where r: "r \<in> set rs" "m = BuildFlow mrg r" "wf_rec r" using assms(5) by (auto simp: accounted_view)
  obtain p ps where p: "rec_Packets r = p # ps" using r(3) by (cases "rec_Packets r") (auto simp: wf_rec_def)
  have "p \<in> set (packets_of (rec_key r) rs)" using r(1) p by (auto simp: packets_of_def)
  then have "p \<in> set (filter (\<lambda>p. NewFlowKey p = rec_key r) (inserted ops))"
    using rs unfolding accounted_view by (metis Un_iff set_append)
  then have "\<forall>l\<in>set (Layers p). \<forall>t s d. l = LEthernet t s d \<longrightarrow> s \<noteq> [] \<and> d \<noteq> []"
    using assms(4) by (meson filter_is_subset subsetD)
  note nd = fold_build_layer_no_direction [OF this]
  have z: "FlowDirection zero_flow = 0" "RemoteAddr zero_flow = 0" by (simp_all add: zero_flow_def)
  have e: "rec_Flows r = []" "rec_HardwareAddress r = []" using r(3) by (simp_all add: wf_rec_def timed_def)
  show ?thesis
    unfolding r(2) BuildFlow_def Let_def p e fold_simps(1)
    by (simp only: build_packets.simps fold_count_packet_times nd) (simp add: z)
qed

definition fin_packet :: packet where
  "fin_packet = \<lparr>InterfaceIndex = 3, Timestamp = 10, Length = 60,
     Layers = [LEthernet 0x800 [1] [2], LTCP 1000 80 False True False False False True]\<rparr>"

definition demo_exporter :: FlowExporter where
  "demo_exporter = \<lparr>activeTimeout = 5, inactiveTimeout = 5, samplerAddress = None, hardwareAddress = [1],
     mutex = Some False, flow_cache = Map.empty, sent = []\<rparr>"

lemma demo_started: "\<exists>f0. NewFlowExporter (Some 5) (Some 5) = Some f0 \<and> Exporter_Start None [1] f0 = Inr demo_exporter"
  by (simp add: NewFlowExporter_def Exporter_Start_def demo_exporter_def)

lemma fin_exported: "\<exists>f m. run_ops (\<lambda>m _. m) [OpInsert fin_packet] demo_exporter = Returns f \<and> sent f = [m]"
  by (auto simp: Insert_def with_lock_def demo_exporter_def insert_body_def Let_def export_def
      is_fin_def fin_packet_def List.map_filter_def store_packet_def)

theorem exporter_no_direction_witness:
  "\<exists>f m. run_ops (\<lambda>m _. m) [OpInsert fin_packet] demo_exporter = Returns f \<and> sent f = [m] \<and> FlowDirection m = 0"
proof -
  obtain f m where f: "run_ops (\<lambda>m _. m) [OpInsert fin_packet] demo_exporter = Returns f" "sent f = [m]"
    using fin_exported by blast
  obtain f0 where n: "NewFlowExporter (Some 5) (Some 5) = Some f0" "Exporter_Start None [1] f0 = Inr demo_exporter"
    using demo_started by blast
  have "FlowDirection m = 0 \<and> RemoteAddr m = 0"
    by (rule exporter_no_direction [OF n f(1)]) (auto simp: f(2) inserted_def List.map_filter_def fin_packet_def)
  then show ?thesis using f by blast
qed

text \<open>A packet with FIN: its record is removed from the cache, and the send begins.\<close>

lemma demo_sending:
  "\<exists>s m. (fx_step (\<lambda>m _. m))\<^sup>*\<^sup>* (fx_start demo_exporter [fin_packet]) s
     \<and> fx_todo s = [] \<and> pending s = [m] \<and> fx_received s = [] \<and> fx_receiver s"
proof -
  let ?s0 = "fx_start demo_exporter [fin_packet]"
  let ?s1 = "?s0\<lparr>fx_exporter := store_packet fin_packet (set_lock True demo_exporter), fx_todo := [],
      fx_holder := Exporting (\<lambda>_. True) [NewFlowKey fin_packet]\<rparr>"
  have "is_fin fin_packet" by (simp add: is_fin_def fin_packet_def map_filter_simps)
  then have "fx_step (\<lambda>m _. m) ?s0 ?s1"
    using fx_insert_fin [of ?s0 fin_packet "[]" "\<lambda>m _. m"] by (simp add: fx_start_def) (simp add: demo_exporter_def)
  moreover have due: "is_due (\<lambda>_. True) (NewFlowKey fin_packet) (fx_exporter ?s1)"
    by (simp add: is_due_def store_packet_def Let_def)
  define s2 where "s2 = ?s1\<lparr>fx_exporter := export (\<lambda>m _. m) (NewFlowKey fin_packet) (fx_exporter ?s1),
      fx_holder := Sending (BuildFlow (\<lambda>m _. m) (the (flow_cache (fx_exporter ?s1) (NewFlowKey fin_packet)))) (\<lambda>_. True) []\<rparr>"
  then have s2: "fx_step (\<lambda>m _. m) ?s1 s2"
    using fx_send [of ?s1 "\<lambda>_. True" "NewFlowKey fin_packet" "[]", OF _ due] by simp
  moreover have "fx_todo s2 = []" "\<exists>m. pending s2 = [m]" "fx_received s2 = []" "fx_receiver s2"
    by (simp_all add: s2_def pending_def fx_start_def)
  moreover from calculation have "(fx_step (\<lambda>m _. m))\<^sup>*\<^sup>* ?s0 s2" by (meson converse_rtranclp_into_rtranclp r_into_rtranclp)
  ultimately show ?thesis by blast
qed

theorem exporter_conserves_witness:
  "\<exists>s m r. (fx_step (\<lambda>m _. m))\<^sup>*\<^sup>* (fx_start demo_exporter [fin_packet]) s \<and> fx_received s = [] \<and> pending s = [m]
     \<and> m = BuildFlow (\<lambda>m _. m) r \<and> wf_rec r"
proof -
  obtain s m where s: "(fx_step (\<lambda>m _. m))\<^sup>*\<^sup>* (fx_start demo_exporter [fin_packet]) s" "pending s = [m]" "fx_received s = []"
    using demo_sending by blast
  obtain f0 where n: "NewFlowExporter (Some 5) (Some 5) = Some f0" "Exporter_Start None [1] f0 = Inr demo_exporter"
    using demo_started by blast
  from exporter_conserves [OF n s(1)] obtain rs where rs: "fx_received s @ pending s = map (BuildFlow (\<lambda>m _. m)) rs" "\<forall>r\<in>set rs. wf_rec r"
    by blast
  then obtain r where "rs = [r]" "m = BuildFlow (\<lambda>m _. m) r" using s by auto
  with s rs show ?thesis by auto
qed

theorem exporter_blocked_witness:
  "\<exists>s. (fx_step (\<lambda>m _. m))\<^sup>*\<^sup>* (fx_start demo_exporter [fin_packet]) s \<and> \<not> (\<exists>s'. fx_step (\<lambda>m _. m) s s')"
proof -
  obtain s m where s: "(fx_step (\<lambda>m _. m))\<^sup>*\<^sup>* (fx_start demo_exporter [fin_packet]) s" "pending s = [m]" "fx_receiver s"
    using demo_sending by blast
  obtain f0 where n: "NewFlowExporter (Some 5) (Some 5) = Some f0" "Exporter_Start None [1] f0 = Inr demo_exporter"
    using demo_started by blast
  have t: "(fx_step (\<lambda>m _. m))\<^sup>*\<^sup>* (fx_start demo_exporter [fin_packet]) (s\<lparr>fx_receiver := False\<rparr>)"
    using s(1) fx_leave [OF s(3)] by (rule rtranclp.rtrancl_into_rtrancl)
  have "pending (s\<lparr>fx_receiver := False\<rparr>) \<noteq> []" using s(2) by (simp add: pending_def)
  then show ?thesis using exporter_blocked [OF n t] t by auto
qed

section \<open>Timeouts\<close>

text \<open>
  A tick of the inactivity timer that visits all keys of the cache removes exactly the records
  that were not updated for longer than the timeout and keeps the others as they are.
\<close>

theorem exportInactive_removes:
  assumes "mutex f = Some False" "dom (flow_cache f) \<subseteq> set keys"
  shows "\<exists>f'. exportInactive mrg now keys f = Returns f'
    \<and> (\<forall>k. flow_cache f' k =
          (case flow_cache f k of
             Some r \<Rightarrow> if now - rec_LastUpdated r > inactiveTimeout f then None else Some r
           | None \<Rightarrow> None))"
proof -
  have "k \<in> set keys" if "flow_cache f k = Some r" for k r using that assms(2) by blast
  then show ?thesis
    using assms(1) by (auto simp: exportInactive_def with_lock_def export_due_where fc.export_where_cache split: option.split)
qed

theorem exportInactive_removes_witness:
  "\<exists>f'. exportInactive (\<lambda>m _. m) 7 [] (the (NewFlowExporter (Some 5) (Some 5))) = Returns f'
    \<and> (\<forall>k. flow_cache f' k =
          (case flow_cache (the (NewFlowExporter (Some 5) (Some 5))) k of
             Some r \<Rightarrow> if 7 - rec_LastUpdated r > inactiveTimeout (the (NewFlowExporter (Some 5) (Some 5))) then None else Some r
           | None \<Rightarrow> None))"
  by (rule exportInactive_removes) (simp_all add: NewFlowExporter_def)

section \<open>The aggregate segment\<close>

text \<open>
  The \<open>aggregate\<close> segment panics on its first flow, and forwards none: its exporter is the zero value,
  whose mutex pointer is nil.
\<close>

theorem aggregate_panics: "Aggregate_Run msgs Aggregate_New = (if msgs = [] then Returns Aggregate_New else Panics)"
  by (cases msgs) (simp_all add: InsertFlow_def with_lock_def Aggregate_New_def)

text \<open>
  \<open>InsertFlow\<close> never releases the lock: after it has returned once, every further insertion and
  every timer tick blocks forever.
\<close>

theorem InsertFlow_deadlocks:
  assumes "InsertFlow flow f = Returns f'"
  shows "apply_op mrg op f' = Blocks \<and> InsertFlow flow' f' = Blocks"
proof -
  have "mutex f' = Some True"
    using assms by (auto simp: InsertFlow_def with_lock_def Let_def split: option.splits bool.splits)
  then show ?thesis
    by (cases op) (simp_all add: Insert_def InsertFlow_def exportInactive_def exportActive_def with_lock_def)
qed

theorem InsertFlow_deadlocks_witness:
  "\<exists>f'. InsertFlow zero_flow (the (NewFlowExporter (Some 5) (Some 5))) = Returns f' \<and> InsertFlow zero_flow f' = Blocks"
proof -
  obtain f' where "InsertFlow zero_flow (the (NewFlowExporter (Some 5) (Some 5))) = Returns f'"
    by (simp add: InsertFlow_def with_lock_def NewFlowExporter_def)
  then show ?thesis using InsertFlow_deadlocks by blast
qed

end
