(* ===== verification/Toptalkers.thy ===== *)
theory Toptalkers
  imports FlowMessage GoFloat Segments
begin

text \<open>
  The segment \<open>toptalkers_metrics\<close> (\<open>segments/analysis/toptalkers_metrics\<close>): per-address records
  with a ring of traffic buckets, the clock that advances them and compares averages with the
  thresholds, the cleanup, and the filter that passes flows of addresses above the thresholds.
  The HTTP endpoint and the Prometheus client are not modelled; \<open>Collect\<close> gives the samples.
\<close>

section \<open>Parameters\<close>

record PrometheusMetricsParams =
  TrafficType :: string
  Buckets :: int
  ThresholdBuckets :: int
  ReportBuckets :: int
  BucketDuration :: int
  ThresholdBps :: u64
  ThresholdPps :: u64
  RelevantAddress :: string
  CleanupWindowSizes :: int

definition zero_params :: PrometheusMetricsParams where
  "zero_params = \<lparr>TrafficType = [], Buckets = 0, ThresholdBuckets = 0, ReportBuckets = 0, BucketDuration = 0,
     ThresholdBps = 0, ThresholdPps = 0, RelevantAddress = [], CleanupWindowSizes = 0\<rparr>"

definition InitDefaultPrometheusMetricParams :: "PrometheusMetricsParams \<Rightarrow> PrometheusMetricsParams" where
  "InitDefaultPrometheusMetricParams p = p\<lparr>
     Buckets := if Buckets p = 0 then 60 else Buckets p,
     ThresholdBuckets := if ThresholdBuckets p = 0 then 60 else ThresholdBuckets p,
     ReportBuckets := if ReportBuckets p = 0 then 60 else ReportBuckets p,
     BucketDuration := if BucketDuration p = 0 then 1 else BucketDuration p,
     RelevantAddress := if RelevantAddress p = [] then ''destination'' else RelevantAddress p,
     CleanupWindowSizes := if CleanupWindowSizes p = 0 then 5 else CleanupWindowSizes p\<rparr>"

text \<open>
  A positive integer option: an empty or unparsable value keeps the dflt, a parsed one that is
  not positive is an error (\<open>None\<close>).
\<close>

definition parse_positive :: "string \<Rightarrow> int \<Rightarrow> int option" where
  "parse_positive v dflt =
     (if v \<noteq> [] then
        (case parse_int 64 v of
           Some n \<Rightarrow> if n \<le> 0 then None else Some n
         | None \<Rightarrow> Some dflt)
      else Some dflt)"

definition parse_threshold :: "string \<Rightarrow> u64 \<Rightarrow> u64" where
  "parse_threshold v dflt =
     (if v \<noteq> [] then (case parse_uint 32 v of Some n \<Rightarrow> of_nat n | None \<Rightarrow> dflt) else dflt)"

definition ParsePrometheusConfig :: "config_map \<Rightarrow> PrometheusMetricsParams \<Rightarrow> PrometheusMetricsParams option" where
  "ParsePrometheusConfig config p =
     (case parse_positive (cfg config ''buckets'') (Buckets p) of None \<Rightarrow> None | Some b \<Rightarrow>
     (case parse_positive (cfg config ''thresholdbuckets'') (ThresholdBuckets p) of None \<Rightarrow> None | Some tb \<Rightarrow>
     (case parse_positive (cfg config ''reportbuckets'') (ReportBuckets p) of None \<Rightarrow> None | Some rb \<Rightarrow>
        Some (p\<lparr>Buckets := b, ThresholdBuckets := tb, ReportBuckets := rb,
          TrafficType := if cfg config ''traffictype'' \<noteq> [] then cfg config ''traffictype'' else TrafficType p,
          ThresholdBps := parse_threshold (cfg config ''thresholdbps'') (ThresholdBps p),
          ThresholdPps := parse_threshold (cfg config ''thresholdpps'') (ThresholdPps p),
          RelevantAddress := if cfg config ''relevantaddress'' \<in> {''destination'', ''source'', ''both'', ''connection''}
            then cfg config ''relevantaddress'' else RelevantAddress p\<rparr>))))"

section \<open>Records\<close>

record Record =
  FwdBytes :: "u64 list"
  FwdPackets :: "u64 list"
  DropBytes :: "u64 list"
  DropPackets :: "u64 list"
  capacity :: nat
  pointer :: nat
  aboveThreshold :: bool
  Rec_Address :: string

definition NewRecord :: "nat \<Rightarrow> string \<Rightarrow> Record" where
  "NewRecord windowSize address =
     \<lparr>FwdBytes = replicate windowSize 0, FwdPackets = replicate windowSize 0, DropBytes = replicate windowSize 0,
      DropPackets = replicate windowSize 0, capacity = windowSize, pointer = 0, aboveThreshold = False,
      Rec_Address = address\<rparr>"

definition bump :: "u64 list \<Rightarrow> nat \<Rightarrow> u64 \<Rightarrow> u64 list" where
  "bump xs i n = xs[i := xs ! i + n]"

definition Append :: "u64 \<Rightarrow> u64 \<Rightarrow> bool \<Rightarrow> Record \<Rightarrow> Record" where
  "Append bytes packets statusFwd r =
     (if statusFwd
      then r\<lparr>FwdBytes := bump (FwdBytes r) (pointer r) bytes, FwdPackets := bump (FwdPackets r) (pointer r) packets\<rparr>
      else r\<lparr>DropBytes := bump (DropBytes r) (pointer r) bytes, DropPackets := bump (DropPackets r) (pointer r) packets\<rparr>)"

definition isEmpty :: "Record \<Rightarrow> bool" where
  "isEmpty r = (\<forall>i<capacity r. \<not> (FwdPackets r ! i > 0 \<or> DropPackets r ! i > 0))"

text \<open>The backward walk over the ring that both loops make, summing one array.\<close>

definition prev_pos :: "nat \<Rightarrow> nat \<Rightarrow> nat" where
  "prev_pos cap pos = (if pos \<le> 0 then cap - 1 else pos - 1)"

fun walk_sum :: "nat \<Rightarrow> nat \<Rightarrow> u64 list \<Rightarrow> nat \<Rightarrow> u64" where
  "walk_sum 0 cap xs pos = 0"
| "walk_sum (Suc n) cap xs pos = xs ! prev_pos cap pos + walk_sum n cap xs (prev_pos cap pos)"

text \<open>\<open>float64(sum) / float64(buckets * bucketDuration)\<close>.\<close>

definition rate :: "u64 \<Rightarrow> nat \<Rightarrow> int \<Rightarrow> rat" where
  "rate amount buckets bucketDuration = f64_div (u64_to_f64 amount) (f64 (of_int (int buckets * bucketDuration)))"

definition GetMetrics :: "nat \<Rightarrow> int \<Rightarrow> Record \<Rightarrow> rat \<times> rat \<times> rat \<times> rat \<times> string" where
  "GetMetrics buckets bucketDuration r =
     (let buckets = (if buckets = 0 then capacity r else buckets);
          s = (\<lambda>xs. walk_sum buckets (capacity r) xs (pointer r))
      in (rate (s (FwdBytes r) * 8) buckets bucketDuration, rate (s (FwdPackets r)) buckets bucketDuration,
          rate (s (DropBytes r) * 8) buckets bucketDuration, rate (s (DropPackets r)) buckets bucketDuration,
          Rec_Address r))"

text \<open>\<open>ovf\<close>: what the platform does when the average does not fit in 64 bits.\<close>

definition tick :: "(rat \<Rightarrow> u64) \<Rightarrow> nat \<Rightarrow> int \<Rightarrow> u64 \<Rightarrow> u64 \<Rightarrow> Record \<Rightarrow> Record" where
  "tick ovf thresholdBuckets bucketDuration thresholdBps thresholdPps r =
     (let p = (if pointer r + 1 \<ge> capacity r then 0 else pointer r + 1);
          tb = (if thresholdBuckets = 0 then capacity r else thresholdBuckets);
          sumBytes = walk_sum tb (capacity r) (map2 (+) (FwdBytes r) (DropBytes r)) p;
          sumPackets = walk_sum tb (capacity r) (map2 (+) (FwdPackets r) (DropPackets r)) p;
          bps = f64_to_u64 ovf (rate (sumBytes * 8) tb bucketDuration);
          pps = f64_to_u64 ovf (rate sumPackets tb bucketDuration)
      in r\<lparr>pointer := p, aboveThreshold := (bps > thresholdBps \<and> pps > thresholdPps),
           FwdBytes := (FwdBytes r)[p := 0], FwdPackets := (FwdPackets r)[p := 0],
           DropBytes := (DropBytes r)[p := 0], DropPackets := (DropPackets r)[p := 0]\<rparr>)"

section \<open>The database\<close>

record Database =
  database :: "string \<rightharpoonup> Record"
  params :: PrometheusMetricsParams
  cleanupCounter :: int
  dbSize :: nat

definition NewDatabase :: "PrometheusMetricsParams \<Rightarrow> Database" where
  "NewDatabase p = \<lparr>database = Map.empty, params = p,
     cleanupCounter = Buckets p * CleanupWindowSizes p, dbSize = 0\<rparr>"

definition record_key :: "string \<Rightarrow> string \<Rightarrow> string" where
  "record_key typeLabel address = typeLabel @ '': '' @ address"

definition GetTypedRecord :: "string \<Rightarrow> string \<Rightarrow> Database \<Rightarrow> Record \<times> Database" where
  "GetTypedRecord typeLabel address db =
     (let key = record_key typeLabel address in
      case database db key of
        Some r \<Rightarrow> (r, db)
      | None \<Rightarrow> let r = NewRecord (nat (ReportBuckets (params db))) address
                in (r, db\<lparr>database := (database db)(key \<mapsto> r)\<rparr>))"

definition GetRecord :: "string \<Rightarrow> Database \<Rightarrow> Record \<times> Database" where
  "GetRecord address = GetTypedRecord [] address"

text \<open>One tick of the clock over all records.\<close>

definition Clock_tick :: "(rat \<Rightarrow> u64) \<Rightarrow> Database \<Rightarrow> Database" where
  "Clock_tick ovf db = db\<lparr>database := \<lambda>k. map_option
     (tick ovf (nat (ThresholdBuckets (params db))) (BucketDuration (params db)) (ThresholdBps (params db))
        (ThresholdPps (params db))) (database db k)\<rparr>"

text \<open>One tick of the cleanup.\<close>

definition Cleanup_tick :: "Database \<Rightarrow> Database" where
  "Cleanup_tick db =
     (let db = db\<lparr>cleanupCounter := cleanupCounter db - 1\<rparr>;
          db = (if cleanupCounter db \<le> 0
                then db\<lparr>cleanupCounter := Buckets (params db) * CleanupWindowSizes (params db),
                        database := \<lambda>k. case database db k of
                          Some r \<Rightarrow> if isEmpty r then None else Some r | None \<Rightarrow> None\<rparr>
                else db)
      in db\<lparr>dbSize := card (dom (database db))\<rparr>)"

text \<open>The samples \<open>Collect\<close> emits for one record: name, value, address, forwarding status.\<close>

definition Collect_record :: "Database \<Rightarrow> Record \<Rightarrow> (string \<times> rat \<times> string \<times> string) list" where
  "Collect_record db r =
     (if aboveThreshold r then
        (case GetMetrics (nat (ReportBuckets (params db))) (BucketDuration (params db)) r of
           (fb, fp, dbps, dp, a) \<Rightarrow>
             [(''traffic_bps'', fb, a, ''forwarded''), (''traffic_bps'', dbps, a, ''dropped''),
              (''traffic_pps'', fp, a, ''forwarded''), (''traffic_pps'', dp, a, ''dropped'')])
      else [])"

section \<open>The segment\<close>

record ToptalkersMetrics =
  tt_db :: Database
  tt_Drops :: bool

definition ToptalkersMetrics_New :: "config_map \<Rightarrow> ToptalkersMetrics option" where
  "ToptalkersMetrics_New config =
     map_option (\<lambda>p. \<lparr>tt_db = NewDatabase p, tt_Drops = False\<rparr>)
       (ParsePrometheusConfig config (InitDefaultPrometheusMetricParams zero_params))"

text \<open>The keys of a flow; \<open>connection\<close> is accepted by the configuration but has no case.\<close>

definition flow_keys :: "string \<Rightarrow> EnrichedFlow \<Rightarrow> string list" where
  "flow_keys rel m =
     (if rel = ''source'' then [ip_str (SrcAddrObj m)]
      else if rel = ''destination'' then [ip_str (DstAddrObj m)]
      else if rel = ''both'' then [ip_str (SrcAddrObj m), ip_str (DstAddrObj m)]
      else [])"

text \<open>The loop over the keys: account for the flow and note whether a record is above.\<close>

fun account :: "EnrichedFlow \<Rightarrow> string list \<Rightarrow> Database \<Rightarrow> bool \<Rightarrow> bool \<times> Database" where
  "account m [] db forward = (forward, db)"
| "account m (key # keys) db forward =
     (let (r, db) = GetRecord key db;
          r = Append (Bytes m) (Packets m) (IsForwarded m) r;
          db = db\<lparr>database := (database db)(record_key [] key \<mapsto> r)\<rparr>
      in account m keys db (forward \<or> aboveThreshold r))"

definition ToptalkersMetrics_step :: "(ToptalkersMetrics, EnrichedFlow) step" where
  "ToptalkersMetrics_step s m =
     (let (forward, db) = account m (flow_keys (RelevantAddress (params (tt_db s))) m) (tt_db s) False
      in Inr (if forward then [Out m] else send_drop (tt_Drops s) m, s\<lparr>tt_db := db\<rparr>))"

section \<open>Rings as sliding windows\<close>

definition wf_record :: "Record \<Rightarrow> bool" where
  "wf_record r \<longleftrightarrow> 0 < capacity r \<and> pointer r < capacity r \<and> length (FwdBytes r) = capacity r
     \<and> length (FwdPackets r) = capacity r \<and> length (DropBytes r) = capacity r \<and> length (DropPackets r) = capacity r"

text \<open>The ring of one array read backwards from the pointer: the current bucket, then older ones.\<close>

definition window :: "Record \<Rightarrow> u64 list \<Rightarrow> u64 list" where
  "window r xs = map (\<lambda>i. xs ! ((pointer r + capacity r - i) mod capacity r)) [0..<capacity r]"

text \<open>What a record stands for: its four windows.\<close>

definition windows :: "Record \<Rightarrow> (u64 list \<times> u64 list) \<times> (u64 list \<times> u64 list)" where
  "windows r = ((window r (FwdBytes r), window r (FwdPackets r)), (window r (DropBytes r), window r (DropPackets r)))"

definition add_head :: "u64 \<Rightarrow> u64 list \<Rightarrow> u64 list" where
  "add_head n w = (case w of [] \<Rightarrow> [] | x # xs \<Rightarrow> (x + n) # xs)"

definition shift :: "u64 list \<Rightarrow> u64 list" where
  "shift w = 0 # butlast w"

lemma length_window [simp]: "length (window r xs) = capacity r"
  by (simp add: window_def)

lemma length_add_head [simp]: "length (add_head n w) = length w"
  by (simp add: add_head_def split: list.split)

lemma wf_NewRecord: "0 < n \<Longrightarrow> wf_record (NewRecord n a)"
  by (simp add: wf_record_def NewRecord_def)

lemma wf_Append: "wf_record r \<Longrightarrow> wf_record (Append b p f r)"
  by (simp add: wf_record_def Append_def bump_def)

lemma wf_tick: "wf_record r \<Longrightarrow> wf_record (tick ovf tb d bt pt r)"
  by (auto simp: wf_record_def tick_def Let_def)

lemma pos_mod:
  fixes p c i :: nat
  assumes a: "p < c" "i < c"
  shows "(p + c - i) mod c = (if i \<le> p then p - i else p + c - i)"
proof -
  show ?thesis
  proof (cases "i \<le> p")
    case True
    then have "(p + c - i) mod c = (p - i) mod c" using mod_add_self2 [of "p - i" c] by (simp add: algebra_simps)
    then show ?thesis using True a by simp
  qed (use a in simp)
qed

lemma window_bump:
  assumes "0 < capacity r" "pointer r < capacity r" "length xs = capacity r"
  shows "window r (bump xs (pointer r) n) = add_head n (window r xs)"
proof (rule nth_equalityI)
  fix i assume "i < length (window r (bump xs (pointer r) n))"
  then have i: "i < capacity r" by simp
  show "window r (bump xs (pointer r) n) ! i = add_head n (window r xs) ! i"
  proof (cases i)
    case 0
    have "window r xs \<noteq> []" using assms(1) by (metis length_window less_numeral_extra(3) list.size(3))
    then obtain x ws where w: "window r xs = x # ws" by (cases "window r xs") auto
    have nth0: "window r ys ! 0 = ys ! pointer r" for ys using assms(1,2) by (simp add: window_def pos_mod)
    then have "x = xs ! pointer r" using w by (metis nth_Cons_0)
    then show ?thesis using assms(2,3) 0 w nth0 by (simp add: bump_def add_head_def)
  next
    case (Suc j)
    have ne: "(pointer r + capacity r - i) mod capacity r \<noteq> pointer r"
      using assms i Suc pos_mod [of "pointer r" "capacity r" i] by auto
    have "window r xs ! i = xs ! ((pointer r + capacity r - i) mod capacity r)" using i by (simp add: window_def)
    then have "add_head n (window r xs) ! i = xs ! ((pointer r + capacity r - i) mod capacity r)"
      using Suc by (cases "window r xs") (auto simp: add_head_def)
    then show ?thesis using i ne by (simp add: window_def bump_def)
  qed
qed simp

lemma window_shift:
  assumes "0 < capacity r" "pointer r < capacity r" "length xs = capacity r"
    and "p = (if pointer r + 1 \<ge> capacity r then 0 else pointer r + 1)"
    and "capacity r' = capacity r" "pointer r' = p"
  shows "window r' (xs[p := 0]) = shift (window r xs)"
proof (rule nth_equalityI)
  have p: "p < capacity r" using assms by auto
  show "length (window r' (xs[p := 0])) = length (shift (window r xs))" using assms by (simp add: shift_def)
  fix i assume "i < length (window r' (xs[p := 0]))"
  then have i: "i < capacity r" using assms by simp
  show "window r' (xs[p := 0]) ! i = shift (window r xs) ! i"
  proof (cases i)
    case 0
    then show ?thesis using assms p i by (simp add: window_def shift_def pos_mod)
  next
    case (Suc j)
    have "(p + capacity r - i) mod capacity r = (pointer r + capacity r - j) mod capacity r"
      "(p + capacity r - i) mod capacity r \<noteq> p"
      using assms(2,4) i p Suc pos_mod [of p "capacity r" i] pos_mod [of "pointer r" "capacity r" j]
      by (auto split: if_splits)
    moreover have "shift (window r xs) ! i = window r xs ! j"
      using Suc i assms(1) by (simp add: shift_def nth_butlast)
    ultimately show ?thesis using assms i Suc by (simp add: window_def)
  qed
qed

text \<open>
  C14. The ring buffers are sliding windows: accounting for a flow adds to the current bucket of the
  forwarded or of the dropped window and to nothing else; a clock tick starts a new empty bucket and
  forgets the oldest, in all four windows. The record stays well-formed.
\<close>

theorem record_refines_window:
  assumes "wf_record r"
  shows "windows (Append b p True r) = (map_prod (add_head b) (add_head p) (fst (windows r)), snd (windows r))
    \<and> windows (Append b p False r) = (fst (windows r), map_prod (add_head b) (add_head p) (snd (windows r)))
    \<and> windows (tick ovf tb d bt pt r) =
        (map_prod shift shift (fst (windows r)), map_prod shift shift (snd (windows r)))
    \<and> wf_record (Append b p f r) \<and> wf_record (tick ovf tb d bt pt r)"
proof -
  have w: "0 < capacity r" "pointer r < capacity r" "length (FwdBytes r) = capacity r"
    "length (FwdPackets r) = capacity r" "length (DropBytes r) = capacity r" "length (DropPackets r) = capacity r"
    using assms by (simp_all add: wf_record_def)
  have same: "window (r\<lparr>FwdBytes := a, FwdPackets := c\<rparr>) xs = window r xs"
    "window (r\<lparr>DropBytes := a, DropPackets := c\<rparr>) xs = window r xs" for a c xs
    by (simp_all add: window_def)
  let ?p = "if pointer r + 1 \<ge> capacity r then 0 else pointer r + 1"
  have t: "window (tick ovf tb d bt pt r) (xs[?p := 0]) = shift (window r xs)" if "length xs = capacity r" for xs
    using window_shift [OF w(1,2) that refl, of "tick ovf tb d bt pt r"] by (simp add: tick_def Let_def)
  show ?thesis
    using w t wf_Append [OF assms] wf_tick [OF assms] window_bump [OF w(1,2)]
    by (simp add: windows_def Append_def same tick_def Let_def)
qed

theorem record_refines_window_witness:
  "windows (Append 5 1 True (NewRecord 2 ''a'')) = (([5, 0], [1, 0]), ([0, 0], [0, 0]))"
proof -
  have "wf_record (NewRecord 2 ''a'')" by (simp add: wf_NewRecord)
  moreover have "windows (NewRecord 2 ''a'') = (([0, 0], [0, 0]), ([0, 0], [0, 0]))"
    by (simp add: windows_def window_def NewRecord_def numeral_2_eq_2)
  ultimately show ?thesis
    using record_refines_window [of "NewRecord 2 ''a''" 5 1 "\<lambda>_. 0" 0 1 0 0 True] by (simp add: add_head_def)
qed

section \<open>Averages\<close>

lemma prev_pos_step:
  assumes "p < c" "i < c"
  shows "prev_pos c ((p + c - i) mod c) = (p + c - Suc i) mod c"
proof (cases "Suc i < c")
  case True
  then show ?thesis using assms pos_mod [of p c i] pos_mod [of p c "Suc i"] by (auto simp: prev_pos_def)
next
  case False
  then have "Suc i = c" using assms(2) by simp
  then show ?thesis using assms pos_mod [of p c i] by (auto simp: prev_pos_def)
qed

lemma walk_sum_positions:
  assumes "p < c"
  shows "i + n \<le> c \<Longrightarrow> walk_sum n c xs ((p + c - i) mod c) = (\<Sum>j\<leftarrow>[Suc i..<Suc i + n]. xs ! ((p + c - j) mod c))"
proof (induction n arbitrary: i)
  case (Suc n)
  have e: "[Suc i..<Suc i + Suc n] = Suc i # [Suc (Suc i)..<Suc (Suc i) + n]" by (subst upt_rec) simp
  have "walk_sum (Suc n) c xs ((p + c - i) mod c) =
      xs ! ((p + c - Suc i) mod c) + walk_sum n c xs ((p + c - Suc i) mod c)"
    using prev_pos_step [OF assms, of i] Suc.prems by simp
  also have "walk_sum n c xs ((p + c - Suc i) mod c) = (\<Sum>j\<leftarrow>[Suc (Suc i)..<Suc (Suc i) + n]. xs ! ((p + c - j) mod c))"
    using Suc.IH [of "Suc i"] Suc.prems by simp
  finally show ?case by (simp only: e list.map sum_list.Cons)
qed simp

text \<open>The walk from the pointer sums the completed buckets, newest first.\<close>

lemma walk_sum_window:
  assumes "pointer r < capacity r" "n < capacity r"
  shows "walk_sum n (capacity r) xs (pointer r) = sum_list (take n (tl (window r xs)))"
proof -
  have "take n (tl (window r xs)) = map (\<lambda>i. xs ! ((pointer r + capacity r - i) mod capacity r)) [1..<Suc n]"
    using assms(2) by (simp add: window_def take_map map_tl [symmetric] take_upt del: upt_Suc)
  then show ?thesis using walk_sum_positions [OF assms(1), of 0 n xs] assms by simp
qed

text \<open>The walk from the position after the pointer, as a tick makes it, starts with the current bucket.\<close>

lemma walk_sum_next:
  assumes "pointer r < capacity r" "n \<le> capacity r" "p = (if pointer r + 1 \<ge> capacity r then 0 else pointer r + 1)"
  shows "walk_sum n (capacity r) xs p = sum_list (take n (window r xs))"
proof -
  have p: "p < capacity r" using assms by auto
  have q: "(p + capacity r - Suc j) mod capacity r = (pointer r + capacity r - j) mod capacity r" if "j < capacity r" for j
  proof (cases "pointer r + 1 \<ge> capacity r")
    case True
    then have "pointer r = capacity r - 1" "p = 0" using assms(1,3) by auto
    then have "pointer r + capacity r - j = (capacity r - Suc j) + capacity r" using that by simp
    then have "(pointer r + capacity r - j) mod capacity r = (capacity r - Suc j) mod capacity r"
      using mod_add_self2 by metis
    then show ?thesis using \<open>p = 0\<close> by simp
  next
    case False then show ?thesis using assms(3) by simp
  qed
  have "take n (window r xs) = map (\<lambda>j. xs ! ((pointer r + capacity r - j) mod capacity r)) [0..<n]"
    using assms(2) by (simp add: window_def take_map take_upt)
  also have "\<dots> = map (\<lambda>j. xs ! ((p + capacity r - Suc j) mod capacity r)) [0..<n]"
    using q assms(2) by simp
  also have "\<dots> = map (\<lambda>j. xs ! ((p + capacity r - j) mod capacity r)) [Suc 0..<Suc n]"
    by (simp add: map_Suc_upt [symmetric] del: upt_Suc map_Suc_upt)
  finally show ?thesis using walk_sum_positions [OF p, of 0 n xs] p assms(2) by simp
qed

lemma rate_floor:
  assumes "unat w < 2 ^ 53" "0 < n" "0 < d" "int n * d < 2 ^ 53"
  shows "f64_to_u64 ovf (rate w n d) = of_nat (unat w div (n * nat d))"
proof -
  define k where "k = n * nat d"
  have k: "0 < k" "int k = int n * d" "k < 2 ^ 53"
    using assms by (simp_all add: k_def) (metis assms(3) assms(4) int_nat_eq less_imp_le nat_int_comparison(2) of_nat_mult of_nat_numeral of_nat_power)
  have "f64 (of_int (int n * d)) = of_nat k" using f64_exact_nat [OF k(3)] k(2) by (metis of_int_of_nat_eq)
  then have r: "rate w n d = f64 (of_nat (unat w) / of_nat k)"
    using assms(1) by (simp add: rate_def f64_div_def u64_to_f64_small)
  have fl: "\<lfloor>rate w n d\<rfloor> = int (unat w div k)" unfolding r using f64_floor_div [OF assms(1) k(1)] .
  have "0 \<le> rate w n d" unfolding r by (intro f64_nonneg divide_nonneg_nonneg of_nat_0_le_iff)
  moreover have "rate w n d < of_int (int (unat w div k) + 1)" using fl by linarith
  moreover have "unat w div k < 2 ^ 53" using assms(1) by (metis div_le_dividend le_less_trans)
  then have "of_int (int (unat w div k) + 1) \<le> (2 ^ 64 :: rat)"
    using of_nat_mono [of "unat w div k + 1" "2 ^ 53", where 'a = rat] by simp
  ultimately have "f64_to_u64 ovf (rate w n d) = word_of_int \<lfloor>rate w n d\<rfloor>" by (simp add: f64_to_u64_def)
  then show ?thesis by (simp add: fl k_def)
qed

lemma unat_sum_list:
  fixes ws :: "u64 list"
  shows "sum_list (map unat ws) < 2 ^ 64 \<Longrightarrow> unat (sum_list ws) = sum_list (map unat ws)"
proof (induction ws)
  case (Cons w ws)
  then have "unat (sum_list ws) = sum_list (map unat ws)" by simp
  then have "unat w + unat (sum_list ws) < 2 ^ LENGTH(64)" using Cons.prems by simp
  then have "unat (w + sum_list ws) = unat w + unat (sum_list ws)" by (rule unat_add_lem [THEN iffD1])
  then show ?case using Cons by simp
qed simp

lemma window_map2:
  assumes "pointer r < capacity r" "length xs = capacity r" "length ys = capacity r"
  shows "window r (map2 (+) xs ys) = map2 (+) (window r xs) (window r ys)"
  using assms by (intro nth_equalityI) (simp_all add: window_def)

lemma sum_list_map2:
  fixes xs ys :: "u64 list"
  shows "length xs = length ys \<Longrightarrow> sum_list (map2 (+) xs ys) = sum_list xs + sum_list ys"
  by (induction xs ys rule: list_induct2) (simp_all add: algebra_simps)

text \<open>The traffic of the newest \<open>n\<close> buckets of two windows, as a natural number.\<close>

definition traffic :: "nat \<Rightarrow> u64 list \<Rightarrow> u64 list \<Rightarrow> nat" where
  "traffic n fwd dropped = sum_list (map unat (take n fwd)) + sum_list (map unat (take n dropped))"

lemma tick_sum:
  assumes "pointer r < capacity r" "length xs = capacity r" "length ys = capacity r" "n \<le> capacity r"
    and "p = (if pointer r + 1 \<ge> capacity r then 0 else pointer r + 1)"
    and "traffic n (window r xs) (window r ys) < 2 ^ 64"
  shows "unat (walk_sum n (capacity r) (map2 (+) xs ys) p) = traffic n (window r xs) (window r ys)"
proof -
  let ?x = "take n (window r xs)" and ?y = "take n (window r ys)"
  have "walk_sum n (capacity r) (map2 (+) xs ys) p = sum_list (map2 (+) ?x ?y)"
    using walk_sum_next [OF assms(1,4,5)] window_map2 [OF assms(1-3)] by (simp add: take_map take_zip)
  also have "\<dots> = sum_list ?x + sum_list ?y" by (rule sum_list_map2) simp
  finally show ?thesis
    using unat_sum_list [of "?x @ ?y"] assms(6) by (simp add: traffic_def)
qed

text \<open>
  C21. The threshold test of a tick is the exact integer comparison of the averages over the newest
  \<open>tb\<close> buckets of forwarded and dropped traffic together: the detour through floating point loses
  nothing while the sums stay below \<open>2^53\<close>.
\<close>

theorem tick_threshold:
  assumes r: "wf_record r" and tb: "0 < tb" "tb \<le> capacity r" and d: "0 < d" "int tb * d < 2 ^ 53"
    and B: "8 * traffic tb (window r (FwdBytes r)) (window r (DropBytes r)) < 2 ^ 53"
    and P: "traffic tb (window r (FwdPackets r)) (window r (DropPackets r)) < 2 ^ 53"
  shows "aboveThreshold (tick ovf tb d bt pt r) \<longleftrightarrow>
      unat bt < 8 * traffic tb (window r (FwdBytes r)) (window r (DropBytes r)) div (tb * nat d)
    \<and> unat pt < traffic tb (window r (FwdPackets r)) (window r (DropPackets r)) div (tb * nat d)"
proof -
  define p where "p = (if pointer r + 1 \<ge> capacity r then 0 else pointer r + 1)"
  define b where "b = walk_sum tb (capacity r) (map2 (+) (FwdBytes r) (DropBytes r)) p"
  define k where "k = walk_sum tb (capacity r) (map2 (+) (FwdPackets r) (DropPackets r)) p"
  have w: "pointer r < capacity r" "length (FwdBytes r) = capacity r" "length (DropBytes r) = capacity r"
    "length (FwdPackets r) = capacity r" "length (DropPackets r) = capacity r"
    using r by (simp_all add: wf_record_def)
  have ub: "unat b = traffic tb (window r (FwdBytes r)) (window r (DropBytes r))"
    unfolding b_def by (rule tick_sum [OF w(1-3) tb(2) p_def]) (use B in simp)
  have uk: "unat k = traffic tb (window r (FwdPackets r)) (window r (DropPackets r))"
    unfolding k_def by (rule tick_sum [OF w(1,4,5) tb(2) p_def]) (use P in simp)
  have u8: "unat (b * 8) = 8 * unat b"
    using B ub by (subst unat_mult_lem [THEN iffD1]) simp_all
  have less: "x < of_nat n \<longleftrightarrow> unat x < n" if "n < 2 ^ 53" for x :: u64 and n
    using that by (simp add: word_less_nat_alt unat_of_nat)
  have "f64_to_u64 ovf (rate (b * 8) tb d) = of_nat (unat (b * 8) div (tb * nat d))"
    by (rule rate_floor [OF _ tb(1) d]) (use B ub u8 in simp)
  moreover have "f64_to_u64 ovf (rate k tb d) = of_nat (unat k div (tb * nat d))"
    by (rule rate_floor [OF _ tb(1) d]) (use P uk in simp)
  moreover have "aboveThreshold (tick ovf tb d bt pt r) \<longleftrightarrow>
      bt < f64_to_u64 ovf (rate (b * 8) tb d) \<and> pt < f64_to_u64 ovf (rate k tb d)"
    unfolding b_def k_def p_def using tb(1) by (simp add: tick_def Let_def)
  ultimately have "aboveThreshold (tick ovf tb d bt pt r) \<longleftrightarrow>
      bt < of_nat (8 * unat b div (tb * nat d)) \<and> pt < of_nat (unat k div (tb * nat d))"
    by (simp only: u8)
  moreover have "8 * unat b div (tb * nat d) < 2 ^ 53" "unat k div (tb * nat d) < 2 ^ 53"
    using B P ub uk by (metis div_le_dividend le_less_trans)+
  ultimately show ?thesis using less ub uk by simp
qed

theorem tick_threshold_witness:
  "aboveThreshold (tick (\<lambda>_. 0) 1 1 100 2 (Append 20 3 False (NewRecord 2 ''a'')))"
proof -
  let ?r = "Append 20 3 False (NewRecord 2 ''a'')"
  have "wf_record ?r" by (simp add: wf_NewRecord wf_Append)
  moreover have "window ?r (FwdBytes ?r) = [0, 0]" "window ?r (DropBytes ?r) = [20, 0]"
    "window ?r (FwdPackets ?r) = [0, 0]" "window ?r (DropPackets ?r) = [3, 0]" "capacity ?r = 2"
    by (simp_all add: window_def Append_def bump_def NewRecord_def numeral_2_eq_2)
  ultimately show ?thesis
    using tick_threshold [of ?r 1 1 "\<lambda>_. 0" 100 2] by (simp add: traffic_def)
qed

section \<open>The filter\<close>

interpretation toptalkers: filter_segment ToptalkersMetrics_step tt_Drops "\<lambda>_. True"
proof
  show "\<exists>s'. ToptalkersMetrics_step s m \<in> {Inr ([Out m], s'), Inr (send_drop (tt_Drops s) m, s')}" for s m
    by (auto simp: ToptalkersMetrics_step_def Let_def split: prod.split)
  show "True \<and> tt_Drops s' = tt_Drops s" if "ToptalkersMetrics_step s m = Inr (es, s')" for s m es s'
    using that by (auto simp: ToptalkersMetrics_step_def Let_def split: prod.splits)
qed

text \<open>Every record of the database has the ring size the parameters ask for.\<close>

definition wf_db :: "Database \<Rightarrow> bool" where
  "wf_db db \<longleftrightarrow> 0 < ReportBuckets (params db)
     \<and> (\<forall>k r. database db k = Some r \<longrightarrow> wf_record r \<and> capacity r = nat (ReportBuckets (params db)))"

lemma capacity_ops [simp]:
  "capacity (Append b p f r) = capacity r" "capacity (tick ovf tb d bt pt r) = capacity r"
  "capacity (NewRecord n a) = n"
  by (simp_all add: Append_def tick_def Let_def NewRecord_def)

lemma wf_GetRecord:
  assumes "wf_db db" "GetRecord a db = (r, db')"
  shows "wf_db db' \<and> params db' = params db \<and> wf_record r \<and> capacity r = nat (ReportBuckets (params db))
    \<and> database db' (record_key [] a) = Some r"
  using assms wf_NewRecord [of "nat (ReportBuckets (params db))" a]
  by (auto simp: GetRecord_def GetTypedRecord_def Let_def wf_db_def split: option.splits if_splits)

lemma wf_account: "wf_db db \<Longrightarrow> wf_db (snd (account m ks db f))"
proof (induction ks arbitrary: db f)
  case (Cons k ks)
  obtain r db' where g: "GetRecord k db = (r, db')" by fastforce
  let ?db = "db'\<lparr>database := (database db')(record_key [] k \<mapsto> Append (Bytes m) (Packets m) (IsForwarded m) r)\<rparr>"
  have "wf_db ?db"
    using wf_GetRecord [OF Cons.prems g] wf_Append [of r] by (auto simp: wf_db_def)
  then show ?case using Cons.IH [of ?db] g by (simp add: Let_def)
qed simp

lemma wf_Clock: "wf_db db \<Longrightarrow> wf_db (Clock_tick ovf db)"
  by (auto simp: wf_db_def Clock_tick_def wf_tick)

lemma wf_Cleanup: "wf_db db \<Longrightarrow> wf_db (Cleanup_tick db)"
  by (auto simp: wf_db_def Cleanup_tick_def Let_def split: option.splits if_splits)

text \<open>
  The interleavings of the segment: it handles a flow, the clock ticks or the cleanup ticks, in any order,
  each as one step. In the source the lock of the database covers a tick, a cleanup and the look-up of a record;
  the record found is then changed under its own lock, so that a tick or a cleanup may also come between
  the look-up and \<open>Append\<close>.
\<close>

inductive tt_step :: "(rat \<Rightarrow> u64) \<Rightarrow> ToptalkersMetrics \<Rightarrow> ToptalkersMetrics \<Rightarrow> bool" for ovf where
  flow: "ToptalkersMetrics_step s m = Inr (es, s') \<Longrightarrow> tt_step ovf s s'"
| clock: "tt_step ovf s (s\<lparr>tt_db := Clock_tick ovf (tt_db s)\<rparr>)"
| cleanup: "tt_step ovf s (s\<lparr>tt_db := Cleanup_tick (tt_db s)\<rparr>)"

lemma wf_tt_step: "tt_step ovf s s' \<Longrightarrow> wf_db (tt_db s) \<Longrightarrow> wf_db (tt_db s')"
proof (induction rule: tt_step.induct)
  case (flow s m es s')
  then show ?case using wf_account
    by (auto simp: ToptalkersMetrics_step_def Let_def split: prod.splits) (metis snd_conv)
qed (simp_all add: wf_Clock wf_Cleanup)

lemma parse_positive_pos: "parse_positive v n = Some b \<Longrightarrow> 0 < n \<Longrightarrow> 0 < b"
  by (auto simp: parse_positive_def split: if_splits option.splits)

lemma New_wf: "ToptalkersMetrics_New config = Some s \<Longrightarrow> wf_db (tt_db s)"
  using parse_positive_pos
  by (fastforce simp: ToptalkersMetrics_New_def ParsePrometheusConfig_def InitDefaultPrometheusMetricParams_def
    zero_params_def NewDatabase_def wf_db_def split: option.splits)

text \<open>
  C29. For every configuration \<open>New\<close> accepts and every interleaving of flows, clock ticks and
  cleanups, all ring accesses stay within bounds: each record keeps a pointer below its capacity
  and four arrays of that length.
\<close>

theorem toptalkers_safe:
  assumes "ToptalkersMetrics_New config = Some s" "(tt_step ovf)\<^sup>*\<^sup>* s s'"
    and "database (tt_db s') k = Some r"
  shows "pointer r < capacity r \<and> capacity r = nat (ReportBuckets (params (tt_db s')))
    \<and> length (FwdBytes r) = capacity r \<and> length (FwdPackets r) = capacity r
    \<and> length (DropBytes r) = capacity r \<and> length (DropPackets r) = capacity r"
proof -
  have "wf_db (tt_db s')"
    using assms(2) New_wf [OF assms(1)] by (induction rule: rtranclp_induct) (auto dest: wf_tt_step)
  then have "wf_record r \<and> capacity r = nat (ReportBuckets (params (tt_db s')))"
    using assms(3) unfolding wf_db_def by blast
  then show ?thesis unfolding wf_record_def by blast
qed

lemma New_default: "ToptalkersMetrics_New Map.empty =
    Some \<lparr>tt_db = NewDatabase (InitDefaultPrometheusMetricParams zero_params), tt_Drops = False\<rparr>"
  by (simp add: ToptalkersMetrics_New_def ParsePrometheusConfig_def parse_positive_def parse_threshold_def cfg_def
    InitDefaultPrometheusMetricParams_def zero_params_def)

theorem toptalkers_safe_witness:
  "\<exists>s s' r. ToptalkersMetrics_New Map.empty = Some s \<and> tt_step (\<lambda>_. 0) s s'
     \<and> database (tt_db s') (record_key [] (ip_str (DstAddrObj zero_flow))) = Some r \<and> pointer r < capacity r"
proof -
  let ?s = "\<lparr>tt_db = NewDatabase (InitDefaultPrometheusMetricParams zero_params), tt_Drops = False\<rparr>"
  obtain es s' r where step: "ToptalkersMetrics_step ?s zero_flow = Inr (es, s')"
    and r: "database (tt_db s') (record_key [] (ip_str (DstAddrObj zero_flow))) = Some r"
    by (simp add: ToptalkersMetrics_step_def flow_keys_def GetRecord_def GetTypedRecord_def Let_def
      NewDatabase_def InitDefaultPrometheusMetricParams_def zero_params_def)
  from step have "tt_step (\<lambda>_. 0) ?s s'" by (rule tt_step.flow)
  then show ?thesis using toptalkers_safe [OF New_default, of "\<lambda>_. 0" s' _ r] r New_default by blast
qed

text \<open>The addresses above the thresholds.\<close>

definition above :: "Database \<Rightarrow> string \<Rightarrow> bool" where
  "above db address \<longleftrightarrow>
     (case database db (record_key [] address) of Some r \<Rightarrow> aboveThreshold r | None \<Rightarrow> False)"

lemma account_above: "fst (account m ks db f) \<longleftrightarrow> f \<or> (\<exists>k\<in>set ks. above db k)"
proof (induction ks arbitrary: db f)
  case (Cons k ks)
  obtain r db' where g: "GetRecord k db = (r, db')" by fastforce
  let ?r = "Append (Bytes m) (Packets m) (IsForwarded m) r"
  let ?db = "db'\<lparr>database := (database db')(record_key [] k \<mapsto> ?r)\<rparr>"
  have r: "aboveThreshold ?r \<longleftrightarrow> above db k"
    using g by (auto simp: GetRecord_def GetTypedRecord_def Let_def above_def Append_def NewRecord_def split: option.splits)
  have "above ?db x \<longleftrightarrow> above db x" for x
    using g r by (cases "x = k")
      (auto simp: GetRecord_def GetTypedRecord_def Let_def above_def record_key_def split: option.splits)
  then show ?case using Cons.IH [of ?db] g r by (auto simp: Let_def)
qed simp

text \<open>
  The segment as a filter: a flow is passed exactly when one of its relevant addresses was above
  the thresholds at the last tick, it is offered to the drop channel otherwise, and no flow is lost
  or duplicated while there is a subscriber for the drops.
\<close>

theorem toptalkers_filters:
  "(\<exists>s'. ToptalkersMetrics_step s m =
      Inr (if \<exists>a\<in>set (flow_keys (RelevantAddress (params (tt_db s))) m). above (tt_db s) a
           then [Out m] else send_drop (tt_Drops s) m, s'))
   \<and> (\<exists>es s'. run_loop ToptalkersMetrics_step s ms = Inr (es, s') \<and> subseq (outs es) ms
        \<and> mset (drops es) = (if tt_Drops s then mset ms - mset (outs es) else {#}))"
proof
  show "\<exists>s'. ToptalkersMetrics_step s m =
      Inr (if \<exists>a\<in>set (flow_keys (RelevantAddress (params (tt_db s))) m). above (tt_db s) a
           then [Out m] else send_drop (tt_Drops s) m, s')"
    using account_above [of m "flow_keys (RelevantAddress (params (tt_db s))) m" "tt_db s" False]
    by (auto simp: ToptalkersMetrics_step_def split: prod.split)
  obtain es s' where run: "run_loop ToptalkersMetrics_step s ms = Inr (es, s')" using toptalkers.run_total [of s ms] by blast
  have "subseq (outs es) ms" using toptalkers.run_subseq [OF _ run] by simp
  moreover have "mset (drops es) = (if tt_Drops s then mset ms - mset (outs es) else {#})"
    using toptalkers.run_conserves [OF _ _ run] toptalkers.run_silent [OF _ _ run]
    by (cases "tt_Drops s") (simp_all, metis add_diff_cancel_left')
  ultimately show "\<exists>es s'. run_loop ToptalkersMetrics_step s ms = Inr (es, s') \<and> subseq (outs es) ms
      \<and> mset (drops es) = (if tt_Drops s then mset ms - mset (outs es) else {#})" using run by blast
qed

text \<open>
  With \<open>relevantaddress: connection\<close>, which the configuration accepts and the documentation
  describes, no flow is ever counted or passed.
\<close>

theorem connection_never_counts:
  "ToptalkersMetrics_step (s\<lparr>tt_db := (tt_db s)\<lparr>params := p\<lparr>RelevantAddress := ''connection''\<rparr>\<rparr>\<rparr>) m =
     Inr (send_drop (tt_Drops s) m, s\<lparr>tt_db := (tt_db s)\<lparr>params := p\<lparr>RelevantAddress := ''connection''\<rparr>\<rparr>\<rparr>)"
  by (simp add: ToptalkersMetrics_step_def flow_keys_def)

section \<open>The cleanup\<close>

lemma Cleanup_waits:
  assumes "1 < cleanupCounter db"
  shows "database (Cleanup_tick db) = database db \<and> params (Cleanup_tick db) = params db
    \<and> cleanupCounter (Cleanup_tick db) = cleanupCounter db - 1"
  using assms by (simp add: Cleanup_tick_def Let_def)

lemma Cleanup_waits_n:
  "int n < cleanupCounter db \<Longrightarrow> database ((Cleanup_tick ^^ n) db) = database db
    \<and> params ((Cleanup_tick ^^ n) db) = params db \<and> cleanupCounter ((Cleanup_tick ^^ n) db) = cleanupCounter db - int n"
proof (induction n)
  case (Suc n)
  then show ?case using Cleanup_waits [of "(Cleanup_tick ^^ n) db"] by simp
qed simp

text \<open>
  The cleanup, whose timer fires once per window of \<open>Buckets\<close> buckets, removes exactly the empty
  records, but only at every \<open>Buckets * CleanupWindowSizes\<close>-th firing and not every
  \<open>CleanupWindowSizes\<close> windows: before, it removes nothing.
\<close>

theorem cleanup_period:
  fixes p :: PrometheusMetricsParams
  assumes "0 < Buckets p" "0 < CleanupWindowSizes p"
    and "database db = rs" "cleanupCounter db = Buckets p * CleanupWindowSizes p" "params db = p"
  shows "(\<forall>n<nat (Buckets p * CleanupWindowSizes p). database ((Cleanup_tick ^^ n) db) = rs)
    \<and> database ((Cleanup_tick ^^ nat (Buckets p * CleanupWindowSizes p)) db) =
        (\<lambda>k. case rs k of Some r \<Rightarrow> if isEmpty r then None else Some r | None \<Rightarrow> None)
    \<and> cleanupCounter ((Cleanup_tick ^^ nat (Buckets p * CleanupWindowSizes p)) db) = Buckets p * CleanupWindowSizes p"
proof -
  define N where "N = nat (Buckets p * CleanupWindowSizes p)"
  have N: "0 < N" "int N = Buckets p * CleanupWindowSizes p" using assms(1,2) by (simp_all add: N_def)
  then obtain M where M: "N = Suc M" by (cases N) auto
  have "database ((Cleanup_tick ^^ n) db) = rs" if "n < N" for n
    using Cleanup_waits_n [of n db] that N assms by simp
  moreover have w: "database ((Cleanup_tick ^^ M) db) = rs" "params ((Cleanup_tick ^^ M) db) = p"
    "cleanupCounter ((Cleanup_tick ^^ M) db) = 1"
    using Cleanup_waits_n [of M db] N M assms by simp_all
  ultimately show ?thesis
    unfolding N_def [symmetric] M by (simp add: Cleanup_tick_def Let_def)
qed

theorem cleanup_period_witness:
  "database ((Cleanup_tick ^^ 299) ((NewDatabase (InitDefaultPrometheusMetricParams zero_params))
     \<lparr>database := [''a'' \<mapsto> NewRecord 60 ''a'']\<rparr>)) = [''a'' \<mapsto> NewRecord 60 ''a'']"
  using cleanup_period [of "InitDefaultPrometheusMetricParams zero_params"
    "(NewDatabase (InitDefaultPrometheusMetricParams zero_params))\<lparr>database := [''a'' \<mapsto> NewRecord 60 ''a'']\<rparr>",
    OF _ _ refl]
  by (simp add: NewDatabase_def InitDefaultPrometheusMetricParams_def zero_params_def)

end
