(* ===== verification/TrafficTalkers.thy ===== *)
theory TrafficTalkers
  imports FilterMeaning Toptalkers
begin

text \<open>
  The segment \<open>traffic_specific_toptalkers\<close>
  (\<open>segments/analysis/traffic_specific_toptalkers\<close>): a tree of filter definitions, each with its
  own database of \<open>toptalkers_metrics\<close>. The HTTP endpoint is not modelled.
\<close>

section \<open>Configuration\<close>

datatype ThresholdMetricDefinition =
  ThresholdMetricDefinition (def_params: PrometheusMetricsParams) (FilterDefinition: string)
    (def_SubDefinitions: "ThresholdMetricDefinition list")

datatype ThresholdMetric =
  ThresholdMetric (tm_params: PrometheusMetricsParams) (tm_Database: "Database option")
    (SubDefinitions: "ThresholdMetric list") (tm_Expression: Expression)

record PrometheusParams =
  Endpoint :: string
  MetricsPath :: string
  FlowdataPath :: string

definition InitDefaultPrometheusParams :: PrometheusParams where
  "InitDefaultPrometheusParams = \<lparr>Endpoint = '':8080'', MetricsPath = ''/metrics'', FlowdataPath = ''/flowdata''\<rparr>"

text \<open>The list holds \<open>None\<close> for a nil pointer.\<close>

record TrafficSpecificToptalkers =
  ts_params :: PrometheusParams
  ts_metrics :: "ThresholdMetric option list"
  ts_RelevantAddress :: string

definition TrafficSpecificToptalkers_New :: "config_map \<Rightarrow> TrafficSpecificToptalkers" where
  "TrafficSpecificToptalkers_New config =
     (let p = InitDefaultPrometheusParams;
          p = (if cfg config ''endpoint'' = [] then p else p\<lparr>Endpoint := cfg config ''endpoint''\<rparr>);
          p = (if cfg config ''metricspath'' = [] then p else p\<lparr>FlowdataPath := cfg config ''metricspath''\<rparr>);
          p = (if cfg config ''flowdatapath'' = [] then p else p\<lparr>FlowdataPath := cfg config ''flowdatapath''\<rparr>)
      in \<lparr>ts_params = p, ts_metrics = [], ts_RelevantAddress = cfg config ''relevantaddress''\<rparr>)"

text \<open>\<open>metricFromDefinition\<close>; \<open>parse\<close> is \<open>parser.Parse\<close>.\<close>

fun metricFromDefinition ::
  "(string \<Rightarrow> Expression option) \<Rightarrow> string \<Rightarrow> ThresholdMetricDefinition \<Rightarrow> ThresholdMetric option" where
  "metricFromDefinition parse rel (ThresholdMetricDefinition p flt subs) =
     (let p = InitDefaultPrometheusMetricParams (p\<lparr>CleanupWindowSizes := 0\<rparr>);
          p = (if rel \<noteq> [] then p\<lparr>RelevantAddress := rel\<rparr> else p)
      in case parse flt of
           None \<Rightarrow> None
         | Some e \<Rightarrow>
             map_option (\<lambda>ms. ThresholdMetric p None ms e) (those (map (metricFromDefinition parse rel) subs)))"

text \<open>\<open>AddCustomConfig\<close> logs the error of a definition and appends the nil metric all the same.\<close>

definition AddCustomConfig ::
  "(string \<Rightarrow> Expression option) \<Rightarrow> ThresholdMetricDefinition list \<Rightarrow> TrafficSpecificToptalkers \<Rightarrow> TrafficSpecificToptalkers" where
  "AddCustomConfig parse defs s =
     s\<lparr>ts_metrics := ts_metrics s @ map (metricFromDefinition parse (ts_RelevantAddress s)) defs\<rparr>"

section \<open>Running\<close>

text \<open>A metric without a traffic type keeps the nil database.\<close>

fun initDatabasesForFilter :: "ThresholdMetric \<Rightarrow> ThresholdMetric" where
  "initDatabasesForFilter (ThresholdMetric p d subs e) =
     ThresholdMetric p (if TrafficType p \<noteq> [] then Some (NewDatabase p) else d) (map initDatabasesForFilter subs) e"

text \<open>\<open>initDatabasesAndCollector\<close>: a nil metric is dereferenced.\<close>

fun initDatabases :: "ThresholdMetric option list \<Rightarrow> ThresholdMetric list outcome" where
  "initDatabases [] = Inr []"
| "initDatabases (None # ms) = Inl (Panic ''invalid memory address or nil pointer dereference'')"
| "initDatabases (Some m # ms) = map_sum id (Cons (initDatabasesForFilter m)) (initDatabases ms)"

definition metric_keys :: "string \<Rightarrow> EnrichedFlow \<Rightarrow> string list" where
  "metric_keys rel m =
     (if rel = ''source'' then [ip_str (SrcAddrObj m)]
      else if rel = ''destination'' then [ip_str (DstAddrObj m)]
      else if rel = ''both'' then [ip_str (SrcAddrObj m), ip_str (DstAddrObj m)]
      else if rel = ''connection'' then [ip_str (SrcAddrObj m) @ '' -> '' @ ip_str (DstAddrObj m)]
      else [])"

text \<open>
  The loop over the keys. The parameters come from the configuration file without a check, so
  making the arrays of a new record can panic.
\<close>

fun count_keys :: "string \<Rightarrow> EnrichedFlow \<Rightarrow> string list \<Rightarrow> Database \<Rightarrow> Database outcome" where
  "count_keys label m [] db = Inr db"
| "count_keys label m (key # keys) db =
     (if database db (record_key label key) = None \<and> ReportBuckets (params db) < 0
      then Inl (Panic ''makeslice: len out of range'')
      else if ReportBuckets (params db) = 0 then Inl (Panic ''index out of range'')
      else let (r, db) = GetTypedRecord label key db;
               db = db\<lparr>database := (database db)(record_key label key \<mapsto> Append (Bytes m) (Packets m) (IsForwarded m) r)\<rparr>
           in count_keys label m keys db)"

definition count_metric :: "PrometheusMetricsParams \<Rightarrow> EnrichedFlow \<Rightarrow> Database option \<Rightarrow> Database option outcome" where
  "count_metric p m d =
     (if TrafficType p \<noteq> [] then
        (case d of
           None \<Rightarrow> Inl (Panic ''invalid memory address or nil pointer dereference'')
         | Some db \<Rightarrow> map_sum id Some (count_keys (TrafficType p) m (metric_keys (RelevantAddress p) m) db))
      else Inr d)"

fun addMessageToMatchingToptalkers :: "traversal \<Rightarrow> EnrichedFlow \<Rightarrow> ThresholdMetric \<Rightarrow> ThresholdMetric outcome"
  and addMessageToAll :: "traversal \<Rightarrow> EnrichedFlow \<Rightarrow> ThresholdMetric list \<Rightarrow> ThresholdMetric list outcome"
where
  "addMessageToMatchingToptalkers pv m (ThresholdMetric p d subs e) =
     (case CheckFlow pv e m of
        Inl x \<Rightarrow> Inl x
      | Inr (match, _, e') \<Rightarrow>
          if match then
            (case count_metric p m d of
               Inl x \<Rightarrow> Inl x
             | Inr d' \<Rightarrow> map_sum id (\<lambda>subs'. ThresholdMetric p d' subs' e') (addMessageToAll pv m subs))
          else Inr (ThresholdMetric p d subs e'))"
| "addMessageToAll pv m [] = Inr []"
| "addMessageToAll pv m (t # ts) =
     (case addMessageToMatchingToptalkers pv m t of
        Inl x \<Rightarrow> Inl x
      | Inr t' \<Rightarrow> map_sum id (Cons t') (addMessageToAll pv m ts))"

text \<open>One round of the loop of \<open>Run\<close>; the state is the list of metrics.\<close>

definition TrafficSpecificToptalkers_step :: "traversal \<Rightarrow> (ThresholdMetric list, EnrichedFlow) step" where
  "TrafficSpecificToptalkers_step pv ts m = map_sum id (\<lambda>ts'. ([Out m], ts')) (addMessageToAll pv m ts)"

section \<open>What is counted where\<close>

text \<open>
  The databases of a tree of definitions, each with the condition on the flows it is for: all the
  filters on the way from the root hold.
\<close>

fun dbs :: "(EnrichedFlow \<Rightarrow> bool) \<Rightarrow> ThresholdMetric \<Rightarrow>
    ((EnrichedFlow \<Rightarrow> bool) \<times> PrometheusMetricsParams \<times> Database option) list" where
  "dbs Q (ThresholdMetric p d subs e) =
     ((\<lambda>m. Q m \<and> expr_holds m e), p, d) # concat (map (dbs (\<lambda>m. Q m \<and> expr_holds m e)) subs)"

definition all_dbs :: "ThresholdMetric list \<Rightarrow> ((EnrichedFlow \<Rightarrow> bool) \<times> PrometheusMetricsParams \<times> Database option) list" where
  "all_dbs ts = concat (map (dbs (\<lambda>_. True)) ts)"

text \<open>Counting one flow in one database.\<close>

definition count_key :: "string \<Rightarrow> EnrichedFlow \<Rightarrow> string \<Rightarrow> Database \<Rightarrow> Database" where
  "count_key label m key db =
     (let (r, db) = GetTypedRecord label key db
      in db\<lparr>database := (database db)(record_key label key \<mapsto> Append (Bytes m) (Packets m) (IsForwarded m) r)\<rparr>)"

definition counted :: "PrometheusMetricsParams \<Rightarrow> EnrichedFlow \<Rightarrow> Database option \<Rightarrow> Database option" where
  "counted p m d =
     (if TrafficType p \<noteq> []
      then map_option (fold (count_key (TrafficType p) m) (metric_keys (RelevantAddress p) m)) d else d)"

text \<open>Metrics as \<open>initDatabases\<close> leaves them, with valid filters, and flows the filters can be evaluated on.\<close>

fun metric_ok :: "ThresholdMetric \<Rightarrow> bool" where
  "metric_ok (ThresholdMetric p d subs e) \<longleftrightarrow> expr_wf e \<and> expr_ok e
     \<and> (if TrafficType p \<noteq> [] then d \<noteq> None \<and> 0 < ReportBuckets (params (the d)) else True) \<and> list_all metric_ok subs"

fun metric_fits :: "EnrichedFlow \<Rightarrow> ThresholdMetric \<Rightarrow> bool" where
  "metric_fits m (ThresholdMetric p d subs e) \<longleftrightarrow> expr_fits m e \<and> list_all (metric_fits m) subs"

lemma params_count_key [simp]: "params (count_key label m key db) = params db"
  by (auto simp: count_key_def GetTypedRecord_def Let_def split: option.split)

lemma params_fold_count [simp]: "params (fold (count_key label m) keys db) = params db"
  by (induction keys arbitrary: db) simp_all

lemma count_keys_Cons:
  "0 < ReportBuckets (params db) \<Longrightarrow>
     count_keys label m (key # keys) db = count_keys label m keys (count_key label m key db)"
  by (simp add: count_key_def Let_def split: prod.split)

lemma count_keys_total:
  "0 < ReportBuckets (params db) \<Longrightarrow> count_keys label m keys db = Inr (fold (count_key label m) keys db)"
proof (induction keys arbitrary: db)
  case (Cons key keys)
  then show ?case
    using Cons.IH [of "count_key label m key db"] count_keys_Cons [OF Cons.prems] by simp
qed simp

lemma count_metric_total:
  assumes "if TrafficType p \<noteq> [] then d \<noteq> None \<and> 0 < ReportBuckets (params (the d)) else True"
  shows "count_metric p m d = Inr (counted p m d)
    \<and> (if TrafficType p \<noteq> [] then counted p m d \<noteq> None \<and> 0 < ReportBuckets (params (the (counted p m d))) else True)"
  using assms by (auto simp: count_metric_def counted_def count_keys_total split: if_splits)

definition count_in :: "EnrichedFlow \<Rightarrow> (EnrichedFlow \<Rightarrow> bool) \<times> PrometheusMetricsParams \<times> Database option \<Rightarrow>
    (EnrichedFlow \<Rightarrow> bool) \<times> PrometheusMetricsParams \<times> Database option" where
  "count_in m = (\<lambda>(P, p, d). (P, p, if P m then counted p m d else d))"

lemma count_in_simp: "count_in m (P, p, d) = (P, p, if P m then counted p m d else d)"
  by (simp add: count_in_def)

lemma dbs_false: "\<not> Q m \<Longrightarrow> map (count_in m) (dbs Q t) = dbs Q t"
proof (induction Q t rule: dbs.induct)
  case (1 Q p d subs e)
  then have "concat (map (map (count_in m) \<circ> dbs (\<lambda>m. Q m \<and> expr_holds m e)) subs) =
      concat (map (dbs (\<lambda>m. Q m \<and> expr_holds m e)) subs)"
    by (intro arg_cong [where f = concat]) auto
  then show ?case using 1(2) by (simp add: count_in_simp map_concat)
qed

lemma addMessage_counts:
  shows "post_order pv \<Longrightarrow> metric_ok t \<Longrightarrow> metric_fits m t \<Longrightarrow>
      \<exists>t'. addMessageToMatchingToptalkers pv m t = Inr t' \<and> metric_ok t' \<and> (\<forall>h. metric_fits h t' = metric_fits h t)
        \<and> (\<forall>Q. Q m \<longrightarrow> dbs Q t' = map (count_in m) (dbs Q t))"
    and "post_order pv \<Longrightarrow> list_all metric_ok ts \<Longrightarrow> list_all (metric_fits m) ts \<Longrightarrow>
      \<exists>ts'. addMessageToAll pv m ts = Inr ts' \<and> list_all metric_ok ts'
        \<and> (\<forall>h. list_all (metric_fits h) ts' = list_all (metric_fits h) ts)
        \<and> (\<forall>Q. Q m \<longrightarrow> concat (map (dbs Q) ts') = map (count_in m) (concat (map (dbs Q) ts)))"
proof (induction pv m t and pv m ts rule: addMessageToMatchingToptalkers_addMessageToAll.induct)
  case (1 pv m p d subs e)
  then have e: "expr_wf e" "expr_ok e" "expr_fits m e" by simp_all
  from CheckFlow_visits [OF \<open>post_order pv\<close> e(1), of m] obtain e' err b where
    "CheckFlow pv e m = Inr (b, err, e')" "err = None \<longleftrightarrow> expr_ok e"
    "err = None \<longrightarrow> expr_good m e e' \<and> (expr_fits m e \<longrightarrow> b = expr_holds m e)" by blast
  then have c: "CheckFlow pv e m = Inr (expr_holds m e, None, e')" "expr_good m e e'" using e(2,3) by simp_all
  have h: "expr_holds h e' = expr_holds h e" "expr_fits h e' = expr_fits h e" for h
    using c(2) by (simp_all add: expr_good_def)
  have w: "expr_wf e'" "expr_ok e'" using c(2) by (simp_all add: expr_good_def)
  have d: "count_metric p m d = Inr (counted p m d)"
    "if TrafficType p \<noteq> [] then counted p m d \<noteq> None \<and> 0 < ReportBuckets (params (the (counted p m d))) else True"
    using count_metric_total [of p d m] 1 by auto
  show ?case
  proof (cases "expr_holds m e")
    case True
    then obtain subs' where s: "addMessageToAll pv m subs = Inr subs'" "list_all metric_ok subs'"
      "\<forall>h. list_all (metric_fits h) subs' = list_all (metric_fits h) subs"
      "\<forall>Q. Q m \<longrightarrow> concat (map (dbs Q) subs') = map (count_in m) (concat (map (dbs Q) subs))"
      using 1(1) [OF c(1) refl refl True d(1)] 1(2-4) by auto
    then show ?thesis using True c(1) d w by (simp add: h count_in_simp)
  next
    case False
    have "map (count_in m) (dbs Q (ThresholdMetric p d subs e)) = dbs Q (ThresholdMetric p d subs e')" for Q
    proof -
      have "map (count_in m) (concat (map (dbs (\<lambda>m. Q m \<and> expr_holds m e)) subs)) =
          concat (map (dbs (\<lambda>m. Q m \<and> expr_holds m e)) subs)"
        using dbs_false [of "\<lambda>m. Q m \<and> expr_holds m e" m] False by (simp add: map_concat comp_def)
      then show ?thesis using False by (simp add: h count_in_simp)
    qed
    then show ?thesis using False c(1) w 1(3) by (simp add: h)
  qed
next
  case (2 pv m)
  then show ?case by simp
next
  case (3 pv m t ts)
  then obtain t' where t: "addMessageToMatchingToptalkers pv m t = Inr t'" "metric_ok t'"
    "\<forall>h. metric_fits h t' = metric_fits h t" "\<forall>Q. Q m \<longrightarrow> dbs Q t' = map (count_in m) (dbs Q t)" by auto
  moreover obtain ts' where "addMessageToAll pv m ts = Inr ts'" "list_all metric_ok ts'"
    "\<forall>h. list_all (metric_fits h) ts' = list_all (metric_fits h) ts"
    "\<forall>Q. Q m \<longrightarrow> concat (map (dbs Q) ts') = map (count_in m) (concat (map (dbs Q) ts))"
    using 3(2) [OF t(1)] 3(3-5) by auto
  ultimately show ?case by simp
qed

text \<open>
  C23. A run of \<open>traffic_specific_toptalkers\<close> passes every flow and counts it in exactly the databases
  whose filter and enclosing filters hold for it: afterwards each database of the tree is what
  counting those flows, in order, makes of it. This is for filters without inverted ranges, which the segment does not
  check, for positive numbers of buckets, and for flows whose AS paths are at least as long as every
  \<open>passes-through\<close> list of the filters.
\<close>

theorem traffic_counts:
  assumes "post_order pv" "list_all metric_ok ts" "\<forall>m\<in>set ms. list_all (metric_fits m) ts"
  shows "\<exists>ts'. run_loop (TrafficSpecificToptalkers_step pv) ts ms = Inr (map Out ms, ts')
    \<and> all_dbs ts' = map (\<lambda>(P, p, d). (P, p, fold (counted p) (filter P ms) d)) (all_dbs ts)"
  using assms(2,3)
proof (induction ms arbitrary: ts)
  case (Cons m ms)
  then obtain t1 where 1: "addMessageToAll pv m ts = Inr t1" "list_all metric_ok t1"
    "\<forall>h. list_all (metric_fits h) t1 = list_all (metric_fits h) ts"
    "concat (map (dbs (\<lambda>_. True)) t1) = map (count_in m) (concat (map (dbs (\<lambda>_. True)) ts))"
    using addMessage_counts(2) [OF assms(1), of ts m] by auto
  then obtain ts' where 2: "run_loop (TrafficSpecificToptalkers_step pv) t1 ms = Inr (map Out ms, ts')"
    "all_dbs ts' = map (\<lambda>(P, p, d). (P, p, fold (counted p) (filter P ms) d)) (all_dbs t1)"
    using Cons.IH [of t1] Cons.prems(2) by auto
  have "TrafficSpecificToptalkers_step pv ts m = Inr ([Out m], t1)"
    using 1(1) by (simp add: TrafficSpecificToptalkers_step_def)
  moreover have "all_dbs ts' = map (\<lambda>(P, p, d). (P, p, fold (counted p) (filter P (m # ms)) d)) (all_dbs ts)"
    using 2(2) 1(4) by (auto simp: all_dbs_def count_in_def)
  ultimately show ?case using 2(1) by simp
qed (auto simp: all_dbs_def)

text \<open>A metric for TCP traffic and its initial state.\<close>

definition tcp_params :: PrometheusMetricsParams where
  "tcp_params = (InitDefaultPrometheusMetricParams zero_params)\<lparr>TrafficType := ''tcp''\<rparr>"

definition tcp_metric :: ThresholdMetric where
  "tcp_metric = ThresholdMetric tcp_params (Some (NewDatabase tcp_params)) [] proto6"

theorem traffic_counts_witness:
  "\<exists>ts'. run_loop (TrafficSpecificToptalkers_step walk) [tcp_metric] [zero_flow, zero_flow\<lparr>Proto := 6\<rparr>] =
       Inr ([Out zero_flow, Out (zero_flow\<lparr>Proto := 6\<rparr>)], ts')
     \<and> map (snd \<circ> snd) (all_dbs ts') = [counted tcp_params (zero_flow\<lparr>Proto := 6\<rparr>) (Some (NewDatabase tcp_params))]"
proof -
  have ok: "metric_ok tcp_metric"
    by (simp add: tcp_metric_def tcp_params_def proto6_facts NewDatabase_def InitDefaultPrometheusMetricParams_def zero_params_def)
  have fits: "metric_fits m tcp_metric" for m by (simp add: tcp_metric_def proto6_facts)
  have z: "Proto zero_flow = 0" by (simp add: zero_flow_def)
  obtain ts' where "run_loop (TrafficSpecificToptalkers_step walk) [tcp_metric] [zero_flow, zero_flow\<lparr>Proto := 6\<rparr>] =
       Inr (map Out [zero_flow, zero_flow\<lparr>Proto := 6\<rparr>], ts')"
    "all_dbs ts' = map (\<lambda>(P, p, d). (P, p, fold (counted p) (filter P [zero_flow, zero_flow\<lparr>Proto := 6\<rparr>]) d)) (all_dbs [tcp_metric])"
    using traffic_counts [OF walk_post_order, of "[tcp_metric]" "[zero_flow, zero_flow\<lparr>Proto := 6\<rparr>]"] ok fits by auto
  moreover have "all_dbs [tcp_metric] = [(\<lambda>m. Proto m = 6, tcp_params, Some (NewDatabase tcp_params))]"
    by (simp add: all_dbs_def tcp_metric_def proto6_facts)
  ultimately show ?thesis using z by (auto simp del: run_loop.simps)
qed

text \<open>
  A definition whose filter does not parse, or one of whose sub-filters does not, is only
  logged: the nil metric is appended all the same and starting the segment crashes.
\<close>

theorem traffic_bad_filter_crashes:
  assumes "metricFromDefinition parse (ts_RelevantAddress s) def = None" "def \<in> set defs"
  shows "\<exists>e. initDatabases (ts_metrics (AddCustomConfig parse defs s)) = Inl e"
proof -
  have "None \<in> set ms \<Longrightarrow> \<exists>e. initDatabases ms = Inl e" for ms
    by (induction ms rule: initDatabases.induct) auto
  moreover have "None \<in> set (ts_metrics (AddCustomConfig parse defs s))"
    using assms by (force simp: AddCustomConfig_def)
  ultimately show ?thesis by blast
qed

theorem traffic_bad_filter_crashes_witness:
  "\<exists>e. initDatabases (ts_metrics (AddCustomConfig (\<lambda>_. None)
      [ThresholdMetricDefinition zero_params ''proto'' []] (TrafficSpecificToptalkers_New Map.empty))) = Inl e"
  by (rule traffic_bad_filter_crashes [of _ _ "ThresholdMetricDefinition zero_params ''proto'' []"]) (simp_all add: Let_def)

text \<open>
  The parameter \<open>metricspath\<close> does not set the metrics path: it overwrites the flow data path.
\<close>

theorem metricspath_ignored:
  assumes "cfg config ''metricspath'' \<noteq> []" "cfg config ''flowdatapath'' = []"
  shows "MetricsPath (ts_params (TrafficSpecificToptalkers_New config)) = ''/metrics''
    \<and> FlowdataPath (ts_params (TrafficSpecificToptalkers_New config)) = cfg config ''metricspath''"
  using assms by (simp add: TrafficSpecificToptalkers_New_def InitDefaultPrometheusParams_def Let_def)

theorem metricspath_ignored_witness:
  "FlowdataPath (ts_params (TrafficSpecificToptalkers_New [''metricspath'' \<mapsto> ''/m''])) = ''/m''"
  using metricspath_ignored [of "[''metricspath'' \<mapsto> ''/m'']"] by (simp add: cfg_def)

end
