(* ===== verification/Snmp.thy ===== *)
theory Snmp
  imports FlowMessage GoNet Segments
begin

text \<open>
  The segment \<open>snmp\<close> (\<open>segments/modify/snmp\<close>): interface data of routers in a cache that is filled
  by asynchronous queries. The messages and the queries interleave, so the segment is a step relation.
  The SNMP client, the regular expressions and the order in which Go iterates over \<open>oidExts\<close> are
  parameters; a cache entry that is an hour old disappears in a step of its own.
\<close>

section \<open>State\<close>

text \<open>A cached value is the nil mark of a running query, or what the SNMP library decoded.\<close>

datatype snmpvalue = VString string | VUint64 u64 | VOther

type_synonym query = "string \<times> u32 \<times> string"

record SNMP =
  Community :: string
  Regex :: string
  ConnLimit :: u64
  snmpCache :: "string \<rightharpoonup> snmpvalue option"
  sn_waiting :: "query list"
  sn_running :: "query list"

text \<open>\<open>New\<close> and the initialisation in \<open>Run\<close>; \<open>compiles\<close> says whether a regular expression compiles.\<close>

definition SNMP_New :: "(string \<Rightarrow> bool) \<Rightarrow> config_map \<Rightarrow> SNMP option" where
  "SNMP_New compiles config =
     (let connLimit = (if cfg config ''connlimit'' \<noteq> []
                       then (case parse_uint 32 (cfg config ''connlimit'') of Some n \<Rightarrow> of_nat n | None \<Rightarrow> 16) else 16);
          community = (if cfg config ''community'' \<noteq> [] then cfg config ''community'' else ''public'');
          regex = (if cfg config ''regex'' \<noteq> [] then cfg config ''regex'' else ''^(.*)$'')
      in if connLimit = 0 then None
         else if \<not> compiles regex then None
         else Some \<lparr>Community = community, Regex = regex, ConnLimit = connLimit, snmpCache = Map.empty,
                    sn_waiting = [], sn_running = []\<rparr>)"

definition oidExts :: "string list" where
  "oidExts = [''name'', ''speed'', ''desc'']"

text \<open>\<open>fmt.Sprintf("%s-%d-%s", router, iface, key)\<close>.\<close>

definition cache_key :: "query \<Rightarrow> string" where
  "cache_key q = (case q of (router, iface, key) \<Rightarrow> router @ ''-'' @ dec (unat iface) @ ''-'' @ key)"

section \<open>Fetching\<close>

text \<open>The type assertions of the switch on the key; a value of another type panics.\<close>

definition store :: "string \<Rightarrow> snmpvalue \<Rightarrow> string \<times> string \<times> u32 \<Rightarrow> (string \<times> string \<times> u32) outcome" where
  "store key v acc =
     (case acc of (name, desc, speed) \<Rightarrow>
        if key = ''name'' then (case v of VString t \<Rightarrow> Inr (t, desc, speed) | _ \<Rightarrow> Inl (Panic ''interface conversion''))
        else if key = ''desc'' then (case v of VString t \<Rightarrow> Inr (name, t, speed) | _ \<Rightarrow> Inl (Panic ''interface conversion''))
        else if key = ''speed'' then (case v of VUint64 w \<Rightarrow> Inr (name, desc, ucast w) | _ \<Rightarrow> Inl (Panic ''interface conversion''))
        else Inr acc)"

text \<open>The loop of \<open>fetchInterfaceData\<close> over the keys in some order.\<close>

fun fetch_loop :: "string \<Rightarrow> u32 \<Rightarrow> string list \<Rightarrow> string \<times> string \<times> u32 \<Rightarrow> SNMP \<Rightarrow> ((string \<times> string \<times> u32) \<times> SNMP) outcome" where
  "fetch_loop router iface [] acc s = Inr (acc, s)"
| "fetch_loop router iface (key # keys) acc s =
     (let q = (router, iface, key) in
      case snmpCache s (cache_key q) of
        Some None \<Rightarrow> Inr (([], [], 0), s)
      | Some (Some v) \<Rightarrow>
          (case store key v acc of Inl p \<Rightarrow> Inl p | Inr acc' \<Rightarrow> fetch_loop router iface keys acc' s)
      | None \<Rightarrow>
          fetch_loop router iface keys acc
            (s\<lparr>snmpCache := (snmpCache s)(cache_key q \<mapsto> None), sn_waiting := sn_waiting s @ [q]\<rparr>))"

definition fetchInterfaceData :: "string list \<Rightarrow> string \<Rightarrow> u32 \<Rightarrow> SNMP \<Rightarrow> ((string \<times> string \<times> u32) \<times> SNMP) outcome" where
  "fetchInterfaceData order router iface s = fetch_loop router iface order ([], [], 0) s"

text \<open>The description cut down by the regular expression; \<open>submatch\<close> is \<open>FindStringSubmatch\<close>.\<close>

definition clean_desc :: "(string \<Rightarrow> string list) \<Rightarrow> string \<Rightarrow> string" where
  "clean_desc submatch desc =
     (if desc \<noteq> [] \<and> length (submatch desc) > 1 then submatch desc ! 1 else desc)"

text \<open>One flow: \<open>o1\<close> and \<open>o2\<close> are the iteration orders for the two interfaces.\<close>

definition SNMP_step :: "(string \<Rightarrow> string list) \<Rightarrow> string list \<Rightarrow> string list \<Rightarrow> (SNMP, EnrichedFlow) step" where
  "SNMP_step submatch o1 o2 s m =
     (let router = ip_String (bytes_of (SamplerAddress m)) in
      case (if InIf m > 0
            then map_sum id (\<lambda>((name, desc, speed), s'). (m\<lparr>SrcIfName := name, SrcIfDesc := clean_desc submatch desc, SrcIfSpeed := speed\<rparr>, s'))
                   (fetchInterfaceData o1 router (InIf m) s)
            else Inr (m, s)) of
        Inl p \<Rightarrow> Inl p
      | Inr (m, s) \<Rightarrow>
          (case (if OutIf m > 0
                 then map_sum id (\<lambda>((name, desc, speed), s'). (m\<lparr>DstIfName := name, DstIfDesc := clean_desc submatch desc, DstIfSpeed := speed\<rparr>, s'))
                        (fetchInterfaceData o2 router (OutIf m) s)
                 else Inr (m, s)) of
             Inl p \<Rightarrow> Inl p
           | Inr (m, s) \<Rightarrow> Inr ([Out m], s)))"

section \<open>Queries\<close>

datatype response = ConnectionError | GetError | Variables "snmpvalue list"

text \<open>The two halves of \<open>querySNMP\<close>: waiting for the semaphore, and what the answer does to the cache.\<close>

definition acquire :: "query \<Rightarrow> SNMP \<Rightarrow> SNMP" where
  "acquire q s = s\<lparr>sn_waiting := remove1 q (sn_waiting s), sn_running := sn_running s @ [q]\<rparr>"

definition querySNMP :: "response \<Rightarrow> query \<Rightarrow> SNMP \<Rightarrow> SNMP" where
  "querySNMP resp q s =
     (let s = s\<lparr>sn_running := remove1 q (sn_running s)\<rparr> in
      case resp of
        ConnectionError \<Rightarrow> s\<lparr>snmpCache := (snmpCache s)(cache_key q := None)\<rparr>
      | GetError \<Rightarrow> s\<lparr>snmpCache := (snmpCache s)(cache_key q := None)\<rparr>
      | Variables vs \<Rightarrow>
          (case vs of
             [v] \<Rightarrow> s\<lparr>snmpCache := (snmpCache s)(cache_key q \<mapsto> Some v)\<rparr>
           | _ \<Rightarrow> s))"

text \<open>The object identifier a query asks for: \<open>fmt.Sprintf(oidBase, oidExts[key], iface)\<close>.\<close>

definition oid_of :: "query \<Rightarrow> string" where
  "oid_of q = (case q of (router, iface, key) \<Rightarrow>
     ''.1.3.6.1.2.1.31.1.1.1.'' @
     dec (if key = ''name'' then 1 else if key = ''speed'' then 15 else if key = ''desc'' then 18 else 0) @
     ''.'' @ dec (unat iface))"

text \<open>
  The cache is made with \<open>cache.New(1*time.Hour, 1*time.Hour)\<close> and every entry is set with the default
  expiration: after an hour \<open>Get\<close> no longer finds it, be it a value or the mark of a query.
\<close>

definition expire :: "string \<Rightarrow> SNMP \<Rightarrow> SNMP" where
  "expire k s = s\<lparr>snmpCache := (snmpCache s)(k := None)\<rparr>"

text \<open>The queries that were started and have not ended: they wait for the semaphore or hold it.\<close>

definition outstanding :: "SNMP \<Rightarrow> query list" where
  "outstanding s = sn_waiting s @ sn_running s"

text \<open>
  The executions: flows, queries that acquire the semaphore, answers and entries that expire, in any
  order. \<open>timely\<close> restricts them to those in which a query ends before its mark expires.
\<close>

inductive snmp_step :: "bool \<Rightarrow> (string \<Rightarrow> string list) \<Rightarrow> SNMP \<Rightarrow> SNMP \<Rightarrow> bool" for timely submatch where
  flow: "mset o1 = mset oidExts \<Longrightarrow> mset o2 = mset oidExts \<Longrightarrow> SNMP_step submatch o1 o2 s m = Inr (es, s') \<Longrightarrow>
    snmp_step timely submatch s s'"
| acquire: "q \<in> set (sn_waiting s) \<Longrightarrow> length (sn_running s) < unat (ConnLimit s) \<Longrightarrow>
    snmp_step timely submatch s (acquire q s)"
| answer: "q \<in> set (sn_running s) \<Longrightarrow> snmp_step timely submatch s (querySNMP resp q s)"
| expire: "snmpCache s k \<noteq> None \<Longrightarrow> timely \<longrightarrow> k \<notin> cache_key ` set (outstanding s) \<Longrightarrow>
    snmp_step timely submatch s (expire k s)"

section \<open>Invariants\<close>

definition snmp_inv :: "SNMP \<Rightarrow> bool" where
  "snmp_inv s \<longleftrightarrow> length (sn_running s) \<le> unat (ConnLimit s) \<and> distinct (map cache_key (outstanding s))
     \<and> (\<forall>q\<in>set (outstanding s). snmpCache s (cache_key q) = Some None)"

lemma fetch_loop_inv:
  "snmp_inv s \<Longrightarrow> fetch_loop router iface keys acc s = Inr (r, s') \<Longrightarrow>
     snmp_inv s' \<and> ConnLimit s' = ConnLimit s"
proof (induction router iface keys acc s rule: fetch_loop.induct)
  case (2 router iface key keys acc s)
  let ?q = "(router, iface, key)"
  consider "snmpCache s (cache_key ?q) = Some None" | v where "snmpCache s (cache_key ?q) = Some (Some v)"
    | "snmpCache s (cache_key ?q) = None" by (cases "snmpCache s (cache_key ?q)") auto
  then show ?case
  proof cases
    case 1
    then show ?thesis using 2(3,4) by auto
  next
    case (2 v)
    then show ?thesis using "2.IH"(2) [OF refl 2 refl] "2.prems" by (auto split: sum.splits)
  next
    case 3
    let ?s = "s\<lparr>snmpCache := (snmpCache s)(cache_key ?q \<mapsto> None), sn_waiting := sn_waiting s @ [?q]\<rparr>"
    have "snmp_inv ?s" using "2.prems"(1) 3 by (auto simp: snmp_inv_def outstanding_def)
    then show ?thesis using "2.IH"(1) [OF refl 3] "2.prems"(2) 3 by (auto simp: Let_def)
  qed
qed auto

lemma fetch_inv:
  "snmp_inv s \<Longrightarrow> fetchInterfaceData ord router iface s = Inr (r, s') \<Longrightarrow> snmp_inv s'"
  using fetch_loop_inv by (auto simp: fetchInterfaceData_def)

lemma SNMP_step_inv:
  assumes "snmp_inv s" "SNMP_step submatch o1 o2 s m = Inr (es, s')"
  shows "snmp_inv s'"
proof -
  let ?r = "ip_String (bytes_of (SamplerAddress m))"
  let ?first = "if InIf m > 0
    then map_sum id (\<lambda>((name, desc, speed), s'). (m\<lparr>SrcIfName := name, SrcIfDesc := clean_desc submatch desc, SrcIfSpeed := speed\<rparr>, s'))
           (fetchInterfaceData o1 ?r (InIf m) s)
    else Inr (m, s)"
  obtain m1 s1 where 1: "?first = Inr (m1, s1)"
    using assms(2) by (cases ?first) (auto simp: SNMP_step_def Let_def)
  have "snmp_inv s1"
    using 1 assms(1) by (cases "fetchInterfaceData o1 ?r (InIf m) s") (auto split: if_splits dest: fetch_inv)
  then show ?thesis
    using assms(2) unfolding SNMP_step_def Let_def 1
    by (cases "fetchInterfaceData o2 ?r (OutIf m1) s1") (auto split: if_splits dest: fetch_inv)
qed

lemma acquire_inv:
  assumes "snmp_inv s" "q \<in> set (sn_waiting s)" "length (sn_running s) < unat (ConnLimit s)"
  shows "snmp_inv (acquire q s)"
proof -
  have "mset (outstanding (acquire q s)) = mset (outstanding s)"
    using assms(2) by (simp add: outstanding_def acquire_def)
  then have "distinct (map cache_key (outstanding (acquire q s)))" "set (outstanding (acquire q s)) = set (outstanding s)"
    using assms(1) by (metis mset_map snmp_inv_def mset_eq_imp_distinct_iff, metis mset_eq_setD)
  then show ?thesis using assms(1,3) by (simp add: snmp_inv_def acquire_def)
qed

lemma answer_inv:
  assumes "snmp_inv s" "q \<in> set (sn_running s)"
  shows "snmp_inv (querySNMP resp q s)"
proof -
  let ?s = "querySNMP resp q s"
  have out: "outstanding ?s = sn_waiting s @ remove1 q (sn_running s)" and lim: "ConnLimit ?s = ConnLimit s"
    by (auto simp: outstanding_def querySNMP_def Let_def split: response.split list.split)
  have d: "distinct (map cache_key (outstanding s))" using assms(1) by (simp add: snmp_inv_def)
  then have dq: "distinct (outstanding s)" by (simp add: distinct_map)
  have m: "mset (outstanding s) = add_mset q (mset (outstanding ?s))"
    using assms(2) unfolding out by (simp add: outstanding_def)
  then have "mset (map cache_key (outstanding s)) = add_mset (cache_key q) (mset (map cache_key (outstanding ?s)))" by simp
  then have dist: "distinct (cache_key q # map cache_key (outstanding ?s))"
    using d by (metis mset.simps(2) mset_eq_imp_distinct_iff)
  have same: "snmpCache ?s k = snmpCache s k" if "k \<noteq> cache_key q" for k
    using that by (auto simp: querySNMP_def Let_def split: response.split list.split)
  have sub: "set (outstanding ?s) \<subseteq> set (outstanding s)" using m by (metis set_mset_add_mset_insert set_mset_mset subset_insertI)
  have "snmpCache ?s (cache_key x) = Some None" if x: "x \<in> set (outstanding ?s)" for x
  proof -
    have "cache_key x \<noteq> cache_key q" using dist x by (metis distinct.simps(2) image_eqI list.set_map)
    then show ?thesis using same x sub assms(1) by (auto simp: snmp_inv_def)
  qed
  moreover have "length (sn_running ?s) \<le> unat (ConnLimit s)"
    using assms(1) out by (auto simp: snmp_inv_def querySNMP_def Let_def length_remove1 split: response.split list.split)
  ultimately show ?thesis using dist lim by (simp add: snmp_inv_def)
qed

lemma expire_inv:
  "snmp_inv s \<Longrightarrow> k \<notin> cache_key ` set (outstanding s) \<Longrightarrow> snmp_inv (expire k s)"
  by (auto simp: snmp_inv_def outstanding_def expire_def)

text \<open>The semaphore alone bounds the running queries, whatever happens to the cache.\<close>

definition snmp_limited :: "u64 \<Rightarrow> SNMP \<Rightarrow> bool" where
  "snmp_limited lim s \<longleftrightarrow> ConnLimit s = lim \<and> length (sn_running s) \<le> unat lim"

lemma fetch_loop_running:
  "fetch_loop router iface keys acc s = Inr (r, s') \<Longrightarrow> sn_running s' = sn_running s \<and> ConnLimit s' = ConnLimit s"
  by (induction router iface keys acc s rule: fetch_loop.induct)
    (auto simp: Let_def split: option.splits sum.splits)

lemma SNMP_step_running:
  assumes "SNMP_step submatch o1 o2 s m = Inr (es, s')"
  shows "sn_running s' = sn_running s \<and> ConnLimit s' = ConnLimit s"
proof -
  have *: "sn_running t' = sn_running t \<and> ConnLimit t' = ConnLimit t"
    if got: "map_sum id f (fetchInterfaceData ord r i t) = Inr (x, t')" "\<And>y u. snd (f (y, u)) = u" for f ord r i t x t'
  proof -
    obtain y u where "fetch_loop r i ord ([], [], 0) t = Inr (y, u)" "f (y, u) = (x, t')"
      using got by (cases "fetch_loop r i ord ([], [], 0) t") (auto simp: fetchInterfaceData_def)
    then show ?thesis using fetch_loop_running that(2) by (metis snd_conv)
  qed
  show ?thesis
    using assms by (auto simp: SNMP_step_def Let_def split: sum.splits if_splits prod.splits dest!: *)
qed

lemma snmp_step_limited: "snmp_step timely submatch s s' \<Longrightarrow> snmp_limited lim s \<Longrightarrow> snmp_limited lim s'"
  by (induction rule: snmp_step.induct)
    (auto simp: snmp_limited_def acquire_def expire_def querySNMP_def Let_def length_remove1
      dest: SNMP_step_running split: response.split list.split)

lemma snmp_step_inv: "snmp_step True submatch s s' \<Longrightarrow> snmp_inv s \<Longrightarrow> snmp_inv s'"
  by (induction rule: snmp_step.induct) (auto intro: SNMP_step_inv acquire_inv answer_inv expire_inv)

lemma snmp_New_init:
  assumes "SNMP_New compiles config = Some s"
  shows "snmp_inv s" "snmp_limited (ConnLimit s) s"
  using assms by (auto simp: SNMP_New_def Let_def snmp_inv_def snmp_limited_def outstanding_def split: if_splits)

text \<open>
  C28. Whatever the order of flows, answers, map iterations and expiring cache entries: the number of
  running queries stays within the configured limit. As long as every query ends before its mark
  expires, there is never a second outstanding query for the same datum either, and every
  outstanding query has its mark in the cache.
\<close>

theorem snmp_queries_bounded:
  assumes "SNMP_New compiles config = Some s" "(snmp_step timely submatch)\<^sup>*\<^sup>* s s'"
  shows "ConnLimit s' = ConnLimit s \<and> length (sn_running s') \<le> unat (ConnLimit s)
    \<and> (timely \<longrightarrow> distinct (map cache_key (outstanding s'))
         \<and> list_all (\<lambda>q. snmpCache s' (cache_key q) = Some None) (outstanding s'))"
proof -
  have "snmp_limited (ConnLimit s) s'"
    using assms(2) snmp_New_init(2) [OF assms(1)] by (induction rule: rtranclp_induct) (auto intro: snmp_step_limited)
  moreover have "snmp_inv s'" if timely
    using assms(2) snmp_New_init(1) [OF assms(1)] that
    by (induction rule: rtranclp_induct) (auto intro: snmp_step_inv)
  ultimately show ?thesis by (auto simp: snmp_inv_def snmp_limited_def list_all_iff)
qed

theorem snmp_queries_bounded_witness:
  "\<exists>s. SNMP_New (\<lambda>_. True) Map.empty = Some s \<and> ConnLimit s = 16
     \<and> length (sn_running s) \<le> unat (ConnLimit s) \<and> distinct (map cache_key (outstanding s))"
proof -
  obtain s where s: "SNMP_New (\<lambda>_. True) Map.empty = Some s" by (simp add: SNMP_New_def)
  then have "ConnLimit s = 16" by (auto simp: SNMP_New_def)
  then show ?thesis using s snmp_queries_bounded [OF s, of True "\<lambda>_. []" s] by auto
qed

section \<open>Annotation\<close>

text \<open>The order of the iteration does not matter once all data of an interface are cached.\<close>

lemma fetch_cached:
  assumes "snmpCache s (cache_key (router, iface, ''name'')) = Some (Some (VString name))"
    and "snmpCache s (cache_key (router, iface, ''desc'')) = Some (Some (VString desc))"
    and "snmpCache s (cache_key (router, iface, ''speed'')) = Some (Some (VUint64 speed))"
    and "mset ord = mset oidExts"
  shows "fetchInterfaceData ord router iface s = Inr ((name, desc, ucast speed), s)"
proof -
  have st: "store ''name'' (VString name) acc = Inr (name, snd acc)"
    "store ''desc'' (VString desc) acc = Inr (fst acc, desc, snd (snd acc))"
    "store ''speed'' (VUint64 speed) acc = Inr (fst acc, fst (snd acc), ucast speed)" for acc
    by (simp_all add: store_def split: prod.split)
  have loop: "set ks \<subseteq> set oidExts \<Longrightarrow> fetch_loop router iface ks acc s =
      Inr ((if ''name'' \<in> set ks then name else fst acc, if ''desc'' \<in> set ks then desc else fst (snd acc),
            if ''speed'' \<in> set ks then ucast speed else snd (snd acc)), s)" for ks acc
  proof (induction ks arbitrary: acc)
    case (Cons k ks)
    then have "k = ''name'' \<or> k = ''desc'' \<or> k = ''speed''" by (auto simp: oidExts_def)
    then show ?case using Cons assms(1-3) st by (elim disjE) simp_all
  qed simp
  have "set ord = set oidExts" using assms(4) by (rule mset_eq_setD)
  then show ?thesis using loop [of ord "([], [], 0)"] by (simp add: fetchInterfaceData_def oidExts_def)
qed

text \<open>
  A flow that entered through an interface whose three data are cached leaves with exactly these as
  its source interface annotation, whatever order Go iterates in, and no new query is started.
\<close>

theorem snmp_annotates:
  assumes "router = ip_String (bytes_of (SamplerAddress m))" "InIf m > 0" "OutIf m = 0"
    and "snmpCache s (cache_key (router, InIf m, ''name'')) = Some (Some (VString name))"
    and "snmpCache s (cache_key (router, InIf m, ''desc'')) = Some (Some (VString desc))"
    and "snmpCache s (cache_key (router, InIf m, ''speed'')) = Some (Some (VUint64 speed))"
    and "mset o1 = mset oidExts"
  shows "SNMP_step submatch o1 o2 s m =
    Inr ([Out (m\<lparr>SrcIfName := name, SrcIfDesc := clean_desc submatch desc, SrcIfSpeed := ucast speed\<rparr>)], s)"
  using assms(2,3) fetch_cached [OF assms(4-7)] by (simp add: SNMP_step_def Let_def assms(1))

text \<open>An interface of a router that has answered, and a flow through it.\<close>

definition demo_snmp :: SNMP where
  "demo_snmp = \<lparr>Community = ''public'', Regex = ''^(.*)$'', ConnLimit = 16,
     snmpCache = [cache_key (''10.0.0.1'', 7, ''name'') \<mapsto> Some (VString ''xe-0''),
       cache_key (''10.0.0.1'', 7, ''desc'') \<mapsto> Some (VString ''uplink''),
       cache_key (''10.0.0.1'', 7, ''speed'') \<mapsto> Some (VUint64 10000)],
     sn_waiting = [], sn_running = []\<rparr>"

theorem snmp_annotates_witness:
  "SNMP_step (\<lambda>d. [d, d]) oidExts oidExts demo_snmp (zero_flow\<lparr>SamplerAddress := Some [10, 0, 0, 1], InIf := 7\<rparr>) =
     Inr ([Out (zero_flow\<lparr>SamplerAddress := Some [10, 0, 0, 1], InIf := 7, SrcIfName := ''xe-0'', SrcIfDesc := ''uplink'',
       SrcIfSpeed := 10000\<rparr>)], demo_snmp)"
proof -
  let ?m = "zero_flow\<lparr>SamplerAddress := Some [10, 0, 0, 1], InIf := 7\<rparr>"
  have r: "''10.0.0.1'' = ip_String (bytes_of (SamplerAddress ?m))" by code_simp
  have k: "cache_key (r', i, k) = cache_key (r', i, k') \<longleftrightarrow> k = k'" for r' i k k' by (simp add: cache_key_def)
  have z: "OutIf ?m = 0" by (simp add: zero_flow_def)
  show ?thesis
    using snmp_annotates [OF r, of demo_snmp "''xe-0''" "''uplink''" 10000 oidExts "\<lambda>d. [d, d]" oidExts] z
    by (simp add: demo_snmp_def k clean_desc_def)
qed

text \<open>
  The documentation says that a flow whose interface data is not yet known is left as it was;
  the code erases the interface fields it already had, and starts the three queries.
\<close>

theorem snmp_first_flow_erased:
  assumes "InIf m > 0" "OutIf m = 0" "router = ip_String (bytes_of (SamplerAddress m))"
    and "snmpCache s = Map.empty" "distinct o1" "sn_waiting s = []"
  shows "\<exists>s'. SNMP_step submatch o1 o2 s m = Inr ([Out (m\<lparr>SrcIfName := [], SrcIfDesc := [], SrcIfSpeed := 0\<rparr>)], s')
    \<and> sn_waiting s' = map (\<lambda>k. (router, InIf m, k)) o1"
proof -
  have loop: "distinct ks \<Longrightarrow> \<forall>k\<in>set ks. snmpCache t (cache_key (router, InIf m, k)) = None \<Longrightarrow>
      \<exists>t'. fetch_loop router (InIf m) ks acc t = Inr (acc, t') \<and> sn_waiting t' = sn_waiting t @ map (\<lambda>k. (router, InIf m, k)) ks"
    for ks acc t
  proof (induction ks arbitrary: t)
    case (Cons k ks)
    let ?q = "(router, InIf m, k)"
    let ?t = "t\<lparr>snmpCache := (snmpCache t)(cache_key ?q \<mapsto> None), sn_waiting := sn_waiting t @ [?q]\<rparr>"
    have "\<forall>k'\<in>set ks. snmpCache ?t (cache_key (router, InIf m, k')) = None"
      using Cons.prems by (auto simp: cache_key_def)
    then show ?case using Cons.IH [of ?t] Cons.prems by (auto simp: Let_def)
  qed simp
  obtain s' where "fetchInterfaceData o1 router (InIf m) s = Inr (([], [], 0), s')"
    "sn_waiting s' = map (\<lambda>k. (router, InIf m, k)) o1"
    using loop [of o1 s "([], [], 0)"] assms(4-6) by (auto simp: fetchInterfaceData_def)
  then show ?thesis using assms(1-3) by (simp add: SNMP_step_def Let_def clean_desc_def)
qed

theorem snmp_first_flow_erased_witness:
  "\<exists>s'. SNMP_step (\<lambda>d. [d, d]) oidExts oidExts (demo_snmp\<lparr>snmpCache := Map.empty\<rparr>)
      (zero_flow\<lparr>InIf := 7, SrcIfName := ''xe-0''\<rparr>) =
    Inr ([Out (zero_flow\<lparr>InIf := 7, SrcIfName := [], SrcIfDesc := [], SrcIfSpeed := 0\<rparr>)], s')"
proof -
  have z: "OutIf zero_flow = 0" by (simp add: zero_flow_def)
  show ?thesis
    using snmp_first_flow_erased [of "zero_flow\<lparr>InIf := 7, SrcIfName := ''xe-0''\<rparr>" _ "demo_snmp\<lparr>snmpCache := Map.empty\<rparr>" oidExts "\<lambda>d. [d, d]" oidExts] z
    by (auto simp: demo_snmp_def oidExts_def)
qed

text \<open>A datum that is cached with a value of the type the code expects.\<close>

definition answered :: "string \<Rightarrow> snmpvalue option option \<Rightarrow> bool" where
  "answered key c =
     (case c of Some (Some (VString t)) \<Rightarrow> key \<noteq> ''speed'' | Some (Some (VUint64 w)) \<Rightarrow> key \<notin> {''name'', ''desc''} | _ \<Rightarrow> False)"

lemma answered_store: "answered key (Some (Some v)) \<Longrightarrow> \<exists>acc'. store key v acc = Inr acc'"
  by (auto simp: answered_def store_def split: snmpvalue.splits prod.split)

lemma answered_value: "answered key c \<Longrightarrow> \<exists>v. c = Some (Some v)"
  by (auto simp: answered_def split: option.splits)

lemma fetch_loop_pending:
  assumes "snmpCache s (cache_key (router, iface, key)) = Some None"
    and "\<forall>k\<in>set ks - {key}. answered k (snmpCache s (cache_key (router, iface, k)))" "key \<in> set ks"
  shows "fetch_loop router iface ks acc s = Inr (([], [], 0), s)"
  using assms(2,3)
proof (induction ks arbitrary: acc)
  case (Cons k ks)
  show ?case
  proof (cases "k = key")
    case False
    then have "answered k (snmpCache s (cache_key (router, iface, k)))" using Cons.prems(1) by simp
    then obtain v where v: "snmpCache s (cache_key (router, iface, k)) = Some (Some v)" "answered k (Some (Some v))"
      using answered_value by metis
    then obtain acc' where "store k v acc = Inr acc'" using answered_store by blast
    then show ?thesis using v(1) Cons.IH [of acc'] Cons.prems False by simp
  qed (use assms(1) in simp)
qed simp

text \<open>
  An answer without exactly one variable leaves the mark in the cache although the query is over:
  until the entry expires the interface is left without any annotation, even when its other data
  are known, and no new query is started.
\<close>

theorem snmp_bad_answer_blocks:
  assumes "snmp_inv s" "(router, iface, key) \<in> set (sn_running s)" "length vs \<noteq> 1" "key \<in> set ord"
    and "\<forall>k\<in>set ord - {key}. answered k (snmpCache s (cache_key (router, iface, k)))"
  shows "fetchInterfaceData ord router iface (querySNMP (Variables vs) (router, iface, key) s) =
      Inr (([], [], 0), querySNMP (Variables vs) (router, iface, key) s)
    \<and> (router, iface, key) \<notin> set (outstanding (querySNMP (Variables vs) (router, iface, key) s))"
proof -
  let ?q = "(router, iface, key)"
  have s': "querySNMP (Variables vs) ?q s = s\<lparr>sn_running := remove1 ?q (sn_running s)\<rparr>"
    using assms(3) by (cases vs rule: list.exhaust; cases "tl vs") (auto simp: querySNMP_def Let_def)
  have "distinct (outstanding s)" using assms(1) by (simp add: snmp_inv_def distinct_map)
  then have "?q \<notin> set (remove1 ?q (sn_running s)) \<and> ?q \<notin> set (sn_waiting s)"
    using assms(2) by (auto simp: outstanding_def)
  moreover have "snmpCache s (cache_key ?q) = Some None" using assms(1,2) by (auto simp: snmp_inv_def outstanding_def)
  ultimately show ?thesis
    using fetch_loop_pending [of "querySNMP (Variables vs) ?q s" router iface key ord] assms(4,5)
    by (simp add: s' fetchInterfaceData_def outstanding_def)
qed

theorem snmp_bad_answer_blocks_witness:
  "fetchInterfaceData oidExts ''10.0.0.1'' 7 (querySNMP (Variables []) (''10.0.0.1'', 7, ''desc'')
     (demo_snmp\<lparr>snmpCache := (snmpCache demo_snmp)(cache_key (''10.0.0.1'', 7, ''desc'') \<mapsto> None),
       sn_running := [(''10.0.0.1'', 7, ''desc'')]\<rparr>)) =
   Inr (([], [], 0), demo_snmp\<lparr>snmpCache := (snmpCache demo_snmp)(cache_key (''10.0.0.1'', 7, ''desc'') \<mapsto> None)\<rparr>)"
proof -
  let ?s = "demo_snmp\<lparr>snmpCache := (snmpCache demo_snmp)(cache_key (''10.0.0.1'', 7, ''desc'') \<mapsto> None),
       sn_running := [(''10.0.0.1'', 7, ''desc'')]\<rparr>"
  have k: "cache_key (r', i, k) = cache_key (r', i, k') \<longleftrightarrow> k = k'" for r' i k k' by (simp add: cache_key_def)
  have inv: "snmp_inv ?s" by (simp add: snmp_inv_def outstanding_def demo_snmp_def)
  have pre: "\<forall>k\<in>set oidExts - {''desc''}. answered k (snmpCache ?s (cache_key (''10.0.0.1'', 7, k)))"
    by (simp add: oidExts_def demo_snmp_def k) (auto simp: answered_def)
  have "querySNMP (Variables []) (''10.0.0.1'', 7, ''desc'') ?s =
      demo_snmp\<lparr>snmpCache := (snmpCache demo_snmp)(cache_key (''10.0.0.1'', 7, ''desc'') \<mapsto> None)\<rparr>"
    by (simp add: querySNMP_def demo_snmp_def)
  then show ?thesis
    using snmp_bad_answer_blocks [OF inv, of "''10.0.0.1''" 7 "''desc''" "[]" oidExts, OF _ _ _ pre]
    by (simp add: oidExts_def)
qed

section \<open>Keys, identifiers and expiry\<close>

lemma last_sep_unique:
  assumes "c \<notin> set v" "c \<notin> set v'" "u @ c # v = u' @ c # v'"
  shows "u = u' \<and> v = v'"
proof -
  have *: "takeWhile (\<lambda>x. x \<noteq> c) (rev (w @ c # y)) = rev y" if "c \<notin> set y" for w y
    using that by (subst rev_append, simp add: takeWhile_append)
  have "rev v = rev v'" using * [OF assms(1), of u] * [OF assms(2), of u'] assms(3) by simp
  then show ?thesis using assms(3) by simp
qed

lemma dec_no_minus: "CHR ''-'' \<notin> set (dec n)" and dec_no_dot: "CHR ''.'' \<notin> set (dec n)"
proof -
  have "digit_val (CHR ''-'') = None" "digit_val (CHR ''.'') = None" by code_simp+
  then show "CHR ''-'' \<notin> set (dec n)" "CHR ''.'' \<notin> set (dec n)"
    using dec_digits digit_val_digit_char by (metis option.distinct(1))+
qed

lemma oidExts_no_minus: "key \<in> set oidExts \<Longrightarrow> CHR ''-'' \<notin> set key"
  by (auto simp: oidExts_def)

text \<open>
  The key of a datum in the cache identifies it: data of different routers, interfaces or kinds never
  share an entry, whatever the text of the router is.
\<close>

theorem cache_key_identifies:
  assumes "key \<in> set oidExts" "key' \<in> set oidExts"
  shows "cache_key (router, iface, key) = cache_key (router', iface', key')
    \<longleftrightarrow> (router, iface, key) = (router', iface', key')"
proof
  assume "cache_key (router, iface, key) = cache_key (router', iface', key')"
  then have "(router @ CHR ''-'' # dec (unat iface)) @ CHR ''-'' # key = (router' @ CHR ''-'' # dec (unat iface')) @ CHR ''-'' # key'"
    by (simp add: cache_key_def)
  from last_sep_unique [OF _ _ this] have "router @ CHR ''-'' # dec (unat iface) = router' @ CHR ''-'' # dec (unat iface')" "key = key'"
    using assms oidExts_no_minus by blast+
  with last_sep_unique [OF dec_no_minus dec_no_minus this(1)] show "(router, iface, key) = (router', iface', key')"
    using dec_inj [of "unat iface" "unat iface'"] by (auto simp: word_unat_eq_iff)
qed simp

theorem cache_key_identifies_witness:
  "cache_key (''10.0.0.1'', 7, ''name'') \<noteq> cache_key (''10.0.0.1'', 7, ''desc'')"
  using cache_key_identifies [of "''name''" "''desc''" "''10.0.0.1''" 7 "''10.0.0.1''" 7] by (simp add: oidExts_def)

text \<open>The three data of an interface, and data of different interfaces, have different identifiers.\<close>

theorem oid_of_identifies:
  assumes "key \<in> set oidExts" "key' \<in> set oidExts"
  shows "oid_of (router, iface, key) = oid_of (router', iface', key') \<longleftrightarrow> iface = iface' \<and> key = key'"
proof
  let ?n = "\<lambda>key. if key = ''name'' then 1 else if key = ''speed'' then 15 else if key = ''desc'' then 18 else (0::nat)"
  assume eq: "oid_of (router, iface, key) = oid_of (router', iface', key')"
  have "dec (?n key) @ CHR ''.'' # dec (unat iface) = dec (?n key') @ CHR ''.'' # dec (unat iface')"
    using eq by (simp only: oid_of_def prod.case same_append_eq append_Cons append_Nil append_assoc list.inject simp_thms)
  from last_sep_unique [OF dec_no_dot dec_no_dot this] have "?n key = ?n key'" "unat iface = unat iface'"
    using dec_inj by blast+
  then show "iface = iface' \<and> key = key'"
    using assms by (auto simp: word_unat_eq_iff oidExts_def split: if_splits)
qed (simp add: oid_of_def)

theorem oid_of_identifies_witness:
  "oid_of (''10.0.0.1'', 7, ''name'') \<noteq> oid_of (''10.0.0.1'', 8, ''name'')"
  using oid_of_identifies [of "''name''" "''name''" "''10.0.0.1''" 7 "''10.0.0.1''" 8] by (simp add: oidExts_def)

lemma fetch_loop_missing:
  assumes "snmpCache s (cache_key (router, iface, key)) = None" "key \<in> set ks" "distinct ks" "set ks \<subseteq> set oidExts"
    and "\<forall>k\<in>set ks - {key}. answered k (snmpCache s (cache_key (router, iface, k)))"
  shows "\<exists>r. fetch_loop router iface ks acc s = Inr (r, s\<lparr>snmpCache := (snmpCache s)(cache_key (router, iface, key) \<mapsto> None),
    sn_waiting := sn_waiting s @ [(router, iface, key)]\<rparr>)"
  using assms(2-5)
proof (induction ks arbitrary: acc)
  case (Cons k ks)
  show ?case
  proof (cases "k = key")
    case True
    let ?t = "s\<lparr>snmpCache := (snmpCache s)(cache_key (router, iface, key) \<mapsto> None), sn_waiting := sn_waiting s @ [(router, iface, key)]\<rparr>"
    have all: "\<forall>k'\<in>set ks. answered k' (snmpCache ?t (cache_key (router, iface, k')))"
      using Cons.prems True by (auto simp: cache_key_def)
    have "\<exists>r. fetch_loop router iface ks acc ?t = Inr (r, ?t)" for acc
      using all
    proof (induction ks arbitrary: acc)
      case (Cons x xs)
      then obtain v where v: "snmpCache ?t (cache_key (router, iface, x)) = Some (Some v)" "answered x (Some (Some v))"
        using answered_value by (metis list.set_intros(1))
      then obtain acc' where "store x v acc = Inr acc'" using answered_store by blast
      then show ?case using v(1) Cons by (simp add: Let_def)
    qed auto
    then show ?thesis using assms(1) True by (simp add: Let_def fun_upd_def)
  next
    case False
    then have "answered k (snmpCache s (cache_key (router, iface, k)))" using Cons.prems(4) by simp
    then obtain v where v: "snmpCache s (cache_key (router, iface, k)) = Some (Some v)" "answered k (Some (Some v))"
      using answered_value by metis
    then obtain acc' where "store k v acc = Inr acc'" using answered_store by blast
    then show ?thesis using v(1) Cons.IH [of acc'] Cons.prems False by simp
  qed
qed simp

lemma snmp_expired_lemma:
  assumes "key \<in> set oidExts" "mset ord = mset oidExts"
    and "\<forall>k\<in>set oidExts - {key}. answered k (snmpCache s (cache_key (router, iface, k)))"
  shows "\<exists>r. fetchInterfaceData ord router iface (expire (cache_key (router, iface, key)) s) =
    Inr (r, s\<lparr>snmpCache := (snmpCache s)(cache_key (router, iface, key) \<mapsto> None),
      sn_waiting := sn_waiting s @ [(router, iface, key)]\<rparr>)"
proof -
  let ?q = "(router, iface, key)"
  have set: "set ord = set oidExts" using assms(2) by (rule mset_eq_setD)
  have "distinct oidExts" by (simp add: oidExts_def)
  then have "distinct ord" using assms(2) by (metis mset_eq_imp_distinct_iff)
  moreover have "\<forall>k\<in>set ord - {key}. answered k (snmpCache (expire (cache_key ?q) s) (cache_key (router, iface, k)))"
    using assms(3) by (auto simp: set expire_def cache_key_def)
  ultimately show ?thesis
    using fetch_loop_missing [of "expire (cache_key ?q) s" router iface key ord "([], [], 0)"] assms(1)
    by (simp add: set fetchInterfaceData_def expire_def)
qed

text \<open>
  An entry that has expired is asked for again: the next flow through the interface sets the mark anew
  and starts exactly one query, for the datum that expired. In particular an interface that an answer
  without a variable had blocked recovers.
\<close>

theorem snmp_expired_asked_again:
  assumes "key \<in> set oidExts" "mset ord = mset oidExts"
    and "\<forall>k\<in>set oidExts - {key}. answered k (snmpCache s (cache_key (router, iface, k)))"
  shows "\<exists>r. fetchInterfaceData ord router iface (expire (cache_key (router, iface, key)) s) =
    Inr (r, s\<lparr>snmpCache := (snmpCache s)(cache_key (router, iface, key) \<mapsto> None),
      sn_waiting := sn_waiting s @ [(router, iface, key)]\<rparr>)"
  by (rule snmp_expired_lemma [OF assms])

theorem snmp_expired_asked_again_witness:
  "\<exists>r s'. fetchInterfaceData oidExts ''10.0.0.1'' 7 (expire (cache_key (''10.0.0.1'', 7, ''desc'')) demo_snmp) = Inr (r, s')
     \<and> sn_waiting s' = [(''10.0.0.1'', 7, ''desc'')]"
proof -
  have k: "cache_key (r', i, k) = cache_key (r', i, k') \<longleftrightarrow> k = k'" for r' i k k' by (simp add: cache_key_def)
  have pre: "\<forall>k\<in>set oidExts - {''desc''}. answered k (snmpCache demo_snmp (cache_key (''10.0.0.1'', 7, k)))"
    by (simp add: oidExts_def demo_snmp_def k) (auto simp: answered_def)
  have "\<exists>r. fetchInterfaceData oidExts ''10.0.0.1'' 7 (expire (cache_key (''10.0.0.1'', 7, ''desc'')) demo_snmp) =
      Inr (r, demo_snmp\<lparr>snmpCache := (snmpCache demo_snmp)(cache_key (''10.0.0.1'', 7, ''desc'') \<mapsto> None),
        sn_waiting := sn_waiting demo_snmp @ [(''10.0.0.1'', 7, ''desc'')]\<rparr>)"
    by (rule snmp_expired_asked_again [OF _ _ pre]) (simp_all add: oidExts_def)
  then show ?thesis by (auto simp: demo_snmp_def)
qed

text \<open>
  The mark of a query that is still outstanding expires like any other entry. The next flow then starts
  a second query for the same datum, so that the router is asked twice at the same time.
\<close>

theorem snmp_mark_expires_duplicate:
  assumes "(router, iface, key) \<in> set (outstanding s)" "key \<in> set oidExts" "mset ord = mset oidExts"
    and "\<forall>k\<in>set oidExts - {key}. answered k (snmpCache s (cache_key (router, iface, k)))"
  shows "\<exists>r s'. fetchInterfaceData ord router iface (expire (cache_key (router, iface, key)) s) = Inr (r, s')
    \<and> \<not> distinct (outstanding s')"
proof -
  obtain r where "fetchInterfaceData ord router iface (expire (cache_key (router, iface, key)) s) =
    Inr (r, s\<lparr>snmpCache := (snmpCache s)(cache_key (router, iface, key) \<mapsto> None),
      sn_waiting := sn_waiting s @ [(router, iface, key)]\<rparr>)"
    using snmp_expired_lemma [OF assms(2-4)] by blast
  moreover have "\<not> distinct (outstanding (s\<lparr>snmpCache := (snmpCache s)(cache_key (router, iface, key) \<mapsto> None),
      sn_waiting := sn_waiting s @ [(router, iface, key)]\<rparr>))"
    using assms(1) by (auto simp: outstanding_def)
  ultimately show ?thesis by blast
qed

theorem snmp_mark_expires_duplicate_witness:
  "\<exists>r s'. fetchInterfaceData oidExts ''10.0.0.1'' 7 (expire (cache_key (''10.0.0.1'', 7, ''desc''))
      (demo_snmp\<lparr>sn_running := [(''10.0.0.1'', 7, ''desc'')]\<rparr>)) = Inr (r, s') \<and> \<not> distinct (outstanding s')"
proof -
  have k: "cache_key (r', i, k) = cache_key (r', i, k') \<longleftrightarrow> k = k'" for r' i k k' by (simp add: cache_key_def)
  let ?s = "demo_snmp\<lparr>sn_running := [(''10.0.0.1'', 7, ''desc'')]\<rparr>"
  have pre: "\<forall>k\<in>set oidExts - {''desc''}. answered k (snmpCache ?s (cache_key (''10.0.0.1'', 7, k)))"
    by (simp add: oidExts_def demo_snmp_def k) (auto simp: answered_def)
  show ?thesis
    by (rule snmp_mark_expires_duplicate [OF _ _ _ pre]) (simp_all add: oidExts_def outstanding_def)
qed

end
