(* ===== verification/Filters.thy ===== *)
theory Filters
  imports FlowMessage GoFloat Segments
begin

text \<open>
  The small segments: \<open>drop\<close> and \<open>pass\<close>, the percentile filter \<open>elephant\<close>
  (\<open>segments/filter/elephant\<close>), and the counting segments \<open>count\<close> and \<open>printdots\<close>
  (\<open>segments/print\<close>) over the text output of \<open>segments/text_output_segment.go\<close>. The sliding window of
  the package \<open>rolling\<close> and the wall clock are parameters.
\<close>

section \<open>drop and pass\<close>

definition Drop_step :: "(bool, 'm) step" where
  "Drop_step subscribed m = Inr (send_drop subscribed m, subscribed)"

definition Pass_step :: "(unit, 'm) step" where
  "Pass_step = edit_step (\<lambda>_ m. m)"

interpretation drop: filter_segment Drop_step "\<lambda>b. b" "\<lambda>_. True"
  by unfold_locales (auto simp: Drop_step_def)

interpretation pass: filter_segment Pass_step "\<lambda>_. b" "\<lambda>_. True" for b
  by unfold_locales (auto simp: Pass_step_def edit_step_def)

section \<open>elephant\<close>

text \<open>
  The settings. \<open>strconv.ParseFloat\<close> is the parameter \<open>parse_float\<close>; percentiles that are not
  finite numbers are left out.
\<close>

record Elephant =
  el_Aspect :: string
  Percentile :: rat
  Exact :: bool
  el_Window :: int
  RampupTime :: int

definition parse_aspect :: "string \<Rightarrow> string" where
  "parse_aspect v =
     (if v \<noteq> [] \<and> to_lower v \<in> {''bytes'', ''packets'', ''bps'', ''pps''} then to_lower v else ''bytes'')"

text \<open>An integer option with a lower bound; below it the segment is not created.\<close>

definition parse_from :: "int \<Rightarrow> string \<Rightarrow> int \<Rightarrow> int option" where
  "parse_from lower v dflt =
     (if v \<noteq> [] then (case parse_int 64 v of Some n \<Rightarrow> if n < lower then None else Some n | None \<Rightarrow> Some dflt)
      else Some dflt)"

definition Elephant_New :: "(string \<Rightarrow> rat option) \<Rightarrow> config_map \<Rightarrow> Elephant option" where
  "Elephant_New parse_float config =
     (let percentile = (if cfg config ''percentile'' \<noteq> []
                        then (case parse_float (cfg config ''percentile'') of Some p \<Rightarrow> p | None \<Rightarrow> 99)
                        else 99)
      in if percentile = 0 then None
         else case parse_from 1 (cfg config ''window'') 300 of None \<Rightarrow> None | Some w \<Rightarrow>
              (case parse_from 0 (cfg config ''rampuptime'') 0 of None \<Rightarrow> None | Some r \<Rightarrow>
                 Some \<lparr>el_Aspect = parse_aspect (cfg config ''aspect''), Percentile = percentile,
                       Exact = parse_bool_or_false (cfg config ''exact''), el_Window = w, RampupTime = r\<rparr>))"

text \<open>The flow duration in seconds, at least one; an end before the start wraps around.\<close>

definition duration :: "EnrichedFlow \<Rightarrow> u64" where
  "duration m = (let d = TimeFlowEnd m - TimeFlowStart m in if d = 0 then d + 1 else d)"

definition flow_aspect :: "string \<Rightarrow> EnrichedFlow \<Rightarrow> rat" where
  "flow_aspect a m =
     (if a = ''bytes'' then u64_to_f64 (Bytes m)
      else if a = ''bps'' then u64_to_f64 (Bytes m * 8 div duration m)
      else if a = ''pps'' then u64_to_f64 (Packets m div duration m)
      else if a = ''packets'' then u64_to_f64 (Packets m)
      else 0)"

text \<open>
  The variables of \<open>Run\<close>. The clock gives the time in nanoseconds of the \<open>n\<close>-th look at it in the
  loop; \<open>el_seen\<close> counts the flows. \<open>time.Duration\<close> is a signed 64-bit number of nanoseconds.
\<close>

record 'w Elephant_run =
  el_conf :: Elephant
  el_window :: 'w
  inRampup :: bool
  rampupEnd :: int
  el_seen :: nat
  el_Drops :: bool

definition seconds :: "int \<Rightarrow> int" where
  "seconds n = sint (word_of_int (n * 10 ^ 9) :: u64)"

definition Elephant_start :: "'w \<Rightarrow> int \<Rightarrow> bool \<Rightarrow> Elephant \<Rightarrow> 'w Elephant_run" where
  "Elephant_start window now subscribed c =
     \<lparr>el_conf = c, el_window = window, inRampup = (RampupTime c > 0),
      rampupEnd = (if RampupTime c > 0 then now + seconds (RampupTime c) else 0), el_seen = 0, el_Drops = subscribed\<rparr>"

text \<open>\<open>add\<close> is \<open>Append\<close> of the window, \<open>reduce\<close> the reduction by the exact or the fast percentile.\<close>

definition Elephant_step ::
  "(rat \<Rightarrow> 'w \<Rightarrow> 'w) \<Rightarrow> (bool \<Rightarrow> rat \<Rightarrow> 'w \<Rightarrow> rat) \<Rightarrow> (nat \<Rightarrow> int) \<Rightarrow> ('w Elephant_run, EnrichedFlow) step" where
  "Elephant_step add reduce clock s m =
     (let c = el_conf s;
          a = flow_aspect (el_Aspect c) m;
          w = add a (el_window s);
          ramp = (if inRampup s \<and> clock (el_seen s) > rampupEnd s then False else inRampup s);
          s' = s\<lparr>el_window := w, inRampup := ramp, el_seen := Suc (el_seen s)\<rparr>
      in if \<not> ramp \<and> a \<ge> reduce (Exact c) (Percentile c) w then Inr ([Out m], s')
         else Inr (send_drop (el_Drops s) m, s'))"

interpretation elephant: filter_segment "Elephant_step add reduce clock" el_Drops "\<lambda>_. True"
  for add reduce clock
proof
  show "\<exists>s'. Elephant_step add reduce clock s m \<in> {Inr ([Out m], s'), Inr (send_drop (el_Drops s) m, s')}" for s m
    by (auto simp: Elephant_step_def Let_def)
  show "True \<and> el_Drops s' = el_Drops s" if "Elephant_step add reduce clock s m = Inr (es, s')" for s m es s'
    using that by (auto simp: Elephant_step_def Let_def split: if_splits)
qed

text \<open>
  Which flows an elephant filter is meant to pass: the \<open>i\<close>-th flow passes when the ramp-up time is
  over by then and its aspect reaches the percentile of the window with the first flows up to and
  including it.
\<close>

definition elephant_at ::
  "(rat \<Rightarrow> 'w \<Rightarrow> 'w) \<Rightarrow> (bool \<Rightarrow> rat \<Rightarrow> 'w \<Rightarrow> rat) \<Rightarrow> (nat \<Rightarrow> int) \<Rightarrow> 'w Elephant_run \<Rightarrow> EnrichedFlow list \<Rightarrow> nat \<Rightarrow> bool" where
  "elephant_at add reduce clock s ms i \<longleftrightarrow>
     (\<not> inRampup s \<or> (\<exists>j\<in>{0..i}. clock (el_seen s + j) > rampupEnd s)) \<and>
     reduce (Exact (el_conf s)) (Percentile (el_conf s))
       (fold add (map (flow_aspect (el_Aspect (el_conf s))) (take (Suc i) ms)) (el_window s))
     \<le> flow_aspect (el_Aspect (el_conf s)) (ms ! i)"

lemma filter_upt_Suc:
  "map f (filter P [0..<Suc n]) = (if P 0 then [f 0] else []) @ map (\<lambda>i. f (Suc i)) (filter (\<lambda>i. P (Suc i)) [0..<n])"
proof -
  have "[0..<Suc n] = 0 # map Suc [0..<n]" by (simp add: map_Suc_upt upt_conv_Cons del: upt_Suc)
  then show ?thesis by (simp add: filter_map comp_def del: upt_Suc)
qed

lemma ex_upto_Suc: "(\<exists>j\<in>{0..Suc i}. P j) \<longleftrightarrow> P 0 \<or> (\<exists>j\<in>{0..i}. P (Suc j))"
  by (metis atLeastAtMost_iff le0 not0_implies_Suc Suc_le_mono)

lemma Elephant_step_fields:
  assumes "Elephant_step add reduce clock s m = Inr (es, s')"
  shows "el_conf s' = el_conf s" "el_window s' = add (flow_aspect (el_Aspect (el_conf s)) m) (el_window s)"
    "rampupEnd s' = rampupEnd s" "el_seen s' = Suc (el_seen s)"
    "inRampup s' \<longleftrightarrow> inRampup s \<and> \<not> clock (el_seen s) > rampupEnd s"
  using assms by (auto simp: Elephant_step_def Let_def split: if_splits)

lemma Elephant_run_window:
  "run_loop (Elephant_step add reduce clock) s ms = Inr (es, s') \<Longrightarrow>
     el_window s' = fold add (map (flow_aspect (el_Aspect (el_conf s))) ms) (el_window s)"
proof (induction ms arbitrary: s es)
  case (Cons m ms)
  then obtain e1 s1 e2 where 1: "Elephant_step add reduce clock s m = Inr (e1, s1)"
    and 2: "run_loop (Elephant_step add reduce clock) s1 ms = Inr (e2, s')"
    by (auto split: sum.splits prod.splits)
  show ?case using Cons.IH [OF 2] by (simp add: Elephant_step_fields [OF 1])
qed simp

lemma Elephant_run_outs:
  assumes "run_loop (Elephant_step add reduce clock) s ms = Inr (es, s')"
  shows "outs es = map ((!) ms) (filter (elephant_at add reduce clock s ms) [0..<length ms])"
  using assms
proof (induction ms arbitrary: s es)
  case (Cons m ms)
  obtain e1 s1 where 1: "Elephant_step add reduce clock s m = Inr (e1, s1)"
    using elephant.step_cases [where s = s and m = m and add = add and reduce = reduce and clock = clock] by auto
  then obtain e2 where 2: "run_loop (Elephant_step add reduce clock) s1 ms = Inr (e2, s')" "es = e1 @ e2"
    using Cons.prems by (auto split: sum.splits prod.splits)
  note f = Elephant_step_fields [OF 1]
  have "outs e1 = (if elephant_at add reduce clock s (m # ms) 0 then [m] else [])"
    using 1 by (auto simp: Elephant_step_def Let_def elephant_at_def split: if_splits)
  moreover have "elephant_at add reduce clock s (m # ms) (Suc i) \<longleftrightarrow> elephant_at add reduce clock s1 ms i" for i
    by (auto simp: elephant_at_def f ex_upto_Suc)
  moreover have "outs e2 = map ((!) ms) (filter (elephant_at add reduce clock s1 ms) [0..<length ms])"
    using Cons.IH [OF 2(1)] .
  ultimately show ?case using 2(2) by (simp add: filter_upt_Suc del: upt_Suc)
qed simp

text \<open>
  C27. The elephant filter passes, in order, exactly the flows that come after the ramp-up time and
  reach the percentile of the window that includes them; it offers every other flow to the drop
  channel. During the ramp-up all flows are dropped but still enter the window.
\<close>

theorem elephant_selects:
  "\<exists>es s'. run_loop (Elephant_step add reduce clock) (Elephant_start w now sub c) ms = Inr (es, s')
    \<and> outs es = map ((!) ms) (filter (elephant_at add reduce clock (Elephant_start w now sub c) ms) [0..<length ms])
    \<and> mset (drops es) = (if sub then mset ms - mset (outs es) else {#})
    \<and> el_window s' = fold add (map (flow_aspect (el_Aspect c)) ms) w"
proof -
  let ?s = "Elephant_start w now sub c"
  obtain es s' where run: "run_loop (Elephant_step add reduce clock) ?s ms = Inr (es, s')"
    using elephant.run_total [where s = ?s and ms = ms and add = add and reduce = reduce and clock = clock] by auto
  have "el_window s' = fold add (map (flow_aspect (el_Aspect c)) ms) w"
    using Elephant_run_window [OF run] by (simp add: Elephant_start_def)
  moreover have "mset (drops es) = (if sub then mset ms - mset (outs es) else {#})"
    using elephant.run_conserves [OF _ _ run] elephant.run_silent [OF _ _ run]
    by (cases sub) (simp_all add: Elephant_start_def, metis add_diff_cancel_left')
  ultimately show ?thesis using run Elephant_run_outs [OF run] by blast
qed

section \<open>count and printdots\<close>

text \<open>
  \<open>GetOutput\<close>: \<open>create\<close> says whether a file can be created. The output is the standard output or a
  file, together with the text written to it.
\<close>

datatype out_file = Stdout | File string

definition GetOutput :: "(string \<Rightarrow> bool) \<Rightarrow> config_map \<Rightarrow> out_file option" where
  "GetOutput create config =
     (if cfg config ''filename'' \<noteq> []
      then if create (cfg config ''filename'') then Some (File (cfg config ''filename'')) else None
      else Some Stdout)"

record Count =
  ct_count :: u64
  Prefix :: string
  ct_File :: out_file
  ct_text :: string

definition Count_New :: "(string \<Rightarrow> bool) \<Rightarrow> config_map \<Rightarrow> Count option" where
  "Count_New create config =
     map_option (\<lambda>f. \<lparr>ct_count = 0, Prefix = cfg config ''prefix'', ct_File = f, ct_text = []\<rparr>) (GetOutput create config)"

definition Count_step :: "(Count, 'm) step" where
  "Count_step s m = Inr ([Out m], s\<lparr>ct_count := ct_count s + 1\<rparr>)"

text \<open>What \<open>Run\<close> writes after its loop, before the file is closed.\<close>

definition Count_finish :: "Count \<Rightarrow> Count" where
  "Count_finish s = s\<lparr>ct_text := ct_text s @ Prefix s @ dec (unat (ct_count s))\<rparr>"

record PrintDots =
  FlowsPerDot :: u64
  pd_File :: out_file
  pd_count :: u64
  pd_text :: string

definition PrintDots_New :: "(string \<Rightarrow> bool) \<Rightarrow> config_map \<Rightarrow> PrintDots option" where
  "PrintDots_New create config =
     map_option (\<lambda>f. \<lparr>FlowsPerDot = (case parse_uint 32 (cfg config ''flowsperdot'') of Some n \<Rightarrow> of_nat n | None \<Rightarrow> 5000),
         pd_File = f, pd_count = 0, pd_text = []\<rparr>)
       (GetOutput create config)"

definition PrintDots_step :: "(PrintDots, 'm) step" where
  "PrintDots_step s m =
     (let c = pd_count s + 1 in
      Inr ([Out m], if c \<ge> FlowsPerDot s then s\<lparr>pd_count := 0, pd_text := pd_text s @ ''.''\<rparr> else s\<lparr>pd_count := c\<rparr>))"

interpretation count: modify_segment Count_step "\<lambda>_ _. True" "\<lambda>_. True"
  by unfold_locales (simp_all add: Count_step_def)

interpretation printdots: modify_segment PrintDots_step "\<lambda>_ _. True" "\<lambda>_. True"
  by unfold_locales (simp_all add: PrintDots_step_def Let_def)

lemma Count_run: "run_loop Count_step s ms = Inr (map Out ms, s\<lparr>ct_count := ct_count s + of_nat (length ms)\<rparr>)"
  by (induction ms arbitrary: s) (simp_all add: Count_step_def algebra_simps)

text \<open>
  \<open>count\<close> passes every flow and finally writes its prefix and the exact number of flows, up to
  \<open>2^64 - 1\<close> of them.
\<close>

theorem count_exact:
  assumes "Count_New create config = Some s" "length ms < 2 ^ 64"
  shows "\<exists>s'. run_loop Count_step s ms = Inr (map Out ms, s')
    \<and> ct_text (Count_finish s') = cfg config ''prefix'' @ dec (length ms)"
  using assms by (auto simp: Count_run Count_New_def Count_finish_def unat_of_nat)

theorem count_exact_witness:
  "\<exists>s s'. Count_New (\<lambda>_. True) [''prefix'' \<mapsto> ''flows: ''] = Some s
     \<and> run_loop Count_step s [zero_flow, zero_flow] = Inr ([Out zero_flow, Out zero_flow], s')
     \<and> ct_text (Count_finish s') = ''flows: 2''"
proof -
  have n: "Count_New (\<lambda>_. True) [''prefix'' \<mapsto> ''flows: ''] = Some \<lparr>ct_count = 0, Prefix = ''flows: '', ct_File = Stdout, ct_text = []\<rparr>"
    by (simp add: Count_New_def GetOutput_def)
  have d: "dec 2 = ''2''" by code_simp
  have l: "length [zero_flow, zero_flow] = 2" by simp
  show ?thesis using count_exact [OF n, of "[zero_flow, zero_flow]"] n unfolding l d by auto
qed

text \<open>The counter after \<open>n\<close> more flows, as long as it stays below the limit.\<close>

lemma PrintDots_run:
  assumes "0 < unat (FlowsPerDot s)" "unat (pd_count s) < unat (FlowsPerDot s)"
  shows "\<exists>s'. run_loop PrintDots_step s ms = Inr (map Out ms, s') \<and> FlowsPerDot s' = FlowsPerDot s
    \<and> pd_text s' = pd_text s @ replicate ((unat (pd_count s) + length ms) div unat (FlowsPerDot s)) CHR ''.''
    \<and> unat (pd_count s') = (unat (pd_count s) + length ms) mod unat (FlowsPerDot s)"
  using assms
proof (induction ms arbitrary: s)
  case (Cons m ms)
  let ?k = "unat (FlowsPerDot s)" and ?c = "unat (pd_count s)"
  have unat_lt: "unat (FlowsPerDot s) < 2 ^ 64" using unsigned_less [of "FlowsPerDot s"] by simp
  have inc: "unat (pd_count s + 1) = ?c + 1"
    using Cons.prems(2) unat_lt by (subst unat_add_lem [THEN iffD1]) simp_all
  show ?case
  proof (cases "?c + 1 \<ge> ?k")
    case True
    then have k: "?c + 1 = ?k" using Cons.prems(2) by simp
    let ?s = "s\<lparr>pd_count := 0, pd_text := pd_text s @ ''.''\<rparr>"
    have st: "PrintDots_step s m = Inr ([Out m], ?s)"
      using True inc by (simp add: PrintDots_step_def Let_def word_le_nat_alt)
    have d: "?c + length (m # ms) = length ms + ?k" using k by simp
    show ?thesis
      using Cons.IH [of ?s] Cons.prems(1) st unfolding d by (auto simp: replicate_app_Cons_same)
  next
    case False
    let ?s = "s\<lparr>pd_count := pd_count s + 1\<rparr>"
    have st: "PrintDots_step s m = Inr ([Out m], ?s)"
      using False inc by (simp add: PrintDots_step_def Let_def word_le_nat_alt)
    show ?thesis
      using Cons.IH [of ?s] Cons.prems(1) False st inc by auto
  qed
qed (simp add: div_less mod_less)

text \<open>
  \<open>printdots\<close> passes every flow and prints exactly one dot per \<open>flowsperdot\<close> flows, for every
  positive setting and any number of flows.
\<close>

theorem printdots_exact:
  assumes "PrintDots_New create config = Some s" "0 < unat (FlowsPerDot s)"
  shows "\<exists>s'. run_loop PrintDots_step s ms = Inr (map Out ms, s')
    \<and> pd_text s' = replicate (length ms div unat (FlowsPerDot s)) CHR ''.''"
proof -
  have "pd_count s = 0" "pd_text s = []" using assms(1) by (auto simp: PrintDots_New_def)
  then show ?thesis using PrintDots_run [OF assms(2), of ms] assms(2) by auto
qed

theorem printdots_exact_witness:
  "\<exists>s s'. PrintDots_New (\<lambda>_. True) [''flowsperdot'' \<mapsto> ''2''] = Some s
     \<and> run_loop PrintDots_step s (replicate 5 zero_flow) = Inr (map Out (replicate 5 zero_flow), s') \<and> pd_text s' = ''..''"
proof -
  have "dec 2 = ''2''" by code_simp
  then have "parse_uint 32 ''2'' = Some 2" using parse_uint_dec [of 2 32] by simp
  then have n: "PrintDots_New (\<lambda>_. True) [''flowsperdot'' \<mapsto> ''2''] =
      Some \<lparr>FlowsPerDot = 2, pd_File = Stdout, pd_count = 0, pd_text = []\<rparr>"
    by (simp add: PrintDots_New_def GetOutput_def)
  have r: "replicate 2 CHR ''.'' = ''..''" by (simp add: numeral_2_eq_2)
  show ?thesis using printdots_exact [OF n, of "replicate 5 zero_flow"] n by (auto simp: r)
qed

end
