(* ===== verification/Reflection.thy ===== *)
theory Reflection
  imports FlowMessage
begin

text \<open>
  Flows seen through package \<open>reflect\<close>: the output segments \<open>csv\<close>, \<open>sqlite\<close>, \<open>mongodb\<close>,
  \<open>prometheus\<close> and \<open>influx\<close> and the input \<open>replay\<close> select fields of \<open>EnrichedFlow\<close>
  (\<open>pb/enrichedflow.pb.go\<close>) by name, dispatch on their types and print them with \<open>fmt.Sprint\<close>.
  The theory has the values of fields, the table of the exported fields in the order of the struct,
  and the printing and parsing of values.
\<close>

section \<open>Values of fields\<close>

datatype enum_type = FlowTypeEnum | LayerStackEnum | AnonymizedTypeEnum | ValidationStatusTypeEnum
  | NormalizedTypeEnum | RemoteAddrTypeEnum

datatype goval = GUint32 u32 | GUint64 u64 | GBool bool | GString string | GBytes byte_slice
  | GUint32s "u32 list" | GByteSlices "byte_slice list" | GEnum enum_type i32 | GEnums enum_type "i32 list"

text \<open>
  The names of the enumerators, from the generated maps \<open>EnrichedFlow_*_name\<close>; the maps
  \<open>EnrichedFlow_*_value\<close> are their inverses, see \<open>enum_value\<close> below.
\<close>

definition FlowType_name :: "(i32 \<times> string) list" where
  [simp]: "FlowType_name = [(0, ''FLOWUNKNOWN''), (1, ''SFLOW_5''), (2, ''NETFLOW_V5''), (3, ''NETFLOW_V9''), (4, ''IPFIX''), (5, ''EBPF'')]"

definition LayerStack_name :: "(i32 \<times> string) list" where
  [simp]: "LayerStack_name = [(0, ''Ethernet''), (1, ''IPv4''), (2, ''IPv6''), (3, ''TCP''), (4, ''UDP''), (5, ''MPLS''), (6, ''Dot1Q''), (7, ''ICMP''), (8, ''ICMPv6''), (9, ''GRE''), (10, ''IPv6HeaderRouting''), (11, ''IPv6HeaderFragment''), (12, ''Geneve''), (13, ''Teredo''), (99, ''Custom'')]"

definition AnonymizedType_name :: "(i32 \<times> string) list" where
  [simp]: "AnonymizedType_name = [(0, ''NotAnonymized''), (1, ''CryptoPAN''), (2, ''Subnet''), (3, ''SubnetAndCryptoPAN'')]"

definition ValidationStatusType_name :: "(i32 \<times> string) list" where
  [simp]: "ValidationStatusType_name = [(0, ''Unknown''), (1, ''Valid''), (2, ''NotFound''), (3, ''Invalid'')]"

definition NormalizedType_name :: "(i32 \<times> string) list" where
  [simp]: "NormalizedType_name = [(0, ''No''), (1, ''Yes'')]"

definition RemoteAddrType_name :: "(i32 \<times> string) list" where
  [simp]: "RemoteAddrType_name = [(0, ''Neither''), (1, ''Src''), (2, ''Dst'')]"

fun enum_names :: "enum_type \<Rightarrow> (i32 \<times> string) list" where
  "enum_names FlowTypeEnum = FlowType_name"
| "enum_names LayerStackEnum = LayerStack_name"
| "enum_names AnonymizedTypeEnum = AnonymizedType_name"
| "enum_names ValidationStatusTypeEnum = ValidationStatusType_name"
| "enum_names NormalizedTypeEnum = NormalizedType_name"
| "enum_names RemoteAddrTypeEnum = RemoteAddrType_name"

definition dec_int :: "int \<Rightarrow> string" where
  "dec_int n = (if n < 0 then ''-'' @ dec (nat (- n)) else dec (nat n))"

definition enum_String :: "enum_type \<Rightarrow> i32 \<Rightarrow> string" where
  "enum_String t n = (case map_of (enum_names t) n of Some s \<Rightarrow> s | None \<Rightarrow> dec_int (sint n))"

text \<open>Indexing the generated map \<open>EnrichedFlow_*_value\<close>: 0 for an unknown name.\<close>

definition enum_value :: "enum_type \<Rightarrow> string \<Rightarrow> i32" where
  "enum_value t s = (case map_of (map (\<lambda>(n, k). (k, n)) (enum_names t)) s of Some n \<Rightarrow> n | None \<Rightarrow> 0)"

text \<open>\<open>fmt.Sprint\<close> of a field.\<close>

definition bracketed :: "string list \<Rightarrow> string" where
  "bracketed ws = ''['' @ join_with '' '' ws @ '']''"

definition sprint_bytes :: "byte_slice \<Rightarrow> string" where
  "sprint_bytes b = bracketed (map (\<lambda>x. dec (unat x)) (bytes_of b))"

fun sprint :: "goval \<Rightarrow> string" where
  "sprint (GUint32 n) = dec (unat n)"
| "sprint (GUint64 n) = dec (unat n)"
| "sprint (GBool b) = (if b then ''true'' else ''false'')"
| "sprint (GString s) = s"
| "sprint (GBytes b) = sprint_bytes b"
| "sprint (GUint32s ns) = bracketed (map (\<lambda>n. dec (unat n)) ns)"
| "sprint (GByteSlices bs) = bracketed (map sprint_bytes bs)"
| "sprint (GEnum t n) = enum_String t n"
| "sprint (GEnums t ns) = bracketed (map (enum_String t) ns)"

text \<open>\<open>Type.String()\<close> of a field.\<close>

fun enum_type_name :: "enum_type \<Rightarrow> string" where
  "enum_type_name FlowTypeEnum = ''pb.EnrichedFlow_FlowType''"
| "enum_type_name LayerStackEnum = ''pb.EnrichedFlow_LayerStack''"
| "enum_type_name AnonymizedTypeEnum = ''pb.EnrichedFlow_AnonymizedType''"
| "enum_type_name ValidationStatusTypeEnum = ''pb.EnrichedFlow_ValidationStatusType''"
| "enum_type_name NormalizedTypeEnum = ''pb.EnrichedFlow_NormalizedType''"
| "enum_type_name RemoteAddrTypeEnum = ''pb.EnrichedFlow_RemoteAddrType''"

fun go_type :: "goval \<Rightarrow> string" where
  "go_type (GUint32 _) = ''uint32''"
| "go_type (GUint64 _) = ''uint64''"
| "go_type (GBool _) = ''bool''"
| "go_type (GString _) = ''string''"
| "go_type (GBytes _) = ''[]uint8''"
| "go_type (GUint32s _) = ''[]uint32''"
| "go_type (GByteSlices _) = ''[][]uint8''"
| "go_type (GEnum t _) = enum_type_name t"
| "go_type (GEnums t _) = ''[]'' @ enum_type_name t"

section \<open>The fields of EnrichedFlow\<close>

definition flow_fields :: "(string \<times> (EnrichedFlow \<Rightarrow> goval)) list" where
  "flow_fields = [
     (''Type'', \<lambda>f. GEnum FlowTypeEnum (Type f)),
     (''TimeReceived'', \<lambda>f. GUint64 (TimeReceived f)),
     (''TimeReceivedNs'', \<lambda>f. GUint64 (TimeReceivedNs f)),
     (''SequenceNum'', \<lambda>f. GUint32 (SequenceNum f)),
     (''SamplingRate'', \<lambda>f. GUint64 (SamplingRate f)),
     (''FlowDirection'', \<lambda>f. GUint32 (FlowDirection f)),
     (''TimeFlowStartNs'', \<lambda>f. GUint64 (TimeFlowStartNs f)),
     (''TimeFlowEndNs'', \<lambda>f. GUint64 (TimeFlowEndNs f)),
     (''SamplerAddress'', \<lambda>f. GBytes (SamplerAddress f)),
     (''TimeFlowEnd'', \<lambda>f. GUint64 (TimeFlowEnd f)),
     (''TimeFlowStartMs'', \<lambda>f. GUint64 (TimeFlowStartMs f)),
     (''TimeFlowEndMs'', \<lambda>f. GUint64 (TimeFlowEndMs f)),
     (''Bytes'', \<lambda>f. GUint64 (Bytes f)),
     (''Packets'', \<lambda>f. GUint64 (Packets f)),
     (''SrcAddr'', \<lambda>f. GBytes (SrcAddr f)),
     (''DstAddr'', \<lambda>f. GBytes (DstAddr f)),
     (''Etype'', \<lambda>f. GUint32 (Etype f)),
     (''Proto'', \<lambda>f. GUint32 (Proto f)),
     (''SrcPort'', \<lambda>f. GUint32 (SrcPort f)),
     (''DstPort'', \<lambda>f. GUint32 (DstPort f)),
     (''InIf'', \<lambda>f. GUint32 (InIf f)),
     (''OutIf'', \<lambda>f. GUint32 (OutIf f)),
     (''SrcMac'', \<lambda>f. GUint64 (SrcMac f)),
     (''DstMac'', \<lambda>f. GUint64 (DstMac f)),
     (''SrcVlan'', \<lambda>f. GUint32 (SrcVlan f)),
     (''DstVlan'', \<lambda>f. GUint32 (DstVlan f)),
     (''VlanId'', \<lambda>f. GUint32 (VlanId f)),
     (''IngressVrfId'', \<lambda>f. GUint32 (IngressVrfId f)),
     (''EgressVrfId'', \<lambda>f. GUint32 (EgressVrfId f)),
     (''IpTos'', \<lambda>f. GUint32 (IpTos f)),
     (''ForwardingStatus'', \<lambda>f. GUint32 (ForwardingStatus f)),
     (''IpTtl'', \<lambda>f. GUint32 (IpTtl f)),
     (''IpFlags'', \<lambda>f. GUint32 (IpFlags f)),
     (''TcpFlags'', \<lambda>f. GUint32 (TcpFlags f)),
     (''IcmpType'', \<lambda>f. GUint32 (IcmpType f)),
     (''IcmpCode'', \<lambda>f. GUint32 (IcmpCode f)),
     (''Ipv6FlowLabel'', \<lambda>f. GUint32 (Ipv6FlowLabel f)),
     (''FragmentId'', \<lambda>f. GUint32 (FragmentId f)),
     (''FragmentOffset'', \<lambda>f. GUint32 (FragmentOffset f)),
     (''BiFlowDirection'', \<lambda>f. GUint32 (BiFlowDirection f)),
     (''SrcAs'', \<lambda>f. GUint32 (SrcAs f)),
     (''DstAs'', \<lambda>f. GUint32 (DstAs f)),
     (''NextHop'', \<lambda>f. GBytes (NextHop f)),
     (''NextHopAs'', \<lambda>f. GUint32 (NextHopAs f)),
     (''SrcNet'', \<lambda>f. GUint32 (SrcNet f)),
     (''DstNet'', \<lambda>f. GUint32 (DstNet f)),
     (''BgpNextHop'', \<lambda>f. GBytes (BgpNextHop f)),
     (''BgpCommunities'', \<lambda>f. GUint32s (BgpCommunities f)),
     (''AsPath'', \<lambda>f. GUint32s (AsPath f)),
     (''MplsTtl'', \<lambda>f. GUint32s (MplsTtl f)),
     (''MplsLabel'', \<lambda>f. GUint32s (MplsLabel f)),
     (''MplsIp'', \<lambda>f. GByteSlices (MplsIp f)),
     (''HasMpls'', \<lambda>f. GBool (HasMpls f)),
     (''MplsCount'', \<lambda>f. GUint32 (MplsCount f)),
     (''Mpls_1Ttl'', \<lambda>f. GUint32 (Mpls_1Ttl f)),
     (''Mpls_1Label'', \<lambda>f. GUint32 (Mpls_1Label f)),
     (''Mpls_2Ttl'', \<lambda>f. GUint32 (Mpls_2Ttl f)),
     (''Mpls_2Label'', \<lambda>f. GUint32 (Mpls_2Label f)),
     (''Mpls_3Ttl'', \<lambda>f. GUint32 (Mpls_3Ttl f)),
     (''Mpls_3Label'', \<lambda>f. GUint32 (Mpls_3Label f)),
     (''MplsLastTtl'', \<lambda>f. GUint32 (MplsLastTtl f)),
     (''MplsLastLabel'', \<lambda>f. GUint32 (MplsLastLabel f)),
     (''MplsLabelIp'', \<lambda>f. GBytes (MplsLabelIp f)),
     (''ObservationDomainId'', \<lambda>f. GUint32 (ObservationDomainId f)),
     (''ObservationPointId'', \<lambda>f. GUint32 (ObservationPointId f)),
     (''SrcCountry'', \<lambda>f. GString (SrcCountry f)),
     (''DstCountry'', \<lambda>f. GString (DstCountry f)),
     (''LayerStack'', \<lambda>f. GEnums LayerStackEnum (LayerStack f)),
     (''LayerSize'', \<lambda>f. GUint32s (LayerSize f)),
     (''Ipv6RoutingHeaderAddresses'', \<lambda>f. GByteSlices (Ipv6RoutingHeaderAddresses f)),
     (''Ipv6RoutingHeaderSegLeft'', \<lambda>f. GUint32 (Ipv6RoutingHeaderSegLeft f)),
     (''PacketBytesMin'', \<lambda>f. GUint32 (PacketBytesMin f)),
     (''PacketBytesMax'', \<lambda>f. GUint32 (PacketBytesMax f)),
     (''PacketBytesMean'', \<lambda>f. GUint32 (PacketBytesMean f)),
     (''PacketBytesStdDev'', \<lambda>f. GUint32 (PacketBytesStdDev f)),
     (''PacketIATMin'', \<lambda>f. GUint64 (PacketIATMin f)),
     (''PacketIATMax'', \<lambda>f. GUint64 (PacketIATMax f)),
     (''PacketIATMean'', \<lambda>f. GUint64 (PacketIATMean f)),
     (''PacketIATStdDev'', \<lambda>f. GUint64 (PacketIATStdDev f)),
     (''HeaderBytes'', \<lambda>f. GUint32 (HeaderBytes f)),
     (''FINFlagCount'', \<lambda>f. GUint64 (FINFlagCount f)),
     (''SYNFlagCount'', \<lambda>f. GUint64 (SYNFlagCount f)),
     (''RSTFlagCount'', \<lambda>f. GUint64 (RSTFlagCount f)),
     (''PSHFlagCount'', \<lambda>f. GUint64 (PSHFlagCount f)),
     (''ACKFlagCount'', \<lambda>f. GUint64 (ACKFlagCount f)),
     (''URGFlagCount'', \<lambda>f. GUint64 (URGFlagCount f)),
     (''CWRFlagCount'', \<lambda>f. GUint64 (CWRFlagCount f)),
     (''ECEFlagCount'', \<lambda>f. GUint64 (ECEFlagCount f)),
     (''PayloadPackets'', \<lambda>f. GUint64 (PayloadPackets f)),
     (''TimeActiveMin'', \<lambda>f. GUint64 (TimeActiveMin f)),
     (''TimeActiveMax'', \<lambda>f. GUint64 (TimeActiveMax f)),
     (''TimeActiveMean'', \<lambda>f. GUint64 (TimeActiveMean f)),
     (''TimeActiveStdDev'', \<lambda>f. GUint64 (TimeActiveStdDev f)),
     (''TimeIdleMin'', \<lambda>f. GUint64 (TimeIdleMin f)),
     (''TimeIdleMax'', \<lambda>f. GUint64 (TimeIdleMax f)),
     (''TimeIdleMean'', \<lambda>f. GUint64 (TimeIdleMean f)),
     (''TimeIdleStdDev'', \<lambda>f. GUint64 (TimeIdleStdDev f)),
     (''Cid'', \<lambda>f. GUint32 (Cid f)),
     (''CidString'', \<lambda>f. GString (CidString f)),
     (''SrcCid'', \<lambda>f. GUint32 (SrcCid f)),
     (''DstCid'', \<lambda>f. GUint32 (DstCid f)),
     (''NetId'', \<lambda>f. GUint32 (NetId f)),
     (''NetIdString'', \<lambda>f. GString (NetIdString f)),
     (''SrcId'', \<lambda>f. GUint32 (SrcId f)),
     (''SrcIdString'', \<lambda>f. GString (SrcIdString f)),
     (''DstId'', \<lambda>f. GUint32 (DstId f)),
     (''DstIdString'', \<lambda>f. GString (DstIdString f)),
     (''SrcAddrAnon'', \<lambda>f. GEnum AnonymizedTypeEnum (SrcAddrAnon f)),
     (''DstAddrAnon'', \<lambda>f. GEnum AnonymizedTypeEnum (DstAddrAnon f)),
     (''SrcAddrPreservedLen'', \<lambda>f. GUint32 (SrcAddrPreservedLen f)),
     (''DstAddrPreservedLen'', \<lambda>f. GUint32 (DstAddrPreservedLen f)),
     (''SamplerAddrAnon'', \<lambda>f. GEnum AnonymizedTypeEnum (SamplerAddrAnon f)),
     (''SamplerAddrPreservedPrefixLen'', \<lambda>f. GUint32 (SamplerAddrPreservedPrefixLen f)),
     (''NextHopAnon'', \<lambda>f. GEnum AnonymizedTypeEnum (NextHopAnon f)),
     (''NextHopAnonPreservedPrefixLen'', \<lambda>f. GUint32 (NextHopAnonPreservedPrefixLen f)),
     (''Med'', \<lambda>f. GUint32 (Med f)),
     (''LocalPref'', \<lambda>f. GUint32 (LocalPref f)),
     (''ValidationStatus'', \<lambda>f. GEnum ValidationStatusTypeEnum (ValidationStatus f)),
     (''RemoteCountry'', \<lambda>f. GString (RemoteCountry f)),
     (''SrcCountryBW'', \<lambda>f. GString (SrcCountryBW f)),
     (''DstCountryBW'', \<lambda>f. GString (DstCountryBW f)),
     (''Normalized'', \<lambda>f. GEnum NormalizedTypeEnum (Normalized f)),
     (''ProtoName'', \<lambda>f. GString (ProtoName f)),
     (''RemoteAddr'', \<lambda>f. GEnum RemoteAddrTypeEnum (RemoteAddr f)),
     (''SrcHostName'', \<lambda>f. GString (SrcHostName f)),
     (''DstHostName'', \<lambda>f. GString (DstHostName f)),
     (''NextHopHostName'', \<lambda>f. GString (NextHopHostName f)),
     (''SrcASName'', \<lambda>f. GString (SrcASName f)),
     (''DstASName'', \<lambda>f. GString (DstASName f)),
     (''NextHopASName'', \<lambda>f. GString (NextHopASName f)),
     (''SamplerHostName'', \<lambda>f. GString (SamplerHostName f)),
     (''SrcIfName'', \<lambda>f. GString (SrcIfName f)),
     (''SrcIfDesc'', \<lambda>f. GString (SrcIfDesc f)),
     (''SrcIfSpeed'', \<lambda>f. GUint32 (SrcIfSpeed f)),
     (''DstIfName'', \<lambda>f. GString (DstIfName f)),
     (''DstIfDesc'', \<lambda>f. GString (DstIfDesc f)),
     (''DstIfSpeed'', \<lambda>f. GUint32 (DstIfSpeed f)),
     (''Note'', \<lambda>f. GString (Note f)),
     (''SourceIP'', \<lambda>f. GString (SourceIP f)),
     (''DestinationIP'', \<lambda>f. GString (DestinationIP f)),
     (''NextHopIP'', \<lambda>f. GString (NextHopIP f)),
     (''SamplerIP'', \<lambda>f. GString (SamplerIP f)),
     (''SourceMAC'', \<lambda>f. GString (SourceMAC f)),
     (''DestinationMAC'', \<lambda>f. GString (DestinationMAC f)),
     (''IngressVrfIDBW'', \<lambda>f. GUint32 (IngressVrfIDBW f)),
     (''EgressVrfIDBW'', \<lambda>f. GUint32 (EgressVrfIDBW f)),
     (''TimeFlowStart'', \<lambda>f. GUint64 (TimeFlowStart f)),
     (''SrcAsPath'', \<lambda>f. GUint32s (SrcAsPath f)),
     (''DstAsPath'', \<lambda>f. GUint32s (DstAsPath f))]"

definition field_names :: "string list" where
  "field_names = map fst flow_fields"

text \<open>
  \<open>reflect.TypeOf(pb.EnrichedFlow{}).FieldByName\<close> together with the test \<open>IsExported\<close>, and
  \<open>reflect.ValueOf(msg).Elem().FieldByName\<close>: indexing the zero value of an unknown name panics.
\<close>

definition field_exists :: "string \<Rightarrow> bool" where
  "field_exists n \<longleftrightarrow> map_of flow_fields n \<noteq> None"

definition FieldByName :: "EnrichedFlow \<Rightarrow> string \<Rightarrow> goval option" where
  "FieldByName f n = map_option (\<lambda>get. get f) (map_of flow_fields n)"

text \<open>Looking up a field that is known; the table is unfolded before it is searched.\<close>

lemmas field_lookup = field_exists_def FieldByName_def flow_fields_def map_of.simps fst_conv snd_conv fun_upd_apply

lemma known_fields:
  "FieldByName f ''Bytes'' = Some (GUint64 (Bytes f))" "FieldByName f ''Note'' = Some (GString (Note f))"
  "FieldByName f ''Proto'' = Some (GUint32 (Proto f))"
  "field_exists ''Bytes''" "field_exists ''Packets''" "field_exists ''Note''" "field_exists ''Proto''" "field_exists ''Etype''"
  unfolding field_lookup by simp_all

lemma field_names_nonempty: "field_names \<noteq> []"
  unfolding field_names_def flow_fields_def by simp

text \<open>The type of a field does not depend on the flow.\<close>

definition field_type :: "string \<Rightarrow> string" where
  "field_type n = (case FieldByName zero_flow n of Some v \<Rightarrow> go_type v | None \<Rightarrow> '''')"

lemma field_types_fixed:
  "list_all (\<lambda>(n, get). go_type (get f) = go_type (get zero_flow)) flow_fields"
  by (simp add: flow_fields_def)

lemma distinct_field_names: "distinct field_names"
  by (simp add: field_names_def flow_fields_def)

lemma field_type_value:
  assumes "FieldByName f n = Some v"
  shows "field_type n = go_type v"
proof -
  obtain get where get: "map_of flow_fields n = Some get" and v: "v = get f"
    using assms by (auto simp: FieldByName_def)
  then have "go_type (get f) = go_type (get zero_flow)"
    using field_types_fixed [of f] by (auto simp: list_all_iff dest: map_of_SomeD)
  then show ?thesis by (simp add: field_type_def FieldByName_def get v)
qed

lemma FieldByName_exists: "field_exists n \<Longrightarrow> \<exists>v. FieldByName f n = Some v"
  by (auto simp: field_exists_def FieldByName_def)

text \<open>Named enumerators survive printing and reading.\<close>

definition enum_known :: "enum_type \<Rightarrow> i32 \<Rightarrow> bool" where
  "enum_known t n \<longleftrightarrow> n \<in> fst ` set (enum_names t)"

lemma enum_value_String: "enum_known t n \<Longrightarrow> enum_value t (enum_String t n) = n"
  by (cases t) (auto simp: enum_known_def enum_value_def enum_String_def)

lemma enum_String_known: "enum_known t n \<Longrightarrow> enum_String t n \<in> snd ` set (enum_names t)"
  by (cases t) (auto simp: enum_known_def enum_String_def)

section \<open>Choosing fields\<close>

text \<open>
  The parameter \<open>fields\<close> of the outputs: the exported fields when it is empty, otherwise the names
  separated by commas, each of which must exist. \<open>norm\<close> is \<open>strings.TrimSpace\<close> in \<open>csv\<close> and
  nothing in \<open>sqlite\<close> and \<open>mongodb\<close>.
\<close>

definition choose_fields :: "(string \<Rightarrow> string) \<Rightarrow> string \<Rightarrow> string list option" where
  "choose_fields norm param =
     (if param \<noteq> []
      then let names = map norm (split_on (CHR '','') param)
           in if list_all field_exists names then Some names else None
      else Some field_names)"

lemma field_names_exist: "list_all field_exists field_names"
proof -
  have "n \<in> fst ` set flow_fields \<Longrightarrow> map_of flow_fields n \<noteq> None" for n
    by (simp add: map_of_eq_None_iff)
  then show ?thesis by (auto simp: list_all_iff field_exists_def field_names_def)
qed

lemma choose_fields_exist: "choose_fields norm param = Some ns \<Longrightarrow> list_all field_exists ns"
  by (auto simp: choose_fields_def Let_def field_names_exist split: if_splits)

lemma choose_fields_list:
  assumes "ns \<noteq> []" "list_all field_exists ns" "\<forall>n\<in>set ns. CHR '','' \<notin> set n \<and> norm n = n" "join_with '','' ns \<noteq> []"
  shows "choose_fields norm (join_with '','' ns) = Some ns"
proof -
  have "map norm ns = ns" using assms(3) by (simp add: map_idI)
  then show ?thesis using assms split_join [of ns "CHR '',''"] by (simp add: choose_fields_def)
qed

text \<open>
  The text of a field: addresses as \<open>net.IP\<close> prints them (nothing for an empty slice), strings as
  they are, everything else with \<open>fmt.Sprint\<close>.
\<close>

fun field_text :: "goval \<Rightarrow> string" where
  "field_text (GBytes b) = (let s = ip_String (bytes_of b) in if s = ''<nil>'' then [] else s)"
| "field_text (GString s) = s"
| "field_text v = sprint v"

definition flow_texts :: "string list \<Rightarrow> EnrichedFlow \<Rightarrow> string list" where
  "flow_texts names f = map (\<lambda>n. field_text (the (FieldByName f n))) names"

lemma length_flow_texts [simp]: "length (flow_texts names f) = length names"
  by (simp add: flow_texts_def)

text \<open>Reading the fields one after the other: using the value of an unknown field panics.\<close>

fun flow_record :: "string list \<Rightarrow> EnrichedFlow \<Rightarrow> string list outcome" where
  "flow_record [] f = Inr []"
| "flow_record (n # ns) f =
     (case FieldByName f n of
        None \<Rightarrow> Inl (Panic ''reflect: call of reflect.Value.Interface on zero Value'')
      | Some v \<Rightarrow> (case flow_record ns f of Inl e \<Rightarrow> Inl e | Inr ts \<Rightarrow> Inr (field_text v # ts)))"

lemma flow_record_ok: "list_all field_exists ns \<Longrightarrow> flow_record ns f = Inr (flow_texts ns f)"
proof (induction ns)
  case (Cons n ns)
  then obtain v where "FieldByName f n = Some v" using FieldByName_exists by auto
  with Cons show ?case by (simp add: flow_texts_def)
qed (simp add: flow_texts_def)

end
