(* ===== verification/DiskBuffer.thy ===== *)
theory DiskBuffer
  imports Segments
begin

text \<open>
  The segment \<open>diskbuffer\<close> (\<open>segments/input/diskbuffer/diskbuffer.go\<close>): a bounded queue in memory
  that overflows into files. \<open>Run\<close> starts goroutines that share the queue, the list of files and
  some signal channels; the theory has one program counter per goroutine and one rule per channel
  operation, file operation or look at the shared state, so that every interleaving is a run.

  Parameters are \<open>protojson\<close> (\<open>marshal\<close>, \<open>unmarshal\<close>), \<open>humanize.ParseBytes\<close>,
  \<open>time.ParseDuration\<close> and the state of the directory given to \<open>New\<close>. A file is the list of its
  lines: compression is transparent, the directory is writable (\<open>New\<close> checks it) and creating,
  writing and removing a file succeeds. Sleeps and time-outs are steps that are possible at any
  time. The log of the fill level (\<open>QueueStatus\<close>) has no effect and is left out.
\<close>

section \<open>Configuration\<close>

record DiskBuffer =
  BatchSize :: int
  batch_debug :: bool
  QueueStatusInterval :: int
  FileSize :: u64
  BufferDir :: string
  HighMemoryMark :: int
  LowMemoryMark :: int
  ReadingMemoryMark :: int
  MaxCacheSize :: u64
  Capacity :: int

definition defaultQueueSize :: int where "defaultQueueSize = 65536"
definition defaultBatchSize :: int where "defaultBatchSize = 128"
definition defaultHighMemoryMark :: int where "defaultHighMemoryMark = 70"
definition defaultLowMemoryMark :: int where "defaultLowMemoryMark = 30"
definition defaultReadingMemoryMark :: int where "defaultReadingMemoryMark = 5"

lemmas db_defaults = defaultQueueSize_def defaultBatchSize_def defaultHighMemoryMark_def
  defaultLowMemoryMark_def defaultReadingMemoryMark_def

text \<open>What \<open>os.Stat\<close> and \<open>unix.Access\<close> say about the directory.\<close>

record dir_state =
  dir_found :: bool
  dir_is_dir :: bool
  dir_writable :: bool

text \<open>
  The idiom of the percentages: the default unless the option is set, else the number in the text
  \<open>v\<close>, which must lie between \<open>lo\<close> and \<open>hi\<close>.
\<close>

definition parse_mark :: "bool \<Rightarrow> string \<Rightarrow> int \<Rightarrow> int \<Rightarrow> int \<Rightarrow> int outcome" where
  "parse_mark is_set v dflt lo hi =
     (if is_set
      then (case atoi v of
              None \<Rightarrow> Inl (Fatal ''Diskbuffer: Failed to parse a memory mark config option: '')
            | Some n \<Rightarrow> if n < lo \<or> n > hi then Inl (Fatal ''Diskbuffer: memory mark out of range'') else Inr n)
      else Inr dflt)"

text \<open>An option that is parsed only when it is set, with the default otherwise.\<close>

definition parse_option :: "(string \<Rightarrow> 'a option) \<Rightarrow> string \<Rightarrow> 'a \<Rightarrow> 'a outcome" where
  "parse_option parse v dflt =
     (if v \<noteq> []
      then (case parse v of None \<Rightarrow> Inl (Fatal ''Diskbuffer: Failed to parse config option: '') | Some x \<Rightarrow> Inr x)
      else Inr dflt)"

definition usable_batch :: "int \<Rightarrow> int" where
  "usable_batch n = (if n < 0 then defaultBatchSize else n)"

definition usable_queue :: "int \<Rightarrow> int" where
  "usable_queue n = (if n < 64 then defaultQueueSize else n)"

text \<open>
  \<open>New\<close>. The reading mark is parsed from the text of \<open>highmemorymark\<close>, and the parsed
  \<open>maxcachesize\<close> goes to \<open>FileSize\<close>, which is overwritten next.
\<close>

definition DiskBuffer_New ::
  "(string \<Rightarrow> u64 option) \<Rightarrow> (string \<Rightarrow> int option) \<Rightarrow> u64 \<Rightarrow> u64 \<Rightarrow> (string \<Rightarrow> dir_state) \<Rightarrow> config_map \<Rightarrow> DiskBuffer outcome"
where
  "DiskBuffer_New parse_bytes parse_duration MByte GByte stat config =
     (let dir = cfg config ''bufferdir'' in
      if dir = [] then Inl (Fatal ''Diskbuffer: bufferdir must exist'')
      else if \<not> dir_found (stat dir) then Inl (Fatal (''Diskbuffer: Could not obtain file info for file '' @ dir))
      else if \<not> dir_is_dir (stat dir) then Inl (Fatal (''Diskbuffer: bufferdir '' @ dir @ '' must be a directory''))
      else if \<not> dir_writable (stat dir) then Inl (Fatal ''Diskbuffer: bufferdir must be writeable'')
      else
        or_fail (parse_mark (cfg config ''highmemorymark'' \<noteq> []) (cfg config ''highmemorymark'')
                   defaultHighMemoryMark 10 95) (\<lambda>high.
        or_fail (parse_mark (cfg config ''readingmemorymark'' \<noteq> []) (cfg config ''highmemorymark'')
                   defaultReadingMemoryMark 1 50) (\<lambda>reading.
        or_fail (parse_mark (cfg config ''lowmemorymark'' \<noteq> []) (cfg config ''lowmemorymark'')
                   defaultLowMemoryMark 5 70) (\<lambda>low.
        if low > high then Inl (Fatal ''Diskbuffer: HighMemoryMark must be greater than LowMemoryMark'')
        else if reading > low then Inl (Fatal ''Diskbuffer: LowMemoryMark must be greater than ReadingMemoryMark'')
        else
        or_fail (parse_option parse_bytes (cfg config ''maxcachesize'') 0) (\<lambda>_.
        or_fail (parse_option parse_bytes (cfg config ''filesize'') (50 * MByte)) (\<lambda>fsize.
        or_fail (parse_option atoi (cfg config ''batchsize'') defaultBatchSize) (\<lambda>batch.
        or_fail (parse_option parse_bool (cfg config ''batchdebug'') False) (\<lambda>debug.
        or_fail (parse_option parse_duration (cfg config ''queuestatusinterval'') 0) (\<lambda>interval.
        or_fail (parse_option atoi (cfg config ''queuesize'') defaultQueueSize) (\<lambda>queue.
        or_fail (make_chan (usable_queue queue)) (\<lambda>cap.
          Inr \<lparr>BatchSize = usable_batch batch, batch_debug = debug,
               QueueStatusInterval = interval, FileSize = fsize, BufferDir = dir,
               HighMemoryMark = high, LowMemoryMark = low, ReadingMemoryMark = reading,
               MaxCacheSize = GByte, Capacity = cap\<rparr>)))))))))))"

text \<open>The settings a segment runs with.\<close>

definition settings_ok :: "DiskBuffer \<Rightarrow> bool" where
  "settings_ok c \<longleftrightarrow> 5 \<le> ReadingMemoryMark c \<and> ReadingMemoryMark c \<le> LowMemoryMark c
     \<and> LowMemoryMark c \<le> HighMemoryMark c \<and> HighMemoryMark c \<le> 95
     \<and> 0 \<le> BatchSize c \<and> 64 \<le> Capacity c \<and> Capacity c \<le> max_chan"

lemma parse_mark_range:
  "parse_mark b v dflt lo hi = Inr n \<Longrightarrow> lo \<le> dflt \<Longrightarrow> dflt \<le> hi \<Longrightarrow> lo \<le> n \<and> n \<le> hi"
  by (auto simp: parse_mark_def split: if_splits option.splits)

lemma reading_from_high:
  assumes "reading \<noteq> []" "parse_mark (high \<noteq> []) high defaultHighMemoryMark 10 95 = Inr h"
    and "parse_mark (reading \<noteq> []) high defaultReadingMemoryMark 1 50 = Inr r"
  shows "r = h"
proof -
  have "atoi [] = None" by (simp add: parse_int_def)
  then show ?thesis using assms by (auto simp: parse_mark_def split: if_splits option.splits)
qed

lemma DiskBuffer_New_Inr:
  assumes "DiskBuffer_New pb pd mb gb stat config = Inr c"
  obtains batch queue where
    "parse_mark (cfg config ''highmemorymark'' \<noteq> []) (cfg config ''highmemorymark'') defaultHighMemoryMark 10 95
       = Inr (HighMemoryMark c)"
    "parse_mark (cfg config ''readingmemorymark'' \<noteq> []) (cfg config ''highmemorymark'') defaultReadingMemoryMark 1 50
       = Inr (ReadingMemoryMark c)"
    "parse_mark (cfg config ''lowmemorymark'' \<noteq> []) (cfg config ''lowmemorymark'') defaultLowMemoryMark 5 70
       = Inr (LowMemoryMark c)"
    "LowMemoryMark c \<le> HighMemoryMark c" "ReadingMemoryMark c \<le> LowMemoryMark c"
    "MaxCacheSize c = gb" "BatchSize c = usable_batch batch"
    "make_chan (usable_queue queue) = Inr (Capacity c)"
    "dir_found (stat (BufferDir c)) \<and> dir_is_dir (stat (BufferDir c)) \<and> dir_writable (stat (BufferDir c))"
proof -
  from assms obtain high reading low batch queue cap where
    "parse_mark (cfg config ''highmemorymark'' \<noteq> []) (cfg config ''highmemorymark'') defaultHighMemoryMark 10 95 = Inr high"
    "parse_mark (cfg config ''readingmemorymark'' \<noteq> []) (cfg config ''highmemorymark'') defaultReadingMemoryMark 1 50 = Inr reading"
    "parse_mark (cfg config ''lowmemorymark'' \<noteq> []) (cfg config ''lowmemorymark'') defaultLowMemoryMark 5 70 = Inr low"
    "low \<le> high" "reading \<le> low"
    "make_chan (usable_queue queue) = Inr cap"
    "HighMemoryMark c = high" "ReadingMemoryMark c = reading" "LowMemoryMark c = low" "Capacity c = cap"
    "MaxCacheSize c = gb" "BatchSize c = usable_batch batch"
    "dir_found (stat (BufferDir c)) \<and> dir_is_dir (stat (BufferDir c)) \<and> dir_writable (stat (BufferDir c))"
    unfolding DiskBuffer_New_def Let_def
    by (auto simp: or_fail_Inr not_less simp del: make_chan_Inr split: if_split_asm)
  then show thesis by (intro that [of batch queue]) simp_all
qed

text \<open>
  Every configuration that \<open>New\<close> accepts gives consistent settings: the reading mark is not
  above the low mark, the low mark is not above the high mark, all are percentages, the batch size
  is not negative and the queue has at least 64 places.
\<close>

theorem diskbuffer_settings:
  assumes "DiskBuffer_New parse_bytes parse_duration MByte GByte stat config = Inr c"
  shows "settings_ok c \<and> MaxCacheSize c = GByte"
proof -
  obtain batch queue where
    h: "parse_mark (cfg config ''highmemorymark'' \<noteq> []) (cfg config ''highmemorymark'') defaultHighMemoryMark 10 95
       = Inr (HighMemoryMark c)"
    and r: "parse_mark (cfg config ''readingmemorymark'' \<noteq> []) (cfg config ''highmemorymark'') defaultReadingMemoryMark 1 50
       = Inr (ReadingMemoryMark c)"
    and rest: "LowMemoryMark c \<le> HighMemoryMark c" "ReadingMemoryMark c \<le> LowMemoryMark c"
    "MaxCacheSize c = GByte" "BatchSize c = usable_batch batch"
    "make_chan (usable_queue queue) = Inr (Capacity c)"
    using assms by (rule DiskBuffer_New_Inr)
  have hi: "10 \<le> HighMemoryMark c" "HighMemoryMark c \<le> 95"
    using parse_mark_range [OF h] by (simp_all add: db_defaults)
  moreover have "5 \<le> ReadingMemoryMark c"
  proof (cases "cfg config ''readingmemorymark'' = []")
    case True then show ?thesis using r by (simp add: parse_mark_def db_defaults)
  next
    case False
    then have "ReadingMemoryMark c = HighMemoryMark c" using h r by (rule reading_from_high)
    then show ?thesis using hi by simp
  qed
  ultimately show ?thesis using rest by (auto simp: settings_ok_def db_defaults usable_batch_def usable_queue_def split: if_splits)
qed

text \<open>
  The option \<open>readingmemorymark\<close> is read from the wrong key: setting it without
  \<open>highmemorymark\<close> never gives a segment, and setting both makes the three marks equal.
\<close>

theorem diskbuffer_reading_mark:
  assumes "cfg config ''readingmemorymark'' \<noteq> []"
    and "DiskBuffer_New parse_bytes parse_duration MByte GByte stat config = Inr c"
  shows "cfg config ''highmemorymark'' \<noteq> [] \<and> ReadingMemoryMark c = HighMemoryMark c
         \<and> LowMemoryMark c = HighMemoryMark c"
proof -
  obtain batch queue where
    h: "parse_mark (cfg config ''highmemorymark'' \<noteq> []) (cfg config ''highmemorymark'') defaultHighMemoryMark 10 95
       = Inr (HighMemoryMark c)"
    and r: "parse_mark (cfg config ''readingmemorymark'' \<noteq> []) (cfg config ''highmemorymark'') defaultReadingMemoryMark 1 50
       = Inr (ReadingMemoryMark c)"
    and le: "LowMemoryMark c \<le> HighMemoryMark c" "ReadingMemoryMark c \<le> LowMemoryMark c"
    using assms(2) by (rule DiskBuffer_New_Inr)
  have "atoi [] = None" by (simp add: parse_int_def)
  then have "cfg config ''highmemorymark'' \<noteq> []"
    using r assms(1) by (auto simp: parse_mark_def split: if_splits option.splits)
  moreover have "ReadingMemoryMark c = HighMemoryMark c" using assms(1) h r by (rule reading_from_high)
  ultimately show ?thesis using le by simp
qed

definition all_dirs :: "string \<Rightarrow> dir_state" where
  "all_dirs _ = \<lparr>dir_found = True, dir_is_dir = True, dir_writable = True\<rparr>"

theorem diskbuffer_settings_witness:
  "\<exists>c. DiskBuffer_New (\<lambda>_. Some 0) (\<lambda>_. Some 0) 1000000 1000000000 all_dirs [''bufferdir'' \<mapsto> ''d'', ''queuesize'' \<mapsto> ''128'']
       = Inr c \<and> settings_ok c \<and> MaxCacheSize c = 1000000000"
proof -
  have "atoi ''128'' = Some 128" by (simp add: parse_int_def digit_val_def)
  then have "\<exists>c. DiskBuffer_New (\<lambda>_. Some 0) (\<lambda>_. Some 0) 1000000 1000000000 all_dirs
      [''bufferdir'' \<mapsto> ''d'', ''queuesize'' \<mapsto> ''128''] = Inr c"
    by (simp add: DiskBuffer_New_def all_dirs_def parse_mark_def parse_option_def db_defaults make_chan_def max_chan_def
      usable_queue_def)
  then show ?thesis using diskbuffer_settings by blast
qed

theorem diskbuffer_reading_mark_witness:
  "\<exists>c. DiskBuffer_New (\<lambda>_. Some 0) (\<lambda>_. Some 0) 1000000 1000000000 all_dirs
     [''bufferdir'' \<mapsto> ''d'', ''readingmemorymark'' \<mapsto> ''5'', ''highmemorymark'' \<mapsto> ''30''] = Inr c
     \<and> ReadingMemoryMark c = 30 \<and> LowMemoryMark c = 30"
proof -
  let ?cfg = "[''bufferdir'' \<mapsto> ''d'', ''readingmemorymark'' \<mapsto> ''5'', ''highmemorymark'' \<mapsto> ''30'']"
  have a: "atoi ''30'' = Some 30" by (simp add: parse_int_def digit_val_def)
  have "\<exists>c. DiskBuffer_New (\<lambda>_. Some 0) (\<lambda>_. Some 0) 1000000 1000000000 all_dirs ?cfg = Inr c \<and> HighMemoryMark c = 30"
    by (simp add: a DiskBuffer_New_def all_dirs_def parse_mark_def parse_option_def db_defaults make_chan_def max_chan_def
      usable_queue_def)
  then obtain c where c: "DiskBuffer_New (\<lambda>_. Some 0) (\<lambda>_. Some 0) 1000000 1000000000 all_dirs ?cfg = Inr c"
    "HighMemoryMark c = 30" by blast
  then show ?thesis using diskbuffer_reading_mark [OF _ c(1)] by auto
qed

section \<open>The goroutines of Run\<close>

text \<open>
  The program counters: the goroutine that reads the input, the one that writes to the next
  segment, \<open>WatchCacheFiles\<close>, the decider, \<open>WriteToDisk\<close>, the two goroutines of \<open>ReadFromDisk\<close>
  (the one that ranges over \<open>fromReader\<close> and the one that scans the files).
\<close>

datatype 'm feeder = FRecv | FSend 'm | FCloseWatcher | FCloseNext | FCloseDecider | FDone

datatype 'm forwarder = NTop | NRecv | NSend 'm | NDone

datatype watcher = WGlob | WStat "string list" | WSelect | WDone

datatype decider = DTop | DRead nat | DReading nat | DWrite nat | DWriting | DFinal | DDone

datatype writer = WrOff | WrCreate | WrTop string | WrBatch string nat

datatype 'm reader = RmOff | RmRecv | RmLine string | RmOffer 'm | RmPush 'm | RmEmerg string

datatype scanning = RiOff | RiStart | RiOpen "string list" | RiScan string "string list" "string list"
  | RiCheck "string list" | RiDone

text \<open>
  The shared state: the flows the previous segment still sends before it closes the channel, the
  queue, the files by name, what \<open>Run\<close> shares with the watcher, what the next segment received, the
  counter of \<open>ReadWriteWG\<close>, the closed signal channels and which watchdogs run. The channels of a
  reading or writing phase are made anew for each phase.
\<close>

record 'm db =
  d_in :: "'m list"
  MemoryBuffer :: "'m list"
  d_files :: "(string \<times> string list) list"
  CacheFiles :: "string list"
  d_out :: "'m list"
  d_feed :: "'m feeder"
  d_next :: "'m forwarder"
  d_watch :: watcher
  d_dec :: decider
  d_writer :: writer
  d_main :: "'m reader"
  d_scan :: scanning
  write_low_on :: bool
  read_low_on :: bool
  read_high_on :: bool
  ReadWriteWG :: nat
  StopCacheFileWatcher :: bool
  StopWritingNextSegment :: bool
  StopDecider :: bool
  StopWritingToDisk :: bool
  StopReadingFromDisk :: bool
  EmergencyStop :: bool
  StopWatchdogs :: bool
  d_crash :: "failure option"

definition db_start :: "(string \<times> string list) list \<Rightarrow> 'm list \<Rightarrow> 'm db" where
  "db_start fs ms =
     \<lparr>d_in = ms, MemoryBuffer = [], d_files = fs, CacheFiles = [], d_out = [], d_feed = FRecv, d_next = NTop,
      d_watch = WGlob, d_dec = DTop, d_writer = WrOff, d_main = RmOff, d_scan = RiOff,
      write_low_on = False, read_low_on = False, read_high_on = False, ReadWriteWG = 0,
      StopCacheFileWatcher = False, StopWritingNextSegment = False, StopDecider = False,
      StopWritingToDisk = False, StopReadingFromDisk = False, EmergencyStop = False, StopWatchdogs = False,
      d_crash = None\<rparr>"

section \<open>Files\<close>

definition file_names :: "(string \<times> string list) list \<Rightarrow> string list" where
  "file_names fs = map fst fs"

definition append_lines :: "string \<Rightarrow> string list \<Rightarrow> (string \<times> string list) list \<Rightarrow> (string \<times> string list) list" where
  "append_lines n ls fs = map (\<lambda>(k, xs). (k, if k = n then xs @ ls else xs)) fs"

definition other_files :: "string \<Rightarrow> (string \<times> string list) list \<Rightarrow> (string \<times> string list) list" where
  "other_files n fs = filter (\<lambda>(k, _). k \<noteq> n) fs"

text \<open>\<open>fmt.Fprintln(writer, text)\<close>: the lines it adds to a file.\<close>

definition println_lines :: "string \<Rightarrow> string list" where
  "println_lines text = split_on (CHR 0x0A) text"

text \<open>\<open>fmt.Fprintln\<close> of a byte slice prints its numbers: \<open>[123 34 125]\<close>.\<close>

definition print_bytes :: "string \<Rightarrow> string" where
  "print_bytes bs = ''['' @ join_with '' '' (map (\<lambda>b. dec (of_char b)) bs) @ '']''"

text \<open>\<open>bufio.Scanner\<close> gives up on longer lines.\<close>

definition max_token :: nat where "max_token = 65536"

text \<open>The names the scanning goroutine still works on.\<close>

fun scan_names :: "scanning \<Rightarrow> string list" where
  "scan_names (RiOpen ns) = ns"
| "scan_names (RiScan n _ ns) = n # ns"
| "scan_names (RiCheck ns) = ns"
| "scan_names _ = []"

text \<open>A name from \<open>uuid.NewString\<close> is not in use.\<close>

definition fresh_name :: "string \<Rightarrow> 'm db \<Rightarrow> bool" where
  "fresh_name n s \<longleftrightarrow> n \<notin> set (file_names (d_files s)) \<and> n \<notin> set (CacheFiles s) \<and> n \<notin> set (scan_names (d_scan s))"

text \<open>The length of the queue compared with a percentage of its capacity.\<close>

definition mark :: "int \<Rightarrow> DiskBuffer \<Rightarrow> int" where
  "mark percent c = percent * Capacity c div 100"

definition fill :: "'m db \<Rightarrow> int" where
  "fill s = int (length (MemoryBuffer s))"

text \<open>The deferred calls of \<open>WriteToDisk\<close> and \<open>ReadFromDisk\<close>.\<close>

definition writer_returns :: "'m db \<Rightarrow> 'm db" where
  "writer_returns s = s\<lparr>d_writer := WrOff, ReadWriteWG := ReadWriteWG s - 1, StopWatchdogs := True\<rparr>"

definition reader_returns :: "'m db \<Rightarrow> 'm db" where
  "reader_returns s = s\<lparr>d_main := RmOff, d_scan := RiOff, ReadWriteWG := ReadWriteWG s - 1, StopWatchdogs := True\<rparr>"

text \<open>Writing a flow: one that \<open>protojson\<close> cannot encode is skipped.\<close>

definition write_flow :: "('m \<Rightarrow> string option) \<Rightarrow> string \<Rightarrow> 'm \<Rightarrow> (string \<times> string list) list \<Rightarrow> (string \<times> string list) list" where
  "write_flow marshal n m fs = (case marshal m of None \<Rightarrow> fs | Some l \<Rightarrow> append_lines n (println_lines l) fs)"

section \<open>The steps of each goroutine\<close>

text \<open>\<open>for msg := range segment.In\<close>, and the closing of the signal channels after it.\<close>

inductive Run_feed :: "DiskBuffer \<Rightarrow> 'm db \<Rightarrow> 'm db \<Rightarrow> bool" for c where
  feed_recv: "d_feed s = FRecv \<Longrightarrow> d_in s = m # ms \<Longrightarrow> Run_feed c s (s\<lparr>d_in := ms, d_feed := FSend m\<rparr>)"
| feed_send: "d_feed s = FSend m \<Longrightarrow> fill s < Capacity c \<Longrightarrow>
    Run_feed c s (s\<lparr>MemoryBuffer := MemoryBuffer s @ [m], d_feed := FRecv\<rparr>)"
| feed_closed: "d_feed s = FRecv \<Longrightarrow> d_in s = [] \<Longrightarrow> Run_feed c s (s\<lparr>d_feed := FCloseWatcher\<rparr>)"
| feed_close_watcher: "d_feed s = FCloseWatcher \<Longrightarrow>
    Run_feed c s (s\<lparr>StopCacheFileWatcher := True, d_feed := FCloseNext\<rparr>)"
| feed_close_next: "d_feed s = FCloseNext \<Longrightarrow>
    Run_feed c s (s\<lparr>StopWritingNextSegment := True, d_feed := FCloseDecider\<rparr>)"
| feed_close_decider: "d_feed s = FCloseDecider \<Longrightarrow> Run_feed c s (s\<lparr>StopDecider := True, d_feed := FDone\<rparr>)"

text \<open>The goroutine that writes to the next segment.\<close>

inductive Run_forward :: "'m db \<Rightarrow> 'm db \<Rightarrow> bool" where
  next_stop: "d_next s = NTop \<Longrightarrow> StopWritingNextSegment s \<Longrightarrow> Run_forward s (s\<lparr>d_next := NDone\<rparr>)"
| next_default: "d_next s = NTop \<Longrightarrow> \<not> StopWritingNextSegment s \<Longrightarrow> Run_forward s (s\<lparr>d_next := NRecv\<rparr>)"
| next_recv: "d_next s = NRecv \<Longrightarrow> MemoryBuffer s = m # ms \<Longrightarrow>
    Run_forward s (s\<lparr>MemoryBuffer := ms, d_next := NSend m\<rparr>)"
| next_send: "d_next s = NSend m \<Longrightarrow> Run_forward s (s\<lparr>d_out := d_out s @ [m], d_next := NTop\<rparr>)"

text \<open>
  The names come from \<open>filepath.Glob\<close>; a file that is gone when it is examined gives a nil
  \<open>FileInfo\<close>, and calling its \<open>Size\<close> panics. The sum of the sizes is a local variable.
\<close>

inductive WatchCacheFiles :: "'m db \<Rightarrow> 'm db \<Rightarrow> bool" where
  watch_glob: "d_watch s = WGlob \<Longrightarrow> mset ns = mset (file_names (d_files s)) \<Longrightarrow>
    WatchCacheFiles s (s\<lparr>CacheFiles := ns, d_watch := WStat ns\<rparr>)"
| watch_stat: "d_watch s = WStat (n # ns) \<Longrightarrow> n \<in> set (file_names (d_files s)) \<Longrightarrow>
    WatchCacheFiles s (s\<lparr>d_watch := WStat ns\<rparr>)"
| watch_gone: "d_watch s = WStat (n # ns) \<Longrightarrow> n \<notin> set (file_names (d_files s)) \<Longrightarrow>
    WatchCacheFiles s (s\<lparr>d_crash := Some (Panic ''invalid memory address or nil pointer dereference'')\<rparr>)"
| watch_summed: "d_watch s = WStat [] \<Longrightarrow> WatchCacheFiles s (s\<lparr>d_watch := WSelect\<rparr>)"
| watch_stop: "d_watch s = WSelect \<Longrightarrow> StopCacheFileWatcher s \<Longrightarrow> WatchCacheFiles s (s\<lparr>d_watch := WDone\<rparr>)"
| watch_again: "d_watch s = WSelect \<Longrightarrow> WatchCacheFiles s (s\<lparr>d_watch := WGlob\<rparr>)"

text \<open>
  The watchdogs. A look that finds nothing to do changes nothing and is left out; the \<open>default\<close> of a
  \<open>select\<close> is taken only when no channel is closed.
\<close>

inductive WriteWatchdogLowMemoryMark :: "DiskBuffer \<Rightarrow> 'm db \<Rightarrow> 'm db \<Rightarrow> bool" for c where
  ww_signal: "write_low_on s \<Longrightarrow> StopWatchdogs s \<Longrightarrow>
    WriteWatchdogLowMemoryMark c s (s\<lparr>write_low_on := False, ReadWriteWG := ReadWriteWG s - 1\<rparr>)"
| ww_low: "write_low_on s \<Longrightarrow> \<not> StopWatchdogs s \<Longrightarrow> \<not> StopDecider s \<Longrightarrow> fill s < mark (LowMemoryMark c) c \<Longrightarrow>
    WriteWatchdogLowMemoryMark c s
      (s\<lparr>StopWritingToDisk := True, write_low_on := False, ReadWriteWG := ReadWriteWG s - 1\<rparr>)"

inductive ReadWatchdogLowMemoryMark :: "DiskBuffer \<Rightarrow> 'm db \<Rightarrow> 'm db \<Rightarrow> bool" for c where
  rl_signal: "read_low_on s \<Longrightarrow> StopWatchdogs s \<Longrightarrow>
    ReadWatchdogLowMemoryMark c s (s\<lparr>read_low_on := False, ReadWriteWG := ReadWriteWG s - 1\<rparr>)"
| rl_low: "read_low_on s \<Longrightarrow> \<not> StopWatchdogs s \<Longrightarrow> fill s > mark (LowMemoryMark c) c \<Longrightarrow>
    ReadWatchdogLowMemoryMark c s
      (s\<lparr>StopReadingFromDisk := True, read_low_on := False, ReadWriteWG := ReadWriteWG s - 1\<rparr>)"

inductive ReadWatchdogHighMemoryMark :: "DiskBuffer \<Rightarrow> 'm db \<Rightarrow> 'm db \<Rightarrow> bool" for c where
  rh_signal: "read_high_on s \<Longrightarrow> StopWatchdogs s \<Longrightarrow>
    ReadWatchdogHighMemoryMark c s (s\<lparr>read_high_on := False, ReadWriteWG := ReadWriteWG s - 1\<rparr>)"
| rh_stop: "read_high_on s \<Longrightarrow> StopDecider s \<Longrightarrow>
    ReadWatchdogHighMemoryMark c s
      (s\<lparr>EmergencyStop := True, read_high_on := False, ReadWriteWG := ReadWriteWG s - 1\<rparr>)"
| rh_high: "read_high_on s \<Longrightarrow> \<not> StopWatchdogs s \<Longrightarrow> \<not> StopDecider s \<Longrightarrow> fill s > mark (HighMemoryMark c) c \<Longrightarrow>
    ReadWatchdogHighMemoryMark c s
      (s\<lparr>EmergencyStop := True, read_high_on := False, ReadWriteWG := ReadWriteWG s - 1\<rparr>)"

text \<open>
  The size of the file is compared with \<open>FileSize\<close> after each batch, but the \<open>break\<close> there only
  leaves the \<open>select\<close>: the loop goes on.
\<close>

inductive WriteToDisk :: "('m \<Rightarrow> string option) \<Rightarrow> DiskBuffer \<Rightarrow> 'm db \<Rightarrow> 'm db \<Rightarrow> bool" for marshal c where
  wr_create: "d_writer s = WrCreate \<Longrightarrow> fresh_name n s \<Longrightarrow>
    WriteToDisk marshal c s (s\<lparr>d_files := d_files s @ [(n, [])], d_writer := WrTop n\<rparr>)"
| wr_signal: "d_writer s = WrTop n \<Longrightarrow> StopWritingToDisk s \<Longrightarrow> WriteToDisk marshal c s (writer_returns s)"
| wr_default: "d_writer s = WrTop n \<Longrightarrow> \<not> StopWritingToDisk s \<Longrightarrow>
    WriteToDisk marshal c s (s\<lparr>d_writer := WrBatch n 0\<rparr>)"
| wr_take: "d_writer s = WrBatch n i \<Longrightarrow> int i < BatchSize c \<Longrightarrow> MemoryBuffer s = m # ms \<Longrightarrow>
    WriteToDisk marshal c s
      (s\<lparr>MemoryBuffer := ms, d_files := write_flow marshal n m (d_files s), d_writer := WrBatch n (Suc i)\<rparr>)"
| wr_empty: "d_writer s = WrBatch n i \<Longrightarrow> int i < BatchSize c \<Longrightarrow> MemoryBuffer s = [] \<Longrightarrow>
    WriteToDisk marshal c s (writer_returns s)"
| wr_next: "d_writer s = WrBatch n i \<Longrightarrow> \<not> int i < BatchSize c \<Longrightarrow>
    WriteToDisk marshal c s (s\<lparr>d_writer := WrTop n\<rparr>)"

text \<open>
  The scanning goroutine hands its lines over an unbuffered channel. On a line that is too long the
  scanner reports an error for ever and the goroutine spins: there is no rule for it. In an
  emergency the line at hand is not written anywhere, and the following ones are printed as numbers.
\<close>

inductive ReadFromDisk :: "(string \<Rightarrow> 'm option) \<Rightarrow> DiskBuffer \<Rightarrow> 'm db \<Rightarrow> 'm db \<Rightarrow> bool" for unmarshal c where
  ri_start: "d_scan s = RiStart \<Longrightarrow> ReadFromDisk unmarshal c s (s\<lparr>d_scan := RiOpen (CacheFiles s)\<rparr>)"
| ri_end: "d_scan s = RiOpen [] \<Longrightarrow> ReadFromDisk unmarshal c s (s\<lparr>d_scan := RiDone\<rparr>)"
| ri_missing: "d_scan s = RiOpen (n # ns) \<Longrightarrow> n \<notin> set (file_names (d_files s)) \<Longrightarrow>
    ReadFromDisk unmarshal c s (s\<lparr>d_scan := RiOpen ns\<rparr>)"
| ri_open: "d_scan s = RiOpen (n # ns) \<Longrightarrow> map_of (d_files s) n = Some ls \<Longrightarrow>
    ReadFromDisk unmarshal c s (s\<lparr>d_scan := RiScan n ls ns\<rparr>)"
| ri_blank: "d_scan s = RiScan n ([] # ls) ns \<Longrightarrow> ReadFromDisk unmarshal c s (s\<lparr>d_scan := RiScan n ls ns\<rparr>)"
| ri_hand: "d_scan s = RiScan n (l # ls) ns \<Longrightarrow> l \<noteq> [] \<Longrightarrow> length l < max_token \<Longrightarrow> d_main s = RmRecv \<Longrightarrow>
    ReadFromDisk unmarshal c s (s\<lparr>d_scan := RiScan n ls ns, d_main := RmLine l\<rparr>)"
| ri_emergency: "d_scan s = RiScan n (l # ls) ns \<Longrightarrow> l \<noteq> [] \<Longrightarrow> length l < max_token \<Longrightarrow> d_main s = RmEmerg f \<Longrightarrow>
    ReadFromDisk unmarshal c s
      (s\<lparr>d_scan := RiScan n ls ns, d_files := append_lines f (println_lines (print_bytes l)) (d_files s)\<rparr>)"
| ri_eof: "d_scan s = RiScan n [] ns \<Longrightarrow>
    ReadFromDisk unmarshal c s (s\<lparr>d_scan := RiCheck ns, d_files := other_files n (d_files s)\<rparr>)"
| ri_signal: "d_scan s = RiCheck ns \<Longrightarrow> StopReadingFromDisk s \<or> EmergencyStop s \<Longrightarrow>
    ReadFromDisk unmarshal c s (s\<lparr>d_scan := RiDone\<rparr>)"
| ri_default: "d_scan s = RiCheck ns \<Longrightarrow> \<not> StopReadingFromDisk s \<Longrightarrow> \<not> EmergencyStop s \<Longrightarrow>
    ReadFromDisk unmarshal c s (s\<lparr>d_scan := RiOpen ns\<rparr>)"
| rm_closed: "d_main s = RmRecv \<Longrightarrow> d_scan s = RiDone \<Longrightarrow> ReadFromDisk unmarshal c s (reader_returns s)"
| rm_emergency: "d_main s = RmLine l \<Longrightarrow> EmergencyStop s \<Longrightarrow> fresh_name f s \<Longrightarrow>
    ReadFromDisk unmarshal c s (s\<lparr>d_main := RmEmerg f, d_files := d_files s @ [(f, [])]\<rparr>)"
| rm_skip: "d_main s = RmLine l \<Longrightarrow> \<not> EmergencyStop s \<Longrightarrow> unmarshal l = None \<Longrightarrow>
    ReadFromDisk unmarshal c s (s\<lparr>d_main := RmRecv\<rparr>)"
| rm_decoded: "d_main s = RmLine l \<Longrightarrow> \<not> EmergencyStop s \<Longrightarrow> unmarshal l = Some m \<Longrightarrow>
    ReadFromDisk unmarshal c s (s\<lparr>d_main := RmOffer m\<rparr>)"
| rm_out: "d_main s = RmOffer m \<Longrightarrow> ReadFromDisk unmarshal c s (s\<lparr>d_out := d_out s @ [m], d_main := RmRecv\<rparr>)"
| rm_timeout: "d_main s = RmOffer m \<Longrightarrow> ReadFromDisk unmarshal c s (s\<lparr>d_main := RmPush m\<rparr>)"
| rm_push: "d_main s = RmPush m \<Longrightarrow> fill s < Capacity c \<Longrightarrow>
    ReadFromDisk unmarshal c s (s\<lparr>MemoryBuffer := MemoryBuffer s @ [m], d_main := RmRecv\<rparr>)"
| rm_rest_closed: "d_main s = RmEmerg f \<Longrightarrow> d_scan s = RiDone \<Longrightarrow> ReadFromDisk unmarshal c s (reader_returns s)"

text \<open>
  The decider. Both tests use the length read at the top of the loop; \<open>CacheFilesSize\<close> of \<open>Run\<close> is
  never written and stays 0.
\<close>

inductive Run_decide :: "DiskBuffer \<Rightarrow> 'm db \<Rightarrow> 'm db \<Rightarrow> bool" for c where
  dec_stop: "d_dec s = DTop \<Longrightarrow> StopDecider s \<Longrightarrow>
    Run_decide c s (s\<lparr>ReadWriteWG := ReadWriteWG s + 1, StopWritingToDisk := False, StopWatchdogs := False,
      d_writer := WrCreate, d_dec := DFinal\<rparr>)"
| dec_final: "d_dec s = DFinal \<Longrightarrow> ReadWriteWG s = 0 \<Longrightarrow> Run_decide c s (s\<lparr>d_dec := DDone\<rparr>)"
| dec_default: "d_dec s = DTop \<Longrightarrow> \<not> StopDecider s \<Longrightarrow>
    Run_decide c s (s\<lparr>d_dec := DRead (length (MemoryBuffer s))\<rparr>)"
| dec_no_read: "d_dec s = DRead k \<Longrightarrow> \<not> (int k < mark (ReadingMemoryMark c) c \<and> CacheFiles s \<noteq> []) \<Longrightarrow>
    Run_decide c s (s\<lparr>d_dec := DWrite k\<rparr>)"
| dec_read: "d_dec s = DRead k \<Longrightarrow> int k < mark (ReadingMemoryMark c) c \<Longrightarrow> CacheFiles s \<noteq> [] \<Longrightarrow>
    ReadWriteWG s = 0 \<Longrightarrow>
    Run_decide c s (s\<lparr>ReadWriteWG := 3, StopReadingFromDisk := False, EmergencyStop := False,
      StopWatchdogs := False, read_low_on := True, read_high_on := True,
      d_main := RmRecv, d_scan := RiStart, d_dec := DReading k\<rparr>)"
| dec_read_done: "d_dec s = DReading k \<Longrightarrow> ReadWriteWG s = 0 \<Longrightarrow> Run_decide c s (s\<lparr>d_dec := DWrite k\<rparr>)"
| dec_no_write: "d_dec s = DWrite k \<Longrightarrow> \<not> (int k > mark (HighMemoryMark c) c \<and> 0 < MaxCacheSize c) \<Longrightarrow>
    Run_decide c s (s\<lparr>d_dec := DTop\<rparr>)"
| dec_write: "d_dec s = DWrite k \<Longrightarrow> int k > mark (HighMemoryMark c) c \<Longrightarrow> 0 < MaxCacheSize c \<Longrightarrow>
    ReadWriteWG s = 0 \<Longrightarrow>
    Run_decide c s (s\<lparr>ReadWriteWG := 2, StopWritingToDisk := False, StopWatchdogs := False,
      write_low_on := True, d_writer := WrCreate, d_dec := DWriting\<rparr>)"
| dec_write_done: "d_dec s = DWriting \<Longrightarrow> ReadWriteWG s = 0 \<Longrightarrow> Run_decide c s (s\<lparr>d_dec := DTop\<rparr>)"

text \<open>A step of \<open>Run\<close> is a step of one of its goroutines; a panic ends the process.\<close>

definition db_step ::
  "('m \<Rightarrow> string option) \<Rightarrow> (string \<Rightarrow> 'm option) \<Rightarrow> DiskBuffer \<Rightarrow> 'm db \<Rightarrow> 'm db \<Rightarrow> bool" where
  "db_step marshal unmarshal c s s' \<longleftrightarrow> d_crash s = None \<and>
     (Run_feed c s s' \<or> Run_forward s s' \<or> WatchCacheFiles s s' \<or> WriteWatchdogLowMemoryMark c s s'
      \<or> ReadWatchdogLowMemoryMark c s s' \<or> ReadWatchdogHighMemoryMark c s s'
      \<or> WriteToDisk marshal c s s' \<or> ReadFromDisk unmarshal c s s' \<or> Run_decide c s s')"

abbreviation db_steps ::
  "('m \<Rightarrow> string option) \<Rightarrow> (string \<Rightarrow> 'm option) \<Rightarrow> DiskBuffer \<Rightarrow> 'm db \<Rightarrow> 'm db \<Rightarrow> bool" where
  "db_steps marshal unmarshal c \<equiv> (db_step marshal unmarshal c)\<^sup>*\<^sup>*"

text \<open>\<open>BufferWG.Wait\<close> has returned, and the output channel is closed.\<close>

definition db_finished :: "'m db \<Rightarrow> bool" where
  "db_finished s \<longleftrightarrow> d_feed s = FDone \<and> d_next s = NDone \<and> d_watch s = WDone \<and> d_dec s = DDone"

inductive_cases Run_feed_cases: "Run_feed c s s'"
inductive_cases Run_forward_cases: "Run_forward s s'"
inductive_cases WatchCacheFiles_cases: "WatchCacheFiles s s'"
inductive_cases WriteWatchdogLowMemoryMark_cases: "WriteWatchdogLowMemoryMark c s s'"
inductive_cases ReadWatchdogLowMemoryMark_cases: "ReadWatchdogLowMemoryMark c s s'"
inductive_cases ReadWatchdogHighMemoryMark_cases: "ReadWatchdogHighMemoryMark c s s'"
inductive_cases WriteToDisk_cases: "WriteToDisk marshal c s s'"
inductive_cases ReadFromDisk_cases: "ReadFromDisk unmarshal c s s'"
inductive_cases Run_decide_cases: "Run_decide c s s'"

lemmas db_action_cases = Run_feed_cases Run_forward_cases WatchCacheFiles_cases
  WriteWatchdogLowMemoryMark_cases ReadWatchdogLowMemoryMark_cases ReadWatchdogHighMemoryMark_cases
  WriteToDisk_cases ReadFromDisk_cases Run_decide_cases

section \<open>The invariant\<close>

lemma file_names_simps [simp]:
  "file_names (fs @ gs) = file_names fs @ file_names gs" "file_names [] = []"
  "file_names ((n, ls) # fs) = n # file_names fs"
  "file_names (append_lines n xs fs) = file_names fs"
  "file_names (write_flow marshal n m fs) = file_names fs"
  by (auto simp: file_names_def append_lines_def write_flow_def split: option.splits)

lemma file_names_other [simp]: "file_names (other_files n fs) = filter (\<lambda>k. k \<noteq> n) (file_names fs)"
  by (induction fs) (auto simp: file_names_def other_files_def)

lemma map_of_append_lines: "k \<noteq> n \<Longrightarrow> map_of (append_lines n xs fs) k = map_of fs k"
  by (induction fs) (auto simp: append_lines_def)

lemma map_of_names: "map_of fs n = None \<longleftrightarrow> n \<notin> set (file_names fs)"
  by (simp add: map_of_eq_None_iff file_names_def)

text \<open>\<open>ReadWriteWG\<close> counts the goroutines of the current phase.\<close>

definition wg_ok :: "'m db \<Rightarrow> bool" where
  "wg_ok s \<longleftrightarrow> ReadWriteWG s = of_bool (d_writer s \<noteq> WrOff) + of_bool (d_main s \<noteq> RmOff)
     + of_bool (write_low_on s) + of_bool (read_low_on s) + of_bool (read_high_on s)
     \<and> (d_scan s = RiOff \<longleftrightarrow> d_main s = RmOff)"

text \<open>Which goroutines the decider may be waiting for.\<close>

definition phase_ok :: "'m db \<Rightarrow> bool" where
  "phase_ok s = (case d_dec s of
       DReading _ \<Rightarrow> d_writer s = WrOff \<and> \<not> write_low_on s
     | DWriting \<Rightarrow> d_main s = RmOff \<and> \<not> read_low_on s \<and> \<not> read_high_on s
     | DFinal \<Rightarrow> d_main s = RmOff \<and> \<not> write_low_on s \<and> \<not> read_low_on s \<and> \<not> read_high_on s
     | _ \<Rightarrow> ReadWriteWG s = 0)"

text \<open>The files the goroutines work on exist, and the scanned one still has the lines to come.\<close>

definition files_inv :: "(string \<times> string list) list \<Rightarrow> writer \<Rightarrow> scanning \<Rightarrow> 'm reader \<Rightarrow> bool" where
  "files_inv fs wr sc rd \<longleftrightarrow> distinct (file_names fs)
     \<and> (\<forall>n. wr = WrTop n \<longrightarrow> n \<in> set (file_names fs))
     \<and> (\<forall>n i. wr = WrBatch n i \<longrightarrow> n \<in> set (file_names fs))
     \<and> (\<forall>n ls ns. sc = RiScan n ls ns \<longrightarrow> (\<exists>pre. map_of fs n = Some (pre @ ls)))
     \<and> (\<forall>f. rd = RmEmerg f \<longrightarrow> f \<in> set (file_names fs) \<and> f \<notin> set (scan_names sc) \<and> sc \<noteq> RiStart)
     \<and> (\<forall>l. rd = RmLine l \<longrightarrow> sc \<noteq> RiStart)"

definition files_ok :: "'m db \<Rightarrow> bool" where
  "files_ok s \<longleftrightarrow> files_inv (d_files s) (d_writer s) (d_scan s) (d_main s)"

definition db_inv :: "DiskBuffer \<Rightarrow> 'm db \<Rightarrow> bool" where
  "db_inv c s \<longleftrightarrow> fill s \<le> Capacity c \<and> wg_ok s \<and> phase_ok s \<and> files_ok s"

lemma fill_upd [simp]:
  "fill (s\<lparr>MemoryBuffer := q\<rparr>) = int (length q)"
  by (simp add: fill_def)

lemma fill_bound:
  assumes "db_step marshal unmarshal c s s'" "fill s \<le> Capacity c"
  shows "fill s' \<le> Capacity c"
  using assms unfolding db_step_def
  by (elim conjE disjE db_action_cases) (simp_all add: fill_def writer_returns_def reader_returns_def)

lemma phase_idle: "phase_ok s \<Longrightarrow> wg_ok s \<Longrightarrow> ReadWriteWG s = 0 \<Longrightarrow>
   d_writer s = WrOff \<and> d_main s = RmOff \<and> d_scan s = RiOff \<and> \<not> write_low_on s \<and> \<not> read_low_on s \<and> \<not> read_high_on s"
  by (auto simp: wg_ok_def)

lemma wg_phase_step:
  assumes "db_step marshal unmarshal c s s'" "wg_ok s" "phase_ok s"
  shows "wg_ok s' \<and> phase_ok s'"
  using assms unfolding db_step_def
  by (elim conjE disjE db_action_cases)
    (simp_all add: wg_ok_def phase_ok_def writer_returns_def reader_returns_def split: decider.splits)

text \<open>Reading and writing exclude each other.\<close>

lemma exclusive: "wg_ok s \<Longrightarrow> phase_ok s \<Longrightarrow> d_writer s = WrOff \<or> d_main s = RmOff \<and> d_scan s = RiOff"
  by (auto simp: wg_ok_def phase_ok_def split: decider.splits if_splits)

lemma files_ok_other_actions:
  assumes "Run_feed c s s' \<or> Run_forward s s' \<or> WatchCacheFiles s s' \<or> WriteWatchdogLowMemoryMark c s s'
      \<or> ReadWatchdogLowMemoryMark c s s' \<or> ReadWatchdogHighMemoryMark c s s'" "files_ok s"
  shows "files_ok s'"
  using assms by (elim disjE db_action_cases) (simp_all add: files_ok_def)

lemma files_ok_decide:
  assumes "Run_decide c s s'" "files_ok s"
  shows "files_ok s'"
  using assms by (elim db_action_cases) (simp_all add: files_ok_def files_inv_def)

lemma files_ok_write:
  assumes "WriteToDisk marshal c s s'" "files_ok s" "wg_ok s" "phase_ok s"
  shows "files_ok s'"
  using assms(1,2) exclusive [OF assms(3,4)]
  by (elim WriteToDisk_cases) (auto simp: files_ok_def files_inv_def fresh_name_def writer_returns_def)

lemma map_of_other: "k \<noteq> n \<Longrightarrow> map_of (other_files n fs) k = map_of fs k"
  by (induction fs) (auto simp: other_files_def)

lemma map_of_some_names: "map_of fs n = Some ls \<Longrightarrow> n \<in> set (file_names fs)"
  using map_of_names [of fs n] by force

lemma files_ok_read:
  assumes "ReadFromDisk unmarshal c s s'" "files_ok s" "wg_ok s" "phase_ok s"
  shows "files_ok s'"
  using assms(1,2) exclusive [OF assms(3,4)]
  by (elim ReadFromDisk_cases)
    (auto simp: files_ok_def files_inv_def fresh_name_def reader_returns_def map_of_append_lines map_add_Some_iff
       dest: map_of_some_names)

lemma db_inv_step:
  assumes "db_step marshal unmarshal c s s'" "db_inv c s"
  shows "db_inv c s'"
  using assms fill_bound [OF assms(1)] wg_phase_step [OF assms(1)]
    files_ok_other_actions [of c s s'] files_ok_decide [of c s s'] files_ok_write [of marshal c s s']
    files_ok_read [of unmarshal c s s']
  unfolding db_inv_def db_step_def by blast

lemma db_inv_start:
  assumes "0 \<le> Capacity c" "distinct (file_names fs)"
  shows "db_inv c (db_start fs ms)"
  using assms by (simp add: db_inv_def db_start_def fill_def wg_ok_def phase_ok_def files_ok_def files_inv_def)

lemma db_inv_steps: "db_steps marshal unmarshal c s s' \<Longrightarrow> db_inv c s \<Longrightarrow> db_inv c s'"
  by (induction rule: rtranclp_induct) (auto intro: db_inv_step)

text \<open>
  C7. Whatever the order in which the goroutines of the disk buffer run, with settings \<open>New\<close> accepts and
  files of different names: its queue never holds more flows than its capacity, and the goroutine
  \<open>WriteToDisk\<close> is never active together with \<open>ReadFromDisk\<close>. In an emergency stop \<open>ReadFromDisk\<close>
  itself writes what it has not read yet to a \<open>rest_\<close> file.
\<close>

theorem diskbuffer_safe:
  assumes "settings_ok c" "distinct (file_names fs)"
    and "db_steps marshal unmarshal c (db_start fs ms) s"
  shows "int (length (MemoryBuffer s)) \<le> Capacity c \<and> (d_writer s = WrOff \<or> d_main s = RmOff \<and> d_scan s = RiOff)"
proof -
  have "db_inv c s"
    using db_inv_steps [OF assms(3)] db_inv_start [of c fs ms] assms(1,2) by (simp add: settings_ok_def)
  then show ?thesis using exclusive [of s] by (simp add: db_inv_def fill_def)
qed

section \<open>No flow is lost\<close>

text \<open>
  What the code relies on of \<open>protojson\<close>: a flow is encoded on one line and decoded to itself, and
  neither the empty text nor an array is a flow.
\<close>

definition codec_ok :: "('m \<Rightarrow> string option) \<Rightarrow> (string \<Rightarrow> 'm option) \<Rightarrow> bool" where
  "codec_ok marshal unmarshal \<longleftrightarrow>
     (\<forall>m. \<exists>l. marshal m = Some l \<and> CHR 0x0A \<notin> set l \<and> unmarshal l = Some m)
     \<and> unmarshal [] = None \<and> (\<forall>t. unmarshal (CHR ''['' # t) = None)"

text \<open>The flows of a list of lines, and of the files: the scanned file counts with its rest.\<close>

definition line_flows :: "(string \<Rightarrow> 'm option) \<Rightarrow> string list \<Rightarrow> 'm multiset" where
  "line_flows unmarshal ls = mset (List.map_filter unmarshal ls)"

definition file_flows :: "(string \<Rightarrow> 'm option) \<Rightarrow> (string \<times> string list) list \<Rightarrow> 'm multiset" where
  "file_flows unmarshal fs = line_flows unmarshal (concat (map snd fs))"

fun disk_flows :: "(string \<Rightarrow> 'm option) \<Rightarrow> scanning \<Rightarrow> (string \<times> string list) list \<Rightarrow> 'm multiset" where
  "disk_flows unmarshal (RiScan n ls _) fs = line_flows unmarshal ls + file_flows unmarshal (other_files n fs)"
| "disk_flows unmarshal _ fs = file_flows unmarshal fs"

fun feed_flows :: "'m feeder \<Rightarrow> 'm multiset" where
  "feed_flows (FSend m) = {#m#}" | "feed_flows _ = {#}"

fun next_flows :: "'m forwarder \<Rightarrow> 'm multiset" where
  "next_flows (NSend m) = {#m#}" | "next_flows _ = {#}"

fun reader_flows :: "(string \<Rightarrow> 'm option) \<Rightarrow> 'm reader \<Rightarrow> 'm multiset" where
  "reader_flows unmarshal (RmLine l) = line_flows unmarshal [l]"
| "reader_flows unmarshal (RmOffer m) = {#m#}"
| "reader_flows unmarshal (RmPush m) = {#m#}"
| "reader_flows unmarshal _ = {#}"

text \<open>All flows: to be received, held by a goroutine, queued, on disk, or delivered.\<close>

definition db_flows :: "(string \<Rightarrow> 'm option) \<Rightarrow> 'm db \<Rightarrow> 'm multiset" where
  "db_flows unmarshal s = mset (d_in s) + feed_flows (d_feed s) + mset (MemoryBuffer s) + next_flows (d_next s)
     + mset (d_out s) + reader_flows unmarshal (d_main s) + disk_flows unmarshal (d_scan s) (d_files s)"

lemma line_flows_simps [simp]:
  "line_flows u [] = {#}" "line_flows u (ls @ ks) = line_flows u ls + line_flows u ks"
  "line_flows u (l # ls) = (case u l of None \<Rightarrow> {#} | Some m \<Rightarrow> {#m#}) + line_flows u ls"
  by (auto simp: line_flows_def List.map_filter_def split: option.splits)

lemma file_flows_simps [simp]:
  "file_flows u [] = {#}" "file_flows u (fs @ gs) = file_flows u fs + file_flows u gs"
  "file_flows u ((n, ls) # fs) = line_flows u ls + file_flows u fs"
  by (auto simp: file_flows_def)

lemma other_files_simps [simp]:
  "other_files n [] = []" "other_files n (fs @ gs) = other_files n fs @ other_files n gs"
  "other_files n ((k, ls) # fs) = (if k = n then other_files n fs else (k, ls) # other_files n fs)"
  by (auto simp: other_files_def)

lemma other_files_append_lines [simp]: "other_files n (append_lines k xs fs) = append_lines k xs (other_files n fs)"
  by (induction fs) (auto simp: append_lines_def)

lemma other_files_absent: "n \<notin> set (file_names fs) \<Longrightarrow> other_files n fs = fs"
  by (induction fs) auto

lemma append_lines_absent: "n \<notin> set (file_names fs) \<Longrightarrow> append_lines n xs fs = fs"
  by (induction fs) (auto simp: append_lines_def)

lemma file_flows_append:
  "distinct (file_names fs) \<Longrightarrow> n \<in> set (file_names fs) \<Longrightarrow>
     file_flows u (append_lines n xs fs) = file_flows u fs + line_flows u xs"
proof (induction fs)
  case (Cons p fs)
  obtain k ls where p: "p = (k, ls)" by fastforce
  have a: "append_lines n xs (p # fs) = (k, if k = n then ls @ xs else ls) # append_lines n xs fs"
    by (simp add: append_lines_def p)
  show ?case
  proof (cases "k = n")
    case True then show ?thesis using Cons.prems p a append_lines_absent [of n fs xs] by (simp add: ac_simps)
  next
    case False then show ?thesis using Cons p a by (simp add: ac_simps)
  qed
qed simp

lemma file_flows_split:
  "distinct (file_names fs) \<Longrightarrow> map_of fs n = Some ls \<Longrightarrow>
     file_flows u fs = line_flows u ls + file_flows u (other_files n fs)"
proof (induction fs)
  case (Cons p fs)
  obtain k xs where p: "p = (k, xs)" by fastforce
  then show ?case using Cons other_files_absent [of n fs] by (cases "k = n") auto
qed simp

lemma print_bytes_lines: "println_lines (print_bytes l) = [print_bytes l]"
proof -
  have d: "CHR 0x0A \<notin> set (dec n)" for n
    using dec_not_space [of "CHR 0x0A" n] by (auto simp: is_space_def)
  have "CHR 0x0A \<notin> set (join_with '' '' (map (\<lambda>b. dec (of_char b)) l))"
    using join_with_set [of "'' ''" "map (\<lambda>b. dec (of_char b)) l"] d by auto
  then show ?thesis unfolding println_lines_def by (intro split_on_word) (simp add: print_bytes_def)
qed

lemma rest_lines_flows: "codec_ok marshal unmarshal \<Longrightarrow> line_flows unmarshal (println_lines (print_bytes l)) = {#}"
  by (simp add: print_bytes_lines codec_ok_def) (simp add: print_bytes_def)

lemma write_flow_flows:
  assumes "codec_ok marshal unmarshal" "distinct (file_names fs)" "n \<in> set (file_names fs)"
  shows "file_flows unmarshal (write_flow marshal n m fs) = file_flows unmarshal fs + {#m#}"
proof -
  obtain l where "marshal m = Some l" "CHR 0x0A \<notin> set l" "unmarshal l = Some m"
    using assms(1) unfolding codec_ok_def by blast
  then show ?thesis using assms(2,3)
    by (simp add: write_flow_def file_flows_append println_lines_def split_on_word)
qed

lemma disk_flows_new_file [simp]: "disk_flows u sc (fs @ [(f, [])]) = disk_flows u sc fs"
  by (cases sc) auto

lemma disk_flows_not_scanning: "(\<And>n ls ns. sc \<noteq> RiScan n ls ns) \<Longrightarrow> disk_flows u sc fs = file_flows u fs"
  by (cases sc) auto

lemma flows_other_actions:
  assumes "Run_feed c s s' \<or> Run_forward s s' \<or> WatchCacheFiles s s' \<or> WriteWatchdogLowMemoryMark c s s'
      \<or> ReadWatchdogLowMemoryMark c s s' \<or> ReadWatchdogHighMemoryMark c s s'"
  shows "db_flows u s' = db_flows u s"
  using assms by (elim disjE db_action_cases) (simp_all add: db_flows_def)

lemma flows_decide:
  assumes "Run_decide c s s'" "db_inv c s"
  shows "db_flows u s' = db_flows u s"
  using assms by (elim Run_decide_cases) (auto simp: db_flows_def db_inv_def wg_ok_def)

lemma flows_write:
  assumes "WriteToDisk marshal c s s'" "db_inv c s" "codec_ok marshal u"
  shows "db_flows u s' = db_flows u s"
proof -
  have ok: "files_ok s" "d_writer s = WrOff \<or> d_scan s = RiOff"
    using assms(2) exclusive [of s] by (auto simp: db_inv_def)
  show ?thesis using assms(1) ok
    by (elim WriteToDisk_cases)
      (auto simp: db_flows_def writer_returns_def files_ok_def files_inv_def write_flow_flows [OF assms(3)])
qed

text \<open>Reading loses flows only in an emergency.\<close>

fun in_emergency :: "'m reader \<Rightarrow> bool" where
  "in_emergency (RmEmerg _) = True" | "in_emergency _ = False"

lemma disk_flows_rest:
  assumes "codec_ok marshal u" "files_inv fs wr (RiScan n ls ns) (RmEmerg f)"
  shows "file_flows u (other_files n (append_lines f (println_lines (print_bytes l)) fs)) = file_flows u (other_files n fs)"
proof -
  have "distinct (file_names (other_files n fs))" "f \<in> set (file_names (other_files n fs))"
    using assms(2) by (auto simp: files_inv_def)
  then show ?thesis
    using file_flows_append [of "other_files n fs" f u] rest_lines_flows [OF assms(1)] by simp
qed

lemma flows_read:
  assumes "ReadFromDisk u c s s'" "db_inv c s" "codec_ok marshal u"
  shows "db_flows u s' \<subseteq># db_flows u s \<and> (\<not> in_emergency (d_main s') \<longrightarrow> db_flows u s' = db_flows u s)"
proof -
  have ok: "files_inv (d_files s) (d_writer s) (d_scan s) (d_main s)"
    using assms(2) by (simp add: db_inv_def files_ok_def)
  have scan: "d_main s = RmOff \<longleftrightarrow> d_scan s = RiOff" using assms(2) by (auto simp: db_inv_def wg_ok_def)
  have u: "u [] = None" using assms(3) by (simp add: codec_ok_def)
  from assms(1) show ?thesis
  proof (cases rule: ReadFromDisk.cases)
    case (ri_open n ns ls)
    then show ?thesis using ok file_flows_split [of "d_files s" n ls u]
      by (simp add: db_flows_def files_inv_def)
  next
    case (ri_emergency n l ls ns f)
    then have "file_flows u (other_files n (d_files s')) = file_flows u (other_files n (d_files s))"
      using disk_flows_rest [OF assms(3), of "d_files s" "d_writer s" n "l # ls" ns f l] ok by simp
    with ri_emergency show ?thesis by (simp add: db_flows_def)
  next
    case (rm_emergency l f)
    then show ?thesis by (simp add: db_flows_def)
  qed (use u in \<open>auto simp: db_flows_def reader_returns_def split: option.splits\<close>)
qed

lemma flows_step:
  assumes "db_step marshal u c s s'" "db_inv c s" "codec_ok marshal u"
  shows "db_flows u s' \<subseteq># db_flows u s \<and> (\<not> in_emergency (d_main s') \<longrightarrow> db_flows u s' = db_flows u s)"
  using assms flows_other_actions [of c s s' u] flows_decide [of c s s' u] flows_write [of marshal c s s' u]
    flows_read [of u c s s' marshal]
  unfolding db_step_def by (metis subset_mset.order_refl)

text \<open>The input channel is exhausted when the goroutine that reads it closes the signal channels.\<close>

definition feed_ok :: "'m db \<Rightarrow> bool" where
  "feed_ok s \<longleftrightarrow> d_feed s = FRecv \<or> (\<exists>m. d_feed s = FSend m) \<or> d_in s = []"

lemma feed_ok_step: "db_step marshal u c s s' \<Longrightarrow> feed_ok s \<Longrightarrow> feed_ok s'"
  unfolding db_step_def
  by (elim conjE disjE db_action_cases) (simp_all add: feed_ok_def writer_returns_def reader_returns_def)

lemma db_flows_start: "db_flows u (db_start fs ms) = mset ms + file_flows u fs"
  by (simp add: db_flows_def db_start_def)

text \<open>
  The disk buffer never invents or duplicates a flow: in every interleaving, what was delivered
  together with what is queued, held or on disk is part of what came in and what was on disk at the
  start.
\<close>

theorem diskbuffer_invents_nothing:
  assumes "settings_ok c" "distinct (file_names fs)" "codec_ok marshal unmarshal"
    and "db_steps marshal unmarshal c (db_start fs ms) s"
  shows "db_flows unmarshal s \<subseteq># mset ms + file_flows unmarshal fs"
proof -
  have "db_inv c s \<and> db_flows unmarshal s \<subseteq># mset ms + file_flows unmarshal fs"
    using assms(4)
  proof (induction rule: rtranclp_induct)
    case base
    then show ?case using assms(1,2) db_inv_start [of c fs ms] by (simp add: settings_ok_def db_flows_start)
  next
    case (step s s')
    then show ?case
      using db_inv_step [OF step(2)] flows_step [OF step(2) _ assms(3)] subset_mset.order_trans by blast
  qed
  then show ?thesis ..
qed

text \<open>The steps of a run in which the high mark is not reached while reading.\<close>

definition calm_step ::
  "('m \<Rightarrow> string option) \<Rightarrow> (string \<Rightarrow> 'm option) \<Rightarrow> DiskBuffer \<Rightarrow> 'm db \<Rightarrow> 'm db \<Rightarrow> bool" where
  "calm_step marshal unmarshal c s s' \<longleftrightarrow> db_step marshal unmarshal c s s' \<and> \<not> in_emergency (d_main s')"

text \<open>
  C6. Without an emergency stop no flow is lost: in every interleaving the flows delivered, queued,
  held and on disk are exactly those that came in or were on disk at the start, and when all the
  goroutines of the segment have ended, every flow was delivered or is in a file or in the queue.
\<close>

theorem diskbuffer_conserves:
  assumes "settings_ok c" "distinct (file_names fs)" "codec_ok marshal unmarshal"
    and "(calm_step marshal unmarshal c)\<^sup>*\<^sup>* (db_start fs ms) s"
  shows "db_flows unmarshal s = mset ms + file_flows unmarshal fs
    \<and> (db_finished s \<longrightarrow> mset (d_out s) + mset (MemoryBuffer s) + file_flows unmarshal (d_files s)
         = mset ms + file_flows unmarshal fs)"
proof -
  have inv: "db_inv c s \<and> feed_ok s \<and> db_flows unmarshal s = mset ms + file_flows unmarshal fs"
    using assms(4)
  proof (induction rule: rtranclp_induct)
    case base
    then show ?case using assms(1,2) db_inv_start [of c fs ms]
      by (simp add: settings_ok_def db_flows_start feed_ok_def) (simp add: db_start_def)
  next
    case (step s s')
    then have st: "db_step marshal unmarshal c s s'" "\<not> in_emergency (d_main s')"
      by (simp_all add: calm_step_def)
    with step show ?case
      using db_inv_step [OF st(1)] feed_ok_step [OF st(1)] flows_step [OF st(1) _ assms(3)] by simp
  qed
  moreover have "mset (d_out s) + mset (MemoryBuffer s) + file_flows unmarshal (d_files s)
      = mset ms + file_flows unmarshal fs" if fin: "db_finished s"
  proof -
    have "d_main s = RmOff" "d_scan s = RiOff" "d_in s = []"
      using inv fin by (auto simp: db_inv_def wg_ok_def phase_ok_def db_finished_def feed_ok_def)
    then show ?thesis using inv fin by (simp add: db_flows_def db_finished_def ac_simps)
  qed
  ultimately show ?thesis by blast
qed

section \<open>Runs that go wrong\<close>

inductive_simps Run_feed_simps: "Run_feed c s s'"
inductive_simps Run_forward_simps: "Run_forward s s'"
inductive_simps WatchCacheFiles_simps: "WatchCacheFiles s s'"
inductive_simps WriteToDisk_simps: "WriteToDisk marshal c s s'"
inductive_simps ReadFromDisk_simps: "ReadFromDisk unmarshal c s s'"
inductive_simps Run_decide_simps: "Run_decide c s s'"

text \<open>A step of one goroutine is a step of the program.\<close>

lemma db_stepI:
  assumes "d_crash s = None"
  shows "Run_feed c s s' \<Longrightarrow> db_step marshal u c s s'"
    "Run_forward s s' \<Longrightarrow> db_step marshal u c s s'"
    "WatchCacheFiles s s' \<Longrightarrow> db_step marshal u c s s'"
    "ReadWatchdogHighMemoryMark c s s' \<Longrightarrow> db_step marshal u c s s'"
    "WriteToDisk marshal c s s' \<Longrightarrow> db_step marshal u c s s'"
    "ReadFromDisk u c s s' \<Longrightarrow> db_step marshal u c s s'"
    "Run_decide c s s' \<Longrightarrow> db_step marshal u c s s'"
  using assms by (simp_all add: db_step_def)

text \<open>A run given by its states.\<close>

lemma successively_rtranclp: "successively R (x # xs) \<Longrightarrow> R\<^sup>*\<^sup>* x (last (x # xs))"
proof (induction xs arbitrary: x)
  case (Cons y ys)
  then have "R x y" "R\<^sup>*\<^sup>* y (last (y # ys))" by (auto simp: successively_Cons)
  then show ?case by (simp add: converse_rtranclp_into_rtranclp)
qed simp

lemmas db_run_simps = Run_feed_simps Run_forward_simps WatchCacheFiles_simps WriteToDisk_simps ReadFromDisk_simps
  Run_decide_simps ReadWatchdogHighMemoryMark.simps

text \<open>The segment in regular operation, with an empty queue: the forwarder waits for a flow.\<close>

definition waiting :: "'m list \<Rightarrow> 'm list \<Rightarrow> 'm db" where
  "waiting ms os = (db_start [] ms)\<lparr>d_next := NRecv, d_out := os\<rparr>"

lemma forward_one:
  assumes "0 < Capacity c"
  shows "db_steps marshal u c (waiting (m # ms) os) (waiting ms (os @ [m]))"
proof -
  have "successively (db_step marshal u c)
     [waiting (m # ms) os, (waiting ms os)\<lparr>d_feed := FSend m\<rparr>, (waiting ms os)\<lparr>MemoryBuffer := [m]\<rparr>,
      (waiting ms os)\<lparr>d_next := NSend m\<rparr>, (waiting ms (os @ [m]))\<lparr>d_next := NTop\<rparr>, waiting ms (os @ [m])]"
    using assms by (simp add: db_step_def db_run_simps waiting_def db_start_def fill_def)
  from successively_rtranclp [OF this] show ?thesis by simp
qed

lemma forward_flows:
  assumes "0 < Capacity c"
  shows "db_steps marshal u c (waiting ms os) (waiting [] (os @ ms))"
proof (induction ms arbitrary: os)
  case (Cons m ms)
  then show ?case using forward_one [OF assms, of marshal u m ms os] Cons [of "os @ [m]"] by simp
qed simp

text \<open>
  The end of the input while the forwarder waits: the signal channels are closed, the last file is
  written and every other goroutine returns.
\<close>

definition ending :: "'m list \<Rightarrow> 'm db" where
  "ending os = (waiting [] os)\<lparr>d_feed := FDone, d_watch := WDone, StopCacheFileWatcher := True,
     StopWritingNextSegment := True, StopDecider := True\<rparr>"

definition stuck :: "'m list \<Rightarrow> string \<Rightarrow> 'm db" where
  "stuck os n = (ending os)\<lparr>d_files := [(n, [])], StopWatchdogs := True, d_dec := DDone\<rparr>"

lemma close_signals: "db_steps marshal u c (waiting [] os) (ending os)"
proof -
  let ?w = "waiting [] os"
  let ?x = "?w\<lparr>d_feed := FDone, StopCacheFileWatcher := True, StopWritingNextSegment := True, StopDecider := True\<rparr>"
  have "successively (db_step marshal u c)
     [?w, ?w\<lparr>d_feed := FCloseWatcher\<rparr>, ?w\<lparr>d_feed := FCloseNext, StopCacheFileWatcher := True\<rparr>,
      ?w\<lparr>d_feed := FCloseDecider, StopCacheFileWatcher := True, StopWritingNextSegment := True\<rparr>, ?x,
      ?x\<lparr>d_watch := WStat []\<rparr>, ?x\<lparr>d_watch := WSelect\<rparr>, ending os]"
    by (simp add: db_step_def db_run_simps waiting_def db_start_def ending_def)
  from successively_rtranclp [OF this] show ?thesis by simp
qed

lemma final_write:
  assumes "0 < BatchSize c"
  shows "db_steps marshal u c (ending os) (stuck os n)"
proof -
  let ?d = "(ending os)\<lparr>d_dec := DFinal, ReadWriteWG := 1\<rparr>"
  let ?f = "?d\<lparr>d_files := [(n, [])]\<rparr>"
  have "successively (db_step marshal u c)
     [ending os, ?d\<lparr>d_writer := WrCreate\<rparr>, ?f\<lparr>d_writer := WrTop n\<rparr>, ?f\<lparr>d_writer := WrBatch n 0\<rparr>,
      (ending os)\<lparr>d_files := [(n, [])], StopWatchdogs := True, d_dec := DFinal\<rparr>, stuck os n]"
    using assms by (simp add: db_step_def db_run_simps waiting_def db_start_def ending_def stuck_def
        fresh_name_def writer_returns_def)
  from successively_rtranclp [OF this] show ?thesis by simp
qed

lemma stuck_no_step: "\<not> db_step marshal u c (stuck os n) s'"
  by (auto simp: db_step_def db_run_simps WriteWatchdogLowMemoryMark.simps ReadWatchdogLowMemoryMark.simps
      stuck_def ending_def waiting_def db_start_def)

text \<open>
  The segment need not end: with any settings and any input there is a run in which every flow
  is delivered, but the goroutine that feeds the next segment waits for a flow when the input ends;
  it is never woken up, so the output channel is never closed and the pipeline behind it never stops.
\<close>

theorem diskbuffer_can_hang:
  assumes "settings_ok c" "0 < BatchSize c"
  shows "\<exists>s. db_steps marshal unmarshal c (db_start [] ms) s \<and> d_out s = ms \<and> d_next s = NRecv
           \<and> \<not> db_finished s \<and> (\<forall>s'. \<not> db_step marshal unmarshal c s s')"
proof -
  have cap: "0 < Capacity c" using assms(1) by (simp add: settings_ok_def)
  have "db_step marshal unmarshal c (db_start [] ms) (waiting ms [])"
    by (simp add: db_step_def db_run_simps waiting_def db_start_def)
  also have "db_steps marshal unmarshal c (waiting ms []) (waiting [] ms)"
    using forward_flows [OF cap, of marshal unmarshal ms "[]"] by simp
  also have "db_steps marshal unmarshal c (waiting [] ms) (ending ms)" by (rule close_signals)
  also have "db_steps marshal unmarshal c (ending ms) (stuck ms ''f'')" using assms(2) by (rule final_write)
  finally have "db_steps marshal unmarshal c (db_start [] ms) (stuck ms ''f'')" .
  moreover have "d_out (stuck ms ''f'') = ms \<and> d_next (stuck ms ''f'') = NRecv \<and> \<not> db_finished (stuck ms ''f'')"
    by (simp add: stuck_def ending_def waiting_def db_finished_def)
  ultimately show ?thesis using stuck_no_step by blast
qed

text \<open>The start of a reading phase, when the directory holds one file.\<close>

definition reading :: "string \<Rightarrow> string list \<Rightarrow> watcher \<Rightarrow> 'm db" where
  "reading n ls w = (db_start [(n, ls)] [])\<lparr>CacheFiles := [n], d_watch := w, d_dec := DReading 0, ReadWriteWG := 3,
     read_low_on := True, read_high_on := True, d_main := RmRecv, d_scan := RiScan n ls []\<rparr>"

lemma reading_mark_pos: "settings_ok c \<Longrightarrow> 0 < mark (ReadingMemoryMark c) c"
proof -
  assume "settings_ok c"
  then have "5 * 64 \<le> ReadingMemoryMark c * Capacity c"
    by (intro mult_mono) (auto simp: settings_ok_def)
  then show ?thesis by (simp add: mark_def)
qed

lemma start_reading:
  assumes "settings_ok c"
  shows "db_steps marshal u c (db_start [(n, ls)] []) (reading n ls (WStat [n]))"
proof -
  let ?g = "(db_start [(n, ls)] [])\<lparr>CacheFiles := [n], d_watch := WStat [n]\<rparr>"
  have "successively (db_step marshal u c)
     [db_start [(n, ls)] [], ?g, ?g\<lparr>d_dec := DRead 0\<rparr>,
      (reading n ls (WStat [n]))\<lparr>d_scan := RiStart\<rparr>, (reading n ls (WStat [n]))\<lparr>d_scan := RiOpen [n]\<rparr>,
      reading n ls (WStat [n])]"
    using reading_mark_pos [OF assms]
    by (simp add: db_step_def db_run_simps reading_def db_start_def)
  from successively_rtranclp [OF this] show ?thesis by simp
qed

text \<open>
  The watcher of the cache directory races with the reader: with any settings there is a run in
  which the reader removes a file between the listing and the examination of the files, and the
  process panics.
\<close>

theorem diskbuffer_watcher_panics:
  assumes "settings_ok c"
  shows "\<exists>s. db_steps marshal unmarshal c (db_start [(n, [])] []) s
           \<and> d_crash s = Some (Panic ''invalid memory address or nil pointer dereference'')"
proof -
  let ?r = "reading n [] (WStat [n])"
  let ?e = "?r\<lparr>d_scan := RiCheck [], d_files := []\<rparr>"
  let ?p = "?e\<lparr>d_crash := Some (Panic ''invalid memory address or nil pointer dereference'')\<rparr>"
  have "successively (db_step marshal unmarshal c) [?r, ?e, ?p]"
    by (simp add: db_step_def db_run_simps reading_def db_start_def)
  from rtranclp_trans [OF start_reading [OF assms] successively_rtranclp [OF this]] show ?thesis by force
qed

text \<open>An emergency stop caused by the end of the input, while the file is being read.\<close>

definition rescuing :: "string \<Rightarrow> string list \<Rightarrow> string \<Rightarrow> string list \<Rightarrow> string list \<Rightarrow> 'm db" where
  "rescuing n file f rest saved = (reading n file (WStat [n]))\<lparr>d_feed := FDone, StopCacheFileWatcher := True,
     StopWritingNextSegment := True, StopDecider := True, EmergencyStop := True, read_high_on := False, ReadWriteWG := 2,
     d_scan := RiScan n rest [], d_main := RmEmerg f, d_files := [(n, file), (f, saved)]\<rparr>"

lemma stop_while_reading:
  assumes "l \<noteq> []" "length l < max_token" "f \<noteq> n"
  shows "db_steps marshal u c (reading n (l # ls) (WStat [n])) (rescuing n (l # ls) f ls [])"
proof -
  let ?h = "(reading n (l # ls) (WStat [n]))\<lparr>d_scan := RiScan n ls [], d_main := RmLine l\<rparr>"
  let ?x = "?h\<lparr>d_feed := FDone, StopCacheFileWatcher := True, StopWritingNextSegment := True, StopDecider := True\<rparr>"
  have "successively (db_step marshal u c)
     [reading n (l # ls) (WStat [n]), ?h, ?h\<lparr>d_feed := FCloseWatcher\<rparr>,
      ?h\<lparr>d_feed := FCloseNext, StopCacheFileWatcher := True\<rparr>,
      ?h\<lparr>d_feed := FCloseDecider, StopCacheFileWatcher := True, StopWritingNextSegment := True\<rparr>, ?x,
      ?x\<lparr>EmergencyStop := True, read_high_on := False, ReadWriteWG := 2\<rparr>, rescuing n (l # ls) f ls []]"
    using assms by (simp add: db_step_def db_run_simps reading_def db_start_def rescuing_def fresh_name_def)
  from successively_rtranclp [OF this] show ?thesis by simp
qed

lemma rescue_rest:
  assumes "\<forall>l\<in>set rest. l \<noteq> [] \<and> length l < max_token" "f \<noteq> n"
  shows "db_steps marshal u c (rescuing n file f rest saved) (rescuing n file f [] (saved @ map print_bytes rest))"
  using assms(1)
proof (induction rest arbitrary: saved)
  case (Cons l rest)
  have "db_step marshal u c (rescuing n file f (l # rest) saved) (rescuing n file f rest (saved @ [print_bytes l]))"
    using Cons.prems assms(2)
    by (simp add: db_step_def db_run_simps reading_def db_start_def rescuing_def append_lines_def print_bytes_lines)
  also have "db_steps marshal u c (rescuing n file f rest (saved @ [print_bytes l]))
      (rescuing n file f [] (saved @ map print_bytes (l # rest)))"
    using Cons.IH [of "saved @ [print_bytes l]"] Cons.prems by simp
  finally show ?case .
qed simp

lemma rescue_returns:
  assumes "f \<noteq> n"
  shows "\<exists>s. db_steps marshal u c (rescuing n file f [] saved) s \<and> d_main s = RmOff \<and> d_files s = [(f, saved)]
    \<and> d_in s = [] \<and> MemoryBuffer s = [] \<and> d_out s = [] \<and> d_feed s = FDone \<and> d_next s = NTop \<and> d_scan s = RiOff"
proof -
  let ?r = "(rescuing n file f [] saved)\<lparr>d_files := [(f, saved)]\<rparr>"
  let ?e = "(reader_returns ?r)"
  have "successively (db_step marshal u c)
     [rescuing n file f [] saved, ?r\<lparr>d_scan := RiCheck []\<rparr>, ?r\<lparr>d_scan := RiDone\<rparr>, ?e]"
    using assms by (simp add: db_step_def db_run_simps reading_def db_start_def rescuing_def reader_returns_def)
  from successively_rtranclp [OF this] show ?thesis
    by (intro exI [of _ ?e]) (simp add: reader_returns_def rescuing_def reading_def db_start_def)
qed

text \<open>
  The emergency stop loses every flow of the file being read: when the input ends in that
  moment there is a run in which the line at hand is dropped, the others are saved in a form that
  cannot be decoded, and the file is removed, so that no flow is left anywhere.
\<close>

theorem diskbuffer_emergency_loses:
  assumes "settings_ok c" "codec_ok marshal unmarshal"
    and "ls \<noteq> []" "\<forall>l\<in>set ls. unmarshal l \<noteq> None \<and> length l < max_token"
  shows "\<exists>s. db_steps marshal unmarshal c (db_start [(n, ls)] []) s
           \<and> size (db_flows unmarshal (db_start [(n, ls)] [])) = length ls \<and> db_flows unmarshal s = {#}"
proof -
  obtain l rest where ls: "ls = l # rest" using assms(3) by (cases ls) auto
  have ne: "\<forall>l\<in>set ls. l \<noteq> []" using assms(2,4) by (auto simp: codec_ok_def)
  define f where "f = n @ ''x''"
  have f: "f \<noteq> n" by (simp add: f_def)
  obtain s where s: "db_steps marshal unmarshal c (rescuing n ls f [] (map print_bytes rest)) s"
    "d_main s = RmOff" "d_files s = [(f, map print_bytes rest)]" "d_in s = []" "MemoryBuffer s = []" "d_out s = []"
    "d_feed s = FDone" "d_next s = NTop" "d_scan s = RiOff"
    using rescue_returns [OF f, of marshal unmarshal c ls "map print_bytes rest"] by blast
  have "db_steps marshal unmarshal c (db_start [(n, ls)] []) (reading n ls (WStat [n]))"
    by (rule start_reading [OF assms(1)])
  also have "db_steps marshal unmarshal c (reading n ls (WStat [n])) (rescuing n ls f rest [])"
    unfolding ls using ne assms(4) f by (intro stop_while_reading) (auto simp: ls)
  also have "db_steps marshal unmarshal c (rescuing n ls f rest []) (rescuing n ls f [] (map print_bytes rest))"
    using rescue_rest [of rest f n marshal unmarshal c ls "[]"] ne assms(4) f by (simp add: ls)
  also note s(1)
  finally have run: "db_steps marshal unmarshal c (db_start [(n, ls)] []) s" .
  have "line_flows unmarshal (map print_bytes rest) = {#}" for rest
    using assms(2) by (induction rest) (simp_all add: codec_ok_def print_bytes_def)
  then have gone: "db_flows unmarshal s = {#}" using s by (simp add: db_flows_def)
  have "size (line_flows unmarshal ls) = length ls" using assms(4)
    by (induction ls) auto
  then have "size (db_flows unmarshal (db_start [(n, ls)] [])) = length ls" by (simp add: db_flows_start)
  with run gone show ?thesis by blast
qed

section \<open>Termination of the writer\<close>

text \<open>What is left to do: flows in the queue first, then the place in the loop.\<close>

definition writer_rank :: "DiskBuffer \<Rightarrow> 'm db \<Rightarrow> nat \<times> nat" where
  "writer_rank c s = (length (MemoryBuffer s), case d_writer s of
       WrOff \<Rightarrow> 0 | WrCreate \<Rightarrow> 4 | WrTop _ \<Rightarrow> 2 | WrBatch _ i \<Rightarrow> if int i < BatchSize c then 1 else 3)"

lemma writer_rank_decreases:
  assumes "0 < BatchSize c" "WriteToDisk marshal c s s'"
  shows "(writer_rank c s', writer_rank c s) \<in> less_than <*lex*> less_than"
  using assms(2,1) by cases (simp_all add: writer_rank_def writer_returns_def)

text \<open>
  C32. Between two flows from outside, the loop of \<open>WriteToDisk\<close> makes finitely many steps, whatever
  the queue holds, exactly when the batch size is positive; with the accepted setting
  \<open>batchsize: 0\<close> it spins without writing anything.
\<close>

theorem diskbuffer_writer_terminates:
  "wf {(s', s). WriteToDisk marshal c s s'} \<longleftrightarrow> 0 < BatchSize c"
proof
  assume "0 < BatchSize c"
  then have "{(s', s). WriteToDisk marshal c s s'} \<subseteq> inv_image (less_than <*lex*> less_than) (writer_rank c)"
    by (auto intro: writer_rank_decreases)
  then show "wf {(s', s). WriteToDisk marshal c s s'}" by (rule wf_subset [rotated]) blast
next
  assume wf: "wf {(s', s). WriteToDisk marshal c s s'}"
  show "0 < BatchSize c"
  proof (rule ccontr)
    assume "\<not> 0 < BatchSize c"
    then have b: "\<not> int 0 < BatchSize c" by simp
    let ?s = "(db_start [(''f'', [])] [])\<lparr>d_writer := WrTop ''f''\<rparr> :: 'a db"
    let ?t = "(db_start [(''f'', [])] [])\<lparr>d_writer := WrBatch ''f'' 0\<rparr> :: 'a db"
    have "WriteToDisk marshal c ?s ?t" "WriteToDisk marshal c ?t ?s"
      using b by (simp_all add: WriteToDisk_simps db_start_def)
    then have "(?s, ?t) \<in> {(s', s). WriteToDisk marshal c s s'}" "(?t, ?s) \<in> {(s', s). WriteToDisk marshal c s s'}"
      by simp_all
    then show False using wf_not_sym [OF wf] by blast
  qed
qed

section \<open>Examples\<close>

definition db_default :: DiskBuffer where
  "db_default = \<lparr>BatchSize = 128, batch_debug = False, QueueStatusInterval = 0, FileSize = 50000000, BufferDir = ''d'',
     HighMemoryMark = 70, LowMemoryMark = 30, ReadingMemoryMark = 5, MaxCacheSize = 1000000000, Capacity = 65536\<rparr>"

lemma db_default_ok: "settings_ok db_default"
  by (simp add: settings_ok_def db_default_def max_chan_def)

text \<open>An encoding of characters that has the properties of \<open>protojson\<close>.\<close>

definition enc_char :: "char \<Rightarrow> string option" where
  "enc_char b = Some (if b = CHR 0x0A then ''{'' else [CHR ''{'', b])"

definition dec_char :: "string \<Rightarrow> char option" where
  "dec_char l = (case l of
       [a] \<Rightarrow> if a = CHR ''{'' then Some (CHR 0x0A) else None
     | [a, b] \<Rightarrow> if a = CHR ''{'' then Some b else None
     | _ \<Rightarrow> None)"

lemma char_codec: "codec_ok enc_char dec_char"
  by (auto simp: codec_ok_def enc_char_def dec_char_def split: list.splits)

definition db_queued :: "char db" where
  "db_queued = (db_start [(''f'', [''{f''])] [])\<lparr>MemoryBuffer := ''t''\<rparr>"

lemma queue_one: "successively (calm_step enc_char dec_char db_default)
   [db_start [(''f'', [''{f''])] ''t'', (db_start [(''f'', [''{f''])] [])\<lparr>d_feed := FSend (CHR ''t'')\<rparr>, db_queued]"
  by (simp add: calm_step_def db_step_def db_run_simps db_start_def db_queued_def fill_def db_default_def)

lemma queue_one_steps: "db_steps enc_char dec_char db_default (db_start [(''f'', [''{f''])] ''t'') db_queued"
proof -
  have "calm_step enc_char dec_char db_default \<le> db_step enc_char dec_char db_default"
    by (auto simp: calm_step_def)
  from rtranclp_mono [OF this] show ?thesis using successively_rtranclp [OF queue_one] by auto
qed

theorem diskbuffer_safe_witness:
  "int (length (MemoryBuffer db_queued)) \<le> Capacity db_default
   \<and> (d_writer db_queued = WrOff \<or> d_main db_queued = RmOff \<and> d_scan db_queued = RiOff)"
  using db_default_ok _ queue_one_steps by (rule diskbuffer_safe) simp

theorem diskbuffer_invents_nothing_witness:
  "db_flows dec_char db_queued \<subseteq># mset ''t'' + file_flows dec_char [(''f'', [''{f''])]"
  using db_default_ok _ char_codec queue_one_steps by (rule diskbuffer_invents_nothing) simp

theorem diskbuffer_conserves_witness:
  "db_flows dec_char db_queued = {#CHR ''t'', CHR ''f''#}"
proof -
  have "(calm_step enc_char dec_char db_default)\<^sup>*\<^sup>* (db_start [(''f'', [''{f''])] ''t'') db_queued"
    using successively_rtranclp [OF queue_one] by simp
  then have "db_flows dec_char db_queued = mset ''t'' + file_flows dec_char [(''f'', [''{f''])]"
    using diskbuffer_conserves [OF db_default_ok _ char_codec, of "[(''f'', [''{f''])]" "''t''" db_queued]
    by (simp del: line_flows_simps)
  then show ?thesis by (simp add: dec_char_def)
qed

theorem diskbuffer_can_hang_witness:
  "\<exists>s. db_steps enc_char dec_char db_default (db_start [] ''t'') s \<and> d_out s = ''t'' \<and> d_next s = NRecv
     \<and> \<not> db_finished s \<and> (\<forall>s'. \<not> db_step enc_char dec_char db_default s s')"
  using db_default_ok by (rule diskbuffer_can_hang) (simp add: db_default_def)

theorem diskbuffer_watcher_panics_witness:
  "\<exists>s. db_steps enc_char dec_char db_default (db_start [(''f'', [])] []) s
     \<and> d_crash s = Some (Panic ''invalid memory address or nil pointer dereference'')"
  using db_default_ok by (rule diskbuffer_watcher_panics)

theorem diskbuffer_emergency_loses_witness:
  "\<exists>s. db_steps enc_char dec_char db_default (db_start [(''f'', [''{t'', ''{f''])] []) s
     \<and> size (db_flows dec_char (db_start [(''f'', [''{t'', ''{f''])] [])) = 2 \<and> db_flows dec_char s = {#}"
  using diskbuffer_emergency_loses [OF db_default_ok char_codec, of "[''{t'', ''{f'']" "''f''"]
  by (simp add: dec_char_def max_token_def numeral_2_eq_2)

end
