(* ===== verification/DbOutputs.thy ===== *)
theory DbOutputs
  imports Reflection Segments
begin

text \<open>
  The database outputs \<open>sqlite\<close>, \<open>clickhouse\<close> and \<open>mongodb\<close> (\<open>segments/output\<close>). They forward every
  flow and store the flows in batches. The first two collect a batch in the loop over the input and
  insert it in one transaction; the contract they share is the locale \<open>batch_writer\<close>. \<open>mongodb\<close>
  hands a reused slice to a second goroutine.

  The databases are parameters: whether a connection can be opened, whether the \<open>n\<close>-th transaction
  can be started and whether a row is accepted. A store is the list of its committed transactions.
\<close>

section \<open>Batches\<close>

text \<open>The flows cut into pieces of the batch size; only the last piece may be shorter.\<close>

function chunks :: "nat \<Rightarrow> 'm list \<Rightarrow> 'm list list" where
  "chunks n xs = (if xs = [] then [] else if n = 0 then [xs] else take n xs # chunks n (drop n xs))"
  by pat_completeness auto
termination
  by (relation "measure (\<lambda>(n, xs). length xs)") auto

declare chunks.simps [simp del]

lemma chunks_Nil [simp]: "chunks n [] = []"
  by (subst chunks.simps) simp

lemma chunks_short: "xs \<noteq> [] \<Longrightarrow> length xs \<le> n \<Longrightarrow> chunks n xs = [xs]"
  by (subst chunks.simps) auto

lemma chunks_full: "0 < n \<Longrightarrow> length ys = n \<Longrightarrow> chunks n (ys @ xs) = ys # chunks n xs"
  by (subst chunks.simps) auto

lemma concat_chunks: "concat (chunks n xs) = xs"
  by (induction n xs rule: chunks.induct) (subst chunks.simps, auto)

lemma chunks_bound: "0 < n \<Longrightarrow> c \<in> set (chunks n xs) \<Longrightarrow> c \<noteq> [] \<and> length c \<le> n"
proof (induction n xs rule: chunks.induct)
  case (1 n xs)
  have "c \<in> set (if xs = [] then [] else if n = 0 then [xs] else take n xs # chunks n (drop n xs))"
    using 1(3) by (subst (asm) chunks.simps)
  then show ?case using 1(1,2) by (auto split: if_splits)
qed

text \<open>
  The contract of a segment that stores in batches: a flow is forwarded and joins the unsaved ones;
  when these reach the batch size they are committed together; what is left is committed at the end.
\<close>

locale batch_writer =
  fixes step :: "('s, 'm) step"
    and finish :: "'s \<Rightarrow> 's outcome"
    and conf :: "'s \<Rightarrow> 'c"
    and unsaved :: "'s \<Rightarrow> 'm list"
    and commits :: "'s \<Rightarrow> 'r list list"
    and row :: "'c \<Rightarrow> 'm \<Rightarrow> 'r"
    and batch :: "'c \<Rightarrow> nat"
    and ok :: "'c \<Rightarrow> bool"
  assumes batch_pos: "ok c \<Longrightarrow> 0 < batch c"
    and step_fill: "ok (conf s) \<Longrightarrow> Suc (length (unsaved s)) < batch (conf s) \<Longrightarrow>
      \<exists>s'. step s m = Inr ([Out m], s') \<and> conf s' = conf s \<and> unsaved s' = unsaved s @ [m] \<and> commits s' = commits s"
    and step_flush: "ok (conf s) \<Longrightarrow> batch (conf s) \<le> Suc (length (unsaved s)) \<Longrightarrow>
      \<exists>s'. step s m = Inr ([Out m], s') \<and> conf s' = conf s \<and> unsaved s' = []
         \<and> commits s' = commits s @ [map (row (conf s)) (unsaved s @ [m])]"
    and finish_flush: "ok (conf s) \<Longrightarrow>
      \<exists>s'. finish s = Inr s' \<and>
        commits s' = commits s @ map (map (row (conf s))) (if unsaved s = [] then [] else [unsaved s])"
begin

lemma run_stores:
  assumes "ok (conf s)" "length (unsaved s) < batch (conf s)"
  shows "\<exists>es s' s''. run_loop step s ms = Inr (es, s') \<and> outs es = ms \<and> drops es = [] \<and> finish s' = Inr s''
    \<and> commits s'' = commits s @ map (map (row (conf s))) (chunks (batch (conf s)) (unsaved s @ ms))"
  using assms
proof (induction ms arbitrary: s)
  case Nil
  then obtain s'' where "finish s = Inr s''"
    "commits s'' = commits s @ map (map (row (conf s))) (if unsaved s = [] then [] else [unsaved s])"
    using finish_flush by blast
  moreover have "(if unsaved s = [] then [] else [unsaved s]) = chunks (batch (conf s)) (unsaved s)"
    using chunks_short [of "unsaved s" "batch (conf s)"] Nil.prems(2) by simp
  ultimately show ?case by auto
next
  case (Cons m ms)
  show ?case
  proof (cases "Suc (length (unsaved s)) < batch (conf s)")
    case True
    then obtain s1 where 1: "step s m = Inr ([Out m], s1)" "conf s1 = conf s" "unsaved s1 = unsaved s @ [m]"
      "commits s1 = commits s" using step_fill Cons.prems(1) by blast
    with True obtain es s' s'' where "run_loop step s1 ms = Inr (es, s')" "outs es = ms" "drops es = []"
      "finish s' = Inr s''"
      "commits s'' = commits s @ map (map (row (conf s))) (chunks (batch (conf s)) (unsaved s @ m # ms))"
      using Cons.IH [of s1] Cons.prems(1) by auto
    with 1 show ?thesis by auto
  next
    case False
    then obtain s1 where 1: "step s m = Inr ([Out m], s1)" "conf s1 = conf s" "unsaved s1 = []"
      "commits s1 = commits s @ [map (row (conf s)) (unsaved s @ [m])]"
      using step_flush Cons.prems(1) by (metis not_less)
    then obtain es s' s'' where "run_loop step s1 ms = Inr (es, s')" "outs es = ms" "drops es = []"
      "finish s' = Inr s''"
      "commits s'' = commits s @ [map (row (conf s)) (unsaved s @ [m])] @ map (map (row (conf s))) (chunks (batch (conf s)) ms)"
      using Cons.IH [of s1] batch_pos Cons.prems(1) by auto
    moreover have "chunks (batch (conf s)) ((unsaved s @ [m]) @ ms) = (unsaved s @ [m]) # chunks (batch (conf s)) ms"
      using False Cons.prems batch_pos by (intro chunks_full) auto
    ultimately show ?thesis using 1 by auto
  qed
qed

end

text \<open>
  The store, and the transaction of a batch: when it cannot be started the error is logged, and the
  first use of the nil transaction panics; rows that are refused are logged and left out. The
  values of a row are computed by \<open>row\<close>, which may panic.
\<close>

record 'r store =
  committed :: "'r list list"
  begun :: nat

fun each :: "('m \<Rightarrow> 'r outcome) \<Rightarrow> 'm list \<Rightarrow> 'r list outcome" where
  "each row [] = Inr []"
| "each row (m # ms) =
     (case row m of Inl e \<Rightarrow> Inl e
      | Inr r \<Rightarrow> (case each row ms of Inl e \<Rightarrow> Inl e | Inr rs \<Rightarrow> Inr (r # rs)))"

lemma each_Inr: "(\<And>m. row m = Inr (f m)) \<Longrightarrow> each row ms = Inr (map f ms)"
  by (induction ms) auto

definition bulk_insert ::
  "(nat \<Rightarrow> bool) \<Rightarrow> ('r \<Rightarrow> bool) \<Rightarrow> ('m \<Rightarrow> 'r outcome) \<Rightarrow> 'm list \<Rightarrow> 'r store \<Rightarrow> 'r store outcome" where
  "bulk_insert begin_ok exec_ok row flows st =
     (if flows = [] then Inr st
      else if \<not> begin_ok (begun st) then Inl (Panic ''invalid memory address or nil pointer dereference'')
      else case each row flows of
             Inl e \<Rightarrow> Inl e
           | Inr rs \<Rightarrow> Inr \<lparr>committed = committed st @ [filter exec_ok rs], begun = Suc (begun st)\<rparr>)"

text \<open>The loop of \<open>Run\<close> that \<open>sqlite\<close> and \<open>clickhouse\<close> share, with their \<open>bulkInsert\<close> as \<open>save\<close>.\<close>

record ('c, 'm, 'r) batching =
  settings :: 'c
  unsaved_flows :: "'m list"
  database :: "'r store"

definition batching_step ::
  "('c \<Rightarrow> 'm list \<Rightarrow> 'r store \<Rightarrow> 'r store outcome) \<Rightarrow> ('c \<Rightarrow> int) \<Rightarrow> (('c, 'm, 'r) batching, 'm) step" where
  "batching_step save bsize s m =
     (let unsaved = unsaved_flows s @ [m] in
      if int (length unsaved) \<ge> bsize (settings s)
      then (case save (settings s) unsaved (database s) of
              Inl e \<Rightarrow> Inl e
            | Inr db \<Rightarrow> Inr ([Out m], s\<lparr>unsaved_flows := [], database := db\<rparr>))
      else Inr ([Out m], s\<lparr>unsaved_flows := unsaved\<rparr>))"

definition batching_finish ::
  "('c \<Rightarrow> 'm list \<Rightarrow> 'r store \<Rightarrow> 'r store outcome) \<Rightarrow> ('c, 'm, 'r) batching \<Rightarrow> ('c, 'm, 'r) batching outcome" where
  "batching_finish save s =
     (case save (settings s) (unsaved_flows s) (database s) of
        Inl e \<Rightarrow> Inl e | Inr db \<Rightarrow> Inr (s\<lparr>database := db\<rparr>))"

definition batching_Run ::
  "('c \<Rightarrow> 'm list \<Rightarrow> 'r store \<Rightarrow> 'r store outcome) \<Rightarrow> ('c \<Rightarrow> int) \<Rightarrow> 'c \<Rightarrow> 'm list \<Rightarrow>
   ('m event list \<times> 'r list list) outcome" where
  "batching_Run save bsize c ms =
     (case run_loop (batching_step save bsize)
            \<lparr>settings = c, unsaved_flows = [], database = \<lparr>committed = [], begun = 1\<rparr>\<rparr> ms of
        Inl e \<Rightarrow> Inl e
      | Inr (es, s) \<Rightarrow>
          (case batching_finish save s of Inl e \<Rightarrow> Inl e | Inr s' \<Rightarrow> Inr (es, committed (database s'))))"

lemma bulk_insert_ok:
  assumes "\<And>m. row m = Inr (f m)"
  shows "bulk_insert (\<lambda>_. True) (\<lambda>_. True) row flows st =
    Inr (if flows = [] then st else \<lparr>committed = committed st @ [map f flows], begun = Suc (begun st)\<rparr>)"
  using assms by (simp add: bulk_insert_def each_Inr)

text \<open>A working database and rows that can be computed give the contract.\<close>

lemma batching_contract:
  assumes "\<And>c. ok c \<Longrightarrow> 0 < bsize c"
    and "\<And>c flows st. ok c \<Longrightarrow> save c flows st =
      Inr (if flows = [] then st else \<lparr>committed = committed st @ [map (f c) flows], begun = Suc (begun st)\<rparr>)"
  shows "batch_writer (batching_step save bsize) (batching_finish save) settings unsaved_flows
    (\<lambda>s. committed (database s)) f (\<lambda>c. nat (bsize c)) ok"
  using assms by unfold_locales (auto simp: batching_step_def batching_finish_def Let_def)

section \<open>sqlite\<close>

record Sqlite =
  sq_fieldTypes :: "string list"
  sq_fieldNames :: "string list"
  sq_createStatement :: string
  sq_insertStatement :: string
  sq_FileName :: string
  sq_BatchSize :: int

text \<open>The option \<open>batchsize\<close>: the default when it cannot be parsed, no segment when it is not positive.\<close>

definition sqlite_batchsize :: "string \<Rightarrow> int option" where
  "sqlite_batchsize v =
     (if v \<noteq> [] then (case parse_int 32 v of
                        Some n \<Rightarrow> if n \<le> 0 then None else Some n
                      | None \<Rightarrow> Some 1000)
      else Some 1000)"

definition sqlite_column :: "string \<Rightarrow> string \<Rightarrow> string" where
  "sqlite_column name type = name @ (if type = ''uint64'' \<or> type = ''uint32'' then '' INTEGER'' else '' TEXT'')"

definition sqlite_create :: "string list \<Rightarrow> string list \<Rightarrow> string" where
  "sqlite_create names types =
     ''CREATE TABLE IF NOT EXISTS flows ('' @ join_with '','' (map2 sqlite_column names types) @ '');''"

definition sqlite_insert :: "string list \<Rightarrow> string" where
  "sqlite_insert names =
     ''INSERT INTO flows ('' @ join_with '','' names @ '') VALUES ('' @ join_with '','' (map (\<lambda>_. ''?'') names) @ '')''"

definition Sqlite_New :: "(string \<Rightarrow> bool) \<Rightarrow> config_map \<Rightarrow> Sqlite option" where
  "Sqlite_New open_ok config =
     (if cfg config ''filename'' = [] then None
      else if \<not> open_ok (cfg config ''filename'') then None
      else case sqlite_batchsize (cfg config ''batchsize'') of
        None \<Rightarrow> None
      | Some bsize \<Rightarrow>
          (case choose_fields (\<lambda>f. f) (cfg config ''fields'') of
             None \<Rightarrow> None
           | Some names \<Rightarrow>
               let types = map field_type names in
               Some \<lparr>sq_fieldTypes = types, sq_fieldNames = names,
                     sq_createStatement = sqlite_create names types, sq_insertStatement = sqlite_insert names,
                     sq_FileName = cfg config ''filename'', sq_BatchSize = bsize\<rparr>))"

definition Sqlite_bulkInsert ::
  "(nat \<Rightarrow> bool) \<Rightarrow> (string list \<Rightarrow> bool) \<Rightarrow> Sqlite \<Rightarrow> EnrichedFlow list \<Rightarrow> string list store \<Rightarrow> string list store outcome"
where
  "Sqlite_bulkInsert begin_ok exec_ok seg = bulk_insert begin_ok exec_ok (flow_record (sq_fieldNames seg))"

text \<open>
  \<open>Run\<close>: the table is created in a first transaction, and each of its errors panics; then the loop,
  and the rest after it.
\<close>

definition Sqlite_Run ::
  "bool \<Rightarrow> bool \<Rightarrow> (nat \<Rightarrow> bool) \<Rightarrow> (string list \<Rightarrow> bool) \<Rightarrow> Sqlite \<Rightarrow> EnrichedFlow list \<Rightarrow>
   (EnrichedFlow event list \<times> string list list list) outcome"
where
  "Sqlite_Run opened created begin_ok exec_ok seg ms =
     (if \<not> opened then Inl (Panic ''Sqlite: Failed opening DB'')
      else if \<not> begin_ok 0 then Inl (Panic ''Sqlite: Could not start initiation transaction'')
      else if \<not> created then Inl (Panic ''Sqlite: Could not create database, check field configuration'')
      else batching_Run (Sqlite_bulkInsert begin_ok exec_ok) sq_BatchSize seg ms)"

definition sqlite_ok :: "Sqlite \<Rightarrow> bool" where
  "sqlite_ok seg \<longleftrightarrow> 0 < sq_BatchSize seg \<and> list_all field_exists (sq_fieldNames seg)"

lemma Sqlite_New_ok: "Sqlite_New open_ok config = Some seg \<Longrightarrow> sqlite_ok seg"
  by (auto simp: sqlite_ok_def Sqlite_New_def sqlite_batchsize_def Let_def choose_fields_exist split: if_splits option.splits)

interpretation sqlite: batch_writer "batching_step (Sqlite_bulkInsert (\<lambda>_. True) (\<lambda>_. True)) sq_BatchSize"
  "batching_finish (Sqlite_bulkInsert (\<lambda>_. True) (\<lambda>_. True))" settings unsaved_flows "\<lambda>s. committed (database s)"
  "\<lambda>seg. flow_texts (sq_fieldNames seg)" "\<lambda>seg. nat (sq_BatchSize seg)" sqlite_ok
  by (rule batching_contract) (simp_all add: sqlite_ok_def Sqlite_bulkInsert_def bulk_insert_ok flow_record_ok)

lemma sqlite_run:
  assumes "Sqlite_New open_ok config = Some seg"
  shows "\<exists>es. Sqlite_Run True True (\<lambda>_. True) (\<lambda>_. True) seg ms
             = Inr (es, map (map (flow_texts (sq_fieldNames seg))) (chunks (nat (sq_BatchSize seg)) ms))
           \<and> outs es = ms \<and> drops es = []"
proof -
  have ok: "sqlite_ok seg" using assms by (rule Sqlite_New_ok)
  let ?s = "\<lparr>settings = seg, unsaved_flows = [], database = \<lparr>committed = [], begun = 1\<rparr>\<rparr>"
  from sqlite.run_stores [of ?s ms] ok show ?thesis
    by (fastforce simp: Sqlite_Run_def batching_Run_def sqlite_ok_def)
qed

lemma sqlite_table:
  assumes "Sqlite_New open_ok config = Some seg" "Sqlite_Run True True (\<lambda>_. True) (\<lambda>_. True) seg ms = Inr (es, tbl)"
  shows "tbl = map (map (flow_texts (sq_fieldNames seg))) (chunks (nat (sq_BatchSize seg)) ms)"
  using sqlite_run [OF assms(1), of ms] assms(2) by auto

text \<open>
  C19. A \<open>sqlite\<close> segment that could be configured, on a working database, forwards every flow and
  stores every flow: row by row the texts of the chosen fields, in the order of arrival, one
  transaction for each full batch and one for the rest.
\<close>

theorem sqlite_stores_all:
  assumes "Sqlite_New open_ok config = Some seg"
  shows "\<exists>es. Sqlite_Run True True (\<lambda>_. True) (\<lambda>_. True) seg ms
             = Inr (es, map (map (flow_texts (sq_fieldNames seg))) (chunks (nat (sq_BatchSize seg)) ms))
           \<and> outs es = ms \<and> drops es = []"
  using assms by (rule sqlite_run)

definition sqlite_demo :: config_map where
  "sqlite_demo = [''filename'' \<mapsto> ''x.sqlite'', ''batchsize'' \<mapsto> ''2'', ''fields'' \<mapsto> ''Bytes,Note'']"

lemma sqlite_demo_New:
  "\<exists>seg. Sqlite_New (\<lambda>_. True) sqlite_demo = Some seg \<and> sq_BatchSize seg = 2 \<and> sq_fieldNames seg = [''Bytes'', ''Note'']"
proof -
  have "split_on (CHR '','') ''Bytes,Note'' = [''Bytes'', ''Note'']" by code_simp
  moreover have "parse_int 32 ''2'' = Some 2" by (simp add: parse_int_def digit_val_def)
  moreover have "field_exists ''Bytes'' \<and> field_exists ''Note''"
    by (simp add: known_fields)
  ultimately show ?thesis
    by (simp add: Sqlite_New_def sqlite_demo_def sqlite_batchsize_def choose_fields_def Let_def)
qed

theorem sqlite_stores_all_witness:
  "\<exists>seg es. Sqlite_New (\<lambda>_. True) sqlite_demo = Some seg
     \<and> Sqlite_Run True True (\<lambda>_. True) (\<lambda>_. True) seg [zero_flow\<lparr>Note := ''a''\<rparr>]
         = Inr (es, [[[''0'', ''a'']]]) \<and> outs es = [zero_flow\<lparr>Note := ''a''\<rparr>]"
proof -
  obtain seg where seg: "Sqlite_New (\<lambda>_. True) sqlite_demo = Some seg" "sq_BatchSize seg = 2"
    "sq_fieldNames seg = [''Bytes'', ''Note'']" using sqlite_demo_New by blast
  have z: "dec 0 = ''0''" by code_simp
  have b: "FieldByName f ''Bytes'' = Some (GUint64 (Bytes f))" "FieldByName f ''Note'' = Some (GString (Note f))" for f
    by (simp_all add: known_fields)
  have "flow_texts [''Bytes'', ''Note''] (zero_flow\<lparr>Note := ''a''\<rparr>) = [''0'', ''a'']"
    by (simp add: flow_texts_def b z) (simp add: zero_flow_def z)
  then have t: "flow_texts (sq_fieldNames seg) (zero_flow\<lparr>Note := ''a''\<rparr>) = [''0'', ''a'']"
    by (simp only: seg(3))
  obtain es where "Sqlite_Run True True (\<lambda>_. True) (\<lambda>_. True) seg [zero_flow\<lparr>Note := ''a''\<rparr>]
      = Inr (es, map (map (flow_texts (sq_fieldNames seg))) (chunks (nat (sq_BatchSize seg)) [zero_flow\<lparr>Note := ''a''\<rparr>]))"
    "outs es = [zero_flow\<lparr>Note := ''a''\<rparr>]"
    using sqlite_stores_all [OF seg(1), of "[zero_flow\<lparr>Note := ''a''\<rparr>]"] by blast
  moreover have "chunks (nat (sq_BatchSize seg)) [m] = [[m]]" for m :: EnrichedFlow
    using seg(2) by (intro chunks_short) simp_all
  ultimately show ?thesis using seg(1) by (simp only: t list.map) blast
qed

text \<open>
  A transaction that cannot be started is not survived: the error is only logged, and the nil
  transaction is used, so the first full batch ends the process.
\<close>

theorem sqlite_begin_failure_panics:
  assumes "Sqlite_New open_ok config = Some seg" "\<not> begin_ok 1" "begin_ok 0"
    and "int (length ms) \<ge> sq_BatchSize seg"
  shows "\<exists>e. Sqlite_Run True True begin_ok exec_ok seg ms = Inl (Panic e)"
proof -
  have pos: "0 < sq_BatchSize seg" using Sqlite_New_ok [OF assms(1)] by (simp add: sqlite_ok_def)
  have "\<exists>e. run_loop (batching_step (Sqlite_bulkInsert begin_ok exec_ok) sq_BatchSize) s ms = Inl (Panic e)"
    if "settings s = seg" "begun (database s) = 1" "int (length (unsaved_flows s) + length ms) \<ge> sq_BatchSize seg"
      "int (length (unsaved_flows s)) < sq_BatchSize seg" for s
    using that
  proof (induction ms arbitrary: s)
    case (Cons m ms)
    show ?case
    proof (cases "int (length (unsaved_flows s)) + 1 \<ge> sq_BatchSize seg")
      case True
      then have "batching_step (Sqlite_bulkInsert begin_ok exec_ok) sq_BatchSize s m
        = Inl (Panic ''invalid memory address or nil pointer dereference'')"
        using Cons.prems assms(2)
        by (simp add: batching_step_def Let_def Sqlite_bulkInsert_def bulk_insert_def)
      then show ?thesis by simp
    next
      case False
      then have "batching_step (Sqlite_bulkInsert begin_ok exec_ok) sq_BatchSize s m
        = Inr ([Out m], s\<lparr>unsaved_flows := unsaved_flows s @ [m]\<rparr>)"
        using Cons.prems by (simp add: batching_step_def Let_def)
      moreover obtain e where "run_loop (batching_step (Sqlite_bulkInsert begin_ok exec_ok) sq_BatchSize)
          (s\<lparr>unsaved_flows := unsaved_flows s @ [m]\<rparr>) ms = Inl (Panic e)"
        using Cons.IH [of "s\<lparr>unsaved_flows := unsaved_flows s @ [m]\<rparr>"] Cons.prems False by auto
      ultimately show ?thesis by simp
    qed
  qed simp
  from this [of "\<lparr>settings = seg, unsaved_flows = [], database = \<lparr>committed = [], begun = 1\<rparr>\<rparr>"]
  show ?thesis using assms(3,4) pos by (auto simp: Sqlite_Run_def batching_Run_def)
qed

theorem sqlite_begin_failure_panics_witness:
  "\<exists>seg e. Sqlite_New (\<lambda>_. True) sqlite_demo = Some seg
     \<and> Sqlite_Run True True (\<lambda>n. n = 0) (\<lambda>_. True) seg [zero_flow, zero_flow] = Inl (Panic e)"
proof -
  obtain seg where seg: "Sqlite_New (\<lambda>_. True) sqlite_demo = Some seg" "sq_BatchSize seg = 2"
    using sqlite_demo_New by blast
  then show ?thesis
    using sqlite_begin_failure_panics [OF seg(1), of "\<lambda>n. n = 0" "[zero_flow, zero_flow]" "\<lambda>_. True"] by auto
qed

section \<open>clickhouse\<close>

record Clickhouse =
  ch_DSN :: string
  ch_Preset :: string
  ch_BatchSize :: int

definition clickhouse_batchsize :: "string \<Rightarrow> int option" where
  "clickhouse_batchsize v =
     (if v \<noteq> [] then (case parse_uint 32 v of
                        Some n \<Rightarrow> if n = 0 then None else Some (int n)
                      | None \<Rightarrow> Some 1000)
      else Some 1000)"

text \<open>\<open>New\<close>; the statements it prepares for the preset \<open>flowhouse\<close> are constants.\<close>

definition Clickhouse_New :: "config_map \<Rightarrow> Clickhouse option" where
  "Clickhouse_New config =
     (if cfg config ''dsn'' = [] then None
      else case clickhouse_batchsize (cfg config ''batchsize'') of
        None \<Rightarrow> None
      | Some bsize \<Rightarrow>
          if to_lower (cfg config ''preset'') = ''flowhouse''
          then Some \<lparr>ch_DSN = cfg config ''dsn'', ch_Preset = to_lower (cfg config ''preset''), ch_BatchSize = bsize\<rparr>
          else None)"

text \<open>A row of the table \<open>flows\<close>. \<open>net.IPNet{IP: ip, Mask: mask}.IP\<close> is \<open>ip\<close>.\<close>

record flowhouse =
  agent :: byte_slice
  int_in :: string
  int_out :: string
  src_ip_addr :: byte_slice
  dst_ip_addr :: byte_slice
  src_ip_pfx_addr :: byte_slice
  src_ip_pfx_len :: u8
  dst_ip_pfx_addr :: byte_slice
  dst_ip_pfx_len :: u8
  nexthop :: byte_slice
  next_asn :: u32
  src_asn :: u32
  dst_asn :: u32
  ip_protocol :: u8
  src_port :: u16
  dst_port :: u16
  row_size :: u64
  row_packets :: u64
  samplerate :: u64

record ipnet = net_IP :: byte_slice  net_Mask :: "u8 list"

definition flowhouse_prefix :: "EnrichedFlow \<Rightarrow> byte_slice \<Rightarrow> u32 \<Rightarrow> byte_slice" where
  "flowhouse_prefix m addr len =
     (let bits = (if IsIPv6 m then 32 - len else 128 - len)
      in net_IP \<lparr>net_IP = addr, net_Mask = CIDRMask (uint len) (uint bits)\<rparr>)"

text \<open>The time stamp of a row is the wall clock and left out.\<close>

definition flowhouse_row :: "EnrichedFlow \<Rightarrow> flowhouse" where
  "flowhouse_row m =
     \<lparr>agent = SamplerAddress m, int_in = SrcIfDesc m, int_out = DstIfDesc m,
      src_ip_addr = SrcAddr m, dst_ip_addr = DstAddr m,
      src_ip_pfx_addr = flowhouse_prefix m (SrcAddr m) (SrcNet m), src_ip_pfx_len = ucast (SrcNet m),
      dst_ip_pfx_addr = flowhouse_prefix m (DstAddr m) (DstNet m), dst_ip_pfx_len = ucast (DstNet m),
      nexthop = NextHop m, next_asn = NextHopAs m, src_asn = SrcAs m, dst_asn = DstAs m,
      ip_protocol = ucast (Proto m), src_port = ucast (SrcPort m), dst_port = ucast (DstPort m),
      row_size = Bytes m, row_packets = Packets m, samplerate = SamplingRate m\<rparr>"

definition bulkInsertFlowhouse ::
  "(nat \<Rightarrow> bool) \<Rightarrow> (flowhouse \<Rightarrow> bool) \<Rightarrow> Clickhouse \<Rightarrow> EnrichedFlow list \<Rightarrow> flowhouse store \<Rightarrow> flowhouse store outcome"
where
  "bulkInsertFlowhouse begin_ok exec_ok seg = bulk_insert begin_ok exec_ok (\<lambda>m. Inr (flowhouse_row m))"

definition Clickhouse_Run ::
  "bool \<Rightarrow> bool \<Rightarrow> (nat \<Rightarrow> bool) \<Rightarrow> (flowhouse \<Rightarrow> bool) \<Rightarrow> Clickhouse \<Rightarrow> EnrichedFlow list \<Rightarrow>
   (EnrichedFlow event list \<times> flowhouse list list) outcome"
where
  "Clickhouse_Run opened created begin_ok exec_ok seg ms =
     (if \<not> opened then Inl (Panic ''Clickhouse: Could not open database with error'')
      else if \<not> begin_ok 0 then Inl (Panic ''Clickhouse: Could not start initiation transaction with error'')
      else if \<not> created then Inl (Panic ''Clickhouse: Could not create database, check field configuration'')
      else batching_Run (bulkInsertFlowhouse begin_ok exec_ok) ch_BatchSize seg ms)"

interpretation clickhouse: batch_writer "batching_step (bulkInsertFlowhouse (\<lambda>_. True) (\<lambda>_. True)) ch_BatchSize"
  "batching_finish (bulkInsertFlowhouse (\<lambda>_. True) (\<lambda>_. True))" settings unsaved_flows "\<lambda>s. committed (database s)"
  "\<lambda>_. flowhouse_row" "\<lambda>seg. nat (ch_BatchSize seg)" "\<lambda>seg. 0 < ch_BatchSize seg"
  by (rule batching_contract) (simp_all add: bulkInsertFlowhouse_def bulk_insert_ok)

lemma Clickhouse_New_size: "Clickhouse_New config = Some seg \<Longrightarrow> 0 < ch_BatchSize seg"
  by (auto simp: Clickhouse_New_def clickhouse_batchsize_def split: if_splits option.splits)

text \<open>
  A \<open>clickhouse\<close> segment on a working database forwards every flow and stores a row for every
  flow, in the order of arrival and in batches of the configured size; the prefix columns of a row
  hold the whole addresses.
\<close>

theorem clickhouse_stores_all:
  assumes "Clickhouse_New config = Some seg"
  shows "\<exists>es rows. Clickhouse_Run True True (\<lambda>_. True) (\<lambda>_. True) seg ms = Inr (es, rows)
           \<and> rows = map (map flowhouse_row) (chunks (nat (ch_BatchSize seg)) ms) \<and> outs es = ms
           \<and> (\<forall>r\<in>set (concat rows). src_ip_pfx_addr r = src_ip_addr r \<and> dst_ip_pfx_addr r = dst_ip_addr r)"
proof -
  have pfx: "src_ip_pfx_addr (flowhouse_row m) = src_ip_addr (flowhouse_row m)
      \<and> dst_ip_pfx_addr (flowhouse_row m) = dst_ip_addr (flowhouse_row m)" for m
    by (simp add: flowhouse_row_def flowhouse_prefix_def Let_def)
  let ?s = "\<lparr>settings = seg, unsaved_flows = [], database = \<lparr>committed = [], begun = 1\<rparr>\<rparr>"
  from clickhouse.run_stores [of ?s ms] Clickhouse_New_size [OF assms] show ?thesis
    by (fastforce simp: Clickhouse_Run_def batching_Run_def pfx)
qed

theorem clickhouse_stores_all_witness:
  "\<exists>es rows. Clickhouse_Run True True (\<lambda>_. True) (\<lambda>_. True)
       \<lparr>ch_DSN = ''d'', ch_Preset = ''flowhouse'', ch_BatchSize = 1000\<rparr> [zero_flow] = Inr (es, rows)
     \<and> rows = [[flowhouse_row zero_flow]] \<and> outs es = [zero_flow]"
proof -
  have "Clickhouse_New [''dsn'' \<mapsto> ''d'', ''preset'' \<mapsto> ''flowhouse'']
      = Some \<lparr>ch_DSN = ''d'', ch_Preset = ''flowhouse'', ch_BatchSize = 1000\<rparr>"
    by code_simp
  from clickhouse_stores_all [OF this, of "[zero_flow]"] show ?thesis by (auto simp: chunks_short)
qed

end
