(* ===== verification/Mongo.thy ===== *)
theory Mongo
  imports Reflection Segments
begin

text \<open>
  The output \<open>mongodb\<close> (\<open>segments/output/mongodb/mongo.go\<close>): its configuration, the size notation of
  \<open>max_disk_usage\<close>, the capping of the collection, and the three goroutines that forward, format and
  insert the flows. The slice that carries a batch to the inserting goroutine is the one the
  formatting goroutine goes on writing to; the model keeps this one array as shared state.
\<close>

section \<open>Configuration\<close>

text \<open>\<open>int64\<close> arithmetic wraps around.\<close>

definition wrap64 :: "int \<Rightarrow> int" where
  "wrap64 n = sint (word_of_int n :: u64)"

definition size_unit :: "string \<Rightarrow> int option" where
  "size_unit unit =
     (if unit = ''B'' then Some 1
      else if unit = ''KB'' then Some 1024
      else if unit = ''MB'' then Some (1024 ^ 2)
      else if unit = ''GB'' then Some (1024 ^ 3)
      else if unit = ''TB'' then Some (1024 ^ 4)
      else None)"

definition sizeInBytes :: "string \<Rightarrow> int option" where
  "sizeInBytes sizeStr =
     (let parts = Prelude.fields sizeStr in
      if length parts > 2 \<or> length parts < 1 then None
      else case parse_int 64 (parts ! 0) of
        None \<Rightarrow> None
      | Some n \<Rightarrow>
          if length parts = 1 then Some n
          else (case size_unit (to_upper (parts ! 1)) of None \<Rightarrow> None | Some k \<Rightarrow> Some (wrap64 (n * k))))"

record Mongodb =
  mongodbUri :: string
  databaseName :: string
  collectionName :: string
  ringbufferSize :: int
  mg_BatchSize :: int
  mg_fieldNames :: "string list"

definition or_default :: "string \<Rightarrow> string \<Rightarrow> string" where
  "or_default v dflt = (if v = [] then dflt else v)"

definition mongo_batchsize :: "string \<Rightarrow> int option" where
  "mongo_batchsize v =
     (if v \<noteq> [] then (case parse_int 32 v of
                        Some n \<Rightarrow> if n \<le> 0 then None else Some n
                      | None \<Rightarrow> Some 1000)
      else Some 1000)"

text \<open>The nil map is \<open>None\<close>; \<open>Inl\<close> is the returned error.\<close>

definition fillSegmentWithConfig :: "config_map option \<Rightarrow> string + Mongodb" where
  "fillSegmentWithConfig config =
     (case config of
        None \<Rightarrow> Inl ''MongoDB: missing configuration for segment mongodb''
      | Some c \<Rightarrow>
          if cfg c ''mongodb_uri'' = [] then Inl ''MongoDB: Mongodb_uri not defined''
          else
            let ring = (if cfg c ''max_disk_usage'' = [] then 10737418240
                        else case sizeInBytes (cfg c ''max_disk_usage'') of Some n \<Rightarrow> n | None \<Rightarrow> 10737418240)
            in case mongo_batchsize (cfg c ''batchsize'') of
                 None \<Rightarrow> Inl ''MongoDB: Batch size <= 0 is not allowed. Set this in relation to the expected flows per second''
               | Some b \<Rightarrow>
                   (case choose_fields (\<lambda>f. f) (cfg c ''fields'') of
                      None \<Rightarrow> Inl ''MongoDB: Field specified in fields does not exist''
                    | Some names \<Rightarrow>
                        Inr \<lparr>mongodbUri = cfg c ''mongodb_uri'',
                             databaseName = or_default (cfg c ''database'') ''flowdata'',
                             collectionName = or_default (cfg c ''collection'') ''ringbuffer'',
                             ringbufferSize = ring, mg_BatchSize = b, mg_fieldNames = names\<rparr>))"

text \<open>
  The commands sent to the server to cap the collection; \<open>stats\<close> is the answer to \<open>collStats\<close>
  (\<open>None\<close> for an error).
\<close>

record coll_info =
  Capped :: bool
  MaxSize :: int
  Count :: int

datatype mongo_command = CreateCapped string int | ConvertToCapped string int | CollMod string int

definition convertToCappedCollection :: "coll_info option \<Rightarrow> Mongodb \<Rightarrow> mongo_command list" where
  "convertToCappedCollection stats seg =
     (case stats of
        None \<Rightarrow> []
      | Some info \<Rightarrow>
          if Count info = 0 then [CreateCapped (collectionName seg) (ringbufferSize seg)]
          else if \<not> Capped info then [ConvertToCapped (collectionName seg) (ringbufferSize seg)]
          else if MaxSize info \<noteq> ringbufferSize seg then [CollMod (collectionName seg) (ringbufferSize seg)]
          else [])"

text \<open>\<open>New\<close>: \<open>connects\<close> says whether the server answers. The result of the capping is ignored.\<close>

definition Mongodb_New ::
  "(string \<Rightarrow> bool) \<Rightarrow> (Mongodb \<Rightarrow> coll_info option) \<Rightarrow> config_map option \<Rightarrow> (Mongodb \<times> mongo_command list) option" where
  "Mongodb_New connects stats config =
     (case fillSegmentWithConfig config of
        Inl _ \<Rightarrow> None
      | Inr seg \<Rightarrow>
          if connects (mongodbUri seg) then Some (seg, convertToCappedCollection (stats seg) seg) else None)"

text \<open>
  The document of a flow: the map from field names to texts. The texts are those of \<open>sqlite\<close>; unlike
  there, a repeated name gives one entry.
\<close>

definition formatFlowToMongoDbJson :: "EnrichedFlow \<Rightarrow> Mongodb \<Rightarrow> (string \<rightharpoonup> string)" where
  "formatFlowToMongoDbJson msg seg =
     (\<lambda>n. if n \<in> set (mg_fieldNames seg) then map_option field_text (FieldByName msg n) else None)"

lemma fillSegmentWithConfig_ok:
  "fillSegmentWithConfig config = Inr seg \<Longrightarrow> 0 < mg_BatchSize seg \<and> list_all field_exists (mg_fieldNames seg)"
  by (auto simp: fillSegmentWithConfig_def mongo_batchsize_def Let_def choose_fields_exist
      split: if_splits option.splits)

lemma mongo_document: "list_all field_exists (mg_fieldNames seg) \<Longrightarrow>
   dom (formatFlowToMongoDbJson m seg) = set (mg_fieldNames seg)"
  using FieldByName_exists [of _ m] by (auto simp: formatFlowToMongoDbJson_def list_all_iff split: if_splits)

lemma parse_int_dec: "n < 2 ^ (bits - 1) \<Longrightarrow> parse_int bits (dec n) = Some (int n)"
proof -
  assume n: "n < 2 ^ (bits - 1)"
  have "hd (dec n) \<in> set (dec n)" by simp
  then obtain d where "d < 10" "hd (dec n) = digit_char d" using dec_digits by blast
  then have d: "digit_val (hd (dec n)) \<noteq> None" by simp
  have "digit_val (CHR ''-'') = None" "digit_val (CHR ''+'') = None" by (simp_all add: digit_val_def)
  with d have "hd (dec n) \<noteq> CHR ''-''" "hd (dec n) \<noteq> CHR ''+''" by metis+
  moreover have "parse_digits 0 (dec n) = Some n" by (simp add: dec_def parse_digits_dec)
  ultimately show ?thesis using n by (simp add: parse_int_def)
qed

lemma wrap64_small: "- (2 ^ 63) \<le> n \<Longrightarrow> n < 2 ^ 63 \<Longrightarrow> wrap64 n = n"
  by (simp add: wrap64_def sint_sbintrunc' signed_take_bit_int_eq_self)

text \<open>
  Sizes in the notation \<open>number unit\<close>: the unit may be written in any case, the result is the
  product as long as it fits 64 bits, and a number alone is a number of bytes.
\<close>

theorem mongodb_sizes:
  assumes "size_unit (to_upper u) = Some k" "int n * k < 2 ^ 63" "\<forall>c\<in>set u. \<not> is_space c"
  shows "sizeInBytes (dec n @ '' '' @ u) = Some (int n * k) \<and> sizeInBytes (dec n) = Some (int n)"
proof -
  have k: "1 \<le> k" using assms(1) by (auto simp: size_unit_def split: if_splits)
  have ne: "u \<noteq> []" using assms(1) by (auto simp: size_unit_def to_upper_def split: if_splits)
  have n: "int n * 1 \<le> int n * k" using k by (intro mult_left_mono) auto
  then have "int n < 2 ^ 63" using assms(2) by linarith
  then have n63: "n < 2 ^ 63" by simp
  have p: "parse_int 64 (dec n) = Some (int n)" using n63 by (intro parse_int_dec) simp
  have f: "Prelude.fields (join_with '' '' [dec n, u]) = [dec n, u]" "Prelude.fields (join_with '' '' [dec n]) = [dec n]"
    using assms(3) ne dec_not_space by (intro fields_join; auto)+
  have w: "wrap64 (int n * k) = int n * k" using assms(2) k by (intro wrap64_small) (auto intro: order_trans [of _ 0])
  show ?thesis using f p w assms(1) by (simp add: sizeInBytes_def Let_def)
qed

theorem mongodb_sizes_witness:
  "sizeInBytes (dec 10 @ '' '' @ ''gb'') = Some (int 10 * 1024 ^ 3) \<and> sizeInBytes (dec 10) = Some (int 10)"
proof -
  have "to_upper ''gb'' = ''GB''" by code_simp
  then have "size_unit (to_upper ''gb'') = Some (1024 ^ 3)" by (simp add: size_unit_def)
  then show ?thesis by (rule mongodb_sizes) (simp_all add: is_space_def)
qed

section \<open>The goroutines\<close>

text \<open>
  \<open>Run\<close> hands every flow to \<open>prepareDataForBulkInsert\<close>, which formats it into the next place of its
  slice and sends the slice when it is full; \<open>bulkInsert\<close> receives the slice, and \<open>InsertMany\<close> reads
  its elements one after the other. The channels are unbuffered. When \<open>Run\<close> returns it disconnects
  the client, and an insertion that is under way fails; it may also fail at any other time.
\<close>

datatype 'm mg_main = MRecv | MSave 'm | MOut 'm | MDone
datatype mg_prepare = PRecv | PSend
datatype 'd mg_insert = IRecv | IRead "'d list"

record ('m, 'd) mg =
  mg_in :: "'m list"
  mg_out :: "'m list"
  mg_main :: "'m mg_main"
  unsavedFlowData :: "'d option list"
  nrOfFlows :: nat
  mg_prep :: mg_prepare
  mg_ins :: "'d mg_insert"
  collection :: "'d list"

definition mg_start :: "nat \<Rightarrow> 'm list \<Rightarrow> ('m, 'd) mg" where
  "mg_start b ms = \<lparr>mg_in = ms, mg_out = [], mg_main = MRecv, unsavedFlowData = replicate b None, nrOfFlows = 0,
     mg_prep = PRecv, mg_ins = IRecv, collection = []\<rparr>"

inductive mg_step :: "nat \<Rightarrow> ('m \<Rightarrow> 'd) \<Rightarrow> ('m, 'd) mg \<Rightarrow> ('m, 'd) mg \<Rightarrow> bool" for b fmt where
  main_recv: "mg_main s = MRecv \<Longrightarrow> mg_in s = m # ms \<Longrightarrow> mg_step b fmt s (s\<lparr>mg_in := ms, mg_main := MSave m\<rparr>)"
| main_save: "mg_main s = MSave m \<Longrightarrow> mg_prep s = PRecv \<Longrightarrow>
    mg_step b fmt s (s\<lparr>mg_main := MOut m, unsavedFlowData := (unsavedFlowData s)[nrOfFlows s := Some (fmt m)],
      nrOfFlows := Suc (nrOfFlows s), mg_prep := (if Suc (nrOfFlows s) \<ge> b then PSend else PRecv)\<rparr>)"
| main_out: "mg_main s = MOut m \<Longrightarrow> mg_step b fmt s (s\<lparr>mg_out := mg_out s @ [m], mg_main := MRecv\<rparr>)"
| main_close: "mg_main s = MRecv \<Longrightarrow> mg_in s = [] \<Longrightarrow> mg_step b fmt s (s\<lparr>mg_main := MDone\<rparr>)"
| prep_send: "mg_prep s = PSend \<Longrightarrow> mg_ins s = IRecv \<Longrightarrow>
    mg_step b fmt s (s\<lparr>mg_prep := PRecv, nrOfFlows := 0, mg_ins := IRead []\<rparr>)"
| ins_read: "mg_ins s = IRead ds \<Longrightarrow> length ds < b \<Longrightarrow> unsavedFlowData s ! length ds = Some d \<Longrightarrow>
    mg_step b fmt s (s\<lparr>mg_ins := IRead (ds @ [d])\<rparr>)"
| ins_done: "mg_ins s = IRead ds \<Longrightarrow> length ds = b \<Longrightarrow> mg_main s \<noteq> MDone \<Longrightarrow>
    mg_step b fmt s (s\<lparr>collection := collection s @ ds, mg_ins := IRecv\<rparr>)"
| ins_fail: "mg_ins s = IRead ds \<Longrightarrow> mg_step b fmt s (s\<lparr>mg_ins := IRecv\<rparr>)"

abbreviation mg_steps :: "nat \<Rightarrow> ('m \<Rightarrow> 'd) \<Rightarrow> ('m, 'd) mg \<Rightarrow> ('m, 'd) mg \<Rightarrow> bool" where
  "mg_steps b fmt \<equiv> (mg_step b fmt)\<^sup>*\<^sup>*"

fun main_holds :: "'m mg_main \<Rightarrow> 'm list" where
  "main_holds (MSave m) = [m]" | "main_holds (MOut m) = [m]" | "main_holds _ = []"

text \<open>Flows that were not yet formatted, and documents taken over by the inserting goroutine.\<close>

fun main_unsaved :: "'m mg_main \<Rightarrow> nat" where
  "main_unsaved (MSave m) = 1" | "main_unsaved _ = 0"

definition in_insert :: "nat \<Rightarrow> 'd mg_insert \<Rightarrow> nat" where
  "in_insert b i = (if i = IRecv then 0 else b)"

definition mg_inv :: "nat \<Rightarrow> ('m \<Rightarrow> 'd) \<Rightarrow> 'm list \<Rightarrow> ('m, 'd) mg \<Rightarrow> bool" where
  "mg_inv b fmt ms s \<longleftrightarrow>
     mg_out s @ main_holds (mg_main s) @ mg_in s = ms
     \<and> length (collection s) + in_insert b (mg_ins s) + nrOfFlows s + main_unsaved (mg_main s) + length (mg_in s) \<le> length ms
     \<and> b dvd length (collection s) \<and> nrOfFlows s \<le> b \<and> (mg_prep s = PSend \<longleftrightarrow> nrOfFlows s = b)
     \<and> length (unsavedFlowData s) = b
     \<and> set (collection s) \<subseteq> fmt ` set ms \<and> set (unsavedFlowData s) \<subseteq> insert None (Some ` fmt ` set ms)
     \<and> (\<forall>ds. mg_ins s = IRead ds \<longrightarrow> set ds \<subseteq> fmt ` set ms \<and> length ds \<le> b)"

lemma mg_inv_start: "0 < b \<Longrightarrow> mg_inv b fmt ms (mg_start b ms)"
  by (auto simp: mg_inv_def mg_start_def in_insert_def)

lemma mg_inv_step: "mg_step b fmt s s' \<Longrightarrow> 0 < b \<Longrightarrow> mg_inv b fmt ms s \<Longrightarrow> mg_inv b fmt ms s'"
proof (induction rule: mg_step.induct)
  case (main_save s m)
  have "m \<in> set ms" using main_save by (auto simp: mg_inv_def)
  then have "set ((unsavedFlowData s)[nrOfFlows s := Some (fmt m)]) \<subseteq> insert None (Some ` fmt ` set ms)"
    using main_save set_update_subset_insert [of "unsavedFlowData s" "nrOfFlows s" "Some (fmt m)"]
    by (auto simp: mg_inv_def)
  then show ?case using main_save by (auto simp: mg_inv_def)
next
  case (ins_read s ds d)
  then have "Some d \<in> set (unsavedFlowData s)" by (metis mg_inv_def nth_mem)
  then have "d \<in> fmt ` set ms" using ins_read by (auto simp: mg_inv_def)
  then show ?case using ins_read by (auto simp: mg_inv_def in_insert_def)
qed (auto simp: mg_inv_def in_insert_def)

lemma mg_inv_steps: "mg_steps b fmt s s' \<Longrightarrow> 0 < b \<Longrightarrow> mg_inv b fmt ms s \<Longrightarrow> mg_inv b fmt ms s'"
  by (induction rule: rtranclp_induct) (auto intro: mg_inv_step)

text \<open>
  In every interleaving of its goroutines, \<open>mongodb\<close> forwards the flows in order, and the
  documents of the collection are those of flows it received; but flows that do not fill a batch are
  never stored: at most the largest multiple of the batch size that fits into the input is.
\<close>

theorem mongodb_stores_full_batches:
  assumes "fillSegmentWithConfig config = Inr seg"
    and "mg_steps (nat (mg_BatchSize seg)) (\<lambda>m. formatFlowToMongoDbJson m seg) (mg_start (nat (mg_BatchSize seg)) ms) s"
  shows "prefix (mg_out s) ms
    \<and> set (collection s) \<subseteq> (\<lambda>m. formatFlowToMongoDbJson m seg) ` set ms
    \<and> length (collection s) \<le> nat (mg_BatchSize seg) * (length ms div nat (mg_BatchSize seg))"
proof -
  define b where "b = nat (mg_BatchSize seg)"
  have b: "0 < b" using fillSegmentWithConfig_ok [OF assms(1)] by (simp add: b_def)
  have inv: "mg_inv b (\<lambda>m. formatFlowToMongoDbJson m seg) ms s"
    using mg_inv_steps [OF assms(2) [folded b_def] b mg_inv_start [OF b]] .
  then have i: "b dvd length (collection s)" "length (collection s) \<le> length ms"
    "mg_out s @ main_holds (mg_main s) @ mg_in s = ms" "set (collection s) \<subseteq> (\<lambda>m. formatFlowToMongoDbJson m seg) ` set ms"
    by (simp_all add: mg_inv_def)
  from i(1) obtain k where k: "length (collection s) = b * k" by (rule dvdE)
  have "b * k \<le> length ms" using i(2) k by simp
  then have "k \<le> length ms div b" using b by (simp add: less_eq_div_iff_mult_less_eq mult.commute)
  then have "length (collection s) \<le> b * (length ms div b)" using k by simp
  then show ?thesis using i(4) prefixI [OF i(3) [symmetric]] by (simp add: b_def)
qed

text \<open>A run in which every flow of \<open>xs\<close> goes through the formatting goroutine.\<close>

definition mg_at :: "'m list \<Rightarrow> 'm list \<Rightarrow> 'd option list \<Rightarrow> nat \<Rightarrow> nat \<Rightarrow> 'd mg_insert \<Rightarrow> 'd list \<Rightarrow> ('m, 'd) mg" where
  "mg_at ms os a n b i ds = \<lparr>mg_in = ms, mg_out = os, mg_main = MRecv, unsavedFlowData = a, nrOfFlows = n,
     mg_prep = (if n \<ge> b then PSend else PRecv), mg_ins = i, collection = ds\<rparr>"

lemma mg_one:
  assumes "n < b"
  shows "mg_steps b fmt (mg_at (m # ms) os a n b i ds) (mg_at ms (os @ [m]) (a[n := Some (fmt m)]) (Suc n) b i ds)"
proof -
  let ?s1 = "(mg_at ms os a n b i ds)\<lparr>mg_main := MSave m\<rparr>"
  let ?s2 = "(mg_at ms os (a[n := Some (fmt m)]) (Suc n) b i ds)\<lparr>mg_main := MOut m\<rparr>"
  have "mg_step b fmt (mg_at (m # ms) os a n b i ds) ?s1"
    using main_recv [of "mg_at (m # ms) os a n b i ds"] by (simp add: mg_at_def)
  moreover have "mg_step b fmt ?s1 ?s2" using main_save [of ?s1 m b fmt] assms by (simp add: mg_at_def)
  moreover have "mg_step b fmt ?s2 (mg_at ms (os @ [m]) (a[n := Some (fmt m)]) (Suc n) b i ds)"
    using main_out [of ?s2] by (simp add: mg_at_def)
  ultimately show ?thesis by (meson converse_rtranclp_into_rtranclp rtranclp.rtrancl_refl)
qed

lemma mg_fill:
  assumes "n + length xs = b" "length a = b"
  shows "mg_steps b fmt (mg_at (xs @ ms) os a n b i ds)
           (mg_at ms (os @ xs) (take n a @ map (\<lambda>x. Some (fmt x)) xs) b b i ds)"
  using assms
proof (induction xs arbitrary: n os a)
  case (Cons x xs)
  have "mg_steps b fmt (mg_at ((x # xs) @ ms) os a n b i ds)
      (mg_at (xs @ ms) (os @ [x]) (a[n := Some (fmt x)]) (Suc n) b i ds)"
    using mg_one [of n b fmt x "xs @ ms"] Cons.prems(1) by simp
  moreover have "mg_steps b fmt (mg_at (xs @ ms) (os @ [x]) (a[n := Some (fmt x)]) (Suc n) b i ds)
      (mg_at ms ((os @ [x]) @ xs) (take (Suc n) (a[n := Some (fmt x)]) @ map (\<lambda>x. Some (fmt x)) xs) b b i ds)"
    using Cons.IH [of "Suc n" "a[n := Some (fmt x)]" "os @ [x]"] Cons.prems by simp
  moreover have "take (Suc n) (a[n := Some (fmt x)]) = take n a @ [Some (fmt x)]"
    using Cons.prems by (simp add: take_Suc_conv_app_nth)
  ultimately show ?case by simp
qed simp

lemma mg_hand_over:
  assumes "0 < b"
  shows "mg_step b fmt (mg_at ms os a b b IRecv ds) (mg_at ms os a 0 b (IRead []) ds)"
  using prep_send [of "mg_at ms os a b b IRecv ds" b fmt] assms by (simp add: mg_at_def)

lemma mg_read_all:
  assumes "length xs + length ys = b"
  shows "mg_steps b fmt (mg_at ms os (map Some (xs @ ys)) n b (IRead xs) ds)
           (mg_at ms os (map Some (xs @ ys)) n b (IRead (xs @ ys)) ds)"
  using assms
proof (induction ys arbitrary: xs)
  case (Cons y ys)
  have "mg_step b fmt (mg_at ms os (map Some (xs @ y # ys)) n b (IRead xs) ds)
      (mg_at ms os (map Some (xs @ y # ys)) n b (IRead (xs @ [y])) ds)"
    using ins_read [of "mg_at ms os (map Some (xs @ y # ys)) n b (IRead xs) ds" xs b y fmt] Cons.prems
    by (simp add: mg_at_def nth_append)
  then show ?case using Cons.IH [of "xs @ [y]"] Cons.prems by (simp add: converse_rtranclp_into_rtranclp)
qed simp

lemma mg_store:
  assumes "length ys = b"
  shows "mg_steps b fmt (mg_at ms os (map Some ys) n b (IRead []) ds) (mg_at ms os (map Some ys) n b IRecv (ds @ ys))"
proof -
  have "mg_step b fmt (mg_at ms os (map Some ys) n b (IRead ys) ds) (mg_at ms os (map Some ys) n b IRecv (ds @ ys))"
    using ins_done [of "mg_at ms os (map Some ys) n b (IRead ys) ds" ys b fmt] assms by (simp add: mg_at_def)
  then show ?thesis using mg_read_all [of "[]" ys b fmt ms os n ds] assms by simp
qed

text \<open>
  A batch can be lost and the next one stored twice: the slice is reused while the database
  driver still reads it, so for every two batches there is a run in which the collection ends up
  with the second batch in place of the first as well.
\<close>

theorem mongodb_overwrites_batch:
  assumes "0 < b" "length xs = b" "length ys = b"
  shows "\<exists>s. mg_steps b fmt (mg_start b (xs @ ys)) s \<and> mg_out s = xs @ ys \<and> mg_in s = []
           \<and> collection s = map fmt ys @ map fmt ys"
proof -
  let ?y = "map Some (map fmt ys)" and ?x = "map Some (map fmt xs)"
  have "mg_steps b fmt (mg_start b (xs @ ys)) (mg_at ys xs ?x b b IRecv [])"
    using mg_fill [of 0 xs b "replicate b None" fmt ys "[]" IRecv "[]"] assms by (simp add: mg_at_def mg_start_def comp_def)
  also have "mg_step b fmt (mg_at ys xs ?x b b IRecv []) (mg_at ys xs ?x 0 b (IRead []) [])"
    using assms(1) by (rule mg_hand_over)
  also have "mg_steps b fmt (mg_at ys xs ?x 0 b (IRead []) []) (mg_at [] (xs @ ys) ?y b b (IRead []) [])"
    using mg_fill [of 0 ys b ?x fmt "[]" xs "IRead []" "[]"] assms by (simp add: comp_def)
  also have "mg_steps b fmt (mg_at [] (xs @ ys) ?y b b (IRead []) []) (mg_at [] (xs @ ys) ?y b b IRecv ([] @ map fmt ys))"
    using assms by (intro mg_store) simp
  also have "mg_step b fmt (mg_at [] (xs @ ys) ?y b b IRecv ([] @ map fmt ys)) (mg_at [] (xs @ ys) ?y 0 b (IRead []) ([] @ map fmt ys))"
    using assms(1) by (rule mg_hand_over)
  also have "mg_steps b fmt (mg_at [] (xs @ ys) ?y 0 b (IRead []) ([] @ map fmt ys))
      (mg_at [] (xs @ ys) ?y 0 b IRecv (([] @ map fmt ys) @ map fmt ys))"
    using assms by (intro mg_store) simp
  finally show ?thesis by (intro exI) (auto simp: mg_at_def)
qed

theorem mongodb_overwrites_batch_witness:
  "\<exists>s. mg_steps 2 (\<lambda>n. n) (mg_start 2 [1, 2, 3, 4 :: nat]) s \<and> collection s = [3, 4, 3, 4]"
  using mongodb_overwrites_batch [of 2 "[1, 2]" "[3, 4 :: nat]" "\<lambda>n. n"] by auto

theorem mongodb_stores_full_batches_witness:
  "\<exists>seg. fillSegmentWithConfig (Some [''mongodb_uri'' \<mapsto> ''m'']) = Inr seg
     \<and> length (collection (mg_start (nat (mg_BatchSize seg)) [zero_flow] :: (EnrichedFlow, string \<rightharpoonup> string) mg))
        \<le> nat (mg_BatchSize seg) * (length [zero_flow] div nat (mg_BatchSize seg))"
proof -
  obtain seg where "fillSegmentWithConfig (Some [''mongodb_uri'' \<mapsto> ''m'']) = Inr seg"
    by (simp add: fillSegmentWithConfig_def mongo_batchsize_def choose_fields_def)
  then show ?thesis using mongodb_stores_full_batches [OF _ rtranclp.rtrancl_refl, of _ seg "[zero_flow]"] by auto
qed

end
