(* ===== verification/Replay.thy ===== *)
theory Replay
  imports DbOutputs
begin

text \<open>
  The input \<open>replay\<close> (\<open>segments/input/replay/replay.go\<close>): it reads the rows a \<open>sqlite\<close> segment wrote,
  rebuilds the flows field by field with package \<open>reflect\<close>, sorts them by their end and sends them.
  A rebuilt flow is the list of the values of its fields, in the order of the struct. The database
  returns for each column the text that was stored; numbers of integer columns are those of their
  decimal texts, as long as they fit in the 64-bit signed integers of SQLite.
\<close>

section \<open>Configuration\<close>

record Replay =
  rp_FileName :: string
  RespectTiming :: bool

text \<open>The option that is read is \<open>ignoretiming\<close>, and its value is not inverted.\<close>

definition Replay_New :: "(string \<Rightarrow> bool) \<Rightarrow> (string \<Rightarrow> bool) \<Rightarrow> config_map \<Rightarrow> Replay option" where
  "Replay_New fileExists open_ok config =
     (let fileName = cfg config ''filename'';
          respectTiming = (if cfg config ''ignoretiming'' \<noteq> []
                           then (case parse_bool (cfg config ''ignoretiming'') of Some b \<Rightarrow> b | None \<Rightarrow> True)
                           else True)
      in if fileName = [] then None
         else if \<not> fileExists fileName then None
         else if \<not> open_ok fileName then None
         else Some \<lparr>rp_FileName = fileName, RespectTiming = respectTiming\<rparr>)"

section \<open>Parsing slices\<close>

fun parse_each :: "(string \<Rightarrow> 'a option) \<Rightarrow> string list \<Rightarrow> 'a list option" where
  "parse_each h [] = Some []"
| "parse_each h (w # ws) =
     (case h w of None \<Rightarrow> None
      | Some x \<Rightarrow> (case parse_each h ws of None \<Rightarrow> None | Some xs \<Rightarrow> Some (x # xs)))"

definition parseSlice :: "string \<Rightarrow> (string \<Rightarrow> 'a option) \<Rightarrow> 'a list option" where
  "parseSlice s elementHandler =
     (if \<not> prefix ''['' s \<or> \<not> suffix '']'' s then None
      else parse_each elementHandler (Prelude.fields (butlast (tl s))))"

definition parseUint32Slice :: "string \<Rightarrow> u32 list option" where
  "parseUint32Slice s = parseSlice s (\<lambda>e. map_option of_nat (parse_uint 32 e))"

definition parseByteSlices :: "string \<Rightarrow> u8 list list option" where
  "parseByteSlices s = parseSlice s (\<lambda>outer. parseSlice outer (\<lambda>e. map_option of_nat (parse_uint 8 e)))"

definition parseLayerStackSlice :: "string \<Rightarrow> i32 list option" where
  "parseLayerStackSlice s = parseSlice s (\<lambda>e. Some (enum_value LayerStackEnum e))"

text \<open>Printing a slice and parsing it again.\<close>

definition words_ok :: "string list \<Rightarrow> bool" where
  "words_ok ws \<longleftrightarrow> (\<forall>w\<in>set ws. w \<noteq> [] \<and> (\<forall>c\<in>set w. \<not> is_space c))"

lemma parseSlice_bracketed: "words_ok ws \<Longrightarrow> parseSlice (bracketed ws) h = parse_each h ws"
proof -
  have "suffix '']'' (CHR ''['' # join_with '' '' ws @ '']'')"
    by (rule suffixI [of _ "CHR ''['' # join_with '' '' ws"]) simp
  then show "words_ok ws \<Longrightarrow> ?thesis"
    by (simp add: parseSlice_def bracketed_def words_ok_def fields_join butlast_append)
qed

lemma parse_each_map: "(\<And>x. x \<in> set xs \<Longrightarrow> h (f x) = Some (g x)) \<Longrightarrow> parse_each h (map f xs) = Some (map g xs)"
  by (induction xs) auto

lemma parse_each_None: "w \<in> set ws \<Longrightarrow> h w = None \<Longrightarrow> parse_each h ws = None"
  by (induction ws) (auto split: option.splits)

lemma words_ok_dec: "words_ok (map (\<lambda>x. dec (f x)) xs)"
  using dec_not_space by (auto simp: words_ok_def)

lemma parseUint32Slice_sprint: "parseUint32Slice (bracketed (map (\<lambda>n. dec (unat n)) ns)) = Some ns"
proof -
  have "unat (n :: u32) < 2 ^ 32" for n using unsigned_less [of n] by simp
  then have "parse_uint 32 (dec (unat n)) = Some (unat n)" for n :: u32 by (intro parse_uint_dec)
  then show ?thesis unfolding parseUint32Slice_def
    by (subst parseSlice_bracketed [OF words_ok_dec], subst parse_each_map [where g = "\<lambda>n. n"]) auto
qed

lemma enum_names_words: "t \<in> snd ` set (enum_names LayerStackEnum) \<Longrightarrow> t \<noteq> [] \<and> (\<forall>c\<in>set t. \<not> is_space c)"
  by (auto simp: is_space_def)

lemma parseLayerStackSlice_sprint:
  assumes "\<forall>n\<in>set ns. enum_known LayerStackEnum n"
  shows "parseLayerStackSlice (bracketed (map (enum_String LayerStackEnum) ns)) = Some ns"
proof -
  have "words_ok (map (enum_String LayerStackEnum) ns)"
    unfolding words_ok_def using assms enum_names_words [OF enum_String_known] by auto
  moreover have "parse_each (\<lambda>e. Some (enum_value LayerStackEnum e)) (map (enum_String LayerStackEnum) ns) = Some (map (\<lambda>n. n) ns)"
    using assms by (intro parse_each_map) (simp add: enum_value_String)
  ultimately show ?thesis unfolding parseLayerStackSlice_def by (simp add: parseSlice_bracketed)
qed

text \<open>
  Slices of byte slices print as \<open>[[1 2] [3]]\<close> and are split inside the inner brackets: only slices of
  at most one byte can be read back.
\<close>

lemma parse_inner_one: "length bs \<le> 1 \<Longrightarrow>
  parseSlice (bracketed (map (\<lambda>x. dec (unat x)) bs)) (\<lambda>e. map_option of_nat (parse_uint 8 e)) = Some (bs :: u8 list)"
proof -
  have "unat (n :: u8) < 2 ^ 8" for n using unsigned_less [of n] by simp
  then have "parse_uint 8 (dec (unat n)) = Some (unat n)" for n :: u8 by (intro parse_uint_dec)
  then have "parse_each (\<lambda>e. map_option of_nat (parse_uint 8 e)) (map (\<lambda>x. dec (unat x)) bs) = Some (map (\<lambda>x. x) bs)"
    by (intro parse_each_map) simp
  then show ?thesis by (simp add: parseSlice_bracketed [OF words_ok_dec])
qed

lemma not_space_bracket: "\<not> is_space (CHR ''['')" "\<not> is_space (CHR '']'')"
  by (simp_all add: is_space_def)

lemma sprint_bytes_word: "length (bytes_of b) \<le> 1 \<Longrightarrow> sprint_bytes b \<noteq> [] \<and> (\<forall>c\<in>set (sprint_bytes b). \<not> is_space c)"
  using dec_not_space not_space_bracket
  by (cases "bytes_of b"; cases "tl (bytes_of b)") (auto simp: sprint_bytes_def bracketed_def)

lemma parseByteSlices_short:
  assumes "\<forall>b\<in>set bs. length (bytes_of b) \<le> 1"
  shows "parseByteSlices (bracketed (map sprint_bytes bs)) = Some (map bytes_of bs)"
proof -
  have "words_ok (map sprint_bytes bs)" using assms sprint_bytes_word by (auto simp: words_ok_def)
  moreover have "parse_each (\<lambda>outer. parseSlice outer (\<lambda>e. map_option of_nat (parse_uint 8 e))) (map sprint_bytes bs)
      = Some (map bytes_of bs)"
    using assms by (intro parse_each_map) (simp add: sprint_bytes_def parse_inner_one)
  ultimately show ?thesis by (simp add: parseByteSlices_def parseSlice_bracketed)
qed

text \<open>The words of a slice of byte slices when the inner ones are longer.\<close>

fun inner_words :: "string list \<Rightarrow> string list" where
  "inner_words [] = [''[]'']"
| "inner_words [w] = [''['' @ w @ '']'']"
| "inner_words (w # v # ws) = (''['' @ w) # butlast (v # ws) @ [last (v # ws) @ '']'']"

lemma join_butlast_last: "ws \<noteq> [] \<Longrightarrow> join_with sep (butlast ws @ [last ws @ t]) = join_with sep ws @ t"
proof (induction sep ws rule: join_with.induct)
  case (3 sep w v ws)
  then show ?case by (cases "butlast (v # ws) @ [last (v # ws) @ t]") (auto split: if_splits)
qed auto

lemma join_prepend: "xs \<noteq> [] \<Longrightarrow> join_with sep ((p @ w) # xs) = p @ w @ sep @ join_with sep xs"
  by (cases xs) auto

lemma bracketed_words: "bracketed ws = join_with '' '' (inner_words ws)"
proof (cases ws rule: inner_words.cases)
  case (3 w v vs)
  have "join_with '' '' (inner_words ws) = ''['' @ w @ '' '' @ join_with '' '' (butlast (v # vs) @ [last (v # vs) @ '']''])"
    unfolding 3 inner_words.simps by (rule join_prepend) simp
  also have "\<dots> = ''['' @ w @ '' '' @ join_with '' '' (v # vs) @ '']''" by (subst join_butlast_last) simp_all
  finally show ?thesis by (simp add: 3 bracketed_def)
qed (simp_all add: bracketed_def)

lemma join_append: "ws \<noteq> [] \<Longrightarrow> us \<noteq> [] \<Longrightarrow> join_with sep (ws @ us) = join_with sep ws @ sep @ join_with sep us"
  by (induction sep ws rule: join_with.induct) (auto simp: neq_Nil_conv)

lemma join_concat: "\<forall>ws\<in>set wss. ws \<noteq> [] \<Longrightarrow> join_with sep (map (join_with sep) wss) = join_with sep (concat wss)"
proof (induction wss)
  case (Cons ws wss)
  show ?case
  proof (cases wss)
    case (Cons vs wss')
    then have "concat wss \<noteq> []" using Cons.prems by auto
    then have "join_with sep (concat (ws # wss)) = join_with sep ws @ sep @ join_with sep (concat wss)"
      using Cons.prems by (simp add: join_append)
    moreover have "join_with sep (map (join_with sep) (ws # wss)) = join_with sep ws @ sep @ join_with sep (map (join_with sep) wss)"
      by (simp add: Cons)
    ultimately show ?thesis using Cons.IH Cons.prems by simp
  qed simp
qed simp

lemma inner_words_ok: "words_ok ws \<Longrightarrow> words_ok (inner_words ws)"
  using not_space_bracket
  by (cases ws rule: inner_words.cases) (auto simp: words_ok_def dest: in_set_butlastD)

lemma inner_words_ne [simp]: "inner_words ws \<noteq> []"
  by (cases ws rule: inner_words.cases) auto

lemma dec_no_bracket: "\<not> suffix '']'' (CHR ''['' # dec n)"
proof
  assume "suffix '']'' (CHR ''['' # dec n)"
  then obtain zs where "CHR ''['' # dec n = zs @ '']''" by (auto simp: suffix_def)
  then have "last (CHR ''['' # dec n) = CHR '']''" by (simp only: last_snoc)
  then have "CHR '']'' \<in> set (dec n)" using last_in_set [of "dec n"] by simp
  then obtain d where "d < 10" "CHR '']'' = digit_char d" using dec_digits by blast
  then have "digit_val (CHR '']'') = Some d" by simp
  then show False by (simp add: digit_val_def)
qed

lemma parseByteSlices_long:
  assumes "b \<in> set bs" "length (bytes_of b) > 1"
  shows "parseByteSlices (bracketed (map sprint_bytes bs)) = None"
proof -
  let ?decs = "\<lambda>b. map (\<lambda>x. dec (unat x)) (bytes_of b)"
  let ?wss = "map (\<lambda>b. inner_words (?decs b)) bs"
  have "map sprint_bytes bs = map (join_with '' '') ?wss" by (simp add: sprint_bytes_def bracketed_words)
  moreover have "join_with '' '' (map (join_with '' '') ?wss) = join_with '' '' (concat ?wss)"
    by (rule join_concat) simp
  ultimately have j: "join_with '' '' (map sprint_bytes bs) = join_with '' '' (concat ?wss)" by (simp only:)
  have "words_ok (concat ?wss)" using inner_words_ok [OF words_ok_dec] by (fastforce simp: words_ok_def)
  then have p: "parseSlice (bracketed (map sprint_bytes bs)) h = parse_each h (concat ?wss)"
    for h :: "string \<Rightarrow> u8 list option"
    using parseSlice_bracketed [of "concat ?wss" h] j by (simp add: bracketed_def)
  obtain x y zs where "bytes_of b = x # y # zs" using assms(2) by (cases "bytes_of b"; cases "tl (bytes_of b)") auto
  then have "CHR ''['' # dec (unat x) \<in> set (concat ?wss)" using assms(1) by force
  moreover have "parseSlice (CHR ''['' # dec (unat x)) (\<lambda>e. map_option of_nat (parse_uint 8 e)) = (None :: u8 list option)"
    using dec_no_bracket by (simp add: parseSlice_def)
  ultimately show ?thesis unfolding parseByteSlices_def p by (rule parse_each_None)
qed

section \<open>Reading rows\<close>

text \<open>
  The value of a field from the text of its column; the first argument is a value of the type of the
  field. Plain fields are scanned by \<open>database/sql\<close>, which may fail; the others are read into a
  string and converted: a slice that cannot be parsed becomes nil, an unknown enumerator 0. A number from
  \<open>2^63\<close> on is not an integer for SQLite; it comes back as a floating point number, whose text is no \<open>uint64\<close>.
\<close>

fun scan_value :: "goval \<Rightarrow> string \<Rightarrow> goval option" where
  "scan_value (GUint32 _) t = map_option (\<lambda>n. GUint32 (of_nat n)) (parse_uint 32 t)"
| "scan_value (GUint64 _) t =
     (case parse_uint 64 t of Some n \<Rightarrow> if n < 2 ^ 63 then Some (GUint64 (of_nat n)) else None | None \<Rightarrow> None)"
| "scan_value (GBool _) t = map_option GBool (parse_bool t)"
| "scan_value (GString _) t = Some (GString t)"
| "scan_value (GBytes _) t = Some (GBytes (Some (map of_char t)))"
| "scan_value (GUint32s _) t = Some (GUint32s (case parseUint32Slice t of Some ns \<Rightarrow> ns | None \<Rightarrow> []))"
| "scan_value (GByteSlices _) t =
     Some (GByteSlices (case parseByteSlices t of Some bs \<Rightarrow> map Some bs | None \<Rightarrow> []))"
| "scan_value (GEnum e _) t = Some (GEnum e (enum_value e t))"
| "scan_value (GEnums e _) t =
     Some (GEnums e (case parseLayerStackSlice t of Some ns \<Rightarrow> ns | None \<Rightarrow> []))"

fun scan_values :: "goval list \<Rightarrow> string list \<Rightarrow> goval list option" where
  "scan_values [] [] = Some []"
| "scan_values (k # ks) (t # ts) =
     (case scan_value k t of None \<Rightarrow> None
      | Some v \<Rightarrow> (case scan_values ks ts of None \<Rightarrow> None | Some vs \<Rightarrow> Some (v # vs)))"
| "scan_values _ _ = None"

text \<open>The values of the fields of a flow, in the order of the struct.\<close>

definition flow_values :: "EnrichedFlow \<Rightarrow> goval list" where
  "flow_values f = map (\<lambda>(n, get). get f) flow_fields"

text \<open>
  One row. A row that does not have a column for every field is skipped. The variable \<open>err\<close> is
  overwritten by every conversion, so that only the error of the last one, \<open>DstAsPath\<close>, which is the
  last column, has an effect.
\<close>

definition read_row :: "string list \<Rightarrow> goval list option" where
  "read_row row =
     (case scan_values (flow_values zero_flow) row of
        None \<Rightarrow> None
      | Some vs \<Rightarrow> if parseUint32Slice (last row) = None then None else Some vs)"

lemma DstAsPath_last: "fst (last flow_fields) = ''DstAsPath''"
  by (simp add: flow_fields_def)

text \<open>What becomes of a value that is written by \<open>sqlite\<close> and read by \<open>replay\<close>.\<close>

fun replayed :: "goval \<Rightarrow> goval" where
  "replayed (GBytes b) = GBytes (Some (map of_char (field_text (GBytes b))))"
| "replayed (GByteSlices bs) =
     GByteSlices (if \<forall>b\<in>set bs. length (bytes_of b) \<le> 1 then map (\<lambda>b. Some (bytes_of b)) bs else [])"
| "replayed v = v"

fun enums_ok :: "goval \<Rightarrow> bool" where
  "enums_ok (GEnum t n) = enum_known t n"
| "enums_ok (GEnums t ns) = (t = LayerStackEnum \<and> (\<forall>n\<in>set ns. enum_known t n))"
| "enums_ok _ = True"

fun storable :: "goval \<Rightarrow> bool" where
  "storable (GUint64 n) = (unat n < 2 ^ 63)"
| "storable _ = True"

lemma unat_bounds: "unat (a :: u32) < 2 ^ 32" "unat (b :: u64) < 2 ^ 64"
  using unsigned_less [of a] unsigned_less [of b] by simp_all

lemma same_kind:
  "go_type k = go_type v \<Longrightarrow> enums_ok v \<Longrightarrow> scan_value k t = scan_value v t"
proof -
  have inj: "enum_type_name a = enum_type_name b \<Longrightarrow> a = b" for a b by (cases a; cases b) auto
  have inj2: "enum_type_name a = ''pb.EnrichedFlow_LayerStack'' \<Longrightarrow> a = LayerStackEnum" for a by (cases a) auto
  have pre: "hd (enum_type_name a) = CHR ''p''" "enum_type_name a \<noteq> []" for a by (cases a; simp)+
  have ne: "enum_type_name a \<noteq> w" if "hd w \<noteq> CHR ''p'' \<or> w = []" for a w using pre [of a] that by auto
  have ne2: "CHR ''['' # CHR '']'' # enum_type_name a \<noteq> w" if "w = ''[]uint8'' \<or> w = ''[]uint32'' \<or> w = ''[][]uint8''" for a w
    using pre [of a] that by (cases a) auto
  show "go_type k = go_type v \<Longrightarrow> enums_ok v \<Longrightarrow> ?thesis"
    by (cases k; cases v) (auto dest: inj inj2 simp: ne ne [symmetric] ne2 ne2 [symmetric])
qed

lemma scan_field_text:
  assumes "go_type k = go_type v" "enums_ok v"
  shows "scan_value k (field_text v) = (if storable v then Some (replayed v) else None)"
proof -
  have "scan_value v (field_text v) = (if storable v then Some (replayed v) else None)"
  proof (cases v)
    case (GByteSlices bs)
    show ?thesis
    proof (cases "\<forall>b\<in>set bs. length (bytes_of b) \<le> 1")
      case True
      then show ?thesis using parseByteSlices_short [OF True] GByteSlices by simp
    next
      case False
      then obtain b where "b \<in> set bs" "length (bytes_of b) > 1" by force
      then show ?thesis using parseByteSlices_long [of b bs] False GByteSlices by auto
    qed
  next
    case (GBool b)
    then show ?thesis by (simp add: parse_bool_def)
  next
    case (GUint32 n)
    then show ?thesis using unat_bounds(1) [of n] by simp
  next
    case (GUint64 n)
    then show ?thesis using unat_bounds(2) [of n] by simp
  next
    case (GEnums t ns)
    then show ?thesis using assms(2) by (auto simp: parseLayerStackSlice_sprint)
  qed (use assms(2) in \<open>simp_all add: parseUint32Slice_sprint enum_value_String\<close>)
  then show ?thesis using same_kind [OF assms] by simp
qed

lemma scan_values_map:
  assumes "list_all2 (\<lambda>k v. go_type k = go_type v) ks vs" "list_all enums_ok vs"
  shows "scan_values ks (map field_text vs) = (if list_all storable vs then Some (map replayed vs) else None)"
  using assms by (induction ks vs rule: list_all2_induct) (auto simp: scan_field_text)

lemma flow_values_types: "list_all2 (\<lambda>k v. go_type k = go_type v) (flow_values zero_flow) (flow_values f)"
  using field_types_fixed [of f]
  by (auto simp: flow_values_def list_all2_map1 list_all2_map2 list_all2_same list_all_iff)

lemma last_flow_value: "last (flow_values f) = GUint32s (DstAsPath f)"
  by (simp add: flow_values_def flow_fields_def)

lemma flow_values_ne: "flow_values f \<noteq> []"
  unfolding flow_values_def flow_fields_def by simp

lemma read_row_texts:
  assumes "list_all enums_ok (flow_values f)"
  shows "read_row (map field_text (flow_values f)) =
    (if list_all storable (flow_values f) then Some (map replayed (flow_values f)) else None)"
proof -
  have "last (map field_text (flow_values f)) = bracketed (map (\<lambda>n. dec (unat n)) (DstAsPath f))"
    using flow_values_ne [of f] by (simp add: last_map last_flow_value)
  then show ?thesis
    using scan_values_map [OF flow_values_types assms] by (simp add: read_row_def parseUint32Slice_sprint)
qed

text \<open>These texts are the ones \<open>sqlite\<close> stores when it is configured without \<open>fields\<close>.\<close>

lemma flow_texts_all: "flow_texts field_names f = map field_text (flow_values f)"
proof -
  have "FieldByName f n = Some (get f)" if "(n, get) \<in> set flow_fields" for n get
    using that distinct_field_names by (simp add: FieldByName_def field_names_def)
  then show ?thesis by (auto simp: flow_texts_def field_names_def flow_values_def)
qed

section \<open>The order and the timing of the replay\<close>

text \<open>
  \<open>readFromDB\<close>: the rows that can be read, sorted by \<open>TimeFlowEnd\<close>. \<open>sort.Slice\<close> is not stable: its
  result is any arrangement in which no element is less than one before it.
\<close>

definition flow_end :: "goval list \<Rightarrow> u64" where
  "flow_end vs = (case map_of (zip field_names vs) ''TimeFlowEnd'' of Some (GUint64 n) \<Rightarrow> n | _ \<Rightarrow> 0)"

definition byEarliest :: "goval list \<Rightarrow> goval list \<Rightarrow> bool" where
  "byEarliest a b \<longleftrightarrow> flow_end a < flow_end b"

definition sort_Slice :: "('a \<Rightarrow> 'a \<Rightarrow> bool) \<Rightarrow> 'a list \<Rightarrow> 'a list \<Rightarrow> bool" where
  "sort_Slice lt xs ys \<longleftrightarrow> mset ys = mset xs \<and> sorted_wrt (\<lambda>a b. \<not> lt b a) ys"

definition readFromDB_gives :: "string list list \<Rightarrow> goval list list \<Rightarrow> bool" where
  "readFromDB_gives rows flows \<longleftrightarrow> sort_Slice byEarliest (List.map_filter read_row rows) flows"

lemma flow_end_replayed: "flow_end (map replayed (flow_values m)) = TimeFlowEnd m"
proof -
  have z: "zip field_names (map replayed (flow_values m)) = map (\<lambda>(n, get). (n, replayed (get m))) flow_fields"
    by (simp add: field_names_def flow_values_def zip_map_map zip_same_conv_map split_beta comp_def)
  have "FieldByName m ''TimeFlowEnd'' = Some (GUint64 (TimeFlowEnd m))" unfolding field_lookup by simp
  then obtain get where "map_of flow_fields ''TimeFlowEnd'' = Some get" "get m = GUint64 (TimeFlowEnd m)"
    by (auto simp: FieldByName_def)
  then show ?thesis by (simp add: flow_end_def z map_of_map [where f = "\<lambda>get. replayed (get m)"])
qed

lemma map_filter_If:
  "(\<And>x. x \<in> set xs \<Longrightarrow> h (f x) = (if P x then Some (g x) else None)) \<Longrightarrow> List.map_filter h (map f xs) = map g (filter P xs)"
  by (induction xs) (auto simp: List.map_filter_def)

lemma mset_map_arranged: "mset ys = image_mset f (mset xs) \<Longrightarrow> \<exists>zs. mset zs = mset xs \<and> ys = map f zs"
proof (induction ys arbitrary: xs)
  case (Cons y ys)
  then have "y \<in># image_mset f (mset xs)" by (metis list.set_intros(1) set_mset_mset)
  then obtain x where x: "x \<in> set xs" "y = f x" by auto
  then have "mset ys = image_mset f (mset (remove1 x xs))" using Cons.prems by (simp add: image_mset_Diff mset_remove1) (metis add_mset_remove_trivial)
  from Cons.IH [OF this] obtain zs where "mset zs = mset (remove1 x xs)" "ys = map f zs" by blast
  then show ?case using x by (intro exI [of _ "x # zs"]) (simp add: mset_remove1)
qed simp

lemma Sqlite_New_all_fields:
  "Sqlite_New open_ok config = Some seg \<Longrightarrow> cfg config ''fields'' = [] \<Longrightarrow> sq_fieldNames seg = field_names"
  by (auto simp: Sqlite_New_def choose_fields_def Let_def split: if_splits option.splits)

text \<open>
  C9. Storing and replaying together: when a \<open>sqlite\<close> segment without the option \<open>fields\<close> has stored
  some flows whose enumerations have names, every result of \<open>readFromDB\<close> on its table consists of these flows,
  each once, arranged by \<open>TimeFlowEnd\<close>, without those that have a \<open>uint64\<close> field of \<open>2^63\<close> or more, whose rows cannot
  be read. The values of a flow are the stored ones, except that a byte slice comes back as its text, and a list of byte
  slices is empty if one of them is longer than a byte.
\<close>

theorem sqlite_then_replay:
  assumes "Sqlite_New open_ok config = Some seg" "cfg config ''fields'' = []"
    and "\<forall>m\<in>set ms. list_all enums_ok (flow_values m)"
    and "Sqlite_Run True True (\<lambda>_. True) (\<lambda>_. True) seg ms = Inr (es, tbl)"
    and "readFromDB_gives (concat tbl) flows"
  shows "\<exists>ms'. mset ms' = mset (filter (\<lambda>m. list_all storable (flow_values m)) ms)
    \<and> sorted_wrt (\<lambda>a b. TimeFlowEnd a \<le> TimeFlowEnd b) ms' \<and> flows = map (\<lambda>m. map replayed (flow_values m)) ms'"
proof -
  let ?ok = "\<lambda>m. list_all storable (flow_values m)"
  have names: "sq_fieldNames seg = field_names" using assms(1,2) by (rule Sqlite_New_all_fields)
  have "tbl = map (map (flow_texts field_names)) (chunks (nat (sq_BatchSize seg)) ms)"
    using sqlite_table [OF assms(1,4)] names by simp
  then have "concat tbl = map (\<lambda>m. map field_text (flow_values m)) ms"
    by (simp add: map_concat [symmetric] concat_chunks flow_texts_all)
  moreover have "List.map_filter read_row (map (\<lambda>m. map field_text (flow_values m)) ms)
      = map (\<lambda>m. map replayed (flow_values m)) (filter ?ok ms)"
    using assms(3) by (intro map_filter_If read_row_texts) simp
  ultimately have f: "mset flows = image_mset (\<lambda>m. map replayed (flow_values m)) (mset (filter ?ok ms))"
    "sorted_wrt (\<lambda>a b. \<not> byEarliest b a) flows"
    using assms(5) by (simp_all add: readFromDB_gives_def sort_Slice_def)
  from mset_map_arranged [OF f(1)] obtain ms' where ms': "mset ms' = mset (filter ?ok ms)"
    "flows = map (\<lambda>m. map replayed (flow_values m)) ms'" by blast
  have "sorted_wrt (\<lambda>a b. TimeFlowEnd a \<le> TimeFlowEnd b) ms'"
    using f(2) unfolding ms'(2) by (simp add: sorted_wrt_map byEarliest_def flow_end_replayed not_less)
  with ms' show ?thesis by blast
qed

text \<open>
  The sleeps between the flows of a replay, in nanoseconds: the ends are taken as nanoseconds, and
  \<open>time.Time.Sub\<close> saturates.
\<close>

definition saturate :: "int \<Rightarrow> int" where
  "saturate n = max (- (2 ^ 63)) (min n (2 ^ 63 - 1))"

fun replay_sleeps :: "bool \<Rightarrow> u64 list \<Rightarrow> int list" where
  "replay_sleeps respectTiming (prev # cur # ends) =
     (if respectTiming then [saturate (sint cur - sint prev)] else []) @ replay_sleeps respectTiming (cur # ends)"
| "replay_sleeps respectTiming _ = []"

lemma sint_small: "uint (w :: u64) < 2 ^ 63 \<Longrightarrow> sint w = uint w"
proof -
  assume "uint w < 2 ^ 63"
  moreover have "- (2 ^ 63) \<le> uint w" by (rule order_trans [of _ 0]) simp_all
  ultimately have "signed_take_bit 63 (uint w) = uint w" by (intro signed_take_bit_int_eq_self)
  then show ?thesis by (simp add: sint_uint)
qed

text \<open>
  The time a replay takes: the sleeps are the differences of consecutive ends, read as
  nanoseconds, and add up to the difference of the last and the first end. As \<open>TimeFlowEnd\<close> is a
  number of seconds, a replay runs a thousand million times too fast.
\<close>

theorem replay_timing:
  assumes "sorted_wrt (\<le>) (e # ends)" "\<forall>w\<in>set (e # ends). uint w < 2 ^ 63"
  shows "sum_list (replay_sleeps True (e # ends)) = uint (last (e # ends)) - uint e
    \<and> (\<forall>d\<in>set (replay_sleeps True (e # ends)). 0 \<le> d)"
  using assms
proof (induction ends arbitrary: e)
  case (Cons a ends)
  have s: "sint e = uint e" "sint a = uint a" using Cons.prems(2) by (simp_all add: sint_small)
  have "uint e \<le> uint a" using Cons.prems(1) by (simp add: word_le_def)
  moreover have "uint a < 2 ^ 63" "0 \<le> uint e" using Cons.prems(2) by simp_all
  ultimately have "min (uint a - uint e) (2 ^ 63 - 1) = uint a - uint e" "0 \<le> uint a - uint e" by linarith+
  then have "saturate (sint a - sint e) = uint a - uint e" "0 \<le> uint a - uint e" by (simp_all add: s saturate_def)
  then show ?case using Cons.IH [of a] Cons.prems by simp
qed simp

theorem replay_timing_witness: "sum_list (replay_sleeps True [1600000000, 1600000060]) = 60"
  using replay_timing [of 1600000000 "[1600000060]"] by simp

section \<open>Sending\<close>

text \<open>
  The loop of \<open>Run\<close>: a flow of the previous segment and the next flow of the replay compete; the
  loop ends when the input channel is closed.
\<close>

inductive Replay_Run :: "'m list \<Rightarrow> 'm list \<Rightarrow> 'm list \<Rightarrow> bool" where
  closed: "Replay_Run [] flows []"
| forward: "Replay_Run ms flows os \<Longrightarrow> Replay_Run (m # ms) flows (m # os)"
| replayed_flow: "Replay_Run ms flows os \<Longrightarrow> Replay_Run ms (f # flows) (f # os)"

text \<open>
  What a replay sends: all flows of the previous segment and an initial part of the flows of the
  database, each in its own order, merged in some way.
\<close>

theorem replay_merges:
  assumes "Replay_Run ms flows os"
  shows "\<exists>k. os \<in> shuffles ms (take k flows)"
  using assms
proof (induction rule: Replay_Run.induct)
  case (closed flows)
  then show ?case by (intro exI [of _ 0]) simp
next
  case (forward ms flows os m)
  then obtain k where "os \<in> shuffles ms (take k flows)" by blast
  then have "m # os \<in> shuffles (m # ms) (take k flows)" by (rule Cons_in_shuffles_leftI)
  then show ?case ..
next
  case (replayed_flow ms flows os f)
  then obtain k where "os \<in> shuffles ms (take k flows)" by blast
  then have "f # os \<in> shuffles ms (take (Suc k) (f # flows))" by (simp add: Cons_in_shuffles_rightI)
  then show ?case ..
qed

theorem replay_merges_witness: "\<exists>k. [1, 3, 2 :: nat] \<in> shuffles [1, 2] (take k [3, 4])"
proof -
  have "Replay_Run [1, 2] [3, 4] [1, 3, 2 :: nat]" by (intro Replay_Run.intros)
  then show ?thesis by (rule replay_merges)
qed

lemma zero_flow_enums: "list_all enums_ok (flow_values zero_flow)"
  by (simp add: flow_values_def flow_fields_def enum_known_def) (simp add: zero_flow_def)

lemma zero_flow_storable: "list_all storable (flow_values zero_flow)"
  by (simp add: flow_values_def flow_fields_def) (simp add: zero_flow_def)

theorem sqlite_then_replay_witness:
  "\<exists>seg es tbl flows. Sqlite_New (\<lambda>_. True) [''filename'' \<mapsto> ''x''] = Some seg
     \<and> Sqlite_Run True True (\<lambda>_. True) (\<lambda>_. True) seg [zero_flow] = Inr (es, tbl)
     \<and> readFromDB_gives (concat tbl) flows \<and> flows = [map replayed (flow_values zero_flow)]"
proof -
  obtain seg where seg: "Sqlite_New (\<lambda>_. True) [''filename'' \<mapsto> ''x''] = Some seg"
    by (simp add: Sqlite_New_def sqlite_batchsize_def choose_fields_def Let_def)
  obtain es where run: "Sqlite_Run True True (\<lambda>_. True) (\<lambda>_. True) seg [zero_flow]
      = Inr (es, map (map (flow_texts (sq_fieldNames seg))) (chunks (nat (sq_BatchSize seg)) [zero_flow]))"
    using sqlite_run [OF seg] by blast
  let ?tbl = "map (map (flow_texts (sq_fieldNames seg))) (chunks (nat (sq_BatchSize seg)) [zero_flow])"
  have "sq_fieldNames seg = field_names" using seg by (rule Sqlite_New_all_fields) simp
  then have "concat ?tbl = [map field_text (flow_values zero_flow)]"
    by (simp only: map_concat [symmetric] concat_chunks flow_texts_all list.map)
  then obtain flows where db: "readFromDB_gives (concat ?tbl) flows"
    by (simp only: readFromDB_gives_def sort_Slice_def)
      (simp add: List.map_filter_def read_row_texts [OF zero_flow_enums] zero_flow_storable)
  have e: "\<forall>m\<in>set [zero_flow]. list_all enums_ok (flow_values m)" using zero_flow_enums by simp
  have f: "cfg [''filename'' \<mapsto> ''x''] ''fields'' = []" by simp
  from sqlite_then_replay [OF seg f e run db] obtain ms' where "mset ms' = mset [zero_flow]"
    "flows = map (\<lambda>m. map replayed (flow_values m)) ms'" by (auto simp: zero_flow_storable)
  then have "flows = [map replayed (flow_values zero_flow)]" by simp
  then show ?thesis using seg run db by blast
qed

end
