(* ===== verification/TextOutputs.thy ===== *)
theory TextOutputs
  imports Reflection Filters
begin

text \<open>
  The outputs \<open>csv\<close> and \<open>json\<close> (\<open>segments/output/csv\<close>, \<open>segments/output/json\<close>). The file of a segment is
  the text written to it so far. The writer of package \<open>encoding/csv\<close> is modelled; \<open>protojson\<close> and
  the success of writes are parameters of \<open>json\<close>.
\<close>

section \<open>encoding/csv\<close>

text \<open>When a field is put in quotes, and how a record becomes a line.\<close>

definition fieldNeedsQuotes :: "string \<Rightarrow> bool" where
  "fieldNeedsQuotes f \<longleftrightarrow> f \<noteq> [] \<and>
     (f = [CHR 0x5C, CHR ''.''] \<or> (\<exists>c\<in>set f. c = CHR 0x0A \<or> c = CHR 0x0D \<or> c = CHR 0x22 \<or> c = CHR '','') \<or> is_space (hd f))"

definition escape_quotes :: "string \<Rightarrow> string" where
  "escape_quotes f = concat (map (\<lambda>c. if c = CHR 0x22 then [CHR 0x22, CHR 0x22] else [c]) f)"

definition csv_field :: "string \<Rightarrow> string" where
  "csv_field f = (if fieldNeedsQuotes f then [CHR 0x22] @ escape_quotes f @ [CHR 0x22] else f)"

definition csv_line :: "string list \<Rightarrow> string" where
  "csv_line fs = join_with '','' (map csv_field fs) @ [CHR 0x0A]"

text \<open>
  A reader of such lines, when the number of columns is known: it takes one field after the other,
  with the separator behind it.
\<close>

fun read_quoted :: "string \<Rightarrow> string \<times> string" where
  "read_quoted [] = ([], [])"
| "read_quoted (c # s) =
     (if c = CHR 0x22
      then (case s of
              [] \<Rightarrow> ([], [])
            | d # t \<Rightarrow> if d = CHR 0x22 then (let (f, r) = read_quoted t in (CHR 0x22 # f, r)) else ([], s))
      else (let (f, r) = read_quoted s in (c # f, r)))"

definition separator :: "char \<Rightarrow> bool" where
  "separator c \<longleftrightarrow> c = CHR '','' \<or> c = CHR 0x0A"

definition read_field :: "string \<Rightarrow> string \<times> string" where
  "read_field s =
     (if s \<noteq> [] \<and> hd s = CHR 0x22 then read_quoted (tl s)
      else (takeWhile (\<lambda>c. \<not> separator c) s, dropWhile (\<lambda>c. \<not> separator c) s))"

fun read_record :: "nat \<Rightarrow> string \<Rightarrow> string list \<times> string" where
  "read_record 0 s = ([], s)"
| "read_record (Suc n) s =
     (let (f, r) = read_field s; (fs, r') = read_record n (drop 1 r) in (f # fs, r'))"

fun read_records :: "nat \<Rightarrow> nat \<Rightarrow> string \<Rightarrow> string list list \<times> string" where
  "read_records n 0 s = ([], s)"
| "read_records n (Suc k) s =
     (let (fs, r) = read_record n s; (rs, r') = read_records n k r in (fs # rs, r'))"

lemma read_quoted_escape:
  "r \<noteq> [] \<Longrightarrow> hd r \<noteq> CHR 0x22 \<Longrightarrow> read_quoted (escape_quotes f @ CHR 0x22 # r) = (f, r)"
proof (induction f)
  case Nil
  then show ?case by (cases r) (auto simp: escape_quotes_def)
next
  case (Cons c f)
  then show ?case by (auto simp: escape_quotes_def)
qed

lemma read_field_csv: "separator c \<Longrightarrow> read_field (csv_field f @ c # r) = (f, c # r)"
proof -
  assume c: "separator c"
  show ?thesis
  proof (cases "fieldNeedsQuotes f")
    case True
    then show ?thesis using c read_quoted_escape [of "c # r" f]
      by (auto simp: csv_field_def read_field_def separator_def)
  next
    case False
    then have n: "\<forall>x\<in>set f. \<not> separator x \<and> x \<noteq> CHR 0x22" by (auto simp: fieldNeedsQuotes_def separator_def)
    have "takeWhile (\<lambda>c. \<not> separator c) (f @ c # r) = f" "dropWhile (\<lambda>c. \<not> separator c) (f @ c # r) = c # r"
      using n c by (auto simp: takeWhile_append dropWhile_append takeWhile_eq_all_conv dropWhile_eq_Nil_conv)
    moreover have "hd (f @ c # r) \<noteq> CHR 0x22" using n c by (cases f) (auto simp: separator_def)
    ultimately show ?thesis using False by (simp add: csv_field_def read_field_def)
  qed
qed

lemma read_record_csv: "fs \<noteq> [] \<Longrightarrow> read_record (length fs) (csv_line fs @ r) = (fs, r)"
proof (induction fs)
  case (Cons f fs)
  show ?case
  proof (cases fs)
    case Nil
    then show ?thesis using read_field_csv [of "CHR 0x0A" f r] by (simp add: csv_line_def separator_def)
  next
    case (Cons g gs)
    have "csv_line (f # fs) @ r = csv_field f @ CHR '','' # csv_line fs @ r" by (simp add: csv_line_def Cons)
    then show ?thesis using read_field_csv [of "CHR '',''" f "csv_line fs @ r"] Cons.IH Cons
      by (simp add: separator_def)
  qed
qed simp

lemma read_records_csv:
  "n \<noteq> 0 \<Longrightarrow> \<forall>fs\<in>set rs. length fs = n \<Longrightarrow> read_records n (length rs) (concat (map csv_line rs) @ r) = (rs, r)"
proof (induction rs)
  case (Cons fs rs)
  then have "fs \<noteq> []" "length fs = n" by auto
  then show ?case using Cons read_record_csv [of fs "concat (map csv_line rs) @ r"] by simp
qed simp

section \<open>csv\<close>

record Csv =
  csv_fieldNames :: "string list"
  csv_File :: out_file
  csv_text :: string

definition Csv_New :: "(string \<Rightarrow> bool) \<Rightarrow> config_map \<Rightarrow> Csv option" where
  "Csv_New create config =
     (case GetOutput create config of
        None \<Rightarrow> None
      | Some f \<Rightarrow>
          (case choose_fields trim_space (cfg config ''fields'') of
             None \<Rightarrow> None
           | Some names \<Rightarrow> Some \<lparr>csv_fieldNames = names, csv_File = f, csv_text = csv_line names\<rparr>))"

definition Csv_step :: "(Csv, EnrichedFlow) step" where
  "Csv_step s m =
     (case flow_record (csv_fieldNames s) m of
        Inl e \<Rightarrow> Inl e
      | Inr record \<Rightarrow> Inr ([Out m], s\<lparr>csv_text := csv_text s @ csv_line record\<rparr>))"

definition csv_ok :: "Csv \<Rightarrow> bool" where
  "csv_ok s \<longleftrightarrow> list_all field_exists (csv_fieldNames s)"

interpretation csv: modify_segment Csv_step "\<lambda>_ _. True" csv_ok
  by unfold_locales (auto simp: Csv_step_def csv_ok_def flow_record_ok)

lemma Csv_New_ok: "Csv_New create config = Some s \<Longrightarrow> csv_ok s \<and> csv_text s = csv_line (csv_fieldNames s) \<and> csv_fieldNames s \<noteq> []"
proof -
  have "choose_fields norm p = Some ns \<Longrightarrow> ns \<noteq> []" for norm p ns
    using split_on_nonempty field_names_nonempty by (auto simp: choose_fields_def Let_def split: if_splits)
  then show "Csv_New create config = Some s \<Longrightarrow> ?thesis"
    by (auto simp: Csv_New_def csv_ok_def choose_fields_exist split: option.splits)
qed

lemma Csv_run:
  "csv_ok s \<Longrightarrow> run_loop Csv_step s ms =
     Inr (map Out ms, s\<lparr>csv_text := csv_text s @ concat (map (\<lambda>m. csv_line (flow_texts (csv_fieldNames s) m)) ms)\<rparr>)"
  by (induction ms arbitrary: s) (simp_all add: Csv_step_def csv_ok_def flow_record_ok)

text \<open>
  C20. The file of a \<open>csv\<close> segment can be read back: after any flows, reading the text as records of
  as many columns as there are chosen fields gives the names of the fields and then, flow by flow,
  the texts of these fields, whatever characters they contain; every flow is forwarded.
\<close>

theorem csv_readable:
  assumes "Csv_New create config = Some s"
  shows "\<exists>s'. run_loop Csv_step s ms = Inr (map Out ms, s')
    \<and> read_records (length (csv_fieldNames s)) (Suc (length ms)) (csv_text s')
        = (csv_fieldNames s # map (flow_texts (csv_fieldNames s)) ms, [])"
proof -
  let ?n = "csv_fieldNames s"
  have new: "csv_ok s" "csv_text s = csv_line ?n" "?n \<noteq> []" using Csv_New_ok [OF assms] by simp_all
  define rs where "rs = ?n # map (flow_texts ?n) ms"
  have "\<forall>fs\<in>set rs. length fs = length ?n" "length rs = Suc (length ms)" by (auto simp: rs_def)
  then have "read_records (length ?n) (Suc (length ms)) (concat (map csv_line rs) @ []) = (rs, [])"
    using read_records_csv [of "length ?n" rs "[]"] new(3) by (simp del: append_Nil2)
  moreover have "concat (map csv_line rs) = csv_line ?n @ concat (map (\<lambda>m. csv_line (flow_texts ?n m)) ms)"
    by (simp add: rs_def comp_def)
  ultimately show ?thesis using Csv_run [OF new(1), of ms] new(2) by (simp add: rs_def)
qed

theorem csv_readable_witness:
  "\<exists>s s'. Csv_New (\<lambda>_. True) [''fields'' \<mapsto> ''Note, Bytes''] = Some s
     \<and> run_loop Csv_step s [zero_flow] = Inr (map Out [zero_flow], s')
     \<and> read_records 2 2 (csv_text s') = ([''Note'', ''Bytes''] # map (flow_texts [''Note'', ''Bytes'']) [zero_flow], [])"
proof -
  have sp: "map trim_space (split_on (CHR '','') ''Note, Bytes'') = [''Note'', ''Bytes'']" by code_simp
  have e: "field_exists ''Bytes'' \<and> field_exists ''Note''" by (simp add: known_fields)
  obtain s where s: "Csv_New (\<lambda>_. True) [''fields'' \<mapsto> ''Note, Bytes''] = Some s" "csv_fieldNames s = [''Note'', ''Bytes'']"
    by (simp add: Csv_New_def GetOutput_def choose_fields_def Let_def sp e del: split_on.simps)
  from csv_readable [OF s(1), of "[zero_flow]"] show ?thesis
    unfolding s(2) using s(1) by (auto simp: numeral_2_eq_2 simp del: read_records.simps list.map)
qed

section \<open>json\<close>

record Json =
  Pretty :: bool
  js_compressed :: bool
  js_text :: "string list"

definition Json_New :: "(string \<Rightarrow> bool) \<Rightarrow> config_map \<Rightarrow> Json option" where
  "Json_New create config =
     (case GetOutput create config of
        None \<Rightarrow> None
      | Some _ \<Rightarrow> Some \<lparr>Pretty = (case parse_bool (cfg config ''pretty'') of Some b \<Rightarrow> b | None \<Rightarrow> False),
                      js_compressed = (cfg config ''zstd'' \<noteq> []), js_text = []\<rparr>)"

text \<open>
  \<open>marshal\<close> is \<open>protojson\<close> with the option \<open>Multiline\<close>, \<open>write_ok\<close> says whether a text can be
  written. A flow that cannot be encoded is not forwarded. After a failed write the name of the file
  is logged; the segment's own \<open>File\<close> was never set, so this panics.
\<close>

definition Json_step :: "(bool \<Rightarrow> 'm \<Rightarrow> string option) \<Rightarrow> (string \<Rightarrow> bool) \<Rightarrow> (Json, 'm) step" where
  "Json_step marshal write_ok s m =
     (case marshal (Pretty s) m of
        None \<Rightarrow> Inr ([], s)
      | Some data \<Rightarrow>
          if write_ok data then Inr ([Out m], s\<lparr>js_text := js_text s @ [data]\<rparr>)
          else Inl (Panic ''invalid memory address or nil pointer dereference''))"

lemma json_run:
  assumes "\<forall>m\<in>set ms. \<forall>t. marshal (Pretty s) m = Some t \<longrightarrow> write_ok t"
  shows "\<exists>es s'. run_loop (Json_step marshal write_ok) s ms = Inr (es, s') \<and> drops es = []
    \<and> outs es = filter (\<lambda>m. marshal (Pretty s) m \<noteq> None) ms
    \<and> js_text s' = js_text s @ List.map_filter (marshal (Pretty s)) ms \<and> js_compressed s' = js_compressed s"
  using assms
proof (induction ms arbitrary: s)
  case (Cons m ms)
  show ?case
  proof (cases "marshal (Pretty s) m")
    case None
    then show ?thesis using Cons.IH [of s] Cons.prems
      by (auto simp: Json_step_def List.map_filter_def)
  next
    case (Some t)
    then have "write_ok t" using Cons.prems by simp
    then have st: "Json_step marshal write_ok s m = Inr ([Out m], s\<lparr>js_text := js_text s @ [t]\<rparr>)"
      by (simp add: Json_step_def Some)
    obtain es s' where "run_loop (Json_step marshal write_ok) (s\<lparr>js_text := js_text s @ [t]\<rparr>) ms = Inr (es, s')"
      "drops es = []" "outs es = filter (\<lambda>m. marshal (Pretty s) m \<noteq> None) ms"
      "js_text s' = (js_text s @ [t]) @ List.map_filter (marshal (Pretty s)) ms" "js_compressed s' = js_compressed s"
      using Cons.IH [of "s\<lparr>js_text := js_text s @ [t]\<rparr>"] Cons.prems by auto
    with st Some show ?thesis by (simp add: List.map_filter_def)
  qed
qed (simp add: List.map_filter_def)

text \<open>
  A \<open>json\<close> segment that can write forwards exactly the flows that can be encoded, and writes
  their encodings in the same order.
\<close>

theorem json_writes_encodable:
  assumes "\<forall>m\<in>set ms. \<forall>t. marshal (Pretty s) m = Some t \<longrightarrow> write_ok t"
  shows "\<exists>es s'. run_loop (Json_step marshal write_ok) s ms = Inr (es, s') \<and> drops es = []
    \<and> outs es = filter (\<lambda>m. marshal (Pretty s) m \<noteq> None) ms
    \<and> js_text s' = js_text s @ List.map_filter (marshal (Pretty s)) ms"
  using json_run [of ms marshal s write_ok] assms by blast

definition demo_marshal :: "bool \<Rightarrow> bool \<Rightarrow> string option" where
  "demo_marshal p b = (if b then Some ''{}'' else None)"

theorem json_writes_encodable_witness:
  "\<exists>es s'. run_loop (Json_step demo_marshal (\<lambda>_. True)) \<lparr>Pretty = False, js_compressed = False, js_text = []\<rparr> [True, False] = Inr (es, s')
     \<and> outs es = [True] \<and> js_text s' = [''{}'']"
proof -
  have "filter (\<lambda>m. demo_marshal False m \<noteq> None) [True, False] = [True]"
    "List.map_filter (demo_marshal False) [True, False] = [''{}'']"
    by (simp_all add: demo_marshal_def List.map_filter_def)
  then show ?thesis
    using json_writes_encodable [of "[True, False]" demo_marshal "\<lparr>Pretty = False, js_compressed = False, js_text = []\<rparr>" "\<lambda>_. True"]
    by (simp del: run_loop.simps filter.simps List.map_filter_simps) blast
qed

end
