(* ===== verification/Routing.thy ===== *)
theory Routing
  imports FlowMessage GoFloat Segments
begin

text \<open>
  The segments \<open>bgp\<close> and \<open>aslookup\<close> (\<open>segments/modify/bgp\<close>, \<open>segments/modify/aslookup\<close>), which annotate
  flows with routing information. The BGP sessions (package \<open>routeinfo\<close>), the database of package
  \<open>asnlookup\<close>, the parsers of files and \<open>net.ParseIP\<close> are parameters; a lookup is a function from the
  text of an address to the known paths.
\<close>

section \<open>bgp\<close>

datatype validation = ri_Valid | ri_NotFound | ri_Invalid | ri_Other

record RouteInfo =
  ri_Best :: bool
  ri_AsPath :: "u32 list"
  ri_Validation :: validation
  ri_Med :: u32
  ri_LocalPref :: u32
  ri_NextHop :: string

type_synonym routers = "string \<rightharpoonup> (string \<Rightarrow> RouteInfo list)"

record Bgp =
  bgp_FileName :: string
  FallbackRouter :: string
  UseFallbackOnly :: bool
  RouterASN :: u32
  Routers :: routers

text \<open>The value under the key \<open>asn\<close> of the session file, when the file has it.\<close>

datatype yaml_value = YInt int | YFloat rat | YString string | YOther

definition router_asn :: "(rat \<Rightarrow> u32) \<Rightarrow> yaml_value option \<Rightarrow> u32" where
  "router_asn f64_to_u32 v =
     (case v of
        Some (YInt n) \<Rightarrow> word_of_int n
      | Some (YFloat q) \<Rightarrow> f64_to_u32 q
      | Some (YString s) \<Rightarrow> (case parse_uint 32 s of Some n \<Rightarrow> of_nat n | None \<Rightarrow> 0)
      | _ \<Rightarrow> 0)"

text \<open>
  \<open>New\<close>: \<open>sessions\<close> is the result of reading and parsing the session file, \<open>None\<close> for an error.
\<close>

definition Bgp_New ::
  "(rat \<Rightarrow> u32) \<Rightarrow> (string \<Rightarrow> (routers \<times> yaml_value option) option) \<Rightarrow> config_map \<Rightarrow> Bgp option" where
  "Bgp_New f64_to_u32 sessions config =
     (case sessions (cfg config ''filename'') of
        None \<Rightarrow> None
      | Some (rs, asn) \<Rightarrow>
          if \<exists>fallback. config ''fallbackrouter'' = Some fallback \<and> rs fallback = None then None
          else
            let fallbackonly = parse_bool_or_false (cfg config ''usefallbackonly'') in
            if fallbackonly \<and> cfg config ''fallbackrouter'' = [] then None
            else Some \<lparr>bgp_FileName = cfg config ''filename'', FallbackRouter = cfg config ''fallbackrouter'',
                       UseFallbackOnly = fallbackonly, RouterASN = router_asn f64_to_u32 asn, Routers = rs\<rparr>)"

text \<open>The first path that is marked as best and has an AS path.\<close>

definition best_path :: "RouteInfo list \<Rightarrow> RouteInfo option" where
  "best_path ps = find (\<lambda>p. ri_Best p \<and> ri_AsPath p \<noteq> []) ps"

fun validation_status :: "validation \<Rightarrow> ValidationStatusType" where
  "validation_status ri_Valid = EnrichedFlow_Valid"
| "validation_status ri_NotFound = EnrichedFlow_NotFound"
| "validation_status ri_Invalid = EnrichedFlow_Invalid"
| "validation_status ri_Other = EnrichedFlow_Unknown"

text \<open>
  The session a flow is looked up in: \<open>None\<close> when the flow is forwarded as it is, a panic when the
  named router does not exist (a nil pointer).
\<close>

definition bgp_router :: "Bgp \<Rightarrow> EnrichedFlow \<Rightarrow> (string \<Rightarrow> RouteInfo list) option outcome" where
  "bgp_router seg m =
     (let named = (\<lambda>n. case Routers seg n of
                         Some r \<Rightarrow> Inr (Some r)
                       | None \<Rightarrow> Inl (Panic ''invalid memory address or nil pointer dereference''))
      in if UseFallbackOnly seg then named (FallbackRouter seg)
         else (case Routers seg (ip_str (SamplerAddressObj m)) of
                 Some r \<Rightarrow> Inr (Some r)
               | None \<Rightarrow> if FallbackRouter seg \<noteq> [] then named (FallbackRouter seg) else Inr None))"

text \<open>The two halves of the annotation: the message with its \<open>AsPath\<close> so far, and the path of the side.\<close>

definition bgp_source :: "Bgp \<Rightarrow> RouteInfo list \<Rightarrow> EnrichedFlow \<Rightarrow> EnrichedFlow \<times> u32 list" where
  "bgp_source seg paths m =
     (let (m1, src) =
            (case best_path paths of
               None \<Rightarrow> (m, [])
             | Some p \<Rightarrow> (m\<lparr>AsPath := rev (ri_AsPath p), ValidationStatus := validation_status (ri_Validation p)\<rparr>,
                         rev (ri_AsPath p)))
      in if RouterASN seg \<noteq> 0 then (m1\<lparr>AsPath := AsPath m1 @ [RouterASN seg]\<rparr>, src @ [RouterASN seg]) else (m1, src))"

definition bgp_destination ::
  "(string \<Rightarrow> u8 list option) \<Rightarrow> Bgp \<Rightarrow> RouteInfo list \<Rightarrow> EnrichedFlow \<Rightarrow> EnrichedFlow \<times> u32 list" where
  "bgp_destination ParseIP seg paths m =
     (case best_path paths of
        None \<Rightarrow> (m, [])
      | Some p \<Rightarrow>
          let dst = RouterASN seg # ri_AsPath p;
              m1 = m\<lparr>AsPath := AsPath m @ dst, Med := ri_Med p, LocalPref := ri_LocalPref p,
                     ValidationStatus := validation_status (ri_Validation p),
                     DstAs := last (ri_AsPath p), NextHopAs := hd (ri_AsPath p)\<rparr>
          in (case ParseIP (ri_NextHop p) of Some nh \<Rightarrow> m1\<lparr>NextHop := Some nh\<rparr> | None \<Rightarrow> m1, dst))"

definition Bgp_step :: "(string \<Rightarrow> u8 list option) \<Rightarrow> (Bgp, EnrichedFlow) step" where
  "Bgp_step ParseIP seg m =
     (case bgp_router seg m of
        Inl e \<Rightarrow> Inl e
      | Inr None \<Rightarrow> Inr ([Out m], seg)
      | Inr (Some look) \<Rightarrow>
          let (m1, src) = bgp_source seg (look (ip_str (SrcAddrObj m))) m;
              (m2, dst) = bgp_destination ParseIP seg (look (ip_str (DstAddrObj m))) m1
          in Inr ([Out (m2\<lparr>SrcAsPath := src, DstAsPath := dst\<rparr>)], seg))"

definition bgp_ok :: "Bgp \<Rightarrow> bool" where
  "bgp_ok seg \<longleftrightarrow> (UseFallbackOnly seg \<longrightarrow> FallbackRouter seg \<noteq> [])
     \<and> (FallbackRouter seg \<noteq> [] \<longrightarrow> Routers seg (FallbackRouter seg) \<noteq> None)"

lemma bgp_router_ok: "bgp_ok seg \<Longrightarrow> \<exists>r. bgp_router seg m = Inr r"
  by (auto simp: bgp_ok_def bgp_router_def Let_def split: option.splits)

lemma Bgp_New_ok: "Bgp_New f sessions config = Some seg \<Longrightarrow> bgp_ok seg"
  by (auto simp: Bgp_New_def bgp_ok_def Let_def cfg_def split: option.splits if_splits)

interpretation bgp: modify_segment "Bgp_step ParseIP" "\<lambda>_ _. True" bgp_ok for ParseIP
proof
  show "\<exists>m' s'. Bgp_step ParseIP s m = Inr ([Out m'], s')" if "bgp_ok s" for s m
    using bgp_router_ok [OF that, of m] by (auto simp: Bgp_step_def Let_def split: option.splits prod.splits)
  show "bgp_ok s' \<and> (\<lambda>_. True) = (\<lambda>_. True)" if "bgp_ok s" "Bgp_step ParseIP s m = Inr (es, s')" for s m es s'
    using that by (auto simp: Bgp_step_def Let_def split: option.splits sum.splits prod.splits)
qed

text \<open>
  A \<open>bgp\<close> segment that could be configured never fails: it forwards exactly one flow for each
  flow, whatever the sessions answer.
\<close>

theorem bgp_total:
  assumes "Bgp_New f64_to_u32 sessions config = Some seg"
  shows "\<exists>es s'. run_loop (Bgp_step ParseIP) seg ms = Inr (es, s') \<and> drops es = [] \<and> length (outs es) = length ms"
  using bgp.run_one_each [OF Bgp_New_ok [OF assms]] by simp

text \<open>
  The AS paths of a flow whose addresses both have a best path: the path of the source is
  reversed and ends with the own AS when that is known; the path of the destination begins with the
  own AS, also when it is unknown and written as 0; \<open>AsPath\<close> is both paths in a row, so that a known
  own AS is in it twice; the next hop and the destination AS are the first and the last of the path.
\<close>

theorem bgp_paths:
  assumes "bgp_router seg m = Inr (Some look)"
    and "best_path (look (ip_str (SrcAddr m))) = Some p" "best_path (look (ip_str (DstAddr m))) = Some q"
  shows "\<exists>m'. Bgp_step ParseIP seg m = Inr ([Out m'], seg)
    \<and> SrcAsPath m' = rev (ri_AsPath p) @ (if RouterASN seg = 0 then [] else [RouterASN seg])
    \<and> DstAsPath m' = RouterASN seg # ri_AsPath q
    \<and> AsPath m' = SrcAsPath m' @ DstAsPath m'
    \<and> DstAs m' = last (ri_AsPath q) \<and> NextHopAs m' = hd (ri_AsPath q)
    \<and> Med m' = ri_Med q \<and> LocalPref m' = ri_LocalPref q
    \<and> ValidationStatus m' = validation_status (ri_Validation q)"
  using assms
  by (cases "RouterASN seg = 0"; cases "ParseIP (ri_NextHop q)")
    (simp_all add: Bgp_step_def bgp_source_def bgp_destination_def Let_def SrcAddrObj_def DstAddrObj_def)

text \<open>
  Without a session for the exporting router and without a fallback the flow is forwarded as it
  is; when neither address has a best path, the paths of the flow are those of the own AS.
\<close>

theorem bgp_unknown:
  shows "bgp_router seg m = Inr None \<Longrightarrow> Bgp_step ParseIP seg m = Inr ([Out m], seg)"
    and "bgp_router seg m = Inr (Some look) \<Longrightarrow> best_path (look (ip_str (SrcAddr m))) = None \<Longrightarrow>
      best_path (look (ip_str (DstAddr m))) = None \<Longrightarrow>
      Bgp_step ParseIP seg m = Inr ([Out (m\<lparr>AsPath := AsPath m @ (if RouterASN seg = 0 then [] else [RouterASN seg]),
        SrcAsPath := (if RouterASN seg = 0 then [] else [RouterASN seg]), DstAsPath := []\<rparr>)], seg)"
  by (simp_all add: Bgp_step_def bgp_source_def bgp_destination_def Let_def SrcAddrObj_def DstAddrObj_def)

definition demo_route :: "u32 list \<Rightarrow> RouteInfo" where
  "demo_route p = \<lparr>ri_Best = True, ri_AsPath = p, ri_Validation = ri_Valid, ri_Med = 1, ri_LocalPref = 2, ri_NextHop = []\<rparr>"

definition demo_bgp :: Bgp where
  "demo_bgp = \<lparr>bgp_FileName = ''s'', FallbackRouter = ''r'', UseFallbackOnly = True, RouterASN = 7,
     Routers = [''r'' \<mapsto> (\<lambda>_. [demo_route [8, 9]])]\<rparr>"

theorem bgp_total_witness:
  "\<exists>seg es s'. Bgp_New (\<lambda>_. 0) (\<lambda>_. Some (Map.empty, None)) Map.empty = Some seg
     \<and> run_loop (Bgp_step (\<lambda>_. None)) seg [zero_flow] = Inr (es, s') \<and> length (outs es) = 1"
proof -
  obtain seg where seg: "Bgp_New (\<lambda>_. 0) (\<lambda>_. Some (Map.empty, None)) Map.empty = Some seg"
    by (simp add: Bgp_New_def parse_bool_or_false_def parse_bool_def)
  then show ?thesis using bgp_total [OF seg, of "\<lambda>_. None" "[zero_flow]"]
    by (simp del: run_loop.simps) blast
qed

theorem bgp_paths_witness:
  "\<exists>m'. Bgp_step (\<lambda>_. None) demo_bgp zero_flow = Inr ([Out m'], demo_bgp)
     \<and> AsPath m' = [9, 8, 7, 7, 8, 9] \<and> SrcAsPath m' = [9, 8, 7] \<and> DstAs m' = 9"
proof -
  have "bgp_router demo_bgp zero_flow = Inr (Some (\<lambda>_. [demo_route [8, 9]]))"
    by (simp add: bgp_router_def demo_bgp_def)
  moreover have "best_path [demo_route [8, 9]] = Some (demo_route [8, 9])"
    by (simp add: best_path_def demo_route_def)
  moreover have "ri_AsPath (demo_route [8, 9]) = [8, 9]" "RouterASN demo_bgp = 7"
    by (simp_all add: demo_route_def demo_bgp_def)
  ultimately show ?thesis using bgp_paths [of demo_bgp zero_flow "\<lambda>_. [demo_route [8, 9]]"] by force
qed

section \<open>aslookup\<close>

record 'db AsLookup =
  as_FileName :: string
  as_Type :: string
  asDatabase :: 'db

text \<open>
  \<open>New\<close>: \<open>load\<close> reads the file as a database dump or as an MRT file; \<open>None\<close> means that it cannot be
  opened. Errors of the parsers are only logged, so the database may be nil.
\<close>

definition AsLookup_New :: "(string \<Rightarrow> string \<Rightarrow> 'db option) \<Rightarrow> config_map \<Rightarrow> 'db AsLookup option" where
  "AsLookup_New load config =
     (let t = (if cfg config ''type'' = ''mrt'' then ''mrt'' else ''db'') in
      if cfg config ''filename'' = [] then None
      else case load t (cfg config ''filename'') of
        None \<Rightarrow> None
      | Some db \<Rightarrow> Some \<lparr>as_FileName = cfg config ''filename'', as_Type = t, asDatabase = db\<rparr>)"

text \<open>\<open>lookup db text\<close> is the lookup of the parsed text of an address; \<open>None\<close> is an error.\<close>

definition AsLookup_edit :: "('db \<Rightarrow> string \<Rightarrow> u32 option) \<Rightarrow> 'db AsLookup \<Rightarrow> EnrichedFlow \<Rightarrow> EnrichedFlow" where
  "AsLookup_edit lookup seg m =
     (case lookup (asDatabase seg) (ip_str (DstAddrObj m)) of
        None \<Rightarrow> m
      | Some dst \<Rightarrow>
          (case lookup (asDatabase seg) (ip_str (SrcAddrObj m)) of
             None \<Rightarrow> m\<lparr>DstAs := dst\<rparr>
           | Some src \<Rightarrow> m\<lparr>DstAs := dst, SrcAs := src\<rparr>))"

definition AsLookup_step :: "('db \<Rightarrow> string \<Rightarrow> u32 option) \<Rightarrow> ('db AsLookup, EnrichedFlow) step" where
  "AsLookup_step lookup = edit_step (AsLookup_edit lookup)"

text \<open>
  \<open>aslookup\<close> forwards every flow; it writes the AS of the destination when it is found, and the AS
  of the source only when both are found; other fields stay as they are.
\<close>

theorem aslookup_annotates:
  "run_loop (AsLookup_step lookup) seg ms = Inr (map (\<lambda>m. Out (AsLookup_edit lookup seg m)) ms, seg)
   \<and> AsLookup_edit lookup seg m =
       m\<lparr>DstAs := (case lookup (asDatabase seg) (ip_str (DstAddr m)) of Some a \<Rightarrow> a | None \<Rightarrow> DstAs m),
         SrcAs := (case (lookup (asDatabase seg) (ip_str (DstAddr m)), lookup (asDatabase seg) (ip_str (SrcAddr m))) of
                     (Some _, Some a) \<Rightarrow> a | _ \<Rightarrow> SrcAs m)\<rparr>"
  by (simp add: AsLookup_step_def run_edit_step AsLookup_edit_def SrcAddrObj_def DstAddrObj_def split: option.splits)

end
