(* ===== verification/DropFields.thy ===== *)
theory DropFields
  imports Reflection Segments
begin

text \<open>
  The segment \<open>dropfields\<close> (\<open>segments/modify/dropfields\<close>), which clears fields of a flow, or all other
  fields. It works through package \<open>reflect\<close> only; a flow is seen here as the map from the names of
  its exported fields to their values.
\<close>

type_synonym flow_view = "string \<rightharpoonup> goval"

datatype Policy = PolicyDrop | PolicyKeep

record DropFields =
  df_Policy :: Policy
  df_Fields :: "string list"

section \<open>Configuration\<close>

text \<open>\<open>FieldSplitRegex.Split(s, -1)\<close> for the expression of white space, commas, semicolons and colons.\<close>

definition is_split :: "char \<Rightarrow> bool" where
  "is_split c \<longleftrightarrow> (of_char c :: nat) \<in> {9, 10, 12, 13, 32} \<or> c = CHR '','' \<or> c = CHR '';'' \<or> c = CHR '':''"

function regex_split :: "string \<Rightarrow> string list" where
  "regex_split s =
     (let w = takeWhile (\<lambda>c. \<not> is_split c) s; r = dropWhile (\<lambda>c. \<not> is_split c) s
      in if r = [] then [w] else w # regex_split (dropWhile is_split r))"
  by pat_completeness auto
termination
proof (relation "measure length", simp)
  fix s w r :: string
  assume r: "r = dropWhile (\<lambda>c. \<not> is_split c) s" "r \<noteq> []"
  then have "is_split (hd r)" by (metis hd_dropWhile)
  with r(2) have "length (dropWhile is_split r) < length r"
    by (cases r) (auto simp: le_imp_less_Suc length_dropWhile_le)
  also have "\<dots> \<le> length s" using r(1) by (simp add: length_dropWhile_le)
  finally show "(dropWhile is_split r, s) \<in> measure length" by simp
qed

declare regex_split.simps [simp del]

definition DropFields_New :: "config_map \<Rightarrow> DropFields outcome" where
  "DropFields_New config =
     (let fields' = regex_split (trim_space (cfg config ''fields'')) in
      if cfg config ''policy'' = ''keep'' then Inr \<lparr>df_Policy = PolicyKeep, df_Fields = fields'\<rparr>
      else if cfg config ''policy'' = ''drop'' then Inr \<lparr>df_Policy = PolicyDrop, df_Fields = fields'\<rparr>
      else Inl (Fatal ''DropFields: The policy parameter is required to be either keep or drop.''))"

lemma regex_split_ne: "regex_split s \<noteq> []"
  by (subst regex_split.simps) (simp add: Let_def)

lemma regex_split_word: "\<forall>c\<in>set w. \<not> is_split c \<Longrightarrow> regex_split w = [w]"
proof -
  assume a: "\<forall>c\<in>set w. \<not> is_split c"
  then have "dropWhile (\<lambda>c. \<not> is_split c) w = []" "takeWhile (\<lambda>c. \<not> is_split c) w = w" by auto
  then show ?thesis by (subst regex_split.simps) (simp add: Let_def)
qed

lemma regex_split_append:
  assumes "\<forall>c\<in>set w. \<not> is_split c" "sep \<noteq> []" "\<forall>c\<in>set sep. is_split c" "s \<noteq> []" "\<not> is_split (hd s)"
  shows "regex_split (w @ sep @ s) = w # regex_split s"
proof -
  obtain c sep' where c: "sep = c # sep'" using assms(2) by (cases sep) auto
  have 1: "takeWhile (\<lambda>c. \<not> is_split c) (w @ sep @ s) = w" "dropWhile (\<lambda>c. \<not> is_split c) (w @ sep @ s) = sep @ s"
    using assms(1,3) c by (auto simp: takeWhile_append dropWhile_append)
  have "dropWhile is_split s = s" using assms(4,5) by (cases s) auto
  then have 2: "dropWhile is_split (sep @ s) = s" using assms(3) by (auto simp: dropWhile_append)
  show ?thesis by (subst regex_split.simps) (simp add: Let_def 1 2 assms(2))
qed

text \<open>
  Field names joined by any separators (white space, commas, semicolons, colons, or several of
  them) are split into exactly these names.
\<close>

theorem dropfields_splits:
  assumes "ws \<noteq> []" "\<forall>w\<in>set ws. w \<noteq> [] \<and> (\<forall>c\<in>set w. \<not> is_split c)" "sep \<noteq> []" "\<forall>c\<in>set sep. is_split c"
  shows "regex_split (join_with sep ws) = ws"
  using assms
proof (induction sep ws rule: join_with.induct)
  case (3 sep w v ws)
  have "join_with sep (v # ws) \<noteq> []" "\<not> is_split (hd (join_with sep (v # ws)))"
    using 3(3) by (cases ws; cases v; auto)+
  then have "regex_split (w @ sep @ join_with sep (v # ws)) = w # regex_split (join_with sep (v # ws))"
    using 3 by (intro regex_split_append) auto
  then show ?case using 3 by simp
qed (auto simp: regex_split_word)

theorem dropfields_splits_witness: "regex_split ''Bytes, Note'' = [''Bytes'', ''Note'']"
  using dropfields_splits [of "[''Bytes'', ''Note'']" "'', ''"] by (simp add: is_split_def)

section \<open>Editing a flow\<close>

text \<open>
  \<open>PolicyKeep\<close> copies the named fields into an empty flow and ends the process at a name that is not
  a settable field; \<open>PolicyDrop\<close> clears the named fields and ignores other names.
\<close>

fun keep_fields :: "string list \<Rightarrow> flow_view \<Rightarrow> flow_view \<Rightarrow> flow_view outcome" where
  "keep_fields [] original result = Inr result"
| "keep_fields (n # ns) original result =
     (case original n of
        None \<Rightarrow> Inl (Fatal (''DropFields: Field '' @ n @ '' is not valid or can not be set.''))
      | Some v \<Rightarrow> keep_fields ns original (result(n \<mapsto> v)))"

fun drop_fields :: "string list \<Rightarrow> flow_view \<Rightarrow> flow_view" where
  "drop_fields [] original = original"
| "drop_fields (n # ns) original =
     drop_fields ns (case (original n, FieldByName zero_flow n) of
                       (Some _, Some z) \<Rightarrow> original(n \<mapsto> z) | _ \<Rightarrow> original)"

definition DropFields_step :: "(DropFields, flow_view) step" where
  "DropFields_step seg original =
     (case df_Policy seg of
        PolicyKeep \<Rightarrow>
          (case keep_fields (df_Fields seg) original (FieldByName zero_flow) of
             Inl e \<Rightarrow> Inl e
           | Inr r \<Rightarrow> Inr ([Out r], seg))
      | PolicyDrop \<Rightarrow> Inr ([Out (drop_fields (df_Fields seg) original)], seg))"

lemma keep_fields_all:
  "\<forall>n\<in>set ns. original n \<noteq> None \<Longrightarrow>
     keep_fields ns original result = Inr (\<lambda>n. if n \<in> set ns then original n else result n)"
  by (induction ns arbitrary: result) (auto simp: fun_eq_iff)

lemma keep_fields_unknown: "\<not> (\<forall>n\<in>set ns. original n \<noteq> None) \<Longrightarrow> \<exists>t. keep_fields ns original result = Inl (Fatal t)"
  by (induction ns arbitrary: result) (auto split: option.splits)

lemma drop_fields_all:
  "dom original = dom (FieldByName zero_flow) \<Longrightarrow>
     drop_fields ns original = (\<lambda>n. if n \<in> set ns then FieldByName zero_flow n else original n)"
proof (induction ns arbitrary: original)
  case (Cons n ns)
  show ?case
  proof (cases "FieldByName zero_flow n")
    case None
    then have "original n = None" using Cons.prems by (metis domIff)
    then show ?thesis using Cons None by (auto simp: fun_eq_iff)
  next
    case (Some z)
    then obtain v where v: "original n = Some v" using Cons.prems by (metis domD domI)
    have "dom (original(n \<mapsto> z)) = dom (FieldByName zero_flow)" using Cons.prems v by auto
    note ih = Cons.IH [OF this]
    have "drop_fields (n # ns) original = drop_fields ns (original(n \<mapsto> z))" using Some v by simp
    then show ?thesis unfolding ih using Some by (auto simp: fun_eq_iff)
  qed
qed simp

lemma FieldByName_dom: "dom (FieldByName f) = {n. field_exists n}"
  by (auto simp: FieldByName_def field_exists_def)

text \<open>
  What \<open>dropfields\<close> does to a flow: with \<open>keep\<close> exactly the named fields keep their values and all
  others get their zero value, but a name that is not a field ends the process; with \<open>drop\<close> exactly
  the named fields get their zero value, and unknown names have no effect.
\<close>

theorem dropfields_exact:
  "DropFields_step \<lparr>df_Policy = PolicyDrop, df_Fields = ns\<rparr> (FieldByName f)
     = Inr ([Out (\<lambda>n. FieldByName (if n \<in> set ns then zero_flow else f) n)], \<lparr>df_Policy = PolicyDrop, df_Fields = ns\<rparr>)
   \<and> (if \<forall>n\<in>set ns. field_exists n
      then DropFields_step \<lparr>df_Policy = PolicyKeep, df_Fields = ns\<rparr> (FieldByName f)
        = Inr ([Out (\<lambda>n. FieldByName (if n \<in> set ns then f else zero_flow) n)], \<lparr>df_Policy = PolicyKeep, df_Fields = ns\<rparr>)
      else \<exists>t. DropFields_step \<lparr>df_Policy = PolicyKeep, df_Fields = ns\<rparr> (FieldByName f) = Inl (Fatal t))"
proof -
  have dom: "dom (FieldByName f) = dom (FieldByName zero_flow)" by (simp add: FieldByName_dom)
  have ex: "field_exists n \<longleftrightarrow> FieldByName f n \<noteq> None" for n
    by (simp add: FieldByName_def field_exists_def)
  have "drop_fields ns (FieldByName f) = (\<lambda>n. FieldByName (if n \<in> set ns then zero_flow else f) n)"
    using drop_fields_all [OF dom] by auto
  moreover have "(if \<forall>n\<in>set ns. field_exists n
      then keep_fields ns (FieldByName f) (FieldByName zero_flow) = Inr (\<lambda>n. FieldByName (if n \<in> set ns then f else zero_flow) n)
      else \<exists>t. keep_fields ns (FieldByName f) (FieldByName zero_flow) = Inl (Fatal t))"
    using keep_fields_all [of ns "FieldByName f"] keep_fields_unknown [of ns "FieldByName f"] ex by (auto simp: fun_eq_iff)
  ultimately show ?thesis by (auto simp: DropFields_step_def split: if_splits)
qed

theorem dropfields_exact_witness:
  "DropFields_step \<lparr>df_Policy = PolicyDrop, df_Fields = [''Bytes'']\<rparr> (FieldByName zero_flow)
     = Inr ([Out (\<lambda>n. FieldByName (if n \<in> set [''Bytes''] then zero_flow else zero_flow) n)],
            \<lparr>df_Policy = PolicyDrop, df_Fields = [''Bytes'']\<rparr>)"
  using dropfields_exact [of "[''Bytes'']" zero_flow] by blast

text \<open>
  An empty option \<open>fields\<close> is never recognised as empty: splitting gives one empty name, and with
  \<open>keep\<close> the first flow ends the process.
\<close>

theorem dropfields_empty_fatal:
  "\<exists>seg t. DropFields_New [''policy'' \<mapsto> ''keep''] = Inr seg \<and> df_Fields seg = [''''] \<and>
     run_loop DropFields_step seg (FieldByName f # ms) = Inl (Fatal t)"
proof -
  have "regex_split [] = ['''']" using regex_split_word [of "[]"] by simp
  then have "DropFields_New [''policy'' \<mapsto> ''keep''] = Inr \<lparr>df_Policy = PolicyKeep, df_Fields = ['''']\<rparr>"
    by (simp add: DropFields_New_def trim_space_def)
  moreover have "FieldByName f '''' = None" unfolding field_lookup by simp
  then have "\<exists>t. run_loop DropFields_step \<lparr>df_Policy = PolicyKeep, df_Fields = ['''']\<rparr> (FieldByName f # ms) = Inl (Fatal t)"
    by (simp add: DropFields_step_def)
  ultimately show ?thesis by auto
qed

end
