(* ===== verification/Metrics.thy ===== *)
theory Metrics
  imports Reflection GoFloat Segments
begin

text \<open>
  The segments that publish metrics of single flows: the output \<open>prometheus\<close>
  (\<open>segments/output/prometheus\<close>) and \<open>delay_monitoring\<close> (\<open>segments/meta/monitoring\<close>). A counter vector of the
  client library is a function from label values to a \<open>float64\<close>. The HTTP endpoints and the
  vacuum job are in the theory \<open>MetricsServer\<close>.
\<close>

section \<open>Float arithmetic of counters\<close>

definition f64_add :: "rat \<Rightarrow> rat \<Rightarrow> rat" where
  "f64_add x y = f64 (x + y)"

definition f64_sub :: "rat \<Rightarrow> rat \<Rightarrow> rat" where
  "f64_sub x y = f64 (x - y)"

section \<open>prometheus: configuration\<close>

record Prometheus =
  Endpoint :: string
  MetricsPath :: string
  FlowdataPath :: string
  Labels :: "string list"
  VacuumInterval :: "int option"
  ExportASPathPairs :: bool
  ExportASPaths' :: bool

definition prom_default :: "string \<Rightarrow> string \<Rightarrow> string" where
  "prom_default v dflt = (if v = [] then dflt else v)"

text \<open>
  The labels are looked up with \<open>FieldByName\<close> only: the unexported fields of the struct are found too.
\<close>

definition unexported_fields :: "string list" where
  "unexported_fields = [''state'', ''unknownFields'', ''sizeCache'']"

definition prom_labels :: "string \<Rightarrow> string list option" where
  "prom_labels v =
     (let labels = map trim_space (split_on (CHR '','') (prom_default v ''Etype,Proto''))
      in if list_all (\<lambda>n. field_exists n \<or> n \<in> set unexported_fields) labels then Some labels else None)"

definition Prometheus_New :: "(string \<Rightarrow> int option) \<Rightarrow> config_map \<Rightarrow> Prometheus option" where
  "Prometheus_New ParseDuration config =
     (case prom_labels (cfg config ''labels'') of
        None \<Rightarrow> None
      | Some labels \<Rightarrow>
          Some \<lparr>Endpoint = prom_default (cfg config ''endpoint'') '':8080'',
                MetricsPath = prom_default (cfg config ''metricspath'') ''/metrics'',
                FlowdataPath = prom_default (cfg config ''flowdatapath'') ''/flowdata'',
                Labels = labels,
                VacuumInterval = (if cfg config ''vacuum_interval'' \<noteq> [] then ParseDuration (cfg config ''vacuum_interval'') else None),
                ExportASPathPairs = (to_lower (cfg config ''export_as_pairs'') = ''true''),
                ExportASPaths' = (to_lower (cfg config ''export_as_paths'') = ''true'')\<rparr>)"

section \<open>prometheus: counters\<close>

record Exporter =
  kafkaMessageCount :: rat
  kafkaOffsets :: "string \<times> string \<Rightarrow> rat"
  flowBits :: "string list \<Rightarrow> rat"
  flowAsPairsBytes :: "string \<times> string \<times> string \<Rightarrow> rat"
  flowAsPathBytes :: "string \<Rightarrow> rat"

definition new_exporter :: Exporter where
  "new_exporter = \<lparr>kafkaMessageCount = 0, kafkaOffsets = (\<lambda>_. 0), flowBits = (\<lambda>_. 0), flowAsPairsBytes = (\<lambda>_. 0), flowAsPathBytes = (\<lambda>_. 0)\<rparr>"

text \<open>
  \<open>Initialize\<close>: \<open>MustRegister\<close> panics on a description in which a label name is repeated. All field names
  are valid label names.
\<close>

definition Initialize :: "string list \<Rightarrow> Exporter outcome" where
  "Initialize labels =
     (if distinct labels then Inr new_exporter
      else Inl (Panic ''duplicate label names in constant and variable labels for metric flow_bits''))"

text \<open>\<open>WithLabelValues(k).Add(x)\<close>.\<close>

definition counter_add :: "('k \<Rightarrow> rat) \<Rightarrow> 'k \<Rightarrow> rat \<Rightarrow> ('k \<Rightarrow> rat)" where
  "counter_add c k x = c(k := f64_add (c k) x)"

definition Increment :: "u64 \<Rightarrow> u64 \<Rightarrow> string list \<Rightarrow> Exporter \<Rightarrow> Exporter" where
  "Increment bytes packets labelset e =
     e\<lparr>kafkaMessageCount := f64_add (kafkaMessageCount e) 1,
       flowBits := counter_add (flowBits e) labelset (f64_mul (u64_to_f64 bytes) 8)\<rparr>"

definition ResetCounter :: "Exporter \<Rightarrow> Exporter" where
  "ResetCounter e = e\<lparr>kafkaOffsets := (\<lambda>_. 0), flowBits := (\<lambda>_. 0), kafkaMessageCount := 0\<rparr>"

text \<open>\<open>IncrementCtrl\<close> adds the offset itself to a counter, which refuses a negative amount with a panic.\<close>

definition IncrementCtrl :: "string \<Rightarrow> 32 word \<Rightarrow> 64 word \<Rightarrow> Exporter \<Rightarrow> Exporter outcome" where
  "IncrementCtrl topic prt offset e =
     (if sint offset < 0 then Inl (Panic ''counter cannot decrease in value'')
      else Inr (e\<lparr>kafkaOffsets := counter_add (kafkaOffsets e) (topic, dec_int (sint prt)) (f64 (of_int (sint offset)))\<rparr>))"

fun dedup_loop :: "u32 list \<Rightarrow> u32 list \<Rightarrow> u32 list" where
  "dedup_loop deduped [] = deduped"
| "dedup_loop deduped (asn # rest) = dedup_loop (if asn \<noteq> last deduped then deduped @ [asn] else deduped) rest"

definition DedupConsecutiveASNs :: "u32 list \<Rightarrow> u32 list" where
  "DedupConsecutiveASNs asPath = (case asPath of [] \<Rightarrow> [] | a # rest \<Rightarrow> dedup_loop [a] rest)"

definition asn_text :: "u32 \<Rightarrow> string" where
  "asn_text a = dec (unat a)"

text \<open>The pairs of neighbours, in the order of the loop over the indices.\<close>

definition hops :: "u32 list \<Rightarrow> (u32 \<times> u32) list" where
  "hops p = map (\<lambda>i. (p ! i, p ! Suc i)) [0..<length p - 1]"

definition as_pairs :: "u32 list \<Rightarrow> string \<Rightarrow> (u32 \<times> u32) list" where
  "as_pairs asPath direction =
     (let p = DedupConsecutiveASNs asPath in
      if length p < 2 then []
      else (if direction = ''Source'' then (hd p, hd p) # hops p else [])
         @ (if direction = ''Destination'' then hops p @ [(last p, last p)] else []))"

definition ExportASPathPairsWithDirection :: "u32 list \<Rightarrow> string \<Rightarrow> EnrichedFlow \<Rightarrow> Exporter \<Rightarrow> Exporter" where
  "ExportASPathPairsWithDirection asPath direction flow e =
     e\<lparr>flowAsPairsBytes :=
         fold (\<lambda>(a, b) c. counter_add c (asn_text a, asn_text b, direction) (u64_to_f64 (Bytes flow)))
           (as_pairs asPath direction) (flowAsPairsBytes e)\<rparr>"

definition ExportASPaths :: "EnrichedFlow \<Rightarrow> Exporter \<Rightarrow> Exporter" where
  "ExportASPaths flow e =
     (let p = DedupConsecutiveASNs (AsPath flow) in
      if length p < 2 then e
      else e\<lparr>flowAsPathBytes := counter_add (flowAsPathBytes e) (bracketed (map asn_text p)) (u64_to_f64 (Bytes flow))\<rparr>)"

definition Prometheus_step :: "(Prometheus \<times> Exporter, EnrichedFlow) step" where
  "Prometheus_step = (\<lambda>(seg, e) m.
     (case flow_record (Labels seg) m of
        Inl err \<Rightarrow> Inl err
      | Inr labelset \<Rightarrow>
          let e1 = Increment (Bytes m) (Packets m) labelset e;
              e2 = (if ExportASPathPairs seg
                    then ExportASPathPairsWithDirection (DstAsPath m) ''Destination'' m
                           (ExportASPathPairsWithDirection (SrcAsPath m) ''Source'' m e1) else e1)
          in Inr ([Out m], (seg, if ExportASPaths' seg then ExportASPaths m e2 else e2))))"

section \<open>prometheus: what the counters hold\<close>

lemma dedup_loop_remdups: "dedup_loop (xs @ [a]) rest = xs @ remdups_adj (a # rest)"
proof (induction rest arbitrary: xs a)
  case (Cons b rest)
  then show ?case
    using Cons.IH [of xs a] Cons.IH [of "xs @ [a]" b] by (cases "b = a") auto
qed simp

lemma dedup_remdups: "DedupConsecutiveASNs p = remdups_adj p"
  using dedup_loop_remdups [of "[]"] by (cases p) (auto simp: DedupConsecutiveASNs_def)

lemma hops_zip: "hops p = zip p (tl p)"
  by (rule nth_equalityI) (auto simp: hops_def nth_tl)

lemma hops_differ: "(a, b) \<in> set (hops (remdups_adj p)) \<Longrightarrow> a \<noteq> b"
proof -
  assume "(a, b) \<in> set (hops (remdups_adj p))"
  then obtain i where i: "i < length (remdups_adj p) - 1" "a = remdups_adj p ! i" "b = remdups_adj p ! Suc i"
    unfolding hops_def by auto
  then have "Suc i < length (remdups_adj p)" by simp
  then show "a \<noteq> b" unfolding i by (rule remdups_adj_adjacent)
qed

text \<open>
  The AS pairs that are exported: \<open>DedupConsecutiveASNs\<close> is the removal of adjacent duplicates;
  of a path with at least two different neighbours every hop from one AS to the next is counted
  once and in order, with an extra entry for the first AS of a source path and for the last AS of a
  destination path, and no hop leads from an AS to itself.
\<close>

theorem prometheus_pairs:
  "DedupConsecutiveASNs path = remdups_adj path
   \<and> as_pairs path ''Source'' = (if length (remdups_adj path) < 2 then []
       else (hd path, hd path) # zip (remdups_adj path) (tl (remdups_adj path)))
   \<and> as_pairs path ''Destination'' = (if length (remdups_adj path) < 2 then []
       else zip (remdups_adj path) (tl (remdups_adj path)) @ [(last path, last path)])
   \<and> list_all (\<lambda>(a, b). a \<noteq> b) (zip (remdups_adj path) (tl (remdups_adj path)))"
proof -
  have "hd (remdups_adj path) = hd path" "last (remdups_adj path) = last path"
    by (cases path; simp)+
  then show ?thesis
    using hops_differ [of _ _ path] by (auto simp: as_pairs_def Let_def dedup_remdups hops_zip list_all_iff)
qed

lemma counter_exact:
  assumes "a + b < 2 ^ 53"
  shows "f64_add (of_nat a) (of_nat b) = of_nat (a + b)"
  using f64_exact_nat [OF assms] by (simp add: f64_add_def)

lemma bits_exact:
  assumes "8 * unat (b :: u64) < 2 ^ 53"
  shows "f64_mul (u64_to_f64 b) 8 = of_nat (8 * unat b)"
proof -
  have "unat b < 2 ^ 53" using assms by simp
  then have "u64_to_f64 b = of_nat (unat b)" by (rule u64_to_f64_small)
  then have "u64_to_f64 b * 8 = of_nat (8 * unat b)" by simp
  then show ?thesis unfolding f64_mul_def using f64_exact_nat [OF assms] by (simp only:)
qed

definition bits_of :: "string list \<Rightarrow> string list \<Rightarrow> EnrichedFlow list \<Rightarrow> nat" where
  "bits_of labels k ms = sum_list (map (\<lambda>m. 8 * unat (Bytes m)) (filter (\<lambda>m. flow_texts labels m = k) ms))"

lemma Prometheus_step_ok:
  assumes "list_all field_exists (Labels seg)"
  shows "\<exists>e'. Prometheus_step (seg, e) m = Inr ([Out m], (seg, e'))
    \<and> flowBits e' = flowBits (Increment (Bytes m) (Packets m) (flow_texts (Labels seg) m) e)"
proof -
  have "flowBits (ExportASPathPairsWithDirection p d m x) = flowBits x" "flowBits (ExportASPaths m x) = flowBits x" for p d x
    by (simp_all add: ExportASPathPairsWithDirection_def ExportASPaths_def Let_def)
  then show ?thesis using flow_record_ok [OF assms, of m] by (simp add: Prometheus_step_def Let_def)
qed

lemma Prometheus_run_bits:
  assumes "list_all field_exists (Labels seg)" "flowBits e k = of_nat n" "n + bits_of (Labels seg) k ms < 2 ^ 53"
  shows "\<exists>e'. run_loop Prometheus_step (seg, e) ms = Inr (map Out ms, (seg, e'))
    \<and> flowBits e' k = of_nat (n + bits_of (Labels seg) k ms)"
  using assms(2,3)
proof (induction ms arbitrary: e n)
  case (Cons m ms)
  let ?l = "flow_texts (Labels seg) m"
  obtain e1 where e1: "Prometheus_step (seg, e) m = Inr ([Out m], (seg, e1))"
    "flowBits e1 = flowBits (Increment (Bytes m) (Packets m) ?l e)"
    using Prometheus_step_ok [OF assms(1)] by blast
  let ?b = "if ?l = k then 8 * unat (Bytes m) else 0"
  have sum: "bits_of (Labels seg) k (m # ms) = ?b + bits_of (Labels seg) k ms" by (simp add: bits_of_def)
  have small: "n + ?b < 2 ^ 53" using Cons.prems(2) sum by simp
  have "flowBits e1 k = of_nat (n + ?b)"
  proof (cases "?l = k")
    case True
    then have "8 * unat (Bytes m) < 2 ^ 53" using small by simp
    from bits_exact [OF this] have "flowBits e1 k = f64_add (of_nat n) (of_nat (8 * unat (Bytes m)))"
      using True Cons.prems(1) by (simp add: e1(2) Increment_def counter_add_def)
    also have "\<dots> = of_nat (n + 8 * unat (Bytes m))" using small True by (intro counter_exact) simp
    finally show ?thesis using True by simp
  next
    case False
    then show ?thesis using Cons.prems(1) by (simp add: e1(2) Increment_def counter_add_def)
  qed
  moreover have "n + ?b + bits_of (Labels seg) k ms < 2 ^ 53" using Cons.prems(2) by (simp only: sum add.assoc)
  ultimately obtain e' where "run_loop Prometheus_step (seg, e1) ms = Inr (map Out ms, (seg, e'))"
    "flowBits e' k = of_nat (n + ?b + bits_of (Labels seg) k ms)" using Cons.IH by blast
  then show ?case by (intro exI [of _ e']) (simp add: e1(1) sum del: of_nat_add)
qed (simp add: bits_of_def)

text \<open>
  The counter \<open>flow_bits\<close> is exact as long as it stays below \<open>2^53\<close>: after any flows its value for a
  combination of labels is eight times the sum of the bytes of the flows with these labels, and every
  flow is forwarded.
\<close>

theorem prometheus_counts_bits:
  assumes "list_all field_exists (Labels seg)" "bits_of (Labels seg) k ms < 2 ^ 53"
  shows "\<exists>e'. run_loop Prometheus_step (seg, new_exporter) ms = Inr (map Out ms, (seg, e'))
    \<and> flowBits e' k = of_nat (bits_of (Labels seg) k ms)"
  using Prometheus_run_bits [of seg new_exporter k 0 ms] assms by (simp add: new_exporter_def)

text \<open>
  A label that names an unexported field of the struct is accepted by the configuration, and the
  first flow panics.
\<close>

theorem prometheus_unexported_panics:
  "\<exists>seg e'. Prometheus_New ParseDuration [''labels'' \<mapsto> ''state''] = Some seg
     \<and> run_loop Prometheus_step (seg, new_exporter) (m # ms) = Inl (Panic e')"
proof -
  have l: "prom_labels ''state'' = Some [''state'']"
  proof -
    have "map trim_space (split_on (CHR '','') (prom_default ''state'' ''Etype,Proto'')) = [''state'']" by code_simp
    then show ?thesis by (simp add: prom_labels_def unexported_fields_def)
  qed
  obtain seg where seg: "Prometheus_New ParseDuration [''labels'' \<mapsto> ''state''] = Some seg" "Labels seg = [''state'']"
    by (simp add: Prometheus_New_def l)
  have "FieldByName m ''state'' = None" unfolding field_lookup by simp
  then have "\<exists>e'. run_loop Prometheus_step (seg, new_exporter) (m # ms) = Inl (Panic e')"
    using seg(2) by (simp add: Prometheus_step_def)
  with seg(1) show ?thesis by blast
qed

lemma ResetCounter_fields:
  "flowBits (ResetCounter e) = (\<lambda>_. 0)" "flowAsPairsBytes (ResetCounter e) = flowAsPairsBytes e"
  "flowAsPathBytes (ResetCounter e) = flowAsPathBytes e"
  by (simp_all add: ResetCounter_def)

theorem prometheus_counts_bits_witness:
  "\<exists>e'. run_loop Prometheus_step (\<lparr>Endpoint = [], MetricsPath = [], FlowdataPath = [], Labels = [''Note''],
       VacuumInterval = None, ExportASPathPairs = False, ExportASPaths' = False\<rparr>, new_exporter) [zero_flow\<lparr>Bytes := 100\<rparr>]
     = Inr (map Out [zero_flow\<lparr>Bytes := 100\<rparr>], (\<lparr>Endpoint = [], MetricsPath = [], FlowdataPath = [], Labels = [''Note''],
       VacuumInterval = None, ExportASPathPairs = False, ExportASPaths' = False\<rparr>, e')) \<and> flowBits e' [''''] = 800"
proof -
  let ?seg = "\<lparr>Endpoint = [], MetricsPath = [], FlowdataPath = [], Labels = [''Note''],
       VacuumInterval = None, ExportASPathPairs = False, ExportASPaths' = False\<rparr>"
  have f: "FieldByName f ''Note'' = Some (GString (Note f))" for f by (rule known_fields)
  have n: "Note (zero_flow\<lparr>Bytes := 100\<rparr>) = ''''" "Bytes (zero_flow\<lparr>Bytes := 100\<rparr>) = 100" by (simp_all add: zero_flow_def)
  have "flow_texts [''Note''] (zero_flow\<lparr>Bytes := 100\<rparr>) = ['''']" by (simp only: flow_texts_def list.map f n option.sel field_text.simps)
  then have b: "bits_of (Labels ?seg) [''''] [zero_flow\<lparr>Bytes := 100\<rparr>] = 800" by (simp only: bits_of_def) (simp add: n)
  have "list_all field_exists (Labels ?seg)" by (simp add: known_fields)
  from prometheus_counts_bits [OF this, of "['''']" "[zero_flow\<lparr>Bytes := 100\<rparr>]"] show ?thesis unfolding b by simp
qed

section \<open>delay_monitoring\<close>

record DelayMonitoring =
  dm_SamplingRate :: int
  Alpha :: rat
  dm_Endpoint :: string
  msgCounter :: int
  movingAverageProcessingDelay :: rat
  movingAverageTotalDelay :: rat
  dm_samples :: nat

text \<open>\<open>dm_samples\<close> is the counter \<open>kafka_messages_total\<close> of the exporter; \<open>a02\<close> is the \<open>float64\<close> 0.2.\<close>

definition DelayMonitoring_New :: "(string \<Rightarrow> rat option) \<Rightarrow> rat \<Rightarrow> config_map \<Rightarrow> DelayMonitoring" where
  "DelayMonitoring_New ParseFloat a02 config =
     \<lparr>dm_SamplingRate = (if cfg config ''samplingRate'' \<noteq> []
                         then (case atoi (cfg config ''samplingRate'') of Some n \<Rightarrow> n | None \<Rightarrow> 1000) else 1000),
      Alpha = (if cfg config ''alpha'' \<noteq> []
               then (case ParseFloat (cfg config ''alpha'') of Some a \<Rightarrow> a | None \<Rightarrow> a02) else a02),
      dm_Endpoint = (if cfg config ''endpoint'' \<noteq> [] then cfg config ''endpoint'' else '':8080''),
      msgCounter = 0, movingAverageProcessingDelay = 0, movingAverageTotalDelay = 0, dm_samples = 0\<rparr>"

text \<open>A delay is 0 when the time stamp is in the future.\<close>

definition delay_since :: "u64 \<Rightarrow> u64 \<Rightarrow> u64" where
  "delay_since timeNow t = (if timeNow < t then 0 else timeNow - t)"

definition moving_average :: "rat \<Rightarrow> rat \<Rightarrow> rat \<Rightarrow> rat" where
  "moving_average alpha sample avg = f64_add (f64_mul alpha sample) (f64_mul (f64_sub 1 alpha) avg)"

text \<open>The average of the total delay is formed with the average of the processing delay.\<close>

definition updateWindow :: "u64 \<Rightarrow> EnrichedFlow \<Rightarrow> DelayMonitoring \<Rightarrow> DelayMonitoring" where
  "updateWindow timeNow msg s =
     (if msgCounter s \<ge> dm_SamplingRate s
      then let p = moving_average (Alpha s) (u64_to_f64 (delay_since timeNow (TimeReceived msg))) (movingAverageProcessingDelay s)
           in s\<lparr>dm_samples := Suc (dm_samples s), movingAverageProcessingDelay := p,
                movingAverageTotalDelay := moving_average (Alpha s) (u64_to_f64 (delay_since timeNow (TimeFlowEnd msg))) p,
                msgCounter := 1\<rparr>
      else s\<lparr>msgCounter := msgCounter s + 1\<rparr>)"

text \<open>The clock gives the time at which the \<open>n\<close>-th flow is handled.\<close>

definition DelayMonitoring_step :: "(nat \<Rightarrow> u64) \<Rightarrow> (nat \<times> DelayMonitoring, EnrichedFlow) step" where
  "DelayMonitoring_step clock = (\<lambda>(n, s) m. Inr ([Out m], (Suc n, updateWindow (clock n) m s)))"

lemma delay_run_samples:
  assumes "1 \<le> dm_SamplingRate s" "1 \<le> msgCounter s" "msgCounter s \<le> dm_SamplingRate s"
  shows "\<exists>s' n'. run_loop (DelayMonitoring_step clock) (n, s) ms = Inr (map Out ms, (n', s'))
    \<and> dm_SamplingRate s' = dm_SamplingRate s \<and> 1 \<le> msgCounter s' \<and> msgCounter s' \<le> dm_SamplingRate s
    \<and> int (dm_samples s') * dm_SamplingRate s + msgCounter s' = int (dm_samples s) * dm_SamplingRate s + msgCounter s + int (length ms)"
  using assms
proof (induction ms arbitrary: n s)
  case (Cons m ms)
  let ?s = "updateWindow (clock n) m s"
  have st: "DelayMonitoring_step clock (n, s) m = Inr ([Out m], (Suc n, ?s))" by (simp add: DelayMonitoring_step_def)
  have r: "dm_SamplingRate ?s = dm_SamplingRate s" "1 \<le> msgCounter ?s" "msgCounter ?s \<le> dm_SamplingRate s"
    "int (dm_samples ?s) * dm_SamplingRate s + msgCounter ?s = int (dm_samples s) * dm_SamplingRate s + msgCounter s + 1"
    using Cons.prems by (auto simp: updateWindow_def Let_def algebra_simps)
  from Cons.IH [of ?s "Suc n"] r Cons.prems(1) show ?case by (auto simp: st)
qed simp

text \<open>
  How often the delay is sampled: after \<open>n\<close> flows exactly \<open>(n - 1) div rate\<close> samples were taken,
  the first one at flow \<open>rate + 1\<close>; every flow is forwarded.
\<close>

theorem delay_sampling:
  assumes "1 \<le> dm_SamplingRate s" "msgCounter s = 0" "dm_samples s = 0" "ms \<noteq> []"
  shows "\<exists>s' n'. run_loop (DelayMonitoring_step clock) (n, s) ms = Inr (map Out ms, (n', s'))
    \<and> int (dm_samples s') = (int (length ms) - 1) div dm_SamplingRate s"
proof -
  obtain m rest where ms: "ms = m # rest" using assms(4) by (cases ms) auto
  let ?s = "updateWindow (clock n) m s" and ?r = "dm_SamplingRate s"
  have s1: "dm_SamplingRate ?s = ?r" "msgCounter ?s = 1" "dm_samples ?s = 0"
    using assms(1-3) by (simp_all add: updateWindow_def)
  have st: "DelayMonitoring_step clock (n, s) m = Inr ([Out m], (Suc n, ?s))" by (simp add: DelayMonitoring_step_def)
  obtain s' n' where run: "run_loop (DelayMonitoring_step clock) (Suc n, ?s) rest = Inr (map Out rest, (n', s'))"
    and c: "1 \<le> msgCounter s'" "msgCounter s' \<le> ?r"
    and eq: "int (dm_samples s') * ?r + msgCounter s' = 1 + int (length rest)"
    using delay_run_samples [of ?s clock "Suc n" rest] s1 assms(1) by auto
  have "int (length ms) - 1 = ?r * int (dm_samples s') + (msgCounter s' - 1)" using eq ms by (simp add: mult.commute)
  then have "(int (length ms) - 1) div ?r = int (dm_samples s')" by (rule int_div_pos_eq) (use c in auto)
  then show ?thesis using run by (auto simp: ms st)
qed

text \<open>
  The published total delay forgets its own history: after a sample it depends on the previous
  average of the processing delay, and not on the previous average of the total delay.
\<close>

theorem delay_total_forgets:
  "msgCounter s \<ge> dm_SamplingRate s \<Longrightarrow>
     movingAverageTotalDelay (updateWindow now m (s\<lparr>movingAverageTotalDelay := x\<rparr>))
     = movingAverageTotalDelay (updateWindow now m (s\<lparr>movingAverageTotalDelay := y\<rparr>))"
  by (simp add: updateWindow_def Let_def)

definition demo_delay :: DelayMonitoring where
  "demo_delay = \<lparr>dm_SamplingRate = 2, Alpha = 1 / 2, dm_Endpoint = [], msgCounter = 0,
     movingAverageProcessingDelay = 0, movingAverageTotalDelay = 0, dm_samples = 0\<rparr>"

theorem delay_sampling_witness:
  "\<exists>s' n'. run_loop (DelayMonitoring_step (\<lambda>_. 0)) (0, demo_delay) (replicate 5 zero_flow)
     = Inr (map Out (replicate 5 zero_flow), (n', s')) \<and> int (dm_samples s') = 2"
proof -
  have "1 \<le> dm_SamplingRate demo_delay" "msgCounter demo_delay = 0" "dm_samples demo_delay = 0" "dm_SamplingRate demo_delay = 2"
    by (simp_all add: demo_delay_def)
  moreover have "replicate 5 zero_flow \<noteq> []" by simp
  ultimately show ?thesis using delay_sampling [of demo_delay "replicate 5 zero_flow" "\<lambda>_. 0" 0]
    by (simp only: length_replicate) simp
qed

end
