(* ===== verification/Ecs.thy ===== *)
theory Ecs
  imports Enrich
begin

text \<open>
  The conversion of flows to the Elastic Common Schema (\<open>segments/output/lumberjack/ecs.go\<close> and the
  types beside it), as \<open>lumberjack\<close> sends them: when it succeeds, and that the texts of addresses are
  the same with and without a segment \<open>addrstrings\<close> in front.
\<close>

section \<open>The schema\<close>

record ECSEvent =
  Kind :: string
  Category :: "string list"
  ev_Type :: "string list"
  Outcome :: string
  Created :: u64
  Start :: u64
  ev_End :: u64
  Duration :: u64
  Provider :: string
  Module :: string

record ECSSourceOrDest =
  Address :: string
  sd_Bytes :: u64
  Domain :: string
  IP :: string
  MAC :: string
  sd_Packets :: u64
  Port :: u32
  RegisteredDomain :: string
  TopLevelDomain :: string
  AutonomousSystem :: "u32 option"

record ECSNetwork =
  IanaNumber :: u32
  Transport :: string
  nw_Bytes :: u64
  nw_Packets :: u64
  nw_Type :: string

record ECSRelatedICMP =
  icmp_Type :: u32
  icmp_Code :: u32

record ECSRelated =
  Hash :: "string list"
  Hosts :: "string list"
  rel_IP :: "string list"
  User :: "string list"

record ElasticCommonSchema =
  Timestamp :: u64
  ECS_Version :: string
  Message :: string
  ecs_Tags :: "string list"
  ecs_Labels :: "string \<rightharpoonup> string"
  Event :: ECSEvent
  Source :: ECSSourceOrDest
  Destination :: ECSSourceOrDest
  ecs_Network :: ECSNetwork
  ICMP :: "ECSRelatedICMP option"
  Related :: ECSRelated

definition ElasticCommonSchemaVersion :: string where "ElasticCommonSchemaVersion = ''8.17''"

definition ECSEventDefaultModule :: string where "ECSEventDefaultModule = ''lumberjack''"

definition ECSEventDefaultProvider :: string where "ECSEventDefaultProvider = ''flowpipeline''"

section \<open>Addresses\<close>

text \<open>
  \<open>netip.AddrFromSlice(b)\<close> followed by \<open>String\<close>, for slices of 4 or 16 bytes. Unlike \<open>net.IP\<close>,
  \<open>netip\<close> shows an IPv4 address mapped into IPv6 as such.
\<close>

definition netip_string :: "u8 list \<Rightarrow> string option" where
  "netip_string b =
     (if length b = 4 then Some (dotted b)
      else if length b = 16
      then Some (if take 12 b = v4InV6Prefix then ''::ffff:'' @ dotted (drop 12 b) else v6_string b)
      else None)"

text \<open>The text of the segment \<open>addrstrings\<close> if there is one, otherwise that of the address.\<close>

definition ecs_ip :: "string \<Rightarrow> byte_slice \<Rightarrow> string" where
  "ecs_ip given b = (if given \<noteq> [] then given else case netip_string (bytes_of b) of Some s \<Rightarrow> s | None \<Rightarrow> [])"

definition ecs_mac :: "u64 \<Rightarrow> string \<Rightarrow> string \<Rightarrow> string" where
  "ecs_mac mac given shown = (if mac \<noteq> 0 then (if given \<noteq> [] then given else shown) else [])"

definition ecs_as :: "u32 \<Rightarrow> u32 option" where
  "ecs_as n = (if n \<noteq> 0 then Some n else None)"

definition network_type :: "u32 \<Rightarrow> string" where
  "network_type etype = (if etype = 2048 then ''ipv4'' else if etype = 34525 then ''ipv6'' else [])"

section \<open>The conversion\<close>

text \<open>
  \<open>now\<close> is the clock in milliseconds, \<open>t\<close> the table of protocol names. The duration is the unsigned
  difference, read as a signed number; both are the same word.
\<close>

definition ECSFromEnrichedFlow :: "iana_tables \<Rightarrow> u64 \<Rightarrow> EnrichedFlow \<Rightarrow> ElasticCommonSchema outcome" where
  "ECSFromEnrichedFlow t now f =
     (let src = ecs_ip (SourceIP f) (SrcAddr f);
          dst = ecs_ip (DestinationIP f) (DstAddr f);
          srcMAC = ecs_mac (SrcMac f) (SourceMAC f) (SrcMacString f MACSeparatorDash);
          dstMAC = ecs_mac (DstMac f) (DestinationMAC f) (DstMacString f MACSeparatorDash);
          icmp = (if Proto f = 1 \<or> Proto f = 58
                  then Some \<lparr>icmp_Type = IcmpType f, icmp_Code = IcmpCode f\<rparr> else None)
      in or_fail (IanaProtocolNumberToLowercaseName t (Proto f)) (\<lambda>transport.
      Inr \<lparr>Timestamp = TimeFlowStartMs f,
           ECS_Version = ElasticCommonSchemaVersion,
           Message = [], ecs_Tags = [], ecs_Labels = Map.empty,
           Event = \<lparr>Kind = ''event'', Category = [''network''], ev_Type = [''connection''], Outcome = ''success'',
                    Created = now, Start = TimeFlowStartMs f, ev_End = TimeFlowEndMs f,
                    Duration = TimeFlowEndNs f - TimeFlowStartNs f,
                    Provider = ECSEventDefaultProvider, Module = ECSEventDefaultModule\<rparr>,
           Source = \<lparr>Address = src, sd_Bytes = Bytes f, Domain = [], IP = src, MAC = srcMAC, sd_Packets = Packets f,
                     Port = SrcPort f, RegisteredDomain = [], TopLevelDomain = [], AutonomousSystem = ecs_as (SrcAs f)\<rparr>,
           Destination = \<lparr>Address = dst, sd_Bytes = 0, Domain = [], IP = dst, MAC = dstMAC, sd_Packets = 0,
                     Port = DstPort f, RegisteredDomain = [], TopLevelDomain = [], AutonomousSystem = ecs_as (DstAs f)\<rparr>,
           ecs_Network = \<lparr>IanaNumber = Proto f, Transport = transport, nw_Bytes = Bytes f, nw_Packets = Packets f,
                     nw_Type = network_type (Etype f)\<rparr>,
           ICMP = icmp,
           Related = \<lparr>Hash = [], Hosts = [], rel_IP = [src, dst], User = []\<rparr>\<rparr>))"

section \<open>When it succeeds\<close>

lemma lowercase_name_cases:
  assumes "iana_init rows iana_empty = Inr t"
  shows "IanaProtocolNumberToLowercaseName t p =
    (if p = 256 then Inl (Panic ''index out of range'')
     else Inr (if unat p < 256 then snd t ! unat p else []))"
proof -
  have len: "length (snd t) = 256" using iana_init_length [OF assms] by (simp add: iana_empty_def)
  have "p = 256 \<longleftrightarrow> unat p = 256" by (simp add: word_unat_eq_iff)
  then show ?thesis using len by (auto simp: IanaProtocolNumberToLowercaseName_def array_at_def)
qed

text \<open>
  A flow can be converted exactly when its protocol number is not 256: the table of protocol
  names lets this index through, and the process panics; a larger number has no name.
\<close>

theorem ecs_converts:
  assumes "iana_init rows iana_empty = Inr t"
  shows "(if Proto f = 256 then ECSFromEnrichedFlow t now f = Inl (Panic ''index out of range'')
          else \<exists>e. ECSFromEnrichedFlow t now f = Inr e \<and> IanaNumber (ecs_Network e) = Proto f
            \<and> sd_Bytes (Source e) = nw_Bytes (ecs_Network e) \<and> rel_IP (Related e) = [IP (Source e), IP (Destination e)])"
proof (cases "Proto f = 256")
  case True
  then show ?thesis using lowercase_name_cases [OF assms, of 256] by (simp add: ECSFromEnrichedFlow_def)
next
  case False
  then show ?thesis
    using lowercase_name_cases [OF assms, of "Proto f"] by (simp add: ECSFromEnrichedFlow_def Let_def)
qed

theorem ecs_converts_witness:
  "ECSFromEnrichedFlow iana_empty 0 (zero_flow\<lparr>Proto := 256\<rparr>) = Inl (Panic ''index out of range'')
   \<and> (\<exists>e. ECSFromEnrichedFlow iana_empty 0 (zero_flow\<lparr>Proto := 6\<rparr>) = Inr e \<and> IanaNumber (ecs_Network e) = 6)"
  using ecs_converts [of "[]" iana_empty "zero_flow\<lparr>Proto := 256\<rparr>" 0]
    ecs_converts [of "[]" iana_empty "zero_flow\<lparr>Proto := 6\<rparr>" 0] by auto

section \<open>With addrstrings in front\<close>

text \<open>Addresses for which \<open>net.IP\<close> and \<open>netip\<close> agree: 4 bytes, or 16 that are not a mapped IPv4 address.\<close>

definition plain_addr :: "byte_slice \<Rightarrow> bool" where
  "plain_addr b = (case b of None \<Rightarrow> True
     | Some bs \<Rightarrow> length bs = 4 \<or> length bs = 16 \<and> take 12 bs \<noteq> v4InV6Prefix)"

lemma netip_plain: "plain_addr b \<Longrightarrow> b \<noteq> None \<Longrightarrow> netip_string (bytes_of b) = Some (ip_str b)"
  by (auto simp: plain_addr_def netip_string_def ip_str_def ip_String_def ip_To4_def)

lemma ecs_ip_given: "plain_addr b \<Longrightarrow> ecs_ip (if b \<noteq> None then ip_str b else []) b = ecs_ip [] b"
  by (cases "b = None") (simp_all add: ecs_ip_def netip_plain)

lemma ecs_mac_given: "ecs_mac mac (if mac \<noteq> 0 then shown else []) shown = ecs_mac mac [] shown"
  by (simp add: ecs_mac_def)

lemma addrstrings_texts:
  "SourceIP (AddrStrings_msg s m) = (if SrcAddr m \<noteq> None then ip_str (SrcAddr m) else SourceIP m)"
  "DestinationIP (AddrStrings_msg s m) = (if DstAddr m \<noteq> None then ip_str (DstAddr m) else DestinationIP m)"
  "SourceMAC (AddrStrings_msg s m) = (if SrcMac m \<noteq> 0 then SrcMacString m (Separator s) else SourceMAC m)"
  "DestinationMAC (AddrStrings_msg s m) = (if DstMac m \<noteq> 0 then DstMacString m (Separator s) else DestinationMAC m)"
  by (auto simp: AddrStrings_msg_def Let_def SrcAddrObj_def DstAddrObj_def SrcMacString_def DstMacString_def)

lemma addrstrings_keeps:
  "SrcAddr (AddrStrings_msg s m) = SrcAddr m" "DstAddr (AddrStrings_msg s m) = DstAddr m"
  "SrcMac (AddrStrings_msg s m) = SrcMac m" "DstMac (AddrStrings_msg s m) = DstMac m"
  "Proto (AddrStrings_msg s m) = Proto m" "Etype (AddrStrings_msg s m) = Etype m"
  "IcmpType (AddrStrings_msg s m) = IcmpType m" "IcmpCode (AddrStrings_msg s m) = IcmpCode m"
  "Bytes (AddrStrings_msg s m) = Bytes m" "Packets (AddrStrings_msg s m) = Packets m"
  "SrcPort (AddrStrings_msg s m) = SrcPort m" "DstPort (AddrStrings_msg s m) = DstPort m"
  "SrcAs (AddrStrings_msg s m) = SrcAs m" "DstAs (AddrStrings_msg s m) = DstAs m"
  "TimeFlowStartMs (AddrStrings_msg s m) = TimeFlowStartMs m" "TimeFlowEndMs (AddrStrings_msg s m) = TimeFlowEndMs m"
  "TimeFlowStartNs (AddrStrings_msg s m) = TimeFlowStartNs m" "TimeFlowEndNs (AddrStrings_msg s m) = TimeFlowEndNs m"
  by (simp_all add: AddrStrings_msg_def Let_def)

text \<open>
  A segment \<open>addrstrings\<close> with dashes in front changes no event: for flows that do not carry
  texts of addresses yet, whose addresses are plain, the event of the annotated flow is the event of
  the flow itself.
\<close>

theorem addrstrings_before_ecs:
  assumes "plain_addr (SrcAddr m)" "plain_addr (DstAddr m)" "str_contains (cfg config ''macseparator'') ''dash''"
    and "SourceIP m = []" "DestinationIP m = []" "SourceMAC m = []" "DestinationMAC m = []"
  shows "ECSFromEnrichedFlow t now (AddrStrings_msg (AddrStrings_New config) m) = ECSFromEnrichedFlow t now m"
proof -
  let ?m = "AddrStrings_msg (AddrStrings_New config) m"
  have sep: "Separator (AddrStrings_New config) = MACSeparatorDash" using assms(3) by (simp add: AddrStrings_New_def)
  have "ecs_ip (SourceIP ?m) (SrcAddr ?m) = ecs_ip (SourceIP m) (SrcAddr m)"
    "ecs_ip (DestinationIP ?m) (DstAddr ?m) = ecs_ip (DestinationIP m) (DstAddr m)"
    using assms ecs_ip_given by (simp_all only: addrstrings_texts addrstrings_keeps)
  moreover have "ecs_mac (SrcMac ?m) (SourceMAC ?m) (SrcMacString ?m MACSeparatorDash)
      = ecs_mac (SrcMac m) (SourceMAC m) (SrcMacString m MACSeparatorDash)"
    "ecs_mac (DstMac ?m) (DestinationMAC ?m) (DstMacString ?m MACSeparatorDash)
      = ecs_mac (DstMac m) (DestinationMAC m) (DstMacString m MACSeparatorDash)"
    using assms(6,7) ecs_mac_given
    by (simp_all only: addrstrings_texts addrstrings_keeps sep SrcMacString_def DstMacString_def)
  ultimately show ?thesis by (simp only: ECSFromEnrichedFlow_def addrstrings_keeps)
qed

theorem addrstrings_before_ecs_witness:
  "ECSFromEnrichedFlow iana_empty 0
     (AddrStrings_msg (AddrStrings_New [''macseparator'' \<mapsto> ''dash'']) (zero_flow\<lparr>SrcAddr := Some [192, 0, 2, 1], SrcMac := 1\<rparr>))
   = ECSFromEnrichedFlow iana_empty 0 (zero_flow\<lparr>SrcAddr := Some [192, 0, 2, 1], SrcMac := 1\<rparr>)"
  by (rule addrstrings_before_ecs) (simp_all add: plain_addr_def zero_flow_def cfg_def)

end
