(* ===== verification/Lumberjack.thy ===== *)
theory Lumberjack
  imports Ecs Segments
begin

text \<open>
  The output \<open>lumberjack\<close> (\<open>segments/output/lumberjack\<close>): its configuration, the client that retries
  until a batch is acknowledged, the goroutine that collects batches with its timer, and the segment
  with all its goroutines as a step relation.
\<close>

section \<open>Configuration\<close>

record ServerOptions =
  UseTLS :: bool
  VerifyCertificate :: bool
  CompressionLevel :: int
  Parallelism :: int

text \<open>\<open>BatchDebugPrintf\<close> is a function value that is nil unless the option \<open>batchdebug\<close> is set.\<close>

record Lumberjack =
  Servers :: "string \<rightharpoonup> ServerOptions"
  lj_BatchSize :: int
  BatchTimeout :: int
  BatchDebugPrintf :: "bool option"
  lj_QueueStatusInterval :: int
  ReconnectWait :: int
  LumberjackOut :: int

definition lj_defaultQueueSize :: int where "lj_defaultQueueSize = 65536"
definition lj_defaultBatchSize :: int where "lj_defaultBatchSize = 64"
definition lj_defaultTimeout :: int where "lj_defaultTimeout = 5 * 10 ^ 9"
definition minimalBatchTimeout :: int where "minimalBatchTimeout = 50 * 10 ^ 6"
definition lj_defaultReconnectWait :: int where "lj_defaultReconnectWait = 10 ^ 9"
definition time_Minute :: int where "time_Minute = 60 * 10 ^ 9"

text \<open>What is used of \<open>net/url\<close>: scheme, host and the first value of a query parameter.\<close>

record url =
  Scheme :: string
  Host :: string
  Query :: "string \<Rightarrow> string"

text \<open>An option that ends the process when it is set and cannot be parsed.\<close>

definition lj_option :: "(string \<Rightarrow> 'a option) \<Rightarrow> string \<Rightarrow> 'a \<Rightarrow> 'a outcome" where
  "lj_option parse v dflt =
     (if v \<noteq> [] then (case parse v of None \<Rightarrow> Inl (Fatal ''Lumberjack: Failed to parse config option: '') | Some x \<Rightarrow> Inr x)
      else Inr dflt)"

definition compression_level :: "string \<Rightarrow> int \<Rightarrow> int outcome" where
  "compression_level v dflt =
     (if v = [] then Inr dflt
      else case atoi v of
             None \<Rightarrow> Inl (Fatal ''Lumberjack: Failed to parse compression level'')
           | Some n \<Rightarrow> if n < 0 \<or> n > 9 then Inl (Fatal ''Lumberjack: Compression level out of range'') else Inr n)"

definition tls_options :: "string \<Rightarrow> (bool \<times> bool) outcome" where
  "tls_options scheme =
     (if scheme = ''tcp'' then Inr (False, False)
      else if scheme = ''tls'' then Inr (True, True)
      else if scheme = ''tlsnoverify'' then Inr (True, False)
      else Inl (Fatal (''Lumberjack: Unknown scheme '' @ scheme)))"

definition num_routines :: "string \<Rightarrow> int outcome" where
  "num_routines v =
     (if v = [] then Inr 1
      else case atoi v of
             None \<Rightarrow> Inl (Fatal ''Lumberjack: Failed to parse count'')
           | Some n \<Rightarrow> Inr (if n < 1 then 1 else n))"

definition server_options :: "int \<Rightarrow> url \<Rightarrow> ServerOptions outcome" where
  "server_options dflt u =
     or_fail (tls_options (Scheme u)) (\<lambda>(useTLS, verifyTLS).
     or_fail (compression_level (Query u ''compression'') dflt) (\<lambda>level.
     or_fail (num_routines (Query u ''count'')) (\<lambda>n.
       Inr \<lparr>UseTLS = useTLS, VerifyCertificate = verifyTLS, CompressionLevel = level, Parallelism = n\<rparr>)))"

text \<open>The loop over the servers; a host that is named again replaces the former entry.\<close>

fun add_servers ::
  "(string \<Rightarrow> url option) \<Rightarrow> int \<Rightarrow> string list \<Rightarrow> (string \<rightharpoonup> ServerOptions) \<Rightarrow> (string \<rightharpoonup> ServerOptions) outcome"
where
  "add_servers url_Parse dflt [] servers = Inr servers"
| "add_servers url_Parse dflt (raw # raws) servers =
     (case url_Parse raw of
        None \<Rightarrow> Inl (Fatal (''Lumberjack: Failed to parse server URL '' @ raw))
      | Some u \<Rightarrow> or_fail (server_options dflt u) (\<lambda>opts.
                    add_servers url_Parse dflt raws (servers(Host u \<mapsto> opts))))"

definition no_underscores :: "string \<Rightarrow> string" where
  "no_underscores = filter (\<lambda>c. c \<noteq> CHR ''_'')"

definition usable_timeout :: "int \<Rightarrow> int" where
  "usable_timeout d =
     (let d = (if d < minimalBatchTimeout then lj_defaultTimeout else d)
      in if d > time_Minute then lj_defaultTimeout else d)"

definition Lumberjack_New ::
  "(string \<Rightarrow> url option) \<Rightarrow> (string \<Rightarrow> int option) \<Rightarrow> config_map \<Rightarrow> Lumberjack outcome" where
  "Lumberjack_New url_Parse ParseDuration config =
     or_fail (compression_level (cfg config ''compression'') 0) (\<lambda>dflt.
     or_fail (add_servers url_Parse dflt (map trim_space (split_on (CHR '','') (cfg config ''servers''))) Map.empty) (\<lambda>servers.
     or_fail (lj_option (\<lambda>v. atoi (no_underscores v)) (cfg config ''batchsize'') lj_defaultBatchSize) (\<lambda>batch.
     or_fail (lj_option ParseDuration (cfg config ''batchtimeout'') lj_defaultTimeout) (\<lambda>timeout.
     or_fail (lj_option (\<lambda>v. map_option Some (parse_bool v)) (cfg config ''batchdebug'') None) (\<lambda>debug.
     or_fail (lj_option ParseDuration (cfg config ''reconnectwait'') lj_defaultReconnectWait) (\<lambda>wait.
     or_fail (lj_option ParseDuration (cfg config ''queuestatusinterval'') 0) (\<lambda>interval.
     or_fail (lj_option (\<lambda>v. atoi (no_underscores v)) (cfg config ''queuesize'') lj_defaultQueueSize) (\<lambda>queue.
     or_fail (make_chan (if queue < 64 then lj_defaultQueueSize else queue)) (\<lambda>cap.
       Inr \<lparr>Servers = servers, lj_BatchSize = (if batch < 0 then lj_defaultBatchSize else batch),
            BatchTimeout = usable_timeout timeout, BatchDebugPrintf = debug,
            lj_QueueStatusInterval = interval, ReconnectWait = wait, LumberjackOut = cap\<rparr>)))))))))"

lemma compression_level_range: "compression_level v dflt = Inr n \<Longrightarrow> 0 \<le> dflt \<Longrightarrow> dflt \<le> 9 \<Longrightarrow> 0 \<le> n \<and> n \<le> 9"
  by (auto simp: compression_level_def split: if_splits option.splits)

lemma server_options_ok:
  assumes "server_options dflt u = Inr o'" "0 \<le> dflt" "dflt \<le> 9"
  shows "0 \<le> CompressionLevel o' \<and> CompressionLevel o' \<le> 9 \<and> 1 \<le> Parallelism o' \<and> (VerifyCertificate o' \<longrightarrow> UseTLS o')"
  using assms compression_level_range
  by (auto simp: server_options_def or_fail_Inr tls_options_def num_routines_def split: if_splits option.splits prod.splits)

definition server_ok :: "ServerOptions \<Rightarrow> bool" where
  "server_ok s \<longleftrightarrow> 0 \<le> CompressionLevel s \<and> CompressionLevel s \<le> 9 \<and> 1 \<le> Parallelism s \<and> (VerifyCertificate s \<longrightarrow> UseTLS s)"

lemma add_servers_ok:
  "add_servers P dflt raws ss = Inr ss' \<Longrightarrow> 0 \<le> dflt \<Longrightarrow> dflt \<le> 9 \<Longrightarrow> \<forall>s\<in>ran ss. server_ok s \<Longrightarrow>
     (\<forall>s\<in>ran ss'. server_ok s) \<and> (raws \<noteq> [] \<longrightarrow> ss' \<noteq> Map.empty) \<and> (ss \<noteq> Map.empty \<longrightarrow> ss' \<noteq> Map.empty)"
proof (induction raws arbitrary: ss)
  case (Cons raw raws)
  then obtain u opts where u: "P raw = Some u" "server_options dflt u = Inr opts"
    "add_servers P dflt raws (ss(Host u \<mapsto> opts)) = Inr ss'"
    by (auto simp: or_fail_Inr split: option.splits)
  have "\<forall>s\<in>ran (ss(Host u \<mapsto> opts)). server_ok s"
    using Cons.prems(4) server_options_ok [OF u(2) Cons.prems(2,3)] by (auto simp: server_ok_def ran_def)
  from Cons.IH [OF u(3) Cons.prems(2,3) this] show ?case by (metis map_upd_nonempty)
qed auto

text \<open>
  Every configuration that \<open>New\<close> accepts has at least one server, a valid compression level, at
  least one goroutine and no verification without encryption for each of them, a timeout between 50
  milliseconds and one minute, and a queue of at least 64 places.
\<close>

theorem lumberjack_settings:
  assumes "Lumberjack_New url_Parse ParseDuration config = Inr c"
  shows "Servers c \<noteq> Map.empty \<and> (\<forall>s\<in>ran (Servers c). server_ok s) \<and> 0 \<le> lj_BatchSize c
    \<and> minimalBatchTimeout \<le> BatchTimeout c \<and> BatchTimeout c \<le> time_Minute \<and> 64 \<le> LumberjackOut c"
proof -
  obtain dflt servers batch timeout queue where new:
    "compression_level (cfg config ''compression'') 0 = Inr dflt"
    "add_servers url_Parse dflt (map trim_space (split_on (CHR '','') (cfg config ''servers''))) Map.empty = Inr servers"
    "make_chan (if queue < 64 then lj_defaultQueueSize else queue) = Inr (LumberjackOut c)"
    "Servers c = servers" "lj_BatchSize c = (if batch < 0 then lj_defaultBatchSize else batch)"
    "BatchTimeout c = usable_timeout timeout"
    using assms unfolding Lumberjack_New_def or_fail_Inr by auto
  have "0 \<le> dflt" "dflt \<le> 9" using compression_level_range [OF new(1)] by simp_all
  then have "(\<forall>s\<in>ran servers. server_ok s) \<and> servers \<noteq> Map.empty"
    using add_servers_ok [OF new(2)] split_on_nonempty by simp
  moreover have "minimalBatchTimeout \<le> BatchTimeout c \<and> BatchTimeout c \<le> time_Minute"
    unfolding new(6) by (simp add: usable_timeout_def Let_def minimalBatchTimeout_def lj_defaultTimeout_def time_Minute_def)
  ultimately show ?thesis
    using new(3-5) by (simp add: lj_defaultBatchSize_def lj_defaultQueueSize_def split: if_splits)
qed

section \<open>The client\<close>

text \<open>
  \<open>resilientClient\<close>: \<open>connect\<close> dials until it succeeds, \<open>Send\<close> sends until the server acknowledges,
  with a new connection after every error but a timeout. The lists are the results of the successive
  calls of the library; \<open>None\<close> says that the loop is still running when they are used up. The result
  has the number of attempts and what is left of the lists.
\<close>

datatype reply = Acked | EOF | Timeout | OtherError

fun connect :: "bool list \<Rightarrow> bool list option" where
  "connect [] = None"
| "connect (d # ds) = (if d then Some ds else connect ds)"

fun send_loop :: "reply list \<Rightarrow> bool list \<Rightarrow> (nat \<times> reply list \<times> bool list) option" where
  "send_loop [] ds = None"
| "send_loop (r # rs) ds =
     (if r = Acked then Some (1, rs, ds)
      else if r = Timeout then map_option (\<lambda>(n, x). (Suc n, x)) (send_loop rs ds)
      else case connect ds of
             None \<Rightarrow> None
           | Some ds' \<Rightarrow> map_option (\<lambda>(n, x). (Suc n, x)) (send_loop rs ds'))"

definition client_Send :: "bool \<Rightarrow> reply list \<Rightarrow> bool list \<Rightarrow> (nat \<times> reply list \<times> bool list) option" where
  "client_Send connected rs ds =
     (if connected then send_loop rs ds
      else case connect ds of None \<Rightarrow> None | Some ds' \<Rightarrow> send_loop rs ds')"

text \<open>The number of connections \<open>Send\<close> needs: one for each error before the first acknowledgement.\<close>

definition reconnects :: "reply list \<Rightarrow> nat" where
  "reconnects rs = length (filter (\<lambda>r. r \<noteq> Timeout) (takeWhile (\<lambda>r. r \<noteq> Acked) rs))"

lemma connect_count:
  "(connect ds = None \<longleftrightarrow> count_list ds True = 0)
   \<and> (\<forall>ds'. connect ds = Some ds' \<longrightarrow> count_list ds True = Suc (count_list ds' True))"
  by (induction ds) auto

lemma send_loop_returns:
  "send_loop rs ds \<noteq> None \<longleftrightarrow> Acked \<in> set rs \<and> reconnects rs \<le> count_list ds True"
proof (induction rs arbitrary: ds)
  case (Cons r rs)
  show ?case
  proof (cases "r = Acked \<or> r = Timeout")
    case True
    then show ?thesis using Cons.IH [of ds] by (auto simp: reconnects_def)
  next
    case False
    then have "reconnects (r # rs) = Suc (reconnects rs)" by (simp add: reconnects_def)
    with False show ?thesis using Cons.IH connect_count [of ds]
      by (cases "connect ds") (auto simp: Suc_le_eq less_Suc_eq_le)
  qed
qed simp

lemma send_loop_attempts:
  "send_loop rs ds = Some (n, rs', ds') \<Longrightarrow>
     n = Suc (length (takeWhile (\<lambda>r. r \<noteq> Acked) rs)) \<and> rs' = tl (dropWhile (\<lambda>r. r \<noteq> Acked) rs)"
  by (induction rs arbitrary: ds n) (auto split: if_splits option.splits)

text \<open>
  C33. \<open>Send\<close> gives up never and returns as soon as it can: it returns exactly when the server
  acknowledges an attempt and the connections needed before can be made, and the number of its
  attempts is one more than the number of failures before the first acknowledgement.
\<close>

theorem lumberjack_send_retries:
  "(client_Send connected rs ds \<noteq> None \<longleftrightarrow>
      Acked \<in> set rs \<and> reconnects rs + (if connected then 0 else 1) \<le> count_list ds True)
   \<and> (\<forall>n rs' ds'. client_Send connected rs ds = Some (n, rs', ds') \<longrightarrow>
      n = Suc (length (takeWhile (\<lambda>r. r \<noteq> Acked) rs)) \<and> rs' = tl (dropWhile (\<lambda>r. r \<noteq> Acked) rs))"
proof (cases "connected \<or> connect ds = None")
  case True
  then show ?thesis using connect_count [of ds] send_loop_returns [of rs ds] send_loop_attempts [of rs ds]
    by (cases connected) (simp_all add: client_Send_def)
next
  case False
  then obtain ds1 where "connect ds = Some ds1" "\<not> connected" by auto
  then show ?thesis using connect_count [of ds] send_loop_returns [of rs ds1] send_loop_attempts [of rs ds1]
    by (simp add: client_Send_def)
qed

theorem lumberjack_send_retries_witness:
  "client_Send False [Timeout, EOF, Acked] [False, True, True] \<noteq> None"
proof -
  have "Acked \<in> set [Timeout, EOF, Acked] \<and> reconnects [Timeout, EOF, Acked] + (if False then 0 else 1)
      \<le> count_list [False, True, True] True" by (simp add: reconnects_def)
  then show ?thesis using lumberjack_send_retries [of False "[Timeout, EOF, Acked]" "[False, True, True]"] by blast
qed

section \<open>The goroutine of a connection\<close>

text \<open>
  The timer is stopped, running, or expired with its tick not received yet. \<open>w_batch\<close> is
  \<open>flowInterface[:idx]\<close>, \<open>w_sent\<close> the acknowledged batches. A writer is blocked for ever when it waits
  for the tick of a stopped timer.
\<close>

datatype timer = Stopped | Running | Expired
datatype activity = Active | Blocked | Ended

record 'e writer =
  w_activity :: activity
  w_connected :: bool
  w_batch :: "'e list"
  w_timer :: timer
  timerSet :: bool
  w_sent :: "'e list list"

definition writer_start :: "'e writer" where
  "writer_start = \<lparr>w_activity = Active, w_connected = False, w_batch = [], w_timer = Stopped, timerSet = False, w_sent = []\<rparr>"

definition debug_printf :: "Lumberjack \<Rightarrow> 'a \<Rightarrow> 'a outcome" where
  "debug_printf c x =
     (if BatchDebugPrintf c = None then Inl (Panic ''invalid memory address or nil pointer dereference'') else Inr x)"

text \<open>\<open>client.Send(flowInterface[:idx])\<close> and \<open>idx = 0\<close>.\<close>

definition send_batch :: "'e writer \<Rightarrow> 'e writer" where
  "send_batch w = w\<lparr>w_connected := True, w_sent := w_sent w @ [w_batch w], w_batch := []\<rparr>"

definition reset_timer :: "'e writer \<Rightarrow> 'e writer" where
  "reset_timer w = w\<lparr>w_timer := Running, timerSet := True\<rparr>"

text \<open>
  A flow from the queue. Before a full batch is sent a timer that is set is stopped; when \<open>Stop\<close>
  reports that it was not running, its tick is received, which blocks if there is none.
\<close>

definition writer_flow :: "Lumberjack \<Rightarrow> ('m \<Rightarrow> 'e outcome) \<Rightarrow> 'm \<Rightarrow> 'e writer \<Rightarrow> 'e writer outcome" where
  "writer_flow c conv flow w =
     or_fail (conv flow) (\<lambda>ev.
     if int (length (w_batch w)) \<ge> lj_BatchSize c then Inl (Panic ''index out of range'')
     else
       let w = w\<lparr>w_batch := w_batch w @ [ev]\<rparr> in
       if int (length (w_batch w)) = lj_BatchSize c
       then if timerSet w \<and> w_timer w = Stopped then Inr (w\<lparr>w_activity := Blocked\<rparr>)
            else let w = (if timerSet w then w\<lparr>w_timer := Stopped, timerSet := False\<rparr> else w)
                 in or_fail (debug_printf c (send_batch w)) (\<lambda>w. Inr (if \<not> timerSet w then reset_timer w else w))
       else Inr w)"

text \<open>The tick of the timer.\<close>

definition writer_tick :: "Lumberjack \<Rightarrow> 'e writer \<Rightarrow> 'e writer outcome" where
  "writer_tick c w =
     or_fail (debug_printf c (if w_batch w \<noteq> [] then send_batch w else w)) (\<lambda>w. Inr (reset_timer w))"

text \<open>
  The closed queue: the rest of the batch is sent once. \<open>final connected events\<close> is the result of
  \<open>SendNoRetry\<close>, which uses the client also when there has never been a connection: whether it
  succeeds, or how it fails.
\<close>

definition writer_closed :: "Lumberjack \<Rightarrow> (bool \<Rightarrow> 'e list \<Rightarrow> bool outcome) \<Rightarrow> 'e writer \<Rightarrow> 'e writer outcome" where
  "writer_closed c final w =
     or_fail (final (w_connected w) (w_batch w)) (\<lambda>ok.
     or_fail (if ok then debug_printf c (w\<lparr>w_sent := w_sent w @ [w_batch w]\<rparr>) else Inr w) (\<lambda>w.
       Inr (w\<lparr>w_activity := Ended, w_batch := []\<rparr>)))"

section \<open>The segment\<close>

text \<open>
  All goroutines of \<open>Run\<close>: the loop over the input, and for each server as many writers as its
  \<open>Parallelism\<close> says. \<open>lj_wg\<close> is the wait group of the pipeline, \<open>writerWG\<close> that of the segment, which
  counts the servers and not the writers. Every writer signals both when it ends.
\<close>

datatype 'm lj_main = LRecv | LQueue 'm | LOut 'm | LWait | LDone

record ('m, 'e) lj =
  lj_in :: "'m list"
  lj_out :: "'m list"
  lj_queue :: "'m list"
  lj_closed :: bool
  lj_main :: "'m lj_main"
  lj_writers :: "'e writer list"
  writerWG :: int
  lj_wg :: int
  lj_crash :: "failure option"

definition lj_start :: "ServerOptions list \<Rightarrow> int \<Rightarrow> 'm list \<Rightarrow> ('m, 'e) lj" where
  "lj_start servers wg ms =
     \<lparr>lj_in = ms, lj_out = [], lj_queue = [], lj_closed = False, lj_main = LRecv,
      lj_writers = replicate (sum_list (map (\<lambda>s. nat (Parallelism s)) servers)) writer_start,
      writerWG = int (length servers), lj_wg = wg, lj_crash = None\<rparr>"

text \<open>\<open>Done\<close> on a wait group panics below zero.\<close>

definition negative_counter :: failure where
  "negative_counter = Panic ''sync: negative WaitGroup counter''"

definition writer_result :: "nat \<Rightarrow> 'e writer outcome \<Rightarrow> ('m, 'e) lj \<Rightarrow> ('m, 'e) lj" where
  "writer_result i r s =
     (case r of
        Inl e \<Rightarrow> s\<lparr>lj_crash := Some e\<rparr>
      | Inr w \<Rightarrow>
          let s = s\<lparr>lj_writers := (lj_writers s)[i := w]\<rparr> in
          if w_activity w \<noteq> Ended then s
          else if lj_wg s < 1 \<or> writerWG s < 1 then s\<lparr>lj_crash := Some negative_counter\<rparr>
          else s\<lparr>lj_wg := lj_wg s - 1, writerWG := writerWG s - 1\<rparr>)"

definition active_writer :: "nat \<Rightarrow> ('m, 'e) lj \<Rightarrow> bool" where
  "active_writer i s \<longleftrightarrow> i < length (lj_writers s) \<and> w_activity (lj_writers s ! i) = Active"

inductive lj_step ::
  "Lumberjack \<Rightarrow> ('m \<Rightarrow> 'e outcome) \<Rightarrow> (bool \<Rightarrow> 'e list \<Rightarrow> bool outcome) \<Rightarrow> ('m, 'e) lj \<Rightarrow> ('m, 'e) lj \<Rightarrow> bool"
  for c conv final where
  lj_recv: "lj_crash s = None \<Longrightarrow> lj_main s = LRecv \<Longrightarrow> lj_in s = m # ms \<Longrightarrow>
    lj_step c conv final s (s\<lparr>lj_in := ms, lj_main := LQueue m\<rparr>)"
| lj_enqueue: "lj_crash s = None \<Longrightarrow> lj_main s = LQueue m \<Longrightarrow> int (length (lj_queue s)) < LumberjackOut c \<Longrightarrow>
    lj_step c conv final s (s\<lparr>lj_queue := lj_queue s @ [m], lj_main := LOut m\<rparr>)"
| lj_forward: "lj_crash s = None \<Longrightarrow> lj_main s = LOut m \<Longrightarrow>
    lj_step c conv final s (s\<lparr>lj_out := lj_out s @ [m], lj_main := LRecv\<rparr>)"
| lj_close: "lj_crash s = None \<Longrightarrow> lj_main s = LRecv \<Longrightarrow> lj_in s = [] \<Longrightarrow>
    lj_step c conv final s (s\<lparr>lj_closed := True, lj_main := LWait\<rparr>)"
| lj_done: "lj_crash s = None \<Longrightarrow> lj_main s = LWait \<Longrightarrow> writerWG s = 0 \<Longrightarrow>
    lj_step c conv final s
      (if lj_wg s < 1 then s\<lparr>lj_crash := Some negative_counter\<rparr> else s\<lparr>lj_wg := lj_wg s - 1, lj_main := LDone\<rparr>)"
| lj_take: "lj_crash s = None \<Longrightarrow> active_writer i s \<Longrightarrow> lj_queue s = m # ms \<Longrightarrow>
    lj_step c conv final s (writer_result i (writer_flow c conv m (lj_writers s ! i)) (s\<lparr>lj_queue := ms\<rparr>))"
| lj_expire: "lj_crash s = None \<Longrightarrow> active_writer i s \<Longrightarrow> w_timer (lj_writers s ! i) = Running \<Longrightarrow>
    lj_step c conv final s (s\<lparr>lj_writers := (lj_writers s)[i := (lj_writers s ! i)\<lparr>w_timer := Expired\<rparr>]\<rparr>)"
| lj_tick: "lj_crash s = None \<Longrightarrow> active_writer i s \<Longrightarrow> w_timer (lj_writers s ! i) = Expired \<Longrightarrow>
    lj_step c conv final s (writer_result i (writer_tick c (lj_writers s ! i)) s)"
| lj_end: "lj_crash s = None \<Longrightarrow> active_writer i s \<Longrightarrow> lj_queue s = [] \<Longrightarrow> lj_closed s \<Longrightarrow>
    lj_step c conv final s (writer_result i (writer_closed c final (lj_writers s ! i)) s)"

abbreviation lj_steps ::
  "Lumberjack \<Rightarrow> ('m \<Rightarrow> 'e outcome) \<Rightarrow> (bool \<Rightarrow> 'e list \<Rightarrow> bool outcome) \<Rightarrow> ('m, 'e) lj \<Rightarrow> ('m, 'e) lj \<Rightarrow> bool" where
  "lj_steps c conv final \<equiv> (lj_step c conv final)\<^sup>*\<^sup>*"

section \<open>The invariant of a writer\<close>

definition writer_ok :: "Lumberjack \<Rightarrow> 'e writer \<Rightarrow> bool" where
  "writer_ok c w \<longleftrightarrow> w_activity w \<noteq> Blocked
     \<and> (w_activity w = Active \<longrightarrow> int (length (w_batch w)) < lj_BatchSize c \<and> (timerSet w \<longleftrightarrow> w_timer w \<noteq> Stopped)
          \<and> (w_sent w = [] \<longrightarrow> \<not> timerSet w))
     \<and> (\<forall>b\<in>set (w_sent w). int (length b) \<le> lj_BatchSize c)
     \<and> (BatchDebugPrintf c = None \<longrightarrow> w_sent w = [])"

definition writer_events :: "'e writer \<Rightarrow> 'e multiset" where
  "writer_events w = mset (concat (w_sent w)) + mset (w_batch w)"

lemma writer_start_ok: "0 < lj_BatchSize c \<Longrightarrow> writer_ok c writer_start" "writer_events writer_start = {#}"
  "w_activity writer_start = Active"
  by (simp_all add: writer_ok_def writer_events_def writer_start_def)

lemma debug_printf_Inr: "debug_printf c x = Inr y \<longleftrightarrow> BatchDebugPrintf c \<noteq> None \<and> y = x"
  by (auto simp: debug_printf_def)

lemma writer_flow_cases:
  assumes "writer_flow c conv m w = Inr w'" "conv m = Inr ev" "timerSet w \<longleftrightarrow> w_timer w \<noteq> Stopped"
  obtains "int (Suc (length (w_batch w))) < lj_BatchSize c" "w' = w\<lparr>w_batch := w_batch w @ [ev]\<rparr>"
  | "int (Suc (length (w_batch w))) = lj_BatchSize c" "BatchDebugPrintf c \<noteq> None"
    "w' = w\<lparr>w_connected := True, w_batch := [], w_timer := Running, timerSet := True,
            w_sent := w_sent w @ [w_batch w @ [ev]]\<rparr>"
proof (cases "int (Suc (length (w_batch w))) = lj_BatchSize c")
  case True
  let ?w = "w\<lparr>w_batch := w_batch w @ [ev]\<rparr>"
  let ?w1 = "if timerSet ?w then ?w\<lparr>w_timer := Stopped, timerSet := False\<rparr> else ?w"
  have not: "\<not> (timerSet ?w \<and> w_timer ?w = Stopped)" using assms(3) by simp
  have "or_fail (debug_printf c (send_batch ?w1)) (\<lambda>w. Inr (if \<not> timerSet w then reset_timer w else w)) = Inr w'"
    using assms(1,2) True not by (cases "timerSet w") (simp_all add: writer_flow_def Let_def)
  then have "BatchDebugPrintf c \<noteq> None" "w' = reset_timer (send_batch ?w1)"
    by (auto simp: or_fail_Inr debug_printf_Inr send_batch_def split: if_splits)
  then show thesis using that(2) [OF True] by (simp add: send_batch_def reset_timer_def)
next
  case False
  then have "w' = w\<lparr>w_batch := w_batch w @ [ev]\<rparr>" "\<not> int (length (w_batch w)) \<ge> lj_BatchSize c"
    using assms(1,2) by (simp_all add: writer_flow_def Let_def split: if_splits)
  then show thesis using that(1) False by auto
qed

lemma writer_flow_ok:
  assumes "writer_ok c w" "w_activity w = Active" "writer_flow c conv m w = Inr w'" "conv m = Inr ev"
  shows "writer_ok c w' \<and> w_activity w' = Active \<and> writer_events w' = add_mset ev (writer_events w)"
proof -
  have "timerSet w \<longleftrightarrow> w_timer w \<noteq> Stopped" using assms(1,2) by (simp add: writer_ok_def)
  from assms(3,4) this show ?thesis
    by (rule writer_flow_cases) (use assms(1,2) in \<open>auto simp: writer_ok_def writer_events_def\<close>)
qed

lemma writer_tick_Inr:
  "writer_tick c w = Inr w' \<longleftrightarrow>
     BatchDebugPrintf c \<noteq> None \<and> w' = reset_timer (if w_batch w \<noteq> [] then send_batch w else w)"
  unfolding writer_tick_def or_fail_Inr debug_printf_Inr by auto

lemma writer_tick_ok:
  assumes "writer_ok c w" "w_activity w = Active" "w_timer w = Expired" "writer_tick c w = Inr w'"
  shows "writer_ok c w' \<and> w_activity w' = Active \<and> writer_events w' = writer_events w"
proof -
  have ok: "timerSet w" "w_sent w \<noteq> []" "int (length (w_batch w)) < lj_BatchSize c"
    "\<forall>b\<in>set (w_sent w). int (length b) \<le> lj_BatchSize c" "BatchDebugPrintf c \<noteq> None"
    using assms unfolding writer_ok_def by auto
  have "w' = reset_timer (if w_batch w \<noteq> [] then send_batch w else w)" using assms(4) by (simp add: writer_tick_Inr)
  then show ?thesis using ok assms(2)
    by (cases "w_batch w = []") (simp_all add: writer_ok_def writer_events_def send_batch_def reset_timer_def)
qed

lemma writer_closed_Inr:
  "writer_closed c final w = Inr w' \<longleftrightarrow>
     (\<exists>ok. final (w_connected w) (w_batch w) = Inr ok \<and> (ok \<longrightarrow> BatchDebugPrintf c \<noteq> None)
        \<and> w' = w\<lparr>w_activity := Ended, w_batch := [], w_sent := w_sent w @ (if ok then [w_batch w] else [])\<rparr>)"
  unfolding writer_closed_def or_fail_Inr by (rule ex_cong1) (auto simp: debug_printf_Inr)

lemma writer_closed_ok:
  assumes "writer_ok c w" "w_activity w = Active" "writer_closed c final w = Inr w'"
  shows "writer_ok c w' \<and> w_activity w' = Ended \<and> (final (w_connected w) (w_batch w) \<noteq> Inr False \<longrightarrow> writer_events w' = writer_events w)"
proof -
  obtain ok where f: "final (w_connected w) (w_batch w) = Inr ok" "ok \<longrightarrow> BatchDebugPrintf c \<noteq> None"
    "w' = w\<lparr>w_activity := Ended, w_batch := [], w_sent := w_sent w @ (if ok then [w_batch w] else [])\<rparr>"
    using assms(3) unfolding writer_closed_Inr by blast
  have ok: "int (length (w_batch w)) < lj_BatchSize c"
    "\<forall>b\<in>set (w_sent w). int (length b) \<le> lj_BatchSize c" "BatchDebugPrintf c = None \<longrightarrow> w_sent w = []"
    using assms(1,2) unfolding writer_ok_def by auto
  show ?thesis using f ok by (cases ok) (simp_all add: writer_ok_def writer_events_def)
qed

section \<open>The invariant of the segment\<close>

fun main_pending :: "'m lj_main \<Rightarrow> 'm list" where
  "main_pending (LQueue m) = [m]"
| "main_pending (LOut m) = [m]"
| "main_pending _ = []"

fun main_unqueued :: "'m lj_main \<Rightarrow> 'm list" where
  "main_unqueued (LQueue m) = [m]"
| "main_unqueued _ = []"

definition lj_events :: "('m \<Rightarrow> 'e) \<Rightarrow> ('m, 'e) lj \<Rightarrow> 'e multiset" where
  "lj_events g s = (\<Sum>w\<leftarrow>lj_writers s. writer_events w)
     + image_mset g (mset (lj_queue s) + mset (main_unqueued (lj_main s)) + mset (lj_in s))"

definition ended_writers :: "('m, 'e) lj \<Rightarrow> int" where
  "ended_writers s = (\<Sum>w\<leftarrow>lj_writers s. if w_activity w = Ended then 1 else 0)"

definition lj_inv :: "Lumberjack \<Rightarrow> ('m \<Rightarrow> 'e) \<Rightarrow> 'm list \<Rightarrow> int \<Rightarrow> int \<Rightarrow> ('m, 'e) lj \<Rightarrow> bool" where
  "lj_inv c g ms n wg s \<longleftrightarrow> (\<forall>w\<in>set (lj_writers s). writer_ok c w)
     \<and> lj_out s @ main_pending (lj_main s) @ lj_in s = ms \<and> set (lj_queue s) \<subseteq> set ms
     \<and> lj_events g s = image_mset g (mset ms)
     \<and> writerWG s = n - ended_writers s
     \<and> lj_wg s = wg - ended_writers s - (if lj_main s = LDone then 1 else 0)
     \<and> (lj_main s = LDone \<longrightarrow> 0 \<le> lj_wg s \<and> writerWG s = 0)"

lemma writer_result_Inr:
  assumes "lj_crash (writer_result i r s) = None"
  obtains w where "r = Inr w" "w_activity w \<noteq> Ended" "writer_result i r s = s\<lparr>lj_writers := (lj_writers s)[i := w]\<rparr>"
  | w where "r = Inr w" "w_activity w = Ended" "1 \<le> lj_wg s \<and> 1 \<le> writerWG s"
    "writer_result i r s = s\<lparr>lj_writers := (lj_writers s)[i := w], lj_wg := lj_wg s - 1, writerWG := writerWG s - 1\<rparr>"
  using assms by (cases r) (auto simp: writer_result_def Let_def split: if_splits)

lemma set_list_update_ball: "\<forall>x\<in>set xs. P x \<Longrightarrow> P y \<Longrightarrow> \<forall>x\<in>set (xs[i := y]). P x"
  by (auto dest: set_update_subset_insert [THEN subsetD])

lemma writers_update:
  assumes "active_writer i s" "w_activity w \<noteq> Ended"
  shows "(\<Sum>x\<leftarrow>(lj_writers s)[i := w]. if w_activity x = Ended then 1 else 0) = ended_writers s"
  using sum_list_map_update [where i = i and xs = "lj_writers s" and y = w and f = "\<lambda>x. if w_activity x = Ended then 1 else (0 :: int)"] assms
  by (simp add: active_writer_def ended_writers_def)

lemma writers_update_ended:
  assumes "active_writer i s" "w_activity w = Ended"
  shows "(\<Sum>x\<leftarrow>(lj_writers s)[i := w]. if w_activity x = Ended then 1 else 0) = ended_writers s + 1"
  using sum_list_map_update [where i = i and xs = "lj_writers s" and y = w and f = "\<lambda>x. if w_activity x = Ended then 1 else (0 :: int)"] assms
  by (simp add: active_writer_def ended_writers_def)

lemma writers_update_events:
  assumes "active_writer i s" "writer_events w = X + writer_events (lj_writers s ! i)"
  shows "(\<Sum>x\<leftarrow>(lj_writers s)[i := w]. writer_events x) = X + (\<Sum>x\<leftarrow>lj_writers s. writer_events x)"
proof -
  have "(\<Sum>x\<leftarrow>(lj_writers s)[i := w]. writer_events x) + writer_events (lj_writers s ! i)
      = (X + (\<Sum>x\<leftarrow>lj_writers s. writer_events x)) + writer_events (lj_writers s ! i)"
    using sum_list_map_update [where i = i and xs = "lj_writers s" and y = w and f = writer_events] assms
    by (simp add: active_writer_def ac_simps)
  then show ?thesis by (rule add_right_imp_eq)
qed

lemma active_ok: "lj_inv c g ms n wg s \<Longrightarrow> active_writer i s \<Longrightarrow>
    writer_ok c (lj_writers s ! i) \<and> w_activity (lj_writers s ! i) = Active"
  by (simp add: lj_inv_def active_writer_def)

text \<open>What a writer does with a flow, a tick and the end, in terms of the whole segment.\<close>

lemma lj_inv_update:
  assumes "lj_inv c g ms n wg s" "active_writer i s" "writer_ok c w" "w_activity w = Active"
    and "writer_events w = image_mset g (mset xs) + writer_events (lj_writers s ! i)" "lj_queue s = xs @ q"
  shows "lj_inv c g ms n wg (s\<lparr>lj_queue := q, lj_writers := (lj_writers s)[i := w]\<rparr>)"
  using assms writers_update [of i s w] writers_update_events [OF assms(2,5)] set_list_update_ball [of "lj_writers s" "writer_ok c" w i]
  by (auto simp: lj_inv_def lj_events_def ended_writers_def ac_simps)

lemma lj_inv_ended:
  assumes "lj_inv c g ms n wg s" "active_writer i s" "writer_ok c w" "w_activity w = Ended" "1 \<le> lj_wg s \<and> 1 \<le> writerWG s"
    and "writer_events w = writer_events (lj_writers s ! i)"
  shows "lj_inv c g ms n wg (s\<lparr>lj_writers := (lj_writers s)[i := w], lj_wg := lj_wg s - 1, writerWG := writerWG s - 1\<rparr>)"
  using assms writers_update_ended [of i s w] writers_update_events [of i s w "{#}"] set_list_update_ball [of "lj_writers s" "writer_ok c" w i]
  by (auto simp: lj_inv_def lj_events_def ended_writers_def)

lemma lj_inv_flow:
  assumes inv: "lj_inv c g ms n wg s" and act: "active_writer i s" and q: "lj_queue s = m # q" and g: "conv m = Inr (g m)"
    and fin: "lj_crash (writer_result i (writer_flow c conv m (lj_writers s ! i)) (s\<lparr>lj_queue := q\<rparr>)) = None"
  shows "lj_inv c g ms n wg (writer_result i (writer_flow c conv m (lj_writers s ! i)) (s\<lparr>lj_queue := q\<rparr>))"
  using fin
proof (cases rule: writer_result_Inr)
  case (1 w)
  note w = writer_flow_ok [OF conjunct1 [OF active_ok [OF inv act]] conjunct2 [OF active_ok [OF inv act]] 1(1) g]
  then have "writer_events w = image_mset g (mset [m]) + writer_events (lj_writers s ! i)" by simp
  with w show ?thesis unfolding 1(3) using lj_inv_update [OF inv act _ _ _ , of w "[m]" q] q by simp
next
  case (2 w)
  then show ?thesis
    using writer_flow_ok [OF conjunct1 [OF active_ok [OF inv act]] conjunct2 [OF active_ok [OF inv act]] 2(1) g] by simp
qed

lemma lj_inv_tick:
  assumes inv: "lj_inv c g ms n wg s" and act: "active_writer i s" and t: "w_timer (lj_writers s ! i) = Expired"
    and fin: "lj_crash (writer_result i (writer_tick c (lj_writers s ! i)) s) = None"
  shows "lj_inv c g ms n wg (writer_result i (writer_tick c (lj_writers s ! i)) s)"
  using fin
proof (cases rule: writer_result_Inr)
  case (1 w)
  note w = writer_tick_ok [OF conjunct1 [OF active_ok [OF inv act]] conjunct2 [OF active_ok [OF inv act]] t 1(1)]
  then show ?thesis unfolding 1(3) using lj_inv_update [OF inv act, of w "[]" "lj_queue s"] by simp
next
  case (2 w)
  then show ?thesis
    using writer_tick_ok [OF conjunct1 [OF active_ok [OF inv act]] conjunct2 [OF active_ok [OF inv act]] t 2(1)] by simp
qed

lemma lj_inv_end:
  assumes inv: "lj_inv c g ms n wg s" and act: "active_writer i s" and f: "\<forall>k es. final k es \<noteq> Inr False"
    and fin: "lj_crash (writer_result i (writer_closed c final (lj_writers s ! i)) s) = None"
  shows "lj_inv c g ms n wg (writer_result i (writer_closed c final (lj_writers s ! i)) s)"
  using fin
proof (cases rule: writer_result_Inr)
  case (1 w)
  then show ?thesis
    using writer_closed_ok [OF conjunct1 [OF active_ok [OF inv act]] conjunct2 [OF active_ok [OF inv act]] 1(1)] by simp
next
  case (2 w)
  have "writer_ok c w \<and> w_activity w = Ended \<and> writer_events w = writer_events (lj_writers s ! i)"
    using writer_closed_ok [OF conjunct1 [OF active_ok [OF inv act]] conjunct2 [OF active_ok [OF inv act]] 2(1)] f by simp
  then show ?thesis unfolding 2(4) using lj_inv_ended [OF inv act _ _ 2(3)] by blast
qed

lemma lj_inv_expire:
  assumes inv: "lj_inv c g ms n wg s" and act: "active_writer i s" and t: "w_timer (lj_writers s ! i) = Running"
  shows "lj_inv c g ms n wg (s\<lparr>lj_writers := (lj_writers s)[i := (lj_writers s ! i)\<lparr>w_timer := Expired\<rparr>]\<rparr>)"
proof -
  let ?w = "(lj_writers s ! i)\<lparr>w_timer := Expired\<rparr>"
  have "writer_ok c ?w" using active_ok [OF inv act] t by (auto simp: writer_ok_def)
  moreover have "writer_events ?w = writer_events (lj_writers s ! i)" by (simp add: writer_events_def)
  ultimately show ?thesis using lj_inv_update [OF inv act, of ?w "[]" "lj_queue s"] active_ok [OF inv act] by simp
qed

lemma lj_inv_step:
  assumes "lj_step c conv final s s'" "lj_inv c g ms n wg s" "lj_crash s' = None"
    and "\<forall>m\<in>set ms. conv m = Inr (g m)" "\<forall>k es. final k es \<noteq> Inr False"
  shows "lj_inv c g ms n wg s'"
  using assms(1)
proof cases
  case (lj_take i m q)
  then have "m \<in> set ms" using assms(2) by (simp add: lj_inv_def)
  with lj_take show ?thesis using lj_inv_flow [of c g ms n wg s i m q conv] assms(2-4) by simp
next
  case (lj_tick i)
  then show ?thesis using lj_inv_tick [of c g ms n wg s i] assms(2,3) by simp
next
  case (lj_end i)
  then show ?thesis using lj_inv_end [of c g ms n wg s i final] assms(2,3,5) by simp
next
  case (lj_expire i)
  then show ?thesis using lj_inv_expire [of c g ms n wg s i] assms(2) by simp
qed (use assms(2,3) in \<open>auto simp: lj_inv_def lj_events_def ended_writers_def ac_simps split: if_splits\<close>)

lemma sum_replicate_zero: "f x = 0 \<Longrightarrow> (\<Sum>y\<leftarrow>replicate k x. f y) = (0 :: 'a::comm_monoid_add)"
  by (induction k) auto

lemma lj_inv_start:
  assumes "0 < lj_BatchSize c"
  shows "lj_inv c g ms (int (length servers)) wg (lj_start servers wg ms)"
  using assms
  by (simp add: lj_inv_def lj_start_def lj_events_def ended_writers_def sum_replicate_zero writer_start_ok del: map_replicate)

lemma lj_inv_steps:
  assumes "lj_steps c conv final (lj_start servers wg ms) s" "lj_crash s = None" "0 < lj_BatchSize c"
    and "\<forall>m\<in>set ms. conv m = Inr (g m)" "\<forall>k es. final k es \<noteq> Inr False"
  shows "lj_inv c g ms (int (length servers)) wg s"
  using assms(1,2)
proof (induction rule: rtranclp_induct)
  case base
  show ?case by (rule lj_inv_start [OF assms(3)])
next
  case (step y z)
  have "lj_crash y = None" using step.hyps(2) by cases auto
  then show ?case using lj_inv_step [OF step.hyps(2) _ step.prems assms(4,5)] step.IH by simp
qed

text \<open>
  C8. In every interleaving of the goroutines of \<open>lumberjack\<close>, as long as none of them has panicked (as
  a writer does with every batch when \<open>batchdebug\<close> is not configured), with a positive batch size, flows
  that can all be marshalled, and when the send of a last batch at the end of the input is not
  given up: the flows are forwarded in order, every flow that was taken in is in the queue, in a batch or in an
  acknowledged batch of exactly one writer, no batch is larger than the batch size, and no writer is
  blocked at its timer.
\<close>

theorem lumberjack_conserves:
  assumes "lj_steps c conv final (lj_start servers wg ms) s" "lj_crash s = None" "0 < lj_BatchSize c"
    and "\<forall>m\<in>set ms. conv m = Inr (g m)" "\<forall>k es. final k es \<noteq> Inr False"
  shows "prefix (lj_out s) ms \<and> lj_events g s = image_mset g (mset ms)
    \<and> (\<forall>w\<in>set (lj_writers s). w_activity w \<noteq> Blocked \<and> (\<forall>b\<in>set (w_sent w). int (length b) \<le> lj_BatchSize c))"
  using lj_inv_steps [OF assms] by (auto simp: lj_inv_def writer_ok_def prefix_def)

text \<open>
  The timer of a writer does not run before its first full batch: as long as an active writer
  has sent nothing, its timer is stopped, so its flows wait for a full batch or the end of the input,
  however long \<open>batchtimeout\<close> is exceeded.
\<close>

theorem lumberjack_first_batch_waits:
  assumes "lj_steps c conv final (lj_start servers wg ms) s" "lj_crash s = None" "0 < lj_BatchSize c"
    and "\<forall>m\<in>set ms. conv m = Inr (g m)" "\<forall>k es. final k es \<noteq> Inr False"
    and "w \<in> set (lj_writers s)" "w_activity w = Active" "w_sent w = []"
  shows "w_timer w = Stopped \<and> int (length (w_batch w)) < lj_BatchSize c"
  using lj_inv_steps [OF assms(1-5)] assms(6-8) by (auto simp: lj_inv_def writer_ok_def)

text \<open>
  The option \<open>batchdebug\<close> is not optional: without it the function for debug output is nil, and
  no run gets past a batch. In every run that has not crashed, no writer has completed a batch, and
  the next flow that completes one crashes it.
\<close>

theorem lumberjack_needs_batchdebug:
  assumes "Lumberjack_New url_Parse ParseDuration config = Inr c" "cfg config ''batchdebug'' = []"
    and "lj_steps c conv final (lj_start servers wg ms) s" "lj_crash s = None" "0 < lj_BatchSize c"
    and "\<forall>m\<in>set ms. conv m = Inr (g m)" "\<forall>k es. final k es \<noteq> Inr False"
  shows "\<forall>w\<in>set (lj_writers s). w_sent w = []
    \<and> (w_activity w = Active \<and> int (length (w_batch w)) + 1 = lj_BatchSize c \<longrightarrow>
        (\<forall>m\<in>set ms. writer_flow c conv m w = Inl (Panic ''invalid memory address or nil pointer dereference'')))"
proof -
  have nil: "BatchDebugPrintf c = None" using assms(1,2) unfolding Lumberjack_New_def or_fail_Inr by (auto simp: lj_option_def)
  have "writer_flow c conv m w = Inl (Panic ''invalid memory address or nil pointer dereference'')"
    if "writer_ok c w" "w_activity w = Active" "int (length (w_batch w)) + 1 = lj_BatchSize c" "m \<in> set ms" for w m
    using that assms(6) nil by (auto simp: writer_flow_def writer_ok_def debug_printf_def Let_def)
  with nil show ?thesis using lj_inv_steps [OF assms(3-7)] by (auto simp: lj_inv_def writer_ok_def)
qed

text \<open>
  Every writer signals the wait group of the pipeline, which counts segments: when \<open>Run\<close> returns
  without a panic, the wait group has been lowered once for the segment and once more for every
  server. Where the pipeline has no more segments than there are servers, \<open>Run\<close> never returns.
\<close>

theorem lumberjack_shutdown_miscounts:
  assumes "lj_steps c conv final (lj_start servers wg ms) s" "lj_crash s = None" "0 < lj_BatchSize c"
    and "\<forall>m\<in>set ms. conv m = Inr (g m)" "\<forall>k es. final k es \<noteq> Inr False"
  shows "lj_main s = LDone \<longrightarrow> lj_wg s = wg - 1 - int (length servers) \<and> int (length servers) < wg"
  using lj_inv_steps [OF assms] by (auto simp: lj_inv_def)

section \<open>Connections\<close>

text \<open>
  \<open>newResilientClient\<close>, and the function \<open>connect\<close> dials with: in plain text, or by TLS with or without the
  verification of the certificate.
\<close>

record resilientClient =
  ServerName :: string
  rc_Options :: ServerOptions
  rc_ReconnectWait :: int
  rc_connected :: bool

definition newResilientClient :: "string \<Rightarrow> ServerOptions \<Rightarrow> int \<Rightarrow> resilientClient" where
  "newResilientClient serverName options reconnectWait =
     \<lparr>ServerName = serverName, rc_Options = options, rc_ReconnectWait = reconnectWait, rc_connected = False\<rparr>"

datatype dial = PlainDial | TLSDial (InsecureSkipVerify: bool)

definition dialFunc :: "resilientClient \<Rightarrow> dial" where
  "dialFunc c = (if UseTLS (rc_Options c) then TLSDial (\<not> VerifyCertificate (rc_Options c)) else PlainDial)"

text \<open>
  \<open>jsonEncoderWrapper\<close>: a flow would be encoded by \<open>protojson\<close>, everything else by \<open>json\<close>. The struct it
  makes of a flow embeds it, so what \<open>protojson\<close> sees is the flow, without the time stamp beside it.
\<close>

definition jsonEncoderWrapper :: "(EnrichedFlow \<Rightarrow> 'b option) \<Rightarrow> ('e \<Rightarrow> 'b option) \<Rightarrow> EnrichedFlow + 'e \<Rightarrow> 'b option" where
  "jsonEncoderWrapper protojson_Marshal json_Marshal msg =
     (case msg of Inl flow \<Rightarrow> protojson_Marshal flow | Inr e \<Rightarrow> json_Marshal e)"

text \<open>The clients of all servers, as many for each as its \<open>Parallelism\<close> says.\<close>

definition server_clients :: "Lumberjack \<Rightarrow> string \<Rightarrow> resilientClient list" where
  "server_clients c server =
     (case Servers c server of
        None \<Rightarrow> []
      | Some options \<Rightarrow> replicate (nat (Parallelism options)) (newResilientClient server options (ReconnectWait c)))"

lemma add_servers_from:
  "add_servers url_Parse dflt raws servers = Inr servers' \<Longrightarrow> servers' host = Some opts \<Longrightarrow>
     servers host = Some opts \<or> (\<exists>raw\<in>set raws. \<exists>u. url_Parse raw = Some u \<and> Host u = host \<and> server_options dflt u = Inr opts)"
proof (induction url_Parse dflt raws servers rule: add_servers.induct)
  case (2 url_Parse dflt raw raws servers)
  then obtain u o1 where u: "url_Parse raw = Some u" "server_options dflt u = Inr o1"
    "add_servers url_Parse dflt raws (servers(Host u \<mapsto> o1)) = Inr servers'"
    by (auto split: option.splits sum.splits)
  from 2(1) [OF u(1) u(2) u(3) 2(3)] u show ?case by (auto split: if_splits)
qed simp

lemma server_options_dials:
  assumes "server_options dflt u = Inr opts"
  shows "1 \<le> Parallelism opts"
    and "Scheme u = ''tcp'' \<and> dialFunc (newResilientClient host opts w) = PlainDial
      \<or> Scheme u = ''tls'' \<and> dialFunc (newResilientClient host opts w) = TLSDial False
      \<or> Scheme u = ''tlsnoverify'' \<and> dialFunc (newResilientClient host opts w) = TLSDial True"
  using assms
  by (auto simp: server_options_def or_fail_Inr tls_options_def num_routines_def dialFunc_def newResilientClient_def
      split: if_splits option.splits)

text \<open>
  C34. How the segment connects: every server of an accepted configuration gets at least one client, and
  each of them dials as the scheme of a URL with this host in the option \<open>servers\<close> says: \<open>tls\<close> always
  verifies the certificate, only \<open>tlsnoverify\<close> does not, and only \<open>tcp\<close> is in plain text.
\<close>

theorem lumberjack_dials:
  assumes "Lumberjack_New url_Parse ParseDuration config = Inr c" "Servers c host = Some opts"
  shows "server_clients c host \<noteq> [] \<and> list_all (\<lambda>cl. \<exists>raw u. raw \<in> set (map trim_space (split_on (CHR '','') (cfg config ''servers'')))
      \<and> url_Parse raw = Some u \<and> Host u = host \<and> ServerName cl = host
      \<and> (Scheme u = ''tcp'' \<and> dialFunc cl = PlainDial \<or> Scheme u = ''tls'' \<and> dialFunc cl = TLSDial False
         \<or> Scheme u = ''tlsnoverify'' \<and> dialFunc cl = TLSDial True)) (server_clients c host)"
proof -
  obtain dflt where "add_servers url_Parse dflt (map trim_space (split_on (CHR '','') (cfg config ''servers''))) Map.empty = Inr (Servers c)"
    using assms(1) unfolding Lumberjack_New_def or_fail_Inr by auto
  from add_servers_from [OF this assms(2)] obtain raw u where u: "raw \<in> set (map trim_space (split_on (CHR '','') (cfg config ''servers'')))"
    "url_Parse raw = Some u" "Host u = host" "server_options dflt u = Inr opts" by auto
  note dials = server_options_dials [OF u(4)]
  then have "0 < nat (Parallelism opts)" by simp
  then show ?thesis using assms(2) u(1-3) dials(2) by (auto simp: server_clients_def list_all_iff newResilientClient_def)
qed

section \<open>An example\<close>

definition demo_server :: ServerOptions where
  "demo_server = \<lparr>UseTLS = False, VerifyCertificate = False, CompressionLevel = 0, Parallelism = 1\<rparr>"

definition demo_lumberjack :: "bool option \<Rightarrow> int \<Rightarrow> Lumberjack" where
  "demo_lumberjack debug b = \<lparr>Servers = [''h'' \<mapsto> demo_server], lj_BatchSize = b, BatchTimeout = lj_defaultTimeout,
     BatchDebugPrintf = debug, lj_QueueStatusInterval = 0, ReconnectWait = lj_defaultReconnectWait,
     LumberjackOut = lj_defaultQueueSize\<rparr>"

definition demo_config :: config_map where
  "demo_config = [''servers'' \<mapsto> ''tcp://h'']"

lemma demo_New:
  "Lumberjack_New (\<lambda>_. Some \<lparr>Scheme = ''tcp'', Host = ''h'', Query = \<lambda>_. []\<rparr>) (\<lambda>_. None) demo_config
     = Inr (demo_lumberjack None 64)"
  by (simp add: Lumberjack_New_def demo_config_def cfg_def compression_level_def server_options_def tls_options_def
      num_routines_def lj_option_def lj_defaultBatchSize_def lj_defaultTimeout_def lj_defaultQueueSize_def
      lj_defaultReconnectWait_def usable_timeout_def minimalBatchTimeout_def time_Minute_def make_chan_def max_chan_def
      demo_lumberjack_def demo_server_def)

lemma demo_steps:
  fixes x :: 'm
  defines "c \<equiv> demo_lumberjack (Some False) 1" and "f \<equiv> (\<lambda>_ _. Inr True) :: bool \<Rightarrow> 'm list \<Rightarrow> bool outcome"
  shows "\<exists>s w. lj_steps c Inr f (lj_start [demo_server] 3 [x]) s \<and> lj_crash s = None \<and> lj_main s = LDone
     \<and> lj_writers s = [w] \<and> w_sent w = [[x], []]"
proof -
  note defs = lj_start_def c_def demo_lumberjack_def demo_server_def lj_defaultQueueSize_def active_writer_def
    writer_start_def writer_result_def writer_flow_def writer_closed_def debug_printf_def send_batch_def reset_timer_def f_def
  let ?s0 = "lj_start [demo_server] 3 [x] :: ('m, 'm) lj"
  let ?s1 = "?s0\<lparr>lj_in := [], lj_main := LQueue x\<rparr>"
  let ?s2 = "?s1\<lparr>lj_queue := [x], lj_main := LOut x\<rparr>"
  let ?s3 = "?s2\<lparr>lj_out := [x], lj_main := LRecv\<rparr>"
  let ?w = "\<lparr>w_activity = Active, w_connected = True, w_batch = [], w_timer = Running, timerSet = True, w_sent = [[x]]\<rparr>"
  let ?s4 = "?s3\<lparr>lj_queue := [], lj_writers := [?w]\<rparr>"
  let ?s5 = "?s4\<lparr>lj_closed := True, lj_main := LWait\<rparr>"
  let ?w' = "?w\<lparr>w_activity := Ended, w_sent := [[x], []]\<rparr>"
  let ?s6 = "?s5\<lparr>lj_writers := [?w'], lj_wg := 2, writerWG := 0\<rparr>"
  let ?s7 = "?s6\<lparr>lj_wg := 1, lj_main := LDone\<rparr>"
  have "lj_step c Inr f ?s0 ?s1" using lj_recv [of ?s0 x "[]" c Inr f] by (simp add: defs)
  moreover have "lj_step c Inr f ?s1 ?s2" using lj_enqueue [of ?s1 x c Inr f] by (simp add: defs)
  moreover have "lj_step c Inr f ?s2 ?s3" using lj_forward [of ?s2 x c Inr f] by (simp add: defs)
  moreover have "lj_step c Inr f ?s3 ?s4" using lj_take [of ?s3 0 x "[]" c Inr f] by (simp add: defs)
  moreover have "lj_step c Inr f ?s4 ?s5" using lj_close [of ?s4 c Inr f] by (simp add: defs)
  moreover have "lj_step c Inr f ?s5 ?s6" using lj_end [of ?s5 0 c Inr f] by (simp add: defs)
  moreover have "lj_step c Inr f ?s6 ?s7" using lj_done [of ?s6 c Inr f] by (simp add: defs)
  ultimately have "lj_steps c Inr f ?s0 ?s7" by (meson converse_rtranclp_into_rtranclp rtranclp.rtrancl_refl)
  moreover have "lj_crash ?s7 = None" "lj_main ?s7 = LDone" "lj_writers ?s7 = [?w']" by (simp_all add: lj_start_def)
  ultimately show ?thesis by (intro exI [of _ ?s7] exI [of _ ?w']) simp
qed

theorem lumberjack_settings_witness:
  "Servers (demo_lumberjack None 64) \<noteq> Map.empty \<and> 64 \<le> LumberjackOut (demo_lumberjack None 64)"
  using lumberjack_settings [OF demo_New] by simp

theorem lumberjack_conserves_witness:
  "\<exists>s w. lj_steps (demo_lumberjack (Some False) 1) Inr (\<lambda>_ _. Inr True) (lj_start [demo_server] 3 [5 :: nat]) s
     \<and> lj_writers s = [w] \<and> w_sent w = [[5], []] \<and> lj_events (\<lambda>m. m) s = {#5#}"
proof -
  obtain s w where "lj_steps (demo_lumberjack (Some False) 1) Inr (\<lambda>_ _. Inr True) (lj_start [demo_server] 3 [5 :: nat]) s"
    "lj_crash s = None" "lj_writers s = [w]" "w_sent w = [[5], []]" using demo_steps [of "5 :: nat"] by blast
  moreover from this(1,2) have "lj_events (\<lambda>m. m) s = image_mset (\<lambda>m. m) (mset [5])"
    using lumberjack_conserves [of _ Inr _ _ _ "[5]" s "\<lambda>m. m"] by (simp add: demo_lumberjack_def)
  ultimately show ?thesis by auto
qed

theorem lumberjack_first_batch_waits_witness:
  "w_timer (writer_start :: nat writer) = Stopped"
proof -
  have "w_timer (writer_start :: nat writer) = Stopped \<and> int (length (w_batch (writer_start :: nat writer))) < 64"
    using lumberjack_first_batch_waits [of "demo_lumberjack None 64" Inr "\<lambda>_ _. Inr True" "[demo_server]" 1 "[5 :: nat]"
        "lj_start [demo_server] 1 [5]" "\<lambda>m. m" writer_start]
    by (simp add: demo_lumberjack_def demo_server_def lj_start_def writer_start_def)
  then show ?thesis by simp
qed

theorem lumberjack_needs_batchdebug_witness:
  "writer_flow (demo_lumberjack None 64) Inr (5 :: nat) (writer_start\<lparr>w_batch := replicate 63 5\<rparr>)
     = Inl (Panic ''invalid memory address or nil pointer dereference'')
   \<and> w_sent (writer_start :: nat writer) = []"
proof -
  have "w_sent (writer_start :: nat writer) = []"
    using lumberjack_needs_batchdebug [OF demo_New, of Inr "\<lambda>_ _. Inr True" "[demo_server]" 1 "[5 :: nat]"
        "lj_start [demo_server] 1 [5]" "\<lambda>m. m"]
    by (simp add: demo_config_def cfg_def demo_lumberjack_def lj_start_def demo_server_def)
  then show ?thesis by (simp add: writer_flow_def writer_start_def debug_printf_def demo_lumberjack_def Let_def)
qed

theorem lumberjack_shutdown_miscounts_witness:
  "\<exists>s. lj_steps (demo_lumberjack (Some False) 1) Inr (\<lambda>_ _. Inr True) (lj_start [demo_server] 3 [5 :: nat]) s
     \<and> lj_main s = LDone \<and> lj_wg s = 1"
proof -
  obtain s where s: "lj_steps (demo_lumberjack (Some False) 1) Inr (\<lambda>_ _. Inr True) (lj_start [demo_server] 3 [5 :: nat]) s"
    "lj_crash s = None" "lj_main s = LDone" using demo_steps [of "5 :: nat"] by blast
  then have "lj_wg s = 3 - 1 - int (length [demo_server])"
    using lumberjack_shutdown_miscounts [of _ Inr _ "[demo_server]" 3 "[5]" s "\<lambda>m. m"] by (simp add: demo_lumberjack_def)
  with s show ?thesis by auto
qed


theorem lumberjack_dials_witness:
  "server_clients (demo_lumberjack None 64) ''h'' \<noteq> []
   \<and> map dialFunc (server_clients (demo_lumberjack None 64) ''h'') = [PlainDial]"
proof -
  have "server_clients (demo_lumberjack None 64) ''h'' \<noteq> []"
    using lumberjack_dials [OF demo_New, of "''h''" demo_server] by (simp add: demo_lumberjack_def)
  then show ?thesis
    by (simp add: server_clients_def demo_lumberjack_def demo_server_def dialFunc_def newResilientClient_def)
qed

end
