(* ===== verification/Kafka.thy ===== *)
theory Kafka
  imports Reflection LegacyFlow Segments
begin

text \<open>
  The segments \<open>kafkaproducer\<close> and \<open>kafkaconsumer\<close> (with \<open>handler.go\<close>): configuration, the choice of
  topics, encoding and decoding, the consumer's loop and the loop that renews its session, and what
  a flow is after it went from a producer to a consumer.
\<close>

section \<open>Configuration\<close>

text \<open>
  What the segments set in the configuration of the library \<open>sarama\<close>. \<open>'v\<close> are its versions, whose
  parser \<open>ParseKafkaVersion\<close> gives a version also when it reports an error; the offsets and the names
  of strategies are constants of the library.
\<close>

record 'v sarama_config =
  ClientID :: string
  GroupStrategies :: "string list"
  Version :: "'v option"
  TLS_Enable :: bool
  SASL_Enable :: bool
  SASL_User :: string
  SASL_Password :: string
  Offsets_Initial :: int
  DialTimeout :: int

record 'v KafkaConsumer =
  kc_Server :: string
  kc_Topic :: string
  kc_Group :: string
  kc_User :: string
  kc_Pass :: string
  kc_Tls :: bool
  kc_Auth :: bool
  StartAt :: string
  kc_Timeout :: int
  kc_Legacy :: bool
  kc_KafkaVersion :: string
  startingOffset :: int
  kc_sarama :: "'v sarama_config"

record 'v KafkaProducer =
  kp_Server :: string
  kp_Topic :: string
  TopicSuffix :: string
  kp_User :: string
  kp_Pass :: string
  kp_Tls :: bool
  kp_Auth :: bool
  kp_Legacy :: bool
  kp_KafkaVersion :: string
  kp_Version :: "'v option"

text \<open>
  TLS and authentication, in both segments: without a pool of certificates TLS panics, and
  authentication without credentials gives no segment. The defaults are to use both.
\<close>

definition kafka_security :: "bool \<Rightarrow> config_map \<Rightarrow> (bool \<times> bool) option outcome" where
  "kafka_security cert_pool config =
     (let useTls = bool_option True (cfg config ''tls'');
          useAuth = bool_option True (cfg config ''auth'')
      in if useTls \<and> \<not> cert_pool then Inl (Panic ''TLS Error'')
         else if useAuth \<and> (cfg config ''user'' = [] \<or> cfg config ''pass'' = []) then Inr None
         else Inr (Some (useTls, useAuth)))"

definition kafka_version :: "(string \<Rightarrow> 'v \<times> bool) \<Rightarrow> string \<Rightarrow> 'v option \<times> string" where
  "kafka_version ParseKafkaVersion v =
     (if v \<noteq> [] then (case ParseKafkaVersion v of (x, ok) \<Rightarrow> (Some x, if ok then v else [])) else (None, []))"

definition balance_strategies :: "(string \<Rightarrow> bool) \<Rightarrow> string \<Rightarrow> string list" where
  "balance_strategies known v = (if v \<noteq> [] then filter known (split_on (CHR '','') v) else [''sticky''])"

definition starting_point :: "int \<Rightarrow> int \<Rightarrow> string \<Rightarrow> string \<times> int" where
  "starting_point OffsetNewest OffsetOldest v =
     (if to_lower v = ''oldest'' then (''oldest'', OffsetOldest) else (''newest'', OffsetNewest))"

definition KafkaConsumer_New ::
  "string option \<Rightarrow> bool \<Rightarrow> (string \<Rightarrow> 'v \<times> bool) \<Rightarrow> (string \<Rightarrow> bool) \<Rightarrow> int \<Rightarrow> int \<Rightarrow> (string \<Rightarrow> int option) \<Rightarrow>
   config_map \<Rightarrow> 'v KafkaConsumer option outcome" where
  "KafkaConsumer_New hostname cert_pool ParseKafkaVersion known OffsetNewest OffsetOldest ParseDuration config =
     (if cfg config ''server'' = [] \<or> cfg config ''topic'' = [] \<or> cfg config ''group'' = [] then Inr None
      else or_fail (kafka_security cert_pool config) (\<lambda>sec.
        case sec of
          None \<Rightarrow> Inr None
        | Some (useTls, useAuth) \<Rightarrow>
            (let (version, version_text) = kafka_version ParseKafkaVersion (cfg config ''kafka-version'');
                 (startAt, offset) = starting_point OffsetNewest OffsetOldest (cfg config ''startat'');
                 timeout = (case ParseDuration (cfg config ''timeout'') of Some d \<Rightarrow> d | None \<Rightarrow> 15 * 10 ^ 9)
             in Inr (Some
               \<lparr>kc_Server = cfg config ''server'', kc_Topic = cfg config ''topic'', kc_Group = cfg config ''group'',
                kc_User = cfg config ''user'', kc_Pass = cfg config ''pass'', kc_Tls = useTls, kc_Auth = useAuth,
                StartAt = startAt, kc_Timeout = timeout, kc_Legacy = bool_option False (cfg config ''legacy''),
                kc_KafkaVersion = version_text, startingOffset = offset,
                kc_sarama = \<lparr>ClientID = (case hostname of Some h \<Rightarrow> h | None \<Rightarrow> ''unknown''),
                  GroupStrategies = balance_strategies known (cfg config ''strategy''), Version = version,
                  TLS_Enable = useTls, SASL_Enable = useAuth,
                  SASL_User = (if useAuth then cfg config ''user'' else []),
                  SASL_Password = (if useAuth then cfg config ''pass'' else []),
                  Offsets_Initial = offset, DialTimeout = timeout\<rparr>\<rparr>))))"

text \<open>\<open>topicsuffix\<close> must name a field that holds a number or a text.\<close>

definition topic_suffix_ok :: "string \<Rightarrow> bool" where
  "topic_suffix_ok n \<longleftrightarrow> field_exists n \<and> field_type n \<in> {''string'', ''uint32'', ''uint64''}"

definition KafkaProducer_New ::
  "bool \<Rightarrow> (string \<Rightarrow> 'v \<times> bool) \<Rightarrow> config_map \<Rightarrow> 'v KafkaProducer option outcome" where
  "KafkaProducer_New cert_pool ParseKafkaVersion config =
     (if cfg config ''server'' = [] \<or> cfg config ''topic'' = [] then Inr None
      else or_fail (kafka_security cert_pool config) (\<lambda>sec.
        case sec of
          None \<Rightarrow> Inr None
        | Some (useTls, useAuth) \<Rightarrow>
            if cfg config ''topicsuffix'' \<noteq> [] \<and> \<not> topic_suffix_ok (cfg config ''topicsuffix'') then Inr None
            else
              (let (version, version_text) = kafka_version ParseKafkaVersion (cfg config ''kafka-version'')
               in Inr (Some
                 \<lparr>kp_Server = cfg config ''server'', kp_Topic = cfg config ''topic'', TopicSuffix = cfg config ''topicsuffix'',
                  kp_User = cfg config ''user'', kp_Pass = cfg config ''pass'', kp_Tls = useTls, kp_Auth = useAuth,
                  kp_Legacy = bool_option False (cfg config ''legacy''), kp_KafkaVersion = version_text,
                  kp_Version = version\<rparr>))))"

lemma kafka_security_Some:
  "kafka_security p config = Inr (Some (t, a)) \<Longrightarrow>
     t = bool_option True (cfg config ''tls'') \<and> a = bool_option True (cfg config ''auth'')
     \<and> (a \<longrightarrow> cfg config ''user'' \<noteq> [] \<and> cfg config ''pass'' \<noteq> [])"
  by (simp add: kafka_security_def Let_def split: if_splits)

lemma bool_option_False: "\<not> bool_option True v \<Longrightarrow> parse_bool v = Some False"
  by (simp add: bool_option_def split: if_splits option.splits)

lemma KafkaConsumer_New_Some:
  assumes "KafkaConsumer_New hostname p pv known new old pd config = Inr (Some s)"
  obtains t a where "kafka_security p config = Inr (Some (t, a))" "TLS_Enable (kc_sarama s) = t" "SASL_Enable (kc_sarama s) = a"
    "SASL_User (kc_sarama s) = (if a then cfg config ''user'' else [])"
    "SASL_Password (kc_sarama s) = (if a then cfg config ''pass'' else [])"
proof -
  obtain sec where sec: "kafka_security p config = Inr sec"
    using assms unfolding KafkaConsumer_New_def by (cases "kafka_security p config") (auto split: if_splits)
  then obtain t a where ta: "sec = Some (t, a)"
    using assms unfolding KafkaConsumer_New_def by (cases sec) (auto split: if_splits)
  have "TLS_Enable (kc_sarama s) = t \<and> SASL_Enable (kc_sarama s) = a
    \<and> SASL_User (kc_sarama s) = (if a then cfg config ''user'' else [])
    \<and> SASL_Password (kc_sarama s) = (if a then cfg config ''pass'' else [])"
    using assms unfolding KafkaConsumer_New_def sec ta Let_def case_prod_beta by (auto split: if_split_asm)
  with sec ta show thesis by (intro that [of t a]) simp_all
qed

text \<open>
  Credentials: a segment that was configured either authenticates with a user and a password
  that are not empty, or the option \<open>auth\<close> was set to a false value; the connection is encrypted
  unless \<open>tls\<close> was set to a false value.
\<close>

theorem kafka_credentials:
  assumes "KafkaConsumer_New hostname cert_pool pv known new old pd config = Inr (Some s)"
  shows "(SASL_Enable (kc_sarama s) \<longrightarrow> SASL_User (kc_sarama s) \<noteq> [] \<and> SASL_Password (kc_sarama s) \<noteq> [])
    \<and> (\<not> SASL_Enable (kc_sarama s) \<longrightarrow> parse_bool (cfg config ''auth'') = Some False)
    \<and> (\<not> TLS_Enable (kc_sarama s) \<longrightarrow> parse_bool (cfg config ''tls'') = Some False)"
proof -
  obtain t a where s: "kafka_security cert_pool config = Inr (Some (t, a))" "TLS_Enable (kc_sarama s) = t"
    "SASL_Enable (kc_sarama s) = a" "SASL_User (kc_sarama s) = (if a then cfg config ''user'' else [])"
    "SASL_Password (kc_sarama s) = (if a then cfg config ''pass'' else [])"
    by (rule KafkaConsumer_New_Some [OF assms])
  show ?thesis using kafka_security_Some [OF s(1)] s(2-5) bool_option_False by auto
qed

theorem kafka_credentials_witness:
  "\<exists>s. KafkaConsumer_New None True (\<lambda>_. ((), True)) (\<lambda>_. True) (- 1) (- 2) (\<lambda>_. None)
     [''server'' \<mapsto> ''h'', ''topic'' \<mapsto> ''t'', ''group'' \<mapsto> ''g'', ''user'' \<mapsto> ''u'', ''pass'' \<mapsto> ''p''] = Inr (Some s)
     \<and> SASL_Enable (kc_sarama s) \<and> SASL_User (kc_sarama s) \<noteq> []"
proof -
  let ?c = "[''server'' \<mapsto> ''h'', ''topic'' \<mapsto> ''t'', ''group'' \<mapsto> ''g'', ''user'' \<mapsto> ''u'', ''pass'' \<mapsto> ''p''] :: config_map"
  obtain s where s: "KafkaConsumer_New None True (\<lambda>_. ((), True)) (\<lambda>_. True) (- 1) (- 2) (\<lambda>_. None) ?c = Inr (Some s)"
    "SASL_Enable (kc_sarama s)"
    by (simp add: KafkaConsumer_New_def kafka_security_def bool_option_def kafka_version_def starting_point_def cfg_def
        to_lower_def Let_def)
  with kafka_credentials [OF s(1)] show ?thesis by blast
qed

section \<open>The producer\<close>

text \<open>
  A flow is forwarded first and encoded then; encoding fills missing timestamps of the flow itself.
  The legacy format is encoded by \<open>marshal_legacy\<close>, the other one by \<open>marshal\<close>; a flow that cannot be
  encoded is skipped. \<open>online\<close> says whether \<open>NewAsyncProducer\<close> gave a producer; its error is not
  looked at.
\<close>

definition producer_encode ::
  "(rat \<Rightarrow> u64) \<Rightarrow> (EnrichedFlow \<Rightarrow> 'b option) \<Rightarrow> (LegacyEnrichedFlow \<Rightarrow> 'b option) \<Rightarrow> bool \<Rightarrow> EnrichedFlow \<Rightarrow> 'b option" where
  "producer_encode ovf marshal marshal_legacy legacy m =
     (if legacy then marshal_legacy (snd (ConvertToLegacyEnrichedFlow ovf m))
      else marshal (SyncMissingTimeStamps ovf m))"

fun suffix_text :: "goval \<Rightarrow> string option" where
  "suffix_text (GUint32 n) = Some (dec (unat n))"
| "suffix_text (GUint64 n) = Some (dec (unat n))"
| "suffix_text (GString s) = Some s"
| "suffix_text _ = None"

definition producer_topic :: "'v KafkaProducer \<Rightarrow> EnrichedFlow \<Rightarrow> string outcome" where
  "producer_topic seg m =
     (if TopicSuffix seg = [] then Inr (kp_Topic seg)
      else case FieldByName m (TopicSuffix seg) of
             None \<Rightarrow> Inl (Panic ''reflect: call of reflect.Value.Type on zero Value'')
           | Some v \<Rightarrow> (case suffix_text v of
                          None \<Rightarrow> Inl (Fatal ''KafkaProducer: TopicSuffix must be of type uint or string.'')
                        | Some t \<Rightarrow> Inr (kp_Topic seg @ ''-'' @ t)))"

definition KafkaProducer_step ::
  "(rat \<Rightarrow> u64) \<Rightarrow> (EnrichedFlow \<Rightarrow> 'b option) \<Rightarrow> (LegacyEnrichedFlow \<Rightarrow> 'b option) \<Rightarrow> bool \<Rightarrow>
   ('v KafkaProducer \<times> (string \<times> 'b) list, EnrichedFlow) step" where
  "KafkaProducer_step ovf marshal marshal_legacy online s m =
     (case producer_encode ovf marshal marshal_legacy (kp_Legacy (fst s)) m of
        None \<Rightarrow> Inr ([Out m], s)
      | Some binary \<Rightarrow>
          or_fail (producer_topic (fst s) (SyncMissingTimeStamps ovf m)) (\<lambda>topic.
          if online then Inr ([Out m], (fst s, snd s @ [(topic, binary)]))
          else Inl (Panic ''invalid memory address or nil pointer dereference'')))"

lemma enum_type_plain: "enum_type_name t \<notin> {''string'', ''uint32'', ''uint64''}"
  by (cases t) simp_all

lemma suffix_text_ok: "go_type v \<in> {''string'', ''uint32'', ''uint64''} \<Longrightarrow> suffix_text v = Some (field_text v)"
  using enum_type_plain by (cases v) auto

definition topic_of :: "'v KafkaProducer \<Rightarrow> EnrichedFlow \<Rightarrow> string" where
  "topic_of seg m = (if TopicSuffix seg = [] then kp_Topic seg
     else kp_Topic seg @ ''-'' @ field_text (the (FieldByName m (TopicSuffix seg))))"

lemma producer_topic_ok:
  assumes "TopicSuffix seg = [] \<or> topic_suffix_ok (TopicSuffix seg)"
  shows "producer_topic seg m = Inr (topic_of seg m)"
proof (cases "TopicSuffix seg = []")
  case False
  with assms have ok: "field_exists (TopicSuffix seg)" "field_type (TopicSuffix seg) \<in> {''string'', ''uint32'', ''uint64''}"
    by (simp_all add: topic_suffix_ok_def)
  then obtain v where v: "FieldByName m (TopicSuffix seg) = Some v" using FieldByName_exists by blast
  then have "suffix_text v = Some (field_text v)" using field_type_value [OF v] ok(2) suffix_text_ok by simp
  with v False show ?thesis by (simp add: producer_topic_def topic_of_def)
qed (simp add: producer_topic_def topic_of_def)

lemma KafkaProducer_New_suffix:
  assumes "KafkaProducer_New p pv config = Inr (Some seg)"
  shows "TopicSuffix seg = [] \<or> topic_suffix_ok (TopicSuffix seg)"
proof -
  obtain sec where sec: "kafka_security p config = Inr sec"
    using assms unfolding KafkaProducer_New_def by (cases "kafka_security p config") (auto split: if_splits)
  then obtain t a where "sec = Some (t, a)"
    using assms unfolding KafkaProducer_New_def by (cases sec) (auto split: if_splits)
  with sec show ?thesis using assms unfolding KafkaProducer_New_def Let_def case_prod_beta by (auto split: if_split_asm)
qed

definition written :: "(rat \<Rightarrow> u64) \<Rightarrow> (EnrichedFlow \<Rightarrow> 'b option) \<Rightarrow> (LegacyEnrichedFlow \<Rightarrow> 'b option) \<Rightarrow>
  'v KafkaProducer \<Rightarrow> EnrichedFlow \<Rightarrow> (string \<times> 'b) option" where
  "written ovf marshal marshal_legacy seg m =
     map_option (Pair (topic_of seg (SyncMissingTimeStamps ovf m))) (producer_encode ovf marshal marshal_legacy (kp_Legacy seg) m)"

lemma producer_run:
  assumes "TopicSuffix seg = [] \<or> topic_suffix_ok (TopicSuffix seg)"
  shows "run_loop (KafkaProducer_step ovf ma ml True) (seg, sent) ms =
    Inr (map Out ms, (seg, sent @ List.map_filter (written ovf ma ml seg) ms))"
proof (induction ms arbitrary: sent)
  case (Cons m ms)
  then show ?case using producer_topic_ok [OF assms]
    by (cases "producer_encode ovf ma ml (kp_Legacy seg) m") (simp_all add: KafkaProducer_step_def written_def map_filter_simps)
qed (simp add: map_filter_simps)

text \<open>
  A producer that was configured and is connected forwards every flow, and writes each that can
  be encoded once and in order, to the topic that the text of the chosen field names. The branch
  for a field of another type, which ends the pipeline, is never taken.
\<close>

theorem kafkaproducer_topics:
  assumes "KafkaProducer_New cert_pool ParseKafkaVersion config = Inr (Some seg)"
  shows "run_loop (KafkaProducer_step ovf marshal marshal_legacy True) (seg, []) ms =
    Inr (map Out ms, (seg, List.map_filter (written ovf marshal marshal_legacy seg) ms))"
  using producer_run [OF KafkaProducer_New_suffix [OF assms(1)], of _ _ _ "[]"] by simp

theorem kafkaproducer_topics_witness:
  "\<exists>seg :: unit KafkaProducer. run_loop (KafkaProducer_step (\<lambda>_. 0) Some (\<lambda>_. None) True) (seg, []) [zero_flow]
     = Inr (map Out [zero_flow], (seg, [(''t-0'', SyncMissingTimeStamps (\<lambda>_. 0) zero_flow)]))"
proof -
  have field: "FieldByName f ''Proto'' = Some (GUint32 (Proto f))" for f by (rule known_fields)
  have ok: "topic_suffix_ok ''Proto''"
    using field_type_value [OF field] by (simp add: topic_suffix_ok_def known_fields)
  obtain seg where seg: "KafkaProducer_New True (\<lambda>_. ((), True))
      [''server'' \<mapsto> ''h'', ''topic'' \<mapsto> ''t'', ''auth'' \<mapsto> ''false'', ''topicsuffix'' \<mapsto> ''Proto''] = Inr (Some seg)"
    "kp_Topic seg = ''t''" "TopicSuffix seg = ''Proto''" "\<not> kp_Legacy seg"
    by (simp add: KafkaProducer_New_def kafka_security_def bool_option_def parse_bool_def kafka_version_def cfg_def Let_def ok)
  have "Proto (SyncMissingTimeStamps ovf zero_flow) = 0" for ovf
    by (simp add: SyncMissingTimeStamps_eq Let_def zero_flow_def)
  moreover have "dec 0 = ''0''" by code_simp
  ultimately have "topic_of seg (SyncMissingTimeStamps (\<lambda>_. 0) zero_flow) = ''t-0''"
    using seg(2,3) field by (simp add: topic_of_def)
  then show ?thesis
    using kafkaproducer_topics [OF seg(1), of "\<lambda>_. 0" Some "\<lambda>_. None" "[zero_flow]"] seg(4)
    by (simp add: written_def producer_encode_def map_filter_simps del: run_loop.simps) blast
qed

section \<open>The consumer\<close>

text \<open>
  \<open>ConsumeClaim\<close>: the loop over the messages of a claim until the session ends. Only in the legacy
  format are messages marked as consumed. When the library closes the channel of messages, the
  loop receives a nil message and uses it.
\<close>

datatype 'b claim_event = ClaimMessage 'b | ClaimClosed

fun ConsumeClaim ::
  "(rat \<Rightarrow> u64) \<Rightarrow> ('b \<Rightarrow> EnrichedFlow option) \<Rightarrow> ('b \<Rightarrow> LegacyEnrichedFlow option) \<Rightarrow> bool \<Rightarrow> 'b claim_event list \<Rightarrow>
   (EnrichedFlow list \<times> 'b list) outcome" where
  "ConsumeClaim ovf unmarshal unmarshal_legacy legacy [] = Inr ([], [])"
| "ConsumeClaim ovf unmarshal unmarshal_legacy legacy (ClaimClosed # es) =
     Inl (Panic ''invalid memory address or nil pointer dereference'')"
| "ConsumeClaim ovf unmarshal unmarshal_legacy legacy (ClaimMessage value # es) =
     or_fail (ConsumeClaim ovf unmarshal unmarshal_legacy legacy es) (\<lambda>(flows, marked).
       if legacy
       then Inr (case unmarshal_legacy value of
                   Some flowMsg \<Rightarrow> ConvertToEnrichedFlow ovf flowMsg # flows
                 | None \<Rightarrow> flows, value # marked)
       else Inr (case unmarshal value of Some msg \<Rightarrow> msg # flows | None \<Rightarrow> flows, marked))"

text \<open>
  The goroutine that keeps a session open. Each event is the end of one \<open>Consume\<close>: without an error,
  or with one that is followed by the pause, by a shutdown or by a cancelled context; \<open>Cancelled\<close> is
  the test at the top of the loop. The counter of retries is never reset.
\<close>

datatype consume_event = SessionEnded | ConsumeError | ErrorShutdown | ErrorCancelled | Cancelled
datatype retry_result = Retrying nat | GaveUp | NotReady | SessionDone

definition maxRetries :: nat where "maxRetries = 12"

fun connectionRetryLoop :: "nat \<Rightarrow> consume_event list \<Rightarrow> retry_result" where
  "connectionRetryLoop retries [] = Retrying retries"
| "connectionRetryLoop retries (SessionEnded # es) = connectionRetryLoop retries es"
| "connectionRetryLoop retries (Cancelled # es) = SessionDone"
| "connectionRetryLoop retries (ConsumeError # es) =
     (if retries < maxRetries then connectionRetryLoop (retries + 1) es else GaveUp)"
| "connectionRetryLoop retries (ErrorShutdown # es) = (if retries < maxRetries then NotReady else GaveUp)"
| "connectionRetryLoop retries (ErrorCancelled # es) = (if retries < maxRetries then SessionDone else GaveUp)"

text \<open>
  The loop of \<open>Run\<close> after the first session is ready: what it sends, and whether it has returned. A
  channel of flows that is closed in a rebalance is passed over.
\<close>

datatype 'm run_event = HandlerFlow 'm | HandlerClosed | Input 'm | InputClosed | ShutdownSignal | HandlerReady bool

fun KafkaConsumer_loop :: "'m run_event list \<Rightarrow> 'm list \<times> bool" where
  "KafkaConsumer_loop [] = ([], False)"
| "KafkaConsumer_loop (HandlerFlow msg # es) = (let (os, e) = KafkaConsumer_loop es in (msg # os, e))"
| "KafkaConsumer_loop (HandlerClosed # es) = KafkaConsumer_loop es"
| "KafkaConsumer_loop (Input msg # es) = (let (os, e) = KafkaConsumer_loop es in (msg # os, e))"
| "KafkaConsumer_loop (InputClosed # es) = ([], True)"
| "KafkaConsumer_loop (ShutdownSignal # es) = ([], True)"
| "KafkaConsumer_loop (HandlerReady ready # es) = (if ready then KafkaConsumer_loop es else ([], True))"

text \<open>
  The consumer gives up after the thirteenth failed session of its whole lifetime: however many
  sessions succeed in between, the twelve retries are used up for good, and the next error ends the
  process.
\<close>

theorem kafka_retries_cumulative:
  assumes "set es \<subseteq> {SessionEnded, ConsumeError}"
  shows "connectionRetryLoop 0 es =
    (if count_list es ConsumeError \<le> maxRetries then Retrying (count_list es ConsumeError) else GaveUp)"
proof -
  have "r \<le> maxRetries \<Longrightarrow> set es \<subseteq> {SessionEnded, ConsumeError} \<Longrightarrow> connectionRetryLoop r es =
    (if r + count_list es ConsumeError \<le> maxRetries then Retrying (r + count_list es ConsumeError) else GaveUp)" for r
    by (induction es arbitrary: r) (auto simp: Suc_le_eq)
  from this [of 0] show ?thesis using assms by simp
qed

theorem kafka_retries_cumulative_witness:
  "connectionRetryLoop 0 (concat (replicate 13 [SessionEnded, ConsumeError])) = GaveUp"
  using kafka_retries_cumulative [of "concat (replicate 13 [SessionEnded, ConsumeError])"]
  by (simp add: maxRetries_def numeral_eq_Suc)

text \<open>
  Only the legacy format confirms messages: with the current format no message is ever marked as
  consumed, so a restarted consumer group starts again where \<open>startat\<close> says; with the legacy format
  every message is marked, also one that cannot be decoded.
\<close>

theorem kafka_marks_legacy_only:
  assumes "ConsumeClaim ovf unmarshal unmarshal_legacy legacy es = Inr (flows, marked)"
  shows "map ClaimMessage marked = (if legacy then es else [])"
  using assms
proof (induction es arbitrary: flows marked)
  case (Cons e es)
  then show ?case by (cases e) (auto simp: or_fail_Inr split: if_splits)
qed simp

theorem kafka_marks_legacy_only_witness:
  "\<exists>flows marked. ConsumeClaim (\<lambda>_. 0) (\<lambda>_. Some zero_flow) (\<lambda>_. None) False [ClaimMessage (1 :: nat)] = Inr (flows, marked)
     \<and> marked = []"
  using kafka_marks_legacy_only [of "\<lambda>_. 0" "\<lambda>_. Some zero_flow" "\<lambda>_. None" False "[ClaimMessage (1 :: nat)]"] by auto

section \<open>From a producer to a consumer\<close>

text \<open>
  What is relied on of \<open>proto\<close> and \<open>protodelim\<close>: a message that can be encoded is decoded to itself.
\<close>

definition inverse_codec :: "('m \<Rightarrow> 'b option) \<Rightarrow> ('b \<Rightarrow> 'm option) \<Rightarrow> bool" where
  "inverse_codec encode decode \<longleftrightarrow> (\<forall>m b. encode m = Some b \<longrightarrow> decode b = Some m)"







text \<open>
  A pipeline from a legacy topic to a legacy topic changes no message: what its producer writes
  for a flow that its consumer received is the message the flow came from.
\<close>

theorem kafka_legacy_passthrough:
  assumes "inverse_codec marshal_legacy unmarshal_legacy" "marshal_legacy l = Some b"
    and "ConsumeClaim ovf unmarshal unmarshal_legacy True [ClaimMessage b] = Inr ([f], marked)"
  shows "producer_encode ovf marshal marshal_legacy True f = Some b"
proof -
  have "f = ConvertToEnrichedFlow ovf l" using assms by (simp add: inverse_codec_def)
  then show ?thesis using assms(2)
    by (simp add: producer_encode_def ConvertToLegacyEnrichedFlow_def ConvertToEnrichedFlow_def SyncMissingTimeStamps_eq
        Let_def sync3_again' received_again legacy_literal_enriched_literal)
qed



theorem kafka_legacy_passthrough_witness:
  "\<exists>f. producer_encode (\<lambda>_. 0) (\<lambda>_. None) Some True f = Some (legacy_literal zero_flow)"
proof -
  obtain f where "ConsumeClaim (\<lambda>_. 0) (\<lambda>_. None) Some True [ClaimMessage (legacy_literal zero_flow)]
      = Inr ([f], [legacy_literal zero_flow])" by simp
  moreover have "inverse_codec Some Some" by (simp add: inverse_codec_def)
  ultimately have "producer_encode (\<lambda>_. 0) (\<lambda>_. None) Some True f = Some (legacy_literal zero_flow)"
    by (intro kafka_legacy_passthrough) auto
  then show ?thesis by blast
qed

section \<open>The loop of the consumer\<close>

fun ends_loop :: "'m run_event \<Rightarrow> bool" where
  "ends_loop InputClosed = True"
| "ends_loop ShutdownSignal = True"
| "ends_loop (HandlerReady r) = (\<not> r)"
| "ends_loop _ = False"

fun handler_flow :: "'m run_event \<Rightarrow> 'm option" where
  "handler_flow (HandlerFlow m) = Some m"
| "handler_flow _ = None"

fun input_flow :: "'m run_event \<Rightarrow> 'm option" where
  "input_flow (Input m) = Some m"
| "input_flow _ = None"

text \<open>
  What the consumer sends is a merge of the flows of its input and those of the handler that
  arrive before the first event that ends it, each in their order, and nothing after that event.
\<close>

theorem kafkaconsumer_merges:
  "fst (KafkaConsumer_loop es) \<in> shuffles (List.map_filter input_flow (takeWhile (\<lambda>e. \<not> ends_loop e) es))
       (List.map_filter handler_flow (takeWhile (\<lambda>e. \<not> ends_loop e) es))
   \<and> snd (KafkaConsumer_loop es) = list_ex ends_loop es"
proof (induction es)
  case (Cons e es)
  then show ?case
    by (cases e) (auto simp: List.map_filter_simps case_prod_beta Let_def Cons_in_shuffles_leftI Cons_in_shuffles_rightI)
qed (simp add: List.map_filter_simps)

end
