(* ===== verification/Printing.thy ===== *)
theory Printing
  imports Filters Enrich GoFloat
begin

unbundle bit_operations_syntax

text \<open>
  The printing segments \<open>printflowdump\<close> and \<open>toptalkers\<close> (\<open>segments/print\<close>): the line of a flow, and
  the reports on the destinations with the most traffic. \<open>humanize.SI\<close> is a parameter, and so are the
  sliding windows of package \<open>rolling\<close>.
\<close>

section \<open>printflowdump\<close>

record PrintFlowdump =
  UseProtoname :: bool
  Verbose :: bool
  Highlight :: bool
  fd_File :: out_file
  fd_text :: string

definition PrintFlowdump_New :: "(string \<Rightarrow> bool) \<Rightarrow> config_map \<Rightarrow> PrintFlowdump option" where
  "PrintFlowdump_New create config =
     map_option (\<lambda>f. \<lparr>UseProtoname = bool_option True (cfg config ''useprotoname''),
         Verbose = bool_option False (cfg config ''verbose''),
         Highlight = bool_option False (cfg config ''highlight''), fd_File = f, fd_text = []\<rparr>)
       (GetOutput create config)"

text \<open>The forwarding status: its class, and in verbose mode the explanation of the known codes.\<close>

definition verbose_status :: "(u32 \<times> string) list" where
  "verbose_status = [
     (64, ''regular''), (65, ''fragmented''), (66, ''not fragmented''),
     (128, ''unknown''), (129, ''ACL deny''), (130, ''ACL drop''), (131, ''unroutable''), (132, ''adjacency''),
     (133, ''fragmentation but DF set''), (134, ''bad header checksum''), (135, ''bad total length''),
     (136, ''bad header length''), (137, ''bad TTL''), (138, ''policer''), (139, ''WRED''), (140, ''RPF''),
     (141, ''for us''), (142, ''bad output interface''), (143, ''hardware''),
     (192, ''unknown''), (193, ''terminate punt adjacency''), (194, ''terminate incomplete adjacency''),
     (195, ''terminate for us'')]"

definition explained :: "string \<Rightarrow> u32 \<Rightarrow> string" where
  "explained name status =
     (case map_of verbose_status status of
        Some why \<Rightarrow> name @ ''/'' @ dec (unat status) @ '' ('' @ why @ '')''
      | None \<Rightarrow> [])"

definition status_string :: "bool \<Rightarrow> u32 \<Rightarrow> string" where
  "status_string verbose status =
     (let class = status AND 0xC0 in
      if class = 0 then ''UNKNOWN/'' @ dec (unat status)
      else if class = 0x40
      then (if verbose then explained ''FORWARD'' status
            else if status \<noteq> 64 then ''FORWARD/'' @ dec (unat status) else [])
      else if class = 0x80
      then (if verbose then explained ''DROP'' status else ''DROP/'' @ dec (unat status))
      else (if verbose then explained ''CONSUMED'' status else ''CONSUMED/'' @ dec (unat status)))"

definition host_prefix :: "bool \<Rightarrow> string \<Rightarrow> byte_slice \<Rightarrow> string" where
  "host_prefix verbose name addr = (if verbose \<and> name \<noteq> [] then name @ ip_str addr else ip_str addr)"

definition as_prefix :: "bool \<Rightarrow> u32 \<Rightarrow> string" where
  "as_prefix verbose as = (if verbose \<and> as \<noteq> 0 then ''AS'' @ dec (unat as) @ ''/'' else [])"

text \<open>The name of the protocol, from the flow or from the table, with type and code for ICMP.\<close>

definition flow_proto :: "iana_tables \<Rightarrow> bool \<Rightarrow> EnrichedFlow \<Rightarrow> string outcome" where
  "flow_proto t useProtoname f =
     (if useProtoname
      then or_fail (if ProtoName f \<noteq> [] then Inr (ProtoName f) else IanaProtocolNumberToName t (Proto f)) (\<lambda>proto.
             Inr (if proto = ''ICMP'' \<and> DstPort f \<noteq> 0
                  then ''ICMP (type '' @ dec (unat (DstPort f div 256)) @ '', code '' @ dec (unat (DstPort f mod 256)) @ '')''
                  else proto))
      else Inr (dec (unat (Proto f))))"

text \<open>Division of unsigned integers; the run-time panics for a divisor of zero.\<close>

definition go_div :: "u64 \<Rightarrow> u64 \<Rightarrow> u64 outcome" where
  "go_div a b = (if b = 0 then Inl (Panic ''integer divide by zero'') else Inr (a div b))"

definition arrow :: string where
  "arrow = '' '' @ [CHR 0xE2, CHR 0x86, CHR 0x92] @ '' ''"

definition flow_color :: "bool \<Rightarrow> string" where
  "flow_color highlight = (if highlight then CHR 0x1B # ''[31m'' else CHR 0x1B # ''[0m'')"

text \<open>
  \<open>clock\<close> shows a time in seconds as hour, minute and second in the local time zone. The bits per
  second are computed in 64 bits, where the multiplication by eight can wrap.
\<close>

definition format_flow ::
  "(u64 \<Rightarrow> string) \<Rightarrow> (rat \<Rightarrow> string \<Rightarrow> string) \<Rightarrow> iana_tables \<Rightarrow> PrintFlowdump \<Rightarrow> EnrichedFlow \<Rightarrow> string outcome" where
  "format_flow clock SI t seg f =
     or_fail (flow_proto t (UseProtoname seg) f) (\<lambda>proto.
     let d = TimeFlowEnd f - TimeFlowStart f;
         d = (if d = 0 then d + 1 else d);
         srcIf = (if SrcIfDesc f \<noteq> [] then SrcIfDesc f else dec (unat (InIf f)));
         dstIf = (if DstIfDesc f \<noteq> [] then DstIfDesc f else dec (unat (OutIf f)));
         note = (if Note f \<noteq> [] then '' - '' @ Note f else [])
     in or_fail (go_div (Bytes f * 8) d) (\<lambda>bps.
        or_fail (go_div (Packets f) d) (\<lambda>pps.
          Inr (flow_color (Highlight seg) @ clock (TimeFlowEnd f) @ '': ''
            @ as_prefix (Verbose seg) (SrcAs f) @ host_prefix (Verbose seg) (SrcHostName f) (SrcAddr f)
            @ '':'' @ dec (unat (SrcPort f)) @ arrow
            @ as_prefix (Verbose seg) (DstAs f) @ host_prefix (Verbose seg) (DstHostName f) (DstAddr f)
            @ '':'' @ dec (unat (DstPort f)) @ '' ['' @ srcIf @ arrow
            @ status_string (Verbose seg) (ForwardingStatus f) @ ''@'' @ ip_str (SamplerAddress f) @ arrow @ dstIf
            @ ''], '' @ proto @ '', '' @ dec (unat d) @ ''s, ''
            @ SI (u64_to_f64 bps) ''bps'' @ '', '' @ SI (u64_to_f64 pps) ''pps'' @ note @ '' '' @ [CHR 0x0A]))))"

definition PrintFlowdump_step ::
  "(u64 \<Rightarrow> string) \<Rightarrow> (rat \<Rightarrow> string \<Rightarrow> string) \<Rightarrow> iana_tables \<Rightarrow> (PrintFlowdump, EnrichedFlow) step" where
  "PrintFlowdump_step clock SI t seg m =
     or_fail (format_flow clock SI t seg m) (\<lambda>line. Inr ([Out m], seg\<lparr>fd_text := fd_text seg @ line\<rparr>))"

lemma format_flow_total:
  assumes "flow_proto t (UseProtoname seg) f = Inr p"
  shows "\<exists>line. format_flow clock SI t seg f = Inr line"
  using assms by (simp add: format_flow_def go_div_def Let_def)

definition proto_ok :: "PrintFlowdump \<Rightarrow> EnrichedFlow \<Rightarrow> bool" where
  "proto_ok seg m \<longleftrightarrow> \<not> (UseProtoname seg \<and> ProtoName m = [] \<and> Proto m = 256)"

lemma flow_proto_total:
  assumes "length (fst t) = 256"
  shows "(\<exists>p. flow_proto t (UseProtoname seg) m = Inr p) \<longleftrightarrow> proto_ok seg m"
proof -
  have "Proto m = 256 \<longleftrightarrow> unat (Proto m) = 256" by (simp add: word_unat_eq_iff)
  then show ?thesis using assms
    by (auto simp: flow_proto_def proto_ok_def IanaProtocolNumberToName_def array_at_def)
qed

interpretation flowdump: modify_segment "PrintFlowdump_step clock SI t" proto_ok "\<lambda>_. length (fst t) = 256" for clock SI t
proof
  fix s m
  assume "length (fst t) = 256" "proto_ok s m"
  then obtain p where "flow_proto t (UseProtoname s) m = Inr p" using flow_proto_total by blast
  then obtain line where "format_flow clock SI t s m = Inr line" using format_flow_total by blast
  then show "\<exists>m' s'. PrintFlowdump_step clock SI t s m = Inr ([Out m'], s')" by (simp add: PrintFlowdump_step_def)
next
  fix s m es s'
  assume "length (fst t) = 256" "PrintFlowdump_step clock SI t s m = Inr (es, s')"
  then show "length (fst t) = 256 \<and> proto_ok s' = proto_ok s"
    by (auto simp: PrintFlowdump_step_def or_fail_Inr proto_ok_def fun_eq_iff)
qed

text \<open>
  \<open>printflowdump\<close> prints and forwards every flow, and divides by zero never, unless it has to look
  up the name of protocol number 256: then, and only then, it panics.
\<close>

theorem printflowdump_total:
  assumes "iana_init rows iana_empty = Inr t"
  shows "(\<exists>es s'. run_loop (PrintFlowdump_step clock SI t) seg ms = Inr (es, s') \<and> length (outs es) = length ms)
    \<longleftrightarrow> (\<forall>m\<in>set ms. proto_ok seg m)"
proof
  have len: "length (fst t) = 256" using iana_init_length [OF assms] by (simp add: iana_empty_def)
  show "\<forall>m\<in>set ms. proto_ok seg m \<Longrightarrow>
      \<exists>es s'. run_loop (PrintFlowdump_step clock SI t) seg ms = Inr (es, s') \<and> length (outs es) = length ms"
    using flowdump.run_one_each [OF len] by blast
  show "\<exists>es s'. run_loop (PrintFlowdump_step clock SI t) seg ms = Inr (es, s') \<and> length (outs es) = length ms \<Longrightarrow>
      \<forall>m\<in>set ms. proto_ok seg m"
  proof (induction ms arbitrary: seg)
    case (Cons m ms)
    then obtain e1 s1 where 1: "PrintFlowdump_step clock SI t seg m = Inr (e1, s1)"
      by (auto split: sum.splits prod.splits)
    then have e1: "e1 = [Out m]" "proto_ok s1 = proto_ok seg"
      using flowdump.step_keeps [OF len 1] by (auto simp: PrintFlowdump_step_def or_fail_Inr)
    from 1 have "proto_ok seg m"
      using flow_proto_total [OF len] by (auto simp: PrintFlowdump_step_def format_flow_def or_fail_Inr)
    moreover obtain e2 s2 where "run_loop (PrintFlowdump_step clock SI t) s1 ms = Inr (e2, s2)" "length (outs e2) = length ms"
      using Cons.prems 1 e1(1) by (auto split: sum.splits prod.splits)
    ultimately show ?case using Cons.IH [of s1] e1(2) by auto
  qed simp
qed

theorem printflowdump_total_witness:
  "\<not> (\<exists>es s'. run_loop (PrintFlowdump_step (\<lambda>_. []) (\<lambda>_ _. []) iana_empty)
       \<lparr>UseProtoname = True, Verbose = False, Highlight = False, fd_File = Stdout, fd_text = []\<rparr> [zero_flow\<lparr>Proto := 256\<rparr>]
       = Inr (es, s') \<and> length (outs es) = length [zero_flow\<lparr>Proto := 256\<rparr>])"
proof -
  have "\<not> proto_ok \<lparr>UseProtoname = True, Verbose = False, Highlight = False, fd_File = Stdout, fd_text = []\<rparr>
      (zero_flow\<lparr>Proto := 256\<rparr>)" by (simp add: proto_ok_def zero_flow_def)
  then show ?thesis
    using printflowdump_total [of "[]" iana_empty "\<lambda>_. []" "\<lambda>_ _. []"
        "\<lparr>UseProtoname = True, Verbose = False, Highlight = False, fd_File = Stdout, fd_text = []\<rparr>" "[zero_flow\<lparr>Proto := 256\<rparr>]"]
    by (simp del: run_loop.simps)
qed

lemma verbose_status_known: "map_of verbose_status s \<noteq> None \<longleftrightarrow> s \<noteq> 0 \<and> map_of ForwardingStatusMap s \<noteq> None"
proof -
  have "fst ` set ForwardingStatusMap = Set.insert 0 (fst ` set verbose_status)"
    by (simp add: ForwardingStatusMap_def verbose_status_def)
  moreover have "0 \<notin> fst ` set verbose_status" by (simp add: verbose_status_def)
  ultimately show ?thesis unfolding map_of_eq_None_iff by auto
qed

text \<open>
  The verbose explanations agree with the table of the flow message: a status of a known class is
  printed exactly when \<open>ForwardingStatusString\<close> has a name for it, and left out otherwise.
\<close>

theorem printflowdump_status_known:
  "status AND 0xC0 \<noteq> 0 \<Longrightarrow> status_string True status \<noteq> [] \<longleftrightarrow> map_of ForwardingStatusMap status \<noteq> None"
proof -
  assume a: "status AND 0xC0 \<noteq> 0"
  then have "status \<noteq> 0" by auto
  then have "map_of verbose_status status \<noteq> None \<longleftrightarrow> map_of ForwardingStatusMap status \<noteq> None"
    using verbose_status_known by simp
  moreover have "status_string True status \<noteq> [] \<longleftrightarrow> map_of verbose_status status \<noteq> None"
    using a by (auto simp: status_string_def explained_def Let_def split: option.splits)
  ultimately show ?thesis by simp
qed

theorem printflowdump_status_known_witness:
  "status_string True 130 \<noteq> [] \<and> status_string True 150 = []"
  using printflowdump_status_known [of 130] printflowdump_status_known [of 150] by (simp add: ForwardingStatusMap_def)

end
