(* ===== verification/PrintTalkers.thy ===== *)
theory PrintTalkers
  imports Printing
begin

text \<open>
  The segment \<open>toptalkers\<close> (\<open>segments/print/toptalkers\<close>): flows are added to sliding windows of their
  destination, and a ticker prints the destinations with the most traffic. The windows of package
  \<open>rolling\<close> are a parameter: \<open>new\<close> for \<open>NewTimePolicy\<close>, \<open>add t x w\<close> for \<open>Append\<close> at time \<open>t\<close>, and
  \<open>sum_of w\<close> for \<open>Reduce(rolling.Sum)\<close> at the time of the report, which is taken to lie within one
  bucket of a second.
\<close>

section \<open>Configuration\<close>

record TopTalkers =
  pt_Window :: int
  ReportInterval :: int
  LogPrefix :: string
  ThresholdBps :: u64
  ThresholdPps :: u64
  TopN :: u64
  pt_File :: out_file

definition threshold_option :: "string \<Rightarrow> u64" where
  "threshold_option v = (case parse_uint 32 v of Some n \<Rightarrow> of_nat n | None \<Rightarrow> 0)"

definition topn_option :: "string \<Rightarrow> u64 option" where
  "topn_option v = (case parse_uint 64 v of Some n \<Rightarrow> if n = 0 then None else Some (of_nat n) | None \<Rightarrow> Some 10)"

definition TopTalkers_New :: "(string \<Rightarrow> bool) \<Rightarrow> config_map \<Rightarrow> TopTalkers option" where
  "TopTalkers_New create config =
     (case parse_from 1 (cfg config ''window'') 60 of None \<Rightarrow> None | Some window \<Rightarrow>
     (case parse_from 1 (cfg config ''reportinterval'') 10 of None \<Rightarrow> None | Some interval \<Rightarrow>
     (case GetOutput create config of None \<Rightarrow> None | Some f \<Rightarrow>
     (case topn_option (cfg config ''topn'') of None \<Rightarrow> None | Some n \<Rightarrow>
        Some \<lparr>pt_Window = window, ReportInterval = interval, LogPrefix = cfg config ''logprefix'',
              ThresholdBps = threshold_option (cfg config ''thresholdbps''),
              ThresholdPps = threshold_option (cfg config ''thresholdpps''), TopN = n, pt_File = f\<rparr>))))"

text \<open>
  The start of \<open>Run\<close>: the interval of the ticker is a 64-bit number of nanoseconds, and \<open>NewTicker\<close>
  panics when it is not positive.
\<close>

definition ticker_interval :: "int \<Rightarrow> 64 word" where
  "ticker_interval s = word_of_int s * 1000000000"

definition NewTicker :: "64 word \<Rightarrow> unit outcome" where
  "NewTicker d = (if sint d \<le> 0 then Inl (Panic ''non-positive interval for NewTicker'') else Inr ())"

section \<open>The report\<close>

record 'w talker =
  tk_DstIp :: string
  tk_Bytes :: 'w
  tk_Packets :: 'w

text \<open>
  The comparison of \<open>sort.Slice\<close> also deletes the entries it sees without traffic. With at least two
  entries it sees every entry, with a single one it is not called.
\<close>

definition delete_idle :: "('w \<Rightarrow> rat) \<Rightarrow> 'w talker list \<Rightarrow> (string \<rightharpoonup> 'w talker) \<Rightarrow> (string \<rightharpoonup> 'w talker)" where
  "delete_idle sum_of entries db =
     (if length entries < 2 then db
      else db |` (- {tk_DstIp r | r. r \<in> set entries \<and> sum_of (tk_Bytes r) = 0}))"

definition average :: "TopTalkers \<Rightarrow> rat \<Rightarrow> rat" where
  "average c x = f64_div (f64_mul x 8) (f64 (of_int (pt_Window c)))"

definition below_threshold :: "TopTalkers \<Rightarrow> ('w \<Rightarrow> rat) \<Rightarrow> 'w talker \<Rightarrow> bool" where
  "below_threshold c sum_of r \<longleftrightarrow>
     average c (sum_of (tk_Bytes r)) < u64_to_f64 (ThresholdBps c) \<or> average c (sum_of (tk_Packets r)) < u64_to_f64 (ThresholdPps c)"

definition talker_line :: "(rat \<Rightarrow> string \<Rightarrow> string) \<Rightarrow> TopTalkers \<Rightarrow> ('w \<Rightarrow> rat) \<Rightarrow> 'w talker \<Rightarrow> string" where
  "talker_line SI c sum_of r =
     LogPrefix c @ tk_DstIp r @ '': '' @ SI (average c (sum_of (tk_Bytes r))) ''bps'' @ '', ''
       @ SI (average c (sum_of (tk_Packets r))) ''pps'' @ [CHR 0x0A]"

definition heading :: "TopTalkers \<Rightarrow> string" where
  "heading c = LogPrefix c @ replicate 67 (CHR ''='') @ [CHR 0x0A]"

text \<open>The printing loop, with \<open>printedRecords\<close> as its argument.\<close>

fun print_loop :: "TopTalkers \<Rightarrow> ('w \<Rightarrow> rat) \<Rightarrow> u64 \<Rightarrow> 'w talker list \<Rightarrow> 'w talker list" where
  "print_loop c sum_of n [] = []"
| "print_loop c sum_of n (r # rs) =
     (if below_threshold c sum_of r then []
      else r # (if n + 1 \<ge> TopN c then [] else print_loop c sum_of (n + 1) rs))"

definition report :: "(rat \<Rightarrow> string \<Rightarrow> string) \<Rightarrow> TopTalkers \<Rightarrow> ('w \<Rightarrow> rat) \<Rightarrow> 'w talker list \<Rightarrow> string" where
  "report SI c sum_of entries = heading c @ concat (map (talker_line SI c sum_of) (print_loop c sum_of 0 entries))"

section \<open>The loop\<close>

record ('w, 'm) talkers =
  pt_database :: "string \<rightharpoonup> 'w talker"
  pt_text :: string
  pt_out :: "'m list"

definition add_flow :: "'w \<Rightarrow> ('t \<Rightarrow> rat \<Rightarrow> 'w \<Rightarrow> 'w) \<Rightarrow> 't \<Rightarrow> EnrichedFlow \<Rightarrow> (string \<rightharpoonup> 'w talker) \<Rightarrow> (string \<rightharpoonup> 'w talker)" where
  "add_flow new add t m db =
     (let key = ip_str (DstAddrObj m);
          record = (case db key of Some r \<Rightarrow> r | None \<Rightarrow> \<lparr>tk_DstIp = key, tk_Bytes = new, tk_Packets = new\<rparr>)
      in db(key \<mapsto> record\<lparr>tk_Bytes := add t (u64_to_f64 (Bytes m)) (tk_Bytes record),
                         tk_Packets := add t (u64_to_f64 (Packets m)) (tk_Packets record)\<rparr>))"

text \<open>
  The entries of a report come from an iteration over the map, in any order, and are sorted by their
  bytes, with equal ones in any order.
\<close>

definition sorted_entries :: "('w \<Rightarrow> rat) \<Rightarrow> (string \<rightharpoonup> 'w talker) \<Rightarrow> 'w talker list \<Rightarrow> bool" where
  "sorted_entries sum_of db entries \<longleftrightarrow>
     set entries = ran db \<and> distinct entries \<and> sorted_wrt (\<lambda>a b. sum_of (tk_Bytes a) \<ge> sum_of (tk_Bytes b)) entries"

text \<open>One round of the select loop: a flow at a time, or the ticker with what the windows hold then.\<close>

datatype ('t, 'w) pt_event = TFlow 't EnrichedFlow | TReport "'w \<Rightarrow> rat"

inductive pt_step ::
  "(rat \<Rightarrow> string \<Rightarrow> string) \<Rightarrow> 'w \<Rightarrow> ('t \<Rightarrow> rat \<Rightarrow> 'w \<Rightarrow> 'w) \<Rightarrow> TopTalkers \<Rightarrow>
   ('t, 'w) pt_event \<Rightarrow> ('w, EnrichedFlow) talkers \<Rightarrow> ('w, EnrichedFlow) talkers \<Rightarrow> bool"
  for SI new add c where
  pt_flow: "pt_step SI new add c (TFlow t m) s
     (s\<lparr>pt_database := add_flow new add t m (pt_database s), pt_out := pt_out s @ [m]\<rparr>)"
| pt_report: "sorted_entries sum_of (pt_database s) entries \<Longrightarrow>
   pt_step SI new add c (TReport sum_of) s
     (s\<lparr>pt_database := delete_idle sum_of entries (pt_database s), pt_text := pt_text s @ report SI c sum_of entries\<rparr>)"

inductive pt_run ::
  "(rat \<Rightarrow> string \<Rightarrow> string) \<Rightarrow> 'w \<Rightarrow> ('t \<Rightarrow> rat \<Rightarrow> 'w \<Rightarrow> 'w) \<Rightarrow> TopTalkers \<Rightarrow>
   ('t, 'w) pt_event list \<Rightarrow> ('w, EnrichedFlow) talkers \<Rightarrow> ('w, EnrichedFlow) talkers \<Rightarrow> bool"
  for SI new add c where
  pt_done: "pt_run SI new add c [] s s"
| pt_next: "pt_run SI new add c es s s' \<Longrightarrow> pt_step SI new add c e s' s'' \<Longrightarrow> pt_run SI new add c (es @ [e]) s s''"

definition pt_start :: "('w, EnrichedFlow) talkers" where
  "pt_start = \<lparr>pt_database = Map.empty, pt_text = [], pt_out = []\<rparr>"

inductive_cases pt_step_flowE: "pt_step SI new add c (TFlow t m) s s'"
inductive_cases pt_step_reportE: "pt_step SI new add c (TReport sum_of) s s'"


section \<open>What a report shows\<close>

lemma print_loop_eq:
  "n < TopN c \<Longrightarrow> print_loop c sum_of n rs = take (unat (TopN c - n)) (takeWhile (\<lambda>r. \<not> below_threshold c sum_of r) rs)"
proof (induction rs arbitrary: n)
  case (Cons r rs)
  have gap: "unat (TopN c - n) = Suc (unat (TopN c - (n + 1)))"
    using Cons.prems by (simp add: unat_sub word_less_nat_alt word_le_nat_alt) unat_arith
  have "\<not> n + 1 \<ge> TopN c \<longleftrightarrow> n + 1 < TopN c" by auto
  moreover have "unat (TopN c - (n + 1)) = 0" if "n + 1 \<ge> TopN c"
    using that Cons.prems by unat_arith
  ultimately show ?case using Cons.IH [of "n + 1"] by (auto simp: gap)
qed simp

lemma topn_option_pos: "topn_option v = Some n \<Longrightarrow> 0 < n"
proof -
  have "(of_nat k :: u64) \<noteq> 0" if "parse_uint 64 v = Some k" "0 < k" for k
  proof -
    have "k < 2 ^ 64" using that(1) by (rule parse_uint_bound)
    then have "unat (of_nat k :: u64) = k" by (simp add: unat_of_nat)
    then show ?thesis using that(2) by auto
  qed
  then show "topn_option v = Some n \<Longrightarrow> 0 < n" by (auto simp: topn_option_def word_gt_0 split: option.splits if_splits)
qed

lemma New_topn: "TopTalkers_New create config = Some c \<Longrightarrow> 0 < TopN c"
  by (auto simp: TopTalkers_New_def topn_option_pos split: option.splits)

lemma sorted_take_above:
  assumes "sorted_wrt (\<lambda>a b. g a \<ge> g b) xs" "r \<in> set (take n (takeWhile P xs))"
    "q \<in> set xs - set (take n (takeWhile P xs))"
  shows "(g q :: rat) \<le> g r"
proof -
  let ?k = "min n (length (takeWhile P xs))"
  have t: "take n (takeWhile P xs) = take ?k xs" by (metis min.commute take_take takeWhile_eq_take)
  have "xs = take ?k xs @ drop ?k xs" by simp
  moreover have "r \<in> set (take ?k xs)" using assms(2) t by simp
  moreover have "q \<in> set (drop ?k xs)"
    using assms(3) t by (metis Diff_iff Un_iff append_take_drop_id set_append)
  ultimately show ?thesis using assms(1) by (metis sorted_wrt_append)
qed

lemma takeWhile_stops:
  assumes "sorted_wrt (\<lambda>a b. g a \<ge> g b) xs" "takeWhile P xs \<noteq> xs"
  shows "\<exists>q\<in>set xs. \<not> P q \<and> (\<forall>p\<in>set xs - set (takeWhile P xs). (g p :: rat) \<le> g q)"
proof -
  obtain q ys where q: "dropWhile P xs = q # ys"
    using assms(2) by (metis append.right_neutral list.exhaust takeWhile_dropWhile_id)
  then have "\<not> P q" by (metis hd_dropWhile list.discI list.sel(1))
  moreover have xs: "xs = takeWhile P xs @ q # ys" using q by (metis takeWhile_dropWhile_id)
  moreover have "\<forall>p\<in>set ys. g p \<le> g q" using assms(1) xs by (metis sorted_wrt.simps(2) sorted_wrt_append)
  moreover have "set xs - set (takeWhile P xs) \<subseteq> Set.insert q (set ys)" using xs by (metis Diff_subset_conv list.simps(15) set_append subset_refl)
  moreover have "q \<in> set xs" using xs by (metis in_set_conv_decomp)
  ultimately show ?thesis by (metis insertE order_refl subsetD)
qed


section \<open>The database as histories\<close>

text \<open>
  The specification: for every destination the flows that count for it, with their times. A report
  forgets the destinations without traffic in their window, unless there is only one.
\<close>

type_synonym 't history = "string \<Rightarrow> ('t \<times> EnrichedFlow) list"

definition history_talker :: "'w \<Rightarrow> ('t \<Rightarrow> rat \<Rightarrow> 'w \<Rightarrow> 'w) \<Rightarrow> string \<Rightarrow> ('t \<times> EnrichedFlow) list \<Rightarrow> 'w talker" where
  "history_talker new add k tms =
     \<lparr>tk_DstIp = k, tk_Bytes = fold (\<lambda>(t, m). add t (u64_to_f64 (Bytes m))) tms new,
      tk_Packets = fold (\<lambda>(t, m). add t (u64_to_f64 (Packets m))) tms new\<rparr>"

definition history_database :: "'w \<Rightarrow> ('t \<Rightarrow> rat \<Rightarrow> 'w \<Rightarrow> 'w) \<Rightarrow> 't history \<Rightarrow> (string \<rightharpoonup> 'w talker)" where
  "history_database new add h = (\<lambda>k. if h k = [] then None else Some (history_talker new add k (h k)))"

fun history_step :: "'w \<Rightarrow> ('t \<Rightarrow> rat \<Rightarrow> 'w \<Rightarrow> 'w) \<Rightarrow> ('t, 'w) pt_event \<Rightarrow> 't history \<Rightarrow> 't history" where
  "history_step new add (TFlow t m) h = h(ip_str (DstAddr m) := h (ip_str (DstAddr m)) @ [(t, m)])"
| "history_step new add (TReport sum_of) h =
     (if card {k. h k \<noteq> []} < 2 then h
      else (\<lambda>k. if sum_of (tk_Bytes (history_talker new add k (h k))) = 0 then [] else h k))"

definition event_flow :: "('t, 'w) pt_event \<Rightarrow> EnrichedFlow option" where
  "event_flow e = (case e of TFlow t m \<Rightarrow> Some m | TReport _ \<Rightarrow> None)"

lemma history_talker_DstIp [simp]: "tk_DstIp (history_talker new add k tms) = k"
  by (simp add: history_talker_def)

lemma add_flow_history:
  "add_flow new add t m (history_database new add h) = history_database new add (history_step new add (TFlow t m) h)"
  by (auto simp: add_flow_def history_database_def history_talker_def DstAddrObj_def Let_def fun_eq_iff)

lemma entries_of_history:
  assumes "sorted_entries sum_of (history_database new add h) entries"
  shows "set entries = (\<lambda>k. history_talker new add k (h k)) ` {k. h k \<noteq> []}" "length entries = card {k. h k \<noteq> []}"
proof -
  show e: "set entries = (\<lambda>k. history_talker new add k (h k)) ` {k. h k \<noteq> []}"
    using assms by (auto simp: sorted_entries_def ran_def history_database_def)
  have "inj_on (\<lambda>k. history_talker new add k (h k)) {k. h k \<noteq> []}"
    by (rule inj_onI) (metis history_talker_DstIp)
  then show "length entries = card {k. h k \<noteq> []}"
    using assms e by (metis sorted_entries_def card_image distinct_card)
qed

lemma delete_idle_history:
  assumes "sorted_entries sum_of (history_database new add h) entries"
  shows "delete_idle sum_of entries (history_database new add h) = history_database new add (history_step new add (TReport sum_of) h)"
proof -
  have "{tk_DstIp r | r. r \<in> set entries \<and> sum_of (tk_Bytes r) = 0}
      = {k. h k \<noteq> [] \<and> sum_of (tk_Bytes (history_talker new add k (h k))) = 0}"
    unfolding entries_of_history(1) [OF assms] by force
  then show ?thesis
    by (auto simp: delete_idle_def entries_of_history(2) [OF assms] history_database_def restrict_map_def fun_eq_iff)
qed

lemma pt_run_history:
  assumes "pt_run SI new add c es pt_start s"
  shows "pt_database s = history_database new add (fold (history_step new add) es (\<lambda>_. []))
    \<and> pt_out s = List.map_filter event_flow es"
  using assms
proof (induction es "pt_start :: ('a, EnrichedFlow) talkers" s rule: pt_run.induct)
  case pt_done
  then show ?case by (simp add: pt_start_def history_database_def map_filter_simps)
next
  case (pt_next es s' e s'')
  from pt_next(3) show ?case
  proof cases
    case (pt_flow t m)
    then show ?thesis using pt_next(2) by (simp add: add_flow_history map_filter_def event_flow_def)
  next
    case (pt_report sum_of entries)
    then show ?thesis using pt_next(2) by (simp add: delete_idle_history map_filter_def event_flow_def)
  qed
qed

section \<open>Theorems\<close>

text \<open>
  C15. For every sequence of flows and reports, and whatever order the map iterates in, \<open>toptalkers\<close>
  forwards the flows in their order, and its database holds for each destination the windows over
  exactly the flows to it that came since a report removed it. A report removes the destinations it finds without
  traffic, if the database has at least two destinations; a single one is kept.
\<close>

theorem printtalkers_refines_history:
  "pt_run SI new add c es pt_start s \<Longrightarrow>
     pt_database s = history_database new add (fold (history_step new add) es (\<lambda>_. []))
   \<and> pt_out s = List.map_filter event_flow es"
  by (rule pt_run_history)

text \<open>
  C22. A report prints at most \<open>TopN\<close> different destinations, by descending traffic, and none with less traffic than
  a destination that is not printed. For each of them eight times the bytes per second reach \<open>ThresholdBps\<close>, and eight
  times the packets per second reach \<open>ThresholdPps\<close> (the code multiplies both by 8). Where it prints
  fewer than it may, either it has printed all, or some destination is below one of the two and has at least
  the traffic of all that are left out.
\<close>

theorem printtalkers_report:
  assumes "TopTalkers_New create config = Some c" "pt_run SI new add c es pt_start s" "pt_step SI new add c (TReport sum_of) s s'"
  shows "\<exists>printed. pt_text s' = pt_text s @ heading c @ concat (map (talker_line SI c sum_of) printed)
    \<and> set printed \<subseteq> ran (pt_database s) \<and> distinct (map tk_DstIp printed) \<and> length printed \<le> unat (TopN c)
    \<and> sorted_wrt (\<lambda>a b. sum_of (tk_Bytes a) \<ge> sum_of (tk_Bytes b)) printed
    \<and> (\<forall>r\<in>set printed. u64_to_f64 (ThresholdBps c) \<le> f64_div (f64_mul (sum_of (tk_Bytes r)) 8) (f64 (of_int (pt_Window c)))
        \<and> u64_to_f64 (ThresholdPps c) \<le> f64_div (f64_mul (sum_of (tk_Packets r)) 8) (f64 (of_int (pt_Window c)))
        \<and> (\<forall>q\<in>ran (pt_database s) - set printed. sum_of (tk_Bytes q) \<le> sum_of (tk_Bytes r)))
    \<and> (length printed < unat (TopN c) \<longrightarrow> set printed = ran (pt_database s) \<or>
        (\<exists>q\<in>ran (pt_database s). below_threshold c sum_of q \<and> (\<forall>p\<in>ran (pt_database s) - set printed. sum_of (tk_Bytes p) \<le> sum_of (tk_Bytes q))))"
proof -
  from assms(3) obtain entries where e: "sorted_entries sum_of (pt_database s) entries"
    and s': "s' = s\<lparr>pt_database := delete_idle sum_of entries (pt_database s), pt_text := pt_text s @ report SI c sum_of entries\<rparr>"
    by (rule pt_step_reportE) auto
  let ?above = "takeWhile (\<lambda>r. \<not> below_threshold c sum_of r) entries"
  let ?p = "take (unat (TopN c)) ?above"
  have p: "print_loop c sum_of 0 entries = ?p" using print_loop_eq [OF New_topn [OF assms(1)]] by simp
  have sorted: "sorted_wrt (\<lambda>a b. sum_of (tk_Bytes a) \<ge> sum_of (tk_Bytes b)) entries" "distinct entries"
    and set: "set entries = ran (pt_database s)" using e by (simp_all add: sorted_entries_def)
  have sub: "set ?p \<subseteq> set ?above" "set ?above \<subseteq> ran (pt_database s)"
    using set by (auto dest: in_set_takeD set_takeWhileD)
  have not_below: "u64_to_f64 (ThresholdBps c) \<le> f64_div (f64_mul (sum_of (tk_Bytes r)) 8) (f64 (of_int (pt_Window c)))
      \<and> u64_to_f64 (ThresholdPps c) \<le> f64_div (f64_mul (sum_of (tk_Packets r)) 8) (f64 (of_int (pt_Window c)))"
    if "\<not> below_threshold c sum_of r" for r
    using that by (simp add: below_threshold_def average_def not_less)
  have "inj_on tk_DstIp (ran (pt_database s))"
    using pt_run_history [OF assms(2)] by (auto simp: inj_on_def ran_def history_database_def split: if_splits)
  then have "distinct (map tk_DstIp ?p)"
    using sub sorted(2) by (metis distinct_map distinct_take distinct_takeWhile inj_on_subset order_trans)
  moreover have "sorted_wrt (\<lambda>a b. sum_of (tk_Bytes a) \<ge> sum_of (tk_Bytes b)) ?p"
    using sorted_wrt_take [OF sorted(1)] by (metis sorted_wrt_take takeWhile_eq_take)
  moreover have "\<forall>r\<in>set ?p. u64_to_f64 (ThresholdBps c) \<le> f64_div (f64_mul (sum_of (tk_Bytes r)) 8) (f64 (of_int (pt_Window c)))
      \<and> u64_to_f64 (ThresholdPps c) \<le> f64_div (f64_mul (sum_of (tk_Packets r)) 8) (f64 (of_int (pt_Window c)))
      \<and> (\<forall>q\<in>ran (pt_database s) - set ?p. sum_of (tk_Bytes q) \<le> sum_of (tk_Bytes r))"
    using sub(1) sorted_take_above [OF sorted(1)] set not_below by (blast dest: set_takeWhileD)
  moreover have "?p = ?above" if "length ?p < unat (TopN c)" using that by simp
  moreover have "set ?above = ran (pt_database s) \<or> (\<exists>q\<in>ran (pt_database s). below_threshold c sum_of q
      \<and> (\<forall>p\<in>ran (pt_database s) - set ?above. sum_of (tk_Bytes p) \<le> sum_of (tk_Bytes q)))"
  proof (cases "?above = entries")
    case True
    then show ?thesis using set by (intro disjI1) (rule arg_cong [of _ _ set, THEN trans])
  next
    case False
    then show ?thesis using takeWhile_stops [OF sorted(1) False] unfolding set by blast
  qed
  moreover have "pt_text s' = pt_text s @ heading c @ concat (map (talker_line SI c sum_of) ?p)"
    using s' p by (simp add: report_def)
  moreover have "set ?p \<subseteq> ran (pt_database s)" "length ?p \<le> unat (TopN c)" using sub by auto
  ultimately show ?thesis by metis
qed

text \<open>
  The packets per second of a report are eight times too high: what is shown, and compared with the
  threshold, is exactly eight times the rounded average of the packets in the window.
\<close>

theorem printtalkers_pps_eightfold:
  assumes "8 * n < 2 ^ 53" "0 \<le> pt_Window c" "pt_Window c < 2 ^ 53"
  shows "average c (of_nat n) = 8 * f64_div (of_nat n) (of_int (pt_Window c))"
proof -
  have "f64 (of_int (pt_Window c)) = of_int (pt_Window c)"
    using f64_exact_nat [of "nat (pt_Window c)"] assms(2,3) by simp
  moreover have "f64_mul (of_nat n) 8 = 8 * of_nat n"
    using f64_exact_nat [of "8 * n"] assms(1) by (simp add: f64_mul_def mult.commute)
  ultimately show ?thesis using f64_times8 [of "of_nat n / of_int (pt_Window c)"] by (simp add: average_def f64_div_def)
qed


lemma NewTicker_interval:
  assumes "1 \<le> i" "i \<le> 18446744073"
  shows "NewTicker (ticker_interval i) = Inr () \<longleftrightarrow> i \<le> 9223372036"
proof -
  have t: "ticker_interval i = word_of_int (i * 1000000000)" by (simp add: ticker_interval_def)
  have wrap: "(i * 1000000000 + 9223372036854775808) mod 18446744073709551616 = i * 1000000000 - 9223372036854775808"
    if "\<not> i \<le> 9223372036"
    using that assms(2) mod_add_self2 [of "i * 1000000000 - 9223372036854775808" "18446744073709551616 :: int"]
    by (simp add: add.commute)
  have "sint (ticker_interval i) = (if i \<le> 9223372036 then i * 1000000000 else i * 1000000000 - 2 ^ 64)"
    using assms by (simp add: t sint_word_ariths signed_take_bit_int_eq_self_iff sint_sbintrunc'
      signed_take_bit_eq_take_bit_shift take_bit_eq_mod wrap)
  then show ?thesis using assms by (simp add: NewTicker_def)
qed

text \<open>
  An interval of \<open>reportinterval\<close> seconds is computed in 64-bit nanoseconds. Up to 9223372036
  seconds the ticker starts; the 9223372037 following values, which \<open>New\<close> accepts as well, come out
  negative, and \<open>Run\<close> panics.
\<close>

theorem printtalkers_interval_overflow:
  assumes "TopTalkers_New create config = Some c" "ReportInterval c \<le> 18446744073"
  shows "NewTicker (ticker_interval (ReportInterval c)) = Inr () \<longleftrightarrow> ReportInterval c \<le> 9223372036"
  using assms by (intro NewTicker_interval) (auto simp: TopTalkers_New_def parse_from_def split: option.splits if_splits)

section \<open>An example\<close>

text \<open>Windows that never forget, and a run of one flow and one report.\<close>

abbreviation demo_sum :: "unit \<Rightarrow> rat \<Rightarrow> rat \<Rightarrow> rat" where
  "demo_sum t x w \<equiv> w + x"

definition demo_talkers :: TopTalkers where
  "demo_talkers = \<lparr>pt_Window = 60, ReportInterval = 10, LogPrefix = [], ThresholdBps = 0, ThresholdPps = 0, TopN = 10, pt_File = Stdout\<rparr>"

lemma demo_talkers_New: "TopTalkers_New (\<lambda>_. True) Map.empty = Some demo_talkers"
  by (simp add: TopTalkers_New_def demo_talkers_def parse_from_def topn_option_def threshold_option_def parse_uint_def
      cfg_def GetOutput_def)

lemma demo_talkers_run:
  "pt_run (\<lambda>_ _. []) 0 demo_sum demo_talkers [TFlow () m] pt_start
     (pt_start\<lparr>pt_database := add_flow 0 demo_sum () m Map.empty, pt_out := [m]\<rparr>)"
proof -
  let ?s = "pt_start :: (rat, EnrichedFlow) talkers"
  have "pt_step (\<lambda>_ _. []) 0 demo_sum demo_talkers (TFlow () m) ?s
      (?s\<lparr>pt_database := add_flow 0 demo_sum () m (pt_database ?s), pt_out := pt_out ?s @ [m]\<rparr>)"
    by (rule pt_flow)
  from pt_next [OF pt_done this] show ?thesis by (simp add: pt_start_def)
qed

theorem printtalkers_refines_history_witness:
  "\<exists>s. pt_run (\<lambda>_ _. []) 0 demo_sum demo_talkers [TFlow () zero_flow] pt_start s \<and> pt_out s = [zero_flow]
     \<and> pt_database s (ip_str (DstAddr zero_flow)) = Some (history_talker 0 demo_sum (ip_str (DstAddr zero_flow)) [((), zero_flow)])"
proof -
  let ?s = "pt_start\<lparr>pt_database := add_flow 0 demo_sum () zero_flow Map.empty, pt_out := [zero_flow]\<rparr>"
  have run: "pt_run (\<lambda>_ _. []) 0 demo_sum demo_talkers [TFlow () zero_flow] pt_start ?s" by (rule demo_talkers_run)
  have "pt_database ?s = history_database 0 demo_sum (fold (history_step 0 demo_sum) [TFlow () zero_flow] (\<lambda>_. []))"
    using printtalkers_refines_history [OF run] by simp
  then have "pt_database ?s (ip_str (DstAddr zero_flow)) = Some (history_talker 0 demo_sum (ip_str (DstAddr zero_flow)) [((), zero_flow)])"
    by (simp only:) (simp add: history_database_def)
  moreover have "pt_out ?s = [zero_flow]" by simp
  ultimately show ?thesis using run by blast
qed

theorem printtalkers_report_witness:
  "\<exists>s s' printed. pt_step (\<lambda>_ _. []) 0 demo_sum demo_talkers (TReport (\<lambda>w. w)) s s' \<and> ran (pt_database s) \<noteq> {}
    \<and> pt_text s' = pt_text s @ heading demo_talkers @ concat (map (talker_line (\<lambda>_ _. []) demo_talkers (\<lambda>w. w)) printed)"
proof -
  let ?s = "pt_start\<lparr>pt_database := add_flow 0 demo_sum () zero_flow Map.empty, pt_out := [zero_flow]\<rparr>"
  obtain r where r: "pt_database ?s = [ip_str (DstAddrObj zero_flow) \<mapsto> r]" by (simp add: add_flow_def Let_def)
  then have "sorted_entries (\<lambda>w. w) (pt_database ?s) [r]" by (simp add: sorted_entries_def)
  then obtain s' where step: "pt_step (\<lambda>_ _. []) 0 demo_sum demo_talkers (TReport (\<lambda>w. w)) ?s s'" by (metis pt_report)
  moreover have "ran (pt_database ?s) \<noteq> {}" unfolding r by simp
  ultimately show ?thesis using printtalkers_report [OF demo_talkers_New demo_talkers_run step] by blast
qed

theorem printtalkers_pps_eightfold_witness:
  "average demo_talkers (of_nat 600) = 8 * f64_div (of_nat 600) (of_int 60)"
  using printtalkers_pps_eightfold [of 600 demo_talkers] by (simp add: demo_talkers_def)

theorem printtalkers_interval_overflow_witness:
  "\<exists>c. TopTalkers_New (\<lambda>_. True) [''reportinterval'' \<mapsto> ''9223372037''] = Some c
     \<and> NewTicker (ticker_interval (ReportInterval c)) \<noteq> Inr ()"
proof -
  have "parse_int 64 ''9223372037'' = Some 9223372037" by (simp add: parse_int_def digit_val_def Let_def)
  then obtain c where c: "TopTalkers_New (\<lambda>_. True) [''reportinterval'' \<mapsto> ''9223372037''] = Some c" "ReportInterval c = 9223372037"
    by (simp add: TopTalkers_New_def parse_from_def topn_option_def parse_uint_def cfg_def GetOutput_def)
  have "\<not> NewTicker (ticker_interval (ReportInterval c)) = Inr ()"
    unfolding printtalkers_interval_overflow [OF c(1) order.trans [OF eq_refl [OF c(2)], of 18446744073, simplified]]
    by (simp add: c(2))
  with c(1) show ?thesis by blast
qed

end
