(* ===== verification/Sources.thy ===== *)
theory Sources
  imports Prelude "HOL-Library.Sublist"
begin

text \<open>
  The loop of an input segment that also passes on the flows of the segment before it: a \<open>select\<close>
  over its own source and its input channel. The model of the source is a function on its state;
  \<open>sent\<close> are the messages it has handed to the loop. The loop ends when the input is closed.
\<close>

datatype ('e, 'm) source_event = Source 'e | FromIn 'm | InClosed

fun source_run ::
  "('e \<Rightarrow> 's \<Rightarrow> 's) \<Rightarrow> ('s \<Rightarrow> 'm list) \<Rightarrow> ('e, 'm) source_event list \<Rightarrow> 's \<Rightarrow> 'm list \<times> 's \<times> bool" where
  "source_run act sent [] s = ([], s, False)"
| "source_run act sent (InClosed # es) s = ([], s, True)"
| "source_run act sent (FromIn m # es) s = (let (out, r) = source_run act sent es s in (m # out, r))"
| "source_run act sent (Source e # es) s =
     (let s' = act e s; (out, r) = source_run act sent es s' in (drop (length (sent s)) (sent s') @ out, r))"

definition sources :: "('e, 'm) source_event list \<Rightarrow> 'e list" where
  "sources es = List.map_filter (\<lambda>e. case e of Source x \<Rightarrow> Some x | _ \<Rightarrow> None) es"

definition from_in :: "('e, 'm) source_event list \<Rightarrow> 'm list" where
  "from_in es = List.map_filter (\<lambda>e. case e of FromIn m \<Rightarrow> Some m | _ \<Rightarrow> None) es"

lemma sources_simps [simp]:
  "sources [] = []" "sources (Source e # es) = e # sources es" "sources (FromIn m # es) = sources es"
  by (simp_all add: sources_def map_filter_simps)

lemma from_in_simps [simp]:
  "from_in [] = []" "from_in (Source e # es) = from_in es" "from_in (FromIn m # es) = m # from_in es"
  by (simp_all add: from_in_def map_filter_simps)

lemma only_sources [simp]: "sources (map Source xs) = xs" "from_in (map Source xs) = []" "InClosed \<notin> Source ` X"
  by (induction xs) auto

lemma append_in_shuffles: "zs \<in> shuffles xs ys \<Longrightarrow> pre @ zs \<in> shuffles xs (pre @ ys)"
  by (induction pre) (auto intro: Cons_in_shuffles_rightI)

text \<open>The loop ends exactly when the input is closed.\<close>

lemma source_run_ends: "snd (snd (source_run act sent es s)) \<longleftrightarrow> InClosed \<in> set es"
  by (induction act sent es s rule: source_run.induct) (auto simp: case_prod_unfold Let_def)

text \<open>
  A source that only adds to what it has sent: while the input is open, the loop sends on every flow
  of the input and every message of the source, each in their order.
\<close>

lemma source_run_open:
  assumes "\<And>e s. prefix (sent s) (sent (act e s))" "InClosed \<notin> set es"
  shows "\<exists>out new. source_run act sent es s = (out, fold act (sources es) s, False)
    \<and> sent (fold act (sources es) s) = sent s @ new \<and> out \<in> shuffles (from_in es) new"
  using assms(2)
proof (induction es arbitrary: s)
  case (Cons e es)
  show ?case
  proof (cases e)
    case (Source x)
    obtain pre where "sent (act x s) = sent s @ pre" using assms(1) [of s x] by (auto simp: prefix_def)
    moreover obtain out new where "source_run act sent es (act x s) = (out, fold act (sources es) (act x s), False)"
      "sent (fold act (sources es) (act x s)) = sent (act x s) @ new" "out \<in> shuffles (from_in es) new"
      using Cons.IH [of "act x s"] Cons.prems by auto
    ultimately show ?thesis using Source append_in_shuffles by (auto simp: Let_def)
  next
    case (FromIn m)
    then show ?thesis using Cons.IH [of s] Cons.prems by (auto simp: Let_def intro: Cons_in_shuffles_leftI)
  qed (use Cons.prems in auto)
qed simp

lemma source_run_closed:
  assumes "InClosed \<notin> set es" "source_run act sent es s = (out, s', False)"
  shows "source_run act sent (es @ InClosed # rest) s = (out, s', True)"
  using assms
proof (induction act sent es s arbitrary: out rule: source_run.induct)
  case (3 act sent m es s)
  then show ?case by (cases "source_run act sent es s") (auto simp: Let_def)
next
  case (4 act sent e es s)
  then show ?case by (cases "source_run act sent es (act e s)") (auto simp: Let_def)
qed auto

end
