(* ===== verification/Bpf.thy ===== *)
theory Bpf
  imports FlowCache Sources
begin

unbundle bit_operations_syntax

text \<open>
  The segment \<open>bpf\<close> (\<open>segments/input/bpf\<close>): samples of the kernel are decoded to packets
  (\<open>packet_dumper.go\<close>), collected in a flow cache of its own (\<open>flow_exporter.go\<close>) and exported as
  flows (\<open>bpf.go\<close>). The kernel side (sockets, the perf buffer, the BPF objects) is represented by the
  results of its calls; a time is its number of nanoseconds.
\<close>

section \<open>Samples and packets\<close>

record rawPacket =
  rp_SrcAddrHi :: u64
  rp_SrcAddrLo :: u64
  rp_DstAddrHi :: u64
  rp_DstAddrLo :: u64
  rp_InIf :: u32
  rp_OutIf :: u32
  rp_Bytes :: u32
  rp_Etype :: u32
  rp_Proto :: u32
  rp_Ipv6FlowLabel :: u32
  rp_SrcAddr :: u32
  rp_DstAddr :: u32
  rp_SrcPort :: u16
  rp_DstPort :: u16
  rp_IPTtl :: u8
  rp_IPTos :: u8
  rp_IcmpType :: u8
  rp_IcmpCode :: u8
  rp_TcpFlags :: u8
  rp_FlowDirection :: u8
  rp_RemoteAddr :: u8

record Packet =
  p_SrcAddr :: byte_slice
  p_DstAddr :: byte_slice
  p_InIf :: u32
  p_OutIf :: u32
  p_Bytes :: u32
  p_Etype :: u32
  p_Proto :: u32
  p_Ipv6FlowLabel :: u32
  p_SrcPort :: u16
  p_DstPort :: u16
  p_IPTtl :: u8
  p_IPTos :: u8
  p_IcmpType :: u8
  p_IcmpCode :: u8
  p_TcpFlags :: u8
  p_FlowDirection :: u8
  p_RemoteAddr :: u8

text \<open>\<open>binary.LittleEndian\<close> and \<open>binary.BigEndian\<close>, with \<open>n\<close> bytes.\<close>

definition le_word :: "u8 list \<Rightarrow> 'a::len word" where
  "le_word bs = word_of_int (horner_sum uint 256 bs)"

definition le_bytes :: "nat \<Rightarrow> 'a::len word \<Rightarrow> u8 list" where
  "le_bytes n w = map (\<lambda>i. ucast (drop_bit (8 * i) w)) [0..<n]"

definition be_bytes :: "nat \<Rightarrow> 'a::len word \<Rightarrow> u8 list" where
  "be_bytes n w = rev (le_bytes n w)"

definition at_offset :: "nat \<Rightarrow> nat \<Rightarrow> u8 list \<Rightarrow> 'a::len word" where
  "at_offset off n bs = le_word (take n (drop off bs))"

text \<open>\<open>binary.Read\<close> into a \<open>rawPacket\<close>: its 75 bytes without padding; a shorter sample is an error.\<close>

definition binary_Read :: "u8 list \<Rightarrow> rawPacket option" where
  "binary_Read bs =
     (if length bs < 75 then None
      else Some \<lparr>rp_SrcAddrHi = at_offset 0 8 bs, rp_SrcAddrLo = at_offset 8 8 bs,
             rp_DstAddrHi = at_offset 16 8 bs, rp_DstAddrLo = at_offset 24 8 bs,
             rp_InIf = at_offset 32 4 bs, rp_OutIf = at_offset 36 4 bs, rp_Bytes = at_offset 40 4 bs,
             rp_Etype = at_offset 44 4 bs, rp_Proto = at_offset 48 4 bs, rp_Ipv6FlowLabel = at_offset 52 4 bs,
             rp_SrcAddr = at_offset 56 4 bs, rp_DstAddr = at_offset 60 4 bs,
             rp_SrcPort = at_offset 64 2 bs, rp_DstPort = at_offset 66 2 bs,
             rp_IPTtl = at_offset 68 1 bs, rp_IPTos = at_offset 69 1 bs, rp_IcmpType = at_offset 70 1 bs,
             rp_IcmpCode = at_offset 71 1 bs, rp_TcpFlags = at_offset 72 1 bs,
             rp_FlowDirection = at_offset 73 1 bs, rp_RemoteAddr = at_offset 74 1 bs\<rparr>)"

definition parseRawPacket :: "rawPacket \<Rightarrow> Packet" where
  "parseRawPacket r =
     (let (srcip, dstip) =
        (if rp_Etype r = 0x0800 then (Some (be_bytes 4 (rp_SrcAddr r)), Some (be_bytes 4 (rp_DstAddr r)))
         else if rp_Etype r = 0x86dd
         then (Some (be_bytes 8 (rp_SrcAddrHi r) @ be_bytes 8 (rp_SrcAddrLo r)),
               Some (be_bytes 8 (rp_DstAddrHi r) @ be_bytes 8 (rp_DstAddrLo r)))
         else (None, None))
      in \<lparr>p_SrcAddr = srcip, p_DstAddr = dstip, p_InIf = rp_InIf r, p_OutIf = rp_OutIf r, p_Bytes = rp_Bytes r,
          p_Etype = rp_Etype r, p_Proto = rp_Proto r, p_Ipv6FlowLabel = rp_Ipv6FlowLabel r,
          p_SrcPort = rp_SrcPort r, p_DstPort = rp_DstPort r, p_IPTtl = rp_IPTtl r, p_IPTos = rp_IPTos r,
          p_IcmpType = rp_IcmpType r, p_IcmpCode = rp_IcmpCode r, p_TcpFlags = rp_TcpFlags r,
          p_FlowDirection = rp_FlowDirection r, p_RemoteAddr = rp_RemoteAddr r\<rparr>)"

section \<open>The packet dumper\<close>

text \<open>
  What \<open>perfReader.Read\<close> returns: an error, that the reader was closed, or a record with the number of
  lost samples and the bytes. \<open>read_packet\<close> is one round of the goroutine in \<open>Packets\<close>.
\<close>

datatype perf_result = PerfError | PerfClosed | PerfRecord u64 "u8 list"

fun read_packet :: "perf_result \<Rightarrow> Packet option" where
  "read_packet PerfError = None"
| "read_packet PerfClosed = None"
| "read_packet (PerfRecord lost sample) =
     (if lost \<noteq> 0 then None else map_option parseRawPacket (binary_Read sample))"

fun dumper_Packets :: "perf_result list \<Rightarrow> Packet list" where
  "dumper_Packets [] = []"
| "dumper_Packets (PerfClosed # rs) = []"
| "dumper_Packets (r # rs) = (case read_packet r of None \<Rightarrow> [] | Some p \<Rightarrow> [p]) @ dumper_Packets rs"

record PacketDumper =
  BufSize :: int
  dumper_SamplerAddress :: byte_slice

text \<open>
  \<open>Setup\<close>: \<open>memlock\<close> and \<open>load\<close> tell whether the calls to the kernel succeed, \<open>iface\<close> gives the
  addresses of the interface, each with whether it is an \<open>IPNet\<close>; the error of \<open>Addrs\<close> is ignored.
\<close>

definition IsLoopback :: "u8 list \<Rightarrow> bool" where
  "IsLoopback ip = (case ip_To4 ip of Some ip4 \<Rightarrow> hd ip4 = 127 | None \<Rightarrow> ip = replicate 15 0 @ [1])"

definition sampler_of :: "(bool \<times> u8 list) list \<Rightarrow> byte_slice" where
  "sampler_of addrs = map_option snd (List.find (\<lambda>(ipnet, ip). ipnet \<and> \<not> IsLoopback ip) addrs)"

definition dumper_Setup :: "bool \<Rightarrow> bool \<Rightarrow> (bool \<times> u8 list) list option \<Rightarrow> PacketDumper \<Rightarrow> PacketDumper option outcome" where
  "dumper_Setup memlock load iface b =
     (if \<not> memlock then Inl (Fatal ''BPF packet dump: Error during required memlock removal'')
      else if \<not> load then Inl (Fatal ''BPF packet dump: Error loading objects'')
      else Inr (map_option (\<lambda>addrs. b\<lparr>dumper_SamplerAddress := sampler_of addrs\<rparr>) iface))"

text \<open>\<open>Start\<close>, with the success of its four calls; \<open>Stop\<close>, whose first call is to the missing \<open>Close\<close>.\<close>

definition dumper_Start :: "bool \<Rightarrow> bool \<Rightarrow> bool \<Rightarrow> bool \<Rightarrow> PacketDumper \<Rightarrow> PacketDumper option" where
  "dumper_Start socket bind attach reader b =
     (if socket \<and> bind \<and> attach
      then (let b = (if BufSize b = 0 then b\<lparr>BufSize := 2 * 4096\<rparr> else b) in if reader then Some b else None)
      else None)"

definition bpfPrograms_Close :: "unit outcome" where
  "bpfPrograms_Close = Inl (Panic ''unimplemented'')"

definition bpfMaps_Close :: "unit outcome" where
  "bpfMaps_Close = Inl (Panic ''unimplemented'')"

definition bpfObjects_Close :: "unit outcome" where
  "bpfObjects_Close = or_fail bpfPrograms_Close (\<lambda>_. bpfMaps_Close)"

definition dumper_Stop :: "unit outcome" where
  "dumper_Stop = or_fail bpfObjects_Close (\<lambda>_. Inr ())"

section \<open>The flow cache of the segment\<close>

record bpf_FlowKey =
  bk_SrcAddr :: string
  bk_DstAddr :: string
  bk_SrcPort :: u16
  bk_DstPort :: u16
  bk_Proto :: u32
  bk_IPTos :: u8
  bk_InIface :: u32

definition bpf_NewFlowKey :: "Packet \<Rightarrow> bpf_FlowKey" where
  "bpf_NewFlowKey pkt =
     \<lparr>bk_SrcAddr = bytes_string (ip_To16 (bytes_of (p_SrcAddr pkt))), bk_DstAddr = bytes_string (ip_To16 (bytes_of (p_DstAddr pkt))),
      bk_SrcPort = p_SrcPort pkt, bk_DstPort = p_DstPort pkt, bk_Proto = p_Proto pkt, bk_IPTos = p_IPTos pkt,
      bk_InIface = p_InIf pkt\<rparr>"

record bpf_FlowRecord =
  br_TimeReceived :: int
  br_LastUpdated :: int
  br_SamplerAddress :: byte_slice
  br_Packets :: "Packet list"

definition first_packet :: "Packet \<Rightarrow> EnrichedFlow \<Rightarrow> EnrichedFlow" where
  "first_packet pkt m =
     m\<lparr>SrcAddr := p_SrcAddr pkt, DstAddr := p_DstAddr pkt, SrcPort := ucast (p_SrcPort pkt), DstPort := ucast (p_DstPort pkt),
       Proto := p_Proto pkt, IpTos := ucast (p_IPTos pkt), InIf := p_InIf pkt,
       OutIf := p_OutIf pkt, FlowDirection := ucast (p_FlowDirection pkt), RemoteAddr := ucast (p_RemoteAddr pkt),
       Etype := p_Etype pkt, Ipv6FlowLabel := p_Ipv6FlowLabel pkt, IpTtl := ucast (p_IPTtl pkt),
       IcmpType := ucast (p_IcmpType pkt), IcmpCode := ucast (p_IcmpCode pkt)\<rparr>"

definition every_packet :: "Packet \<Rightarrow> EnrichedFlow \<Rightarrow> EnrichedFlow" where
  "every_packet pkt m =
     m\<lparr>TcpFlags := TcpFlags m OR ucast (p_TcpFlags pkt), Bytes := Bytes m + ucast (p_Bytes pkt), Packets := Packets m + 1\<rparr>"

definition bpf_BuildFlow :: "bpf_FlowRecord \<Rightarrow> EnrichedFlow" where
  "bpf_BuildFlow f =
     (let m = zero_flow\<lparr>Type := EnrichedFlow_EBPF, SamplerAddress := br_SamplerAddress f,
                TimeReceived := word_of_int (br_TimeReceived f), TimeFlowStart := word_of_int (br_TimeReceived f),
                TimeFlowEnd := word_of_int (br_LastUpdated f)\<rparr>
      in case br_Packets f of [] \<Rightarrow> m | p # ps \<Rightarrow> fold every_packet (p # ps) (first_packet p m))"

text \<open>
  The exporter. Each of its operations holds the mutex from beginning to end, also while it sends on
  \<open>Flows\<close>, and so is one step; \<open>bsent\<close> collects what was sent.
\<close>

record bpf_FlowExporter =
  bx_activeTimeout :: int
  bx_inactiveTimeout :: int
  bx_samplerAddress :: byte_slice
  bx_cache :: "bpf_FlowKey \<rightharpoonup> bpf_FlowRecord"
  bsent :: "EnrichedFlow list"

definition bpf_NewFlowExporter :: "(string \<Rightarrow> int option) \<Rightarrow> string \<Rightarrow> string \<Rightarrow> bpf_FlowExporter option" where
  "bpf_NewFlowExporter ParseDuration active inactive =
     (case ParseDuration active of None \<Rightarrow> None | Some a \<Rightarrow>
     (case ParseDuration inactive of None \<Rightarrow> None | Some i \<Rightarrow>
        Some \<lparr>bx_activeTimeout = a, bx_inactiveTimeout = i, bx_samplerAddress = None, bx_cache = Map.empty, bsent = []\<rparr>))"

text \<open>\<open>Start\<close> runs the two goroutines with the timers, which panic for a timeout that is not positive.\<close>

definition bpf_Start :: "byte_slice \<Rightarrow> bpf_FlowExporter \<Rightarrow> bpf_FlowExporter outcome" where
  "bpf_Start sampler f =
     (if bx_activeTimeout f \<le> 0 \<or> bx_inactiveTimeout f \<le> 0 then Inl (Panic ''non-positive interval for NewTicker'')
      else Inr (f\<lparr>bx_samplerAddress := sampler\<rparr>))"

text \<open>\<open>export\<close>; its callers have just found the key in the cache.\<close>

definition bpf_export :: "bpf_FlowKey \<Rightarrow> bpf_FlowExporter \<Rightarrow> bpf_FlowExporter" where
  "bpf_export key f =
     (case bx_cache f key of
        None \<Rightarrow> f
      | Some r \<Rightarrow> f\<lparr>bx_cache := (bx_cache f)(key := None), bsent := bsent f @ [bpf_BuildFlow r]\<rparr>)"

text \<open>\<open>Insert\<close>, with the times its two calls of \<open>time.Now\<close> return.\<close>

definition bpf_store :: "int \<Rightarrow> int \<Rightarrow> Packet \<Rightarrow> bpf_FlowExporter \<Rightarrow> bpf_FlowExporter" where
  "bpf_store now1 now2 pkt f =
     (let key = bpf_NewFlowKey pkt;
          r = (case bx_cache f key of
                 Some r \<Rightarrow> r
               | None \<Rightarrow> \<lparr>br_TimeReceived = now1, br_LastUpdated = 0, br_SamplerAddress = None, br_Packets = []\<rparr>)
      in f\<lparr>bx_cache := (bx_cache f)(key \<mapsto>
             r\<lparr>br_LastUpdated := now2, br_SamplerAddress := bx_samplerAddress f, br_Packets := br_Packets r @ [pkt]\<rparr>)\<rparr>)"

definition bpf_Insert :: "int \<Rightarrow> int \<Rightarrow> Packet \<Rightarrow> bpf_FlowExporter \<Rightarrow> bpf_FlowExporter" where
  "bpf_Insert now1 now2 pkt f =
     (if p_TcpFlags pkt AND 1 = 1 then bpf_export (bpf_NewFlowKey pkt) (bpf_store now1 now2 pkt f)
      else bpf_store now1 now2 pkt f)"

definition bpf_export_due :: "(bpf_FlowRecord \<Rightarrow> bool) \<Rightarrow> bpf_FlowKey list \<Rightarrow> bpf_FlowExporter \<Rightarrow> bpf_FlowExporter" where
  "bpf_export_due due keys f =
     fold (\<lambda>key f. case bx_cache f key of Some r \<Rightarrow> if due r then bpf_export key f else f | None \<Rightarrow> f) keys f"

definition bpf_exportInactive :: "int \<Rightarrow> bpf_FlowKey list \<Rightarrow> bpf_FlowExporter \<Rightarrow> bpf_FlowExporter" where
  "bpf_exportInactive now keys f = bpf_export_due (\<lambda>r. now - br_LastUpdated r > bx_inactiveTimeout f) keys f"

definition bpf_exportActive :: "int \<Rightarrow> bpf_FlowKey list \<Rightarrow> bpf_FlowExporter \<Rightarrow> bpf_FlowExporter" where
  "bpf_exportActive now keys f = bpf_export_due (\<lambda>r. now - br_TimeReceived r > bx_activeTimeout f) keys f"

interpretation bc: packet_cache bx_cache bsent br_Packets bpf_NewFlowKey bpf_BuildFlow "\<lambda>_. True" bpf_export "bpf_store now1 now2"
  for now1 now2
proof
  fix k p f
  show "bx_cache (bpf_export k f) = (bx_cache f)(k := None)"
    "bsent (bpf_export k f) = bsent f @ (case bx_cache f k of None \<Rightarrow> [] | Some r \<Rightarrow> [bpf_BuildFlow r])"
    by (auto simp: bpf_export_def fun_upd_idem split: option.split)
  show "bsent (bpf_store now1 now2 p f) = bsent f" by (simp add: bpf_store_def Let_def)
  show "\<exists>r. bx_cache (bpf_store now1 now2 p f) = (bx_cache f)(bpf_NewFlowKey p \<mapsto> r)
      \<and> br_Packets r = (case bx_cache f (bpf_NewFlowKey p) of None \<Rightarrow> [] | Some q \<Rightarrow> br_Packets q) @ [p]
      \<and> ((\<forall>q. bx_cache f (bpf_NewFlowKey p) = Some q \<longrightarrow> br_Packets q \<noteq> [] \<and> True) \<longrightarrow> True)"
    by (cases "bx_cache f (bpf_NewFlowKey p)") (auto simp: bpf_store_def Let_def)
qed

section \<open>The segment\<close>

record Bpf =
  bpf_Device :: string
  bpf_ActiveTimeout :: string
  bpf_InactiveTimeout :: string
  bpf_BufferSize :: int
  bpf_dumper :: PacketDumper
  bpf_exporter :: bpf_FlowExporter

definition buffersize_option :: "string \<Rightarrow> int option" where
  "buffersize_option v =
     (case parse_int 32 v of Some n \<Rightarrow> if n \<le> 0 then None else Some n | None \<Rightarrow> Some 65536)"

text \<open>
  \<open>New\<close>. The branch for a valid \<open>inactivetimeout\<close> assigns \<open>ActiveTimeout\<close> and leaves \<open>InactiveTimeout\<close>
  empty. \<open>setup\<close> is the effect of \<open>dumper.Setup\<close>.
\<close>

definition Bpf_New ::
  "(string \<Rightarrow> int option) \<Rightarrow> (string \<Rightarrow> PacketDumper \<Rightarrow> PacketDumper option outcome) \<Rightarrow> config_map \<Rightarrow> Bpf option outcome" where
  "Bpf_New ParseDuration setup config =
     (case config ''device'' of None \<Rightarrow> Inr None | Some device \<Rightarrow>
     (case buffersize_option (cfg config ''buffersize'') of None \<Rightarrow> Inr None | Some bufsize \<Rightarrow>
      or_fail (setup device \<lparr>BufSize = bufsize, dumper_SamplerAddress = None\<rparr>) (\<lambda>d.
      case d of None \<Rightarrow> Inr None | Some d \<Rightarrow>
        let active = (if ParseDuration (cfg config ''activetimeout'') = None then ''30m'' else cfg config ''activetimeout'');
            (active, inactive) =
              (if ParseDuration (cfg config ''inactivetimeout'') = None then (active, ''15s'')
               else (cfg config ''inactivetimeout'', []))
        in case bpf_NewFlowExporter ParseDuration active inactive of
             None \<Rightarrow> Inr None
           | Some x \<Rightarrow> Inr (Some \<lparr>bpf_Device = device, bpf_ActiveTimeout = active, bpf_InactiveTimeout = inactive,
                             bpf_BufferSize = bufsize, bpf_dumper = d, bpf_exporter = x\<rparr>))))"

text \<open>
  \<open>Run\<close> after a successful start. Its source are the samples of the perf reader, with the times of
  the insertion that follows, and the ticks of the two timers; a flow that the exporter sends is
  received by the loop and sent on. At the end of the input the deferred function closes \<open>Out\<close> and
  stops the dumper.
\<close>

datatype bpf_event =
    BSample perf_result int int
  | BInactive int "bpf_FlowKey list"
  | BActive int "bpf_FlowKey list"

text \<open>\<open>ConsumeFrom\<close>: what it receives of the packets is inserted.\<close>

fun ConsumeFrom :: "int \<Rightarrow> int \<Rightarrow> Packet option \<Rightarrow> bpf_FlowExporter \<Rightarrow> bpf_FlowExporter" where
  "ConsumeFrom now1 now2 None f = f"
| "ConsumeFrom now1 now2 (Some pkt) f = bpf_Insert now1 now2 pkt f"

fun exporter_event :: "bpf_event \<Rightarrow> bpf_FlowExporter \<Rightarrow> bpf_FlowExporter" where
  "exporter_event (BSample r now1 now2) f = ConsumeFrom now1 now2 (read_packet r) f"
| "exporter_event (BInactive now keys) f = bpf_exportInactive now keys f"
| "exporter_event (BActive now keys) f = bpf_exportActive now keys f"

definition Bpf_Run ::
  "(bpf_event, EnrichedFlow) source_event list \<Rightarrow> bpf_FlowExporter \<Rightarrow> EnrichedFlow list \<times> bpf_FlowExporter \<times> unit outcome option" where
  "Bpf_Run es f =
     (let (out, f', closed) = source_run exporter_event bsent es f
      in (out, f', if closed then Some dumper_Stop else None))"

section \<open>Decoding\<close>

lemma take_bit_split: "take_bit (m + n) (x :: int) = take_bit m x + 2 ^ m * take_bit n (drop_bit m x)"
  by (simp add: take_bit_eq_mod drop_bit_eq_div power_add zmod_zmult2_eq)

lemma uint_byte: "uint (ucast (drop_bit k w) :: u8) = take_bit 8 (drop_bit k (uint w))"
  by (intro bit_eqI) (auto simp: bit_simps)

lemma horner_le_bytes: "horner_sum uint 256 (le_bytes n w) = take_bit (8 * n) (uint w)"
proof (induction n)
  case (Suc n)
  have "horner_sum uint 256 (le_bytes (Suc n) w) =
      horner_sum uint 256 (le_bytes n w) + 256 ^ n * uint (ucast (drop_bit (8 * n) w) :: u8)"
    by (simp add: le_bytes_def horner_sum_append)
  also have "\<dots> = take_bit (8 * n) (uint w) + 2 ^ (8 * n) * take_bit 8 (drop_bit (8 * n) (uint w))"
    by (simp add: Suc uint_byte power_mult)
  also have "\<dots> = take_bit (8 * Suc n) (uint w)" using take_bit_split [of "8 * n" 8 "uint w"] by (simp add: add.commute)
  finally show ?case .
qed (simp add: le_bytes_def)

lemma le_word_bytes: "LENGTH('a) \<le> 8 * n \<Longrightarrow> le_word (le_bytes n w) = (w :: 'a::len word)"
proof -
  assume "LENGTH('a) \<le> 8 * n"
  then have "take_bit (8 * n) (uint w) = uint w" by (simp add: take_bit_int_eq_self_iff) (meson order.strict_trans2 uint_lt2p power_increasing one_le_numeral)
  then show ?thesis by (simp add: le_word_def horner_le_bytes)
qed

lemma length_le_bytes [simp]: "length (le_bytes n w) = n"
  by (simp add: le_bytes_def)

lemma horner_bytes_bounds: "0 \<le> horner_sum uint 256 bs \<and> horner_sum uint 256 bs < 256 ^ length bs" for bs :: "u8 list"
proof (induction bs)
  case (Cons b bs)
  have "0 \<le> uint b" "uint b < 256" using uint_lt2p [of b] by auto
  then show ?case using Cons by (auto simp: algebra_simps)
qed simp

lemma horner_bytes_inj:
  "length as = length bs \<Longrightarrow> horner_sum uint 256 as = horner_sum uint 256 bs \<Longrightarrow> as = bs" for as bs :: "u8 list"
proof (induction as bs rule: list_induct2)
  case (Cons a as b bs)
  have less: "0 \<le> uint x \<and> uint x < 256" for x :: u8 using uint_lt2p [of x] by auto
  have eq: "uint a + 256 * horner_sum uint 256 as = uint b + 256 * horner_sum uint 256 bs" using Cons.prems by simp
  then have "(uint a + 256 * horner_sum uint 256 as) mod 256 = (uint b + 256 * horner_sum uint 256 bs) mod 256" by simp
  then have "uint a = uint b" using less [of a] less [of b] by simp
  with eq Cons.IH show ?case by (simp add: word_uint_eq_iff)
qed simp

lemma le_bytes_word:
  assumes "length bs = n" "8 * n \<le> LENGTH('a)" shows "le_bytes n (le_word bs :: 'a::len word) = bs"
proof (rule horner_bytes_inj)
  have pow: "(256 :: int) ^ n = 2 ^ (8 * n)" by (simp add: power_mult)
  have "horner_sum uint 256 bs < 2 ^ (8 * n)" "0 \<le> horner_sum uint 256 bs" using horner_bytes_bounds [of bs] assms(1) pow by auto
  moreover have "(2 :: int) ^ (8 * n) \<le> 2 ^ LENGTH('a)" using assms(2) by (simp add: power_increasing)
  ultimately show "horner_sum uint 256 (le_bytes n (le_word bs :: 'a word)) = horner_sum uint 256 bs"
    unfolding horner_le_bytes le_word_def uint_word_of_int by (simp add: take_bit_eq_mod del: power_increasing_iff)
qed (simp add: assms(1))

lemma le_bytes_at_offset:
  "off + n \<le> length bs \<Longrightarrow> 8 * n \<le> LENGTH('a) \<Longrightarrow> le_bytes n (at_offset off n bs :: 'a::len word) = take n (drop off bs)"
  by (simp add: at_offset_def le_bytes_word)

lemma be_bytes_at_offset:
  "off + n \<le> length bs \<Longrightarrow> 8 * n \<le> LENGTH('a) \<Longrightarrow> be_bytes n (at_offset off n bs :: 'a::len word) = rev (take n (drop off bs))"
  by (simp add: be_bytes_def le_bytes_at_offset)

text \<open>
  The packet a sample is read to, byte by byte: the offsets are those of the fields of the struct
  \<open>rawPacket\<close> one behind the other, \<open>slice off n\<close> are the \<open>n\<close> bytes at an offset.
\<close>

definition packet_of_bytes :: "u8 list \<Rightarrow> Packet \<Rightarrow> bool" where
  "packet_of_bytes bs p \<longleftrightarrow>
     (let slice = (\<lambda>off n. take n (drop off bs)); reversed = (\<lambda>off n. rev (slice off n)) in
       le_bytes 4 (p_InIf p) = slice 32 4 \<and> le_bytes 4 (p_OutIf p) = slice 36 4 \<and> le_bytes 4 (p_Bytes p) = slice 40 4
     \<and> le_bytes 4 (p_Etype p) = slice 44 4 \<and> le_bytes 4 (p_Proto p) = slice 48 4 \<and> le_bytes 4 (p_Ipv6FlowLabel p) = slice 52 4
     \<and> le_bytes 2 (p_SrcPort p) = slice 64 2 \<and> le_bytes 2 (p_DstPort p) = slice 66 2
     \<and> [p_IPTtl p, p_IPTos p, p_IcmpType p, p_IcmpCode p, p_TcpFlags p, p_FlowDirection p, p_RemoteAddr p] = slice 68 7
     \<and> p_SrcAddr p = (if slice 44 4 = [0x00, 0x08, 0, 0] then Some (reversed 56 4)
                      else if slice 44 4 = [0xdd, 0x86, 0, 0] then Some (reversed 0 8 @ reversed 8 8) else None)
     \<and> p_DstAddr p = (if slice 44 4 = [0x00, 0x08, 0, 0] then Some (reversed 60 4)
                      else if slice 44 4 = [0xdd, 0x86, 0, 0] then Some (reversed 16 8 @ reversed 24 8) else None))"

lemma le_bytes_inj: "le_bytes 4 a = le_bytes 4 b \<longleftrightarrow> a = b" for a b :: u32
proof
  have "le_word (le_bytes 4 w) = w" for w :: u32 by (rule le_word_bytes) simp
  then show "le_bytes 4 a = le_bytes 4 b \<Longrightarrow> a = b" by metis
qed simp

lemma etype_bytes:
  "le_bytes 4 (0x0800 :: u32) = [0x00, 0x08, 0, 0]" "le_bytes 4 (0x86dd :: u32) = [0xdd, 0x86, 0, 0]"
  by (simp_all add: le_bytes_def upt_rec)

lemma one_byte: "off < length bs \<Longrightarrow> at_offset off (Suc 0) bs = bs ! off" for bs :: "u8 list"
  by (simp add: at_offset_def take_Suc hd_drop_conv_nth drop_eq_Nil le_word_def)

lemma seven_bytes:
  assumes "75 \<le> length bs"
  shows "take 7 (drop 68 bs) = [bs ! 68, bs ! 69, bs ! 70, bs ! 71, bs ! 72, bs ! 73, bs ! 74]"
proof -
  have "take 7 (drop 68 bs) = map (\<lambda>i. bs ! (68 + i)) [0..<7]" using assms by (intro nth_equalityI) auto
  then show ?thesis by (simp add: upt_rec)
qed

lemma parse_read:
  assumes "75 \<le> length bs"
  shows "\<exists>r. binary_Read bs = Some r \<and> packet_of_bytes bs (parseRawPacket r)"
proof -
  obtain r where r: "binary_Read bs = Some r" using assms by (simp add: binary_Read_def)
  then have rec: "r = the (binary_Read bs)" by simp
  have words: "le_bytes 4 (rp_InIf r) = take 4 (drop 32 bs)" "le_bytes 4 (rp_OutIf r) = take 4 (drop 36 bs)"
      "le_bytes 4 (rp_Bytes r) = take 4 (drop 40 bs)" "le_bytes 4 (rp_Etype r) = take 4 (drop 44 bs)"
      "le_bytes 4 (rp_Proto r) = take 4 (drop 48 bs)" "le_bytes 4 (rp_Ipv6FlowLabel r) = take 4 (drop 52 bs)"
      "le_bytes 2 (rp_SrcPort r) = take 2 (drop 64 bs)" "le_bytes 2 (rp_DstPort r) = take 2 (drop 66 bs)"
    using assms unfolding rec binary_Read_def by (simp_all add: le_bytes_at_offset)
  have addrs: "be_bytes 4 (rp_SrcAddr r) = rev (take 4 (drop 56 bs))" "be_bytes 4 (rp_DstAddr r) = rev (take 4 (drop 60 bs))"
      "be_bytes 8 (rp_SrcAddrHi r) = rev (take 8 (drop 0 bs))" "be_bytes 8 (rp_SrcAddrLo r) = rev (take 8 (drop 8 bs))"
      "be_bytes 8 (rp_DstAddrHi r) = rev (take 8 (drop 16 bs))" "be_bytes 8 (rp_DstAddrLo r) = rev (take 8 (drop 24 bs))"
    using assms unfolding rec binary_Read_def by (simp_all add: be_bytes_at_offset)
  have bytes: "[rp_IPTtl r, rp_IPTos r, rp_IcmpType r, rp_IcmpCode r, rp_TcpFlags r, rp_FlowDirection r, rp_RemoteAddr r]
      = take 7 (drop 68 bs)"
    using assms unfolding rec binary_Read_def seven_bytes [OF assms] by (simp add: one_byte)
  have etype: "(le_bytes 4 (rp_Etype r) = [0x00, 0x08, 0, 0]) = (rp_Etype r = 0x0800)"
      "(le_bytes 4 (rp_Etype r) = [0xdd, 0x86, 0, 0]) = (rp_Etype r = 0x86dd)"
    by (simp_all only: etype_bytes [symmetric] le_bytes_inj)
  have "packet_of_bytes bs (parseRawPacket r)"
    unfolding packet_of_bytes_def Let_def words [symmetric] bytes [symmetric] addrs [symmetric] etype
    by (simp add: parseRawPacket_def Let_def etype)
  with r show ?thesis by blast
qed

text \<open>
  C26. A record of the perf buffer with lost samples or with fewer than 75 bytes gives no packet. Any
  other one gives a packet with each of its fields at the offset of the field in the struct
  \<open>rawPacket\<close>: numbers in little endian; the source and the destination of an IPv4 packet as the four
  bytes of \<open>SrcAddr\<close> and \<open>DstAddr\<close> in network order, those of an IPv6 packet as the eight bytes of the
  high half and then the eight of the low half in network order; no address for any other ether
  type. Bytes behind the 75th do not matter.
\<close>

theorem bpf_sample_decoded:
  "case read_packet (PerfRecord lost bs) of
     None \<Rightarrow> lost \<noteq> 0 \<or> length bs < 75
   | Some p \<Rightarrow> lost = 0 \<and> 75 \<le> length bs \<and> packet_of_bytes bs p"
proof (cases "length bs < 75")
  case False
  then show ?thesis using parse_read [of bs] by auto
qed (simp add: binary_Read_def)

lemma dumper_Packets_open: "PerfClosed \<notin> set rs \<Longrightarrow> dumper_Packets rs = List.map_filter read_packet rs"
proof (induction rs)
  case (Cons r rs)
  then show ?case by (cases r) (auto simp: map_filter_simps split: option.split)
qed (simp add: map_filter_simps)

section \<open>Conservation\<close>

definition sampled :: "bpf_event list \<Rightarrow> Packet list" where
  "sampled es = List.map_filter (\<lambda>e. case e of BSample r _ _ \<Rightarrow> read_packet r | _ \<Rightarrow> None) es"

lemma bpf_export_due_where: "bpf_export_due due = fold (bc.export_where due)"
  by (simp add: fun_eq_iff bpf_export_due_def bc.export_where_def [abs_def])

lemma exporter_event_conserved:
  assumes "bc.conserved rs ps f"
  shows "\<exists>rs'. bc.conserved rs' (ps @ sampled [e]) (exporter_event e f)"
proof (cases e)
  case (BSample r now1 now2)
  show ?thesis
  proof (cases "read_packet r")
    case None
    then show ?thesis using BSample assms by (auto simp: sampled_def map_filter_simps)
  next
    case (Some p)
    then show ?thesis
      using BSample bc.conserved_insert [OF assms, of p "p_TcpFlags p AND 1 = 1" now1 now2]
      by (simp add: sampled_def map_filter_simps bpf_Insert_def)
  qed
qed (use assms bc.conserved_export_where [OF assms] in
      \<open>auto simp: sampled_def map_filter_simps bpf_exportInactive_def bpf_exportActive_def bpf_export_due_where\<close>)

lemma exporter_event_sends: "prefix (bsent f) (bsent (exporter_event e f))"
proof -
  have "prefix (bsent f) (bsent (ConsumeFrom now1 now2 p f))" for now1 now2 p
    using bc.insert_sends by (cases p) (auto simp: bpf_Insert_def)
  then show ?thesis using bc.export_where_sends
    by (cases e) (auto simp: bpf_exportInactive_def bpf_exportActive_def bpf_export_due_where)
qed

lemma sampled_Cons: "sampled (e # es) = sampled [e] @ sampled es"
  by (simp add: sampled_def map_filter_def)

lemma exporter_events_conserved:
  "bc.conserved rs ps f \<Longrightarrow> \<exists>rs'. bc.conserved rs' (ps @ sampled es) (fold exporter_event es f)"
proof (induction es arbitrary: f rs ps)
  case (Cons e es)
  obtain rs1 where "bc.conserved rs1 (ps @ sampled [e]) (exporter_event e f)"
    using exporter_event_conserved [OF Cons.prems] by blast
  from Cons.IH [OF this] show ?case by (simp add: sampled_Cons [of e es])
qed (auto simp: sampled_def map_filter_simps)

text \<open>
  C13. For every sequence of samples, timer ticks and flows from the segment before: the segment sends on
  every flow it receives, in order, and between them the exported flows; each of these was built from
  the packets of a single flow, and for every flow key the packets of the exported records, in
  order, followed by those still in the cache, are exactly the packets sampled for it.
\<close>

theorem bpf_conserves:
  assumes "bpf_NewFlowExporter ParseDuration active inactive = Some f0" "bpf_Start sampler f0 = Inr f1" "InClosed \<notin> set es"
  shows "\<exists>out f rs. Bpf_Run es f1 = (out, f, None)
    \<and> out \<in> shuffles (from_in es) (map bpf_BuildFlow rs)
    \<and> (\<forall>r\<in>set rs. br_Packets r \<noteq> [] \<and> (\<forall>p\<in>set (br_Packets r). bpf_NewFlowKey p = bpf_NewFlowKey (hd (br_Packets r))))
    \<and> (\<forall>k. concat (map br_Packets (filter (\<lambda>r. bpf_NewFlowKey (hd (br_Packets r)) = k) rs))
             @ (case bx_cache f k of None \<Rightarrow> [] | Some r \<Rightarrow> br_Packets r)
           = filter (\<lambda>p. bpf_NewFlowKey p = k) (sampled (sources es)))"
proof -
  let ?f = f1 and ?f' = "fold exporter_event (sources es) f1"
  have f0: "bx_cache ?f = Map.empty" "bsent ?f = []"
    using assms(1,2) by (auto simp: bpf_NewFlowExporter_def bpf_Start_def split: option.splits if_splits)
  then obtain rs where rs: "bc.conserved rs (sampled (sources es)) ?f'"
    using exporter_events_conserved [OF bc.conserved_empty, of ?f "sources es"] by auto
  obtain out where "source_run exporter_event bsent es ?f = (out, ?f', False)" "out \<in> shuffles (from_in es) (bsent ?f')"
    using source_run_open [where act = exporter_event and sent = bsent and es = es and s = ?f, OF exporter_event_sends assms(3)] f0
    by auto
  then show ?thesis using rs
    by (auto simp: Bpf_Run_def bc.conserved_def bc.of_one_flow_def bc.of_key_def bc.held_def)
qed

text \<open>
  The segment cannot be shut down: when its input is closed it panics, whatever happened before, in
  \<open>Close\<close> of the BPF programs, which is not implemented. It stops for no other reason.
\<close>

theorem bpf_shutdown_panics:
  "snd (snd (Bpf_Run es f)) = (if InClosed \<in> set es then Some (Inl (Panic ''unimplemented'')) else None)"
proof -
  have "snd (snd (Bpf_Run es f)) = (if snd (snd (source_run exporter_event bsent es f)) then Some dumper_Stop else None)"
    by (simp add: Bpf_Run_def case_prod_unfold Let_def)
  then show ?thesis
    by (simp add: source_run_ends dumper_Stop_def bpfObjects_Close_def bpfPrograms_Close_def)
qed

section \<open>The flows\<close>

lemma fold_every_packet:
  "Packets (fold every_packet ps m) = Packets m + of_nat (length ps)"
  "Bytes (fold every_packet ps m) = Bytes m + (\<Sum>p\<leftarrow>ps. ucast (p_Bytes p))"
  "TcpFlags (fold every_packet ps m) = fold (\<lambda>p w. w OR ucast (p_TcpFlags p)) ps (TcpFlags m)"
  by (induction ps arbitrary: m) (simp_all add: every_packet_def)

lemma fold_every_packet_keeps:
  "SrcAddr (fold every_packet ps m) = SrcAddr m" "DstAddr (fold every_packet ps m) = DstAddr m"
  "SrcPort (fold every_packet ps m) = SrcPort m" "DstPort (fold every_packet ps m) = DstPort m"
  "Proto (fold every_packet ps m) = Proto m" "IpTos (fold every_packet ps m) = IpTos m" "InIf (fold every_packet ps m) = InIf m"
  by (induction ps arbitrary: m) (simp_all add: every_packet_def)

lemma bit_fold_or: "bit (fold (\<lambda>p w. w OR g p) ps w) n \<longleftrightarrow> bit w n \<or> (\<exists>p\<in>set ps. bit (g p) n)" for w :: u32
  by (induction ps arbitrary: w) (auto simp: bit_or_iff)

lemma bytes_string_inj: "bytes_string a = bytes_string b \<Longrightarrow> a = b"
proof -
  have again: "of_nat (of_char (char_of (unat x) :: char)) = x" for x :: u8
  proof -
    have "unat x < 256" using unsigned_less [of x] by simp
    then show ?thesis by (simp only: of_char_of) simp
  qed
  have "map (\<lambda>c. of_nat (of_char c)) (bytes_string xs) = xs" for xs :: "u8 list"
    by (simp add: bytes_string_def comp_def again del: of_char_of)
  then show "bytes_string a = bytes_string b \<Longrightarrow> a = b" by metis
qed

text \<open>
  An exported flow describes its packets: it counts them and their bytes in 64 bits, has a TCP flag
  exactly when one of them has it, and has the addresses, ports, protocol, type of service and
  interface of every one of them.
\<close>

theorem bpf_flow_of_packets:
  assumes "br_Packets r \<noteq> []" "\<forall>p\<in>set (br_Packets r). bpf_NewFlowKey p = bpf_NewFlowKey (hd (br_Packets r))"
  shows "let m = bpf_BuildFlow r in
      Packets m = of_nat (length (br_Packets r)) \<and> Bytes m = (\<Sum>p\<leftarrow>br_Packets r. ucast (p_Bytes p))
    \<and> (\<forall>n. bit (TcpFlags m) n \<longleftrightarrow> (\<exists>p\<in>set (br_Packets r). bit (p_TcpFlags p) n))
    \<and> (\<forall>p\<in>set (br_Packets r). ucast (p_SrcPort p) = SrcPort m \<and> ucast (p_DstPort p) = DstPort m \<and> p_Proto p = Proto m
         \<and> ucast (p_IPTos p) = IpTos m \<and> p_InIf p = InIf m
         \<and> ip_To16 (bytes_of (p_SrcAddr p)) = ip_To16 (bytes_of (SrcAddr m))
         \<and> ip_To16 (bytes_of (p_DstAddr p)) = ip_To16 (bytes_of (DstAddr m)))"
proof -
  obtain q qs where q: "br_Packets r = q # qs" using assms(1) by (cases "br_Packets r") auto
  have same: "bpf_NewFlowKey p = bpf_NewFlowKey q" if "p \<in> set (br_Packets r)" for p
    using assms(2) that q by auto
  define z where "z = zero_flow\<lparr>Type := EnrichedFlow_EBPF, SamplerAddress := br_SamplerAddress r,
      TimeReceived := word_of_int (br_TimeReceived r), TimeFlowStart := word_of_int (br_TimeReceived r),
      TimeFlowEnd := word_of_int (br_LastUpdated r)\<rparr>"
  have z: "Packets z = 0" "Bytes z = 0" "TcpFlags z = 0" by (simp_all add: z_def zero_flow_def)
  have m: "bpf_BuildFlow r = fold every_packet (q # qs) (first_packet q z)"
    unfolding bpf_BuildFlow_def q z_def by simp
  have first: "Packets (first_packet q z) = 0" "Bytes (first_packet q z) = 0" "TcpFlags (first_packet q z) = 0"
    by (simp_all add: first_packet_def z)
  have keys: "p_SrcPort p = p_SrcPort q \<and> p_DstPort p = p_DstPort q \<and> p_Proto p = p_Proto q \<and> p_IPTos p = p_IPTos q
      \<and> p_InIf p = p_InIf q \<and> ip_To16 (bytes_of (p_SrcAddr p)) = ip_To16 (bytes_of (p_SrcAddr q))
      \<and> ip_To16 (bytes_of (p_DstAddr p)) = ip_To16 (bytes_of (p_DstAddr q))" if "p \<in> set (br_Packets r)" for p
    using same [OF that] by (auto simp: bpf_NewFlowKey_def dest: bytes_string_inj)
  have bits: "bit (ucast (p_TcpFlags p) :: u32) n \<longleftrightarrow> bit (p_TcpFlags p) n" for p n
    using bit_imp_le_length [of "p_TcpFlags p" n] by (auto simp: bit_simps)
  define M where "M = bpf_BuildFlow r"
  have counts: "Packets M = of_nat (length (br_Packets r))" "Bytes M = (\<Sum>p\<leftarrow>br_Packets r. ucast (p_Bytes p))"
    unfolding M_def m fold_every_packet first q by simp_all
  have flags: "bit (TcpFlags M) n \<longleftrightarrow> (\<exists>p\<in>set (br_Packets r). bit (p_TcpFlags p) n)" for n
    unfolding M_def m fold_every_packet bit_fold_or first q bits by simp
  have tuple: "SrcPort M = ucast (p_SrcPort q)" "DstPort M = ucast (p_DstPort q)" "Proto M = p_Proto q"
    "IpTos M = ucast (p_IPTos q)" "InIf M = p_InIf q" "SrcAddr M = p_SrcAddr q" "DstAddr M = p_DstAddr q"
    unfolding M_def m fold_every_packet_keeps by (simp_all add: first_packet_def)
  show ?thesis unfolding Let_def M_def [symmetric] counts flags tuple using keys by simp
qed

section \<open>The configuration\<close>

text \<open>
  The option \<open>inactivetimeout\<close> cannot be set: where the segment is created, its inactive timeout is the
  default of 15 seconds and the option was absent or invalid. With a valid value \<open>New\<close> fails.
\<close>

theorem bpf_inactivetimeout_refused:
  assumes "ParseDuration [] = None" "Bpf_New ParseDuration setup config = Inr (Some b)"
  shows "bpf_InactiveTimeout b = ''15s'' \<and> ParseDuration (cfg config ''inactivetimeout'') = None"
  using assms
  by (auto simp: Bpf_New_def bpf_NewFlowExporter_def Let_def split: option.splits sum.splits if_splits)

section \<open>Examples\<close>

definition demo_raw :: rawPacket where
  "demo_raw = \<lparr>rp_SrcAddrHi = 0, rp_SrcAddrLo = 0, rp_DstAddrHi = 0, rp_DstAddrLo = 0, rp_InIf = 2, rp_OutIf = 0, rp_Bytes = 1500,
     rp_Etype = 0x0800, rp_Proto = 6, rp_Ipv6FlowLabel = 0, rp_SrcAddr = 0x0A000001, rp_DstAddr = 0x0A000002,
     rp_SrcPort = 4242, rp_DstPort = 80, rp_IPTtl = 64, rp_IPTos = 0, rp_IcmpType = 0, rp_IcmpCode = 0, rp_TcpFlags = 0x11,
     rp_FlowDirection = 0, rp_RemoteAddr = 1\<rparr>"

definition demo_sample :: "u8 list" where
  "demo_sample = [0, 0, 0, 0, 0, 0, 0, 0, 0, 0, 0, 0, 0, 0, 0, 0, 0, 0, 0, 0, 0, 0, 0, 0, 0, 0, 0, 0, 0, 0, 0, 0, 2, 0, 0, 0, 0, 0, 0, 0, 0xDC, 5, 0, 0, 0, 8, 0, 0, 6, 0, 0, 0, 0, 0, 0, 0,
     1, 0, 0, 10, 2, 0, 0, 10, 0x92, 0x10, 80, 0, 64, 0, 0, 0, 0x11, 0, 1]"

lemma demo_read: "binary_Read demo_sample = Some demo_raw"
  by (simp add: binary_Read_def at_offset_def le_word_def demo_sample_def demo_raw_def)

theorem bpf_sample_decoded_witness:
  "read_packet (PerfRecord 0 demo_sample) = Some (parseRawPacket demo_raw)
   \<and> p_SrcAddr (parseRawPacket demo_raw) = Some [10, 0, 0, 1] \<and> p_DstAddr (parseRawPacket demo_raw) = Some [10, 0, 0, 2]"
proof -
  have read: "read_packet (PerfRecord 0 demo_sample) = Some (parseRawPacket demo_raw)" by (simp add: demo_read)
  then have "packet_of_bytes demo_sample (parseRawPacket demo_raw)" using bpf_sample_decoded [of 0 demo_sample] unfolding read by simp
  then show ?thesis using read by (simp add: packet_of_bytes_def Let_def) (simp add: demo_sample_def)
qed

definition demo_durations :: "string \<Rightarrow> int option" where
  "demo_durations v = (if v = ''30m'' then Some (1800 * 10 ^ 9) else if v = ''15s'' then Some (15 * 10 ^ 9) else None)"

theorem bpf_conserves_witness:
  "\<exists>out f rs. Bpf_Run [Source (BSample (PerfRecord 0 demo_sample) 10 11), FromIn zero_flow]
      \<lparr>bx_activeTimeout = 1800 * 10 ^ 9, bx_inactiveTimeout = 15 * 10 ^ 9, bx_samplerAddress = None, bx_cache = Map.empty, bsent = []\<rparr> = (out, f, None)
    \<and> out \<in> shuffles [zero_flow] (map bpf_BuildFlow rs)
    \<and> concat (map br_Packets (filter (\<lambda>r. bpf_NewFlowKey (hd (br_Packets r)) = bpf_NewFlowKey (parseRawPacket demo_raw)) rs))
        @ (case bx_cache f (bpf_NewFlowKey (parseRawPacket demo_raw)) of None \<Rightarrow> [] | Some r \<Rightarrow> br_Packets r)
      = [parseRawPacket demo_raw]"
proof -
  let ?es = "[Source (BSample (PerfRecord 0 demo_sample) 10 11), FromIn zero_flow]"
  let ?f = "\<lparr>bx_activeTimeout = 1800 * 10 ^ 9, bx_inactiveTimeout = 15 * 10 ^ 9, bx_samplerAddress = None, bx_cache = Map.empty, bsent = []\<rparr>"
  have new: "bpf_NewFlowExporter demo_durations ''30m'' ''15s'' = Some ?f" "bpf_Start None ?f = Inr ?f"
    by (simp_all add: bpf_NewFlowExporter_def demo_durations_def bpf_Start_def)
  have es: "sampled (sources ?es) = [parseRawPacket demo_raw]" "from_in ?es = [zero_flow]" "InClosed \<notin> set ?es"
    by (simp_all add: sampled_def map_filter_simps demo_read)
  let ?k = "bpf_NewFlowKey (parseRawPacket demo_raw)"
  have one: "filter (\<lambda>p. bpf_NewFlowKey p = ?k) [parseRawPacket demo_raw] = [parseRawPacket demo_raw]" by simp
  show ?thesis using bpf_conserves [OF new es(3)] unfolding es by (metis one)
qed

theorem bpf_flow_of_packets_witness:
  "Bytes (bpf_BuildFlow \<lparr>br_TimeReceived = 1, br_LastUpdated = 2, br_SamplerAddress = None, br_Packets = [parseRawPacket demo_raw]\<rparr>) = 1500"
  using bpf_flow_of_packets [of "\<lparr>br_TimeReceived = 1, br_LastUpdated = 2, br_SamplerAddress = None, br_Packets = [parseRawPacket demo_raw]\<rparr>"]
  by (simp add: Let_def parseRawPacket_def demo_raw_def)

theorem bpf_inactivetimeout_refused_witness:
  "\<exists>b. Bpf_New demo_durations (\<lambda>_ d. Inr (Some d)) [''device'' \<mapsto> ''eth0''] = Inr (Some b) \<and> bpf_InactiveTimeout b = ''15s''"
proof -
  obtain b where b: "Bpf_New demo_durations (\<lambda>_ d. Inr (Some d)) [''device'' \<mapsto> ''eth0''] = Inr (Some b)"
    by (simp add: Bpf_New_def buffersize_option_def parse_int_def cfg_def bpf_NewFlowExporter_def demo_durations_def)
  moreover have "demo_durations [] = None" by (simp add: demo_durations_def)
  ultimately show ?thesis using bpf_inactivetimeout_refused by blast
qed

end
