(* ===== verification/PacketInput.thy ===== *)
theory PacketInput
  imports Bpf
begin

text \<open>
  The segment \<open>packet\<close> (\<open>segments/input/packet\<close>): its options, the choice of a capture method, and the
  loop around the flow cache of \<open>aggregate\<close>. Whether files and interfaces exist and handles can be
  opened are parameters, \<open>cgo\<close> is the build constant \<open>cgoEnabled\<close>.
\<close>

section \<open>Options\<close>

record opt =
  opt_Name :: string
  opt_Default :: string
  opt_Options :: "string list"
  opt_Type :: string

text \<open>\<open>parseOption\<close>; \<open>None\<close> is an error.\<close>

definition parseOption ::
  "(string \<Rightarrow> int option) \<Rightarrow> (string \<Rightarrow> bool) \<Rightarrow> (string \<Rightarrow> bool) \<Rightarrow> config_map \<Rightarrow> opt \<Rightarrow> string option" where
  "parseOption ParseDuration Stat InterfaceByName config d =
     (let v = cfg config (opt_Name d); dflt = (if opt_Default d \<noteq> [] then Some (opt_Default d) else None) in
      if opt_Type d = ''option''
      then (if v = [] then dflt else if v \<in> set (opt_Options d) then Some v else None)
      else if opt_Type d = ''duration''
      then (if ParseDuration v = None then Some (opt_Default d) else Some v)
      else if opt_Type d = ''rfile''
      then (if \<not> Stat v then (if opt_Default d \<noteq> [] \<and> \<not> Stat (opt_Default d) then Some (opt_Default d) else None)
            else Some v)
      else if opt_Type d = ''iface''
      then (if v = [] then dflt else if InterfaceByName v then Some v else None)
      else None)"

record PacketSegment =
  pk_Method :: string
  pk_Source :: string
  pk_Filter :: string
  pk_ActiveTimeout :: string
  pk_InactiveTimeout :: string
  pk_exporter :: FlowExporter

definition Packet_New ::
  "bool \<Rightarrow> (string \<Rightarrow> int option) \<Rightarrow> (string \<Rightarrow> bool) \<Rightarrow> (string \<Rightarrow> bool) \<Rightarrow> config_map \<Rightarrow> PacketSegment option" where
  "Packet_New cgo ParseDuration Stat InterfaceByName config =
     (let parse = (\<lambda>n d os t. parseOption ParseDuration Stat InterfaceByName config
                      \<lparr>opt_Name = n, opt_Default = d, opt_Options = os, opt_Type = t\<rparr>) in
      case parse ''activetimeout'' ''30m'' [] ''duration'' of None \<Rightarrow> None | Some active \<Rightarrow>
     (case parse ''inactivetimeout'' ''15s'' [] ''duration'' of None \<Rightarrow> None | Some inactive \<Rightarrow>
     (case parse ''method'' ''pcapgo'' [''pcapgo'', ''pcap'', ''pfring'', ''file''] ''option'' of None \<Rightarrow> None | Some method \<Rightarrow>
     (case (if method = ''file'' then parse ''source'' '''' [] ''rfile'' else parse ''source'' '''' [] ''iface'') of
        None \<Rightarrow> None | Some source \<Rightarrow>
        let filter = (if cgo \<and> cfg config ''filter'' \<noteq> [] then cfg config ''filter'' else []) in
        map_option (\<lambda>x. \<lparr>pk_Method = method, pk_Source = source, pk_Filter = filter, pk_ActiveTimeout = active,
            pk_InactiveTimeout = inactive, pk_exporter = x\<rparr>)
          (NewFlowExporter (ParseDuration active) (ParseDuration inactive))))))"

section \<open>The capture\<close>

datatype capture = EthernetHandle | PcapHandle | PfringHandle | PcapFile | NgReader

text \<open>
  The results of the calls that open a capture: the Ethernet handle; the three calls of libpcap
  (inactive handle, activation, filter) and the three of PF_RING (ring, filter, enabling); the file; the two
  calls of the reader of pcap files; and the error of the \<open>pcapng\<close> reader. \<open>env_pfring\<close> is \<open>None\<close> where
  \<open>getPfringHandle\<close> is nil, in binaries built without PF_RING.
\<close>

record capture_env =
  env_ethernet :: bool
  env_pcap :: "bool \<times> bool \<times> bool"
  env_pfring :: "(bool \<times> bool \<times> bool) option"
  env_open :: bool
  env_pcap_file :: "bool \<times> bool"
  env_ng_error :: "string option"

definition getPcapHandle :: "bool \<times> bool \<times> bool \<Rightarrow> capture outcome" where
  "getPcapHandle calls = (case calls of (inactive, activate, bpf) \<Rightarrow>
     if \<not> inactive then Inl (Fatal ''Packet: Could not setup libpcap capture: '')
     else if \<not> activate then Inl (Fatal ''Packet: Could not initiate capture: '')
     else if \<not> bpf then Inl (Fatal ''Packet: Could not set BPF filter: '')
     else Inr PcapHandle)"

definition getPcapFile :: "bool \<times> bool \<Rightarrow> capture outcome" where
  "getPcapFile calls = (case calls of (offline, bpf) \<Rightarrow>
     if \<not> offline then Inl (Fatal ''Packet: Could not setup pcap reader'')
     else if \<not> bpf then Inl (Fatal ''Packet: Could not set BPF filter'')
     else Inr PcapFile)"

definition getPfringHandle :: "bool \<times> bool \<times> bool \<Rightarrow> capture outcome" where
  "getPfringHandle calls = (case calls of (ring, bpf, enable) \<Rightarrow>
     if \<not> ring then Inl (Fatal ''Packet: Could not setup pfring capture: '')
     else if \<not> bpf then Inl (Fatal ''Packet: Could not set BPF filter: '')
     else if \<not> enable then Inl (Fatal ''Packet: Could not initiate capture: '')
     else Inr PfringHandle)"

definition open_capture :: "bool \<Rightarrow> capture_env \<Rightarrow> PacketSegment \<Rightarrow> capture outcome" where
  "open_capture cgo env seg =
     (if pk_Method seg = ''pcapgo''
      then (if env_ethernet env then Inr EthernetHandle else Inl (Fatal ''Packet: Could not initiate capture''))
      else if pk_Method seg = ''pcap''
      then (if \<not> cgo then Inl (Fatal ''Packet: CGO feature requested from binary compiled without CGO support.'')
            else getPcapHandle (env_pcap env))
      else if pk_Method seg = ''pfring''
      then (if \<not> cgo then Inl (Fatal ''Packet: CGO feature requested from binary compiled without CGO support.'')
            else case env_pfring env of
                   None \<Rightarrow> Inl (Panic ''invalid memory address or nil pointer dereference'')
                 | Some calls \<Rightarrow> getPfringHandle calls)
      else if \<not> env_open env then Inl (Fatal ''Packet: Could not open file'')
      else if pk_Filter seg \<noteq> [] \<and> cgo then getPcapFile (env_pcap_file env)
      else case env_ng_error env of
             None \<Rightarrow> Inr NgReader
           | Some e \<Rightarrow> if e = ''Unknown magic a1b2c3d4'' \<and> cgo then getPcapFile (env_pcap_file env)
                       else Inl (Fatal ''Packet: Could not read capture from file''))"

text \<open>
  The start of the exporter: for a file without addresses, otherwise with the first address of the
  interface that is not a loopback one; a nil interface is dereferenced.
\<close>

definition start_exporter :: "PacketSegment \<Rightarrow> ((bool \<times> u8 list) list \<times> u8 list) option \<Rightarrow> FlowExporter outcome" where
  "start_exporter seg iface =
     (if pk_Method seg = ''file'' then Exporter_Start None [] (pk_exporter seg)
      else case iface of
             None \<Rightarrow> Inl (Panic ''invalid memory address or nil pointer dereference'')
           | Some (addrs, hw) \<Rightarrow> Exporter_Start (sampler_of addrs) hw (pk_exporter seg))"

section \<open>The loop\<close>

text \<open>
  The source of the loop are the operations of the flow cache: packets that \<open>ConsumeFrom\<close> inserts
  and ticks. They return for every exporter that \<open>NewFlowExporter\<close> made. When the packets end,
  the process is told to shut down if they came from a file, and ended otherwise.
\<close>

definition packet_act :: "(EnrichedFlow \<Rightarrow> EnrichedFlow \<Rightarrow> EnrichedFlow) \<Rightarrow> op \<Rightarrow> FlowExporter \<Rightarrow> FlowExporter" where
  "packet_act mrg x f = (case apply_op mrg x f of Returns f' \<Rightarrow> f' | Blocks \<Rightarrow> f | Panics \<Rightarrow> f)"

definition Packet_Run ::
  "(EnrichedFlow \<Rightarrow> EnrichedFlow \<Rightarrow> EnrichedFlow) \<Rightarrow> (op, EnrichedFlow) source_event list \<Rightarrow> FlowExporter \<Rightarrow>
   EnrichedFlow list \<times> FlowExporter \<times> bool" where
  "Packet_Run mrg es f = source_run (packet_act mrg) sent es f"

definition packets_ended :: "PacketSegment \<Rightarrow> unit outcome" where
  "packets_ended seg =
     (if pk_Method seg = ''file'' then Inr () else Inl (Fatal ''Packet: The packet stream has ended for an unknown reason.''))"


section \<open>What the configuration guarantees\<close>

lemma parseOption_types:
  "parseOption pd st ib config \<lparr>opt_Name = n, opt_Default = d, opt_Options = os, opt_Type = ''duration''\<rparr> =
     Some (if pd (cfg config n) = None then d else cfg config n)"
  "d \<noteq> [] \<Longrightarrow> parseOption pd st ib config \<lparr>opt_Name = n, opt_Default = d, opt_Options = os, opt_Type = ''option''\<rparr> = Some v \<Longrightarrow>
     v \<in> set (d # os)"
  "parseOption pd st ib config \<lparr>opt_Name = n, opt_Default = [], opt_Options = os, opt_Type = ''rfile''\<rparr> = Some v \<Longrightarrow>
     v = cfg config n \<and> st v"
  "parseOption pd st ib config \<lparr>opt_Name = n, opt_Default = [], opt_Options = os, opt_Type = ''iface''\<rparr> = Some v \<Longrightarrow>
     v = cfg config n \<and> ib v"
  by (auto simp: parseOption_def Let_def split: if_splits)

lemma packet_accepted:
  assumes "Packet_New cgo ParseDuration Stat InterfaceByName config = Some seg"
  shows "pk_Method seg \<in> {''pcapgo'', ''pcap'', ''pfring'', ''file''}
    \<and> (if pk_Method seg = ''file'' then Stat (pk_Source seg) else InterfaceByName (pk_Source seg))
    \<and> pk_Source seg = cfg config ''source''
    \<and> ParseDuration (pk_ActiveTimeout seg) = Some (activeTimeout (pk_exporter seg))
    \<and> ParseDuration (pk_InactiveTimeout seg) = Some (inactiveTimeout (pk_exporter seg))
    \<and> (pk_Filter seg \<noteq> [] \<longrightarrow> cgo \<and> pk_Filter seg = cfg config ''filter'')"
proof -
  let ?p = "\<lambda>n d os t. parseOption ParseDuration Stat InterfaceByName config
      \<lparr>opt_Name = n, opt_Default = d, opt_Options = os, opt_Type = t\<rparr>"
  obtain active inactive meth src x where
    m: "?p ''method'' ''pcapgo'' [''pcapgo'', ''pcap'', ''pfring'', ''file''] ''option'' = Some meth"
    and s: "(if meth = ''file'' then ?p ''source'' [] [] ''rfile'' else ?p ''source'' [] [] ''iface'') = Some src"
    and x: "NewFlowExporter (ParseDuration active) (ParseDuration inactive) = Some x"
    and seg: "seg = \<lparr>pk_Method = meth, pk_Source = src,
        pk_Filter = (if cgo \<and> cfg config ''filter'' \<noteq> [] then cfg config ''filter'' else []),
        pk_ActiveTimeout = active, pk_InactiveTimeout = inactive, pk_exporter = x\<rparr>"
    using assms unfolding Packet_New_def Let_def by (auto split: option.splits)
  have "meth \<in> {''pcapgo'', ''pcap'', ''pfring'', ''file''}" using parseOption_types(2) [OF _ m] by auto
  moreover have "src = cfg config ''source'' \<and> (if meth = ''file'' then Stat src else InterfaceByName src)"
  proof (cases "meth = ''file''")
    case True
    then show ?thesis using s parseOption_types(3) [of ParseDuration Stat InterfaceByName config "''source''" "[]" src] by auto
  next
    case False
    then show ?thesis using s parseOption_types(4) [of ParseDuration Stat InterfaceByName config "''source''" "[]" src] by auto
  qed
  moreover have "ParseDuration active = Some (activeTimeout x)" "ParseDuration inactive = Some (inactiveTimeout x)"
    using x by (auto simp: NewFlowExporter_def split: option.splits)
  ultimately show ?thesis unfolding seg by auto
qed

lemmas packet_methods = packet_accepted [THEN conjunct1]

text \<open>
  A segment that \<open>New\<close> accepts has one of the four methods, a source that exists (a file for the method
  \<open>file\<close>, an interface for the others), timeouts that can be parsed, given or default, and a filter only
  in binaries with CGO. An unknown method, or a missing source, is refused.
\<close>

theorem packet_settings:
  assumes "Packet_New cgo ParseDuration Stat InterfaceByName config = Some seg"
  shows "pk_Method seg \<in> {''pcapgo'', ''pcap'', ''pfring'', ''file''}
    \<and> (if pk_Method seg = ''file'' then Stat (pk_Source seg) else InterfaceByName (pk_Source seg))
    \<and> pk_Source seg = cfg config ''source''
    \<and> ParseDuration (pk_ActiveTimeout seg) = Some (activeTimeout (pk_exporter seg))
    \<and> ParseDuration (pk_InactiveTimeout seg) = Some (inactiveTimeout (pk_exporter seg))
    \<and> (pk_Filter seg \<noteq> [] \<longrightarrow> cgo \<and> pk_Filter seg = cfg config ''filter'')"
  by (rule packet_accepted [OF assms])

text \<open>
  Which captures can be opened: without CGO only interfaces with \<open>pcapgo\<close> and files that the
  \<open>pcapng\<close> reader accepts; PF_RING never, in a binary built without it: there the method panics.
\<close>

theorem packet_capture:
  assumes "Packet_New cgo ParseDuration Stat InterfaceByName config = Some seg"
    and "open_capture cgo env seg = Inr h"
  shows "(pk_Method seg = ''pcapgo'' \<longleftrightarrow> h = EthernetHandle) \<and> (pk_Method seg = ''pcap'' \<longleftrightarrow> h = PcapHandle)
    \<and> (pk_Method seg = ''pfring'' \<longleftrightarrow> h = PfringHandle) \<and> (pk_Method seg = ''file'' \<longleftrightarrow> h \<in> {NgReader, PcapFile})
    \<and> (\<not> cgo \<longrightarrow> h \<in> {EthernetHandle, NgReader}) \<and> (h = PfringHandle \<longrightarrow> env_pfring env = Some (True, True, True))"
  using packet_methods [OF assms(1)] assms(2)
  by (auto simp: open_capture_def getPcapHandle_def getPcapFile_def getPfringHandle_def split: if_splits option.splits prod.splits)

section \<open>The flows of a capture\<close>

lemma insert_body_sends: "prefix (sent f) (sent (insert_body mrg p f))"
  unfolding insert_body_def by (rule fc.insert_sends)

lemma export_due_sends: "prefix (sent f) (sent (export_due mrg due keys f))"
  unfolding export_due_where by (rule fc.export_where_sends)

lemma apply_op_sends: "apply_op mrg x f = Returns f' \<Longrightarrow> prefix (sent f) (sent f')"
  using insert_body_sends export_due_sends
  by (cases x) (auto simp: Insert_def exportInactive_def exportActive_def with_lock_def split: option.splits bool.splits)

lemma packet_act_sends: "prefix (sent f) (sent (packet_act mrg x f))"
  using apply_op_sends by (auto simp: packet_act_def split: progress.split)

lemma run_ops_fold: "run_ops mrg xs f = Returns f' \<Longrightarrow> fold (packet_act mrg) xs f = f'"
  by (induction xs arbitrary: f) (auto simp: packet_act_def split: progress.splits)

text \<open>
  While the input is open, \<open>packet\<close> sends on the flows of the segment before it in order, and between
  them the flows of the cache. These are built from the captured packets, and for every flow key the
  packets of the exported records followed by those still cached are the captured ones.
\<close>

theorem packet_conserves:
  assumes "Packet_New cgo ParseDuration Stat InterfaceByName config = Some seg" "start_exporter seg iface = Inr f0"
    and "InClosed \<notin> set es"
  shows "\<exists>out f rs. Packet_Run mrg es f0 = (out, f, False) \<and> run_ops mrg (sources es) f0 = Returns f
    \<and> out \<in> shuffles (from_in es) (map (BuildFlow mrg) rs) \<and> (\<forall>r\<in>set rs. wf_rec r)
    \<and> (\<forall>k. packets_of k rs @ cached f k = filter (\<lambda>p. NewFlowKey p = k) (inserted (sources es)))"
proof -
  obtain a i where new: "NewFlowExporter a i = Some (pk_exporter seg)"
    using assms(1) by (auto simp: Packet_New_def Let_def split: option.splits)
  obtain sampler hw where "Exporter_Start sampler hw (pk_exporter seg) = Inr f0"
    using assms(2) by (auto simp: start_exporter_def split: if_splits option.splits)
  then have acc: "accounted mrg [] [] f0" by (rule start_accounted [OF new])
  obtain f rs where run: "run_ops mrg (sources es) f0 = Returns f" "accounted mrg rs (inserted (sources es)) f"
    using run_ops_accounted [OF acc, of "sources es"] by auto
  obtain out where "source_run (packet_act mrg) sent es f0 = (out, f, False)" "out \<in> shuffles (from_in es) (sent f)"
    using source_run_open [where act = "packet_act mrg" and sent = sent and es = es and s = f0, OF packet_act_sends assms(3)]
      run_ops_fold [OF run(1)] acc by (auto simp: accounted_view)
  then show ?thesis using run by (auto simp: Packet_Run_def accounted_view)
qed

lemma insert_no_fin:
  assumes "mutex f = Some False" "\<not> is_fin p"
  shows "mutex (packet_act mrg (OpInsert p) f) = Some False \<and> sent (packet_act mrg (OpInsert p) f) = sent f"
  using assms by (simp add: packet_act_def Insert_def with_lock_def insert_body_def store_packet_def Let_def)

text \<open>
  What is in the cache when the input is closed is lost. A file of packets without a TCP FIN that is
  read before the first tick of a timer yields no flow at all.
\<close>

theorem packet_file_yields_nothing:
  assumes "mutex f = Some False" "\<forall>p\<in>set ps. \<not> is_fin p"
  shows "\<exists>f'. Packet_Run mrg (map (\<lambda>p. Source (OpInsert p)) ps @ [InClosed]) f = ([], f', True)"
  using assms
proof (induction ps arbitrary: f)
  case (Cons p ps)
  have "mutex (packet_act mrg (OpInsert p) f) = Some False" "sent (packet_act mrg (OpInsert p) f) = sent f"
    using insert_no_fin Cons.prems by auto
  moreover from this(1) obtain f' where "Packet_Run mrg (map (\<lambda>p. Source (OpInsert p)) ps @ [InClosed]) (packet_act mrg (OpInsert p) f) = ([], f', True)"
    using Cons by auto
  ultimately show ?case by (simp add: Packet_Run_def)
qed (simp add: Packet_Run_def)


section \<open>An example\<close>

lemma demo_packet_segment:
  obtains seg where "Packet_New False demo_durations (\<lambda>_. True) (\<lambda>_. True) [''method'' \<mapsto> ''file'', ''source'' \<mapsto> ''f''] = Some seg"
    "pk_Method seg = ''file''" "pk_exporter seg = the (NewFlowExporter (Some (1800 * 10 ^ 9)) (Some (15 * 10 ^ 9)))"
  by (simp add: Packet_New_def parseOption_def demo_durations_def cfg_def Let_def NewFlowExporter_def)

theorem packet_settings_witness:
  "\<exists>seg. Packet_New False demo_durations (\<lambda>_. True) (\<lambda>_. True) [''method'' \<mapsto> ''file'', ''source'' \<mapsto> ''f''] = Some seg
     \<and> pk_Source seg = ''f''"
proof -
  obtain seg where seg: "Packet_New False demo_durations (\<lambda>_. True) (\<lambda>_. True) [''method'' \<mapsto> ''file'', ''source'' \<mapsto> ''f''] = Some seg"
    by (rule demo_packet_segment)
  then show ?thesis using packet_settings [OF seg] by (simp add: cfg_def)
qed

theorem packet_capture_witness:
  "\<exists>seg. pk_Method seg = ''file'' \<and> open_capture False
     \<lparr>env_ethernet = True, env_pcap = (True, True, True), env_pfring = None, env_open = True, env_pcap_file = (True, True), env_ng_error = None\<rparr> seg = Inr NgReader"
proof -
  let ?env = "\<lparr>env_ethernet = True, env_pcap = (True, True, True), env_pfring = None, env_open = True, env_pcap_file = (True, True), env_ng_error = None\<rparr>"
  obtain seg where seg: "Packet_New False demo_durations (\<lambda>_. True) (\<lambda>_. True) [''method'' \<mapsto> ''file'', ''source'' \<mapsto> ''f''] = Some seg"
    "pk_Method seg = ''file''" by (rule demo_packet_segment)
  then have h: "open_capture False ?env seg = Inr NgReader" by (simp add: open_capture_def)
  then show ?thesis using packet_capture [OF seg(1) h] by blast
qed

theorem packet_conserves_witness:
  "\<exists>out f rs f0. Packet_Run (\<lambda>m _. m) [Source (OpInsert demo_packet), FromIn zero_flow] f0 = (out, f, False)
     \<and> out \<in> shuffles [zero_flow] (map (BuildFlow (\<lambda>m _. m)) rs)
     \<and> packets_of (NewFlowKey demo_packet) rs @ cached f (NewFlowKey demo_packet) = [demo_packet]"
proof -
  let ?es = "[Source (OpInsert demo_packet), FromIn zero_flow]"
  obtain seg where seg: "Packet_New False demo_durations (\<lambda>_. True) (\<lambda>_. True) [''method'' \<mapsto> ''file'', ''source'' \<mapsto> ''f''] = Some seg"
    "pk_Method seg = ''file''" "pk_exporter seg = the (NewFlowExporter (Some (1800 * 10 ^ 9)) (Some (15 * 10 ^ 9)))"
    by (rule demo_packet_segment)
  then obtain f0 where "start_exporter seg None = Inr f0"
    by (simp add: start_exporter_def NewFlowExporter_def Exporter_Start_def)
  from packet_conserves [OF seg(1) this, of ?es "\<lambda>m _. m"] obtain out f rs
    where run: "Packet_Run (\<lambda>m _. m) ?es f0 = (out, f, False)" "out \<in> shuffles (from_in ?es) (map (BuildFlow (\<lambda>m _. m)) rs)"
      "packets_of (NewFlowKey demo_packet) rs @ cached f (NewFlowKey demo_packet)
        = filter (\<lambda>p. NewFlowKey p = NewFlowKey demo_packet) (inserted (sources ?es))" by auto
  then show ?thesis by (auto simp: inserted_def map_filter_simps)
qed

theorem packet_file_yields_nothing_witness:
  "\<exists>f'. Packet_Run (\<lambda>m _. m) [Source (OpInsert demo_packet), InClosed] (the (NewFlowExporter (Some 1) (Some 1))) = ([], f', True)"
  using packet_file_yields_nothing [of "the (NewFlowExporter (Some 1) (Some 1))" "[demo_packet]" "\<lambda>m _. m"]
  by (simp add: NewFlowExporter_def is_fin_def demo_packet_def map_filter_simps)

end
