(* ===== verification/Inputs.thy ===== *)
theory Inputs
  imports Sources TextOutputs
begin

text \<open>
  The inputs \<open>stdin\<close>, \<open>goflow\<close> and \<open>generator\<close>, and a round trip from \<open>json\<close> through a file to \<open>stdin\<close>.
  \<open>protojson\<close>, the URL parser and the receivers of goflow are parameters.
\<close>

section \<open>stdin\<close>

record StdIn =
  si_FileName :: string
  EofCloses :: bool

definition StdIn_New :: "(string \<Rightarrow> bool) \<Rightarrow> config_map \<Rightarrow> StdIn option" where
  "StdIn_New can_open config =
     (if cfg config ''filename'' \<noteq> []
      then (if can_open (cfg config ''filename'')
            then Some \<lparr>si_FileName = cfg config ''filename'', EofCloses = bool_option False (cfg config ''eofcloses'')\<rparr>
            else None)
      else Some \<lparr>si_FileName = ''stdout'', EofCloses = False\<rparr>)"

text \<open>
  The goroutine that reads lines. A round sees the result of \<open>Scan\<close> with \<open>Err\<close> and \<open>Text\<close>: a line, the
  end of the file, or an error.
\<close>

datatype scan = ScanLine string | ScanEnd | ScanError
datatype read_round = HandOver string | Again | Shutdown

fun reader_round :: "bool \<Rightarrow> scan \<Rightarrow> read_round" where
  "reader_round eofcloses ScanError = Again"
| "reader_round eofcloses ScanEnd = (if eofcloses then Shutdown else Again)"
| "reader_round eofcloses (ScanLine text) = (if text = [] then Again else HandOver text)"

text \<open>The lines handed over, and whether the goroutine has returned.\<close>

fun stdin_reader :: "bool \<Rightarrow> scan list \<Rightarrow> string list \<times> bool" where
  "stdin_reader eofcloses [] = ([], False)"
| "stdin_reader eofcloses (sc # scs) =
     (case reader_round eofcloses sc of
        Again \<Rightarrow> stdin_reader eofcloses scs
      | Shutdown \<Rightarrow> ([], True)
      | HandOver line \<Rightarrow> (let (ls, ended) = stdin_reader eofcloses scs in (line # ls, ended)))"

text \<open>
  \<open>bufio.Scanner\<close> on a text: the lines without their newline and a carriage return before it. A line
  that does not fit into the buffer of 65536 bytes with its newline is an error, and so is every
  further call; after the last line every call reports the end.
\<close>

definition raw_lines :: "string \<Rightarrow> string list" where
  "raw_lines text = (let ls = split_on (CHR 0x0A) text in if last ls = [] then butlast ls else ls)"

definition drop_cr :: "string \<Rightarrow> string" where
  "drop_cr l = (if l \<noteq> [] \<and> last l = CHR 0x0D then butlast l else l)"

definition fits :: "string \<Rightarrow> bool" where
  "fits l \<longleftrightarrow> length l < 65536"

definition scans :: "string \<Rightarrow> nat \<Rightarrow> scan list" where
  "scans text n =
     (let ls = raw_lines text; ok = takeWhile fits ls
      in take n (map (\<lambda>l. ScanLine (drop_cr l)) ok)
         @ replicate (n - length ok) (if ok = ls then ScanEnd else ScanError))"

text \<open>The loop: a line that is not a flow is skipped.\<close>

definition stdin_act :: "(string \<Rightarrow> 'm option) \<Rightarrow> string \<Rightarrow> 'm list \<Rightarrow> 'm list" where
  "stdin_act unmarshal line s = (case unmarshal line of Some msg \<Rightarrow> s @ [msg] | None \<Rightarrow> s)"

definition StdIn_Run :: "(string \<Rightarrow> 'm option) \<Rightarrow> (string, 'm) source_event list \<Rightarrow> 'm list \<times> 'm list \<times> bool" where
  "StdIn_Run unmarshal es = source_run (stdin_act unmarshal) id es []"

lemma stdin_act_sends: "prefix (id s) (id (stdin_act unmarshal l s))"
  by (simp add: stdin_act_def split: option.split)

lemma stdin_act_fold: "fold (stdin_act unmarshal) ls s = s @ List.map_filter unmarshal ls"
  by (induction ls arbitrary: s) (auto simp: stdin_act_def map_filter_simps split: option.split)

lemma reader_lines:
  "stdin_reader eofcloses (map ScanLine ls @ scs) =
     (let (rest, ended) = stdin_reader eofcloses scs in (filter (\<lambda>l. l \<noteq> []) ls @ rest, ended))"
  by (induction ls) (auto simp: case_prod_unfold Let_def)

lemma reader_idle:
  "stdin_reader eofcloses (replicate k sc) = ([], k \<noteq> 0 \<and> sc = ScanEnd \<and> eofcloses)" if "\<And>l. sc \<noteq> ScanLine l"
  using that by (induction k) (cases sc; auto)+

lemma reader_of_scans:
  "stdin_reader eofcloses (scans text n) =
     (filter (\<lambda>l. l \<noteq> []) (take n (map drop_cr (takeWhile fits (raw_lines text)))),
      length (raw_lines text) < n \<and> eofcloses \<and> takeWhile fits (raw_lines text) = raw_lines text)"
proof -
  define ok where "ok = takeWhile fits (raw_lines text)"
  have "take n (map (\<lambda>l. ScanLine (drop_cr l)) ok) = map ScanLine (take n (map drop_cr ok))"
    by (simp add: take_map comp_def)
  moreover have "n - length ok \<noteq> 0 \<and> ok = raw_lines text \<longleftrightarrow> length (raw_lines text) < n \<and> ok = raw_lines text" by auto
  ultimately show ?thesis
    unfolding scans_def Let_def ok_def [symmetric] by (auto simp: reader_lines reader_idle Let_def)
qed

text \<open>
  The goroutine returns only at the end of a file with the option \<open>eofcloses\<close> and without a line of
  64 kB or more. In all other cases it runs for ever, at the end of the input as well as at a line
  that is too long, each time without waiting.
\<close>

theorem stdin_reader_returns:
  "(\<exists>n. snd (stdin_reader eofcloses (scans text n))) \<longleftrightarrow> eofcloses \<and> (\<forall>l\<in>set (raw_lines text). length l < 65536)"
proof -
  have "takeWhile fits (raw_lines text) = raw_lines text \<longleftrightarrow> (\<forall>l\<in>set (raw_lines text). fits l)"
    by (metis set_takeWhileD takeWhile_eq_all_conv)
  then show ?thesis by (auto simp: reader_of_scans fits_def)
qed


section \<open>From json to stdin\<close>

text \<open>
  What is relied on of \<open>protojson\<close>: a flow encoded on one line is a text without a line break that does
  not end in a carriage return, is not empty, and is decoded to the flow.
\<close>

definition line_codec :: "(bool \<Rightarrow> 'm \<Rightarrow> string option) \<Rightarrow> (string \<Rightarrow> 'm option) \<Rightarrow> bool" where
  "line_codec marshal unmarshal \<longleftrightarrow>
     (\<forall>m t. marshal False m = Some t \<longrightarrow> CHR 0x0A \<notin> set t \<and> t \<noteq> [] \<and> last t \<noteq> CHR 0x0D \<and> unmarshal t = Some m)"

text \<open>
  The file a \<open>json\<close> segment writes: each text with the newline of \<open>Fprintln\<close>, through the encoder \<open>zstd\<close>
  where it is configured.
\<close>

definition json_file :: "(string \<Rightarrow> string) \<Rightarrow> Json \<Rightarrow> string" where
  "json_file zstd s =
     (let text = concat (map (\<lambda>t. t @ [CHR 0x0A]) (js_text s)) in if js_compressed s then zstd text else text)"

lemma split_lines: "\<forall>t\<in>set ts. c \<notin> set t \<Longrightarrow> split_on c (concat (map (\<lambda>t. t @ [c]) ts)) = ts @ [[]]"
  by (induction ts) (simp_all add: split_on_append)

lemma map_filter_decoded:
  assumes "\<forall>m\<in>set ms. \<forall>t. enc m = Some t \<longrightarrow> dec_t t = Some m"
  shows "List.map_filter dec_t (List.map_filter enc ms) = filter (\<lambda>m. enc m \<noteq> None) ms"
  using assms
proof (induction ms)
  case (Cons m ms)
  then show ?case by (cases "enc m") (simp_all add: map_filter_simps)
qed (simp add: map_filter_simps)

text \<open>
  C11. Two pipelines joined by a file: what a \<open>json\<close> segment without the options \<open>pretty\<close> and \<open>zstd\<close> wrote, a
  \<open>stdin\<close> segment with \<open>eofcloses\<close> reads back. For enough rounds of its reader the goroutine has returned, and
  the lines it handed over give exactly the flows that could be encoded, in their order, provided
  each line is shorter than 64 kB.
\<close>

theorem json_then_stdin:
  assumes "line_codec marshal unmarshal" "Json_New create config = Some s" "cfg config ''pretty'' = []" "cfg config ''zstd'' = []"
    and "\<forall>t. write_ok t" "run_loop (Json_step marshal write_ok) s ms = Inr (es, s')"
    and "\<forall>m\<in>set ms. \<forall>t. marshal False m = Some t \<longrightarrow> length t < 65536"
    and "length ms < n"
  shows "\<exists>lines. stdin_reader True (scans (json_file zstd s') n) = (lines, True)
    \<and> StdIn_Run unmarshal (map Source lines) = (outs es, outs es, False)
    \<and> outs es = filter (\<lambda>m. marshal False m \<noteq> None) ms"
proof -
  let ?ts = "List.map_filter (marshal False) ms"
  have s: "\<not> Pretty s" "js_text s = []" "\<not> js_compressed s"
    using assms(2-4) by (auto simp: Json_New_def parse_bool_def split: option.splits)
  have run: "outs es = filter (\<lambda>m. marshal False m \<noteq> None) ms" "js_text s' = ?ts" "\<not> js_compressed s'"
    using json_run [of ms marshal s write_ok] assms(5,6) s by auto
  have "\<exists>m\<in>set ms. marshal False m = Some t" if "t \<in> set ?ts" for t using that by (auto simp: map_filter_def)
  then have ts: "CHR 0x0A \<notin> set t \<and> t \<noteq> [] \<and> last t \<noteq> CHR 0x0D \<and> length t < 65536" if "t \<in> set ?ts" for t
    using that assms(1,7) unfolding line_codec_def by blast
  have "json_file zstd s' = concat (map (\<lambda>t. t @ [CHR 0x0A]) ?ts)" using run(2,3) by (simp add: json_file_def)
  then have raw: "raw_lines (json_file zstd s') = ?ts"
    unfolding raw_lines_def using ts by (simp only:) (subst split_lines, auto simp: Let_def)
  have fit: "takeWhile fits ?ts = ?ts" using ts by (simp add: takeWhile_eq_all_conv fits_def)
  have len: "length ?ts < n" using assms(8) by (simp add: map_filter_def) (meson le_less_trans length_filter_le)
  have "map drop_cr ?ts = ?ts" using ts by (intro map_idI) (simp add: drop_cr_def)
  moreover have "filter (\<lambda>l. l \<noteq> []) ?ts = ?ts" using ts by (simp add: filter_id_conv)
  ultimately have reader: "stdin_reader True (scans (json_file zstd s') n) = (?ts, True)"
    using len by (simp add: reader_of_scans raw fit)
  have "List.map_filter unmarshal ?ts = outs es"
    unfolding run(1) using assms(1) by (intro map_filter_decoded) (auto simp: line_codec_def)
  then have "fold (stdin_act unmarshal) ?ts [] = outs es" by (simp add: stdin_act_fold)
  with source_run_open [where act = "stdin_act unmarshal" and sent = id and es = "map Source ?ts" and s = "[]", OF stdin_act_sends]
  have "StdIn_Run unmarshal (map Source ?ts) = (outs es, outs es, False)" by (auto simp: StdIn_Run_def)
  with reader run(1) show ?thesis by blast
qed


theorem json_then_stdin_witness:
  "\<exists>lines. stdin_reader True (scans ''{}\<newline>'' 2) = (lines, True) \<and> lines = [''{}'']"
proof -
  let ?s = "\<lparr>Pretty = False, js_compressed = False, js_text = []\<rparr>"
  have codec: "line_codec demo_marshal (\<lambda>t. if t = ''{}'' then Some True else None)"
    by (auto simp: line_codec_def demo_marshal_def split: if_splits)
  have run: "run_loop (Json_step demo_marshal (\<lambda>_. True)) ?s [True] = Inr ([Out True], ?s\<lparr>js_text := [''{}'']\<rparr>)"
    by (simp add: Json_step_def demo_marshal_def)
  have new: "Json_New (\<lambda>_. True) Map.empty = Some ?s"
    by (simp add: Json_New_def GetOutput_def cfg_def parse_bool_def)
  obtain ls where ls: "stdin_reader True (scans (json_file id (?s\<lparr>js_text := [''{}'']\<rparr>)) 2) = (ls, True)"
    "StdIn_Run (\<lambda>t. if t = ''{}'' then Some True else None) (map Source ls) = ([True], [True], False)"
    using json_then_stdin [OF codec new _ _ _ run, of 2 id] by (auto simp: demo_marshal_def cfg_def)
  moreover have "json_file id (?s\<lparr>js_text := [''{}'']\<rparr>) = ''{}\<newline>''" by (simp add: json_file_def)
  moreover have "fst (stdin_reader True (scans ''{}\<newline>'' 2)) = [''{}'']"
    by (simp add: reader_of_scans raw_lines_def fits_def drop_cr_def Let_def)
  ultimately show ?thesis by simp
qed

section \<open>goflow\<close>

text \<open>Of a URL the code uses the scheme, the host name and the port.\<close>

record listen_url =
  lu_Scheme :: string
  lu_Hostname :: string
  lu_Port :: string

record Goflow =
  Listen :: "listen_url list"
  Workers :: u64
  NumSockets :: int
  QueueSize :: int
  Blocking :: bool

fun parse_listen :: "(string \<Rightarrow> listen_url option) \<Rightarrow> string list \<Rightarrow> listen_url list option" where
  "parse_listen url_Parse [] = Some []"
| "parse_listen url_Parse (a # as) =
     (case url_Parse a of None \<Rightarrow> None | Some u \<Rightarrow>
        if parse_uint 64 (lu_Port u) = None then None
        else if lu_Scheme u \<notin> {''netflow'', ''sflow'', ''nfl''} then None
        else map_option (Cons u) (parse_listen url_Parse as))"

definition Goflow_New :: "(string \<Rightarrow> listen_url option) \<Rightarrow> config_map \<Rightarrow> Goflow option" where
  "Goflow_New url_Parse config =
     (let listen = (if cfg config ''listen'' \<noteq> [] then cfg config ''listen'' else ''sflow://:6343,netflow://:2055'') in
      case parse_listen url_Parse (split_on (CHR '','') listen) of None \<Rightarrow> None | Some us \<Rightarrow>
        (case parse_uint 32 (cfg config ''workers'') of
           Some n \<Rightarrow> if n = 0 then None else Some \<lparr>Listen = us, Workers = of_nat n, NumSockets = 0, QueueSize = 0, Blocking = False\<rparr>
         | None \<Rightarrow> Some \<lparr>Listen = us, Workers = 1, NumSockets = 0, QueueSize = 0, Blocking = False\<rparr>))"

text \<open>
  The settings of a receiver. The sockets and the size of the queue have no option: \<open>New\<close> leaves
  them zero, and the first listener fills in the defaults.
\<close>

record UDPReceiverConfig =
  udp_Sockets :: int
  udp_Workers :: int
  udp_QueueSize :: int
  udp_Blocking :: bool

definition fill_defaults :: "Goflow \<Rightarrow> Goflow" where
  "fill_defaults g =
     (let g = (if NumSockets g = 0 then g\<lparr>NumSockets := 1\<rparr> else g)
      in if QueueSize g = 0 then g\<lparr>QueueSize := 1000000\<rparr> else g)"

definition receiver_config :: "Goflow \<Rightarrow> UDPReceiverConfig" where
  "receiver_config g =
     (let g = fill_defaults g
      in \<lparr>udp_Sockets = NumSockets g, udp_Workers = sint (Workers g), udp_QueueSize = QueueSize g, udp_Blocking = Blocking g\<rparr>)"

text \<open>
  \<open>startGoFlow\<close> for one address: \<open>setup\<close> says whether receiver and producer can be created, \<open>recv\<close>
  whether the receiver can listen on a host and port.
\<close>

definition start_listener :: "bool \<Rightarrow> (string \<Rightarrow> nat \<Rightarrow> bool) \<Rightarrow> listen_url \<Rightarrow> unit outcome" where
  "start_listener setup recv u =
     (let port = (case parse_uint 64 (lu_Port u) of Some n \<Rightarrow> n | None \<Rightarrow> 0) in
      if port > 2 ^ 63 - 1 then Inl (Fatal ''Goflow: Port out of range'')
      else if \<not> setup then Inl (Fatal ''Goflow: Failed creating UDP receiver'')
      else if lu_Scheme u \<notin> {''netflow'', ''sflow'', ''flow''} then Inl (Fatal (''Goflow: scheme does not exist: '' @ lu_Scheme u))
      else if \<not> recv (lu_Hostname u) port then Inl (Fatal ''Goflow: Failed starting goflow receiver'')
      else Inr ())"

lemma parse_listen_ok:
  "parse_listen url_Parse as = Some us \<Longrightarrow> u \<in> set us \<Longrightarrow>
     (\<exists>n. parse_uint 64 (lu_Port u) = Some n) \<and> lu_Scheme u \<in> {''netflow'', ''sflow'', ''nfl''}"
  by (induction as arbitrary: us) (auto split: option.splits if_splits)

text \<open>
  The scheme \<open>nfl\<close> of the documentation is accepted by \<open>New\<close>, but ends the process at the start, where
  the legacy format is called \<open>flow\<close>. An accepted address listens exactly when its scheme is one of the
  two others, its port is below \<open>2^63\<close> and the receiver can be started.
\<close>

theorem goflow_starts:
  assumes "Goflow_New url_Parse config = Some g" "u \<in> set (Listen g)"
  shows "start_listener True recv u = Inr () \<longleftrightarrow>
    lu_Scheme u \<noteq> ''nfl'' \<and> (\<exists>n < 2 ^ 63. parse_uint 64 (lu_Port u) = Some n \<and> recv (lu_Hostname u) n)"
proof -
  obtain us where "parse_listen url_Parse (split_on (CHR '','') (if cfg config ''listen'' \<noteq> [] then cfg config ''listen''
      else ''sflow://:6343,netflow://:2055'')) = Some us" "u \<in> set us"
    using assms by (auto simp: Goflow_New_def Let_def split: option.splits if_splits)
  from parse_listen_ok [OF this] obtain n where n: "parse_uint 64 (lu_Port u) = Some n"
    "lu_Scheme u \<in> {''netflow'', ''sflow'', ''nfl''}" by blast
  have "n > 2 ^ 63 - 1 \<longleftrightarrow> \<not> n < 2 ^ 63" by auto
  with n show ?thesis by (auto simp: start_listener_def Let_def)
qed

text \<open>
  Every listener of a configuration gets the same settings, whether it is the first or a later one:
  one socket, a queue of a million packets, not blocking, and between 1 and \<open>2^32 - 1\<close> workers, 1 where the option
  is missing or cannot be read.
\<close>

theorem goflow_receivers:
  assumes "Goflow_New url_Parse config = Some g"
  shows "receiver_config (fill_defaults g) = receiver_config g
    \<and> receiver_config g = \<lparr>udp_Sockets = 1, udp_Workers = (case parse_uint 32 (cfg config ''workers'') of Some n \<Rightarrow> int n | None \<Rightarrow> 1),
        udp_QueueSize = 1000000, udp_Blocking = False\<rparr>
    \<and> 1 \<le> udp_Workers (receiver_config g) \<and> udp_Workers (receiver_config g) < 2 ^ 32"
proof -
  have s: "sint (of_nat n :: u64) = int n" if "n < 2 ^ 32" for n
    using that by (simp add: signed_of_nat signed_take_bit_int_eq_self)
  show ?thesis
  proof (cases "parse_uint 32 (cfg config ''workers'')")
    case None
    then show ?thesis using assms by (auto simp: Goflow_New_def Let_def receiver_config_def fill_defaults_def split: option.splits)
  next
    case (Some n)
    then have n: "n < 2 ^ 32" by (rule parse_uint_bound)
    with Some show ?thesis using assms s [OF n]
      by (auto simp: Goflow_New_def Let_def receiver_config_def fill_defaults_def split: option.splits if_splits)
  qed
qed

text \<open>
  The loop. A message is a pointer, \<open>None\<close> the nil pointer. \<open>channelDriver.Send\<close> decodes what goflow
  hands over and skips what cannot be decoded; after \<open>Close\<close> the loop receives nil once, sends it on,
  and then leaves the channel alone.
\<close>

datatype 'b goflow_event = GSend 'b | GClose

record 'm goflow_state =
  gf_open :: bool
  gf_sent :: "'m option list"

fun goflow_act :: "('b \<Rightarrow> 'm option) \<Rightarrow> 'b goflow_event \<Rightarrow> 'm goflow_state \<Rightarrow> 'm goflow_state" where
  "goflow_act unmarshal (GSend data) s =
     (if gf_open s then (case unmarshal data of Some m \<Rightarrow> s\<lparr>gf_sent := gf_sent s @ [Some m]\<rparr> | None \<Rightarrow> s) else s)"
| "goflow_act unmarshal GClose s =
     (if gf_open s then s\<lparr>gf_open := False, gf_sent := gf_sent s @ [None]\<rparr> else s)"

definition Goflow_Run ::
  "('b \<Rightarrow> 'm option) \<Rightarrow> ('b goflow_event, 'm option) source_event list \<Rightarrow> 'm option list \<times> 'm goflow_state \<times> bool" where
  "Goflow_Run unmarshal es = source_run (goflow_act unmarshal) gf_sent es \<lparr>gf_open = True, gf_sent = []\<rparr>"

definition received :: "'b goflow_event list \<Rightarrow> 'b list" where
  "received xs = List.map_filter (\<lambda>x. case x of GSend b \<Rightarrow> Some b | GClose \<Rightarrow> None) (takeWhile (\<lambda>x. x \<noteq> GClose) xs)"

lemma goflow_act_sends: "prefix (gf_sent s) (gf_sent (goflow_act unmarshal x s))"
  by (cases x) (auto split: option.split)

lemma goflow_act_fold:
  "gf_sent (fold (goflow_act unmarshal) xs s) = gf_sent s @ (if gf_open s
     then map Some (List.map_filter unmarshal (received xs)) @ (if GClose \<in> set xs then [None] else []) else [])"
proof (induction xs arbitrary: s)
  case (Cons x xs)
  then show ?case by (cases x) (auto simp: received_def map_filter_simps split: option.split)
qed (simp add: received_def map_filter_simps)

text \<open>
  While its input is open, \<open>goflow\<close> sends on the flows of its input and the decoded flows of the
  collector, each in order. When the collector closes its transport, it sends one nil message more,
  which the segment behind it dereferences.
\<close>

theorem goflow_sends_nil:
  assumes "InClosed \<notin> set es"
  shows "\<exists>out s. Goflow_Run unmarshal es = (out, s, False)
    \<and> out \<in> shuffles (from_in es) (map Some (List.map_filter unmarshal (received (sources es)))
                                     @ (if GClose \<in> set (sources es) then [None] else []))"
  using source_run_open [where act = "goflow_act unmarshal" and sent = gf_sent and es = es and
      s = "\<lparr>gf_open = True, gf_sent = []\<rparr>", OF goflow_act_sends assms]
  by (auto simp: Goflow_Run_def goflow_act_fold)

section \<open>generator\<close>

definition generated :: EnrichedFlow where
  "generated = zero_flow\<lparr>Proto := 6, Bytes := 42, Note := ''generated test flow''\<rparr>"

definition Generator_Run :: "(unit, EnrichedFlow) source_event list \<Rightarrow> EnrichedFlow list \<times> EnrichedFlow list \<times> bool" where
  "Generator_Run es = source_run (\<lambda>_ s. s @ [generated]) id es []"

lemma generator_fold: "fold (\<lambda>_ s. s @ [generated]) xs s = s @ replicate (length xs) generated"
  by (induction xs arbitrary: s) (simp_all add: replicate_append_same)

text \<open>The generator fills every pause of its input with a test flow and passes the input on.\<close>

theorem generator_fills:
  assumes "InClosed \<notin> set es"
  shows "\<exists>out s. Generator_Run es = (out, s, False)
    \<and> out \<in> shuffles (from_in es) (replicate (length (sources es)) generated)"
  using source_run_open [where act = "\<lambda>(_ :: unit) s. s @ [generated]" and sent = id and es = es and s = "[]", OF _ assms]
  by (auto simp: Generator_Run_def generator_fold)


section \<open>Examples\<close>

theorem stdin_reader_returns_witness: "\<exists>n. snd (stdin_reader True (scans ''{}'' n))"
  using stdin_reader_returns [of True "''{}''"] by (simp add: raw_lines_def Let_def)

definition demo_listen :: "string \<Rightarrow> listen_url option" where
  "demo_listen a = (if a = ''nfl://:2056'' then Some \<lparr>lu_Scheme = ''nfl'', lu_Hostname = [], lu_Port = ''2056''\<rparr> else None)"

theorem goflow_starts_witness:
  "\<exists>g u. Goflow_New demo_listen [''listen'' \<mapsto> ''nfl://:2056''] = Some g \<and> u \<in> set (Listen g)
     \<and> start_listener True (\<lambda>_ _. True) u \<noteq> Inr ()"
proof -
  let ?u = "\<lparr>lu_Scheme = ''nfl'', lu_Hostname = [], lu_Port = ''2056''\<rparr>"
  have "parse_uint 64 ''2056'' = Some 2056" by (simp add: parse_uint_def digit_val_def Let_def)
  then obtain g where g: "Goflow_New demo_listen [''listen'' \<mapsto> ''nfl://:2056''] = Some g" "?u \<in> set (Listen g)"
    by (simp add: Goflow_New_def demo_listen_def cfg_def parse_uint_def [of _ "[]"])
  then show ?thesis using goflow_starts [OF g, of "\<lambda>_ _. True"] by force
qed

theorem goflow_receivers_witness:
  "\<exists>g. Goflow_New demo_listen [''listen'' \<mapsto> ''nfl://:2056''] = Some g \<and> udp_Sockets (receiver_config g) = 1"
proof -
  have "parse_uint 64 ''2056'' = Some 2056" by (simp add: parse_uint_def digit_val_def Let_def)
  then obtain g where g: "Goflow_New demo_listen [''listen'' \<mapsto> ''nfl://:2056''] = Some g"
    by (simp add: Goflow_New_def demo_listen_def cfg_def parse_uint_def [of _ "[]"])
  then show ?thesis using goflow_receivers [OF g] by auto
qed

theorem goflow_sends_nil_witness:
  "\<exists>out s. Goflow_Run (\<lambda>b. Some b) [Source (GSend True), FromIn (Some False), Source GClose] = (out, s, False)
     \<and> out \<in> shuffles [Some False] [Some True, None]"
  using goflow_sends_nil [of "[Source (GSend True), FromIn (Some False), Source GClose]" "\<lambda>b. Some b"]
  by (simp add: received_def map_filter_simps)

theorem generator_fills_witness:
  "\<exists>out s. Generator_Run [Source (), FromIn zero_flow] = (out, s, False) \<and> out \<in> shuffles [zero_flow] [generated]"
  using generator_fills [of "[Source (), FromIn zero_flow]"] by simp

end
