(* ===== verification/Endpoints.thy ===== *)
theory Endpoints
  imports Metrics
begin

text \<open>
  The output \<open>influx\<close>, the alert \<open>http\<close> and the development segment \<open>filegate\<close>. The InfluxDB client is
  represented by the calls it gets, the HTTP server by its answers, and the file system by the
  results of the tests for the gate file.
\<close>

section \<open>influx\<close>

record Influx =
  in_Address :: string
  in_Org :: string
  in_Bucket :: string
  in_Token :: string
  in_Tags :: "string list"
  in_Fields :: "string list"

definition found_field :: "string \<Rightarrow> bool" where
  "found_field n \<longleftrightarrow> field_exists n \<or> n \<in> set unexported_fields"

text \<open>
  \<open>New\<close>. An address that is not a URL is only logged. The tags are looked up without the space around
  them, but kept with it.
\<close>

definition influx_tags :: "string \<Rightarrow> string list option" where
  "influx_tags v =
     (if v = [] then Some [''ProtoName'']
      else let tags = split_on (CHR '','') v in if list_all (\<lambda>t. found_field (trim_space t)) tags then Some tags else None)"

definition influx_fields :: "string \<Rightarrow> string list option" where
  "influx_fields v =
     (if v = [] then Some [''Bytes'', ''Packets'']
      else let fs = split_on (CHR '','') v in if list_all found_field fs then Some fs else None)"

definition Influx_New :: "config_map \<Rightarrow> Influx option" where
  "Influx_New config =
     (if cfg config ''org'' = [] \<or> cfg config ''bucket'' = [] \<or> cfg config ''token'' = [] then None
      else case influx_tags (cfg config ''tags'') of None \<Rightarrow> None | Some tags \<Rightarrow>
          (case influx_fields (cfg config ''fields'') of None \<Rightarrow> None | Some fs \<Rightarrow>
             Some \<lparr>in_Address = (if cfg config ''address'' \<noteq> [] then cfg config ''address'' else ''http://127.0.0.1:8086''),
                   in_Org = cfg config ''org'', in_Bucket = cfg config ''bucket'', in_Token = cfg config ''token'',
                   in_Tags = tags, in_Fields = fs\<rparr>))"

record point =
  pt_tags :: "string \<rightharpoonup> string"
  pt_fields :: "string \<rightharpoonup> goval"

text \<open>
  \<open>FieldByName(n).Interface()\<close> on a flow: an unknown field, and a field that is not exported, panics.
\<close>

definition field_value :: "EnrichedFlow \<Rightarrow> string \<Rightarrow> goval outcome" where
  "field_value m n =
     (case FieldByName m n of
        Some v \<Rightarrow> Inr v
      | None \<Rightarrow> Inl (Panic (if n \<in> set unexported_fields
                   then ''reflect.Value.Interface: cannot return value obtained from unexported field or method''
                   else ''reflect: call of reflect.Value.Interface on zero Value'')))"

fun collect :: "EnrichedFlow \<Rightarrow> (goval \<Rightarrow> 'v) \<Rightarrow> string list \<Rightarrow> (string \<rightharpoonup> 'v) \<Rightarrow> (string \<rightharpoonup> 'v) outcome" where
  "collect m f [] acc = Inr acc"
| "collect m f (n # ns) acc = or_fail (field_value m n) (\<lambda>v. collect m f ns (acc(n \<mapsto> f v)))"

text \<open>The \<open>Connector\<close> that \<open>Run\<close> makes of the segment, and the point of a flow.\<close>

record Connector =
  co_Address :: string
  co_Org :: string
  co_Bucket :: string
  co_Token :: string
  co_ExportFreq :: int
  co_Batchsize :: int
  co_Tags :: "string list"
  co_Fields :: "string list"

definition segment_connector :: "Influx \<Rightarrow> Connector" where
  "segment_connector c =
     \<lparr>co_Address = in_Address c, co_Org = in_Org c, co_Bucket = in_Bucket c, co_Token = in_Token c,
      co_ExportFreq = 0, co_Batchsize = 5000, co_Tags = in_Tags c, co_Fields = in_Fields c\<rparr>"

definition CreatePoint :: "Connector \<Rightarrow> EnrichedFlow \<Rightarrow> point outcome" where
  "CreatePoint c m =
     or_fail (collect m field_text (co_Tags c) Map.empty) (\<lambda>tags.
     or_fail (collect m (\<lambda>v. v) (co_Fields c) Map.empty) (\<lambda>fs.
       Inr \<lparr>pt_tags = tags, pt_fields = fs\<rparr>))"

definition Influx_step :: "(Influx \<times> point list, EnrichedFlow) step" where
  "Influx_step s m = or_fail (CreatePoint (segment_connector (fst s)) m) (\<lambda>p. Inr ([Out m], (fst s, snd s @ [p])))"

text \<open>
  The calls of the client. The answer to \<open>FindBucketByName\<close> is only logged, and \<open>WritePoint\<close> and
  \<open>Flush\<close> report nothing, so the calls do not depend on their results.
\<close>

datatype client_call =
    NewClientWithOptions (client_address: string) (client_token: string) (client_batch: int)
  | FindBucketByName string
  | GetWriteAPI (api_org: string) (api_bucket: string)
  | WritePoint point
  | FlushPoints
  | CloseClient

definition checkBucket :: "Connector \<Rightarrow> client_call list" where
  "checkBucket c = [FindBucketByName (co_Bucket c)]"

definition Connector_Initialize :: "Connector \<Rightarrow> client_call list" where
  "Connector_Initialize c = NewClientWithOptions (co_Address c) (co_Token c) (co_Batchsize c) # checkBucket c"

definition Influx_Run :: "Influx \<Rightarrow> EnrichedFlow list \<Rightarrow> (EnrichedFlow list \<times> client_call list) outcome" where
  "Influx_Run c ms =
     (let co = segment_connector c in
      or_fail (run_loop Influx_step (c, []) ms) (\<lambda>(es, s).
        Inr (outs es, Connector_Initialize co @ GetWriteAPI (co_Org co) (co_Bucket co) # map WritePoint (snd s) @ [FlushPoints, CloseClient])))"

definition readable :: "Influx \<Rightarrow> bool" where
  "readable c \<longleftrightarrow> list_all field_exists (in_Tags c @ in_Fields c)"

lemma field_value_ok: "(\<exists>v. field_value m n = Inr v) \<longleftrightarrow> field_exists n"
  by (simp add: field_value_def FieldByName_def field_exists_def split: option.split)

lemma field_value_exists: "field_exists n \<Longrightarrow> field_value m n = Inr (the (FieldByName m n))"
  using FieldByName_exists [of n m] by (auto simp: field_value_def)

lemma collect_ok:
  "list_all field_exists ns \<Longrightarrow>
     collect m f ns acc = Inr (\<lambda>n. if n \<in> set ns then Some (f (the (FieldByName m n))) else acc n)"
  by (induction ns arbitrary: acc) (auto simp: field_value_exists fun_eq_iff)

lemma collect_fails: "\<not> list_all field_exists ns \<Longrightarrow> \<exists>p. collect m f ns acc = Inl (Panic p)"
proof (induction ns arbitrary: acc)
  case (Cons n ns)
  show ?case
  proof (cases "field_exists n")
    case True
    then show ?thesis using Cons by (simp add: field_value_exists)
  next
    case False
    then show ?thesis by (auto simp: field_value_def FieldByName_def field_exists_def)
  qed
qed simp

definition flow_point :: "Influx \<Rightarrow> EnrichedFlow \<Rightarrow> point" where
  "flow_point c m =
     \<lparr>pt_tags = (\<lambda>n. if n \<in> set (in_Tags c) then Some (field_text (the (FieldByName m n))) else None),
      pt_fields = (\<lambda>n. if n \<in> set (in_Fields c) then Some (the (FieldByName m n)) else None)\<rparr>"

lemma CreatePoint_ok: "readable c \<Longrightarrow> CreatePoint (segment_connector c) m = Inr (flow_point c m)"
  by (simp add: readable_def CreatePoint_def segment_connector_def collect_ok flow_point_def)

lemma CreatePoint_fails: "\<not> readable c \<Longrightarrow> \<exists>p. CreatePoint (segment_connector c) m = Inl (Panic p)"
  using collect_fails [of "in_Tags c" m field_text Map.empty] collect_fails [of "in_Fields c" m "\<lambda>v. v" Map.empty]
  by (cases "list_all field_exists (in_Tags c)") (auto simp: readable_def CreatePoint_def segment_connector_def collect_ok)

lemma influx_loop:
  assumes "readable c"
  shows "run_loop Influx_step (c, ps) ms = Inr (map Out ms, (c, ps @ map (flow_point c) ms))"
  by (induction ms arbitrary: ps) (simp_all add: Influx_step_def CreatePoint_ok [OF assms])

text \<open>
  A configured \<open>influx\<close> segment either works or panics at its first flow, and which of the two depends
  on the names in its options only. If all tags and fields are exported fields exactly as written,
  every flow is forwarded and written as one point with the texts of the tags and the values of the
  fields. A tag with a space around it, and a field that is not exported, pass the test of \<open>New\<close> and panic.
\<close>

theorem influx_all_or_nothing:
  assumes "Influx_New config = Some c"
  shows "if readable c
    then run_loop Influx_step (c, []) ms = Inr (map Out ms, (c, map (flow_point c) ms))
    else ms \<noteq> [] \<longrightarrow> (\<exists>p. run_loop Influx_step (c, []) ms = Inl (Panic p))"
proof (cases "readable c")
  case True
  then show ?thesis using influx_loop [OF True, of "[]" ms] by simp
next
  case False
  have "\<exists>p. run_loop Influx_step (c, []) ms = Inl (Panic p)" if ms: "ms = m # ms'" for m ms'
    using CreatePoint_fails [OF False, of m] unfolding ms by (auto simp: Influx_step_def)
  with False show ?thesis by (cases ms) auto
qed

text \<open>
  What the client sees of a segment that reads its fields: it is made for the configured address and
  token with batches of 5000 points, asked for the bucket, given one point per flow in the order of the
  flows, and flushed before it is closed, so that no point is left in a batch.
\<close>

theorem influx_session:
  assumes "Influx_New config = Some c" "readable c"
  shows "\<exists>addr. Influx_Run c ms = Inr (ms,
      [NewClientWithOptions addr (cfg config ''token'') 5000, FindBucketByName (cfg config ''bucket''),
       GetWriteAPI (cfg config ''org'') (cfg config ''bucket'')] @ map (\<lambda>m. WritePoint (flow_point c m)) ms @ [FlushPoints, CloseClient])
    \<and> addr = (if cfg config ''address'' \<noteq> [] then cfg config ''address'' else ''http://127.0.0.1:8086'')"
proof -
  have "in_Token c = cfg config ''token''" "in_Org c = cfg config ''org''" "in_Bucket c = cfg config ''bucket''"
    "in_Address c = (if cfg config ''address'' \<noteq> [] then cfg config ''address'' else ''http://127.0.0.1:8086'')"
    using assms(1) by (auto simp: Influx_New_def split: if_split_asm option.splits)
  then show ?thesis
    using influx_loop [OF assms(2), of "[]" ms]
    by (simp add: Influx_Run_def Connector_Initialize_def checkBucket_def segment_connector_def Let_def outs_map_Out o_def)
qed

lemma influx_default:
  "Influx_New [''org'' \<mapsto> ''o'', ''bucket'' \<mapsto> ''b'', ''token'' \<mapsto> ''t'', ''tags'' \<mapsto> ''Proto, Etype''] =
     Some \<lparr>in_Address = ''http://127.0.0.1:8086'', in_Org = ''o'', in_Bucket = ''b'', in_Token = ''t'',
           in_Tags = [''Proto'', '' Etype''], in_Fields = [''Bytes'', ''Packets'']\<rparr>"
  by (simp add: Influx_New_def influx_tags_def influx_fields_def cfg_def found_field_def trim_space_def is_space_def
      known_fields)

theorem influx_all_or_nothing_witness:
  "\<exists>c. Influx_New [''org'' \<mapsto> ''o'', ''bucket'' \<mapsto> ''b'', ''token'' \<mapsto> ''t'', ''tags'' \<mapsto> ''Proto, Etype''] = Some c
     \<and> (\<exists>p. run_loop Influx_step (c, []) [zero_flow] = Inl (Panic p))"
proof -
  let ?c = "\<lparr>in_Address = ''http://127.0.0.1:8086'', in_Org = ''o'', in_Bucket = ''b'', in_Token = ''t'',
      in_Tags = [''Proto'', '' Etype''], in_Fields = [''Bytes'', ''Packets'']\<rparr>"
  have "\<not> field_exists '' Etype''" unfolding field_lookup by simp
  then have "\<not> readable ?c" by (simp add: readable_def)
  then show ?thesis using influx_default influx_all_or_nothing [OF influx_default, of "[zero_flow]"] by auto
qed

theorem influx_session_witness:
  "\<exists>c calls. Influx_New [''org'' \<mapsto> ''o'', ''bucket'' \<mapsto> ''b'', ''token'' \<mapsto> ''t''] = Some c
     \<and> Influx_Run c [zero_flow] = Inr ([zero_flow], calls) \<and> drop 4 calls = [FlushPoints, CloseClient]"
proof -
  let ?c = "\<lparr>in_Address = ''http://127.0.0.1:8086'', in_Org = ''o'', in_Bucket = ''b'', in_Token = ''t'',
      in_Tags = [''ProtoName''], in_Fields = [''Bytes'', ''Packets'']\<rparr>"
  have new: "Influx_New [''org'' \<mapsto> ''o'', ''bucket'' \<mapsto> ''b'', ''token'' \<mapsto> ''t''] = Some ?c"
    by (simp add: Influx_New_def influx_tags_def influx_fields_def cfg_def)
  have "field_exists ''ProtoName''" unfolding field_lookup by simp
  then have "readable ?c" by (simp add: readable_def known_fields)
  from influx_session [OF new this, of "[zero_flow]"] new show ?thesis by auto
qed


section \<open>http\<close>

record 'd Http =
  ht_Url :: string
  ht_limitLog :: bool
  ht_posted :: "'d list"
  ht_log :: "(int option \<times> bool) list"

text \<open>
  \<open>New\<close>, with the scheme that the URL parser finds. In the log, \<open>(None, True)\<close> is a failed request,
  \<open>(Some code, True)\<close> an answer with this code, and \<open>(None, False)\<close> the message that the error is
  resolved. \<open>answer i\<close> is the result of the \<open>i\<close>-th request, \<open>None\<close> for an error.
\<close>

definition Http_New :: "(string \<Rightarrow> string option) \<Rightarrow> config_map \<Rightarrow> 'd Http option" where
  "Http_New url_Scheme config =
     (case url_Scheme (cfg config ''url'') of
        None \<Rightarrow> None
      | Some scheme \<Rightarrow>
          if scheme = ''http'' \<or> scheme = ''https''
          then Some \<lparr>ht_Url = cfg config ''url'', ht_limitLog = False, ht_posted = [], ht_log = []\<rparr> else None)"

definition http_answered :: "int option \<Rightarrow> 'd Http \<Rightarrow> 'd Http" where
  "http_answered resp s =
     (case resp of
        None \<Rightarrow> s\<lparr>ht_log := ht_log s @ [(None, True)], ht_limitLog := True\<rparr>
      | Some code \<Rightarrow>
          if \<not> code - 200 < 100 then s\<lparr>ht_log := ht_log s @ [(Some code, True)], ht_limitLog := True\<rparr>
          else if ht_limitLog s then s\<lparr>ht_log := ht_log s @ [(None, False)], ht_limitLog := False\<rparr>
          else s)"

definition Http_step :: "('m \<Rightarrow> 'd option) \<Rightarrow> (nat \<Rightarrow> int option) \<Rightarrow> ('d Http, 'm) step" where
  "Http_step marshal answer s m =
     (case marshal m of
        None \<Rightarrow> Inr ([], s)
      | Some data \<Rightarrow>
          Inr ([Out m], http_answered (answer (length (ht_posted s))) (s\<lparr>ht_posted := ht_posted s @ [data]\<rparr>)))"

definition http_failed :: "int option \<Rightarrow> bool" where
  "http_failed resp \<longleftrightarrow> (case resp of None \<Rightarrow> True | Some code \<Rightarrow> 300 \<le> code)"

lemma http_answered_posted [simp]: "ht_posted (http_answered resp s) = ht_posted s"
  by (simp add: http_answered_def split: option.split)

lemma http_answered_log:
  "map fst (filter snd (ht_log (http_answered resp s))) = map fst (filter snd (ht_log s)) @ (if http_failed resp then [resp] else [])"
  by (simp add: http_answered_def http_failed_def split: option.split)

lemma http_answered_limit: "ht_limitLog (http_answered resp s) \<longleftrightarrow> http_failed resp"
  by (auto simp: http_answered_def http_failed_def split: option.split)

lemma Http_run:
  "\<exists>es s'. run_loop (Http_step marshal answer) s ms = Inr (es, s')
    \<and> outs es = filter (\<lambda>m. marshal m \<noteq> None) ms \<and> ht_posted s' = ht_posted s @ List.map_filter marshal ms
    \<and> map fst (filter snd (ht_log s')) = map fst (filter snd (ht_log s))
        @ filter http_failed (map answer [length (ht_posted s)..<length (ht_posted s')])"
proof (induction ms arbitrary: s)
  case (Cons m ms)
  show ?case
  proof (cases "marshal m")
    case None
    then show ?thesis using Cons.IH [of s] by (auto simp: Http_step_def map_filter_simps)
  next
    case (Some d)
    define s1 where "s1 = http_answered (answer (length (ht_posted s))) (s\<lparr>ht_posted := ht_posted s @ [d]\<rparr>)"
    have step: "Http_step marshal answer s m = Inr ([Out m], s1)" using Some by (simp add: Http_step_def s1_def)
    obtain es s' where run: "run_loop (Http_step marshal answer) s1 ms = Inr (es, s')"
      "outs es = filter (\<lambda>m. marshal m \<noteq> None) ms" "ht_posted s' = ht_posted s1 @ List.map_filter marshal ms"
      "map fst (filter snd (ht_log s')) = map fst (filter snd (ht_log s1))
        @ filter http_failed (map answer [length (ht_posted s1)..<length (ht_posted s')])"
      using Cons.IH [of s1] by blast
    have "[length (ht_posted s)..<length (ht_posted s')] = length (ht_posted s) # [length (ht_posted s1)..<length (ht_posted s')]"
      using run(3) by (subst upt_rec) (simp add: s1_def)
    then show ?thesis using step run Some by (simp add: s1_def http_answered_log map_filter_simps)
  qed
qed (simp add: map_filter_simps)

text \<open>
  Whatever the server answers, \<open>http\<close> posts and forwards exactly the flows that can be encoded, in
  order. Every failed request is logged, one entry for each, although the message announces that it
  will not be repeated.
\<close>

theorem http_alerts:
  assumes "Http_New url_Scheme config = Some s"
  shows "\<exists>es s'. run_loop (Http_step marshal answer) s ms = Inr (es, s')
    \<and> outs es = filter (\<lambda>m. marshal m \<noteq> None) ms \<and> ht_posted s' = List.map_filter marshal ms
    \<and> map fst (filter snd (ht_log s')) = filter http_failed (map answer [0..<length (ht_posted s')])"
proof -
  have "ht_posted s = []" "ht_log s = []" using assms by (auto simp: Http_New_def split: option.splits if_splits)
  then show ?thesis using Http_run [of marshal answer s ms] by simp
qed

theorem http_alerts_witness:
  "\<exists>(s :: bool Http) es s'. Http_New (\<lambda>_. Some ''https'') [''url'' \<mapsto> ''https://a''] = Some s
     \<and> run_loop (Http_step Some (\<lambda>_. Some 500)) s [True, False] = Inr (es, s') \<and> ht_posted s' = [True, False]
     \<and> map fst (filter snd (ht_log s')) = [Some 500, Some 500]"
proof -
  obtain s :: "bool Http" where s: "Http_New (\<lambda>_. Some ''https'') [''url'' \<mapsto> ''https://a''] = Some s"
    by (simp add: Http_New_def)
  obtain es s' where run: "run_loop (Http_step Some (\<lambda>_. Some 500)) s [True, False] = Inr (es, s')"
    "ht_posted s' = List.map_filter Some [True, False]"
    "map fst (filter snd (ht_log s')) = filter http_failed (map (\<lambda>_. Some 500) [0..<length (ht_posted s')])"
    using http_alerts [OF s, of Some "\<lambda>_. Some 500" "[True, False]"] by blast
  have "[0..<2] = [0, 1 :: nat]" by (simp add: upt_rec)
  with run have "ht_posted s' = [True, False]" "map fst (filter snd (ht_log s')) = [Some 500, Some 500]"
    by (simp_all add: map_filter_simps http_failed_def)
  with s run(1) show ?thesis by (intro exI conjI)
qed

section \<open>filegate\<close>

datatype stat_result = Exists | NotExist | StatError

definition checkFileExists :: "stat_result \<Rightarrow> bool" where
  "checkFileExists r = (r \<noteq> NotExist)"

definition Filegate_New :: "config_map \<Rightarrow> string outcome" where
  "Filegate_New config =
     (if cfg config ''filename'' \<noteq> [] then Inr (cfg config ''filename'') else Inl (Fatal ''Filegate: No filename config option''))"

text \<open>The inner loop, over the results of its tests; \<open>None\<close> when it is still waiting at their end.\<close>

fun gate :: "stat_result list \<Rightarrow> stat_result list option" where
  "gate [] = None"
| "gate (r # rs) = (if checkFileExists r then gate rs else Some rs)"

fun Filegate_Run :: "stat_result list \<Rightarrow> 'm list \<Rightarrow> 'm list" where
  "Filegate_Run rs [] = []"
| "Filegate_Run rs (m # ms) = (case gate rs of None \<Rightarrow> [] | Some rs' \<Rightarrow> m # Filegate_Run rs' ms)"

lemma gate_count:
  "case gate rs of None \<Rightarrow> count_list rs NotExist = 0 | Some rs' \<Rightarrow> count_list rs NotExist = Suc (count_list rs' NotExist)"
  by (induction rs) (auto simp: checkFileExists_def split: option.splits)

text \<open>
  The gate lets flows through in order, one for each test that finds the file absent; a test that
  fails for another reason keeps it closed.
\<close>

theorem filegate_lets_through: "Filegate_Run rs ms = take (count_list rs NotExist) ms"
proof (induction ms arbitrary: rs)
  case (Cons m ms)
  then show ?case using gate_count [of rs] by (auto split: option.splits)
qed simp

end
