(* ===== verification/Program.thy ===== *)
theory Program
  imports Config
begin

text \<open>
  The main program (\<open>main.go\<close>): log level, plugins, the configuration file, the pipelines it
  starts, and how it closes them. The last part keeps the segment objects in a heap, to show
  what becomes of the segment types whose \<open>New\<close> returns the registered object itself when more
  than one pipeline is built from a configuration.
\<close>

section \<open>Flags\<close>

datatype Level = TraceLevel | DebugLevel | InfoLevel | WarnLevel | ErrorLevel | FatalLevel | PanicLevel

text \<open>The argument is a pointer.\<close>

definition zerologLogLevel :: "string option \<Rightarrow> Level" where
  "zerologLogLevel logLevel =
     (case logLevel of
        None \<Rightarrow> InfoLevel
      | Some l \<Rightarrow>
          if l = '''' then InfoLevel
          else if l = ''trace'' then TraceLevel
          else if l = ''debug'' then DebugLevel
          else if l = ''info'' then InfoLevel
          else if l = ''warning'' then WarnLevel
          else if l = ''error'' then ErrorLevel
          else if l = ''fatal'' then FatalLevel
          else if l = ''panic'' then PanicLevel
          else InfoLevel)"

type_synonym flagArray = "string list"

definition flagArray_String :: "flagArray \<Rightarrow> string" where
  "flagArray_String i = join_with '','' i"

definition flagArray_Set :: "flagArray \<Rightarrow> string \<Rightarrow> flagArray" where
  "flagArray_Set i v = i @ [v]"

text \<open>The variables of \<open>main\<close> after \<open>flag.Parse\<close>, and their defaults.\<close>

record main_flags =
  fl_pluginPaths :: flagArray
  fl_logLevel :: string
  fl_concurrency :: u64
  fl_version :: bool
  fl_configFile :: string

definition default_flags :: main_flags where
  "default_flags = \<lparr>fl_pluginPaths = [], fl_logLevel = ''warning'', fl_concurrency = 1, fl_version = False,
     fl_configFile = ''config.yml''\<rparr>"

text \<open>
  The number of pipelines: \<open>-n 0\<close> means \<open>GOMAXPROCS\<close>; the conversion from \<open>uint\<close> to \<open>int\<close> keeps
  the bits.
\<close>

definition pipelineCount :: "int \<Rightarrow> u64 \<Rightarrow> int" where
  "pipelineCount maxprocs concurrency = (if concurrency = 0 then maxprocs else sint concurrency)"

section \<open>Start\<close>

text \<open>
  \<open>plugin.Open\<close> runs the \<open>init\<close> functions of a plugin, which register segments, unless the
  path has been opened before; \<open>None\<close> is an error. Plugins are opened until the first error.
\<close>

fun load_plugins ::
  "(string \<Rightarrow> (string \<times> 'i template) list option) \<Rightarrow> string list \<Rightarrow> string list \<Rightarrow> 'i template registry
     \<Rightarrow> 'i template registry option outcome" where
  "load_plugins plugin_Open opened [] reg = Inr (Some reg)"
| "load_plugins plugin_Open opened (path # paths) reg =
     (if path \<in> set opened then load_plugins plugin_Open opened paths reg
      else case plugin_Open path of
        None \<Rightarrow> Inr None
      | Some inits \<Rightarrow> or_fail (register_all reg inits) (load_plugins plugin_Open (path # opened) paths))"

text \<open>The YAML parser is a parameter.\<close>

definition SegmentReprsFromConfig :: "('b \<Rightarrow> SegmentRepr list option) \<Rightarrow> 'b \<Rightarrow> SegmentRepr list outcome" where
  "SegmentReprsFromConfig yaml_Unmarshal configFile =
     (case yaml_Unmarshal configFile of
        None \<Rightarrow> Inl (Fatal ''Error parsing configuration YAML: '')
      | Some segmentReprs \<Rightarrow> Inr segmentReprs)"

text \<open>The loop that builds and starts the pipelines.\<close>

fun spawn :: "'i build_env \<Rightarrow> SegmentRepr list \<Rightarrow> nat \<Rightarrow> chan \<Rightarrow> ('i pipeline list \<times> chan) outcome" where
  "spawn be segmentReprs 0 n = Inr ([], n)"
| "spawn be segmentReprs (Suc i) n =
     or_fail (NewFromReprs be segmentReprs n) (\<lambda>(pipe, n').
       case pipe of
         None \<Rightarrow> Inl (Fatal ''An error occured during pipeline initialization - Exiting'')
       | Some p \<Rightarrow> map_sum id (map_prod (Cons p) id) (spawn be segmentReprs i n'))"

text \<open>
  The construction above makes a segment for every use. \<open>New\<close> of \<open>filegate\<close>, \<open>diskbuffer\<close> and
  \<open>lumberjack\<close>, however, returns its receiver: all uses of such a segment, in whatever pipelines, are the
  registered object, with the settings of the last call of \<open>New\<close> and the channels of the last call
  of \<open>Rewire\<close>. \<open>object\<close> names the registered object that settings belong to, \<open>None\<close> for an object of
  its own. \<open>New\<close> is called in the order of the configuration; the pipelines of a branch are wired
  before the one that it is part of.
\<close>

fun opt_list :: "'a option \<Rightarrow> 'a list" where
  "opt_list None = []"
| "opt_list (Some x) = [x]"

lemma set_opt_list [simp]: "set (opt_list x) = set_option x"
  by (cases x) simp_all

fun seg_uses :: "'i segment \<Rightarrow> ('i \<times> BaseSegment) list" and pipe_uses :: "'i pipeline \<Rightarrow> ('i \<times> BaseSegment) list" where
  "seg_uses (Plain i f b) = [(i, b)]"
| "seg_uses (Branch bp c t e b) = concat (map pipe_uses (opt_list c @ opt_list t @ opt_list e))"
| "seg_uses (Parallel ss) = concat (map seg_uses ss)"
| "pipe_uses (Pipeline i out d ss) = concat (map seg_uses ss)"

fun own_wired :: "'i segment \<Rightarrow> ('i \<times> BaseSegment) list" where
  "own_wired (Plain i f b) = [(i, b)]"
| "own_wired (Branch bp c t e b) = []"
| "own_wired (Parallel ss) = concat (map own_wired ss)"

fun seg_wired :: "'i segment \<Rightarrow> ('i \<times> BaseSegment) list" and pipe_wired :: "'i pipeline \<Rightarrow> ('i \<times> BaseSegment) list" where
  "seg_wired (Plain i f b) = []"
| "seg_wired (Branch bp c t e b) = concat (map pipe_wired (opt_list c @ opt_list t @ opt_list e))"
| "seg_wired (Parallel ss) = concat (map seg_wired ss)"
| "pipe_wired (Pipeline i out d ss) = concat (map seg_wired ss) @ concat (map own_wired ss)"

definition object_now :: "('i \<Rightarrow> string option) \<Rightarrow> 'i pipeline list \<Rightarrow> string \<Rightarrow> 'i \<times> BaseSegment" where
  "object_now object pipes name =
     (fst (last (filter (\<lambda>(i, b). object i = Some name) (concat (map pipe_uses pipes)))),
      snd (last (filter (\<lambda>(i, b). object i = Some name) (concat (map pipe_wired pipes)))))"

fun share_segment :: "('i \<Rightarrow> string option) \<Rightarrow> (string \<Rightarrow> 'i \<times> BaseSegment) \<Rightarrow> 'i segment \<Rightarrow> 'i segment"
  and share_pipeline :: "('i \<Rightarrow> string option) \<Rightarrow> (string \<Rightarrow> 'i \<times> BaseSegment) \<Rightarrow> 'i pipeline \<Rightarrow> 'i pipeline" where
  "share_segment object now (Plain i f b) =
     (case object i of None \<Rightarrow> Plain i f b | Some name \<Rightarrow> Plain (fst (now name)) f (snd (now name)))"
| "share_segment object now (Branch bp c t e b) =
     Branch bp (map_option (share_pipeline object now) c) (map_option (share_pipeline object now) t)
       (map_option (share_pipeline object now) e) b"
| "share_segment object now (Parallel ss) = Parallel (map (share_segment object now) ss)"
| "share_pipeline object now (Pipeline i out d ss) = Pipeline i out d (map (share_segment object now) ss)"

definition share_objects :: "('i \<Rightarrow> string option) \<Rightarrow> 'i pipeline list \<Rightarrow> 'i pipeline list" where
  "share_objects object pipes = map (share_pipeline object (object_now object pipes)) pipes"

text \<open>
  What \<open>main\<close> gets from outside: the version, \<open>plugin.Open\<close>, \<open>os.ReadFile\<close>, \<open>GOMAXPROCS\<close>, the
  YAML parser, the environment of the construction with the registry of the linked segments, and
  which settings belong to a registered object.
\<close>

record ('i, 'b) main_env =
  me_Version :: string
  me_plugin_Open :: "string \<Rightarrow> (string \<times> 'i template) list option"
  me_ReadFile :: "string \<Rightarrow> 'b option"
  me_GOMAXPROCS :: int
  me_yaml :: "'b \<Rightarrow> SegmentRepr list option"
  me_build :: "'i build_env"
  me_object :: "'i \<Rightarrow> string option"

datatype 'i main_result =
    Printed string
  | Returned
  | Waiting Level "'i pipeline list"

definition main_prog :: "('i, 'b) main_env \<Rightarrow> main_flags \<Rightarrow> 'i main_result outcome" where
  "main_prog me fl =
     (if fl_version fl then Inr (Printed (me_Version me))
      else
        or_fail (load_plugins (me_plugin_Open me) [] (fl_pluginPaths fl) (be_registry (me_build me))) (\<lambda>loaded.
        case loaded of
          None \<Rightarrow> Inr Returned
        | Some reg \<Rightarrow>
        (case me_ReadFile me (fl_configFile fl) of
          None \<Rightarrow> Inr Returned
        | Some config \<Rightarrow>
            or_fail (SegmentReprsFromConfig (me_yaml me) config) (\<lambda>segmentReprs.
            map_sum id (\<lambda>(pipes, _). Waiting (zerologLogLevel (Some (fl_logLevel fl))) (share_objects (me_object me) pipes))
              (spawn ((me_build me)\<lparr>be_registry := reg\<rparr>) segmentReprs
                 (nat (pipelineCount (me_GOMAXPROCS me) (fl_concurrency fl))) 0)))))"

section \<open>Shutdown\<close>

text \<open>
  What a call of \<open>segment.Close\<close> does: most segments inherit the empty one; the Kafka consumer
  sends on a channel (and waits while nobody receives) and closes it (so a second call panics).
\<close>

datatype close_result = CloseReturns | CloseBlocks | ClosePanics

text \<open>\<open>ParallelizedSegment.Close\<close> and the loop of \<open>Pipeline.Close\<close>.\<close>

fun close_each :: "close_result list \<Rightarrow> close_result" where
  "close_each [] = CloseReturns"
| "close_each (CloseReturns # rs) = close_each rs"
| "close_each (r # rs) = r"

fun segment_Close :: "('i \<Rightarrow> close_result) \<Rightarrow> 'i segment \<Rightarrow> close_result" where
  "segment_Close own (Plain i f b) = own i"
| "segment_Close own (Branch bp c t e b) = CloseReturns"
| "segment_Close own (Parallel ss) = close_each (map (segment_Close own) ss)"

text \<open>
  \<open>Pipeline.Close\<close> up to the wait for the segments: the set of closed channels, or \<open>None\<close> when the
  \<open>Close\<close> of a segment does not return. The deferred function recovers from every panic, also
  from one before the input has been closed.
\<close>

definition Pipeline_Close :: "('i \<Rightarrow> close_result) \<Rightarrow> chan set \<Rightarrow> 'i pipeline \<Rightarrow> chan set option" where
  "Pipeline_Close own closed p =
     (case close_each (map (segment_Close own) (SegmentList p)) of
        CloseBlocks \<Rightarrow> None
      | ClosePanics \<Rightarrow> Some closed
      | CloseReturns \<Rightarrow> (case close_chan closed (Some (P_In p)) of Inl _ \<Rightarrow> Some closed | Inr closed' \<Rightarrow> Some closed'))"

text \<open>
  The deferred calls at the end of \<open>main\<close>, last pipeline first; \<open>ends p closed\<close> says whether the
  goroutines of \<open>p\<close> end when these channels are closed, which its \<open>Close\<close> waits for. The result is
  the order in which the inputs were closed and whether \<open>main\<close> returned; if it does not, the
  process ends 15 seconds after the signal by \<open>log.Fatal\<close>.
\<close>

fun close_pipelines :: "('i \<Rightarrow> close_result) \<Rightarrow> ('i pipeline \<Rightarrow> chan set \<Rightarrow> bool) \<Rightarrow> chan set \<Rightarrow> 'i pipeline list \<Rightarrow> chan set \<times> bool" where
  "close_pipelines own ends closed [] = (closed, True)"
| "close_pipelines own ends closed (p # ps) =
     (case Pipeline_Close own closed p of
        None \<Rightarrow> (closed, False)
      | Some closed' \<Rightarrow> if ends p closed' then close_pipelines own ends closed' ps else (closed', False))"

definition main_shutdown :: "('i \<Rightarrow> close_result) \<Rightarrow> ('i pipeline \<Rightarrow> chan set \<Rightarrow> bool) \<Rightarrow> 'i pipeline list \<Rightarrow> chan set \<times> bool" where
  "main_shutdown own ends pipes = close_pipelines own ends {} (rev pipes)"

section \<open>The channels of a pipeline\<close>

definition base_chans :: "BaseSegment \<Rightarrow> chan set" where
  "base_chans b = {c. Some c \<in> {In b, Out_chan b, Drops_chan b}}"

text \<open>All channels of a segment and of a pipeline, those of nested pipelines included.\<close>

fun seg_chans :: "'i segment \<Rightarrow> chan set" and pipe_chans :: "'i pipeline \<Rightarrow> chan set" where
  "seg_chans (Plain i f b) = base_chans b"
| "seg_chans (Branch bp c t e b) = base_chans b \<union> \<Union> (pipe_chans ` (set_option c \<union> set_option t \<union> set_option e))"
| "seg_chans (Parallel ss) = \<Union> (seg_chans ` set ss)"
| "pipe_chans (Pipeline i out d ss) = {i, out} \<union> set_option d \<union> \<Union> (seg_chans ` set ss)"

lemma base_chans_unwired [simp]: "base_chans unwired = {}"
  by (simp add: base_chans_def unwired_def)

lemma seg_chans_Rewire: "seg_chans (Rewire i out s) \<subseteq> {i, out} \<union> seg_chans s"
  by (induction i out s rule: Rewire.induct) (auto simp: base_chans_def wire_def)

lemma wire_all_chans:
  "wire_all c n ss = (r, n') \<Longrightarrow> n \<le> n' \<and>
     (\<forall>ss' out. r = Some (ss', out) \<longrightarrow> out \<in> {c} \<union> {n..<n'} \<and>
        \<Union> (seg_chans ` set ss') \<subseteq> {c} \<union> {n..<n'} \<union> \<Union> (seg_chans ` {s. Some s \<in> set ss}))"
proof (induction c n ss arbitrary: r n' rule: wire_all.induct)
  case (3 c n s ss)
  obtain r1 where r1: "wire_all n (n + 1) ss = (r1, n')" "r = map_option (\<lambda>(ss', out). (Rewire c n s # ss', out)) r1"
    using 3(2) by (auto split: prod.splits option.splits)
  note IH = 3(1) [OF r1(1)]
  show ?case
  proof (cases r1)
    case None then show ?thesis using r1(2) IH by simp
  next
    case (Some q)
    obtain ss' out where q: "q = (ss', out)" by fastforce
    have "out \<in> {n} \<union> {n + 1..<n'}" "n + 1 \<le> n'"
      "\<Union> (seg_chans ` set ss') \<subseteq> {n} \<union> {n + 1..<n'} \<union> \<Union> (seg_chans ` {s. Some s \<in> set ss})"
      using IH Some q by auto
    then show ?thesis using r1(2) Some q seg_chans_Rewire [of c n s] by auto
  qed
qed simp_all

lemma New_chans:
  assumes "New pass n ss = (po, n')"
  shows "n < n' \<and> (\<forall>p\<in>set_option po. pipe_chans p \<subseteq> {n..<n'} \<union> \<Union> (seg_chans ` {s. Some s \<in> set ss}))"
proof -
  let ?ss = "if ss = [] then [Some (Plain pass False unwired)] else ss"
  obtain r where r: "wire_all n (n + 1) ?ss = (r, n')" "po = map_option (\<lambda>(ss', out). Pipeline n out None ss') r"
    using assms by (auto simp: New_def Let_def split: prod.splits option.splits)
  have e: "\<Union> (seg_chans ` {s. Some s \<in> set ?ss}) = \<Union> (seg_chans ` {s. Some s \<in> set ss})" by auto
  have "n < n'" using wire_all_chans [OF r(1)] by auto
  moreover have "pipe_chans p \<subseteq> {n..<n'} \<union> \<Union> (seg_chans ` {s. Some s \<in> set ss})" if p: "p \<in> set_option po" for p
  proof -
    obtain ss' out where s: "r = Some (ss', out)" "p = Pipeline n out None ss'" using p r(2) by auto
    have "out \<in> {n} \<union> {n + 1..<n'}" "\<Union> (seg_chans ` set ss') \<subseteq> {n} \<union> {n + 1..<n'} \<union> \<Union> (seg_chans ` {s. Some s \<in> set ?ss})"
      using wire_all_chans [OF r(1)] s(1) by blast+
    then show ?thesis unfolding e using s(2) \<open>n < n'\<close> by auto
  qed
  ultimately show ?thesis by blast
qed


lemma repeat_jobs_chans:
  assumes "\<And>m r m'. mk m = Inr (r, m') \<Longrightarrow> m \<le> m' \<and> (\<forall>s\<in>set_option r. seg_chans s \<subseteq> {m..<m'})"
  shows "repeat_jobs k mk name n = Inr (ss, n') \<Longrightarrow> n \<le> n' \<and> \<Union> (seg_chans ` set ss) \<subseteq> {n..<n'}"
proof (induction k arbitrary: n ss)
  case (Suc k)
  then obtain s m ts where s: "mk n = Inr (Some s, m)" "repeat_jobs k mk name m = Inr (ts, n')" "ss = s # ts"
    by (auto simp: map_sum_def split: sum.splits option.splits)
  have "n \<le> m" "seg_chans s \<subseteq> {n..<m}" using assms [OF s(1)] by auto
  then show ?case using Suc.IH [OF s(2)] s(3) by fastforce
qed simp

text \<open>The channels of what is built lie between the counter before and after.\<close>

lemma build_chans:
  "SegmentsFromRepr be rs n = Inr (ss, n') \<Longrightarrow> n \<le> n' \<and> \<Union> (seg_chans ` {s. Some s \<in> set ss}) \<subseteq> {n..<n'}"
  "segmentFromTemplate be tpl r n = Inr (so, n') \<Longrightarrow> n \<le> n' \<and> (\<forall>s\<in>set_option so. seg_chans s \<subseteq> {n..<n'})"
proof (induction be rs n and be tpl r n arbitrary: ss n' and so n' rule: SegmentsFromRepr_segmentFromTemplate.induct)
  case (2 be r rs n)
  obtain tpl where tpl: "LookupSegment (be_registry be) (repr_Name r) = Inr tpl"
    using 2(4) by (auto split: sum.splits)
  let ?one = "if repr_Jobs r \<le> 1 then segmentFromTemplate be tpl r n
     else map_sum id (map_prod (\<lambda>ss. Some (Parallel ss)) id)
       (repeat_jobs (nat (repr_Jobs r)) (segmentFromTemplate be tpl r) (repr_Name r) n)"
  obtain s n1 where s: "?one = Inr (s, n1)" using 2(4) tpl by (auto split: sum.splits prod.splits if_splits)
  then obtain ts where ts: "SegmentsFromRepr be rs n1 = Inr (ts, n')" "ss = s # ts"
    using 2(4) tpl by (auto simp: map_sum_def split: sum.splits prod.splits)
  have one: "n \<le> n1 \<and> (\<forall>t\<in>set_option s. seg_chans t \<subseteq> {n..<n1})"
  proof (cases "repr_Jobs r \<le> 1")
    case True
    then show ?thesis using 2(1) [OF tpl] s by simp
  next
    case False
    then obtain js where js: "repeat_jobs (nat (repr_Jobs r)) (segmentFromTemplate be tpl r) (repr_Name r) n = Inr (js, n1)"
      "s = Some (Parallel js)" using s by (auto simp: map_sum_def split: sum.splits)
    show ?thesis using repeat_jobs_chans [OF _ js(1)] 2(2) [OF tpl False] js(2) by simp
  qed
  have rest: "n1 \<le> n' \<and> \<Union> (seg_chans ` {s. Some s \<in> set ts}) \<subseteq> {n1..<n'}"
    by (rule 2(3) [OF tpl s refl ts(1)])
  have "{x. Some x \<in> set ss} = set_option s \<union> {x. Some x \<in> set ts}" using ts(2) by auto
  then show ?case using one rest by (simp add: UN_Un) force
next
  case (4 be name kvs jobs ifs thens elses n)
  obtain config bypass where c: "ExpandedConfig (be_getenv be) (be_args be) kvs = Inr config" "Branch_New config = Inr bypass"
    using 4(4) by (auto split: sum.splits)
  obtain iss n1 where i: "SegmentsFromRepr be ifs n = Inr (iss, n1)" using 4(4) c by (auto split: sum.splits)
  obtain cp n2 where cp: "New (be_pass be) n1 iss = (cp, n2)" by fastforce
  obtain tss n3 where t: "SegmentsFromRepr be thens n2 = Inr (tss, n3)" using 4(4) c i cp by (auto split: sum.splits)
  obtain tp n4 where tp: "New (be_pass be) n3 tss = (tp, n4)" by fastforce
  obtain ess n5 where e: "SegmentsFromRepr be elses n4 = Inr (ess, n5)" using 4(4) c i cp t tp by (auto split: sum.splits)
  obtain ep n6 where ep: "New (be_pass be) n5 ess = (ep, n6)" by fastforce
  have r: "so = Some (Branch bypass cp tp ep unwired)" "n' = n6" using 4(4) c i cp t tp e ep by auto
  have I: "n \<le> n1 \<and> \<Union> (seg_chans ` {s. Some s \<in> set iss}) \<subseteq> {n..<n1}" using 4(1) c i by blast
  have T: "n2 \<le> n3 \<and> \<Union> (seg_chans ` {s. Some s \<in> set tss}) \<subseteq> {n2..<n3}" using 4(2) c i cp t by (metis prod.collapse)
  have E: "n4 \<le> n5 \<and> \<Union> (seg_chans ` {s. Some s \<in> set ess}) \<subseteq> {n4..<n5}" using 4(3) c i cp t tp e by (metis prod.collapse)
  note chans = New_chans [OF cp] New_chans [OF tp] New_chans [OF ep]
  have "\<forall>p\<in>set_option cp. pipe_chans p \<subseteq> {n..<n6}" using chans I T E by fastforce
  moreover have "\<forall>p\<in>set_option tp. pipe_chans p \<subseteq> {n..<n6}" using chans I T E by fastforce
  moreover have "\<forall>p\<in>set_option ep. pipe_chans p \<subseteq> {n..<n6}" using chans I T E by fastforce
  ultimately show ?case using r chans I T E by auto
qed (auto split: sum.splits option.splits)

lemma NewFromReprs_chans:
  assumes "NewFromReprs be rs n = Inr (po, n')"
  shows "n < n' \<and> (\<forall>p\<in>set_option po. pipe_chans p \<subseteq> {n..<n'})"
proof -
  obtain ss n1 where s: "SegmentsFromRepr be rs n = Inr (ss, n1)" "New (be_pass be) n1 ss = (po, n')"
    using assms by (auto simp: NewFromReprs_def split: sum.splits)
  have "\<Union> (seg_chans ` {s. Some s \<in> set ss}) \<subseteq> {n..<n1}" "n \<le> n1" using build_chans(1) [OF s(1)] by blast+
  then show ?thesis using New_chans [OF s(2)] by fastforce
qed

lemma spawn_chans:
  "spawn be rs k n = Inr (ps, n') \<Longrightarrow> length ps = k \<and> n \<le> n' \<and> (\<forall>p\<in>set ps. pipe_chans p \<subseteq> {n..<n'})
     \<and> (\<forall>j<k. \<forall>i<j. pipe_chans (ps ! i) \<inter> pipe_chans (ps ! j) = {})"
proof (induction k arbitrary: n ps)
  case (Suc k)
  obtain p n1 qs where p: "NewFromReprs be rs n = Inr (Some p, n1)" "spawn be rs k n1 = Inr (qs, n')" "ps = p # qs"
    using Suc.prems by (auto simp: map_sum_def split: sum.splits option.splits)
  have c: "n < n1" "pipe_chans p \<subseteq> {n..<n1}" using NewFromReprs_chans [OF p(1)] by auto
  note IH = Suc.IH [OF p(2)]
  have "pipe_chans p \<inter> pipe_chans q = {}" if "q \<in> set qs" for q using IH c that by fastforce
  moreover have "\<forall>q\<in>set ps. pipe_chans q \<subseteq> {n..<n'}" using IH c p(3) by fastforce
  ultimately show ?case using IH c p(3) by (auto simp: nth_Cons split: nat.splits)
qed simp


section \<open>Properties of the program\<close>

lemma share_uses:
  fixes s :: "'i segment" and p :: "'i pipeline"
  shows "seg_uses (share_segment object now s) = map (\<lambda>(i, b). case object i of None \<Rightarrow> (i, b) | Some name \<Rightarrow> now name) (seg_uses s)"
    and "pipe_uses (share_pipeline object now p) = map (\<lambda>(i, b). case object i of None \<Rightarrow> (i, b) | Some name \<Rightarrow> now name) (pipe_uses p)"
proof (induction s and p rule: seg_uses_pipe_uses.induct)
  case (2 bp c t e b)
  then show ?case by (cases c; cases t; cases e) (simp_all add: map_concat comp_def)
qed (auto simp: map_concat comp_def split: option.split intro!: arg_cong [where f = concat])

lemma share_none:
  fixes s :: "'i segment" and p :: "'i pipeline"
  shows "\<forall>(i, b)\<in>set (seg_uses s). object i = None \<Longrightarrow> share_segment object now s = s"
    and "\<forall>(i, b)\<in>set (pipe_uses p). object i = None \<Longrightarrow> share_pipeline object now p = p"
proof (induction s and p rule: seg_uses_pipe_uses.induct)
  case (2 bp c t e b)
  then show ?case by (cases c; cases t; cases e) auto
qed (auto intro!: map_idI)

lemma object_now_named:
  assumes "(i, b) \<in> set (concat (map pipe_uses pipes))" "object i = Some name"
  shows "object (fst (object_now object pipes name)) = Some name"
proof -
  let ?xs = "filter (\<lambda>(i, b). object i = Some name) (concat (map pipe_uses pipes))"
  have "(i, b) \<in> set ?xs" using assms by auto
  then have "?xs \<noteq> []" by force
  then have "last ?xs \<in> set ?xs" by (rule last_in_set)
  then have "object (fst (last ?xs)) = Some name" by (auto simp del: last_in_set)
  then show ?thesis by (simp add: object_now_def)
qed

text \<open>Where no use is one of a registered object, the construction by values is exact.\<close>

lemma share_objects_none:
  assumes "\<forall>p\<in>set (share_objects object pipes). \<forall>(i, b)\<in>set (pipe_uses p). object i = None"
  shows "share_objects object pipes = pipes"
proof -
  have "object i = None" if p: "p \<in> set pipes" "(i, b) \<in> set (pipe_uses p)" for p i b
  proof (rule ccontr)
    assume "object i \<noteq> None"
    then obtain name where name: "object i = Some name" by auto
    have "object_now object pipes name \<in> set (pipe_uses (share_pipeline object (object_now object pipes) p))"
      unfolding share_uses using p(2) name by force
    then have "object (fst (object_now object pipes name)) = None" using assms p(1) by (fastforce simp: share_objects_def)
    moreover have "object (fst (object_now object pipes name)) = Some name" using object_now_named [of i b pipes object name] name p by auto
    ultimately show False by simp
  qed
  then have "share_pipeline object now p = p" if "p \<in> set pipes" for now p
    using share_none(2) [of p object now] that by fastforce
  then show ?thesis by (simp add: share_objects_def map_idI)
qed

text \<open>
  C17. When \<open>main\<close> waits for a signal it has built as many pipelines as asked for. If no segment in them is a
  registered object (a \<open>filegate\<close>, \<open>diskbuffer\<close> or \<open>lumberjack\<close>, whose \<open>New\<close> returns its receiver), each of them
  is built from the whole configuration with a registry that has all linked segments and those of the plugins, and no
  two pipelines have a channel in common, nested pipelines included: a flow stays in its pipeline.
\<close>

theorem main_pipelines:
  assumes "main_prog me fl = Inr (Waiting level pipes)" "\<forall>p\<in>set pipes. \<forall>(i, b)\<in>set (pipe_uses p). me_object me i = None"
  shows "level = zerologLogLevel (Some (fl_logLevel fl))
    \<and> length pipes = nat (pipelineCount (me_GOMAXPROCS me) (fl_concurrency fl))
    \<and> (\<forall>j<length pipes. \<forall>i<j. pipe_chans (pipes ! i) \<inter> pipe_chans (pipes ! j) = {})
    \<and> (\<exists>reg config rs. load_plugins (me_plugin_Open me) [] (fl_pluginPaths fl) (be_registry (me_build me)) = Inr (Some reg)
         \<and> me_ReadFile me (fl_configFile fl) = Some config \<and> me_yaml me config = Some rs
         \<and> (\<forall>p\<in>set pipes. \<exists>n n'. NewFromReprs ((me_build me)\<lparr>be_registry := reg\<rparr>) rs n = Inr (Some p, n')))"
proof -
  obtain reg config rs qs n' where m: "load_plugins (me_plugin_Open me) [] (fl_pluginPaths fl) (be_registry (me_build me)) = Inr (Some reg)"
    "me_ReadFile me (fl_configFile fl) = Some config" "me_yaml me config = Some rs"
    "spawn ((me_build me)\<lparr>be_registry := reg\<rparr>) rs (nat (pipelineCount (me_GOMAXPROCS me) (fl_concurrency fl))) 0 = Inr (qs, n')"
    "level = zerologLogLevel (Some (fl_logLevel fl))" "pipes = share_objects (me_object me) qs"
    using assms(1) by (auto simp: main_prog_def SegmentReprsFromConfig_def map_sum_def split: if_splits sum.splits option.splits)
  have eq: "pipes = qs" using share_objects_none [of "me_object me" qs] assms(2) unfolding m(6) by blast
  have "spawn be rs k n = Inr (ps, n') \<Longrightarrow> \<forall>p\<in>set ps. \<exists>n n'. NewFromReprs be rs n = Inr (Some p, n')" for be :: "'a build_env" and k n ps
    by (induction k arbitrary: n ps) (auto simp: map_sum_def split: sum.splits option.splits, metis)
  from this [OF m(4)] show ?thesis using spawn_chans [OF m(4)] m(1-5) unfolding eq by auto
qed

text \<open>
  Two uses of one registered object, in one pipeline or in two, have the same settings and the same channels
  when \<open>main\<close> waits, those of the last use.
\<close>

theorem main_shares_objects:
  assumes "main_prog me fl = Inr (Waiting level pipes)" "p \<in> set pipes" "q \<in> set pipes"
    and "(i, b) \<in> set (pipe_uses p)" "(j, d) \<in> set (pipe_uses q)" "me_object me i = Some name" "me_object me j = Some name"
  shows "i = j \<and> b = d"
proof -
  obtain qs where qs: "pipes = share_objects (me_object me) qs"
    using assms(1) by (auto simp: main_prog_def SegmentReprsFromConfig_def map_sum_def split: if_splits sum.splits option.splits)
  have "(k, x) = object_now (me_object me) qs name" if r: "r \<in> set pipes" "(k, x) \<in> set (pipe_uses r)" "me_object me k = Some name" for r k x
  proof -
    obtain r' where r': "r' \<in> set qs" "r = share_pipeline (me_object me) (object_now (me_object me) qs) r'"
      using r(1) by (auto simp: qs share_objects_def)
    then obtain k' x' where k': "(k', x') \<in> set (pipe_uses r')"
      "(k, x) = (case me_object me k' of None \<Rightarrow> (k', x') | Some name \<Rightarrow> object_now (me_object me) qs name)"
      using r(2) by (auto simp: share_uses)
    show ?thesis
    proof (cases "me_object me k'")
      case (Some n)
      have "me_object me (fst (object_now (me_object me) qs n)) = Some n" using object_now_named [of k' x' qs "me_object me" n] Some k'(1) r'(1) by auto
      then show ?thesis using k'(2) Some r(3) by (metis fst_conv option.inject option.simps(5))
    qed (use k'(2) r(3) in simp)
  qed
  from this [OF assms(2,4,6)] this [OF assms(3,5,7)] show ?thesis by (metis prod.inject)
qed

lemma demo_pass: "NewFromReprs demo_env [SegmentRepr ''pass'' [] 0 [] [] []] n =
  Inr (Some (Pipeline n (n + 1) None [Plain ''pass'' False (wire n (n + 1) unwired)]), n + 2)"
  by (simp add: NewFromReprs_def demo_lookup New_def)

definition demo_main :: "(string, string) main_env" where
  "demo_main = \<lparr>me_Version = ''v1'', me_plugin_Open = Map.empty, me_ReadFile = [''config.yml'' \<mapsto> ''- segment: pass''],
     me_GOMAXPROCS = 2, me_yaml = [''- segment: pass'' \<mapsto> [SegmentRepr ''pass'' [] 0 [] [] []]], me_build = demo_env, me_object = (\<lambda>_. None)\<rparr>"

lemma demo_main_waits:
  assumes "me = demo_main\<lparr>me_object := obj\<rparr>"
  shows "main_prog me (default_flags\<lparr>fl_concurrency := 0\<rparr>) = Inr (Waiting WarnLevel (share_objects obj
    [Pipeline 0 1 None [Plain ''pass'' False (wire 0 1 unwired)], Pipeline 2 3 None [Plain ''pass'' False (wire 2 3 unwired)]]))"
proof -
  have e: "demo_env\<lparr>be_registry := be_registry demo_env\<rparr> = demo_env" by simp
  show ?thesis unfolding assms
    by (simp add: main_prog_def demo_main_def default_flags_def SegmentReprsFromConfig_def pipelineCount_def
        zerologLogLevel_def numeral_2_eq_2 demo_pass e numeral_3_eq_3)
qed

theorem main_pipelines_witness:
  "\<exists>pipes. main_prog demo_main (default_flags\<lparr>fl_concurrency := 0\<rparr>) = Inr (Waiting WarnLevel pipes) \<and> length pipes = 2
     \<and> pipe_chans (pipes ! 0) \<inter> pipe_chans (pipes ! 1) = {}"
proof -
  obtain pipes where p: "main_prog demo_main (default_flags\<lparr>fl_concurrency := 0\<rparr>) = Inr (Waiting WarnLevel pipes)"
    using demo_main_waits [of demo_main "\<lambda>_. None"] by (simp add: demo_main_def)
  have o: "\<forall>p\<in>set pipes. \<forall>(i, b)\<in>set (pipe_uses p). me_object demo_main i = None" by (simp add: demo_main_def)
  have l: "length pipes = 2" "\<And>i j. j < length pipes \<Longrightarrow> i < j \<Longrightarrow> pipe_chans (pipes ! i) \<inter> pipe_chans (pipes ! j) = {}"
    using main_pipelines [OF p o] by (simp_all add: pipelineCount_def demo_main_def default_flags_def)
  show ?thesis using p l(1) l(2) [of 1 0] by (intro exI [of _ pipes]) simp
qed

text \<open>If \<open>pass\<close> were a registered object, both pipelines would have the channels of the second.\<close>

theorem main_shares_objects_witness:
  "\<exists>p q. main_prog (demo_main\<lparr>me_object := Some\<rparr>) (default_flags\<lparr>fl_concurrency := 0\<rparr>) = Inr (Waiting WarnLevel [p, q])
     \<and> pipe_uses p = pipe_uses q \<and> length (pipe_uses p) = 1"
proof -
  obtain p q i b j d where w: "main_prog (demo_main\<lparr>me_object := Some\<rparr>) (default_flags\<lparr>fl_concurrency := 0\<rparr>) = Inr (Waiting WarnLevel [p, q])"
    "pipe_uses p = [(i, b)]" "pipe_uses q = [(j, d)]" "i = ''pass''" "j = ''pass''"
    using demo_main_waits [OF refl, of Some] by (simp add: share_objects_def object_now_def)
  have "i = j \<and> b = d" using main_shares_objects [OF w(1), of p q i b j d "''pass''"] w by simp
  with w show ?thesis by auto
qed

text \<open>
  A number of pipelines of \<open>2^63\<close> or more, which the flag accepts, becomes negative: the program
  starts no pipeline at all and waits for a signal.
\<close>

theorem main_count_wraps:
  assumes "2 ^ 63 \<le> unat (fl_concurrency fl)" "main_prog me fl = Inr (Waiting level pipes)"
  shows "pipes = []"
proof -
  have u: "2 ^ 63 \<le> uint (fl_concurrency fl)"
    using assms(1) by (metis of_nat_le_iff of_nat_numeral of_nat_power uint_nat)
  have m: "(x + 9223372036854775808) mod 18446744073709551616 < 9223372036854775808"
    if "9223372036854775808 \<le> x" "x < 18446744073709551616" for x :: int
  proof -
    have "(x + 9223372036854775808) mod 18446744073709551616 = ((x - 9223372036854775808) + 18446744073709551616) mod 18446744073709551616"
      by (simp add: add.commute)
    also have "\<dots> = x - 9223372036854775808" using that by (simp only: mod_add_self2) simp
    finally show ?thesis using that by simp
  qed
  have "signed_take_bit 63 (uint (fl_concurrency fl)) < 0"
    using u uint_bounded [of "fl_concurrency fl"] m [of "uint (fl_concurrency fl)"]
    by (simp add: signed_take_bit_eq_take_bit_shift take_bit_eq_mod)
  then have "sint (fl_concurrency fl) < 0"
    by (simp add: sint_uint)
  moreover have "fl_concurrency fl \<noteq> 0" using u by auto
  moreover obtain be rs qs n' where "spawn be rs (nat (pipelineCount (me_GOMAXPROCS me) (fl_concurrency fl))) 0 = Inr (qs, n')"
    "pipes = share_objects (me_object me) qs"
    using assms(2) by (auto simp: main_prog_def map_sum_def split: if_splits sum.splits option.splits)
  ultimately show ?thesis by (simp add: pipelineCount_def share_objects_def)
qed

theorem main_count_wraps_witness:
  "main_prog demo_main (default_flags\<lparr>fl_concurrency := 2 ^ 63\<rparr>) = Inr (Waiting WarnLevel [])"
proof -
  have e: "main_prog demo_main (default_flags\<lparr>fl_concurrency := 2 ^ 63\<rparr>) = Inr (Waiting WarnLevel (share_objects (\<lambda>_. None) pipes))"
    if "spawn demo_env [SegmentRepr ''pass'' [] 0 [] [] []] (nat (pipelineCount 2 (2 ^ 63))) 0 = Inr (pipes, n')" for pipes n'
    using that by (simp add: main_prog_def demo_main_def default_flags_def SegmentReprsFromConfig_def zerologLogLevel_def)
  have "nat (pipelineCount 2 (2 ^ 63)) = 0" by (simp add: pipelineCount_def)
  then have "spawn demo_env [SegmentRepr ''pass'' [] 0 [] [] []] (nat (pipelineCount 2 (2 ^ 63))) 0 = Inr ([], 0)" by simp
  from e [OF this] have m: "main_prog demo_main (default_flags\<lparr>fl_concurrency := 2 ^ 63\<rparr>) = Inr (Waiting WarnLevel [])"
    by (simp add: share_objects_def)
  from main_count_wraps [OF _ m] show ?thesis using m by simp
qed

lemma Pipeline_Close_returns:
  assumes "\<And>s. s \<in> set (SegmentList p) \<Longrightarrow> segment_Close own s = CloseReturns"
  shows "Pipeline_Close own closed p = Some (insert (P_In p) closed)"
proof -
  have "(\<forall>r\<in>set rs. r = CloseReturns) \<Longrightarrow> close_each rs = CloseReturns" for rs
    by (induction rs rule: close_each.induct) auto
  then have "close_each (map (segment_Close own) (SegmentList p)) = CloseReturns" using assms by simp
  then show ?thesis by (auto simp: Pipeline_Close_def close_chan_def insert_absorb)
qed

text \<open>
  A graceful shutdown: if the \<open>Close\<close> of every segment returns and every pipeline ends once its
  input is closed, then \<open>main\<close> returns and has closed the inputs of exactly its pipelines. Closing
  again changes nothing, as the panic is recovered.
\<close>

theorem shutdown_closes_all:
  assumes "\<forall>p\<in>set pipes. (\<forall>s\<in>set (SegmentList p). segment_Close own s = CloseReturns) \<and> (\<forall>closed. P_In p \<in> closed \<longrightarrow> ends p closed)"
  shows "main_shutdown own ends pipes = (P_In ` set pipes, True)
    \<and> (\<forall>p\<in>set pipes. Pipeline_Close own (P_In ` set pipes) p = Some (P_In ` set pipes))"
proof
  have "\<forall>p\<in>set ps. (\<forall>s\<in>set (SegmentList p). segment_Close own s = CloseReturns) \<and> (\<forall>closed. P_In p \<in> closed \<longrightarrow> ends p closed)
    \<Longrightarrow> close_pipelines own ends closed ps = (closed \<union> P_In ` set ps, True)" for ps closed
    by (induction ps arbitrary: closed) (simp_all add: Pipeline_Close_returns)
  from this [of "rev pipes" "{}"] show "main_shutdown own ends pipes = (P_In ` set pipes, True)"
    using assms by (simp add: main_shutdown_def)
  show "\<forall>p\<in>set pipes. Pipeline_Close own (P_In ` set pipes) p = Some (P_In ` set pipes)"
    using assms by (auto simp: Pipeline_Close_returns insert_absorb)
qed

theorem shutdown_closes_all_witness:
  "main_shutdown (\<lambda>_. CloseReturns) (\<lambda>p c. P_In p \<in> c)
     [Pipeline 0 1 None [Plain () False unwired], Pipeline 2 3 None [Plain () False unwired]] = ({0, 2}, True)"
  using shutdown_closes_all [of "[Pipeline 0 1 None [Plain () False unwired], Pipeline 2 3 None [Plain () False unwired]]"
      "\<lambda>_. CloseReturns" "\<lambda>p c. P_In p \<in> c"] by (simp add: insert_commute)

text \<open>
  One segment whose \<open>Close\<close> does not return (a Kafka consumer that has already ended, so that
  nobody receives from its channel) keeps the input of its pipeline, and of all pipelines started
  before, open: \<open>main\<close> does not return, and the flows in those pipelines are lost when the process
  is ended by force.
\<close>

theorem shutdown_blocked:
  assumes "pipes = before @ p # after" "close_each (map (segment_Close own) (SegmentList p)) = CloseBlocks"
    and "P_In ` set after \<inter> P_In ` set (p # before) = {}"
  shows "snd (main_shutdown own ends pipes) = False \<and> fst (main_shutdown own ends pipes) \<inter> P_In ` set (p # before) = {}"
proof -
  have blocks: "Pipeline_Close own closed p = None" for closed using assms(2) by (simp add: Pipeline_Close_def)
  have grows: "Pipeline_Close own closed q = Some closed' \<Longrightarrow> closed' \<subseteq> insert (P_In q) closed" for closed q closed'
    by (auto simp: Pipeline_Close_def close_chan_def split: close_result.splits if_splits)
  have "snd (close_pipelines own ends closed (qs @ p # ps)) = False
      \<and> fst (close_pipelines own ends closed (qs @ p # ps)) \<subseteq> closed \<union> P_In ` set qs" for qs ps closed
  proof (induction qs arbitrary: closed)
    case (Cons q qs)
    show ?case
    proof (cases "Pipeline_Close own closed q")
      case (Some closed')
      then show ?thesis using Cons.IH [of closed'] grows [OF Some] by auto
    qed auto
  qed (simp add: blocks)
  from this [of "{}" "rev after" "rev before"] show ?thesis using assms(1,3) by (auto simp: main_shutdown_def)
qed

theorem shutdown_blocked_witness:
  "snd (main_shutdown (\<lambda>k. if k then CloseBlocks else CloseReturns) (\<lambda>_ _. True)
     [Pipeline 0 1 None [Plain False False unwired], Pipeline 2 3 None [Plain True False unwired]]) = False"
  using shutdown_blocked [of _ "[Pipeline 0 1 None [Plain False False unwired]]" "Pipeline 2 3 None [Plain True False unwired]" "[]"
      "\<lambda>k. if k then CloseBlocks else CloseReturns" "\<lambda>_ _. True"] by simp


section \<open>Segment objects in a heap\<close>

text \<open>
  The registry holds pointers to objects. \<open>New\<close> of most types ignores its receiver and returns a
  new object; that of \<open>filegate\<close>, \<open>diskbuffer\<close> and \<open>lumberjack\<close> returns the receiver, so that
  every use of such a segment is the registered object at one address.
\<close>

type_synonym addr = nat

datatype new_kind = Fresh | Receiver addr

record heap =
  h_base :: "addr \<Rightarrow> BaseSegment"
  h_addr :: addr
  h_chan :: chan

fun new_object :: "new_kind \<Rightarrow> heap \<Rightarrow> addr \<times> heap" where
  "new_object Fresh h = (h_addr h, h\<lparr>h_base := (h_base h)(h_addr h := unwired), h_addr := h_addr h + 1\<rparr>)"
| "new_object (Receiver a) h = (a, h)"

fun new_objects :: "new_kind list \<Rightarrow> heap \<Rightarrow> addr list \<times> heap" where
  "new_objects [] h = ([], h)"
| "new_objects (k # ks) h = (let (a, h1) = new_object k h; (as, h2) = new_objects ks h1 in (a # as, h2))"

text \<open>The loop of \<open>pipeline.New\<close>: a new channel and \<open>Rewire\<close> for every object.\<close>

fun rewire_objects :: "chan \<Rightarrow> addr list \<Rightarrow> heap \<Rightarrow> heap" where
  "rewire_objects c [] h = h"
| "rewire_objects c (a # as) h =
     rewire_objects (h_chan h) as
       (h\<lparr>h_base := (h_base h)(a := wire c (h_chan h) (h_base h a)), h_chan := h_chan h + 1\<rparr>)"

text \<open>A pass of the loop in \<open>main\<close>: the pipeline's input channel and its objects.\<close>

definition heap_pipeline :: "new_kind list \<Rightarrow> heap \<Rightarrow> (chan \<times> addr list) \<times> heap" where
  "heap_pipeline ks h =
     (let (as, h1) = new_objects ks h
      in ((h_chan h1, as), rewire_objects (h_chan h1) as (h1\<lparr>h_chan := h_chan h1 + 1\<rparr>)))"

text \<open>Addresses and channels in use lie below the counters.\<close>

definition heap_ok :: "heap \<Rightarrow> bool" where
  "heap_ok h \<longleftrightarrow> (\<forall>a. base_chans (h_base h a) \<subseteq> {..<h_chan h})"

lemma new_objects_heap:
  "new_objects ks h = (as, h') \<Longrightarrow> h_chan h' = h_chan h \<and> length as = length ks
     \<and> (\<forall>i<length ks. \<forall>a. ks ! i = Receiver a \<longrightarrow> as ! i = a) \<and> (\<forall>b. h_base h' b = h_base h b \<or> h_base h' b = unwired)"
proof (induction ks h arbitrary: as rule: new_objects.induct)
  case (2 k ks h)
  obtain a h1 as' where s: "new_object k h = (a, h1)" "new_objects ks h1 = (as', h')" "as = a # as'"
    using 2(2) by (auto split: prod.splits)
  note IH = 2(1) [OF s(1) [symmetric] refl s(2)]
  show ?case
  proof (intro conjI allI impI)
    fix i a' assume "i < length (k # ks)" "(k # ks) ! i = Receiver a'"
    then show "as ! i = a'" using IH s by (cases i) auto
  next
    fix b
    have "h_base h1 b = h_base h b \<or> h_base h1 b = unwired" using s(1) by (cases k) auto
    then show "h_base h' b = h_base h b \<or> h_base h' b = unwired" using IH by metis
  qed (use IH s in \<open>cases k; auto\<close>)+
qed simp

lemma rewire_objects_heap:
  "h_chan (rewire_objects c as h) = h_chan h + length as
   \<and> (\<forall>b. b \<notin> set as \<longrightarrow> h_base (rewire_objects c as h) b = h_base h b)
   \<and> (\<forall>b\<in>set as. \<exists>i<length as. as ! i = b \<and> In (h_base (rewire_objects c as h) b) = Some (if i = 0 then c else h_chan h + i - 1)
        \<and> Out_chan (h_base (rewire_objects c as h) b) = Some (h_chan h + i))
   \<and> (\<forall>b. Drops_chan (h_base (rewire_objects c as h) b) = Drops_chan (h_base h b))"
proof (induction c as h rule: rewire_objects.induct)
  case (2 c a as h)
  let ?h = "h\<lparr>h_base := (h_base h)(a := wire c (h_chan h) (h_base h a)), h_chan := h_chan h + 1\<rparr>"
  let ?r = "rewire_objects (h_chan h) as ?h"
  have "\<exists>i<length (a # as). (a # as) ! i = b \<and> In (h_base ?r b) = Some (if i = 0 then c else h_chan h + i - 1)
        \<and> Out_chan (h_base ?r b) = Some (h_chan h + i)" if "b \<in> set (a # as)" for b
  proof (cases "b \<in> set as")
    case True
    then obtain i where i: "i < length as" "as ! i = b" "In (h_base ?r b) = Some (if i = 0 then h_chan h else h_chan ?h + i - 1)"
      "Out_chan (h_base ?r b) = Some (h_chan ?h + i)" using 2 by blast
    then show ?thesis by (intro exI [of _ "Suc i"]) simp
  next
    case False
    then have "b = a" "h_base ?r b = wire c (h_chan h) (h_base h a)" using that 2 by auto
    then show ?thesis by (intro exI [of _ 0]) (simp add: wire_def)
  qed
  then show ?case using 2 by (auto simp: wire_def)
qed simp

text \<open>What \<open>heap_pipeline\<close> does to the wiring of each object.\<close>

lemma heap_pipeline_wires:
  assumes "heap_pipeline ks h = ((c, as), h')"
  shows "c = h_chan h" "h_chan h' = h_chan h + length ks + 1" "length as = length ks"
    and "\<And>i a. i < length ks \<Longrightarrow> ks ! i = Receiver a \<Longrightarrow> as ! i = a"
    and "\<And>b. b \<in> set as \<Longrightarrow> \<exists>i<length as. as ! i = b \<and> In (h_base h' b) = Some (c + i) \<and> Out_chan (h_base h' b) = Some (c + i + 1)"
    and "\<And>b. b \<notin> set as \<Longrightarrow> h_base h' b = h_base h b \<or> h_base h' b = unwired"
    and "\<And>b. Drops_chan (h_base h' b) = Drops_chan (h_base h b) \<or> Drops_chan (h_base h' b) = None"
proof -
  obtain h1 where n: "new_objects ks h = (as, h1)" "c = h_chan h1" "h' = rewire_objects c as (h1\<lparr>h_chan := h_chan h1 + 1\<rparr>)"
    using assms by (auto simp: heap_pipeline_def Let_def split: prod.splits)
  note N = new_objects_heap [OF n(1)]
  note R = rewire_objects_heap [of c as "h1\<lparr>h_chan := h_chan h1 + 1\<rparr>", folded n(3)]
  show "c = h_chan h" "h_chan h' = h_chan h + length ks + 1" "length as = length ks" using n N R by simp_all
  show "as ! i = a" if "i < length ks" "ks ! i = Receiver a" for i a using N that by blast
  show "\<exists>i<length as. as ! i = b \<and> In (h_base h' b) = Some (c + i) \<and> Out_chan (h_base h' b) = Some (c + i + 1)" if "b \<in> set as" for b
    using R that n(2) by (fastforce split: if_splits)
  show "h_base h' b = h_base h b \<or> h_base h' b = unwired" if "b \<notin> set as" for b
    using R N that by simp
  show "Drops_chan (h_base h' b) = Drops_chan (h_base h b) \<or> Drops_chan (h_base h' b) = None" for b
    using R N by (auto simp: unwired_def dest: spec [of _ b])
qed


subsection \<open>Objects used once\<close>

fun object_base :: "heap \<Rightarrow> new_kind \<Rightarrow> BaseSegment" where
  "object_base h Fresh = unwired"
| "object_base h (Receiver a) = h_base h a"

lemma new_objects_other: "new_objects ks h = (as, h') \<Longrightarrow> b \<notin> set as \<Longrightarrow> h_base h' b = h_base h b"
proof (induction ks h arbitrary: as rule: new_objects.induct)
  case (2 k ks h)
  obtain a h1 as' where s: "new_object k h = (a, h1)" "new_objects ks h1 = (as', h')" "as = a # as'"
    using 2(2) by (auto split: prod.splits)
  have "h_base h1 b = h_base h b" using s(1,3) 2(3) by (cases k) auto
  then show ?case using 2(1) [OF s(1) [symmetric] refl s(2)] 2(3) s(3) by simp
qed simp

lemma new_objects_base: "new_objects ks h = (as, h') \<Longrightarrow> distinct as \<Longrightarrow> map (h_base h') as = map (object_base h) ks"
proof (induction ks h arbitrary: as rule: new_objects.induct)
  case (2 k ks h)
  obtain a h1 as' where s: "new_object k h = (a, h1)" "new_objects ks h1 = (as', h')" "as = a # as'"
    using 2(2) by (auto split: prod.splits)
  have a: "a \<notin> set as'" "distinct as'" using 2(3) s(3) by auto
  have "h_base h' a = object_base h k" using new_objects_other [OF s(2) a(1)] s(1) by (cases k) auto
  moreover have "object_base h1 k' = object_base h k'" if k': "k' \<in> set ks" for k'
  proof (cases k')
    case (Receiver b)
    then obtain i where "i < length ks" "ks ! i = Receiver b" using k' by (metis in_set_conv_nth)
    then have "b \<in> set as'" using new_objects_heap [OF s(2)] by (metis nth_mem)
    then have "b \<noteq> a" using a by auto
    then show ?thesis using s(1) Receiver by (cases k) auto
  qed simp
  ultimately show ?case using 2(1) [OF s(1) [symmetric] refl s(2) a(2)] s(3) by (simp cong: map_cong)
qed simp

lemma rewire_objects_New:
  "distinct as \<Longrightarrow> wire_all c (h_chan h) (map (\<lambda>a. Some (Plain () False (h_base h a))) as) =
     (Some (map (\<lambda>a. Plain () False (h_base (rewire_objects c as h) a)) as, if as = [] then c else h_chan h + length as - 1),
      h_chan h + length as)"
proof (induction c as h rule: rewire_objects.induct)
  case (2 c a as h)
  let ?h = "h\<lparr>h_base := (h_base h)(a := wire c (h_chan h) (h_base h a)), h_chan := h_chan h + 1\<rparr>"
  have a: "a \<notin> set as" "distinct as" using 2(2) by auto
  have m: "map (\<lambda>a. Some (Plain () False (h_base ?h a))) as = map (\<lambda>a. Some (Plain () False (h_base h a))) as"
    using a(1) by auto
  have "h_base (rewire_objects (h_chan h) as ?h) a = wire c (h_chan h) (h_base h a)"
    using rewire_objects_heap [of "h_chan h" as ?h] a(1) by auto
  then show ?case using 2(1) [OF a(2), unfolded m] by simp
qed simp

text \<open>
  C18. Refinement: as long as no object is used twice, the pipeline in the heap is the one that
  \<open>pipeline.New\<close> builds from segments as values, so the properties of the wiring hold for it.
\<close>

theorem heap_refines_New:
  assumes "heap_pipeline ks h = ((c, as), h')" "distinct as" "ks \<noteq> []"
  shows "New () (h_chan h) (map (\<lambda>k. Some (Plain () False (object_base h k))) ks) =
    (Some (Pipeline c (c + length ks) None (map (\<lambda>a. Plain () False (h_base h' a)) as)), h_chan h')"
proof -
  obtain h1 where n: "new_objects ks h = (as, h1)" "c = h_chan h1" "h' = rewire_objects c as (h1\<lparr>h_chan := h_chan h1 + 1\<rparr>)"
    using assms(1) by (auto simp: heap_pipeline_def Let_def split: prod.splits)
  note N = new_objects_heap [OF n(1)]
  have "as \<noteq> []" using N assms(3) by auto
  have "map (\<lambda>k. Some (Plain () False (object_base h k))) ks = map (\<lambda>b. Some (Plain () False b)) (map (h_base h1) as)"
    unfolding new_objects_base [OF n(1) assms(2)] by simp
  moreover have "h_chan h' = h_chan h + length ks + 1" by (rule heap_pipeline_wires(2) [OF assms(1)])
  moreover note rewire_objects_New [OF assms(2), of c "h1\<lparr>h_chan := h_chan h1 + 1\<rparr>", folded n(3)]
  ultimately show ?thesis using n(2) N \<open>as \<noteq> []\<close> assms(3) by (simp add: New_def Let_def comp_def)
qed

definition demo_heap :: heap where
  "demo_heap = \<lparr>h_base = (\<lambda>_. unwired), h_addr = 1, h_chan = 0\<rparr>"

theorem heap_refines_New_witness:
  "\<exists>h'. heap_pipeline [Fresh, Receiver 0] demo_heap = ((0, [1, 0]), h')
     \<and> New () 0 [Some (Plain () False unwired), Some (Plain () False unwired)] =
        (Some (Pipeline 0 2 None [Plain () False (h_base h' 1), Plain () False (h_base h' 0)]), h_chan h')"
proof -
  obtain h' where h': "heap_pipeline [Fresh, Receiver 0] demo_heap = ((0, [1, 0]), h')"
    by (simp add: heap_pipeline_def demo_heap_def)
  show ?thesis using heap_refines_New [OF h'] h' by (intro exI [of _ h']) (simp add: demo_heap_def numeral_2_eq_2)
qed

subsection \<open>Objects used by two pipelines\<close>

text \<open>
  With \<open>-n 2\<close> a segment type whose \<open>New\<close> returns its receiver breaks the first pipeline: building
  the second one rewires the object, so that no object reads the channel into it any more and the
  first pipeline stops there (unless its goroutine has already taken up the old channel, but then
  its flows go to the second pipeline); and at the shutdown the two \<open>Run\<close>s of the object close the
  same channel, in whatever order the segments end, which panics.
\<close>

theorem shared_receiver_rewired:
  assumes "heap_ok h" "heap_pipeline ks h = ((c1, as1), h1)" "heap_pipeline ks h1 = ((c2, as2), h2)"
    and "i < length ks" "ks ! i = Receiver a"
  shows "(\<forall>b. In (h_base h2 b) \<noteq> Some (c1 + i))
    \<and> (\<forall>cs. mset cs = mset (map (\<lambda>b. Out_chan (h_base h2 b)) (as1 @ as2)) \<longrightarrow> (\<exists>msg. close_all {} cs = Inl (Panic msg)))"
proof (intro conjI allI impI)
  note w1 = heap_pipeline_wires [OF assms(2)] and w2 = heap_pipeline_wires [OF assms(3)]
  have a: "as1 ! i = a" "as2 ! i = a" "i < length as1" "i < length as2"
    using w1(3,4) w2(3,4) assms(4,5) by auto
  fix b
  show "In (h_base h2 b) \<noteq> Some (c1 + i)"
  proof
    assume b: "In (h_base h2 b) = Some (c1 + i)"
    have "b \<notin> set as2"
    proof
      assume "b \<in> set as2"
      then obtain j where "In (h_base h2 b) = Some (c2 + j)" using w2(5) by blast
      then show False using b w1(2) w2(1) assms(4) w1(1) by simp
    qed
    then have "In (h_base h1 b) = Some (c1 + i)" using w2(6) [of b] b by (auto simp: unwired_def)
    moreover have "b \<noteq> a" using \<open>b \<notin> set as2\<close> a(2,4) by (metis nth_mem)
    ultimately have b1: "b \<notin> set as1" using w1(5) [of b] a(1) by auto
    then have "In (h_base h b) = Some (h_chan h + i)"
      using w1(6) [OF b1] w1(1) \<open>In (h_base h1 b) = Some (c1 + i)\<close> by (auto simp: unwired_def)
    then have "h_chan h + i \<in> base_chans (h_base h b)" by (simp add: base_chans_def)
    then show False using assms(1) by (fastforce simp: heap_ok_def)
  qed
next
  note w1 = heap_pipeline_wires [OF assms(2)] and w2 = heap_pipeline_wires [OF assms(3)]
  have a: "a \<in> set as1" "a \<in> set as2" using w1(3,4) w2(3,4) assms(4,5) by (metis nth_mem)+
  fix cs assume "mset cs = mset (map (\<lambda>b. Out_chan (h_base h2 b)) (as1 @ as2))"
  moreover have "\<not> distinct (map (\<lambda>b. Out_chan (h_base h2 b)) (as1 @ as2))" using a by auto
  ultimately have "\<not> distinct cs" using mset_eq_imp_distinct_iff by blast
  then show "\<exists>msg. close_all {} cs = Inl (Panic msg)"
    using close_all_distinct close_all_panics by (cases "close_all {} cs") blast+
qed

theorem shared_receiver_rewired_witness:
  "\<exists>c1 as1 h1 c2 as2 h2. heap_pipeline [Fresh, Receiver 0] demo_heap = ((c1, as1), h1)
     \<and> heap_pipeline [Fresh, Receiver 0] h1 = ((c2, as2), h2) \<and> (\<forall>b. In (h_base h2 b) \<noteq> Some (c1 + 1))"
proof -
  have ok: "heap_ok demo_heap" by (simp add: heap_ok_def demo_heap_def)
  obtain c1 as1 h1 where 1: "heap_pipeline [Fresh, Receiver 0] demo_heap = ((c1, as1), h1)" by (metis surj_pair)
  obtain c2 as2 h2 where 2: "heap_pipeline [Fresh, Receiver 0] h1 = ((c2, as2), h2)" by (metis surj_pair)
  have "\<forall>b. In (h_base h2 b) \<noteq> Some (c1 + 1)" using shared_receiver_rewired [OF ok 1 2, of 1 0] by simp
  then show ?thesis using 1 2 by blast
qed

end
