(* ===== verification/BranchNet.thy ===== *)
theory BranchNet
  imports Branching
begin

text \<open>
  A running branch segment (\<open>Branch.Run\<close> in \<open>segments/controlflow/branch/branch.go\<close>) as a step
  relation: the goroutine of \<open>Run\<close> with its shutdown sequence, the two forwarding loops, and the
  goroutines of the three inner pipelines, which here contain no further branch. A pipeline
  is the list of its goroutines as in \<open>Network\<close>, but now its environment is not a caller that is always
  ready: every step of it has a label that says how it meets the outside.
\<close>

section \<open>Pipelines with an environment\<close>

datatype 'm label = Tau | Takes 'm | SeesClose | Gives 'm | GivesDrop 'm

inductive pipe_step :: "'m gor list \<Rightarrow> 'm label \<Rightarrow> 'm gor list \<Rightarrow> bool" where
  takes: "on_msg s m = Inr (es, s') \<Longrightarrow> pipe_step (Recv s # gs) (Takes m) (resume es s' # gs)"
| passes: "on_msg t m = Inr (fs, t') \<Longrightarrow>
    pipe_step (xs @ Send (Out m # es) s # Recv t # ys) Tau (xs @ resume es s # resume fs t' # ys)"
| gives: "pipe_step (xs @ [Send (Out m # es) s]) (Gives m) (xs @ [resume es s])"
| gives_drop: "pipe_step (xs @ Send (Drop m # es) s # ys) (GivesDrop m) (xs @ resume es s # ys)"
| sees_close: "pipe_step (Recv s # gs) SeesClose (Done # gs)"
| closes_next: "pipe_step (xs @ Done # Recv s # ys) Tau (xs @ Done # Done # ys)"

inductive_simps pipe_step_Takes: "pipe_step gs (Takes m) gs'"
inductive_simps pipe_step_SeesClose: "pipe_step gs SeesClose gs'"

text \<open>
  The environment of \<open>Network\<close>: the caller offers the inputs and then closes, the drain and the
  subscriber of the drops take everything. In it a pipeline makes the steps of the network.
\<close>

inductive in_network :: "'m net \<Rightarrow> 'm label \<Rightarrow> 'm net \<Rightarrow> bool" where
  "in_network n Tau n"
| "inputs n = m # ms \<Longrightarrow> in_network n (Takes m) (n\<lparr>inputs := ms\<rparr>)"
| "inputs n = [] \<Longrightarrow> in_network n SeesClose n"
| "in_network n (Gives m) (n\<lparr>out_got := out_got n @ [m]\<rparr>)"
| "in_network n (GivesDrop m) (n\<lparr>drop_got := drop_got n @ [m]\<rparr>)"

theorem network_of_pipes:
  assumes "crashed n = None" "crashed n' = None"
  shows "net_step n n' \<longleftrightarrow> (\<exists>l n1 gs. pipe_step (gors n) l gs \<and> in_network n l n1 \<and> n' = n1\<lparr>gors := gs\<rparr>)"
proof
  assume "net_step n n'"
  then show "\<exists>l n1 gs. pipe_step (gors n) l gs \<and> in_network n l n1 \<and> n' = n1\<lparr>gors := gs\<rparr>"
  proof (cases rule: net_step.cases)
    case (feed m ms s gs es s')
    then show ?thesis
      by (intro exI [of _ "Takes m"] exI [of _ "n\<lparr>inputs := ms\<rparr>"] exI [of _ "resume es s' # gs"])
        (simp add: pipe_step.takes in_network.intros)
  next
    case (hand_over xs m es s t ys fs t')
    then show ?thesis by (intro exI [of _ Tau] exI [of _ n]) (auto intro: pipe_step.passes in_network.intros)
  next
    case (drain xs m es s)
    then show ?thesis
      by (intro exI [of _ "Gives m"] exI [of _ "n\<lparr>out_got := out_got n @ [m]\<rparr>"] exI [of _ "xs @ [resume es s]"])
        (simp add: pipe_step.gives in_network.intros)
  next
    case (drop xs m es s ys)
    then show ?thesis
      by (intro exI [of _ "GivesDrop m"] exI [of _ "n\<lparr>drop_got := drop_got n @ [m]\<rparr>"] exI [of _ "xs @ resume es s # ys"])
        (simp add: pipe_step.gives_drop in_network.intros)
  next
    case (close_first s gs)
    then show ?thesis by (intro exI [of _ SeesClose] exI [of _ n]) (auto intro: pipe_step.sees_close in_network.intros)
  next
    case (close_next xs s ys)
    then show ?thesis by (intro exI [of _ Tau] exI [of _ n]) (auto intro: pipe_step.closes_next in_network.intros)
  qed (use assms in auto)
next
  assume "\<exists>l n1 gs. pipe_step (gors n) l gs \<and> in_network n l n1 \<and> n' = n1\<lparr>gors := gs\<rparr>"
  then obtain l n1 gs where p: "pipe_step (gors n) l gs" "in_network n l n1" "n' = n1\<lparr>gors := gs\<rparr>" by blast
  show "net_step n n'"
    using p(1)
  proof (cases rule: pipe_step.cases)
    case (takes s m es s' gs')
    with p(2) obtain ms where i: "inputs n = m # ms" "n1 = n\<lparr>inputs := ms\<rparr>" by (auto elim: in_network.cases)
    show ?thesis using net_step.feed [OF assms(1) i(1) takes(1) takes(4)] p(3) i(2) takes(3) by simp
  next
    case (passes t m fs t' xs es s ys)
    with p(2) have "n1 = n" by (auto elim: in_network.cases)
    then show ?thesis using net_step.hand_over [OF assms(1) passes(1) passes(4)] p(3) passes(3) by simp
  next
    case (gives xs m es s)
    with p(2) have "n1 = n\<lparr>out_got := out_got n @ [m]\<rparr>" by (auto elim: in_network.cases)
    then have "n' = n\<lparr>gors := xs @ [resume es s], out_got := out_got n @ [m]\<rparr>" using p(3) gives(3) by simp
    then show ?thesis using net_step.drain [OF assms(1) gives(1)] by simp
  next
    case (gives_drop xs m es s ys)
    with p(2) have "n1 = n\<lparr>drop_got := drop_got n @ [m]\<rparr>" by (auto elim: in_network.cases)
    then have "n' = n\<lparr>gors := xs @ resume es s # ys, drop_got := drop_got n @ [m]\<rparr>" using p(3) gives_drop(3) by simp
    then show ?thesis using net_step.drop [OF assms(1) gives_drop(1)] by simp
  next
    case (sees_close s gs')
    with p(2) have "n1 = n" "inputs n = []" by (auto elim: in_network.cases)
    then show ?thesis using net_step.close_first [OF assms(1) _ sees_close(1)] p(3) sees_close(3) by simp
  next
    case (closes_next xs s ys)
    with p(2) have "n1 = n" by (auto elim: in_network.cases)
    then show ?thesis using net_step.close_next [OF assms(1) closes_next(1)] p(3) closes_next(3) by simp
  qed
qed


section \<open>The state of a branch\<close>

text \<open>\<open>condition\<close>, \<open>then_branch\<close> and \<open>else_branch\<close>.\<close>

datatype sub = Condition | ThenBranch | ElseBranch

text \<open>
  Where the goroutine of \<open>Run\<close> is: receiving from \<open>In\<close>, sending a message to the condition, or in the
  deferred function: closing the input of an inner pipeline, waiting for its segments, closing the
  own output, returned.
\<close>

datatype 'm run_pc = RunRecv | RunPut 'm | RunClose sub | RunWait sub | RunCloseOut | RunEnd

text \<open>
  \<open>forwardBasedOnCondition\<close>: at its \<open>select\<close> (the flag says whether \<open>from_condition_out\<close> is still
  set) or sending a message. \<open>drainOutput\<close>: at its \<open>select\<close>, sending, or returned.
\<close>

datatype 'm fwd_pc = FwdSelect bool | FwdPut branch_send 'm bool

datatype 'm drain_pc = DrainSelect | DrainPut "'m event" | DrainEnd

record 'm branch_state =
  br_in :: "'m list"
  br_run :: "'m run_pc"
  br_fwd :: "'m fwd_pc"
  br_drain :: "'m drain_pc"
  br_pipe :: "sub \<Rightarrow> 'm gor list"
  br_closed :: "sub set"
  br_sent :: "'m event list"
  br_out_closed :: bool
  br_crashed :: "failure option"

text \<open>The start: \<open>In\<close> gives these messages and is then closed, all goroutines have been started.\<close>

definition branch_begin :: "(sub \<Rightarrow> 'm seg list) \<Rightarrow> 'm list \<Rightarrow> 'm branch_state" where
  "branch_begin ss ms = \<lparr>br_in = ms, br_run = RunRecv, br_fwd = FwdSelect True, br_drain = DrainSelect,
     br_pipe = (\<lambda>k. map Recv (ss k)), br_closed = {}, br_sent = [], br_out_closed = False, br_crashed = None\<rparr>"

fun target :: "branch_send \<Rightarrow> sub" where
  "target ToThen = ThenBranch"
| "target ToElse = ElseBranch"

text \<open>The calls of the deferred function in their order.\<close>

fun after_wait :: "sub \<Rightarrow> 'm run_pc" where
  "after_wait Condition = RunClose ThenBranch"
| "after_wait ThenBranch = RunClose ElseBranch"
| "after_wait ElseBranch = RunCloseOut"

text \<open>The last segment of a pipeline closes its output when it returns.\<close>

definition out_closed :: "'m gor list \<Rightarrow> bool" where
  "out_closed gs \<longleftrightarrow> gs \<noteq> [] \<and> last gs = Done"

text \<open>A segment that fails on a message it receives ends the process.\<close>

definition fails_on :: "'m gor list \<Rightarrow> 'm \<Rightarrow> failure \<Rightarrow> bool" where
  "fails_on gs m e \<longleftrightarrow> (\<exists>s gs'. gs = Recv s # gs' \<and> on_msg s m = Inl e)"

definition fails_inside :: "'m gor list \<Rightarrow> failure \<Rightarrow> bool" where
  "fails_inside gs e \<longleftrightarrow> (\<exists>xs m es s t ys. gs = xs @ Send (Out m # es) s # Recv t # ys \<and> on_msg t m = Inl e)"

text \<open>The state of \<open>drainOutput\<close> after a message was received: what is sent for it, if anything.\<close>

definition drain_next :: "bool \<Rightarrow> bool \<Rightarrow> drain_source \<Rightarrow> 'm \<Rightarrow> 'm drain_pc" where
  "drain_next bypass subscribed src m =
     (case drain_sends bypass subscribed src m of [] \<Rightarrow> DrainSelect | e # _ \<Rightarrow> DrainPut e)"

inductive branch_step :: "bool \<Rightarrow> bool \<Rightarrow> 'm branch_state \<Rightarrow> 'm branch_state \<Rightarrow> bool"
  for bypass subscribed :: bool where
  run_recv: "br_crashed b = None \<Longrightarrow> br_run b = RunRecv \<Longrightarrow> br_in b = m # ms \<Longrightarrow>
    branch_step bypass subscribed b (b\<lparr>br_in := ms, br_run := RunPut m\<rparr>)"
| run_put: "br_crashed b = None \<Longrightarrow> br_run b = RunPut m \<Longrightarrow> pipe_step (br_pipe b Condition) (Takes m) gs \<Longrightarrow>
    branch_step bypass subscribed b (b\<lparr>br_run := RunRecv, br_pipe := (br_pipe b)(Condition := gs)\<rparr>)"
| run_put_fails: "br_crashed b = None \<Longrightarrow> br_run b = RunPut m \<Longrightarrow> fails_on (br_pipe b Condition) m e \<Longrightarrow>
    branch_step bypass subscribed b (b\<lparr>br_crashed := Some e\<rparr>)"
| run_in_closed: "br_crashed b = None \<Longrightarrow> br_run b = RunRecv \<Longrightarrow> br_in b = [] \<Longrightarrow>
    branch_step bypass subscribed b (b\<lparr>br_run := RunClose Condition\<rparr>)"
| run_close: "br_crashed b = None \<Longrightarrow> br_run b = RunClose k \<Longrightarrow>
    branch_step bypass subscribed b (b\<lparr>br_run := RunWait k, br_closed := insert k (br_closed b)\<rparr>)"
| run_waited: "br_crashed b = None \<Longrightarrow> br_run b = RunWait k \<Longrightarrow> \<forall>g\<in>set (br_pipe b k). g = Done \<Longrightarrow>
    branch_step bypass subscribed b (b\<lparr>br_run := after_wait k\<rparr>)"
| run_close_out: "br_crashed b = None \<Longrightarrow> br_run b = RunCloseOut \<Longrightarrow>
    branch_step bypass subscribed b (b\<lparr>br_run := RunEnd, br_out_closed := True\<rparr>)"
| pipe_inside: "br_crashed b = None \<Longrightarrow> pipe_step (br_pipe b k) Tau gs \<Longrightarrow>
    branch_step bypass subscribed b (b\<lparr>br_pipe := (br_pipe b)(k := gs)\<rparr>)"
| pipe_in_closed: "br_crashed b = None \<Longrightarrow> k \<in> br_closed b \<Longrightarrow> pipe_step (br_pipe b k) SeesClose gs \<Longrightarrow>
    branch_step bypass subscribed b (b\<lparr>br_pipe := (br_pipe b)(k := gs)\<rparr>)"
| pipe_fails: "br_crashed b = None \<Longrightarrow> fails_inside (br_pipe b k) e \<Longrightarrow>
    branch_step bypass subscribed b (b\<lparr>br_crashed := Some e\<rparr>)"
| fwd_out: "br_crashed b = None \<Longrightarrow> br_fwd b = FwdSelect True \<Longrightarrow> pipe_step (br_pipe b Condition) (Gives m) gs \<Longrightarrow>
    branch_step bypass subscribed b (b\<lparr>br_fwd := FwdPut ToThen m True, br_pipe := (br_pipe b)(Condition := gs)\<rparr>)"
| fwd_out_closed: "br_crashed b = None \<Longrightarrow> br_fwd b = FwdSelect True \<Longrightarrow> out_closed (br_pipe b Condition) \<Longrightarrow>
    branch_step bypass subscribed b (b\<lparr>br_fwd := FwdSelect False\<rparr>)"
| fwd_drop: "br_crashed b = None \<Longrightarrow> br_fwd b = FwdSelect co \<Longrightarrow> pipe_step (br_pipe b Condition) (GivesDrop m) gs \<Longrightarrow>
    branch_step bypass subscribed b (b\<lparr>br_fwd := FwdPut ToElse m co, br_pipe := (br_pipe b)(Condition := gs)\<rparr>)"
| fwd_put: "br_crashed b = None \<Longrightarrow> br_fwd b = FwdPut d m co \<Longrightarrow> target d \<notin> br_closed b \<Longrightarrow>
    pipe_step (br_pipe b (target d)) (Takes m) gs \<Longrightarrow>
    branch_step bypass subscribed b (b\<lparr>br_fwd := FwdSelect co, br_pipe := (br_pipe b)(target d := gs)\<rparr>)"
| fwd_put_fails: "br_crashed b = None \<Longrightarrow> br_fwd b = FwdPut d m co \<Longrightarrow> target d \<notin> br_closed b \<Longrightarrow>
    fails_on (br_pipe b (target d)) m e \<Longrightarrow>
    branch_step bypass subscribed b (b\<lparr>br_crashed := Some e\<rparr>)"
| fwd_put_closed: "br_crashed b = None \<Longrightarrow> br_fwd b = FwdPut d m co \<Longrightarrow> target d \<in> br_closed b \<Longrightarrow>
    branch_step bypass subscribed b (b\<lparr>br_crashed := Some (Panic ''send on closed channel'')\<rparr>)"
| drain_out: "br_crashed b = None \<Longrightarrow> br_drain b = DrainSelect \<Longrightarrow> (k, src) \<in> {(ThenBranch, FromThen), (ElseBranch, FromElse)} \<Longrightarrow>
    pipe_step (br_pipe b k) (Gives m) gs \<Longrightarrow>
    branch_step bypass subscribed b (b\<lparr>br_drain := drain_next bypass subscribed src m, br_pipe := (br_pipe b)(k := gs)\<rparr>)"
| drain_drop: "br_crashed b = None \<Longrightarrow> br_drain b = DrainSelect \<Longrightarrow> (k, src) \<in> {(ThenBranch, FromThenDrop), (ElseBranch, FromElseDrop)} \<Longrightarrow>
    pipe_step (br_pipe b k) (GivesDrop m) gs \<Longrightarrow>
    branch_step bypass subscribed b (b\<lparr>br_drain := drain_next bypass subscribed src m, br_pipe := (br_pipe b)(k := gs)\<rparr>)"
| drain_closed: "br_crashed b = None \<Longrightarrow> br_drain b = DrainSelect \<Longrightarrow> k \<in> {ThenBranch, ElseBranch} \<Longrightarrow> out_closed (br_pipe b k) \<Longrightarrow>
    branch_step bypass subscribed b (b\<lparr>br_drain := DrainEnd\<rparr>)"
| drain_put: "br_crashed b = None \<Longrightarrow> br_drain b = DrainPut e \<Longrightarrow> \<not> br_out_closed b \<Longrightarrow>
    branch_step bypass subscribed b (b\<lparr>br_drain := DrainSelect, br_sent := br_sent b @ [e]\<rparr>)"
| drain_put_closed: "br_crashed b = None \<Longrightarrow> br_drain b = DrainPut e \<Longrightarrow> br_out_closed b \<Longrightarrow>
    branch_step bypass subscribed b (b\<lparr>br_crashed := Some (Panic ''send on closed channel'')\<rparr>)"

section \<open>Conservation\<close>

text \<open>A segment that makes of every message one output or one drop, and so on for ever.\<close>

coinductive filtering :: "'m seg \<Rightarrow> bool" where
  "\<forall>m es s'. on_msg s m = Inr (es, s') \<longrightarrow> mset (outs es) + mset (drops es) = {#m#} \<and> filtering s' \<Longrightarrow> filtering s"

lemma filtering_step:
  "filtering s \<Longrightarrow> on_msg s m = Inr (es, s') \<Longrightarrow> mset (outs es) + mset (drops es) = {#m#} \<and> filtering s'"
  by (erule filtering.cases) auto

context filter_segment begin

lemma filtering_mk_seg: "inv s \<Longrightarrow> subscribed s \<Longrightarrow> filtering (mk_seg step s)"
proof (coinduction arbitrary: s)
  case filtering
  show ?case
  proof (intro exI conjI allI impI; (rule refl)?)
    fix m es s' assume "on_msg (mk_seg step s) m = Inr (es, s')"
    then obtain t where t: "step s m = Inr (es, t)" "s' = mk_seg step t"
      by (auto simp: map_sum_def split: sum.splits)
    show "mset (outs es) + mset (drops es) = {#m#}"
      using step_shape [OF filtering(1) t(1)] filtering(2) by (auto simp: send_drop_def)
    show "(\<exists>s. s' = mk_seg step s \<and> inv s \<and> subscribed s) \<or> filtering s'"
      using t step_inv [OF filtering(1) t(1)] filtering(2) by blast
  qed
qed

end

fun gor_holds :: "'m gor \<Rightarrow> 'm multiset" where
  "gor_holds (Send es s) = mset (outs es) + mset (drops es)"
| "gor_holds (Recv s) = {#}"
| "gor_holds Done = {#}"

fun gor_filters :: "'m gor \<Rightarrow> bool" where
  "gor_filters (Send es s) = filtering s"
| "gor_filters (Recv s) = filtering s"
| "gor_filters Done = True"

definition pipe_holds :: "'m gor list \<Rightarrow> 'm multiset" where
  "pipe_holds gs = (\<Sum>g\<leftarrow>gs. gor_holds g)"

lemma pipe_holds_simps [simp]:
  "pipe_holds [] = {#}" "pipe_holds (g # gs) = gor_holds g + pipe_holds gs"
  "pipe_holds (gs @ hs) = pipe_holds gs + pipe_holds hs"
  by (simp_all add: pipe_holds_def)

lemma gor_holds_resume [simp]: "gor_holds (resume es s) = mset (outs es) + mset (drops es)"
  by (simp add: resume_def)

lemma gor_filters_resume [simp]: "gor_filters (resume es s) = filtering s"
  by (simp add: resume_def)

fun taken :: "'m label \<Rightarrow> 'm multiset" where
  "taken (Takes m) = {#m#}"
| "taken l = {#}"

fun given :: "'m label \<Rightarrow> 'm multiset" where
  "given (Gives m) = {#m#}"
| "given (GivesDrop m) = {#m#}"
| "given l = {#}"

lemma pipe_step_conserves:
  "pipe_step gs l gs' \<Longrightarrow> list_all gor_filters gs \<Longrightarrow>
     list_all gor_filters gs' \<and> pipe_holds gs' + given l = pipe_holds gs + taken l"
  by (induction gs l gs' rule: pipe_step.induct) (auto dest: filtering_step)


fun run_holds :: "'m run_pc \<Rightarrow> 'm multiset" where
  "run_holds (RunPut m) = {#m#}"
| "run_holds pc = {#}"

fun fwd_holds :: "'m fwd_pc \<Rightarrow> 'm multiset" where
  "fwd_holds (FwdPut d m co) = {#m#}"
| "fwd_holds (FwdSelect co) = {#}"

fun drain_holds :: "'m drain_pc \<Rightarrow> 'm multiset" where
  "drain_holds (DrainPut e) = mset (outs [e]) + mset (drops [e])"
| "drain_holds pc = {#}"

text \<open>Everything a branch has not sent yet and what it has sent.\<close>

definition branch_holds :: "'m branch_state \<Rightarrow> 'm multiset" where
  "branch_holds b = mset (br_in b) + run_holds (br_run b) + pipe_holds (br_pipe b Condition) + fwd_holds (br_fwd b)
     + pipe_holds (br_pipe b ThenBranch) + pipe_holds (br_pipe b ElseBranch) + drain_holds (br_drain b)"

definition branch_sent :: "'m branch_state \<Rightarrow> 'm multiset" where
  "branch_sent b = mset (outs (br_sent b)) + mset (drops (br_sent b))"

definition branch_filters :: "'m branch_state \<Rightarrow> bool" where
  "branch_filters b \<longleftrightarrow> (\<forall>k. list_all gor_filters (br_pipe b k))"

lemma drain_next_holds [simp]: "bypass \<or> subscribed \<Longrightarrow> drain_holds (drain_next bypass subscribed src m) = {#m#}"
  by (auto simp: drain_next_def drain_sends_def send_drop_def)

lemma after_wait_holds [simp]: "run_holds (after_wait k) = {#}"
  by (cases k) simp_all

lemma branch_step_conserves:
  assumes "branch_step bypass subscribed b b'" "branch_filters b" "bypass \<or> subscribed"
  shows "branch_filters b' \<and> branch_holds b' + branch_sent b' = branch_holds b + branch_sent b"
proof -
  have f: "list_all gor_filters (br_pipe b k)" for k using assms(2) by (simp add: branch_filters_def)
  have upd: "branch_filters (b\<lparr>br_pipe := (br_pipe b)(k := gs)\<rparr>)" if "list_all gor_filters gs" for k gs
    using f that by (simp add: branch_filters_def)
  show ?thesis
    using assms(1)
  proof (cases rule: branch_step.cases)
    case (run_put m gs)
    then show ?thesis using pipe_step_conserves [OF run_put(4) f] f
      by (auto simp: branch_holds_def branch_sent_def branch_filters_def ac_simps)
  next
    case (pipe_inside k gs)
    then show ?thesis using pipe_step_conserves [OF pipe_inside(3) f] f
      by (cases k) (auto simp: branch_holds_def branch_sent_def branch_filters_def)
  next
    case (pipe_in_closed k gs)
    then show ?thesis using pipe_step_conserves [OF pipe_in_closed(4) f] f
      by (cases k) (auto simp: branch_holds_def branch_sent_def branch_filters_def)
  next
    case (fwd_out m gs)
    then show ?thesis using pipe_step_conserves [OF fwd_out(4) f] f
      by (auto simp: branch_holds_def branch_sent_def branch_filters_def ac_simps)
  next
    case (fwd_drop co m gs)
    then show ?thesis using pipe_step_conserves [OF fwd_drop(4) f] f
      by (auto simp: branch_holds_def branch_sent_def branch_filters_def ac_simps)
  next
    case (fwd_put d m co gs)
    then show ?thesis using pipe_step_conserves [OF fwd_put(5) f] f
      by (cases d) (auto simp: branch_holds_def branch_sent_def branch_filters_def ac_simps)
  next
    case (drain_out k src m gs)
    then show ?thesis using pipe_step_conserves [OF drain_out(5) f] f assms(3)
      by (auto simp: branch_holds_def branch_sent_def branch_filters_def ac_simps)
  next
    case (drain_drop k src m gs)
    then show ?thesis using pipe_step_conserves [OF drain_drop(5) f] f assms(3)
      by (auto simp: branch_holds_def branch_sent_def branch_filters_def ac_simps)
  next
    case (drain_put e)
    then show ?thesis using assms(2) by (cases e) (auto simp: branch_holds_def branch_sent_def branch_filters_def)
  qed (use assms(2) in \<open>auto simp: branch_holds_def branch_sent_def branch_filters_def\<close>)
qed

section \<open>The order of the shutdown\<close>

fun past :: "'m run_pc \<Rightarrow> sub set" where
  "past (RunClose k) = (case k of Condition \<Rightarrow> {} | ThenBranch \<Rightarrow> {Condition} | ElseBranch \<Rightarrow> {Condition, ThenBranch})"
| "past (RunWait k) = (case k of Condition \<Rightarrow> {} | ThenBranch \<Rightarrow> {Condition} | ElseBranch \<Rightarrow> {Condition, ThenBranch})"
| "past RunCloseOut = {Condition, ThenBranch, ElseBranch}"
| "past RunEnd = {Condition, ThenBranch, ElseBranch}"
| "past pc = {}"

text \<open>
  When the input of an inner pipeline is closed, those before it have ended; the own input was
  read to its end; the output is closed at the very end.
\<close>

definition shutdown_ok :: "'m branch_state \<Rightarrow> bool" where
  "shutdown_ok b \<longleftrightarrow> (\<forall>k\<in>past (br_run b). \<forall>g\<in>set (br_pipe b k). g = Done)
     \<and> (br_run b = RunRecv \<or> (\<exists>m. br_run b = RunPut m) \<or> br_in b = [])
     \<and> (br_out_closed b \<longleftrightarrow> br_run b = RunEnd)"

lemma pipe_step_not_done: "pipe_step gs l gs' \<Longrightarrow> \<exists>g\<in>set gs. g \<noteq> Done"
  by (induction gs l gs' rule: pipe_step.induct) auto

lemma past_after_wait: "past (after_wait k :: 'm run_pc) = insert k (past (RunWait k :: 'm run_pc))"
  by (cases k) auto

lemma after_wait_not: "after_wait k \<noteq> RunRecv" "after_wait k \<noteq> RunPut m" "after_wait k \<noteq> RunEnd"
  by (cases k; simp)+

lemma branch_step_shutdown:
  assumes "branch_step bypass subscribed b b'" "shutdown_ok b"
  shows "shutdown_ok b'"
  using assms
proof (cases rule: branch_step.cases)
  case (run_waited k)
  then show ?thesis using assms(2) by (auto simp: shutdown_ok_def past_after_wait after_wait_not)
next
  case (run_close k)
  then show ?thesis using assms(2) by (cases k) (auto simp: shutdown_ok_def)
next
  case (pipe_inside k gs)
  then show ?thesis using assms(2) pipe_step_not_done [OF pipe_inside(3)] by (auto simp: shutdown_ok_def)
next
  case (pipe_in_closed k gs)
  then show ?thesis using assms(2) pipe_step_not_done [OF pipe_in_closed(4)] by (auto simp: shutdown_ok_def)
next
  case (fwd_out m gs)
  then show ?thesis using assms(2) pipe_step_not_done [OF fwd_out(4)] by (auto simp: shutdown_ok_def)
next
  case (fwd_drop co m gs)
  then show ?thesis using assms(2) pipe_step_not_done [OF fwd_drop(4)] by (auto simp: shutdown_ok_def)
next
  case (fwd_put d m co gs)
  then show ?thesis using assms(2) pipe_step_not_done [OF fwd_put(5)] by (auto simp: shutdown_ok_def)
next
  case (drain_out k src m gs)
  then show ?thesis using assms(2) pipe_step_not_done [OF drain_out(5)] by (auto simp: shutdown_ok_def)
next
  case (drain_drop k src m gs)
  then show ?thesis using assms(2) pipe_step_not_done [OF drain_drop(5)] by (auto simp: shutdown_ok_def)
qed (auto simp: shutdown_ok_def)


lemma branch_reach:
  assumes "(branch_step bypass subscribed)\<^sup>*\<^sup>* (branch_begin ss ms) b" "bypass \<or> subscribed"
    and "\<forall>k. \<forall>s\<in>set (ss k). filtering s"
  shows "branch_filters b \<and> shutdown_ok b \<and> branch_holds b + branch_sent b = mset ms"
  using assms(1)
proof (induction rule: rtranclp_induct)
  case base
  have r: "pipe_holds (map Recv xs) = {#}" for xs :: "'a seg list" by (induction xs) auto
  show ?case using assms(3)
    by (simp add: branch_filters_def shutdown_ok_def branch_holds_def branch_sent_def branch_begin_def list_all_iff r)
next
  case (step b b')
  then show ?case using branch_step_conserves [OF step(2) _ assms(2)] branch_step_shutdown [OF step(2)] by simp
qed

text \<open>
  C24. A branch of filters with \<open>bypass-messages\<close> set or with a subscriber of its drops keeps every
  message: in every interleaving, crashed or not, each message of
  the input is still to come, in one place of the branch, or sent, exactly once. When \<open>Run\<close> has
  returned, what is missing at the outputs is at most one message that the forwarding loop holds
  and one that the collecting loop holds.
\<close>

theorem branch_run_conserves:
  assumes "(branch_step bypass subscribed)\<^sup>*\<^sup>* (branch_begin ss ms) b" "bypass \<or> subscribed"
    and "\<forall>k. \<forall>s\<in>set (ss k). filtering s"
  shows "branch_holds b + branch_sent b = mset ms
    \<and> (br_run b = RunEnd \<longrightarrow> branch_sent b + fwd_holds (br_fwd b) + drain_holds (br_drain b) = mset ms)"
proof (intro conjI impI)
  note r = branch_reach [OF assms]
  show total: "branch_holds b + branch_sent b = mset ms" using r by simp
  assume e: "br_run b = RunEnd"
  have "\<forall>g\<in>set (br_pipe b k). g = Done" for k using r e by (cases k) (simp_all add: shutdown_ok_def)
  moreover have "\<forall>g\<in>set gs. g = Done \<Longrightarrow> pipe_holds gs = {#}" for gs :: "'a gor list" by (induction gs) auto
  ultimately have "pipe_holds (br_pipe b k) = {#}" for k by blast
  moreover have "br_in b = []" using r e by (simp add: shutdown_ok_def)
  ultimately show "branch_sent b + fwd_holds (br_fwd b) + drain_holds (br_drain b) = mset ms"
    using total e by (simp add: branch_holds_def ac_simps)
qed

section \<open>Runs of a branch\<close>

text \<open>A state written out, and the steps between such states.\<close>

definition bst :: "'m list \<Rightarrow> 'm run_pc \<Rightarrow> 'm fwd_pc \<Rightarrow> 'm drain_pc \<Rightarrow> 'm gor list \<Rightarrow> 'm gor list \<Rightarrow> 'm gor list \<Rightarrow> sub set
    \<Rightarrow> 'm event list \<Rightarrow> 'm branch_state" where
  "bst i r f d c t e cl snt = \<lparr>br_in = i, br_run = r, br_fwd = f, br_drain = d,
     br_pipe = (\<lambda>k. case k of Condition \<Rightarrow> c | ThenBranch \<Rightarrow> t | ElseBranch \<Rightarrow> e), br_closed = cl, br_sent = snt,
     br_out_closed = (r = RunEnd), br_crashed = None\<rparr>"

lemma branch_begin_bst:
  "branch_begin ss ms = bst ms RunRecv (FwdSelect True) DrainSelect
     (map Recv (ss Condition)) (map Recv (ss ThenBranch)) (map Recv (ss ElseBranch)) {} []"
  by (auto simp: branch_begin_def bst_def fun_eq_iff split: sub.split)

lemma branch_step_eqI: "branch_step bypass subscribed b b'' \<Longrightarrow> b'' = b' \<Longrightarrow> branch_step bypass subscribed b b'"
  by simp

lemma bst_run:
  "branch_step bp sb (bst (m # ms) RunRecv f d c t e cl snt) (bst ms (RunPut m) f d c t e cl snt)"
  "branch_step bp sb (bst [] RunRecv f d c t e cl snt) (bst [] (RunClose Condition) f d c t e cl snt)"
  "branch_step bp sb (bst i (RunClose k) f d c t e cl snt) (bst i (RunWait k) f d c t e (insert k cl) snt)"
  "branch_step bp sb (bst i RunCloseOut f d c t e cl snt) (bst i RunEnd f d c t e cl snt)"
  by (rule branch_step_eqI [OF branch_step.run_recv] branch_step_eqI [OF branch_step.run_in_closed]
      branch_step_eqI [OF branch_step.run_close] branch_step_eqI [OF branch_step.run_close_out]; simp add: bst_def)+

lemma bst_run_put:
  "pipe_step c (Takes m) c' \<Longrightarrow>
     branch_step bp sb (bst i (RunPut m) f d c t e cl snt) (bst i RunRecv f d c' t e cl snt)"
  by (rule branch_step_eqI [OF branch_step.run_put [where m = m and gs = c']])
    (auto simp: bst_def fun_eq_iff split: sub.split)

lemma bst_waited:
  assumes "\<forall>g\<in>set (case k of Condition \<Rightarrow> c | ThenBranch \<Rightarrow> t | ElseBranch \<Rightarrow> e). g = Done"
  shows "branch_step bp sb (bst i (RunWait k) f d c t e cl snt) (bst i (after_wait k) f d c t e cl snt)"
  using assms by (intro branch_step_eqI [OF branch_step.run_waited [where k = k]]) (simp_all add: bst_def after_wait_not)

lemma bst_sees_close:
  "Condition \<in> cl \<Longrightarrow> branch_step bp sb (bst i r f d [Recv s] t e cl snt) (bst i r f d [Done] t e cl snt)"
  "ThenBranch \<in> cl \<Longrightarrow> branch_step bp sb (bst i r f d c [Recv s] e cl snt) (bst i r f d c [Done] e cl snt)"
  "ElseBranch \<in> cl \<Longrightarrow> branch_step bp sb (bst i r f d c t [Recv s] cl snt) (bst i r f d c t [Done] cl snt)"
proof -
  have sees: "k \<in> br_closed b \<Longrightarrow> br_crashed b = None \<Longrightarrow> br_pipe b k = [Recv s] \<Longrightarrow>
      b\<lparr>br_pipe := (br_pipe b)(k := [Done])\<rparr> = b' \<Longrightarrow> branch_step bp sb b b'" for k b b'
    using branch_step.pipe_in_closed [of b k "[Done]"] by (auto intro: pipe_step.intros)
  show "Condition \<in> cl \<Longrightarrow> branch_step bp sb (bst i r f d [Recv s] t e cl snt) (bst i r f d [Done] t e cl snt)"
    by (rule sees [of Condition]) (auto simp: bst_def fun_eq_iff split: sub.split)
  show "ThenBranch \<in> cl \<Longrightarrow> branch_step bp sb (bst i r f d c [Recv s] e cl snt) (bst i r f d c [Done] e cl snt)"
    by (rule sees [of ThenBranch]) (auto simp: bst_def fun_eq_iff split: sub.split)
  show "ElseBranch \<in> cl \<Longrightarrow> branch_step bp sb (bst i r f d c t [Recv s] cl snt) (bst i r f d c t [Done] cl snt)"
    by (rule sees [of ElseBranch]) (auto simp: bst_def fun_eq_iff split: sub.split)
qed

lemma bst_fwd:
  "pipe_step c (Gives m) c' \<Longrightarrow>
     branch_step bp sb (bst i r (FwdSelect True) d c t e cl snt) (bst i r (FwdPut ToThen m True) d c' t e cl snt)"
  "pipe_step c (GivesDrop m) c' \<Longrightarrow>
     branch_step bp sb (bst i r (FwdSelect co) d c t e cl snt) (bst i r (FwdPut ToElse m co) d c' t e cl snt)"
  "ThenBranch \<notin> cl \<Longrightarrow> pipe_step t (Takes m) t' \<Longrightarrow>
     branch_step bp sb (bst i r (FwdPut ToThen m co) d c t e cl snt) (bst i r (FwdSelect co) d c t' e cl snt)"
  "ElseBranch \<notin> cl \<Longrightarrow> pipe_step e (Takes m) e' \<Longrightarrow>
     branch_step bp sb (bst i r (FwdPut ToElse m co) d c t e cl snt) (bst i r (FwdSelect co) d c t e' cl snt)"
  "branch_step bp sb (bst i r (FwdSelect True) d [Done] t e cl snt) (bst i r (FwdSelect False) d [Done] t e cl snt)"
proof -
  assume "pipe_step c (Gives m) c'"
  then show "branch_step bp sb (bst i r (FwdSelect True) d c t e cl snt) (bst i r (FwdPut ToThen m True) d c' t e cl snt)"
    by (intro branch_step_eqI [OF branch_step.fwd_out [where m = m and gs = c']]) (auto simp: bst_def fun_eq_iff split: sub.split)
next
  assume "pipe_step c (GivesDrop m) c'"
  then show "branch_step bp sb (bst i r (FwdSelect co) d c t e cl snt) (bst i r (FwdPut ToElse m co) d c' t e cl snt)"
    by (intro branch_step_eqI [OF branch_step.fwd_drop [where m = m and gs = c' and co = co]])
      (auto simp: bst_def fun_eq_iff split: sub.split)
next
  assume "ThenBranch \<notin> cl" "pipe_step t (Takes m) t'"
  then show "branch_step bp sb (bst i r (FwdPut ToThen m co) d c t e cl snt) (bst i r (FwdSelect co) d c t' e cl snt)"
    by (intro branch_step_eqI [OF branch_step.fwd_put [where d = ToThen and m = m and gs = t' and co = co]])
      (auto simp: bst_def fun_eq_iff split: sub.split)
next
  assume "ElseBranch \<notin> cl" "pipe_step e (Takes m) e'"
  then show "branch_step bp sb (bst i r (FwdPut ToElse m co) d c t e cl snt) (bst i r (FwdSelect co) d c t e' cl snt)"
    by (intro branch_step_eqI [OF branch_step.fwd_put [where d = ToElse and m = m and gs = e' and co = co]])
      (auto simp: bst_def fun_eq_iff split: sub.split)
next
  show "branch_step bp sb (bst i r (FwdSelect True) d [Done] t e cl snt) (bst i r (FwdSelect False) d [Done] t e cl snt)"
    by (intro branch_step_eqI [OF branch_step.fwd_out_closed]) (auto simp: bst_def out_closed_def)
qed

lemma bst_drain:
  "pipe_step t (Gives m) t' \<Longrightarrow>
     branch_step bp sb (bst i r f DrainSelect c t e cl snt) (bst i r f (DrainPut (Out m)) c t' e cl snt)"
  "r \<noteq> RunEnd \<Longrightarrow> branch_step bp sb (bst i r f (DrainPut ev) c t e cl snt) (bst i r f DrainSelect c t e cl (snt @ [ev]))"
  "branch_step bp sb (bst i r f DrainSelect c [Done] e cl snt) (bst i r f DrainEnd c [Done] e cl snt)"
proof -
  assume "pipe_step t (Gives m) t'"
  then show "branch_step bp sb (bst i r f DrainSelect c t e cl snt) (bst i r f (DrainPut (Out m)) c t' e cl snt)"
    by (intro branch_step_eqI [OF branch_step.drain_out [where k = ThenBranch and src = FromThen and m = m and gs = t']])
      (auto simp: bst_def fun_eq_iff drain_next_def drain_sends_def split: sub.split)
next
  assume "r \<noteq> RunEnd"
  then show "branch_step bp sb (bst i r f (DrainPut ev) c t e cl snt) (bst i r f DrainSelect c t e cl (snt @ [ev]))"
    by (intro branch_step_eqI [OF branch_step.drain_put]) (auto simp: bst_def)
next
  show "branch_step bp sb (bst i r f DrainSelect c [Done] e cl snt) (bst i r f DrainEnd c [Done] e cl snt)"
    by (intro branch_step_eqI [OF branch_step.drain_closed [where k = ThenBranch]]) (auto simp: bst_def out_closed_def)
qed


lemma pass_steps:
  assumes "on_msg s m = Inr ([ev], s')"
  shows "pipe_step [Recv s] (Takes m) [Send [ev] s']"
    and "ev = Out x \<Longrightarrow> pipe_step [Send [ev] s'] (Gives x) [Recv s']"
    and "ev = Drop x \<Longrightarrow> pipe_step [Send [ev] s'] (GivesDrop x) [Recv s']"
  using pipe_step.takes [OF assms, of "[]"] pipe_step.gives [of "[]" x "[]" s'] pipe_step.gives_drop [of "[]" x "[]" s' "[]"]
  by (auto simp: resume_def)

lemmas one_step = r_into_rtranclp [of "branch_step bypass subscribed" for bypass subscribed]

text \<open>A message is taken by the condition; the condition ends and the input of the then pipeline is closed.\<close>

lemma bst_takes:
  assumes "on_msg s m = Inr ([ev], s')"
  shows "(branch_step bp sb)\<^sup>*\<^sup>* (bst (m # ms) RunRecv f d [Recv s] t e cl snt) (bst ms RunRecv f d [Send [ev] s'] t e cl snt)"
  using one_step [OF bst_run(1) [of bp sb m ms f d "[Recv s]" t e cl snt]]
    one_step [OF bst_run_put [OF pass_steps(1) [OF assms], of bp sb ms f d t e cl snt]] by (rule rtranclp_trans)

lemma bst_ends:
  "(branch_step bp sb)\<^sup>*\<^sup>* (bst [] RunRecv f d [Recv s] t e {} snt) (bst [] (RunWait ThenBranch) f d [Done] t e {ThenBranch, Condition} snt)"
proof -
  let ?R = "(branch_step bp sb)\<^sup>*\<^sup>*"
  have "?R (bst [] RunRecv f d [Recv s] t e {} snt) (bst [] (RunClose Condition) f d [Recv s] t e {} snt)"
    by (rule one_step [OF bst_run(2)])
  also have "?R \<dots> (bst [] (RunWait Condition) f d [Recv s] t e {Condition} snt)" by (rule one_step [OF bst_run(3)])
  also have "?R \<dots> (bst [] (RunWait Condition) f d [Done] t e {Condition} snt)" by (rule one_step [OF bst_sees_close(1)]) simp
  also have "?R \<dots> (bst [] (RunClose ThenBranch) f d [Done] t e {Condition} snt)"
    by (rule one_step [OF bst_waited [where k = Condition, unfolded after_wait.simps sub.case]]) simp
  also have "?R \<dots> (bst [] (RunWait ThenBranch) f d [Done] t e {ThenBranch, Condition} snt)" by (rule one_step [OF bst_run(3)])
  finally show ?thesis .
qed

text \<open>
  The shutdown of a branch can panic: \<open>Run\<close> closes the input of the then pipeline as soon as the
  condition has ended, while the forwarding loop may still hold the last message of the condition;
  its send on the closed channel ends the process. So it is with every condition that is a single
  segment and passes the message, whatever the other two pipelines are.
\<close>

theorem branch_shutdown_panics:
  assumes "ss Condition = [s]" "on_msg s m = Inr ([Out m], s')"
  shows "\<exists>b. (branch_step bypass subscribed)\<^sup>*\<^sup>* (branch_begin ss [m]) b \<and> br_crashed b = Some (Panic ''send on closed channel'')"
proof -
  let ?t = "map Recv (ss ThenBranch)" and ?e = "map Recv (ss ElseBranch)"
  let ?R = "(branch_step bypass subscribed)\<^sup>*\<^sup>*"
  let ?b = "bst [] (RunWait ThenBranch) (FwdPut ToThen m True) DrainSelect [Done] ?t ?e {ThenBranch, Condition} []"
  have "?R (branch_begin ss [m]) (bst [] RunRecv (FwdSelect True) DrainSelect [Send [Out m] s'] ?t ?e {} [])"
    unfolding branch_begin_bst assms(1) list.map by (rule bst_takes [OF assms(2)])
  also have "?R \<dots> (bst [] RunRecv (FwdPut ToThen m True) DrainSelect [Recv s'] ?t ?e {} [])"
    by (rule one_step [OF bst_fwd(1) [OF pass_steps(2) [OF assms(2) refl]]])
  also have "?R \<dots> ?b" by (rule bst_ends)
  finally have "?R (branch_begin ss [m]) ?b" .
  moreover have "branch_step bypass subscribed ?b (?b\<lparr>br_crashed := Some (Panic ''send on closed channel'')\<rparr>)"
    by (rule branch_step.fwd_put_closed [where d = ToThen and m = m and co = True]) (simp_all add: bst_def)
  ultimately have "?R (branch_begin ss [m]) (?b\<lparr>br_crashed := Some (Panic ''send on closed channel'')\<rparr>)"
    by (rule rtranclp.rtrancl_into_rtrancl)
  then show ?thesis by (intro exI conjI) (assumption, simp)
qed

lemma pipe_send_only: "pipe_step [Send [Out m] s] l gs \<Longrightarrow> l = Gives m"
  by (erule pipe_step.cases) (auto simp: Cons_eq_append_conv)

lemma bst_hangs:
  "\<not> branch_step bp sb (bst [] (RunWait ElseBranch) (FwdSelect False) DrainEnd [Done] [Done] [Send [Out m] u] cl snt) b'"
proof -
  let ?b = "bst [] (RunWait ElseBranch) (FwdSelect False) DrainEnd [Done] [Done] [Send [Out m] u] cl snt"
  have sub: "br_pipe ?b k = (if k = ElseBranch then [Send [Out m] u] else [Done])" for k by (cases k) (simp_all add: bst_def)
  have moves: "pipe_step (br_pipe ?b k) l gs \<Longrightarrow> k = ElseBranch \<and> l = Gives m" for k l gs
    using pipe_step_not_done [of "br_pipe ?b k" l gs] pipe_send_only [of m u l gs] unfolding sub by (auto split: if_splits)
  have inside: "\<not> fails_inside (br_pipe ?b k) e" for k e unfolding sub by (auto simp: fails_inside_def Cons_eq_append_conv)
  have pcs: "br_run ?b = RunWait ElseBranch" "br_fwd ?b = FwdSelect False" "br_drain ?b = DrainEnd" by (simp_all add: bst_def)
  show ?thesis
  proof
    assume "branch_step bp sb ?b b'"
    then show False
    proof (cases rule: branch_step.cases)
      case (run_waited k)
      then show ?thesis using pcs(1) sub [of ElseBranch] by auto
    next
      case (pipe_inside k gs)
      then show ?thesis using moves by blast
    next
      case (pipe_in_closed k gs)
      then show ?thesis using moves by blast
    next
      case (pipe_fails k e)
      then show ?thesis using inside by blast
    next
      case (fwd_drop co m' gs)
      then show ?thesis using moves by blast
    qed (use pcs in auto)
  qed
qed

text \<open>
  C39. It can also hang: the collecting loop returns at the first channel that is closed, which is the
  output of the then pipeline, closed before the else pipeline. A message still in the else pipeline
  is then received by nobody, \<open>Run\<close> waits for its segment for ever, and the pipeline around the
  branch never ends.
\<close>

theorem branch_shutdown_hangs:
  assumes "ss Condition = [s]" "ss ThenBranch = [t]" "ss ElseBranch = [u]"
    and "on_msg s m = Inr ([Drop m], s')" "on_msg u m = Inr ([Out m], u')"
  shows "\<exists>b. (branch_step bypass subscribed)\<^sup>*\<^sup>* (branch_begin ss [m]) b \<and> (\<nexists>b'. branch_step bypass subscribed b b')
    \<and> br_crashed b = None \<and> br_run b = RunWait ElseBranch \<and> br_sent b = []"
proof -
  let ?R = "(branch_step bypass subscribed)\<^sup>*\<^sup>*" and ?e = "[Send [Out m] u']"
  let ?b = "bst [] (RunWait ElseBranch) (FwdSelect False) DrainEnd [Done] [Done] ?e {ElseBranch, ThenBranch, Condition} []"
  have "?R (branch_begin ss [m]) (bst [] RunRecv (FwdSelect True) DrainSelect [Send [Drop m] s'] [Recv t] [Recv u] {} [])"
    unfolding branch_begin_bst assms(1-3) list.map by (rule bst_takes [OF assms(4)])
  also have "?R \<dots> (bst [] RunRecv (FwdPut ToElse m True) DrainSelect [Recv s'] [Recv t] [Recv u] {} [])"
    by (rule one_step [OF bst_fwd(2) [OF pass_steps(3) [OF assms(4) refl]]])
  also have "?R \<dots> (bst [] RunRecv (FwdSelect True) DrainSelect [Recv s'] [Recv t] ?e {} [])"
    by (rule one_step [OF bst_fwd(4) [OF _ pass_steps(1) [OF assms(5)]]]) simp
  also have "?R \<dots> (bst [] (RunWait ThenBranch) (FwdSelect True) DrainSelect [Done] [Recv t] ?e {ThenBranch, Condition} [])"
    by (rule bst_ends)
  also have "?R \<dots> (bst [] (RunWait ThenBranch) (FwdSelect False) DrainSelect [Done] [Recv t] ?e {ThenBranch, Condition} [])"
    by (rule one_step [OF bst_fwd(5)])
  also have "?R \<dots> (bst [] (RunWait ThenBranch) (FwdSelect False) DrainSelect [Done] [Done] ?e {ThenBranch, Condition} [])"
    by (rule one_step [OF bst_sees_close(2)]) simp
  also have "?R \<dots> (bst [] (RunWait ThenBranch) (FwdSelect False) DrainEnd [Done] [Done] ?e {ThenBranch, Condition} [])"
    by (rule one_step [OF bst_drain(3)])
  also have "?R \<dots> (bst [] (RunClose ElseBranch) (FwdSelect False) DrainEnd [Done] [Done] ?e {ThenBranch, Condition} [])"
    by (rule one_step [OF bst_waited [where k = ThenBranch, unfolded after_wait.simps sub.case]]) simp
  also have "?R \<dots> ?b" by (rule one_step [OF bst_run(3)])
  finally have "?R (branch_begin ss [m]) ?b" .
  moreover have "\<nexists>b'. branch_step bypass subscribed ?b b'" by (simp add: bst_hangs)
  moreover have "br_crashed ?b = None" "br_run ?b = RunWait ElseBranch" "br_sent ?b = []" by (simp_all add: bst_def)
  ultimately show ?thesis by (intro exI [of _ ?b] conjI)
qed

section \<open>Examples\<close>

text \<open>The segments \<open>pass\<close> and \<open>drop\<close> (with a subscriber) on numbers.\<close>

definition pass_seg :: "nat seg" where
  "pass_seg = mk_seg (\<lambda>_ m. Inr ([Out m], ())) ()"

definition drop_seg :: "nat seg" where
  "drop_seg = mk_seg (\<lambda>_ m. Inr ([Drop m], ())) ()"

lemma demo_segs:
  "on_msg pass_seg m = Inr ([Out m], pass_seg)" "on_msg drop_seg m = Inr ([Drop m], drop_seg)"
  by (simp_all add: pass_seg_def drop_seg_def)

lemma demo_filtering: "filtering pass_seg"
  by (rule filtering.coinduct [of "\<lambda>s. s = pass_seg"]) (auto simp: demo_segs)

theorem network_of_pipes_witness:
  "net_step (start_net [pass_seg] [7]) ((start_net [pass_seg] [7])\<lparr>inputs := [], gors := [Send [Out 7] pass_seg]\<rparr>)"
proof -
  let ?n = "start_net [pass_seg] [7]"
  have p: "pipe_step (gors ?n) (Takes 7) [Send [Out 7] pass_seg]"
    using pass_steps(1) [OF demo_segs(1)] by (simp add: start_net_def)
  have e: "in_network ?n (Takes 7) (?n\<lparr>inputs := []\<rparr>)" by (rule in_network.intros) (simp add: start_net_def)
  have c: "crashed ?n = None" "crashed (?n\<lparr>inputs := [], gors := [Send [Out 7] pass_seg]\<rparr>) = None" by (simp_all add: start_net_def)
  show ?thesis by (rule network_of_pipes [OF c, THEN iffD2]) (intro exI conjI; (rule p e refl))
qed

theorem branch_shutdown_panics_witness:
  "\<exists>b. (branch_step False True)\<^sup>*\<^sup>* (branch_begin (\<lambda>_. [pass_seg]) [7]) b \<and> br_crashed b = Some (Panic ''send on closed channel'')"
  by (rule branch_shutdown_panics [OF refl demo_segs(1)])

theorem branch_shutdown_hangs_witness:
  "\<exists>b. (branch_step False True)\<^sup>*\<^sup>* (branch_begin (\<lambda>k. if k = Condition then [drop_seg] else [pass_seg]) [7]) b
     \<and> br_run b = RunWait ElseBranch \<and> (\<nexists>b'. branch_step False True b b')"
  using branch_shutdown_hangs [of "\<lambda>k. if k = Condition then [drop_seg] else [pass_seg]" drop_seg pass_seg pass_seg 7
      drop_seg pass_seg False True] demo_segs by auto

text \<open>A message that went all the way to the output, while the branch is still running.\<close>

lemma demo_delivers:
  "\<exists>b. (branch_step False True)\<^sup>*\<^sup>* (branch_begin (\<lambda>_. [pass_seg]) [7]) b \<and> br_sent b = [Out 7]"
proof -
  let ?R = "(branch_step False True)\<^sup>*\<^sup>*" and ?p = "[Recv pass_seg]"
  have "?R (branch_begin (\<lambda>_. [pass_seg]) [7]) (bst [] RunRecv (FwdSelect True) DrainSelect [Send [Out 7] pass_seg] ?p ?p {} [])"
    unfolding branch_begin_bst list.map by (rule bst_takes [OF demo_segs(1)])
  also have "?R \<dots> (bst [] RunRecv (FwdPut ToThen 7 True) DrainSelect ?p ?p ?p {} [])"
    by (rule one_step [OF bst_fwd(1) [OF pass_steps(2) [OF demo_segs(1) refl]]])
  also have "?R \<dots> (bst [] RunRecv (FwdSelect True) DrainSelect ?p [Send [Out 7] pass_seg] ?p {} [])"
    by (rule one_step [OF bst_fwd(3) [OF _ pass_steps(1) [OF demo_segs(1)]]]) simp
  also have "?R \<dots> (bst [] RunRecv (FwdSelect True) (DrainPut (Out 7)) ?p ?p ?p {} [])"
    by (rule one_step [OF bst_drain(1) [OF pass_steps(2) [OF demo_segs(1) refl]]])
  also have "?R \<dots> (bst [] RunRecv (FwdSelect True) DrainSelect ?p ?p ?p {} ([] @ [Out 7]))"
    by (rule one_step [OF bst_drain(2)]) simp
  finally have "?R (branch_begin (\<lambda>_. [pass_seg]) [7]) (bst [] RunRecv (FwdSelect True) DrainSelect ?p ?p ?p {} ([] @ [Out 7]))" .
  then show ?thesis by (intro exI conjI) (assumption, simp add: bst_def)
qed

theorem branch_run_conserves_witness:
  "\<exists>b. (branch_step False True)\<^sup>*\<^sup>* (branch_begin (\<lambda>_. [pass_seg]) [7]) b \<and> br_sent b = [Out 7] \<and> branch_holds b = {#}"
proof -
  obtain b where b: "(branch_step False True)\<^sup>*\<^sup>* (branch_begin (\<lambda>_. [pass_seg]) [7]) b" "br_sent b = [Out 7]"
    using demo_delivers by blast
  have "branch_holds b + branch_sent b = {#7#}" using branch_run_conserves [OF b(1)] demo_filtering by simp
  then show ?thesis using b by (intro exI [of _ b]) (simp add: branch_sent_def)
qed

end
