(* ===== verification/Jobs.thy ===== *)
theory Jobs
  imports BranchNet
begin

text \<open>
  The wrapper for several jobs (\<open>ParallelizedSegment.Run\<close> in \<open>segments/parallelized_segment.go\<close>): the
  jobs run concurrently, receive from one channel and send to one channel. Its step relation shows
  that the jobs share the work without loss, and that the wrapper cannot end. The last section is
  \<open>TestSegment\<close> of \<open>segments/segments.go\<close>.
\<close>

section \<open>Jobs that share their channels\<close>

record 'm jobs_state =
  jb_in :: "'m list"
  jb_gors :: "'m gor list"
  jb_out :: "'m list"
  jb_drop :: "'m list"
  jb_out_closed :: bool
  jb_crashed :: "failure option"

definition jobs_begin :: "'m seg list \<Rightarrow> 'm list \<Rightarrow> 'm jobs_state" where
  "jobs_begin ss ms = \<lparr>jb_in = ms, jb_gors = map Recv ss, jb_out = [], jb_drop = [], jb_out_closed = False, jb_crashed = None\<rparr>"

text \<open>
  One job receives the next message, sends on the output, sends a drop, or returns because the
  input is closed, which closes the output.
\<close>

inductive jobs_step :: "'m jobs_state \<Rightarrow> 'm jobs_state \<Rightarrow> bool" where
  job_takes: "jb_crashed j = None \<Longrightarrow> jb_in j = m # ms \<Longrightarrow> jb_gors j = xs @ Recv s # ys \<Longrightarrow> on_msg s m = Inr (es, s') \<Longrightarrow>
    jobs_step j (j\<lparr>jb_in := ms, jb_gors := xs @ resume es s' # ys\<rparr>)"
| job_fails: "jb_crashed j = None \<Longrightarrow> jb_in j = m # ms \<Longrightarrow> jb_gors j = xs @ Recv s # ys \<Longrightarrow> on_msg s m = Inl e \<Longrightarrow>
    jobs_step j (j\<lparr>jb_crashed := Some e\<rparr>)"
| job_sends: "jb_crashed j = None \<Longrightarrow> jb_gors j = xs @ Send (Out m # es) s # ys \<Longrightarrow> \<not> jb_out_closed j \<Longrightarrow>
    jobs_step j (j\<lparr>jb_gors := xs @ resume es s # ys, jb_out := jb_out j @ [m]\<rparr>)"
| job_sends_closed: "jb_crashed j = None \<Longrightarrow> jb_gors j = xs @ Send (Out m # es) s # ys \<Longrightarrow> jb_out_closed j \<Longrightarrow>
    jobs_step j (j\<lparr>jb_crashed := Some (Panic ''send on closed channel'')\<rparr>)"
| job_drops: "jb_crashed j = None \<Longrightarrow> jb_gors j = xs @ Send (Drop m # es) s # ys \<Longrightarrow>
    jobs_step j (j\<lparr>jb_gors := xs @ resume es s # ys, jb_drop := jb_drop j @ [m]\<rparr>)"
| job_ends: "jb_crashed j = None \<Longrightarrow> jb_in j = [] \<Longrightarrow> jb_gors j = xs @ Recv s # ys \<Longrightarrow> \<not> jb_out_closed j \<Longrightarrow>
    jobs_step j (j\<lparr>jb_gors := xs @ Done # ys, jb_out_closed := True\<rparr>)"
| job_ends_closed: "jb_crashed j = None \<Longrightarrow> jb_in j = [] \<Longrightarrow> jb_gors j = xs @ Recv s # ys \<Longrightarrow> jb_out_closed j \<Longrightarrow>
    jobs_step j (j\<lparr>jb_crashed := Some (Panic ''close of closed channel'')\<rparr>)"

text \<open>\<open>segmentWg.Wait()\<close> returns when all jobs are done.\<close>

definition jobs_done :: "'m jobs_state \<Rightarrow> bool" where
  "jobs_done j \<longleftrightarrow> jb_crashed j = None \<and> (\<forall>g\<in>set (jb_gors j). g = Done)"

section \<open>The work is shared without loss\<close>

definition jobs_ok :: "'m list \<Rightarrow> 'm jobs_state \<Rightarrow> bool" where
  "jobs_ok ms j \<longleftrightarrow> list_all gor_filters (jb_gors j)
     \<and> mset (jb_in j) + pipe_holds (jb_gors j) + mset (jb_out j) + mset (jb_drop j) = mset ms"

lemma jobs_step_ok: "jobs_step j j' \<Longrightarrow> jobs_ok ms j \<Longrightarrow> jobs_ok ms j'"
proof (induction j j' rule: jobs_step.induct)
  case (job_takes j m ms' xs s ys es s')
  then show ?case using filtering_step [OF _ job_takes(4)] by (auto simp: jobs_ok_def ac_simps)
qed (auto simp: jobs_ok_def ac_simps)

text \<open>
  In every interleaving of the jobs of a filter, each message of the input is still to come, held by
  one job, or sent or dropped, exactly once.
\<close>

theorem jobs_conserve:
  assumes "jobs_step\<^sup>*\<^sup>* (jobs_begin ss ms) j" "\<forall>s\<in>set ss. filtering s"
  shows "mset (jb_in j) + pipe_holds (jb_gors j) + mset (jb_out j) + mset (jb_drop j) = mset ms"
proof -
  have r: "pipe_holds (map Recv xs) = {#}" for xs :: "'a seg list" by (induction xs) auto
  have "jobs_ok ms (jobs_begin ss ms)" using assms(2) by (simp add: jobs_ok_def jobs_begin_def r list_all_iff)
  with assms(1) have "jobs_ok ms j" by (induction rule: rtranclp_induct) (auto intro: jobs_step_ok)
  then show ?thesis by (simp add: jobs_ok_def)
qed

section \<open>The wrapper does not end\<close>

text \<open>At most one job has returned, and exactly when the output is closed.\<close>

definition one_closes :: "nat \<Rightarrow> 'm jobs_state \<Rightarrow> bool" where
  "one_closes k j \<longleftrightarrow> length (jb_gors j) = k \<and> count_list (jb_gors j) Done = (if jb_out_closed j then 1 else 0)"

lemma jobs_step_closes: "jobs_step j j' \<Longrightarrow> one_closes k j \<Longrightarrow> one_closes k j'"
  by (induction j j' rule: jobs_step.induct) (auto simp: one_closes_def)

text \<open>
  C37. With two or more jobs the wrapper never returns, in no interleaving: \<open>Run\<close> of the first job that
  ends closes the output, and the next send or the end of another job panics.
\<close>

theorem jobs_never_done:
  assumes "jobs_step\<^sup>*\<^sup>* (jobs_begin ss ms) j" "2 \<le> length ss"
  shows "\<not> jobs_done j"
proof
  assume d: "jobs_done j"
  have r: "count_list (map Recv xs) Done = 0" for xs :: "'a seg list" by (induction xs) auto
  have "one_closes (length ss) (jobs_begin ss ms)" by (simp add: one_closes_def jobs_begin_def r)
  with assms(1) have c: "one_closes (length ss) j" by (induction rule: rtranclp_induct) (auto intro: jobs_step_closes)
  have "\<forall>g\<in>set gs. g = Done \<Longrightarrow> count_list gs Done = length gs" for gs :: "'a gor list" by (induction gs) auto
  then show False using d c assms(2) by (auto simp: jobs_done_def one_closes_def split: if_splits)
qed

lemma jobs_start2: "jobs_begin [s, t] ms = \<lparr>jb_in = ms, jb_gors = [Recv s, Recv t], jb_out = [], jb_drop = [], jb_out_closed = False, jb_crashed = None\<rparr>"
  by (simp add: jobs_begin_def)

lemma jobs_swap:
  assumes "on_msg s a = Inr ([Out a], s')" "on_msg t b = Inr ([Out b], t')"
  shows "\<exists>j. jobs_step\<^sup>*\<^sup>* (jobs_begin [s, t] [a, b]) j \<and> jb_out j = [b, a] \<and> jb_crashed j = None"
proof -
  define st where "st i gs out = \<lparr>jb_in = i, jb_gors = gs, jb_out = out, jb_drop = [], jb_out_closed = False, jb_crashed = None\<rparr>"
    for i out :: "'a list" and gs :: "'a gor list"
  have 1: "jobs_step (st [a, b] [Recv s, Recv t] []) (st [b] [Send [Out a] s', Recv t] [])"
    using jobs_step.job_takes [of "st [a, b] [Recv s, Recv t] []" a "[b]" "[]" s "[Recv t]" "[Out a]" s'] assms(1)
    by (simp add: st_def resume_def)
  have 2: "jobs_step (st [b] [Send [Out a] s', Recv t] []) (st [] [Send [Out a] s', Send [Out b] t'] [])"
    using jobs_step.job_takes [of "st [b] [Send [Out a] s', Recv t] []" b "[]" "[Send [Out a] s']" t "[]" "[Out b]" t'] assms(2)
    by (simp add: st_def resume_def)
  have 3: "jobs_step (st [] [Send [Out a] s', Send [Out b] t'] []) (st [] [Send [Out a] s', Recv t'] [b])"
    using jobs_step.job_sends [of "st [] [Send [Out a] s', Send [Out b] t'] []" "[Send [Out a] s']" b "[]" t' "[]"]
    by (simp add: st_def resume_def)
  have 4: "jobs_step (st [] [Send [Out a] s', Recv t'] [b]) (st [] [Recv s', Recv t'] [b, a])"
    using jobs_step.job_sends [of "st [] [Send [Out a] s', Recv t'] [b]" "[]" a "[]" s' "[Recv t']"]
    by (simp add: st_def resume_def)
  have "jobs_step\<^sup>*\<^sup>* (jobs_begin [s, t] [a, b]) (st [] [Recv s', Recv t'] [b, a])"
    unfolding jobs_start2 st_def [symmetric] using 1 2 3 4 by (meson converse_rtranclp_into_rtranclp r_into_rtranclp)
  then show ?thesis by (intro exI conjI) (assumption, simp_all add: st_def)
qed

text \<open>
  The order of the flows is lost: two jobs that pass everything can deliver two messages in the
  other order.
\<close>

theorem jobs_reorder:
  assumes "on_msg s a = Inr ([Out a], s')" "on_msg t b = Inr ([Out b], t')"
  shows "\<exists>j. jobs_step\<^sup>*\<^sup>* (jobs_begin [s, t] [a, b]) j \<and> jb_out j = [b, a] \<and> jb_crashed j = None"
  using assms by (rule jobs_swap)

section \<open>TestSegment\<close>

text \<open>
  The helper of the tests, for a segment that was created: one message is sent, the input closed,
  one message or the close of the output received (\<open>Inr None\<close> is the nil message), and the end of
  \<open>Run\<close> awaited. It does not return when the segment sends a second message, as nobody
  receives it.
\<close>

datatype 'm test_result = TestReturns "'m option" | TestBlocks | TestFails failure

definition TestSegment :: "'m seg \<Rightarrow> 'm \<Rightarrow> 'm test_result" where
  "TestSegment s m =
     (case on_msg s m of
        Inl e \<Rightarrow> TestFails e
      | Inr (es, _) \<Rightarrow>
          (if drops es \<noteq> [] then TestBlocks
           else case outs es of [] \<Rightarrow> TestReturns None | [x] \<Rightarrow> TestReturns (Some x) | _ \<Rightarrow> TestBlocks))"

text \<open>
  For a filter without subscriber the helper tells what it is meant to tell: it returns the message
  if the filter passes it, and nil if it drops it.
\<close>

context filter_segment begin

lemma TestSegment_filters:
  assumes "inv s" "\<not> subscribed s"
  shows "TestSegment (mk_seg step s) m \<in> {TestReturns (Some m), TestReturns None}
    \<and> (TestSegment (mk_seg step s) m = TestReturns (Some m) \<longleftrightarrow> (\<exists>s'. step s m = Inr ([Out m], s')))"
proof -
  obtain es s' where "step s m = Inr (es, s')" "es = [Out m] \<or> es = []"
    using step_cases [OF assms(1), of m] assms(2) by (auto simp: send_drop_def)
  then show ?thesis by (auto simp: TestSegment_def)
qed

end

section \<open>Examples\<close>

theorem jobs_reorder_witness:
  "\<exists>j. jobs_step\<^sup>*\<^sup>* (jobs_begin [pass_seg, pass_seg] [1, 2]) j \<and> jb_out j = [2, 1]"
  using jobs_reorder [OF demo_segs(1) demo_segs(1), of 1 2] by blast

theorem jobs_conserve_witness:
  "\<exists>j. jobs_step\<^sup>*\<^sup>* (jobs_begin [pass_seg, pass_seg] [1, 2]) j \<and> jb_out j = [2, 1] \<and> jb_in j = [] \<and> pipe_holds (jb_gors j) = {#}"
proof -
  obtain j where j: "jobs_step\<^sup>*\<^sup>* (jobs_begin [pass_seg, pass_seg] [1, 2]) j" "jb_out j = [2, 1]"
    using jobs_swap [OF demo_segs(1) demo_segs(1), of 1 2] by blast
  then show ?thesis using jobs_conserve [OF j(1)] demo_filtering by (auto simp: add_mset_commute)
qed

theorem jobs_never_done_witness: "\<not> jobs_done (jobs_begin [pass_seg, pass_seg] [])"
  using jobs_never_done [OF rtranclp.rtrancl_refl, of "[pass_seg, pass_seg]" "[]"] by simp

end
