(* ===== verification/KafkaSession.thy ===== *)
theory KafkaSession
  imports Kafka
begin

text \<open>
  The goroutines of \<open>kafkaconsumer\<close> after the client was created (\<open>Run\<close>, \<open>Close\<close>, and \<open>Setup\<close>,
  \<open>ConsumeClaim\<close>, \<open>Cleanup\<close> of the handler): the loop of \<open>Run\<close>, the goroutine that keeps a session of
  the consumer group open, one goroutine per claimed partition, and the caller of \<open>Close\<close>. The Kafka
  library is represented by what it documents: a session begins with \<open>Setup\<close>, runs \<open>ConsumeClaim\<close> for
  each claim, ends when the group is rebalanced or the context is cancelled, and calls \<open>Cleanup\<close> when
  all claims have returned. Failures of a session are in \<open>Kafka\<close> (\<open>connectionRetryLoop\<close>). A message
  stands for the flow that was decoded from it.
\<close>

section \<open>State and steps\<close>

text \<open>
  The loop of \<open>Run\<close>: before the first session is ready, at its \<open>select\<close>, sending on \<open>Out\<close>, in the
  deferred wait for the handler, returned.
\<close>

datatype 'm loop_pc = LoopFirst | LoopSelect | LoopPut 'm | LoopWait | LoopEnded

text \<open>
  The goroutine with the sessions: at the top of its loop, in \<open>Setup\<close> at the send on \<open>ready\<close>, waiting
  for the claims of the session, returned.
\<close>

datatype session_pc = SessionTop | SessionReady | SessionClaims | SessionReturned

datatype 'm claim_pc = ClaimRecv | ClaimSend 'm | ClaimReturned

datatype close_pc = CloseIdle | CloseSending | CloseDone

record 'm ks_state =
  ks_loop :: "'m loop_pc"
  ks_session :: session_pc
  ks_claims :: "'m claim_pc list"
  ks_flows_open :: bool
  ks_cancelled :: bool
  ks_session_ended :: bool
  ks_messages :: "'m list"
  ks_in :: "'m list"
  ks_out :: "'m list"
  ks_close :: close_pc

definition ks_begin :: "'m list \<Rightarrow> 'm list \<Rightarrow> 'm ks_state" where
  "ks_begin msgs ins = \<lparr>ks_loop = LoopFirst, ks_session = SessionTop, ks_claims = [], ks_flows_open = True, ks_cancelled = False,
     ks_session_ended = False, ks_messages = msgs, ks_in = ins, ks_out = [], ks_close = CloseIdle\<rparr>"

inductive ks_step :: "'m ks_state \<Rightarrow> 'm ks_state \<Rightarrow> bool" where
  session_setup: "ks_session k = SessionTop \<Longrightarrow> \<not> ks_cancelled k \<Longrightarrow>
    ks_step k (k\<lparr>ks_session := SessionReady, ks_flows_open := True, ks_session_ended := False\<rparr>)"
| ready: "ks_session k = SessionReady \<Longrightarrow> ks_loop k \<in> {LoopFirst, LoopSelect} \<Longrightarrow>
    ks_step k (k\<lparr>ks_session := SessionClaims, ks_claims := replicate n ClaimRecv, ks_loop := LoopSelect\<rparr>)"
| claim_receives: "ks_session k = SessionClaims \<Longrightarrow> ks_claims k = xs @ ClaimRecv # ys \<Longrightarrow> ks_messages k = m # ms \<Longrightarrow>
    ks_step k (k\<lparr>ks_claims := xs @ ClaimSend m # ys, ks_messages := ms\<rparr>)"
| claim_sends: "ks_claims k = xs @ ClaimSend m # ys \<Longrightarrow> ks_loop k = LoopSelect \<Longrightarrow>
    ks_step k (k\<lparr>ks_claims := xs @ ClaimRecv # ys, ks_loop := LoopPut m\<rparr>)"
| claim_returns: "ks_claims k = xs @ ClaimRecv # ys \<Longrightarrow> ks_session_ended k \<Longrightarrow>
    ks_step k (k\<lparr>ks_claims := xs @ ClaimReturned # ys\<rparr>)"
| session_ends: "ks_session k = SessionClaims \<Longrightarrow> \<not> ks_session_ended k \<Longrightarrow>
    ks_step k (k\<lparr>ks_session_ended := True\<rparr>)"
| cleanup: "ks_session k = SessionClaims \<Longrightarrow> ks_session_ended k \<Longrightarrow> \<forall>c\<in>set (ks_claims k). c = ClaimReturned \<Longrightarrow>
    ks_step k (k\<lparr>ks_session := SessionTop, ks_flows_open := False, ks_claims := []\<rparr>)"
| session_returns: "ks_session k = SessionTop \<Longrightarrow> ks_cancelled k \<Longrightarrow>
    ks_step k (k\<lparr>ks_session := SessionReturned\<rparr>)"
| loop_puts: "ks_loop k = LoopPut m \<Longrightarrow> ks_step k (k\<lparr>ks_loop := LoopSelect, ks_out := ks_out k @ [m]\<rparr>)"
| loop_receives: "ks_loop k = LoopSelect \<Longrightarrow> ks_in k = m # ms \<Longrightarrow> ks_step k (k\<lparr>ks_loop := LoopPut m, ks_in := ms\<rparr>)"
| loop_in_closed: "ks_loop k = LoopSelect \<Longrightarrow> ks_in k = [] \<Longrightarrow> ks_step k (k\<lparr>ks_loop := LoopWait, ks_cancelled := True\<rparr>)"
| loop_spins: "ks_loop k = LoopSelect \<Longrightarrow> \<not> ks_flows_open k \<Longrightarrow> ks_step k k"
| close_called: "ks_close k = CloseIdle \<Longrightarrow> ks_step k (k\<lparr>ks_close := CloseSending\<rparr>)"
| loop_shutdown: "ks_loop k = LoopSelect \<Longrightarrow> ks_close k = CloseSending \<Longrightarrow>
    ks_step k (k\<lparr>ks_loop := LoopWait, ks_cancelled := True, ks_close := CloseDone\<rparr>)"
| loop_returns: "ks_loop k = LoopWait \<Longrightarrow> ks_session k = SessionReturned \<Longrightarrow> ks_step k (k\<lparr>ks_loop := LoopEnded\<rparr>)"

section \<open>No message is lost or duplicated while the goroutines run\<close>

fun loop_holds :: "'m loop_pc \<Rightarrow> 'm multiset" where
  "loop_holds (LoopPut m) = {#m#}"
| "loop_holds pc = {#}"

fun claim_holds :: "'m claim_pc \<Rightarrow> 'm multiset" where
  "claim_holds (ClaimSend m) = {#m#}"
| "claim_holds pc = {#}"

definition claims_hold :: "'m claim_pc list \<Rightarrow> 'm multiset" where
  "claims_hold cs = (\<Sum>c\<leftarrow>cs. claim_holds c)"

lemma claims_hold_simps [simp]:
  "claims_hold [] = {#}" "claims_hold (c # cs) = claim_holds c + claims_hold cs"
  "claims_hold (cs @ ds) = claims_hold cs + claims_hold ds" "claims_hold (replicate n ClaimRecv) = {#}"
  by (simp_all add: claims_hold_def) (induction n; simp)

text \<open>Claims exist during a session only; the loop is past its end only after the context was cancelled.\<close>

definition ks_ok :: "'m multiset \<Rightarrow> 'm ks_state \<Rightarrow> bool" where
  "ks_ok ms0 k \<longleftrightarrow> mset (ks_messages k) + mset (ks_in k) + claims_hold (ks_claims k) + loop_holds (ks_loop k) + mset (ks_out k) = ms0
     \<and> (ks_session k \<noteq> SessionClaims \<longrightarrow> ks_claims k = [])
     \<and> (ks_loop k = LoopEnded \<longrightarrow> ks_session k = SessionReturned)"

lemma claims_returned: "\<forall>c\<in>set cs. c = ClaimReturned \<Longrightarrow> claims_hold cs = {#}"
  by (induction cs) auto

lemma ks_step_ok: "ks_step k k' \<Longrightarrow> ks_ok ms0 k \<Longrightarrow> ks_ok ms0 k'"
  by (induction k k' rule: ks_step.induct) (auto simp: ks_ok_def claims_returned ac_simps)

lemma ks_reach: "ks_step\<^sup>*\<^sup>* (ks_begin msgs ins) k \<Longrightarrow> ks_ok (mset msgs + mset ins) k"
proof (induction rule: rtranclp_induct)
  case base
  show ?case by (simp add: ks_ok_def ks_begin_def)
qed (rule ks_step_ok)

text \<open>
  In every interleaving, with any number of rebalances, each message of the claims and of the input
  is still to come, held by one goroutine, or sent, exactly once; and when \<open>Run\<close> has returned no
  message is held.
\<close>

theorem kafka_session_conserves:
  assumes "ks_step\<^sup>*\<^sup>* (ks_begin msgs ins) k"
  shows "mset (ks_messages k) + mset (ks_in k) + claims_hold (ks_claims k) + loop_holds (ks_loop k) + mset (ks_out k)
       = mset msgs + mset ins
    \<and> (ks_loop k = LoopEnded \<longrightarrow> mset (ks_out k) \<subseteq># mset msgs + mset ins \<and> claims_hold (ks_claims k) = {#})"
proof -
  have ok: "ks_ok (mset msgs + mset ins) k" by (rule ks_reach [OF assms])
  then have t: "mset (ks_messages k) + mset (ks_in k) + claims_hold (ks_claims k) + loop_holds (ks_loop k) + mset (ks_out k) = mset msgs + mset ins"
    by (simp add: ks_ok_def)
  moreover have "mset (ks_out k) \<subseteq># mset msgs + mset ins" unfolding t [symmetric] by simp
  ultimately show ?thesis using ok by (auto simp: ks_ok_def)
qed

section \<open>The shutdown\<close>

lemma close_waits_step:
  "ks_step k k' \<Longrightarrow> ks_loop k \<in> {LoopWait, LoopEnded} \<and> ks_close k \<noteq> CloseDone \<Longrightarrow>
     ks_loop k' \<in> {LoopWait, LoopEnded} \<and> ks_close k' \<noteq> CloseDone"
  by (induction k k' rule: ks_step.induct) auto

text \<open>
  \<open>Close\<close> returns only if the loop is still there to receive: once the loop has left its \<open>select\<close>, a
  \<open>Close\<close> that has begun, or begins later, waits for ever, and with it the shutdown of the pipeline.
\<close>

theorem kafka_close_waits:
  assumes "ks_step\<^sup>*\<^sup>* k k'" "ks_loop k \<in> {LoopWait, LoopEnded}" "ks_close k \<noteq> CloseDone"
  shows "ks_close k' \<noteq> CloseDone"
proof -
  have "ks_loop k' \<in> {LoopWait, LoopEnded} \<and> ks_close k' \<noteq> CloseDone"
    using assms by (induction rule: rtranclp_induct) (auto dest: close_waits_step)
  then show ?thesis by simp
qed

text \<open>A claim that holds a message while the loop is in its deferred wait.\<close>

definition claim_stuck :: "'m ks_state \<Rightarrow> bool" where
  "claim_stuck k \<longleftrightarrow> ks_loop k = LoopWait \<and> ks_session k = SessionClaims \<and> (\<exists>m. ClaimSend m \<in> set (ks_claims k))"

lemma claim_stuck_step: "ks_step k k' \<Longrightarrow> claim_stuck k \<Longrightarrow> claim_stuck k'"
  by (induction k k' rule: ks_step.induct) (auto simp: claim_stuck_def)

text \<open>
  C38. A claim that holds a message when the loop leaves its \<open>select\<close> never returns: its send has no
  alternative for the end of the session. So the session does not end and \<open>Run\<close> does not
  return, from such a state on, in no interleaving.
\<close>

theorem kafka_shutdown_hangs:
  assumes "ks_step\<^sup>*\<^sup>* k k'" "claim_stuck k"
  shows "ks_loop k' = LoopWait \<and> (\<exists>m. ClaimSend m \<in> set (ks_claims k'))"
proof -
  have "claim_stuck k'" using assms by (induction rule: rtranclp_induct) (auto dest: claim_stuck_step)
  then show ?thesis by (simp add: claim_stuck_def)
qed

text \<open>Such states are reached whenever a message arrives while the segment is being closed.\<close>

definition ks_closing :: "'m \<Rightarrow> 'm list \<Rightarrow> 'm list \<Rightarrow> 'm ks_state" where
  "ks_closing m ms ins = \<lparr>ks_loop = LoopWait, ks_session = SessionClaims, ks_claims = [ClaimSend m], ks_flows_open = True,
     ks_cancelled = True, ks_session_ended = False, ks_messages = ms, ks_in = ins, ks_out = [], ks_close = CloseDone\<rparr>"

lemma ks_closing_reached: "ks_step\<^sup>*\<^sup>* (ks_begin (m # ms) ins) (ks_closing m ms ins)"
proof -
  let ?b = "ks_begin (m # ms) ins"
  let ?k1 = "?b\<lparr>ks_session := SessionReady\<rparr>"
  let ?k2 = "?k1\<lparr>ks_session := SessionClaims, ks_claims := [ClaimRecv], ks_loop := LoopSelect\<rparr>"
  let ?k3 = "?k2\<lparr>ks_claims := [ClaimSend m], ks_messages := ms\<rparr>"
  let ?k4 = "?k3\<lparr>ks_close := CloseSending\<rparr>"
  have "ks_step ?b ?k1" using ks_step.session_setup [of ?b] by (simp add: ks_begin_def)
  moreover have "ks_step ?k1 ?k2" using ks_step.ready [of ?k1 1] by (simp add: ks_begin_def)
  moreover have "ks_step ?k2 ?k3" using ks_step.claim_receives [of ?k2 "[]" "[]" m ms] by (simp add: ks_begin_def)
  moreover have "ks_step ?k3 ?k4" by (rule ks_step.close_called) (simp add: ks_begin_def)
  moreover have "ks_step ?k4 (ks_closing m ms ins)"
    using ks_step.loop_shutdown [of ?k4] by (simp add: ks_begin_def ks_closing_def)
  ultimately show ?thesis by (meson converse_rtranclp_into_rtranclp r_into_rtranclp)
qed

theorem kafka_shutdown_can_hang:
  "\<exists>k. ks_step\<^sup>*\<^sup>* (ks_begin (m # ms) ins) k \<and> claim_stuck k \<and> ks_close k = CloseDone"
  using ks_closing_reached by (intro exI [of _ "ks_closing m ms ins"]) (simp add: claim_stuck_def ks_closing_def)

theorem kafka_shutdown_hangs_witness: "ks_loop (ks_closing (1::nat) [] []) = LoopWait"
  using kafka_shutdown_hangs [of "ks_closing (1::nat) [] []", OF rtranclp.rtrancl_refl] by (simp add: claim_stuck_def ks_closing_def)

theorem kafka_close_waits_witness:
  "ks_close ((ks_closing (1::nat) [] [])\<lparr>ks_close := CloseSending\<rparr>) \<noteq> CloseDone"
  using kafka_close_waits [of "(ks_closing (1::nat) [] [])\<lparr>ks_close := CloseSending\<rparr>", OF rtranclp.rtrancl_refl]
  by (simp add: ks_closing_def)

theorem kafka_session_conserves_witness:
  "\<exists>k. ks_step\<^sup>*\<^sup>* (ks_begin [1::nat] [2]) k \<and> claims_hold (ks_claims k) = {#1#} \<and> mset (ks_in k) + mset (ks_out k) = {#2#}"
proof -
  have r: "ks_step\<^sup>*\<^sup>* (ks_begin [1::nat] [2]) (ks_closing 1 [] [2])" by (rule ks_closing_reached)
  from kafka_session_conserves [OF r] show ?thesis
    using r by (intro exI [of _ "ks_closing (1::nat) [] [2]"]) (simp add: ks_closing_def)
qed

end
