(* ===== verification/DocGen.thy ===== *)
theory DocGen
  imports Prelude
begin

text \<open>
  The generator of the configuration guide (\<open>meta/doc_generator\<close>): the tree of segments it builds from
  the directories, the table of contents, and the sections of the document. What it extracts from the
  sources with \<open>go/parser\<close> and \<open>go/doc\<close>, the title case of the language package, and the file
  system are parameters.
\<close>

section \<open>The tree of segments\<close>

datatype dir_entry = FileEntry string | DirEntry string "dir_entry list"

text \<open>\<open>Parent\<close> is nil exactly in the root, which is the only node of depth 0.\<close>

datatype SegmentTree =
  SegmentTree (st_Name: string) (st_Path: string) (st_Depth: nat) (st_IsSegment: bool) (st_Children: "SegmentTree list")

text \<open>\<open>strings.TrimSuffix(name, filepath.Ext(name))\<close> for the name of an entry, and \<open>filepath.Join\<close>.\<close>

definition no_ext :: "string \<Rightarrow> string" where
  "no_ext name = (if CHR ''.'' \<in> set name then rev (tl (dropWhile (\<lambda>c. c \<noteq> CHR ''.'') (rev name))) else name)"

definition path_Join :: "string \<Rightarrow> string \<Rightarrow> string" where
  "path_Join path name = path @ ''/'' @ name"

definition add_child :: "SegmentTree \<Rightarrow> SegmentTree \<Rightarrow> SegmentTree" where
  "add_child c t = SegmentTree (st_Name t) (st_Path t) (st_Depth t) (st_IsSegment t) (st_Children t @ [c])"

definition mark_segment :: "string \<Rightarrow> SegmentTree \<Rightarrow> SegmentTree" where
  "mark_segment path t = SegmentTree (st_Name t) path (st_Depth t) True (st_Children t)"

text \<open>\<open>_buildSegmentTree\<close>: the loop over the entries of a directory.\<close>

fun build_entries :: "string \<Rightarrow> dir_entry list \<Rightarrow> SegmentTree \<Rightarrow> SegmentTree" where
  "build_entries path [] tree = tree"
| "build_entries path (DirEntry name es # rest) tree =
     build_entries path rest
       (add_child (build_entries (path_Join path name) es
          (SegmentTree (no_ext name) (path_Join path name) (st_Depth tree + 1) False [])) tree)"
| "build_entries path (FileEntry name # rest) tree =
     build_entries path rest
       (if st_Depth tree = 0 \<or> st_Name tree \<noteq> no_ext name then tree else mark_segment (path_Join path name) tree)"

definition buildSegmentTree :: "string \<Rightarrow> dir_entry list \<Rightarrow> SegmentTree" where
  "buildSegmentTree path es = build_entries path es (SegmentTree ''Root'' ''/'' 0 False [])"

section \<open>Titles and links\<close>

definition formatTitle :: "(string \<Rightarrow> string) \<Rightarrow> SegmentTree \<Rightarrow> string" where
  "formatTitle title_case t = (if st_IsSegment t then st_Name t else title_case (st_Name t) @ '' Group'')"

definition linkTo :: "string \<Rightarrow> string \<Rightarrow> string" where
  "linkTo display url = ''['' @ (if display = '''' then url else display) @ '']('' @ url @ '')''"

definition linkifyText :: "string \<Rightarrow> string" where
  "linkifyText t = map (\<lambda>c. if c = CHR '' '' then CHR ''-'' else c) (to_lower (trim_space t))"

definition FlowPipelineFilesBase :: string where
  "FlowPipelineFilesBase = ''https://github.com/BelWue/flowpipeline/tree/master/''"

text \<open>\<open>filepath.Abs\<close> of the base directory and of a path are arguments.\<close>

definition linkFromPath :: "(string \<Rightarrow> string option) \<Rightarrow> string \<Rightarrow> string \<Rightarrow> string \<Rightarrow> string outcome" where
  "linkFromPath abs_path base path display =
     (case abs_path base of None \<Rightarrow> Inl (Fatal ''Could not determine project base directory.'') | Some dir \<Rightarrow>
     (case abs_path path of None \<Rightarrow> Inl (Fatal ''not a valid path'') | Some f \<Rightarrow>
        if take (length dir) f \<noteq> dir then Inl (Fatal ''not within the project base directory'')
        else Inr (linkTo display (FlowPipelineFilesBase @ path))))"

definition summary :: "string \<Rightarrow> string \<Rightarrow> string" where
  "summary s details = ''<details>'' @ [CHR 0x0A] @ ''<summary>'' @ s @ ''</summary>'' @ [CHR 0x0A, CHR 0x0A] @ details
     @ [CHR 0x0A, CHR 0x0A] @ ''</details>''"

section \<open>The table of contents\<close>

definition toc_line :: "nat \<Rightarrow> string \<Rightarrow> string" where
  "toc_line depth title =
     concat (replicate (depth - 1) ''  '') @ ''- '' @ linkTo title (''#'' @ linkifyText title) @ [CHR 0x0A]"

fun generateToC :: "(string \<Rightarrow> string) \<Rightarrow> SegmentTree \<Rightarrow> string" where
  "generateToC tc (SegmentTree name path depth seg children) =
     (if depth \<noteq> 0 then toc_line depth (formatTitle tc (SegmentTree name path depth seg children)) else [])
     @ (if seg then [] else concat (map (generateToC tc) children))"

section \<open>The document\<close>

text \<open>A paragraph of the builder; \<open>String\<close> joins their texts.\<close>

datatype md_par = MdHeading nat string | MdText string

record MdBuilder =
  md_paragraphs :: "md_par list"
  md_nesting :: nat

fun md_text :: "md_par \<Rightarrow> string" where
  "md_text (MdHeading nesting heading) = replicate (nesting + 1) CHR ''#'' @ '' '' @ heading"
| "md_text (MdText p) = p"

definition md_String :: "MdBuilder \<Rightarrow> string" where
  "md_String b = join_with [CHR 0x0A, CHR 0x0A] (map md_text (md_paragraphs b))"

definition WriteParagraph :: "md_par \<Rightarrow> MdBuilder \<Rightarrow> MdBuilder" where
  "WriteParagraph p b = b\<lparr>md_paragraphs := md_paragraphs b @ [p]\<rparr>"

text \<open>\<open>WriteSection\<close> before and after the call of its body.\<close>

definition begin_section :: "string \<Rightarrow> MdBuilder \<Rightarrow> MdBuilder" where
  "begin_section heading b = (WriteParagraph (MdHeading (md_nesting b) heading) b)\<lparr>md_nesting := md_nesting b + 1\<rparr>"

definition end_section :: "MdBuilder \<Rightarrow> MdBuilder" where
  "end_section b = b\<lparr>md_nesting := md_nesting b - 1\<rparr>"

text \<open>
  The parameters: title case, links to a file, the comment of a package and the documentation of the
  configuration of a segment (empty if there is none), and \<open>os.ReadFile\<close>.
\<close>

record doc_env =
  de_title :: "string \<Rightarrow> string"
  de_link :: "string \<Rightarrow> string \<Rightarrow> string outcome"
  de_Base :: "string \<Rightarrow> string"
  de_package_doc :: "string \<Rightarrow> string option"
  de_fields_doc :: "SegmentTree \<Rightarrow> string outcome"
  de_ReadFile :: "string \<Rightarrow> string option"

definition extractPackageDoc :: "doc_env \<Rightarrow> string \<Rightarrow> string" where
  "extractPackageDoc de path =
     (case de_package_doc de path of None \<Rightarrow> ''_No segment documentation found._'' | Some d \<Rightarrow> trim_space d)"

definition segment_section :: "doc_env \<Rightarrow> SegmentTree \<Rightarrow> MdBuilder \<Rightarrow> MdBuilder outcome" where
  "segment_section de t b =
     or_fail (de_link de (st_Path t) (de_Base de (st_Path t))) (\<lambda>l.
     or_fail (de_fields_doc de t) (\<lambda>fieldsDoc.
       let b = WriteParagraph (MdText (''_This segment is implemented in '' @ l @ ''._'')) b;
           b = WriteParagraph (MdText (extractPackageDoc de (st_Path t))) b
       in Inr (if fieldsDoc \<noteq> '''' then WriteParagraph (MdText (summary ''Configuration options'' fieldsDoc)) b else b)))"

definition group_paragraph :: "doc_env \<Rightarrow> string \<Rightarrow> md_par" where
  "group_paragraph de path =
     MdText (case de_ReadFile de (path_Join path ''README.md'') of
               None \<Rightarrow> ''_No group documentation found._'' | Some d \<Rightarrow> trim_space d)"

fun gen_doc :: "doc_env \<Rightarrow> SegmentTree \<Rightarrow> MdBuilder \<Rightarrow> MdBuilder outcome"
  and gen_docs :: "doc_env \<Rightarrow> SegmentTree list \<Rightarrow> MdBuilder \<Rightarrow> MdBuilder outcome" where
  "gen_doc de (SegmentTree name path depth seg children) b =
     (if depth = 0 then gen_docs de children b
      else
        let t = SegmentTree name path depth seg children; b = begin_section (formatTitle (de_title de) t) b
        in map_sum id end_section
             (if seg then segment_section de t b
              else gen_docs de children (WriteParagraph (group_paragraph de path) b)))"
| "gen_docs de [] b = Inr b"
| "gen_docs de (c # cs) b = or_fail (gen_doc de c b) (gen_docs de cs)"

definition generateSegmentDoc :: "doc_env \<Rightarrow> SegmentTree \<Rightarrow> nat \<Rightarrow> MdBuilder outcome" where
  "generateSegmentDoc de tree nestingOffset = gen_doc de tree \<lparr>md_paragraphs = [], md_nesting = nestingOffset\<rparr>"

section \<open>The tree is well formed\<close>

fun tree_ok :: "SegmentTree \<Rightarrow> bool" where
  "tree_ok (SegmentTree name path depth seg children) \<longleftrightarrow>
     (depth = 0 \<longrightarrow> \<not> seg) \<and> list_all (\<lambda>c. st_Depth c = Suc depth) children \<and> list_all tree_ok children"

lemma build_entries_Depth [simp]: "st_Depth (build_entries path es t) = st_Depth t"
  by (induction path es t rule: build_entries.induct) (simp_all add: add_child_def mark_segment_def)

lemma add_child_ok: "tree_ok t \<Longrightarrow> tree_ok c \<Longrightarrow> st_Depth c = Suc (st_Depth t) \<Longrightarrow> tree_ok (add_child c t)"
  by (cases t) (auto simp: add_child_def)

lemma build_entries_ok: "tree_ok t \<Longrightarrow> tree_ok (build_entries path es t)"
proof (induction path es t rule: build_entries.induct)
  case (2 path name es rest tree)
  then show ?case using add_child_ok by (simp del: tree_ok.simps) (simp add: 2)
next
  case (3 path name rest tree)
  have "tree_ok (if st_Depth tree = 0 \<or> st_Name tree \<noteq> no_ext name then tree else mark_segment (path_Join path name) tree)"
    using 3(2) by (cases tree) (auto simp: mark_segment_def)
  then show ?case using 3(1) by simp
qed simp

section \<open>The table of contents is that of the document\<close>

definition headings :: "md_par list \<Rightarrow> (nat \<times> string) list" where
  "headings ps = List.map_filter (\<lambda>p. case p of MdHeading n h \<Rightarrow> Some (n, h) | MdText _ \<Rightarrow> None) ps"

lemma headings_simps [simp]:
  "headings [] = []" "headings (ps @ qs) = headings ps @ headings qs"
  "headings (MdHeading n h # ps) = (n, h) # headings ps" "headings (MdText t # ps) = headings ps"
  by (simp_all add: headings_def map_filter_def)


text \<open>The line of the table of contents for a heading, where the sections begin at a given nesting.\<close>

definition toc_of :: "nat \<Rightarrow> nat \<times> string \<Rightarrow> string" where
  "toc_of offset h = toc_line (fst h + 1 - offset) (snd h)"

lemma segment_section_keeps:
  "segment_section de t b = Inr b' \<Longrightarrow> md_nesting b' = md_nesting b \<and> headings (md_paragraphs b') = headings (md_paragraphs b)"
  by (auto simp: segment_section_def WriteParagraph_def Let_def split: sum.splits if_splits)

lemma gen_doc_headings:
  "gen_doc de t b = Inr b' \<Longrightarrow> tree_ok t \<Longrightarrow> md_nesting b + 1 = offset + (if st_Depth t = 0 then 1 else st_Depth t) \<Longrightarrow>
     md_nesting b' = md_nesting b \<and>
     (\<exists>hs. headings (md_paragraphs b') = headings (md_paragraphs b) @ hs \<and> generateToC (de_title de) t = concat (map (toc_of offset) hs))"
  "gen_docs de ts b = Inr b' \<Longrightarrow> list_all tree_ok ts \<Longrightarrow> list_all (\<lambda>c. st_Depth c \<noteq> 0 \<and> md_nesting b + 1 = offset + st_Depth c) ts \<Longrightarrow>
     md_nesting b' = md_nesting b \<and>
     (\<exists>hs. headings (md_paragraphs b') = headings (md_paragraphs b) @ hs
        \<and> concat (map (generateToC (de_title de)) ts) = concat (map (toc_of offset) hs))"
proof (induction de t b and de ts b arbitrary: b' and b' rule: gen_doc_gen_docs.induct)
  case (1 de name path depth seg children b)
  let ?t = "SegmentTree name path depth seg children"
  let ?b = "begin_section (formatTitle (de_title de) ?t) b"
  let ?c = "WriteParagraph (group_paragraph de path) ?b"
  have ok: "depth = 0 \<Longrightarrow> \<not> seg" "list_all (\<lambda>c. st_Depth c = Suc depth) children" "list_all tree_ok children"
    using 1(4) by auto
  show ?case
  proof (cases "depth = 0")
    case True
    have "list_all (\<lambda>c. st_Depth c \<noteq> 0 \<and> md_nesting b + 1 = offset + st_Depth c) children"
      using ok(2) 1(5) True by (auto simp: list_all_iff)
    from 1(1) [OF True _ ok(3) this] show ?thesis using True ok(1) 1(3) by auto
  next
    case False
    have h: "headings (md_paragraphs ?b) = headings (md_paragraphs b) @ [(md_nesting b, formatTitle (de_title de) ?t)]"
      "md_nesting ?b = md_nesting b + 1" by (simp_all add: begin_section_def WriteParagraph_def)
    have c: "headings (md_paragraphs ?c) = headings (md_paragraphs ?b)" "md_nesting ?c = md_nesting ?b"
      by (simp_all add: WriteParagraph_def group_paragraph_def)
    have line: "toc_of offset (md_nesting b, formatTitle (de_title de) ?t) = toc_line depth (formatTitle (de_title de) ?t)"
      using 1(5) False by (simp add: toc_of_def)
    obtain b1 where b1: "(if seg then segment_section de ?t ?b else gen_docs de children ?c) = Inr b1" "b' = end_section b1"
      using 1(3) False by (auto simp: Let_def map_sum_def split: sum.splits)
    show ?thesis
    proof (cases seg)
      case True
      then have "md_nesting b1 = md_nesting ?b \<and> headings (md_paragraphs b1) = headings (md_paragraphs ?b)"
        using b1(1) segment_section_keeps by simp
      then show ?thesis using h line b1(2) True False
        by (intro conjI exI [of _ "[(md_nesting b, formatTitle (de_title de) ?t)]"]) (simp_all add: end_section_def)
    next
      case seg: False
      have d: "list_all (\<lambda>c. st_Depth c \<noteq> 0 \<and> md_nesting ?c + 1 = offset + st_Depth c) children"
        using ok(2) 1(5) False h(2) c(2) by (auto simp: list_all_iff)
      have g: "gen_docs de children ?c = Inr b1" using b1(1) seg by simp
      obtain hs where hs: "headings (md_paragraphs b1) = headings (md_paragraphs ?c) @ hs" "md_nesting b1 = md_nesting ?c"
        "concat (map (generateToC (de_title de)) children) = concat (map (toc_of offset) hs)"
        using 1(2) [OF False refl refl seg g ok(3) d] by blast
      then show ?thesis using h c line b1(2) seg False
        by (intro conjI exI [of _ "(md_nesting b, formatTitle (de_title de) ?t) # hs"]) (simp_all add: end_section_def)
    qed
  qed
next
  case (3 de c cs b)
  obtain b1 where b1: "gen_doc de c b = Inr b1" "gen_docs de cs b1 = Inr b'" using 3(3) by (auto split: sum.splits)
  obtain hs where hs: "md_nesting b1 = md_nesting b" "headings (md_paragraphs b1) = headings (md_paragraphs b) @ hs"
    "generateToC (de_title de) c = concat (map (toc_of offset) hs)"
    using 3(1) [OF b1(1)] 3(4,5) by auto
  obtain hs' where "md_nesting b' = md_nesting b1" "headings (md_paragraphs b') = headings (md_paragraphs b1) @ hs'"
    "concat (map (generateToC (de_title de)) cs) = concat (map (toc_of offset) hs')"
    using 3(2) [OF b1(1,2)] 3(4,5) hs(1) by auto
  then show ?case using hs by (intro conjI exI [of _ "hs @ hs'"]) simp_all
qed auto

text \<open>
  The table of contents fits the document: whenever the sections are generated from a directory, the
  table has one line for every heading, in the same order, with the same title and indented by its
  level, and no other line.
\<close>

theorem toc_fits_document:
  assumes "generateSegmentDoc de (buildSegmentTree path es) offset = Inr b"
  shows "generateToC (de_title de) (buildSegmentTree path es) =
    concat (map (\<lambda>(n, h). toc_line (n + 1 - offset) h) (headings (md_paragraphs b)))"
proof -
  let ?t = "buildSegmentTree path es"
  have "tree_ok ?t" unfolding buildSegmentTree_def by (rule build_entries_ok) simp
  moreover have "st_Depth ?t = 0" by (simp add: buildSegmentTree_def)
  ultimately obtain hs where "headings (md_paragraphs b) = hs" "generateToC (de_title de) ?t = concat (map (toc_of offset) hs)"
    using gen_doc_headings(1) [OF assms [unfolded generateSegmentDoc_def], of offset] by auto
  then show ?thesis by (simp add: toc_of_def [abs_def] case_prod_unfold)
qed

text \<open>
  A directory is taken for a segment only if one of its files has its name: a segment in a file of
  another name, as in \<open>output/mongodb/mongo.go\<close>, is listed as a group without documentation.
\<close>

theorem other_file_is_group:
  assumes "\<forall>e\<in>set es. \<exists>f. e = FileEntry f \<and> no_ext f \<noteq> st_Name t"
  shows "build_entries path es t = t"
  using assms by (induction es) auto

section \<open>Examples\<close>

definition demo_docs :: doc_env where
  "demo_docs = \<lparr>de_title = (\<lambda>s. s), de_link = (\<lambda>p d. Inr (linkTo d p)), de_Base = (\<lambda>p. p), de_package_doc = (\<lambda>_. None),
     de_fields_doc = (\<lambda>_. Inr []), de_ReadFile = (\<lambda>_. None)\<rparr>"

text \<open>A directory \<open>output\<close> with a segment \<open>csv\<close>.\<close>

lemma demo_tree:
  "buildSegmentTree ''s'' [DirEntry ''output'' [DirEntry ''csv'' [FileEntry ''csv.go'']]] =
     SegmentTree ''Root'' ''/'' 0 False [SegmentTree ''output'' ''s/output'' 1 False
       [SegmentTree ''csv'' ''s/output/csv/csv.go'' 2 True []]]"
  by (simp add: buildSegmentTree_def add_child_def mark_segment_def path_Join_def no_ext_def)

theorem toc_fits_document_witness:
  "\<exists>b. generateSegmentDoc demo_docs (buildSegmentTree ''s'' [DirEntry ''output'' [DirEntry ''csv'' [FileEntry ''csv.go'']]]) 2 = Inr b
     \<and> headings (md_paragraphs b) = [(2, ''output Group''), (3, ''csv'')]
     \<and> generateToC (\<lambda>s. s) (buildSegmentTree ''s'' [DirEntry ''output'' [DirEntry ''csv'' [FileEntry ''csv.go'']]])
         = toc_line 1 ''output Group'' @ toc_line 2 ''csv''"
proof -
  obtain b where b: "generateSegmentDoc demo_docs (buildSegmentTree ''s'' [DirEntry ''output'' [DirEntry ''csv'' [FileEntry ''csv.go'']]]) 2 = Inr b"
    "headings (md_paragraphs b) = [(2, ''output Group''), (3, ''csv'')]"
    unfolding demo_tree by (simp add: generateSegmentDoc_def demo_docs_def segment_section_def begin_section_def end_section_def
        WriteParagraph_def group_paragraph_def formatTitle_def Let_def)
  have "de_title demo_docs = (\<lambda>s. s)" by (simp add: demo_docs_def)
  then show ?thesis using b toc_fits_document [OF b(1)] by (intro exI [of _ b]) simp
qed

theorem other_file_is_group_witness:
  "build_entries ''output/mongodb'' [FileEntry ''dummy.go'', FileEntry ''mongo.go''] (SegmentTree ''mongodb'' ''output/mongodb'' 2 False [])
     = SegmentTree ''mongodb'' ''output/mongodb'' 2 False []"
  by (rule other_file_is_group) (simp add: no_ext_def)

end
