(* ===== verification/MetricsServer.thy ===== *)
theory MetricsServer
  imports PrintTalkers Metrics TrafficTalkers
begin

text \<open>
  The endpoints on which \<open>prometheus\<close>, \<open>toptalkers_metrics\<close>, \<open>traffic_specific_toptalkers\<close> and
  \<open>delay_monitoring\<close> publish their metrics: the routes of the HTTP server (\<open>ServeEndpoints\<close>), the samples the
  collectors give (\<open>Describe\<close>, \<open>Collect\<close>), the vacuum job of \<open>prometheus\<close>, the timers, and how the start of a
  segment depends on its paths. Of \<open>http.ServeMux\<close> the registration of a pattern and the choice of
  the handler are modelled; methods, hosts and wildcards in a pattern are not interpreted, so the
  theorems on a successful start speak of plain paths. Whether the port can be bound is left open: an
  error of \<open>ListenAndServe\<close> is only logged.
\<close>

section \<open>Routes\<close>

text \<open>The handlers: the two registries, or the page with the links to them.\<close>

datatype route = MetaRegistry | FlowRegistry | IndexPage string

type_synonym ServeMux = "(string \<times> route) list"

text \<open>\<open>Handle\<close> and \<open>HandleFunc\<close>: a pattern without a path and one that is taken panic.\<close>

definition mux_Handle :: "string \<Rightarrow> route \<Rightarrow> ServeMux \<Rightarrow> ServeMux outcome" where
  "mux_Handle pattern h mux =
     (if CHR ''/'' \<notin> set pattern then Inl (Panic ''host/path missing /'')
      else if pattern \<in> fst ` set mux then Inl (Panic ''conflicts with a registered pattern'')
      else Inr (mux @ [(pattern, h)]))"

text \<open>
  The handler of a request: a pattern matches the path it is, and one with a final slash every path
  below it; the longest pattern that matches is taken.
\<close>

definition mux_matches :: "string \<Rightarrow> string \<Rightarrow> bool" where
  "mux_matches pattern path \<longleftrightarrow> pattern = path \<or> (pattern \<noteq> [] \<and> last pattern = CHR ''/'' \<and> prefix pattern path)"

fun mux_route :: "ServeMux \<Rightarrow> string \<Rightarrow> (string \<times> route) option" where
  "mux_route [] path = None"
| "mux_route ((p, h) # rs) path =
     (let best = mux_route rs path
      in if mux_matches p path \<and> (case best of None \<Rightarrow> True | Some (q, _) \<Rightarrow> length p > length q) then Some (p, h) else best)"

text \<open>The page at the root, with its line breaks and tabs.\<close>

definition page_line :: "nat \<Rightarrow> string \<Rightarrow> string" where
  "page_line tabs l = CHR 0x0A # replicate tabs (CHR 0x09) @ l"

definition index_page :: "string \<Rightarrow> (string \<times> string) list \<Rightarrow> string" where
  "index_page title links =
     ''<html>'' @ page_line 3 (''<head><title>'' @ title @ ''</title></head>'') @ page_line 3 ''<body>'' @
     page_line 3 (''<h1>'' @ title @ ''</h1>'') @
     concat (map (\<lambda>(path, name). page_line 3 (''<p><a href='' @ [CHR 0x22] @ path @ [CHR 0x22] @ ''>'' @ name @ ''</p>'')) links) @
     page_line 3 ''</body>'' @ page_line 2 ''</html>''"

text \<open>\<open>ServeEndpoints\<close> of \<open>prometheus\<close>, and of \<open>toptalkers_metrics\<close>, whose code is the same.\<close>

definition ServeEndpoints :: "string \<Rightarrow> string \<Rightarrow> ServeMux outcome" where
  "ServeEndpoints metricsPath flowdataPath =
     or_fail (mux_Handle metricsPath MetaRegistry []) (\<lambda>mux.
     or_fail (mux_Handle flowdataPath FlowRegistry mux) (\<lambda>mux.
       mux_Handle ''/'' (IndexPage (index_page ''Flow Exporter'' [(metricsPath, ''Metrics''), (flowdataPath, ''Flow Data'')])) mux))"

definition talker_ServeEndpoints :: "PrometheusParams \<Rightarrow> ServeMux outcome" where
  "talker_ServeEndpoints p = ServeEndpoints (PrometheusParams.MetricsPath p) (PrometheusParams.FlowdataPath p)"

text \<open>\<open>ServeEndpoints\<close> of \<open>delay_monitoring\<close>: the paths are fixed.\<close>

definition delay_ServeEndpoints :: "ServeMux outcome" where
  "delay_ServeEndpoints =
     or_fail (mux_Handle ''/metrics'' MetaRegistry []) (\<lambda>mux.
     or_fail (mux_Handle ''/delay'' FlowRegistry mux) (\<lambda>mux.
       mux_Handle ''/'' (IndexPage (index_page ''Delay Indicator'' [(''/metrics'', ''Metrics''), (''/delay'', ''Delay Measurements'')])) mux))"

text \<open>A plain path: it starts with a slash, ends without one and has nothing a pattern interprets.\<close>

definition plain_path :: "string \<Rightarrow> bool" where
  "plain_path p \<longleftrightarrow> p \<noteq> [] \<and> hd p = CHR ''/'' \<and> last p \<noteq> CHR ''/''
     \<and> list_all (\<lambda>c. c \<noteq> CHR ''{'' \<and> c \<noteq> CHR ''}'' \<and> c \<noteq> CHR '' '' \<and> c \<noteq> CHR 0x09) p"

lemma plain_slash: "plain_path p \<Longrightarrow> CHR ''/'' \<in> set p"
  by (cases p) (auto simp: plain_path_def)

lemma plain_no_root: "plain_path p \<Longrightarrow> p \<noteq> ''/''"
  by (auto simp: plain_path_def)

lemma ServeEndpoints_plain:
  assumes "plain_path m" "plain_path f" "m \<noteq> f"
  shows "ServeEndpoints m f = Inr [(m, MetaRegistry), (f, FlowRegistry),
    (''/'', IndexPage (index_page ''Flow Exporter'' [(m, ''Metrics''), (f, ''Flow Data'')]))]"
  using assms plain_slash plain_no_root by (auto simp: ServeEndpoints_def mux_Handle_def)

lemma ServeEndpoints_fails:
  "m = f \<or> m = ''/'' \<or> f = ''/'' \<or> CHR ''/'' \<notin> set m \<or> CHR ''/'' \<notin> set f \<Longrightarrow> \<exists>p. ServeEndpoints m f = Inl (Panic p)"
  by (auto simp: ServeEndpoints_def mux_Handle_def)

lemma plain_matches: "plain_path p \<Longrightarrow> mux_matches p path \<longleftrightarrow> p = path"
  by (auto simp: mux_matches_def plain_path_def)

lemma root_matches: "mux_matches ''/'' path \<longleftrightarrow> path \<noteq> [] \<and> hd path = CHR ''/''"
  by (cases path) (auto simp: mux_matches_def)

text \<open>
  What a request gets when the two paths are plain and different: the registry of the metrics at
  the one, that of the flow data at the other, and at every other path the page that links to both.
\<close>

theorem endpoints_served:
  assumes "plain_path m" "plain_path f" "m \<noteq> f" "path \<noteq> []" "hd path = CHR ''/''"
  shows "\<exists>mux. ServeEndpoints m f = Inr mux \<and> map_option snd (mux_route mux path) =
    Some (if path = m then MetaRegistry else if path = f then FlowRegistry
          else IndexPage (index_page ''Flow Exporter'' [(m, ''Metrics''), (f, ''Flow Data'')]))"
proof -
  have "mux_matches ''/'' path" using assms(4,5) by (simp add: root_matches)
  moreover have "length (''/'' :: string) < length p" if "plain_path p" for p
    using that by (cases p; cases "tl p") (auto simp: plain_path_def)
  ultimately show ?thesis
    using ServeEndpoints_plain [OF assms(1-3)] plain_matches [OF assms(1)] plain_matches [OF assms(2)] assms(1-3)
    by (auto simp: Let_def)
qed

theorem endpoints_served_witness:
  "\<exists>mux. ServeEndpoints ''/metrics'' ''/flowdata'' = Inr mux \<and> map_option snd (mux_route mux ''/flowdata'') = Some FlowRegistry"
  using endpoints_served [of "''/metrics''" "''/flowdata''" "''/flowdata''"] by (simp add: plain_path_def)

section \<open>prometheus: start and vacuum\<close>

text \<open>
  What happens to the exporter of \<open>prometheus\<close> after the start: flows, and the job of
  \<open>AddVacuumCronJob\<close>, which the scheduler runs at the configured interval, at any time between them.
\<close>

datatype prom_event = PFlow EnrichedFlow | Vacuum

fun prom_run :: "Prometheus \<Rightarrow> prom_event list \<Rightarrow> Exporter \<Rightarrow> (EnrichedFlow list \<times> Exporter) outcome" where
  "prom_run seg [] e = Inr ([], e)"
| "prom_run seg (Vacuum # evs) e = prom_run seg evs (ResetCounter e)"
| "prom_run seg (PFlow m # evs) e =
     or_fail (Prometheus_step (seg, e) m) (\<lambda>(es, (_, e')).
       map_sum id (\<lambda>(ms, e''). (outs es @ ms, e'')) (prom_run seg evs e'))"

definition initializeExporter :: "Prometheus \<Rightarrow> (ServeMux \<times> Exporter) outcome" where
  "initializeExporter seg =
     or_fail (Initialize (Labels seg)) (\<lambda>e.
     map_sum id (\<lambda>mux. (mux, e)) (ServeEndpoints (Prometheus.MetricsPath seg) (Prometheus.FlowdataPath seg)))"

definition Prometheus_Run :: "Prometheus \<Rightarrow> prom_event list \<Rightarrow> (EnrichedFlow list \<times> Exporter) outcome" where
  "Prometheus_Run seg evs = or_fail (initializeExporter seg) (\<lambda>(_, e). prom_run seg evs e)"






definition demo_prometheus :: Prometheus where
  "demo_prometheus = \<lparr>Prometheus.Endpoint = '':8080'', Prometheus.MetricsPath = ''/metrics'', Prometheus.FlowdataPath = ''/flowdata'', Labels = [''Note''],
     VacuumInterval = Some 1, ExportASPathPairs = False, ExportASPaths' = False\<rparr>"


text \<open>
  The vacuum, which is to reset the counters, leaves those of the AS paths and their pairs
  as they are: they are the same as if it had never run.
\<close>

lemma Prometheus_step_as:
  assumes "flowAsPairsBytes e = flowAsPairsBytes d" "flowAsPathBytes e = flowAsPathBytes d"
    and "Prometheus_step (seg, e) m = Inr (es, (seg', e'))"
  shows "\<exists>d'. Prometheus_step (seg, d) m = Inr (es, (seg', d'))
    \<and> flowAsPairsBytes e' = flowAsPairsBytes d' \<and> flowAsPathBytes e' = flowAsPathBytes d'"
  using assms by (auto simp: Prometheus_step_def Let_def ExportASPathPairsWithDirection_def ExportASPaths_def Increment_def
    split: sum.splits if_splits)

theorem vacuum_keeps_as_counters:
  assumes "prom_run seg evs e = Inr (ms, e')" "flowAsPairsBytes e = flowAsPairsBytes d" "flowAsPathBytes e = flowAsPathBytes d"
  shows "\<exists>d'. prom_run seg (filter (\<lambda>ev. ev \<noteq> Vacuum) evs) d = Inr (ms, d')
    \<and> flowAsPairsBytes e' = flowAsPairsBytes d' \<and> flowAsPathBytes e' = flowAsPathBytes d'"
  using assms
proof (induction seg evs e arbitrary: ms d rule: prom_run.induct)
  case (2 seg evs e)
  then show ?case by (simp add: ResetCounter_def)
next
  case (3 seg m evs e)
  from 3(2) obtain es seg1 e1 ms1 where e1: "Prometheus_step (seg, e) m = Inr (es, (seg1, e1))"
    "prom_run seg evs e1 = Inr (ms1, e')" "ms = outs es @ ms1"
    by (cases "Prometheus_step (seg, e) m"; cases "prom_run seg evs (snd (snd (projr (Prometheus_step (seg, e) m))))") auto
  from Prometheus_step_as [OF 3(3,4) e1(1)] obtain d1 where d1: "Prometheus_step (seg, d) m = Inr (es, (seg1, d1))"
    "flowAsPairsBytes e1 = flowAsPairsBytes d1" "flowAsPathBytes e1 = flowAsPathBytes d1" by blast
  from 3(1) [OF e1(1) refl refl e1(2) d1(2,3)] show ?case using d1(1) e1(3) by auto
qed simp

theorem vacuum_keeps_as_counters_witness:
  "\<exists>d'. prom_run demo_prometheus [] new_exporter = Inr ([], d')
     \<and> flowAsPairsBytes (ResetCounter new_exporter) = flowAsPairsBytes d'"
  using vacuum_keeps_as_counters [of demo_prometheus "[Vacuum]" new_exporter "[]" "ResetCounter new_exporter" new_exporter]
  by simp

text \<open>
  Two equal paths, the path of the index page, or a path without a slash: the configuration
  is accepted, and the segment panics before it handles a flow.
\<close>

theorem prometheus_paths_panic:
  assumes "Prometheus_New ParseDuration config = Some seg"
    and "cfg config ''metricspath'' \<noteq> []" "cfg config ''flowdatapath'' \<noteq> []"
    and "cfg config ''metricspath'' = cfg config ''flowdatapath'' \<or> ''/'' \<in> {cfg config ''metricspath'', cfg config ''flowdatapath''}
      \<or> CHR ''/'' \<notin> set (cfg config ''metricspath'') \<inter> set (cfg config ''flowdatapath'')"
  shows "\<exists>p. Prometheus_Run seg evs = Inl (Panic p)"
proof -
  have "Prometheus.MetricsPath seg = cfg config ''metricspath''" "Prometheus.FlowdataPath seg = cfg config ''flowdatapath''"
    using assms(1-3) by (auto simp: Prometheus_New_def prom_default_def split: option.splits)
  then obtain p where "ServeEndpoints (Prometheus.MetricsPath seg) (Prometheus.FlowdataPath seg) = Inl (Panic p)"
    using ServeEndpoints_fails [of "cfg config ''metricspath''" "cfg config ''flowdatapath''"] assms(4) by auto
  then show ?thesis by (simp add: Prometheus_Run_def initializeExporter_def Initialize_def)
qed

theorem prometheus_paths_panic_witness:
  "\<exists>seg p. Prometheus_New (\<lambda>_. None) [''metricspath'' \<mapsto> ''metrics'', ''flowdatapath'' \<mapsto> ''/flowdata''] = Some seg
     \<and> Prometheus_Run seg [] = Inl (Panic p)"
proof -
  let ?c = "[''metricspath'' \<mapsto> ''metrics'', ''flowdatapath'' \<mapsto> ''/flowdata'']"
  have "prom_labels [] = Some [''Etype'', ''Proto'']"
  proof -
    have "map trim_space (split_on (CHR '','') (prom_default [] ''Etype,Proto'')) = [''Etype'', ''Proto'']" by code_simp
    moreover have "field_exists ''Etype''" "field_exists ''Proto''" by (rule known_fields)+
    ultimately show ?thesis by (simp add: prom_labels_def)
  qed
  then obtain seg where seg: "Prometheus_New (\<lambda>_. None) ?c = Some seg" by (simp add: Prometheus_New_def cfg_def)
  have "\<exists>p. Prometheus_Run seg [] = Inl (Panic p)"
    by (rule prometheus_paths_panic [OF seg]) (simp_all add: cfg_def)
  then show ?thesis using seg by blast
qed

text \<open>A label that is given twice is accepted by the configuration, and the segment panics before it handles a flow.\<close>

theorem prometheus_repeated_label_panics:
  assumes "Prometheus_New ParseDuration config = Some seg" "\<not> distinct (map trim_space (split_on (CHR '','') (cfg config ''labels'')))"
  shows "\<exists>p. Prometheus_Run seg evs = Inl (Panic p)"
proof -
  have "cfg config ''labels'' \<noteq> []" using assms(2) by auto
  then have "Labels seg = map trim_space (split_on (CHR '','') (cfg config ''labels''))"
    using assms(1) by (auto simp: Prometheus_New_def prom_labels_def prom_default_def Let_def split: option.splits if_splits)
  then show ?thesis using assms(2) by (simp add: Prometheus_Run_def initializeExporter_def Initialize_def)
qed

theorem prometheus_repeated_label_panics_witness:
  "\<exists>seg p. Prometheus_New (\<lambda>_. None) [''labels'' \<mapsto> ''Proto,Proto''] = Some seg \<and> Prometheus_Run seg [] = Inl (Panic p)"
proof -
  let ?c = "[''labels'' \<mapsto> ''Proto,Proto'']"
  have split: "map trim_space (split_on (CHR '','') ''Proto,Proto'') = [''Proto'', ''Proto'']" by code_simp
  have "prom_labels ''Proto,Proto'' = Some [''Proto'', ''Proto'']"
    using split by (simp add: prom_labels_def prom_default_def known_fields)
  then obtain seg where seg: "Prometheus_New (\<lambda>_. None) ?c = Some seg" by (simp add: Prometheus_New_def cfg_def)
  have "\<exists>p. Prometheus_Run seg [] = Inl (Panic p)"
    by (rule prometheus_repeated_label_panics [OF seg]) (simp add: cfg_def split)
  then show ?thesis using seg by blast
qed

section \<open>delay_monitoring: what is published\<close>

text \<open>A description: the name of a metric and those of its labels; a sample: name, labels and value.\<close>

datatype Desc = Desc (desc_name: string) (desc_labels: "string list")

datatype sample = Sample (sample_name: string) (sample_labels: "string list") (sample_value: rat)

definition delay_Describe :: "Desc list" where
  "delay_Describe = [Desc ''total_delay'' [], Desc ''processing_delay'' []]"

definition delay_Collect :: "DelayMonitoring \<Rightarrow> sample list" where
  "delay_Collect s =
     [Sample ''total_delay'' [] (movingAverageTotalDelay s), Sample ''processing_delay'' [] (movingAverageProcessingDelay s)]"

text \<open>The registry of the metrics: the counter of the samples and a gauge that nothing ever sets.\<close>

definition delay_meta :: "DelayMonitoring \<Rightarrow> sample list" where
  "delay_meta s = [Sample ''kafka_messages_total'' [] (of_nat (dm_samples s)), Sample ''delay_db_size'' [] 0]"

text \<open>
  What a registry of the client library asks of a collector: each sample fits one of the
  descriptions, and no two samples have the same name and labels.
\<close>

definition fits_desc :: "Desc list \<Rightarrow> sample \<Rightarrow> bool" where
  "fits_desc ds x \<longleftrightarrow> list_ex (\<lambda>d. desc_name d = sample_name x \<and> length (desc_labels d) = length (sample_labels x)) ds"

definition sample_key :: "sample \<Rightarrow> string \<times> string list" where
  "sample_key x = (sample_name x, sample_labels x)"

locale collector =
  fixes describe :: "Desc list" and collect :: "'s \<Rightarrow> sample list" and ok :: "'s \<Rightarrow> bool"
  assumes collected_fit: "ok s \<Longrightarrow> x \<in> set (collect s) \<Longrightarrow> fits_desc describe x"
    and collected_unique: "ok s \<Longrightarrow> distinct (map sample_key (collect s))"
begin

text \<open>A registry can look a sample up by its name and labels.\<close>

lemma lookup_sample:
  assumes "ok s" "x \<in> set (collect s)"
  shows "map_of (map (\<lambda>x. (sample_key x, sample_value x)) (collect s)) (sample_key x) = Some (sample_value x)"
  using assms collected_unique [OF assms(1)]
  by (intro map_of_is_SomeI) (auto simp: comp_def)

lemma describes_all: "ok s \<Longrightarrow> sample_name ` set (collect s) \<subseteq> desc_name ` set describe"
  using collected_fit by (force simp: fits_desc_def list_ex_iff)

end

interpretation delay: collector delay_Describe delay_Collect "\<lambda>_. True"
  by unfold_locales (auto simp: delay_Describe_def delay_Collect_def fits_desc_def sample_key_def)

text \<open>
  The two averages are published under their own names: a request for the delay finds the total
  delay that the last sampled flow left, whatever came before it.
\<close>

theorem delay_published:
  assumes "msgCounter s \<ge> dm_SamplingRate s"
  shows "map_of (map (\<lambda>x. (sample_key x, sample_value x)) (delay_Collect (updateWindow now m s))) (''processing_delay'', []) =
      Some (moving_average (Alpha s) (u64_to_f64 (delay_since now (TimeReceived m))) (movingAverageProcessingDelay s))
    \<and> (\<exists>mux. delay_ServeEndpoints = Inr mux \<and> mux_route mux ''/delay'' = Some (''/delay'', FlowRegistry))"
proof
  have "Sample ''processing_delay'' [] (movingAverageProcessingDelay (updateWindow now m s)) \<in> set (delay_Collect (updateWindow now m s))"
    by (simp add: delay_Collect_def)
  from delay.lookup_sample [OF TrueI this] assms
  show "map_of (map (\<lambda>x. (sample_key x, sample_value x)) (delay_Collect (updateWindow now m s))) (''processing_delay'', []) =
      Some (moving_average (Alpha s) (u64_to_f64 (delay_since now (TimeReceived m))) (movingAverageProcessingDelay s))"
    by (simp add: sample_key_def updateWindow_def Let_def)
  show "\<exists>mux. delay_ServeEndpoints = Inr mux \<and> mux_route mux ''/delay'' = Some (''/delay'', FlowRegistry)"
    by (simp add: delay_ServeEndpoints_def mux_Handle_def Let_def mux_matches_def)
qed

theorem delay_published_witness:
  "map_of (map (\<lambda>x. (sample_key x, sample_value x))
      (delay_Collect (updateWindow 10 (zero_flow\<lparr>TimeReceived := 8\<rparr>) (demo_delay\<lparr>msgCounter := 2\<rparr>)))) (''processing_delay'', []) =
    Some (moving_average (1 / 2) (u64_to_f64 2) 0)"
  using delay_published [of "demo_delay\<lparr>msgCounter := 2\<rparr>" 10 "zero_flow\<lparr>TimeReceived := 8\<rparr>"]
  by (simp add: demo_delay_def delay_since_def)

section \<open>toptalkers_metrics: the collector\<close>

record PrometheusCollector =
  Databases :: "Database list"
  trafficBpsDesc :: Desc
  trafficPpsDesc :: Desc

definition NewPrometheusCollector :: "Database list \<Rightarrow> PrometheusCollector" where
  "NewPrometheusCollector databases =
     \<lparr>Databases = databases,
      trafficBpsDesc = Desc ''traffic_bps'' [''traffic_type'', ''address'', ''forwarding_status''],
      trafficPpsDesc = Desc ''traffic_pps'' [''traffic_type'', ''address'', ''forwarding_status'']\<rparr>"

definition Describe :: "PrometheusCollector \<Rightarrow> Desc list" where
  "Describe c = [trafficBpsDesc c, trafficPpsDesc c]"

text \<open>
  \<open>GetAllRecords\<close> sends the records while it holds the lock of the database, in the order in which
  Go iterates over the map; \<open>order\<close> gives the keys in that order.
\<close>

definition GetAllRecords :: "(Database \<Rightarrow> string list) \<Rightarrow> Database \<Rightarrow> (string \<times> Record) list" where
  "GetAllRecords order db = List.map_filter (\<lambda>k. map_option (Pair k) (database db k)) (order db)"

definition enumerates :: "(Database \<Rightarrow> string list) \<Rightarrow> bool" where
  "enumerates order \<longleftrightarrow> (\<forall>db. finite (dom (database db)) \<longrightarrow> distinct (order db) \<and> set (order db) = dom (database db))"

definition Collect_db :: "(Database \<Rightarrow> string list) \<Rightarrow> Database \<Rightarrow> sample list" where
  "Collect_db order db = concat (map (\<lambda>(_, r).
     map (\<lambda>(name, value, address, status). Sample name [TrafficType (params db), address, status] value) (Collect_record db r))
     (GetAllRecords order db))"

definition Collect :: "(Database \<Rightarrow> string list) \<Rightarrow> PrometheusCollector \<Rightarrow> sample list" where
  "Collect order c = concat (map (Collect_db order) (Databases c))"

text \<open>The databases of both segments: finitely many records, each under the key of its own address.\<close>

definition keyed :: "string \<Rightarrow> Database \<Rightarrow> bool" where
  "keyed label db \<longleftrightarrow> finite (dom (database db))
     \<and> (\<forall>k r. database db k = Some r \<longrightarrow> k = record_key label (Rec_Address r))"

lemma Rec_Address_ops [simp]:
  "Rec_Address (Append b p f r) = Rec_Address r" "Rec_Address (tick ovf tb d bt pt r) = Rec_Address r"
  "Rec_Address (NewRecord n a) = a"
  by (simp_all add: Append_def tick_def Let_def NewRecord_def)

lemma record_key_inj: "record_key l a = record_key l b \<longleftrightarrow> a = b"
  by (simp add: record_key_def)

lemma keyed_New: "keyed label (NewDatabase p)"
  by (simp add: keyed_def NewDatabase_def)

lemma keyed_count_key: "keyed label db \<Longrightarrow> keyed label (count_key label m key db)"
  by (auto simp: keyed_def count_key_def GetTypedRecord_def Let_def split: option.splits if_splits)

lemma keyed_Clock: "keyed label db \<Longrightarrow> keyed label (Clock_tick ovf db)"
proof -
  have "dom (database (Clock_tick ovf db)) = dom (database db)" by (auto simp: Clock_tick_def)
  then show "keyed label db \<Longrightarrow> keyed label (Clock_tick ovf db)" by (auto simp: keyed_def Clock_tick_def)
qed

lemma keyed_Cleanup: "keyed label db \<Longrightarrow> keyed label (Cleanup_tick db)"
proof -
  have "dom (database (Cleanup_tick db)) \<subseteq> dom (database db)"
    by (auto simp: Cleanup_tick_def Let_def split: if_splits option.splits)
  then show "keyed label db \<Longrightarrow> keyed label (Cleanup_tick db)"
    by (auto simp: keyed_def Cleanup_tick_def Let_def finite_subset split: if_splits option.splits)
qed

lemma account_count: "snd (account m ks db f) = fold (count_key [] m) ks db"
proof (induction ks arbitrary: db f)
  case (Cons k ks)
  obtain r db' where "GetTypedRecord [] k db = (r, db')" by fastforce
  then show ?case using Cons by (simp add: count_key_def GetRecord_def Let_def)
qed simp

lemma keyed_fold: "keyed label db \<Longrightarrow> keyed label (fold (count_key label m) ks db)"
  by (induction ks arbitrary: db) (simp_all add: keyed_count_key)

lemma keyed_tt_step: "tt_step ovf s s' \<Longrightarrow> keyed [] (tt_db s) \<Longrightarrow> keyed [] (tt_db s')"
proof (induction rule: tt_step.induct)
  case (flow s m es s')
  then have "tt_db s' = snd (account m (flow_keys (RelevantAddress (params (tt_db s))) m) (tt_db s) False)"
    by (auto simp: ToptalkersMetrics_step_def Let_def split: prod.splits)
  then show ?case using flow.prems by (simp add: account_count keyed_fold)
qed (simp_all add: keyed_Clock keyed_Cleanup)

lemma map_filter_keys:
  assumes "set ks \<subseteq> dom m"
  shows "map fst (List.map_filter (\<lambda>k. map_option (Pair k) (m k)) ks) = ks"
    "set (List.map_filter (\<lambda>k. map_option (Pair k) (m k)) ks) = {(k, r). k \<in> set ks \<and> m k = Some r}"
  using assms by (induction ks) (auto simp: map_filter_simps)

lemma GetAllRecords_keyed:
  assumes "enumerates order" "keyed label db"
  shows "set (GetAllRecords order db) = {(k, r). database db k = Some r}" "distinct (map (Rec_Address \<circ> snd) (GetAllRecords order db))"
proof -
  have ord: "distinct (order db)" "set (order db) = dom (database db)" using assms by (auto simp: enumerates_def keyed_def)
  show set: "set (GetAllRecords order db) = {(k, r). database db k = Some r}"
    using ord(2) map_filter_keys(2) [of "order db" "database db"] by (auto simp: GetAllRecords_def)
  have "map fst (GetAllRecords order db) = order db"
    using ord(2) map_filter_keys(1) [of "order db" "database db"] by (simp add: GetAllRecords_def)
  then have d: "distinct (map fst (GetAllRecords order db))" using ord(1) by simp
  have "map fst (GetAllRecords order db) = map (record_key label) (map (Rec_Address \<circ> snd) (GetAllRecords order db))"
    using assms(2) set by (auto simp: keyed_def)
  then show "distinct (map (Rec_Address \<circ> snd) (GetAllRecords order db))"
    using d by (metis distinct_map)
qed

lemma distinct_concat_tagged:
  assumes "\<And>x. x \<in> set xs \<Longrightarrow> distinct (map k (f x))" "\<And>x y. x \<in> set xs \<Longrightarrow> y \<in> set (f x) \<Longrightarrow> g (k y) = h x"
    and "distinct (map h xs)"
  shows "distinct (map k (concat (map f xs)))"
  using assms
proof (induction xs)
  case (Cons x xs)
  have "k y \<noteq> k y'" if "y \<in> set (f x)" "x' \<in> set xs" "y' \<in> set (f x')" for y x' y'
  proof -
    have "h x \<noteq> h x'" using Cons.prems(3) that(2) by auto
    moreover have "g (k y) = h x" "g (k y') = h x'" using Cons.prems(2) that by simp_all
    ultimately show ?thesis by metis
  qed
  then show ?case using Cons by (auto simp: disjoint_iff)
qed simp

lemma Collect_record_keys:
  fixes db :: Database and r :: Record
  defines "ss \<equiv> map (\<lambda>(name, value, address, status). Sample name [TrafficType (params db), address, status] value) (Collect_record db r)"
  shows "distinct (map sample_key ss)" "x \<in> set ss \<Longrightarrow> hd (tl (snd (sample_key x))) = Rec_Address r"
    "x \<in> set ss \<Longrightarrow> hd (snd (sample_key x)) = TrafficType (params db)"
    "x \<in> set ss \<Longrightarrow> fits_desc (Describe (NewPrometheusCollector ds)) x"
    "sample_key ` set ss = (if aboveThreshold r
       then {''traffic_bps'', ''traffic_pps''} \<times> (\<lambda>st. [TrafficType (params db), Rec_Address r, st]) ` {''forwarded'', ''dropped''} else {})"
proof -
  have ss: "ss = (if aboveThreshold r then (case GetMetrics (nat (ReportBuckets (params db))) (BucketDuration (params db)) r of
      (fb, fp, dbps, dp, a) \<Rightarrow> let l = (\<lambda>st. [TrafficType (params db), Rec_Address r, st]) in
        [Sample ''traffic_bps'' (l ''forwarded'') fb, Sample ''traffic_bps'' (l ''dropped'') dbps,
         Sample ''traffic_pps'' (l ''forwarded'') fp, Sample ''traffic_pps'' (l ''dropped'') dp]) else [])"
    by (simp add: ss_def Collect_record_def GetMetrics_def Let_def)
  show "distinct (map sample_key ss)" by (simp add: ss sample_key_def Let_def split: prod.split)
  have all: "\<forall>x\<in>set ss. fits_desc (Describe (NewPrometheusCollector ds)) x \<and> hd (tl (sample_labels x)) = Rec_Address r
      \<and> hd (sample_labels x) = TrafficType (params db)"
  proof (cases "aboveThreshold r")
    case True
    obtain fb fp dbps dp a where "GetMetrics (nat (ReportBuckets (params db))) (BucketDuration (params db)) r = (fb, fp, dbps, dp, a)"
      by (metis prod_cases5)
    then show ?thesis using True by (simp add: ss fits_desc_def Describe_def NewPrometheusCollector_def)
  qed (simp add: ss)
  show "hd (tl (snd (sample_key x))) = Rec_Address r" "hd (snd (sample_key x)) = TrafficType (params db)"
    "fits_desc (Describe (NewPrometheusCollector ds)) x" if "x \<in> set ss"
    using all that by (simp_all add: sample_key_def)
  show "sample_key ` set ss = (if aboveThreshold r
       then {''traffic_bps'', ''traffic_pps''} \<times> (\<lambda>st. [TrafficType (params db), Rec_Address r, st]) ` {''forwarded'', ''dropped''} else {})"
  proof (cases "aboveThreshold r")
    case True
    then show ?thesis unfolding ss by (cases "GetMetrics (nat (ReportBuckets (params db))) (BucketDuration (params db)) r")
      (simp add: sample_key_def Let_def insert_commute)
  qed (simp add: ss)
qed

definition exportable :: "Database list \<Rightarrow> bool" where
  "exportable ds \<longleftrightarrow> distinct (map (TrafficType \<circ> params) ds) \<and> (\<forall>db\<in>set ds. \<exists>label. keyed label db)"

lemma Collect_db_unique:
  assumes "enumerates order" "keyed label db"
  shows "distinct (map sample_key (Collect_db order db))"
  unfolding Collect_db_def
  by (rule distinct_concat_tagged [where g = "\<lambda>(n, ls). hd (tl ls)" and h = "Rec_Address \<circ> snd"])
    (use Collect_record_keys GetAllRecords_keyed [OF assms] in \<open>auto simp: split_beta\<close>)

interpretation talkers: collector "Describe (NewPrometheusCollector [])" "\<lambda>(order, ds). Collect order (NewPrometheusCollector ds)"
  "\<lambda>(order, ds). enumerates order \<and> exportable ds"
proof
  fix s :: "(Database \<Rightarrow> string list) \<times> Database list" and x
  assume ok: "case s of (order, ds) \<Rightarrow> enumerates order \<and> exportable ds"
  obtain order ds where s: "s = (order, ds)" by fastforce
  show "fits_desc (Describe (NewPrometheusCollector [])) x" if "x \<in> set (case s of (order, ds) \<Rightarrow> Collect order (NewPrometheusCollector ds))"
    using that Collect_record_keys(4) by (fastforce simp: s Collect_def Collect_db_def NewPrometheusCollector_def)
  have "distinct (map sample_key (concat (map (Collect_db order) ds)))"
  proof (rule distinct_concat_tagged [where g = "\<lambda>(n, ls). hd ls" and h = "TrafficType \<circ> params"])
    show "distinct (map sample_key (Collect_db order db))" if "db \<in> set ds" for db
      using that ok Collect_db_unique by (auto simp: s exportable_def)
    show "(case sample_key y of (n, ls) \<Rightarrow> hd ls) = (TrafficType \<circ> params) db" if "y \<in> set (Collect_db order db)" for db y
      using that Collect_record_keys(3) by (fastforce simp: Collect_db_def split_beta)
    show "distinct (map (TrafficType \<circ> params) ds)" using ok by (simp add: s exportable_def)
  qed
  then show "distinct (map sample_key (case s of (order, ds) \<Rightarrow> Collect order (NewPrometheusCollector ds)))"
    by (simp add: s Collect_def NewPrometheusCollector_def)
qed

lemma mem_UN_if:
  "x \<in> (\<Union>(k, r)\<in>L. if P r then F r else {}) \<longleftrightarrow> (\<exists>k r. (k, r) \<in> L \<and> P r \<and> x \<in> F r)"
  by (force split: if_splits)

lemma enumerates_ex: "\<exists>order. enumerates order"
proof -
  have "\<forall>db. \<exists>ks. finite (dom (database db)) \<longrightarrow> distinct ks \<and> set ks = dom (database db)"
    using finite_distinct_list by metis
  then show ?thesis unfolding enumerates_def by metis
qed

lemma New_keyed: "ToptalkersMetrics_New config = Some s \<Longrightarrow> keyed [] (tt_db s)"
  by (auto simp: ToptalkersMetrics_New_def keyed_New)

text \<open>
  C35. For every configuration, in every interleaving of flows, clock ticks and cleanups and for every
  order of iteration: the samples \<open>toptalkers_metrics\<close> publishes are what a registry accepts (each fits a
  description, no two have the same name and labels), and there are exactly two rates with two
  forwarding states for the addresses above the thresholds, none for any other.
\<close>

theorem toptalkers_published:
  assumes "ToptalkersMetrics_New config = Some s" "(tt_step ovf)\<^sup>*\<^sup>* s s'" "enumerates order"
    and "c = NewPrometheusCollector [tt_db s']"
  shows "list_all (fits_desc (Describe c)) (Collect order c) \<and> distinct (map sample_key (Collect order c))
    \<and> sample_key ` set (Collect order c) =
        {(name, [TrafficType (params (tt_db s')), a, status]) | name a status.
           name \<in> {''traffic_bps'', ''traffic_pps''} \<and> status \<in> {''forwarded'', ''dropped''} \<and> above (tt_db s') a}"
proof -
  let ?db = "tt_db s'"
  have k: "keyed [] ?db" using assms(2) New_keyed [OF assms(1)] by (induction rule: rtranclp_induct) (auto dest: keyed_tt_step)
  then have ok: "enumerates order \<and> exportable [?db]" using assms(3) by (auto simp: exportable_def)
  have d: "Describe c = Describe (NewPrometheusCollector [])" by (simp add: assms(4) Describe_def NewPrometheusCollector_def)
  have fit: "list_all (fits_desc (Describe c)) (Collect order c)"
    using talkers.collected_fit [of "(order, [?db])"] ok by (simp add: list_all_iff assms(4) d [unfolded assms(4)])
  have uniq: "distinct (map sample_key (Collect order c))"
    using talkers.collected_unique [of "(order, [?db])"] ok by (simp add: assms(4))
  have "sample_key ` set (Collect order c) = (\<Union>(_, r)\<in>set (GetAllRecords order ?db). if aboveThreshold r
       then {''traffic_bps'', ''traffic_pps''} \<times> (\<lambda>st. [TrafficType (params ?db), Rec_Address r, st]) ` {''forwarded'', ''dropped''} else {})"
    unfolding Collect_record_keys(5) [symmetric]
    by (simp add: assms(4) Collect_def NewPrometheusCollector_def Collect_db_def image_Union image_image split_beta image_UN)
  also have "\<dots> = {(name, [TrafficType (params ?db), a, status]) | name a status.
           name \<in> {''traffic_bps'', ''traffic_pps''} \<and> status \<in> {''forwarded'', ''dropped''} \<and> above ?db a}"
  proof -
    define N :: "string set" where "N = {''traffic_bps'', ''traffic_pps''}"
    define St :: "string set" where "St = {''forwarded'', ''dropped''}"
    have rec: "(k, r) \<in> set (GetAllRecords order ?db) \<longleftrightarrow> k = record_key [] (Rec_Address r) \<and> database ?db k = Some r" for k r
      using k by (auto simp: GetAllRecords_keyed(1) [OF assms(3) k] keyed_def)
    have ab: "above ?db a \<longleftrightarrow> (\<exists>k r. (k, r) \<in> set (GetAllRecords order ?db) \<and> aboveThreshold r \<and> Rec_Address r = a)" for a
    proof
      assume "above ?db a"
      then obtain r where r: "database ?db (record_key [] a) = Some r" "aboveThreshold r" by (auto simp: above_def split: option.splits)
      then have "Rec_Address r = a" using k by (metis keyed_def record_key_inj)
      then show "\<exists>k r. (k, r) \<in> set (GetAllRecords order ?db) \<and> aboveThreshold r \<and> Rec_Address r = a"
        using r by (auto simp: rec)
    qed (auto simp: rec above_def)
    let ?S = "\<lambda>r. N \<times> (\<lambda>st. [TrafficType (params ?db), Rec_Address r, st]) ` St"
    have "(\<Union>(_, r)\<in>set (GetAllRecords order ?db). if aboveThreshold r then ?S r else {}) =
        {(name, [TrafficType (params ?db), a, status]) | name a status. name \<in> N \<and> status \<in> St \<and> above ?db a}"
      by (rule set_eqI, unfold ab mem_UN_if) blast
    then show ?thesis unfolding N_def St_def .
  qed
  finally have "sample_key ` set (Collect order c) = {(name, [TrafficType (params ?db), a, status]) | name a status.
           name \<in> {''traffic_bps'', ''traffic_pps''} \<and> status \<in> {''forwarded'', ''dropped''} \<and> above ?db a}" .
  then show ?thesis using fit uniq by blast
qed

theorem toptalkers_published_witness:
  "\<exists>order s. enumerates order \<and> ToptalkersMetrics_New Map.empty = Some s
     \<and> distinct (map sample_key (Collect order (NewPrometheusCollector [tt_db s])))"
proof -
  obtain order where "enumerates order" using enumerates_ex by blast
  then show ?thesis using toptalkers_published [OF New_default rtranclp.rtrancl_refl, of order] New_default by blast
qed

section \<open>Start and timers\<close>

text \<open>The paths of \<open>toptalkers_metrics\<close>.\<close>

definition toptalkers_paths :: "config_map \<Rightarrow> PrometheusParams" where
  "toptalkers_paths config =
     (let p = InitDefaultPrometheusParams;
          p = (if cfg config ''endpoint'' = [] then p else p\<lparr>PrometheusParams.Endpoint := cfg config ''endpoint''\<rparr>);
          p = (if cfg config ''metricspath'' = [] then p else p\<lparr>PrometheusParams.MetricsPath := cfg config ''metricspath''\<rparr>)
      in if cfg config ''flowdatapath'' = [] then p else p\<lparr>PrometheusParams.FlowdataPath := cfg config ''flowdatapath''\<rparr>)"

text \<open>
  The tickers of \<open>Clock\<close> and \<open>Cleanup\<close>, whose panic ends the process; the durations are 64-bit
  nanoseconds.
\<close>

definition start_timers :: "Database \<Rightarrow> unit outcome" where
  "start_timers db =
     or_fail (NewTicker (ticker_interval (BucketDuration (params db)))) (\<lambda>_.
       NewTicker (ticker_interval (BucketDuration (params db) * Buckets (params db))))"

fun start_all :: "Database list \<Rightarrow> unit outcome" where
  "start_all [] = Inr ()"
| "start_all (db # ds) = or_fail (start_timers db) (\<lambda>_. start_all ds)"

definition serve :: "PrometheusParams \<Rightarrow> Database list \<Rightarrow> ServeMux outcome" where
  "serve p ds = or_fail (talker_ServeEndpoints p) (\<lambda>mux.
     map_sum id (\<lambda>_. mux) (start_all ds))"

text \<open>
  A configuration that \<open>New\<close> of \<open>toptalkers_metrics\<close> accepts, with different plain paths: up to 9223372036 buckets
  the segment starts; the next 9223372037 numbers of buckets are accepted too and the ticker of the
  cleanup, whose interval overflows, panics.
\<close>

theorem toptalkers_starts:
  assumes "ToptalkersMetrics_New config = Some s" "p = toptalkers_paths config"
    and "plain_path (PrometheusParams.MetricsPath p)" "plain_path (PrometheusParams.FlowdataPath p)"
    and "PrometheusParams.MetricsPath p \<noteq> PrometheusParams.FlowdataPath p" "Buckets (params (tt_db s)) \<le> 18446744073"
  shows "(\<exists>mux. serve p [tt_db s] = Inr mux) \<longleftrightarrow> Buckets (params (tt_db s)) \<le> 9223372036"
proof -
  have b: "1 \<le> Buckets (params (tt_db s))" and d: "BucketDuration (params (tt_db s)) = 1"
    using assms(1) parse_positive_pos [of "cfg config ''buckets''" 60]
    by (fastforce simp: ToptalkersMetrics_New_def ParsePrometheusConfig_def InitDefaultPrometheusMetricParams_def
      zero_params_def NewDatabase_def split: option.splits)+
  have t1: "NewTicker (ticker_interval 1) = Inr ()" using NewTicker_interval [of 1] by simp
  have "(\<exists>mux. serve p [tt_db s] = Inr mux) \<longleftrightarrow> NewTicker (ticker_interval (Buckets (params (tt_db s)))) = Inr ()"
    using t1 by (auto simp: serve_def talker_ServeEndpoints_def ServeEndpoints_plain [OF assms(3-5)] start_timers_def d split: sum.splits)
  then show ?thesis using NewTicker_interval [OF b assms(6)] by simp
qed

theorem toptalkers_starts_witness:
  "\<exists>s mux. ToptalkersMetrics_New Map.empty = Some s \<and> serve (toptalkers_paths Map.empty) [tt_db s] = Inr mux"
proof -
  have p: "toptalkers_paths Map.empty = InitDefaultPrometheusParams" by (simp add: toptalkers_paths_def cfg_def Let_def)
  have "\<exists>mux. serve (toptalkers_paths Map.empty) [NewDatabase (InitDefaultPrometheusMetricParams zero_params)] = Inr mux"
    using toptalkers_starts [OF New_default refl] unfolding p
    by (simp add: InitDefaultPrometheusParams_def plain_path_def NewDatabase_def InitDefaultPrometheusMetricParams_def zero_params_def)
  then show ?thesis using New_default by force
qed

text \<open>
  In \<open>traffic_specific_toptalkers\<close> the option \<open>metricspath\<close> sets the path of the flow data. Setting it to
  its own default therefore makes both paths equal, and the segment panics at its start.
\<close>

theorem traffic_default_metricspath_panics:
  assumes "cfg config ''metricspath'' = ''/metrics''" "cfg config ''flowdatapath'' = []"
  shows "\<exists>p. serve (ts_params (TrafficSpecificToptalkers_New config)) ds = Inl (Panic p)"
proof -
  let ?p = "ts_params (TrafficSpecificToptalkers_New config)"
  have "PrometheusParams.MetricsPath ?p = PrometheusParams.FlowdataPath ?p"
    using assms by (simp add: TrafficSpecificToptalkers_New_def InitDefaultPrometheusParams_def Let_def)
  then obtain p where "ServeEndpoints (PrometheusParams.MetricsPath ?p) (PrometheusParams.FlowdataPath ?p) = Inl (Panic p)"
    using ServeEndpoints_fails by metis
  then show ?thesis by (simp add: serve_def talker_ServeEndpoints_def)
qed

theorem traffic_default_metricspath_panics_witness:
  "\<exists>p. serve (ts_params (TrafficSpecificToptalkers_New [''metricspath'' \<mapsto> ''/metrics''])) [] = Inl (Panic p)"
  by (rule traffic_default_metricspath_panics) (simp_all add: cfg_def)

end
