(* ===== verification/TalkerTimers.thy ===== *)
theory TalkerTimers
  imports MetricsServer
begin

text \<open>
  The goroutines of \<open>traffic_specific_toptalkers\<close>: the loop over the flows, a clock and a cleanup for each
  database of the tree of definitions, the collector of the endpoint, and the end of \<open>Run\<close>, which
  stops the clocks. The databases are numbered in the order in which
  \<open>initDatabasesForFilter\<close> returns them.
\<close>

section \<open>The databases of a tree\<close>

fun databases :: "ThresholdMetric \<Rightarrow> Database list" where
  "databases (ThresholdMetric p d subs e) = (case d of None \<Rightarrow> [] | Some db \<Rightarrow> [db]) @ concat (map databases subs)"

definition allDatabases :: "ThresholdMetric list \<Rightarrow> Database list" where
  "allDatabases ts = concat (map databases ts)"

text \<open>A timer changes the database of its number, wherever it is in the tree.\<close>

inductive tm_tick :: "(Database \<Rightarrow> Database) \<Rightarrow> nat \<Rightarrow> ThresholdMetric \<Rightarrow> ThresholdMetric \<Rightarrow> bool"
  and tms_tick :: "(Database \<Rightarrow> Database) \<Rightarrow> nat \<Rightarrow> ThresholdMetric list \<Rightarrow> ThresholdMetric list \<Rightarrow> bool" for f where
  own: "tm_tick f 0 (ThresholdMetric p (Some db) subs e) (ThresholdMetric p (Some (f db)) subs e)"
| sub: "tms_tick f i subs subs' \<Longrightarrow>
    tm_tick f (i + (case d of None \<Rightarrow> 0 | Some _ \<Rightarrow> 1)) (ThresholdMetric p d subs e) (ThresholdMetric p d subs' e)"
| here: "tm_tick f i t t' \<Longrightarrow> tms_tick f i (t # ts) (t' # ts)"
| there: "tms_tick f i ts ts' \<Longrightarrow> tms_tick f (i + length (databases t)) (t # ts) (t # ts')"

lemma tick_databases:
  "tm_tick f i t t' \<Longrightarrow> i < length (databases t) \<and> databases t' = (databases t)[i := f (databases t ! i)]"
  "tms_tick f i ts ts' \<Longrightarrow> i < length (allDatabases ts) \<and> allDatabases ts' = (allDatabases ts)[i := f (allDatabases ts ! i)]"
  by (induction rule: tm_tick_tms_tick.inducts)
    (auto simp: allDatabases_def nth_append list_update_append split: option.split)

text \<open>The invariant of a tree: a database has the parameters of its definition and is keyed by its traffic type.\<close>

fun tm_ok :: "ThresholdMetric \<Rightarrow> bool" where
  "tm_ok (ThresholdMetric p d subs e) \<longleftrightarrow>
     (case d of None \<Rightarrow> True | Some db \<Rightarrow> params db = p \<and> keyed (TrafficType p) db) \<and> list_all tm_ok subs"

lemma tick_ok:
  assumes "\<And>db label. keyed label db \<Longrightarrow> keyed label (f db)" "\<And>db. params (f db) = params db"
  shows "tm_tick f i t t' \<Longrightarrow> tm_ok t \<Longrightarrow> tm_ok t'" "tms_tick f i ts ts' \<Longrightarrow> list_all tm_ok ts \<Longrightarrow> list_all tm_ok ts'"
  using assms by (induction rule: tm_tick_tms_tick.inducts) auto

lemma params_ticks [simp]: "params (Clock_tick ovf db) = params db" "params (Cleanup_tick db) = params db"
  by (simp_all add: Clock_tick_def Cleanup_tick_def Let_def)

lemma count_keys_fold: "count_keys label m ks db = Inr db' \<Longrightarrow> db' = fold (count_key label m) ks db"
  by (induction label m ks db rule: count_keys.induct)
    (auto simp: count_key_def Let_def split: if_splits prod.splits)

lemma addMessage_ok:
  "addMessageToMatchingToptalkers pv m t = Inr t' \<Longrightarrow> tm_ok t \<Longrightarrow>
     tm_ok t' \<and> map params (databases t') = map params (databases t)"
  "addMessageToAll pv m ts = Inr ts' \<Longrightarrow> list_all tm_ok ts \<Longrightarrow>
     list_all tm_ok ts' \<and> map params (allDatabases ts') = map params (allDatabases ts)"
proof (induction pv m t and pv m ts arbitrary: t' and ts' rule: addMessageToMatchingToptalkers_addMessageToAll.induct)
  case (1 pv m p d subs e)
  obtain match err e' where c: "CheckFlow pv e m = Inr (match, err, e')"
    using 1(2) by (cases "CheckFlow pv e m") (auto split: prod.splits)
  show ?case
  proof (cases match)
    case True
    then obtain d' subs' where d: "count_metric p m d = Inr d'" "addMessageToAll pv m subs = Inr subs'" "t' = ThresholdMetric p d' subs' e'"
      using 1(2) c by (cases "count_metric p m d"; cases "addMessageToAll pv m subs") auto
    have "(case d' of None \<Rightarrow> True | Some db \<Rightarrow> params db = p \<and> keyed (TrafficType p) db)
        \<and> map params (case d' of None \<Rightarrow> [] | Some db \<Rightarrow> [db]) = map params (case d of None \<Rightarrow> [] | Some db \<Rightarrow> [db])"
    proof (cases "TrafficType p = [] \<or> d = None")
      case True
      then show ?thesis using d(1) 1(3) by (auto simp: count_metric_def split: if_splits)
    next
      case False
      then obtain db where db: "d = Some db" "params db = p" "keyed (TrafficType p) db" using 1(3) by auto
      then obtain db' where "count_keys (TrafficType p) m (metric_keys (RelevantAddress p) m) db = Inr db'" "d' = Some db'"
        using d(1) False by (cases "count_keys (TrafficType p) m (metric_keys (RelevantAddress p) m) db") (auto simp: count_metric_def)
      moreover from this have "db' = fold (count_key (TrafficType p) m) (metric_keys (RelevantAddress p) m) db"
        by (intro count_keys_fold)
      ultimately show ?thesis using db by (simp add: keyed_fold)
    qed
    moreover have "list_all tm_ok subs' \<and> map params (allDatabases subs') = map params (allDatabases subs)"
      using 1(1) [OF c refl refl True d(1) d(2)] 1(3) by simp
    ultimately show ?thesis using d(3) by (simp add: allDatabases_def)
  next
    case False
    then have "t' = ThresholdMetric p d subs e'" using 1(2) c by simp
    then show ?thesis using 1(3) by simp
  qed
next
  case (3 pv m t ts)
  obtain t1 ts1 where t: "addMessageToMatchingToptalkers pv m t = Inr t1" "addMessageToAll pv m ts = Inr ts1" "ts' = t1 # ts1"
    using 3(3) by (cases "addMessageToMatchingToptalkers pv m t"; cases "addMessageToAll pv m ts") simp_all
  show ?case using 3(1) [OF t(1)] 3(2) [OF t(1,2)] 3(4) t(3) by (simp add: allDatabases_def)
qed auto

section \<open>The goroutines\<close>

text \<open>
  The exporter of the segment: the counter of the messages, and the gauge that the cleanups of all
  databases set.
\<close>

record PrometheusExporter =
  KafkaMessageCount :: nat
  db_gauge :: nat

definition exporter_Initialize :: PrometheusExporter where
  "exporter_Initialize = \<lparr>KafkaMessageCount = 0, db_gauge = 0\<rparr>"

definition meta_samples :: "PrometheusExporter \<Rightarrow> sample list" where
  "meta_samples e = [Sample ''kafka_messages_total'' [] (of_nat (KafkaMessageCount e)),
     Sample ''toptalkers_db_size'' [] (of_nat (db_gauge e))]"

text \<open>
  \<open>tk_stopped\<close> counts the databases whose clock has received the message of \<open>StopTimers\<close>;
  \<open>tk_closed\<close> and \<open>tk_done\<close> say that \<open>Run\<close> has closed its output and that it has returned; \<open>tk_crash\<close>
  is the panic that ended the process.
\<close>

record traffic =
  tk_ts :: "ThresholdMetric list"
  tk_in :: "EnrichedFlow list"
  tk_out :: "EnrichedFlow list"
  tk_closed :: bool
  tk_stopped :: nat
  tk_done :: bool
  tk_exporter :: PrometheusExporter
  tk_crash :: "failure option"

inductive talk_step :: "traversal \<Rightarrow> (rat \<Rightarrow> u64) \<Rightarrow> traffic \<Rightarrow> traffic \<Rightarrow> bool" for pv ovf where
  flow: "tk_crash s = None \<Longrightarrow> \<not> tk_closed s \<Longrightarrow> tk_in s = m # ms \<Longrightarrow> TrafficSpecificToptalkers_step pv (tk_ts s) m = Inr (es, ts') \<Longrightarrow>
    talk_step pv ovf s (s\<lparr>tk_ts := ts', tk_in := ms, tk_out := tk_out s @ outs es,
      tk_exporter := (tk_exporter s)\<lparr>KafkaMessageCount := Suc (KafkaMessageCount (tk_exporter s))\<rparr>\<rparr>)"
| panics: "tk_crash s = None \<Longrightarrow> \<not> tk_closed s \<Longrightarrow> tk_in s = m # ms \<Longrightarrow> TrafficSpecificToptalkers_step pv (tk_ts s) m = Inl f \<Longrightarrow>
    talk_step pv ovf s (s\<lparr>tk_crash := Some f\<rparr>)"
| close: "tk_crash s = None \<Longrightarrow> \<not> tk_closed s \<Longrightarrow> tk_in s = [] \<Longrightarrow> talk_step pv ovf s (s\<lparr>tk_closed := True\<rparr>)"
| clock: "tk_crash s = None \<Longrightarrow> tk_stopped s \<le> i \<Longrightarrow> tms_tick (Clock_tick ovf) i (tk_ts s) ts' \<Longrightarrow> talk_step pv ovf s (s\<lparr>tk_ts := ts'\<rparr>)"
| cleanup: "tk_crash s = None \<Longrightarrow> tms_tick Cleanup_tick i (tk_ts s) ts' \<Longrightarrow>
    talk_step pv ovf s (s\<lparr>tk_ts := ts', tk_exporter := (tk_exporter s)\<lparr>db_gauge := dbSize (allDatabases ts' ! i)\<rparr>\<rparr>)"
| stop: "tk_crash s = None \<Longrightarrow> tk_closed s \<Longrightarrow> tk_stopped s < length (allDatabases (tk_ts s)) \<Longrightarrow>
    talk_step pv ovf s (s\<lparr>tk_stopped := Suc (tk_stopped s)\<rparr>)"
| end_run: "tk_crash s = None \<Longrightarrow> tk_closed s \<Longrightarrow> \<not> tk_done s \<Longrightarrow> tk_stopped s = length (allDatabases (tk_ts s)) \<Longrightarrow>
    talk_step pv ovf s (s\<lparr>tk_done := True\<rparr>)"

definition traffic_start :: "ThresholdMetric list \<Rightarrow> EnrichedFlow list \<Rightarrow> traffic" where
  "traffic_start ts ms = \<lparr>tk_ts = ts, tk_in = ms, tk_out = [], tk_closed = False, tk_stopped = 0, tk_done = False,
     tk_exporter = exporter_Initialize, tk_crash = None\<rparr>"

text \<open>
  The start of \<open>Run\<close>: \<open>ServeEndpoints\<close> panics on the paths, and the tickers of the clocks and the cleanups, in
  goroutines of their own, on intervals that are not positive.
\<close>

definition traffic_begin :: "TrafficSpecificToptalkers \<Rightarrow> ThresholdMetric list \<Rightarrow> EnrichedFlow list \<Rightarrow> traffic outcome" where
  "traffic_begin seg ts ms = map_sum id (\<lambda>_. traffic_start ts ms) (serve (ts_params seg) (allDatabases ts))"

lemma traffic_begin_start: "traffic_begin seg ts ms = Inr s \<Longrightarrow> s = traffic_start ts ms"
  by (auto simp: traffic_begin_def map_sum_def split: sum.splits)

lemma step_flow: "TrafficSpecificToptalkers_step pv ts m = Inr (es, ts') \<Longrightarrow> addMessageToAll pv m ts = Inr ts' \<and> outs es = [m]"
  by (cases "addMessageToAll pv m ts") (auto simp: TrafficSpecificToptalkers_step_def)

lemma tick_params:
  assumes "tms_tick f i ts ts'" "\<And>db. params (f db) = params db"
  shows "map params (allDatabases ts') = map params (allDatabases ts)"
  using tick_databases(2) [OF assms(1)] assms(2) by (simp add: map_update) (metis list_update_id nth_map)

text \<open>
  The invariant: the databases keep their parameters and their keys, the flows that came in are sent in their
  order, and the clocks are stopped only after the output has been closed, all of them before \<open>Run\<close> returns.
\<close>

definition talk_inv :: "PrometheusMetricsParams list \<Rightarrow> EnrichedFlow list \<Rightarrow> traffic \<Rightarrow> bool" where
  "talk_inv ps ms s \<longleftrightarrow> list_all tm_ok (tk_ts s) \<and> map params (allDatabases (tk_ts s)) = ps \<and> tk_out s @ tk_in s = ms
     \<and> (tk_closed s \<longrightarrow> tk_in s = []) \<and> (0 < tk_stopped s \<longrightarrow> tk_closed s) \<and> tk_stopped s \<le> length ps
     \<and> (tk_done s \<longrightarrow> tk_closed s \<and> tk_stopped s = length ps) \<and> KafkaMessageCount (tk_exporter s) = length (tk_out s)"

lemma talk_step_inv: "talk_step pv ovf s s' \<Longrightarrow> talk_inv ps ms s \<Longrightarrow> talk_inv ps ms s'"
proof (induction rule: talk_step.induct)
  case (flow s m rest es ts')
  then show ?case using step_flow [OF flow(4)] addMessage_ok(2) [of pv m "tk_ts s" ts'] by (auto simp: talk_inv_def)
next
  case (clock s i ts')
  then show ?case using tick_ok(2) [OF keyed_Clock _ clock(3)] tick_params [OF clock(3)] by (auto simp: talk_inv_def)
next
  case (cleanup s i ts')
  then show ?case using tick_ok(2) [OF keyed_Cleanup _ cleanup(2)] tick_params [OF cleanup(2)] by (auto simp: talk_inv_def)
next
  case (stop s)
  have "length (allDatabases (tk_ts s)) = length ps" using stop(4) by (auto simp: talk_inv_def)
  then show ?case using stop by (auto simp: talk_inv_def)
next
  case (end_run s)
  have "length (allDatabases (tk_ts s)) = length ps" using end_run(5) by (auto simp: talk_inv_def)
  then show ?case using end_run by (auto simp: talk_inv_def)
qed (auto simp: talk_inv_def)

section \<open>From the configuration\<close>

text \<open>The traffic types of the definitions that have one, in the order of the tree.\<close>

fun def_types :: "ThresholdMetricDefinition \<Rightarrow> string list" where
  "def_types (ThresholdMetricDefinition p flt subs) =
     (if TrafficType p \<noteq> [] then [TrafficType p] else []) @ concat (map def_types subs)"

lemma params_New: "params (NewDatabase p) = p"
  by (simp add: NewDatabase_def)

lemma metric_init:
  "metricFromDefinition parse rel def = Some t \<Longrightarrow>
     tm_ok (initDatabasesForFilter t) \<and> map (\<lambda>db. TrafficType (params db)) (databases (initDatabasesForFilter t)) = def_types def"
proof (induction parse rel def arbitrary: t rule: metricFromDefinition.induct)
  case (1 parse rel p flt subs)
  let ?p = "(let p = InitDefaultPrometheusMetricParams (p\<lparr>CleanupWindowSizes := 0\<rparr>) in if rel \<noteq> [] then p\<lparr>RelevantAddress := rel\<rparr> else p)"
  obtain e ms where e: "parse flt = Some e" "those (map (metricFromDefinition parse rel) subs) = Some ms" "t = ThresholdMetric ?p None ms e"
    using 1(2) by (auto simp: Let_def split: option.splits)
  have ty: "TrafficType ?p = TrafficType p" by (simp add: Let_def InitDefaultPrometheusMetricParams_def)
  have ms: "map (metricFromDefinition parse rel) subs = map Some ms"
    using e(2) by (induction subs arbitrary: ms) (auto split: option.splits)
  have ih: "tm_ok (initDatabasesForFilter (ms ! i)) \<and> map (\<lambda>db. TrafficType (params db)) (databases (initDatabasesForFilter (ms ! i))) = def_types (subs ! i)"
    if "i < length subs" for i
  proof -
    have "metricFromDefinition parse rel (subs ! i) = Some (ms ! i)" using ms that by (metis length_map nth_map)
    from 1(1) [OF refl refl e(1) nth_mem [OF that] this] show ?thesis .
  qed
  have len: "length ms = length subs" using ms by (metis length_map)
  have "list_all tm_ok (map initDatabasesForFilter ms)" using ih by (simp add: list_all_length len)
  moreover have "map (\<lambda>t. map (\<lambda>db. TrafficType (params db)) (databases (initDatabasesForFilter t))) ms = map def_types subs"
    using ih by (auto simp: list_eq_iff_nth_eq len)
  ultimately show ?case
    by (auto simp: e(3) ty keyed_New map_concat comp_def params_New simp del: Let_def)
qed

lemma initDatabases_ok:
  "initDatabases (map (metricFromDefinition parse rel) defs) = Inr ts \<Longrightarrow>
     list_all tm_ok ts \<and> map (\<lambda>db. TrafficType (params db)) (allDatabases ts) = concat (map def_types defs)"
proof (induction defs arbitrary: ts)
  case (Cons d defs)
  then obtain t ts1 where t: "metricFromDefinition parse rel d = Some t"
    "initDatabases (map (metricFromDefinition parse rel) defs) = Inr ts1" "ts = initDatabasesForFilter t # ts1"
    by (cases "metricFromDefinition parse rel d"; cases "initDatabases (map (metricFromDefinition parse rel) defs)") auto
  then show ?case using metric_init [OF t(1)] Cons.IH [OF t(2)] by (simp add: allDatabases_def)
qed (simp add: allDatabases_def)

lemma talk_start_inv:
  assumes "initDatabases (map (metricFromDefinition parse rel) defs) = Inr ts" "(talk_step pv ovf)\<^sup>*\<^sup>* (traffic_start ts ms) s'"
  shows "talk_inv (map params (allDatabases ts)) ms s'"
proof -
  have "talk_inv (map params (allDatabases ts)) ms (traffic_start ts ms)"
    using initDatabases_ok [OF assms(1)] by (simp add: talk_inv_def traffic_start_def exporter_Initialize_def)
  with assms(2) show ?thesis by (induction rule: rtranclp_induct) (auto intro: talk_step_inv)
qed

lemma tm_ok_keyed: "tm_ok t \<Longrightarrow> db \<in> set (databases t) \<Longrightarrow> keyed (TrafficType (params db)) db"
  by (induction t rule: databases.induct) (auto simp: list_all_iff split: option.splits)

text \<open>
  For definitions whose traffic types differ, in every interleaving of flows, clocks, cleanups and the
  shutdown and for every order of iteration: the samples \<open>traffic_specific_toptalkers\<close> publishes are what a
  registry accepts, each fits a description and no two have the same name and labels.
\<close>

theorem traffic_published:
  assumes "initDatabases (ts_metrics (AddCustomConfig parse defs (TrafficSpecificToptalkers_New config))) = Inr ts"
    and "distinct (concat (map def_types defs))" "(talk_step pv ovf)\<^sup>*\<^sup>* (traffic_start ts ms) s'" "enumerates order"
    and "c = NewPrometheusCollector (allDatabases (tk_ts s'))"
  shows "list_all (fits_desc (Describe c)) (Collect order c) \<and> distinct (map sample_key (Collect order c))"
proof -
  let ?ds = "allDatabases (tk_ts s')"
  have init: "initDatabases (map (metricFromDefinition parse (ts_RelevantAddress (TrafficSpecificToptalkers_New config))) defs) = Inr ts"
    using assms(1) by (simp add: AddCustomConfig_def TrafficSpecificToptalkers_New_def Let_def)
  note inv = talk_start_inv [OF init assms(3)]
  have "map (\<lambda>db. TrafficType (params db)) ?ds = concat (map def_types defs)"
    using inv initDatabases_ok [OF init] by (metis (no_types, lifting) map_eq_conv map_map comp_apply talk_inv_def)
  moreover have "\<forall>db\<in>set ?ds. \<exists>label. keyed label db"
    using inv tm_ok_keyed by (fastforce simp: talk_inv_def allDatabases_def list_all_iff)
  ultimately have ok: "enumerates order \<and> exportable ?ds" using assms(2,4) by (simp add: exportable_def comp_def)
  have d: "Describe c = Describe (NewPrometheusCollector [])" by (simp add: assms(5) Describe_def NewPrometheusCollector_def)
  show ?thesis
    using talkers.collected_fit [of "(order, ?ds)"] talkers.collected_unique [of "(order, ?ds)"] ok d
    by (auto simp: list_all_iff assms(5))
qed

text \<open>Definitions for TCP and UDP, which differ in their traffic type.\<close>

definition demo_defs :: "ThresholdMetricDefinition list" where
  "demo_defs = [ThresholdMetricDefinition (zero_params\<lparr>TrafficType := ''tcp''\<rparr>) ''proto 6'' [],
     ThresholdMetricDefinition (zero_params\<lparr>TrafficType := ''udp''\<rparr>) ''proto 17'' []]"

lemma demo_defs_init:
  "\<exists>ts. initDatabases (ts_metrics (AddCustomConfig (\<lambda>_. Some proto6) demo_defs (TrafficSpecificToptalkers_New Map.empty))) = Inr ts
     \<and> length (allDatabases ts) = 2"
  by (simp add: AddCustomConfig_def TrafficSpecificToptalkers_New_def demo_defs_def Let_def zero_params_def
    InitDefaultPrometheusMetricParams_def allDatabases_def)

theorem traffic_published_witness:
  "\<exists>order ts. enumerates order \<and> length (allDatabases ts) = 2
     \<and> distinct (map sample_key (Collect order (NewPrometheusCollector (allDatabases ts))))"
proof -
  obtain order where o: "enumerates order" using enumerates_ex by blast
  obtain ts where ts: "initDatabases (ts_metrics (AddCustomConfig (\<lambda>_. Some proto6) demo_defs (TrafficSpecificToptalkers_New Map.empty))) = Inr ts"
    "length (allDatabases ts) = 2" using demo_defs_init by blast
  have d: "distinct (concat (map def_types demo_defs))" by (simp add: demo_defs_def)
  have "tk_ts (traffic_start ts []) = ts" by (simp add: traffic_start_def)
  then show ?thesis using traffic_published [where pv = walk and ovf = "\<lambda>_. 0" and ms = "[]" and s' = "traffic_start ts []", OF ts(1) d _ o refl] o ts(2)
    by auto
qed

text \<open>
  Two definitions with the same traffic type that both have an address above their thresholds
  publish samples with the same name and labels, which a registry rejects: the request for the flow
  data then fails as a whole.
\<close>

theorem traffic_same_type_collides:
  assumes "enumerates order" "ds = xs @ d1 # ys @ d2 # zs" "TrafficType (params d1) = TrafficType (params d2)"
    and "finite (dom (database d1))" "database d1 k1 = Some r1" "aboveThreshold r1"
    and "finite (dom (database d2))" "database d2 k2 = Some r2" "aboveThreshold r2" "Rec_Address r1 = Rec_Address r2"
  shows "\<not> distinct (map sample_key (Collect order (NewPrometheusCollector ds)))"
proof -
  have mem: "(''traffic_bps'', [TrafficType (params d), Rec_Address r, ''forwarded'']) \<in> sample_key ` set (Collect_db order d)"
    if d: "finite (dom (database d))" "database d k = Some r" "aboveThreshold r" for d k r
  proof -
    have "set (order d) = dom (database d)" using assms(1) d(1) by (simp add: enumerates_def)
    then have "(k, r) \<in> set (GetAllRecords order d)"
      using d(2) map_filter_keys(2) [of "order d" "database d"] by (auto simp: GetAllRecords_def)
    moreover have "(''traffic_bps'', [TrafficType (params d), Rec_Address r, ''forwarded'']) \<in> sample_key `
        set (map (\<lambda>(name, value, address, status). Sample name [TrafficType (params d), address, status] value) (Collect_record d r))"
      unfolding Collect_record_keys(5) using d(3) by simp
    moreover have "sample_key ` set (Collect_db order d) = (\<Union>(k, r)\<in>set (GetAllRecords order d). sample_key `
        set (map (\<lambda>(name, value, address, status). Sample name [TrafficType (params d), address, status] value) (Collect_record d r)))"
      by (simp add: Collect_db_def image_UN split_beta)
    ultimately show ?thesis by blast
  qed
  have "sample_key ` set (Collect_db order d1) \<inter> sample_key ` set (Collect_db order d2) \<noteq> {}"
    using mem [OF assms(4-6)] mem [OF assms(7-9)] assms(3,10) by auto
  then show ?thesis by (auto simp: assms(2) Collect_def NewPrometheusCollector_def)
qed

theorem traffic_same_type_collides_witness:
  "\<exists>order db. enumerates order \<and> \<not> distinct (map sample_key (Collect order (NewPrometheusCollector [db, db])))"
proof -
  let ?r = "(NewRecord 1 ''10.0.0.1'')\<lparr>aboveThreshold := True\<rparr>"
  let ?db = "(NewDatabase tcp_params)\<lparr>database := [record_key ''tcp'' ''10.0.0.1'' \<mapsto> ?r]\<rparr>"
  obtain order where o: "enumerates order" using enumerates_ex by blast
  have "\<not> distinct (map sample_key (Collect order (NewPrometheusCollector [?db, ?db])))"
    by (rule traffic_same_type_collides [OF o, where xs = "[]" and ys = "[]" and zs = "[]", OF _ _ _ _ _ _ _ _ refl]) auto
  then show ?thesis using o by blast
qed

lemma tms_exists:
  "\<forall>t\<in>set ts. \<forall>i<length (databases t). \<exists>t'. tm_tick f i t t' \<Longrightarrow> i < length (allDatabases ts) \<Longrightarrow> \<exists>ts'. tms_tick f i ts ts'"
proof (induction ts arbitrary: i)
  case (Cons t ts)
  show ?case
  proof (cases "i < length (databases t)")
    case True
    then obtain t' where "tm_tick f i t t'" using Cons.prems(1) by (meson list.set_intros(1))
    from here [OF this] show ?thesis by blast
  next
    case False
    then have "i - length (databases t) < length (allDatabases ts)" using Cons.prems(2) by (simp add: allDatabases_def)
    then obtain ts' where "tms_tick f (i - length (databases t)) ts ts'" using Cons.IH Cons.prems(1) by (meson list.set_intros(2))
    from there [OF this, of t] show ?thesis using False by auto
  qed
qed (simp add: allDatabases_def)

lemma tm_exists: "i < length (databases t) \<Longrightarrow> \<exists>t'. tm_tick f i t t'"
proof (induction t arbitrary: i rule: databases.induct)
  case (1 p d subs e)
  let ?n = "case d of None \<Rightarrow> 0 | Some _ \<Rightarrow> 1"
  show ?case
  proof (cases "i < ?n")
    case True
    then obtain db where "d = Some db" "i = 0" by (cases d) auto
    then show ?thesis using own [of f p db subs e] by blast
  next
    case False
    then have "i - ?n < length (allDatabases subs)" using 1(2) by (cases d) (auto simp: allDatabases_def)
    then obtain subs' where "tms_tick f (i - ?n) subs subs'" using tms_exists [of subs f "i - ?n"] 1(1) by blast
    from sub [OF this, of d p e] show ?thesis using False by auto
  qed
qed

text \<open>
  The gauge \<open>toptalkers_db_size\<close> is one for all databases: after a cleanup it is the number of records of
  the database that was cleaned up last, whatever the others hold.
\<close>

theorem gauge_last_cleanup:
  assumes "tms_tick Cleanup_tick i (tk_ts s) ts'" "tk_crash s = None"
  shows "\<exists>s'. talk_step pv ovf s s' \<and> tk_ts s' = ts'
    \<and> meta_samples (tk_exporter s') = [Sample ''kafka_messages_total'' [] (of_nat (KafkaMessageCount (tk_exporter s))),
        Sample ''toptalkers_db_size'' [] (of_nat (card (dom (database (allDatabases ts' ! i)))))]"
proof -
  have "allDatabases ts' ! i = Cleanup_tick (allDatabases (tk_ts s) ! i)" using tick_databases(2) [OF assms(1)] by simp
  then have "dbSize (allDatabases ts' ! i) = card (dom (database (allDatabases ts' ! i)))"
    by (simp add: Cleanup_tick_def Let_def)
  then show ?thesis using cleanup [OF assms(2,1), of pv ovf] by (force simp: meta_samples_def)
qed

theorem gauge_last_cleanup_witness:
  "\<exists>s'. talk_step walk (\<lambda>_. 0) (traffic_start [tcp_metric] []) s' \<and> db_gauge (tk_exporter s') = 0"
proof -
  have "i < length (databases tcp_metric) \<Longrightarrow> \<exists>t'. tm_tick Cleanup_tick i tcp_metric t'" for i by (rule tm_exists)
  then have "\<exists>ts'. tms_tick Cleanup_tick 0 [tcp_metric] ts'" by (intro tms_exists) (auto simp: tcp_metric_def allDatabases_def)
  then obtain ts' where t: "tms_tick Cleanup_tick 0 (tk_ts (traffic_start [tcp_metric] [])) ts'" by (auto simp: traffic_start_def)
  have "allDatabases ts' ! 0 = Cleanup_tick (NewDatabase tcp_params)"
    using tick_databases(2) [OF t] by (simp add: traffic_start_def tcp_metric_def allDatabases_def)
  then have "card (dom (database (allDatabases ts' ! 0))) = 0" by (simp add: Cleanup_tick_def NewDatabase_def Let_def)
  then show ?thesis using gauge_last_cleanup [OF t, of walk "\<lambda>_. 0"] by (auto simp: meta_samples_def traffic_start_def)
qed

section \<open>The end of Run\<close>

text \<open>
  C36. The end of \<open>Run\<close>, for a segment that has started (its paths can be registered and its tickers have positive
  intervals) and has not panicked on a flow: once the input is exhausted it can always finish, and when it has,
  it has sent all flows and no clock can tick again. The cleanups are never stopped: each of them goes on.
\<close>

theorem traffic_shutdown:
  assumes "seg = AddCustomConfig parse defs (TrafficSpecificToptalkers_New config)"
    and "initDatabases (ts_metrics seg) = Inr ts" "traffic_begin seg ts ms = Inr s"
    and "(talk_step pv ovf)\<^sup>*\<^sup>* s s'" "tk_crash s' = None" "tk_in s' = []"
  shows "\<exists>s''. (talk_step pv ovf)\<^sup>*\<^sup>* s' s'' \<and> tk_done s'' \<and> tk_out s'' = ms \<and> tk_closed s''
    \<and> (\<nexists>i ts'. tk_stopped s'' \<le> i \<and> tms_tick (Clock_tick ovf) i (tk_ts s'') ts')
    \<and> KafkaMessageCount (tk_exporter s'') = length ms
    \<and> list_all (\<lambda>i. \<exists>s3. talk_step pv ovf s'' s3 \<and> allDatabases (tk_ts s3) = (allDatabases (tk_ts s''))[i := Cleanup_tick (allDatabases (tk_ts s'') ! i)])
         [0..<length (allDatabases ts)]"
proof -
  let ?ps = "map params (allDatabases ts)"
  have init: "initDatabases (map (metricFromDefinition parse (ts_RelevantAddress (TrafficSpecificToptalkers_New config))) defs) = Inr ts"
    using assms(1,2) by (simp add: AddCustomConfig_def TrafficSpecificToptalkers_New_def Let_def)
  note inv = talk_start_inv [OF init assms(4) [unfolded traffic_begin_start [OF assms(3)]]]
  have len: "length (allDatabases (tk_ts s)) = length (allDatabases ts)" if "talk_inv ?ps ms s" for s
    using that by (metis length_map talk_inv_def)
  obtain s1 where s1: "(talk_step pv ovf)\<^sup>*\<^sup>* s' s1" "talk_inv ?ps ms s1" "tk_closed s1" "tk_crash s1 = None"
  proof (cases "tk_closed s'")
    case False
    note st = close [OF assms(5) False assms(6), of pv ovf]
    show ?thesis by (rule that [OF r_into_rtranclp [of "talk_step pv ovf", OF st] talk_step_inv [OF st inv]]) (simp_all add: assms(5))
  qed (use inv assms(5) that in blast)
  have "\<exists>s2. (talk_step pv ovf)\<^sup>*\<^sup>* s s2 \<and> talk_inv ?ps ms s2 \<and> tk_closed s2 \<and> tk_crash s2 = None \<and> tk_stopped s2 = length (allDatabases ts)"
    if "talk_inv ?ps ms s" "tk_closed s" "tk_crash s = None" "n = length (allDatabases ts) - tk_stopped s" for s n
    using that
  proof (induction n arbitrary: s)
    case 0
    then show ?case by (intro exI [of _ s]) (auto simp: talk_inv_def)
  next
    case (Suc n)
    then have st: "talk_step pv ovf s (s\<lparr>tk_stopped := Suc (tk_stopped s)\<rparr>)" using len [OF Suc.prems(1)] by (intro stop) auto
    let ?s = "s\<lparr>tk_stopped := Suc (tk_stopped s)\<rparr>"
    have "talk_inv ?ps ms ?s" by (rule talk_step_inv [OF st Suc.prems(1)])
    moreover have "tk_closed ?s" "tk_crash ?s = None" "n = length (allDatabases ts) - tk_stopped ?s" using Suc.prems(2-4) by simp_all
    ultimately obtain s2 where "(talk_step pv ovf)\<^sup>*\<^sup>* ?s s2" "talk_inv ?ps ms s2" "tk_closed s2" "tk_crash s2 = None"
      "tk_stopped s2 = length (allDatabases ts)" using Suc.IH by blast
    then show ?case using converse_rtranclp_into_rtranclp [of "talk_step pv ovf", OF st] by blast
  qed
  then obtain s2 where s2: "(talk_step pv ovf)\<^sup>*\<^sup>* s' s2" "talk_inv ?ps ms s2" "tk_closed s2" "tk_stopped s2 = length (allDatabases ts)" "tk_crash s2 = None"
    using s1 by (meson rtranclp_trans)
  obtain s3 where s3: "(talk_step pv ovf)\<^sup>*\<^sup>* s' s3" "talk_inv ?ps ms s3" "tk_done s3" "tk_crash s3 = None"
  proof (cases "tk_done s2")
    case False
    have st: "talk_step pv ovf s2 (s2\<lparr>tk_done := True\<rparr>)" using s2(3,4,5) False len [OF s2(2)] by (intro end_run) auto
    show ?thesis by (rule that [OF rtranclp.rtrancl_into_rtrancl [of "talk_step pv ovf", OF s2(1) st] talk_step_inv [OF st s2(2)]]) (simp_all add: s2(5))
  qed (use s2 that in blast)
  have "\<exists>s4. talk_step pv ovf s3 s4 \<and> allDatabases (tk_ts s4) = (allDatabases (tk_ts s3))[i := Cleanup_tick (allDatabases (tk_ts s3) ! i)]"
    if i: "i < length (allDatabases ts)" for i
  proof -
    obtain ts' where t: "tms_tick Cleanup_tick i (tk_ts s3) ts'"
      using tms_exists [of "tk_ts s3" Cleanup_tick i] tm_exists i len [OF s3(2)] by metis
    show ?thesis by (intro exI conjI, rule cleanup [OF s3(4) t]) (use tick_databases(2) [OF t] in simp)
  qed
  moreover have "\<nexists>i ts'. tk_stopped s3 \<le> i \<and> tms_tick (Clock_tick ovf) i (tk_ts s3) ts'"
    using s3(2,3) tick_databases(2) len [OF s3(2)] by (fastforce simp: talk_inv_def)
  moreover have "tk_out s3 = ms" "tk_closed s3" "KafkaMessageCount (tk_exporter s3) = length ms"
    using s3(2,3) by (auto simp: talk_inv_def)
  ultimately show ?thesis using s3(1,3) by (intro exI [of _ s3]) (simp add: list_all_iff)
qed

lemma demo_defs_begin:
  assumes "seg = AddCustomConfig (\<lambda>_. Some proto6) demo_defs (TrafficSpecificToptalkers_New Map.empty)" "initDatabases (ts_metrics seg) = Inr ts"
  shows "traffic_begin seg ts [] = Inr (traffic_start ts [])"
proof -
  have "BucketDuration (params db) = 1 \<and> Buckets (params db) = 60" if "db \<in> set (allDatabases ts)" for db
    using that assms by (auto simp: AddCustomConfig_def TrafficSpecificToptalkers_New_def demo_defs_def Let_def
        InitDefaultPrometheusMetricParams_def zero_params_def allDatabases_def NewDatabase_def)
  then have timers: "start_timers db = Inr ()" if "db \<in> set (allDatabases ts)" for db
    using that NewTicker_interval [of 1] NewTicker_interval [of 60] by (simp add: start_timers_def)
  have "\<forall>db\<in>set ds. start_timers db = Inr () \<Longrightarrow> start_all ds = Inr ()" for ds
    by (induction ds) simp_all
  then have "start_all (allDatabases ts) = Inr ()" using timers by blast
  then show ?thesis
    by (simp add: traffic_begin_def serve_def talker_ServeEndpoints_def assms(1) AddCustomConfig_def TrafficSpecificToptalkers_New_def
        InitDefaultPrometheusParams_def cfg_def Let_def ServeEndpoints_def mux_Handle_def)
qed

theorem traffic_shutdown_witness:
  "\<exists>ts s''. length (allDatabases ts) = 2 \<and> (talk_step walk (\<lambda>_. 0))\<^sup>*\<^sup>* (traffic_start ts []) s'' \<and> tk_done s''"
proof -
  obtain ts where ts: "initDatabases (ts_metrics (AddCustomConfig (\<lambda>_. Some proto6) demo_defs (TrafficSpecificToptalkers_New Map.empty))) = Inr ts"
    "length (allDatabases ts) = 2" using demo_defs_init by blast
  have "tk_in (traffic_start ts []) = []" "tk_crash (traffic_start ts []) = None" by (simp_all add: traffic_start_def)
  then show ?thesis
    using traffic_shutdown [where pv = walk and ovf = "\<lambda>_. 0" and ms = "[]" and s' = "traffic_start ts []", OF refl ts(1) demo_defs_begin [OF refl ts(1)]] ts(2)
    by auto
qed

end
