(* ===== verification/Lifecycle.thy ===== *)
theory Lifecycle
  imports Program
begin

text \<open>
  The life of the process (\<open>main.go\<close>): the pipelines are built and started one after the other, then \<open>main\<close>
  asks for the interrupt signals, waits for one, and closes the pipelines, with a limit of 15
  seconds. Interrupts come from outside or from a segment that calls \<open>ShutdownParentPipeline\<close>, at any time, and
  at any time a goroutine of a running pipeline may panic or call \<open>log.Fatal\<close>, which ends the process.
  The names that the imported packages register are at the end.
\<close>

section \<open>The process\<close>

datatype exit = Returned | TimeLimit | NotInitialised | Crashed failure | Killed

text \<open>
  The exit status: \<open>log.Fatal\<close> exits with 1 and an unrecovered panic with 2; a process that is killed
  by a signal has none. The time limit ends the process by \<open>log.Fatal\<close>; the call \<open>os.Exit(5)\<close>
  behind it is not reached.
\<close>

fun exit_status :: "exit \<Rightarrow> int option" where
  "exit_status Returned = Some 0"
| "exit_status TimeLimit = Some 1"
| "exit_status NotInitialised = Some 1"
| "exit_status (Crashed (Fatal _)) = Some 1"
| "exit_status (Crashed (Panic _)) = Some 2"
| "exit_status Killed = None"

text \<open>
  A panic of \<open>main\<close> while it builds a pipeline runs its deferred calls, which close the pipelines
  started before; \<open>log.Fatal\<close> runs none.
\<close>

datatype 'i phase =
    Starting
  | Waiting
  | Closing "'i pipeline list"
  | Unwinding string "'i pipeline list"
  | Ended exit

text \<open>
  \<open>pr_todo\<close> are the results of building the pipelines not yet started (\<open>Inr None\<close> is the nil pipeline),
  \<open>pr_pipes\<close> the pipelines started, \<open>pr_sigs\<close> the number of signals in the channel \<open>sigs\<close>, which
  has room for one.
\<close>

record 'i process =
  pr_todo :: "'i pipeline option outcome list"
  pr_pipes :: "'i pipeline list"
  pr_notified :: bool
  pr_sigs :: nat
  pr_phase :: "'i phase"
  pr_closed :: "chan set"

definition process_start :: "'i pipeline option outcome list \<Rightarrow> 'i process" where
  "process_start results = \<lparr>pr_todo = results, pr_pipes = [], pr_notified = False, pr_sigs = 0, pr_phase = Starting, pr_closed = {}\<rparr>"

text \<open>
  An interrupt: before \<open>signal.Notify\<close> it ends the process, afterwards it is put into the channel,
  or dropped when the channel is full.
\<close>

definition interrupt :: "'i process \<Rightarrow> 'i process" where
  "interrupt s = (case pr_phase s of
       Ended _ \<Rightarrow> s
     | _ \<Rightarrow> if pr_notified s then s\<lparr>pr_sigs := min 1 (Suc (pr_sigs s))\<rparr> else s\<lparr>pr_phase := Ended Killed\<rparr>)"

text \<open>\<open>ShutdownParentPipeline\<close>: a wrapper for several jobs calls that of each of them.\<close>

fun ShutdownParentPipeline :: "'i segment \<Rightarrow> 'i process \<Rightarrow> 'i process" where
  "ShutdownParentPipeline (Plain i f b) s = interrupt s"
| "ShutdownParentPipeline (Branch bp c t e b) s = interrupt s"
| "ShutdownParentPipeline (Parallel ss) s = fold ShutdownParentPipeline ss s"

text \<open>The steps of \<open>main\<close>, and of its goroutine with the time limit.\<close>

inductive main_step :: "('i \<Rightarrow> close_result) \<Rightarrow> ('i pipeline \<Rightarrow> chan set \<Rightarrow> bool) \<Rightarrow> 'i process \<Rightarrow> 'i process \<Rightarrow> bool" for own ends where
  m_start: "pr_phase s = Starting \<Longrightarrow> pr_todo s = Inr (Some p) # bs \<Longrightarrow>
    main_step own ends s (s\<lparr>pr_todo := bs, pr_pipes := pr_pipes s @ [p]\<rparr>)"
| m_nil: "pr_phase s = Starting \<Longrightarrow> pr_todo s = Inr None # bs \<Longrightarrow> main_step own ends s (s\<lparr>pr_phase := Ended NotInitialised\<rparr>)"
| m_fatal: "pr_phase s = Starting \<Longrightarrow> pr_todo s = Inl (Fatal e) # bs \<Longrightarrow>
    main_step own ends s (s\<lparr>pr_phase := Ended (Crashed (Fatal e))\<rparr>)"
| m_panic: "pr_phase s = Starting \<Longrightarrow> pr_todo s = Inl (Panic e) # bs \<Longrightarrow>
    main_step own ends s (s\<lparr>pr_phase := Unwinding e (rev (pr_pipes s))\<rparr>)"
| m_unwind: "pr_phase s = Unwinding e (p # ps) \<Longrightarrow> Pipeline_Close own (pr_closed s) p = Some closed' \<Longrightarrow> ends p closed' \<Longrightarrow>
    main_step own ends s (s\<lparr>pr_closed := closed', pr_phase := Unwinding e ps\<rparr>)"
| m_unwound: "pr_phase s = Unwinding e [] \<Longrightarrow> main_step own ends s (s\<lparr>pr_phase := Ended (Crashed (Panic e))\<rparr>)"
| m_notify: "pr_phase s = Starting \<Longrightarrow> pr_todo s = [] \<Longrightarrow>
    main_step own ends s (s\<lparr>pr_notified := True, pr_phase := Waiting\<rparr>)"
| m_receive: "pr_phase s = Waiting \<Longrightarrow> 0 < pr_sigs s \<Longrightarrow>
    main_step own ends s (s\<lparr>pr_sigs := pr_sigs s - 1, pr_phase := Closing (rev (pr_pipes s))\<rparr>)"
| m_close: "pr_phase s = Closing (p # ps) \<Longrightarrow> Pipeline_Close own (pr_closed s) p = Some closed' \<Longrightarrow> ends p closed' \<Longrightarrow>
    main_step own ends s (s\<lparr>pr_closed := closed', pr_phase := Closing ps\<rparr>)"
| m_return: "pr_phase s = Closing [] \<Longrightarrow> main_step own ends s (s\<lparr>pr_phase := Ended Returned\<rparr>)"
| m_force: "pr_phase s = Closing ps \<Longrightarrow> main_step own ends s (s\<lparr>pr_phase := Ended TimeLimit\<rparr>)"

text \<open>
  A goroutine of a running pipeline panics or calls \<open>log.Fatal\<close>; \<open>fails p f\<close> says that one of \<open>p\<close> may
  fail with \<open>f\<close>.
\<close>

inductive goroutine_fails :: "('i pipeline \<Rightarrow> failure \<Rightarrow> bool) \<Rightarrow> 'i process \<Rightarrow> 'i process \<Rightarrow> bool" for fails where
  g_fails: "\<forall>x. pr_phase s \<noteq> Ended x \<Longrightarrow> p \<in> set (pr_pipes s) \<Longrightarrow> fails p f \<Longrightarrow>
    goroutine_fails fails s (s\<lparr>pr_phase := Ended (Crashed f)\<rparr>)"

text \<open>An execution interleaves the steps of \<open>main\<close> with interrupts and failures.\<close>

definition process_step ::
  "('i \<Rightarrow> close_result) \<Rightarrow> ('i pipeline \<Rightarrow> chan set \<Rightarrow> bool) \<Rightarrow> ('i pipeline \<Rightarrow> failure \<Rightarrow> bool) \<Rightarrow> 'i process \<Rightarrow> 'i process \<Rightarrow> bool" where
  "process_step own ends fails s s' \<longleftrightarrow> main_step own ends s s' \<or> s' = interrupt s \<or> goroutine_fails fails s s'"

section \<open>Invariant\<close>

text \<open>
  The pipelines started are the first ones built; what the rest of the closing will give is what
  \<open>main_shutdown\<close> gives for all of them.
\<close>

definition process_inv ::
  "('i \<Rightarrow> close_result) \<Rightarrow> ('i pipeline \<Rightarrow> chan set \<Rightarrow> bool) \<Rightarrow> ('i pipeline \<Rightarrow> failure \<Rightarrow> bool) \<Rightarrow> 'i pipeline option outcome list \<Rightarrow> 'i process \<Rightarrow> bool" where
  "process_inv own ends fails results s \<longleftrightarrow> map (\<lambda>p. Inr (Some p)) (pr_pipes s) @ pr_todo s = results \<and> pr_sigs s \<le> 1
     \<and> (case pr_phase s of
          Starting \<Rightarrow> \<not> pr_notified s \<and> pr_closed s = {}
        | Waiting \<Rightarrow> pr_notified s \<and> pr_closed s = {} \<and> pr_todo s = []
        | Closing ps \<Rightarrow> pr_notified s \<and> pr_todo s = []
            \<and> close_pipelines own ends (pr_closed s) ps = main_shutdown own ends (pr_pipes s)
        | Unwinding e ps \<Rightarrow> \<not> pr_notified s \<and> (\<exists>bs. pr_todo s = Inl (Panic e) # bs)
            \<and> close_pipelines own ends (pr_closed s) ps = main_shutdown own ends (pr_pipes s)
        | Ended Returned \<Rightarrow> pr_todo s = [] \<and> main_shutdown own ends (pr_pipes s) = (pr_closed s, True)
        | Ended TimeLimit \<Rightarrow> pr_todo s = [] \<and> pr_notified s
        | Ended NotInitialised \<Rightarrow> (\<exists>bs. pr_todo s = Inr None # bs) \<and> pr_closed s = {}
        | Ended (Crashed f) \<Rightarrow> (\<exists>p\<in>set (pr_pipes s). fails p f) \<or>
            (\<exists>bs. pr_todo s = Inl f # bs) \<and> (case f of Panic _ \<Rightarrow> main_shutdown own ends (pr_pipes s) = (pr_closed s, True)
                                                 | Fatal _ \<Rightarrow> pr_closed s = {})
        | Ended Killed \<Rightarrow> \<not> pr_notified s \<and> (pr_closed s = {} \<or> (\<exists>e bs. pr_todo s = Inl (Panic e) # bs)))"

lemma interrupt_inv: "process_inv own ends fails results s \<Longrightarrow> process_inv own ends fails results (interrupt s)"
  by (auto simp: process_inv_def interrupt_def split: phase.splits exit.splits)

lemma main_step_inv: "main_step own ends s s' \<Longrightarrow> process_inv own ends fails results s \<Longrightarrow> process_inv own ends fails results s'"
  by (induction rule: main_step.induct) (auto simp: process_inv_def main_shutdown_def)

lemma goroutine_fails_inv:
  "goroutine_fails fails s s' \<Longrightarrow> process_inv own ends fails results s \<Longrightarrow> process_inv own ends fails results s'"
  by (induction rule: goroutine_fails.induct) (auto simp: process_inv_def)

lemma process_reaches_inv:
  assumes "(process_step own ends fails)\<^sup>*\<^sup>* (process_start results) s"
  shows "process_inv own ends fails results s"
  using assms
proof (induction rule: rtranclp_induct)
  case base
  show ?case by (simp add: process_start_def process_inv_def)
next
  case (step y z)
  then show ?case using main_step_inv interrupt_inv goroutine_fails_inv unfolding process_step_def by blast
qed

text \<open>
  C40. Whatever interrupts and failures of goroutines come and whenever they come, the process ends in one of these ways.
  It returns, after all pipelines were started, with the channels closed exactly as \<open>main_shutdown\<close> says. The time limit
  ends it, which happens only after the signal handler was installed. The first nil pipeline ends it while the pipelines
  before it run, and none is closed. An interrupt kills it before the signal handler is installed. Or it crashes: because a goroutine
  of a started pipeline failed, or because building a pipeline failed; then \<open>log.Fatal\<close> closes no pipeline and a panic all
  that were started, as \<open>main_shutdown\<close> says.
\<close>

theorem process_ends:
  assumes "(process_step own ends fails)\<^sup>*\<^sup>* (process_start results) s" "pr_phase s = Ended x"
  shows "\<exists>rest. results = map (\<lambda>p. Inr (Some p)) (pr_pipes s) @ rest \<and>
    (x = Returned \<and> rest = [] \<and> main_shutdown own ends (pr_pipes s) = (pr_closed s, True)
     \<or> x = TimeLimit \<and> rest = [] \<and> pr_notified s
     \<or> x = NotInitialised \<and> (\<exists>bs. rest = Inr None # bs) \<and> pr_closed s = {}
     \<or> x = Killed \<and> \<not> pr_notified s \<and> (pr_closed s = {} \<or> (\<exists>e bs. rest = Inl (Panic e) # bs))
     \<or> (\<exists>f. x = Crashed f \<and> (\<exists>p\<in>set (pr_pipes s). fails p f))
     \<or> (\<exists>e bs. x = Crashed (Fatal e) \<and> rest = Inl (Fatal e) # bs \<and> pr_closed s = {})
     \<or> (\<exists>e bs. x = Crashed (Panic e) \<and> rest = Inl (Panic e) # bs \<and> main_shutdown own ends (pr_pipes s) = (pr_closed s, True)))"
  using process_reaches_inv [OF assms(1)] assms(2)
  by (intro exI [of _ "pr_todo s"]; cases x) (auto simp: process_inv_def split: failure.splits)

text \<open>The steps of \<open>main\<close> alone lower this measure.\<close>

definition main_rank :: "'i process \<Rightarrow> nat" where
  "main_rank s = (case pr_phase s of
      Starting \<Rightarrow> 3 + length (pr_pipes s) + 2 * length (pr_todo s) + 1
    | Waiting \<Rightarrow> 3 + length (pr_pipes s)
    | Closing ps \<Rightarrow> 1 + length ps
    | Unwinding e ps \<Rightarrow> 1 + length ps
    | Ended _ \<Rightarrow> 0)"

lemma main_step_rank: "main_step own ends s s' \<Longrightarrow> main_rank s' < main_rank s"
  by (induction rule: main_step.induct) (simp_all add: main_rank_def)

text \<open>\<open>main\<close> waits for the \<open>Close\<close> of a pipeline after a panic; no time limit ends this wait.\<close>

definition unwinding_stuck :: "('i \<Rightarrow> close_result) \<Rightarrow> ('i pipeline \<Rightarrow> chan set \<Rightarrow> bool) \<Rightarrow> 'i process \<Rightarrow> bool" where
  "unwinding_stuck own ends s \<longleftrightarrow> (\<exists>e p ps. pr_phase s = Unwinding e (p # ps)
     \<and> (case Pipeline_Close own (pr_closed s) p of None \<Rightarrow> True | Some closed' \<Rightarrow> \<not> ends p closed'))"

text \<open>
  Without further interrupts and failures \<open>main\<close> makes finitely many steps, and where it stops it has ended,
  waits for the first interrupt, or waits for a pipeline that does not close after a panic.
\<close>

theorem process_live:
  assumes "(process_step own ends fails)\<^sup>*\<^sup>* (process_start results) s"
  shows "wfp (main_step own ends)\<inverse>\<inverse> \<and> ((\<nexists>s'. main_step own ends s s') \<longleftrightarrow>
    (\<exists>x. pr_phase s = Ended x) \<or> pr_phase s = Waiting \<and> pr_sigs s = 0 \<or> unwinding_stuck own ends s)"
proof
  have "wfp (\<lambda>x y :: 'a process. main_rank x < main_rank y)" by (simp add: wfp_if_convertible_to_nat)
  then show "wfp (main_step own ends)\<inverse>\<inverse>" by (rule wfp_subset) (auto dest: main_step_rank)
  have ended: "\<not> main_step own ends s s'"
    if "pr_phase s = Ended x \<or> pr_phase s = Waiting \<and> pr_sigs s = 0 \<or> unwinding_stuck own ends s" for s' x
    using that by (auto simp: unwinding_stuck_def elim!: main_step.cases)
  have "\<exists>s'. main_step own ends s s'"
    if "\<nexists>x. pr_phase s = Ended x" "\<not> (pr_phase s = Waiting \<and> pr_sigs s = 0)" "\<not> unwinding_stuck own ends s"
  proof (cases "pr_phase s")
    case Starting
    show ?thesis
    proof (cases "pr_todo s")
      case (Cons b bs)
      consider (p) p where "b = Inr (Some p)" | (n) "b = Inr None" | (f) e where "b = Inl (Fatal e)" | (g) e where "b = Inl (Panic e)"
        by (cases b) (metis failure.exhaust, metis option.exhaust)
      then show ?thesis using Starting Cons by cases (auto intro: m_start m_nil m_fatal m_panic)
    qed (use Starting in \<open>auto intro: m_notify\<close>)
  next
    case Waiting
    then show ?thesis using that(2) by (auto intro: m_receive)
  next
    case (Closing ps)
    then show ?thesis by (auto intro: m_force)
  next
    case (Unwinding e ps)
    then show ?thesis using that(3) by (cases ps) (auto simp: unwinding_stuck_def intro: m_unwound m_unwind split: option.splits)
  qed (use that in auto)
  with ended show "(\<nexists>s'. main_step own ends s s') \<longleftrightarrow>
      (\<exists>x. pr_phase s = Ended x) \<or> pr_phase s = Waiting \<and> pr_sigs s = 0 \<or> unwinding_stuck own ends s"
    by metis
qed

lemma demo_process_waits:
  "main_step own ends (process_start []) (process_start []\<lparr>pr_notified := True, pr_phase := Waiting\<rparr>)"
  by (rule m_notify) (simp_all add: process_start_def)

text \<open>A pipeline is started, the next one is nil, and the process ends with status 1.\<close>

theorem process_ends_witness:
  "\<exists>s. (process_step (\<lambda>_. CloseReturns) (\<lambda>_ _. True) (\<lambda>_ _. False))\<^sup>*\<^sup>*
       (process_start [Inr (Some (Pipeline 0 1 None [Plain () False unwired])), Inr None]) s
     \<and> pr_phase s = Ended NotInitialised \<and> length (pr_pipes s) = 1 \<and> pr_closed s = {} \<and> exit_status NotInitialised = Some 1"
proof -
  let ?p = "Pipeline 0 1 None [Plain () False unwired]"
  let ?s0 = "process_start [Inr (Some ?p), Inr None]"
  let ?s1 = "?s0\<lparr>pr_todo := [Inr None], pr_pipes := [?p]\<rparr>"
  let ?s2 = "?s1\<lparr>pr_phase := Ended NotInitialised\<rparr>"
  let ?step = "process_step (\<lambda>_ :: unit. CloseReturns) (\<lambda>_ _. True) (\<lambda>_ _. False)"
  have "?step ?s0 ?s1" unfolding process_step_def
    using m_start [of ?s0 ?p "[Inr None]" "\<lambda>_. CloseReturns" "\<lambda>_ _. True"] by (simp add: process_start_def)
  moreover have "?step ?s1 ?s2" unfolding process_step_def
    using m_nil [of ?s1 "[]" "\<lambda>_. CloseReturns" "\<lambda>_ _. True"] by (simp add: process_start_def)
  ultimately have run: "?step\<^sup>*\<^sup>* ?s0 ?s2" by (meson converse_rtranclp_into_rtranclp r_into_rtranclp)
  have "pr_closed ?s2 = {}" using process_ends [OF run] by simp
  with run show ?thesis by (intro exI [of _ ?s2]) simp
qed

theorem process_live_witness:
  "\<nexists>s'. main_step (\<lambda>_. CloseReturns) (\<lambda>_ _. True) (process_start ([] :: unit pipeline option outcome list)\<lparr>pr_notified := True, pr_phase := Waiting\<rparr>) s'"
proof -
  let ?s = "process_start ([] :: unit pipeline option outcome list)\<lparr>pr_notified := True, pr_phase := Waiting\<rparr>"
  have "(process_step (\<lambda>_. CloseReturns) (\<lambda>_ _. True) (\<lambda>_ _. False))\<^sup>*\<^sup>* (process_start []) ?s"
    by (rule r_into_rtranclp) (simp add: process_step_def demo_process_waits)
  from process_live [OF this] show ?thesis by (simp add: process_start_def)
qed

section \<open>A segment asks for the shutdown\<close>

fun leaves :: "'i segment \<Rightarrow> nat" where
  "leaves (Plain i f b) = 1"
| "leaves (Branch bp c t e b) = 1"
| "leaves (Parallel ss) = sum_list (map leaves ss)"

lemma interrupt_ended: "pr_phase s = Ended x \<Longrightarrow> interrupt s = s"
  by (simp add: interrupt_def)

lemma interrupt_twice: "interrupt (interrupt s) = interrupt s"
  by (cases "pr_phase s") (auto simp: interrupt_def split: phase.splits)

lemma interrupts: "(interrupt ^^ Suc n) s = interrupt s"
  by (induction n) (simp_all add: interrupt_twice)

lemma ShutdownParentPipeline_counts: "ShutdownParentPipeline seg s = (interrupt ^^ leaves seg) s"
proof (induction seg s rule: ShutdownParentPipeline.induct)
  case (3 ss s)
  have loop: "fold ShutdownParentPipeline xs t = (interrupt ^^ sum_list (map leaves xs)) t"
    if "\<And>x t. x \<in> set xs \<Longrightarrow> ShutdownParentPipeline x t = (interrupt ^^ leaves x) t" for xs t
    using that by (induction xs arbitrary: t) (simp_all add: funpow_add [symmetric] add.commute flip: comp_apply [of "interrupt ^^ _"])
  have "fold ShutdownParentPipeline ss s = (interrupt ^^ sum_list (map leaves ss)) s" by (rule loop) (rule 3)
  then show ?case by simp
qed simp_all

text \<open>
  \<open>ShutdownParentPipeline\<close> of any segment with at least one job, in a state the process can be in: while the
  pipelines are still being started it kills the process, and no pipeline is closed; while \<open>main\<close> waits, it
  makes \<open>main\<close> close the pipelines, once, however many jobs ask for it.
\<close>

theorem shutdown_request:
  assumes "(process_step own ends fails)\<^sup>*\<^sup>* (process_start results) s" "0 < leaves seg"
  shows "(pr_phase s = Starting \<longrightarrow> pr_phase (ShutdownParentPipeline seg s) = Ended Killed \<and> pr_closed (ShutdownParentPipeline seg s) = {})
    \<and> (pr_phase s = Waiting \<longrightarrow> main_step own ends (ShutdownParentPipeline seg s) (s\<lparr>pr_sigs := 0, pr_phase := Closing (rev (pr_pipes s))\<rparr>)
          \<and> results = map (\<lambda>p. Inr (Some p)) (pr_pipes s))"
proof -
  note inv = process_reaches_inv [OF assms(1)]
  obtain n where "leaves seg = Suc n" using assms(2) by (cases "leaves seg") auto
  then have eq: "ShutdownParentPipeline seg s = interrupt s" by (simp only: ShutdownParentPipeline_counts interrupts)
  have "main_step own ends (interrupt s) (s\<lparr>pr_sigs := 0, pr_phase := Closing (rev (pr_pipes s))\<rparr>)" if w: "pr_phase s = Waiting"
  proof -
    have i: "interrupt s = s\<lparr>pr_sigs := 1\<rparr>" using inv w by (auto simp: process_inv_def interrupt_def)
    show ?thesis unfolding i using m_receive [of "s\<lparr>pr_sigs := 1\<rparr>" own ends] w by simp
  qed
  then show ?thesis using inv unfolding eq by (auto simp: process_inv_def interrupt_def)
qed

theorem shutdown_request_witness:
  "pr_phase (ShutdownParentPipeline (Parallel [Plain () False unwired, Plain () False unwired]) (process_start [Inr (Some (Pipeline 0 1 None []))]))
     = Ended Killed"
  using shutdown_request [where results = "[Inr (Some (Pipeline 0 1 None []))]" and own = "\<lambda>_. CloseReturns" and ends = "\<lambda>_ _. True" and fails = "\<lambda>_ _. False"
      and seg = "Parallel [Plain () False unwired, Plain () False unwired]", OF rtranclp.rtrancl_refl]
  by (simp add: process_start_def)

section \<open>The registered segments\<close>

text \<open>
  The names under which the packages that \<open>main.go\<close> imports register their segments, in the order of the
  imports; \<open>aggregate\<close> comes with \<open>packet\<close>, which imports its package.
\<close>

definition main_imports :: "string list" where
  "main_imports = [''http'', ''branch'', ''drop'', ''elephant'', ''flowfilter'', ''bpf'', ''diskbuffer'', ''goflow'',
     ''kafkaconsumer'', ''aggregate'', ''packet'', ''replay'', ''stdin'', ''delay_monitoring'', ''addcid'', ''addnetid'',
     ''addrstrings'', ''anonymize'', ''aslookup'', ''bgp'', ''dropfields'', ''geolocation'', ''normalize'', ''protomap'',
     ''remoteaddress'', ''reversedns'', ''SNMP'', ''sync_timestamps'', ''pass'', ''clickhouse'', ''csv'', ''influx'', ''json'',
     ''kafkaproducer'', ''lumberjack'', ''mongodb'', ''prometheus'', ''sqlite'', ''count'', ''printdots'', ''printflowdump'',
     ''toptalkers'', ''toptalkers_metrics'', ''traffic_specific_toptalkers'']"

lemma register_all_succeeds:
  "distinct (map (to_lower \<circ> fst) r) \<Longrightarrow> \<forall>(n, s)\<in>set r. reg (to_lower n) = None \<Longrightarrow> \<exists>reg'. register_all reg r = Inr reg'"
proof (induction reg r rule: register_all.induct)
  case (2 reg n s r)
  have 1: "RegisterSegment reg n s = Inr (reg(to_lower n \<mapsto> s))" using 2(3) by (simp add: RegisterSegment_def)
  have "\<forall>(n', s')\<in>set r. (reg(to_lower n \<mapsto> s)) (to_lower n') = None" using 2(2,3) by force
  moreover have "distinct (map (to_lower \<circ> fst) r)" using 2(2) by (simp add: comp_def)
  ultimately obtain reg' where "register_all (reg(to_lower n \<mapsto> s)) r = Inr reg'" using 2(1) [OF 1] by blast
  then show ?case by (simp add: 1 del: fun_upd_apply)
qed simp

lemma main_imports_distinct: "distinct (map to_lower main_imports)"
  by code_simp

text \<open>
  In whatever order the packages are initialised, the registration succeeds; afterwards every one of
  the names, in any mixture of upper and lower case, finds its segment, and any other name ends the
  process.
\<close>

theorem main_registers:
  assumes "mset (map fst r) = mset main_imports"
  shows "\<exists>reg. register_all Map.empty r = Inr reg
    \<and> (\<forall>n s k. (n, s) \<in> set r \<and> to_lower k = to_lower n \<longrightarrow> LookupSegment reg k = Inr s)
    \<and> (\<forall>k. to_lower k \<notin> to_lower ` set main_imports \<longrightarrow> (\<exists>e. LookupSegment reg k = Inl (Fatal e)))"
proof -
  have "mset (map (to_lower \<circ> fst) r) = mset (map to_lower main_imports)"
    using arg_cong [OF assms, of "image_mset to_lower"] by (simp add: image_mset.compositionality)
  then have "distinct (map (to_lower \<circ> fst) r)" using main_imports_distinct by (metis mset_eq_imp_distinct_iff)
  then obtain reg where reg: "register_all Map.empty r = Inr reg" using register_all_succeeds [of r Map.empty] by auto
  have names: "(\<lambda>(n, _). to_lower n) ` set r = to_lower ` set main_imports"
  proof -
    have "fst ` set r = set main_imports" using mset_eq_setD [OF assms] by simp
    then show ?thesis by (auto simp: image_iff split_beta) (metis fst_conv image_iff)+
  qed
  have "\<exists>e. LookupSegment reg k = Inl (Fatal e)" if "to_lower k \<notin> to_lower ` set main_imports" for k
    using register_all_lookup [OF reg, of k] that names by (simp add: LookupSegment_def)
  then show ?thesis using reg register_all_found [OF reg] by blast
qed

theorem main_registers_witness:
  "\<exists>reg. register_all Map.empty (map (\<lambda>n. (n, ())) main_imports) = Inr reg \<and> LookupSegment reg ''snmp'' = Inr ()
     \<and> (\<exists>e. LookupSegment reg ''filegate'' = Inl (Fatal e))"
proof -
  have k: "to_lower ''snmp'' = to_lower ''SNMP''" by code_simp
  have m: "(''SNMP'', ()) \<in> set (map (\<lambda>n. (n, ())) main_imports)" by (simp add: main_imports_def)
  have f: "to_lower ''filegate'' \<notin> to_lower ` set main_imports" by code_simp
  have "mset (map fst (map (\<lambda>n. (n, ())) main_imports)) = mset main_imports" by (simp add: comp_def)
  from main_registers [OF this] k m f show ?thesis by blast
qed

end
