(* ===== verification/Spec2Isabelle.thy ===== *)
theory Spec2Isabelle
  imports Prelude GoFloat GoNet FlowMessage LegacyFlow Segments Network Pipeline Config Branching
    FlowFilter FilterMeaning PrefixLists Anonymize Enrich FlowCache Toptalkers TrafficTalkers Snmp Filters
    Reflection DiskBuffer DbOutputs Mongo Replay TextOutputs Routing DropFields Metrics
    Ecs Lumberjack Kafka Printing PrintTalkers Caches Sources Bpf PacketInput Inputs Endpoints Program
    BranchNet Jobs KafkaSession DocGen MetricsServer TalkerTimers
    Lifecycle
begin

text \<open>
  \<^bold>\<open>flowpipeline\<close> reads flow messages (NetFlow and the like), sends them through a configurable
  list of segments and writes them somewhere. This development models its core in Isabelle/HOL and
  proves what makes it correct, and where the code does not do what it says, that too.

  \<^bold>\<open>The program and its model.\<close> A configuration (\<open>pipeline/pipeline_initialization.go\<close>,
  \<open>pipeline/config\<close>) is a list of segment descriptions. \<open>SegmentsFromRepr\<close> looks each up in a
  registry (\<open>segments/segments.go\<close>), expands placeholders in its options and calls \<open>New\<close>;
  \<open>pipeline.New\<close> joins the segments by channels, \<open>Start\<close> runs each in a goroutine. A segment is a
  loop over its input channel: filters pass or drop a message, modifying segments edit it. The
  segment \<open>branch\<close> contains three further pipelines.

  A message is the record \<open>EnrichedFlow\<close>, with integers at their width as words. A segment is a
  function from its state and a message to the sends it makes on its output and drop channels and
  its next state, or to a failure (a panic or the end of the process): type \<open>step\<close>, with \<open>run_loop\<close>
  for the loop. Definitions bear the names of the Go functions, with the type in front where several
  types have a method of the same name (\<open>AddCid_New\<close>, \<open>FlowFilter_step\<close> for the body of
  \<open>FlowFilter.Run\<close>). Log output is left out.

  \<^bold>\<open>Theories.\<close>
  \<^item> \<open>Prelude\<close>: words, byte slices, failures, configuration maps, the functions of \<open>strings\<close> and
    \<open>strconv\<close> that are used. \<open>GoFloat\<close>: 64-bit floating point numbers as rationals with rounding to
    nearest even, with an error bound and exactness below \<open>2^53\<close>. \<open>GoNet\<close>: \<open>net.IP\<close>, masks, prefixes.
  \<^item> \<open>FlowMessage\<close>: \<open>pb/enrichedflow.go\<close>. \<open>LegacyFlow\<close>: \<open>pb/legacyconverter.go\<close> and
    \<open>sync_timestamps\<close>: the converters are inverse, the synchronisation only fills empty timestamps.
  \<^item> \<open>Segments\<close>: loops, registry, and the two interfaces: the locale \<open>filter_segment\<close> (a message
    is passed or dropped, unchanged; from this: totality, order, conservation) and the locale
    \<open>modify_segment\<close> (one message out for each one in). The segments below interpret them.
  \<^item> \<open>Network\<close>: the goroutines of a pipeline as an interleaving step relation over unbuffered
    channels; every run ends, is free of deadlock and delivers the sequential composition.
  \<^item> \<open>Pipeline\<close>, \<open>Config\<close>: objects and wiring, drops, closing; expansion and construction.
    \<open>Branching\<close>: the two forwarding loops of \<open>branch\<close> for every scheduling. \<open>BranchNet\<close>: pipelines as
    labelled step relations that agree with \<open>Network\<close> in its environment, and a whole running branch
    built from three of them: conservation, the order of its shutdown, and the runs that panic or
    hang there. \<open>Jobs\<close>: several jobs of one segment on shared channels, and the helper of the tests.
  \<^item> \<open>FlowFilter\<close>, \<open>FilterMeaning\<close>: the visitor over filter expressions, case by case, and its
    equivalence with a meaning of expressions; the segment \<open>flowfilter\<close>.
  \<^item> \<open>PrefixLists\<close>: \<open>addcid\<close>, \<open>addnetid\<close>, \<open>remoteaddress\<close>. \<open>Anonymize\<close>. \<open>Enrich\<close>: \<open>normalize\<close>,
    \<open>addrstrings\<close>, \<open>protomap\<close> with \<open>utils/iana.go\<close>, \<open>geolocation\<close>, \<open>reversedns\<close>.
  \<^item> \<open>Caches\<close>: the locale \<open>packet_cache\<close>, what a cache of packets by flow key promises: packets are
    stored and exported, and none is lost, duplicated or put under a wrong key. \<open>FlowCache\<close>: the flow
    cache of \<open>aggregate\<close> with its lock, its timers and the sends that block under the lock, and \<open>Bpf\<close>: the input \<open>bpf\<close>, with the decoding of
    samples and its own cache, interpret it. \<open>PacketInput\<close>: the input \<open>packet\<close> over \<open>FlowCache\<close>.
  \<^item> \<open>Sources\<close>: the select loop of an input segment, which merges its source with the flows of the
    segment before. It runs \<open>Bpf\<close>, \<open>PacketInput\<close> and \<open>Inputs\<close>: \<open>stdin\<close> (with the round trip from
    \<open>json\<close>), \<open>goflow\<close> and \<open>generator\<close>. \<open>Kafka\<close>: \<open>kafkaconsumer\<close> and \<open>kafkaproducer\<close>, and the
    transport from one to the other. \<open>KafkaSession\<close>: the goroutines of the consumer and its sessions as
    a step relation, with the states from which its shutdown does not end.
  \<^item> \<open>Toptalkers\<close>, \<open>TrafficTalkers\<close>: \<open>toptalkers_metrics\<close> and \<open>traffic_specific_toptalkers\<close>: ring
    buffers refine sliding windows, the threshold test is exact, who is counted where.
  \<^item> \<open>Snmp\<close>: the query cache as a step relation with its invariants; its entries expire. \<open>Filters\<close>: \<open>drop\<close>, \<open>pass\<close>,
    \<open>elephant\<close>, \<open>count\<close>, \<open>printdots\<close>. \<open>Routing\<close>: \<open>bgp\<close> and \<open>aslookup\<close>.
  \<^item> \<open>Reflection\<close>: the fields of a flow by name, with their types and texts, as package \<open>reflect\<close> and
    \<open>fmt.Sprint\<close> show them to the segments that follow. \<open>DropFields\<close>: \<open>dropfields\<close>.
  \<^item> \<open>DiskBuffer\<close>: the nine goroutines of \<open>diskbuffer\<close> with their queue, files and signal channels as
    one step relation: the bound of the queue, exclusion of \<open>WriteToDisk\<close> and \<open>ReadFromDisk\<close>, conservation of
    flows without an emergency stop, and the runs that hang, panic or lose flows.
  \<^item> \<open>DbOutputs\<close>: \<open>sqlite\<close> and \<open>clickhouse\<close>; the locale \<open>batch_writer\<close> is their common batching, and
    gives that every flow is stored once and in order. \<open>Mongo\<close>: \<open>mongodb\<close> with its three goroutines.
    \<open>Replay\<close>: \<open>replay\<close>, and the round trip from \<open>sqlite\<close> through the table to \<open>replay\<close>.
  \<^item> \<open>TextOutputs\<close>: \<open>csv\<close>, with a reader of its files as the reference, and \<open>json\<close>. \<open>Metrics\<close>: the
    counters of \<open>prometheus\<close> and the averages of \<open>delay_monitoring\<close>. \<open>MetricsServer\<close>: the endpoints of
    the four segments that publish metrics, the vacuum job, and the locale \<open>collector\<close>: what a registry
    asks of the samples. \<open>TalkerTimers\<close>: the goroutines of \<open>traffic_specific_toptalkers\<close> and their end.
  \<^item> \<open>Ecs\<close>, \<open>Lumberjack\<close>: the conversion of flows to ECS, the clients with their dialling and retries, and the writers
    of \<open>lumberjack\<close> as a step relation. \<open>Endpoints\<close>: \<open>influx\<close> with the calls of its client, \<open>http\<close> and \<open>filegate\<close>.
  \<^item> \<open>Printing\<close>: \<open>printflowdump\<close>. \<open>PrintTalkers\<close>: \<open>print/toptalkers\<close>: its database refines the history
    of flows, and what a report shows.
  \<^item> \<open>Program\<close>: \<open>main.go\<close>: flags, plugins, the pipelines and their shutdown. Segments whose \<open>New\<close> returns
    the registered object (\<open>filegate\<close>, \<open>diskbuffer\<close>, \<open>lumberjack\<close>) are the same object wherever they
    are used (\<open>share_objects\<close>); without them the pipelines share no channel. With
    the segment objects in a heap: the wiring by value is refined as long as no object is used
    twice, and what happens if one is. \<open>Lifecycle\<close>: the process from its start to its end under
    interrupts, panics and fatal errors at any time, and the registration of all segments. \<open>DocGen\<close>: the generator of the guide
    (\<open>meta/doc_generator\<close>); its table of contents is that of its sections.
  \<^item> this theory: properties that span components.

  \<^bold>\<open>Parameters.\<close> Code of other packages is a parameter: the filter parser and its traversal (with
  the hypothesis \<open>post_order\<close>: children are visited before the node's own evaluation, up to the first
  error), the prefix trie's lookup, the CSV reader, the CryptoPan cipher, the GeoIP database, the
  resolver, the percentile window, the SNMP client, protobuf's merge and JSON encoding (for \<open>diskbuffer\<close>
  with the hypothesis \<open>codec_ok\<close>: an encoded flow is one line and decodes to itself), the routers of
  \<open>bgp\<close>, the AS database, which operations of a database succeed, the Kafka client's encoding (with
  the hypothesis \<open>inverse_codec\<close>), protobuf's JSON on one line (\<open>line_codec\<close>), the zstd encoder, how
  Kafka distributes messages over partitions, the URL and YAML parsers,
  the sliding windows of package \<open>rolling\<close> and the format of numbers for the printed reports, the
  results of calls to the kernel and of opening a capture, the answers of HTTP and Logstash servers, the
  wall clock. Where a theorem has a hypothesis on one, its witness instantiates it.

  \<^bold>\<open>Bounds.\<close> No definition uses fuel; the recursions that are not structural (the expansion of
  placeholders, splitting into words, printing of numbers) come with termination proofs. Sums of traffic are 64-bit words that
  wrap; where a theorem needs them not to, it says so. A runtime that is out of memory and data races
  between goroutines that share an object without a lock are outside the model.

  \<^bold>\<open>Not modelled.\<close> The libraries behind the inputs and outputs (decoding of NetFlow, capture, the
  clients of Kafka, InfluxDB, MongoDB and Prometheus), except through the parameters above;
  whether a port can be bound, and methods, hosts and wildcards in the patterns of the HTTP server;
  errors of the file system in \<open>diskbuffer\<close>; what the generator of the guide reads from the sources with \<open>go/doc\<close>; log output. In the
  step relation of a branch its inner pipelines contain no further branch.
\<close>

section \<open>Pipelines of several segments\<close>

text \<open>
  C5. End to end, a pipeline of \<open>flowfilter\<close> and \<open>normalize\<close>, where \<open>New\<close> accepted the filter, its
  expression is well-formed, the AS path of every flow is not empty and at least as long as each of its
  \<open>passes-through\<close> lists (if it has one), and the drops are subscribed: however its goroutines are scheduled, when
  the input has been closed and nothing moves any more, all goroutines have ended, the output has
  received exactly the flows the filter expression holds for, in their order and normalised, and the
  subscriber of the drops has received the others, unchanged.
\<close>

theorem filter_normalize_pipeline:
  assumes "post_order parser_Visit" "parser_Parse (cfg config ''filter'') = Some e" "expr_wf e"
    and "FlowFilter_New parser_Visit parser_Parse config = Inr (Some f)" "\<forall>m\<in>set ms. expr_fits m e"
    and "net_step\<^sup>*\<^sup>* (start_net [mk_seg (FlowFilter_step parser_Visit) (f\<lparr>Drops := True\<rparr>), mk_seg Normalize_step c] ms) n"
    and "\<nexists>n'. net_step n n'"
  shows "finished n \<and> out_got n = map (Normalize_msg c) (filter (\<lambda>m. expr_holds m e) ms)
    \<and> mset (drop_got n) = mset (filter (\<lambda>m. \<not> expr_holds m e) ms)"
proof -
  let ?f = "f\<lparr>Drops := True\<rparr>"
  note new = FlowFilter_New_validated [OF assms(1-4)]
  have "validated ?f" "\<forall>m\<in>set ms. expr_fits m (expression ?f)" using new(1,3) assms(5) by (simp_all add: validated_def)
  then obtain es f' where run: "run_loop (FlowFilter_step parser_Visit) ?f ms = Inr (es, f')"
    "outs es = filter (\<lambda>m. expr_holds m e) ms" "drops es = filter (\<lambda>m. \<not> expr_holds m e) ms"
    using flowfilter_run [OF assms(1), of ?f ms] new(2) by auto
  have "pipeline_run [mk_seg (FlowFilter_step parser_Visit) ?f, mk_seg Normalize_step c] ms =
      Inr (map (Normalize_msg c) (filter (\<lambda>m. expr_holds m e) ms), mset (filter (\<lambda>m. \<not> expr_holds m e) ms))"
    by (simp add: seg_run_mk_seg run Normalize_step_def run_edit_step)
  then show ?thesis using run_to_the_end [OF _ _ assms(6,7)] by blast
qed

theorem filter_normalize_pipeline_witness:
  "\<exists>f n. net_step\<^sup>*\<^sup>* (start_net [mk_seg (FlowFilter_step walk) f, mk_seg Normalize_step \<lparr>Fallback = 0\<rparr>]
         [zero_flow, zero_flow\<lparr>Proto := 6, Bytes := 10, SamplingRate := 2\<rparr>]) n
     \<and> finished n \<and> map Bytes (out_got n) = [20] \<and> mset (drop_got n) = {#zero_flow#}"
proof -
  let ?m = "zero_flow\<lparr>Proto := 6, Bytes := 10, SamplingRate := 2\<rparr>"
  obtain f where f: "FlowFilter_New walk [''proto 6'' \<mapsto> proto6] [''filter'' \<mapsto> ''proto 6''] = Inr (Some f)"
    using FlowFilter_New_proto6 by blast
  have p: "[''proto 6'' \<mapsto> proto6] (cfg [''filter'' \<mapsto> ''proto 6''] ''filter'') = Some proto6" by (simp add: cfg_def)
  let ?ss = "[mk_seg (FlowFilter_step walk) (f\<lparr>Drops := True\<rparr>), mk_seg Normalize_step \<lparr>Fallback = 0\<rparr>]"
  note v = FlowFilter_New_validated [OF walk_post_order p proto6_facts(1) f]
  have "validated (f\<lparr>Drops := True\<rparr>)" using v(1) by (simp add: validated_def)
  then obtain es f' where "run_loop (FlowFilter_step walk) (f\<lparr>Drops := True\<rparr>) [zero_flow, ?m] = Inr (es, f')"
    using flowfilter_run [OF walk_post_order, of "f\<lparr>Drops := True\<rparr>" "[zero_flow, ?m]"] v(3) proto6_facts(3) by auto
  then obtain r where "pipeline_run ?ss [zero_flow, ?m] = Inr r"
    by (simp add: seg_run_mk_seg Normalize_step_def run_edit_step)
  then obtain n where n: "net_step\<^sup>*\<^sup>* (start_net ?ss [zero_flow, ?m]) n" "\<nexists>n'. net_step n n'"
    using start_delivers run_ends by (metis prod.exhaust)
  have "finished n \<and> out_got n = map (Normalize_msg \<lparr>Fallback = 0\<rparr>) (filter (\<lambda>m. expr_holds m proto6) [zero_flow, ?m])
    \<and> mset (drop_got n) = mset (filter (\<lambda>m. \<not> expr_holds m proto6) [zero_flow, ?m])"
    by (rule filter_normalize_pipeline [OF walk_post_order p proto6_facts(1) f _ n]) (simp add: proto6_facts)
  moreover have "Proto zero_flow = 0" by (simp add: zero_flow_def)
  ultimately show ?thesis using n(1) by (intro exI [of _ "f\<lparr>Drops := True\<rparr>"] exI [of _ n])
      (simp add: proto6_facts Normalize_msg_def)
qed

text \<open>
  C30. \<open>remoteaddress\<close> with policy \<open>border\<close> in front of \<open>addcid\<close> without \<open>matchboth\<close> and without
  \<open>dropunmatched\<close>, on flows whose direction is incoming or outgoing: no flow is lost, and every flow
  gets the customer of its local end, which is the destination of an incoming and the
  source of an outgoing flow.
\<close>

theorem border_then_addcid:
  assumes "ra_Policy r = ''border''" "\<not> cid_MatchBoth a" "\<not> cid_DropUnmatched a"
    and "\<forall>m\<in>set ms. FlowDirection m \<in> {0, 1}"
  shows "\<exists>os. pipeline_run [mk_seg (RemoteAddress_step rlookup) r, mk_seg (AddCid_step clookup) a] ms = Inr (os, {#})
    \<and> list_all2 (\<lambda>m x. Cid x = cid_of clookup (cid_tries a) (if FlowDirection m = 0 then DstAddr m else SrcAddr m)
        \<and> SrcAddr x = SrcAddr m \<and> DstAddr x = DstAddr m \<and> Bytes x = Bytes m) ms os"
proof -
  define side where "side m = (if FlowDirection m = 0 then 1 else 2 :: u32)" for m :: EnrichedFlow
  define g where "g m = m\<lparr>RemoteAddr := side m, Cid := cid_of clookup (cid_tries a) (if FlowDirection m = 0 then DstAddr m else SrcAddr m)\<rparr>" for m :: EnrichedFlow
  have r: "RemoteAddress_msg rlookup r m = m\<lparr>RemoteAddr := side m\<rparr>" if "FlowDirection m \<in> {0, 1}" for m
    using that assms(1) by (auto simp: RemoteAddress_msg_def side_def)
  have l: "local_address (m\<lparr>RemoteAddr := side m\<rparr>) = Some (if FlowDirection m = 0 then DstAddr m else SrcAddr m)" for m
    by (simp add: local_address_def side_def)
  have step: "AddCid_step clookup a (RemoteAddress_msg rlookup r m) = Inr ([Out (g m)], a)" if "FlowDirection m \<in> {0, 1}" for m
    using assms(2,3) unfolding r [OF that] AddCid_step_def l by (simp add: g_def Let_def)
  have run: "run_loop (AddCid_step clookup) a (map (RemoteAddress_msg rlookup r) ms) = Inr (map (\<lambda>m. Out (g m)) ms, a)"
    using assms(4) by (induction ms) (simp_all add: step)
  have "pipeline_run [mk_seg (RemoteAddress_step rlookup) r, mk_seg (AddCid_step clookup) a] ms = Inr (map g ms, {#})"
    by (simp add: seg_run_mk_seg RemoteAddress_step_def run_edit_step run)
  moreover have "list_all2 (\<lambda>m x. Cid x = cid_of clookup (cid_tries a) (if FlowDirection m = 0 then DstAddr m else SrcAddr m)
        \<and> SrcAddr x = SrcAddr m \<and> DstAddr x = DstAddr m \<and> Bytes x = Bytes m) ms (map g ms)"
    by (simp add: list_all2_map2 list_all2_same g_def)
  ultimately show ?thesis by blast
qed

theorem border_then_addcid_witness:
  "\<exists>os. pipeline_run [mk_seg (RemoteAddress_step (\<lambda>_ _. None)) \<lparr>ra_Policy = ''border'', ra_DropUnmatched = False, ra_tries = ([], [])\<rparr>,
       mk_seg (AddCid_step (\<lambda>t ip. if ip = [10, 0, 0, 1] then Some 42 else None))
         \<lparr>cid_DropUnmatched = False, cid_MatchBoth = False, cid_tries = ([], [])\<rparr>]
       [zero_flow\<lparr>DstAddr := Some [10, 0, 0, 1]\<rparr>] = Inr (os, {#}) \<and> map Cid os = [42]"
proof -
  have z: "FlowDirection zero_flow = 0" by (simp add: zero_flow_def)
  show ?thesis
    using border_then_addcid [of "\<lparr>ra_Policy = ''border'', ra_DropUnmatched = False, ra_tries = ([], [])\<rparr>"
        "\<lparr>cid_DropUnmatched = False, cid_MatchBoth = False, cid_tries = ([], [])\<rparr>"
        "[zero_flow\<lparr>DstAddr := Some [10, 0, 0, 1]\<rparr>]" "\<lambda>_ _. None" "\<lambda>t ip. if ip = [10, 0, 0, 1] then Some 42 else None"] z
    by (auto simp: list_all2_Cons1 cid_of_def)
qed

end
